(* ===== verification/Prelude.thy ===== *)
theory Prelude
  imports Main "HOL-Library.Word" "HOL-Library.Char_ord" "HOL-Library.List_Lexorder"
    "HOL-Library.Product_Lexorder" "HOL-Library.Sublist"
begin

text \<open>
  Shared vocabulary of the development: the result type of fallible operations, the unsigned
  machine integers of the sources, ordered maps (the standard library's \<open>BTreeMap\<close>), UTF-8
  strings, JSON documents, and the small list facts the components share.

  Conventions.
  \<^item> A Rust \<open>String\<close> is its UTF-8 byte sequence, a \<open>string\<close>; \<open>len\<close> is then \<open>length\<close> and the
    derived order on strings is the byte-wise lexicographic order, as in the standard library.
  \<^item> A \<open>BTreeMap\<close> is the list of its entries in ascending key order. Iteration is list
    traversal, \<open>get\<close> is \<open>map_of\<close>.
  \<^item> \<open>u64\<close> and \<open>usize\<close> are \<open>64 word\<close>.
  \<^item> \<open>DateTime<Utc>\<close> is an \<open>int\<close> (nanoseconds); \<open>Utc::now()\<close> is an argument of the operation
    that reads the clock.
\<close>

named_theorems bt_simps \<open>lookup laws of ordered maps\<close>
named_theorems u64_simps \<open>unsigned reading of checked and saturating arithmetic\<close>
named_theorems store_defs \<open>definitions of store operations that invariant proofs unfold\<close>

section \<open>Results\<close>

text \<open>
  \<open>Result<T, E>\<close>. A panic (\<open>unreachable!\<close>) is a third outcome, so that its absence is a
  statement about the model.
\<close>

datatype ('a, 'e) result = Ok 'a | Err 'e | Panic

definition is_ok :: "('a, 'e) result \<Rightarrow> bool" where
  "is_ok r = (case r of Ok _ \<Rightarrow> True | _ \<Rightarrow> False)"

lemma is_ok_simps [simp]: "is_ok (Ok x)" "\<not> is_ok (Err e)" "\<not> is_ok Panic"
  by (simp_all add: is_ok_def)

lemma is_okE [elim!]:
  assumes "is_ok r"
  obtains x where "r = Ok x"
  using assms by (cases r) auto

fun result_map :: "('a \<Rightarrow> 'b) \<Rightarrow> ('a, 'e) result \<Rightarrow> ('b, 'e) result" where
  "result_map f (Ok x) = Ok (f x)"
| "result_map f (Err e) = Err e"
| "result_map f Panic = Panic"

text \<open>Collecting an iterator of results stops at the first failure.\<close>

fun collect_results :: "('a, 'e) result list \<Rightarrow> ('a list, 'e) result" where
  "collect_results [] = Ok []"
| "collect_results (r # rs) =
     (case r of
        Ok x \<Rightarrow> result_map (Cons x) (collect_results rs)
      | Err e \<Rightarrow> Err e
      | Panic \<Rightarrow> Panic)"

lemma collect_results_Ok_iff:
  "collect_results rs = Ok xs \<longleftrightarrow> rs = map Ok xs"
proof (induction rs arbitrary: xs)
  case (Cons r rs)
  have aux: "result_map (Cons x) q = Ok zs \<longleftrightarrow> (\<exists>ys. q = Ok ys \<and> zs = x # ys)" for x q zs
    by (cases q) auto
  show ?case
    by (cases r; cases xs) (auto simp: aux Cons.IH)
qed auto

section \<open>Unsigned machine integers\<close>

type_synonym u64 = "64 word"
type_synonym datetime = int

definition u64_checked_add :: "u64 \<Rightarrow> u64 \<Rightarrow> u64 option" where
  "u64_checked_add a b = (if unat a + unat b < 2 ^ 64 then Some (a + b) else None)"

definition u64_saturating_add :: "u64 \<Rightarrow> u64 \<Rightarrow> u64" where
  "u64_saturating_add a b = (if unat a + unat b < 2 ^ 64 then a + b else - 1)"

definition u64_saturating_sub :: "u64 \<Rightarrow> u64 \<Rightarrow> u64" where
  "u64_saturating_sub a b = (if b \<le> a then a - b else 0)"

lemma u64_checked_add_Some [u64_simps]:
  "u64_checked_add a b = Some c \<longleftrightarrow> unat a + unat b < 2 ^ 64 \<and> c = a + b"
  by (auto simp: u64_checked_add_def)

lemma unat_u64_add: "unat (a::u64) + unat b < 2 ^ 64 \<Longrightarrow> unat (a + b) = unat a + unat b"
  by (simp add: unat_word_ariths)

lemma unat_u64_checked_add:
  "u64_checked_add a b = Some c \<Longrightarrow> unat c = unat a + unat b"
  by (auto simp: u64_checked_add_Some unat_u64_add)

lemma unat_u64_minus_one: "unat (- 1 :: u64) = 2 ^ 64 - 1"
  by (simp add: unsigned_minus_1_eq_mask mask_eq_exp_minus_1)

lemma u64_unat_bound: "unat (a::u64) < 2 ^ 64"
  using unsigned_less [of a] by simp

lemma unat_u64_saturating_add:
  "unat (u64_saturating_add a b) = min (unat a + unat b) (2 ^ 64 - 1)"
  using u64_unat_bound [of a]
  by (auto simp: u64_saturating_add_def unat_u64_add unat_u64_minus_one min_def)

lemma u64_saturating_add_mono: "a \<le> u64_saturating_add a b"
  using u64_unat_bound [of a] by (simp add: word_le_nat_alt unat_u64_saturating_add)

lemma u64_saturating_add_one_strict:
  "a \<noteq> - 1 \<Longrightarrow> a < u64_saturating_add a 1"
proof -
  assume "a \<noteq> - 1"
  then have "unat a \<noteq> unat (- 1 :: u64)"
    by (metis word_unat_eq_iff)
  then have "unat a < 2 ^ 64 - 1"
    using u64_unat_bound [of a] by (simp add: unat_u64_minus_one)
  then show ?thesis
    by (simp add: word_less_nat_alt unat_u64_saturating_add)
qed

text \<open>
  Executable forms: the overflow test on the words themselves, so that evaluation never builds the
  natural number \<open>2 ^ 64\<close>.
\<close>

lemma u64_no_overflow_iff: "unat (a::u64) + unat b < 2 ^ 64 \<longleftrightarrow> a \<le> a + b"
  by (simp add: no_olen_add_nat)

lemma u64_checked_add_code [code]:
  "u64_checked_add a b = (let c = a + b in if a \<le> c then Some c else None)"
  unfolding u64_checked_add_def u64_no_overflow_iff Let_def ..

lemma u64_saturating_add_code [code]:
  "u64_saturating_add a b = (let c = a + b in if a \<le> c then c else - 1)"
  unfolding u64_saturating_add_def u64_no_overflow_iff Let_def ..

text \<open>\<open>u32::try_from\<close> of a list index.\<close>

lemma unat_foldl_saturating:
  "unat (foldl u64_saturating_add a xs) = min (unat a + sum_list (map unat xs)) (2 ^ 64 - 1)"
proof (induction xs arbitrary: a)
  case Nil
  show ?case using u64_unat_bound [of a] by simp
next
  case (Cons x xs)
  show ?case by (simp add: Cons.IH unat_u64_saturating_add)
qed

definition fits_u32 :: "nat \<Rightarrow> bool" where
  "fits_u32 n \<longleftrightarrow> n < 2 ^ 32"

lemma fits_u32_code [code]: "fits_u32 n \<longleftrightarrow> int n < 4294967296"
  by (simp add: fits_u32_def)

section \<open>Ordered maps\<close>

type_synonym ('k, 'v) btmap = "('k \<times> 'v) list"

fun bt_insert :: "'k::linorder \<Rightarrow> 'v \<Rightarrow> ('k, 'v) btmap \<Rightarrow> ('k, 'v) btmap" where
  "bt_insert k v [] = [(k, v)]"
| "bt_insert k v ((k', v') # m) =
     (if k < k' then (k, v) # (k', v') # m
      else if k = k' then (k, v) # m
      else (k', v') # bt_insert k v m)"

definition bt_remove :: "'k \<Rightarrow> ('k, 'v) btmap \<Rightarrow> ('k, 'v) btmap" where
  "bt_remove k m = filter (\<lambda>p. fst p \<noteq> k) m"

definition bt_contains :: "('k, 'v) btmap \<Rightarrow> 'k \<Rightarrow> bool" where
  "bt_contains m k \<longleftrightarrow> map_of m k \<noteq> None"

definition bt_values :: "('k, 'v) btmap \<Rightarrow> 'v list" where
  "bt_values m = map snd m"

definition bt_last :: "('k, 'v) btmap \<Rightarrow> ('k \<times> 'v) option" where
  "bt_last m = (if m = [] then None else Some (last m))"

definition bt_wf :: "('k::linorder, 'v) btmap \<Rightarrow> bool" where
  "bt_wf m \<longleftrightarrow> sorted_wrt (<) (map fst m)"

lemma map_of_bt_insert [simp, bt_simps]: "map_of (bt_insert k v m) = (map_of m)(k \<mapsto> v)"
  by (induction k v m rule: bt_insert.induct) (auto simp: fun_eq_iff)

lemma map_of_bt_remove [simp, bt_simps]: "map_of (bt_remove k m) = (map_of m)(k := None)"
  by (induction m) (auto simp: bt_remove_def fun_eq_iff)

lemma bt_contains_simps [simp, bt_simps]:
  "\<not> bt_contains [] k"
  "bt_contains (bt_insert k v m) k' \<longleftrightarrow> k' = k \<or> bt_contains m k'"
  "bt_contains (bt_remove k m) k' \<longleftrightarrow> k' \<noteq> k \<and> bt_contains m k'"
  by (auto simp: bt_contains_def)

lemma bt_contains_iff: "bt_contains m k \<longleftrightarrow> (\<exists>v. map_of m k = Some v)"
  by (auto simp: bt_contains_def)

lemma keys_bt_insert: "fst ` set (bt_insert k v m) = insert k (fst ` set m)"
  by (induction k v m rule: bt_insert.induct) auto

definition bt_keys :: "('k, 'v) btmap \<Rightarrow> 'k set" where
  "bt_keys m = fst ` set m"

lemma bt_keys_simps [simp]:
  "bt_keys [] = {}"
  "bt_keys (bt_insert k v m) = insert k (bt_keys m)"
  "bt_keys (bt_remove k m) = bt_keys m - {k}"
  "bt_keys (map (\<lambda>(k, v). (k, f v)) m) = bt_keys m"
  by (force simp: bt_keys_def keys_bt_insert bt_remove_def image_iff)+

lemma bt_contains_keys: "bt_contains m k \<longleftrightarrow> k \<in> bt_keys m"
  by (simp add: bt_keys_def bt_contains_def map_of_eq_None_iff)

lemma map_of_None_keys: "map_of m k = None \<longleftrightarrow> k \<notin> bt_keys m"
  by (simp add: bt_keys_def map_of_eq_None_iff)

lemma bt_wf_map_values: "bt_wf (map (\<lambda>(k, v). (k, f v)) m) \<longleftrightarrow> bt_wf m"
  by (simp add: bt_wf_def comp_def case_prod_beta)

lemma map_of_map_values: "map_of (map (\<lambda>(k, v). (k, f v)) m) k = map_option f (map_of m k)"
  by (induction m) auto

lemma bt_insert_last: "\<forall>k' \<in> fst ` set m. k' < k \<Longrightarrow> bt_insert k v m = m @ [(k, v)]"
  by (induction k v m rule: bt_insert.induct) auto

lemma bt_wf_Nil [simp]: "bt_wf []"
  by (simp add: bt_wf_def)

lemma bt_wf_insert [simp]: "bt_wf m \<Longrightarrow> bt_wf (bt_insert k v m)"
proof (induction k v m rule: bt_insert.induct)
  case (2 k v k' v' m)
  then have wf: "bt_wf m" and lt: "\<forall>x \<in> fst ` set m. k' < x"
    by (auto simp: bt_wf_def)
  have "\<forall>x \<in> fst ` set (bt_insert k v m). k' < x" if "k' < k"
    using lt that by (auto simp: keys_bt_insert)
  with 2 wf lt show ?case
    by (auto simp: bt_wf_def dest: less_trans)
qed (simp add: bt_wf_def)

lemma bt_wf_remove [simp]: "bt_wf m \<Longrightarrow> bt_wf (bt_remove k m)"
  by (induction m) (auto simp: bt_wf_def bt_remove_def)

lemma bt_wf_distinct: "bt_wf m \<Longrightarrow> distinct (map fst m)"
  by (simp add: bt_wf_def strict_sorted_iff)

lemma bt_wf_map_of_iff: "bt_wf m \<Longrightarrow> map_of m k = Some v \<longleftrightarrow> (k, v) \<in> set m"
  by (simp add: bt_wf_distinct)

lemma map_of_Some_in_values: "map_of m k = Some v \<Longrightarrow> v \<in> set (bt_values m)"
  by (auto simp: bt_values_def dest: map_of_SomeD intro: rev_image_eqI)

lemma bt_last_greatest:
  assumes "bt_wf m" and "bt_last m = Some (k, v)" and "map_of m k' = Some v'"
  shows "k' \<le> k"
proof -
  from assms(2) have ne: "m \<noteq> []" and l: "last m = (k, v)"
    by (auto simp: bt_last_def split: if_splits)
  then obtain m0 where m: "m = m0 @ [(k, v)]"
    by (metis append_butlast_last_id)
  from assms(3) have "(k', v') \<in> set m" by (rule map_of_SomeD)
  with m assms(1) show ?thesis
    by (auto simp: bt_wf_def sorted_wrt_append)
qed

lemma bt_insert_same: "bt_wf m \<Longrightarrow> map_of m k = Some v \<Longrightarrow> bt_insert k v m = m"
  by (induction m) (fastforce simp: bt_wf_def dest: map_of_SomeD)+

lemma sum_list_bt_insert:
  fixes f :: "'v \<Rightarrow> nat"
  assumes "bt_wf m"
  shows "sum_list (map f (filter P (bt_values (bt_insert k v m)))) =
     (if P v then f v else 0) + sum_list (map f (filter P (bt_values (bt_remove k m))))"
  using assms
proof (induction m)
  case Nil
  show ?case by (simp add: bt_values_def bt_remove_def)
next
  case (Cons e m)
  obtain j w where e: "e = (j, w)" by (cases e)
  have wf: "bt_wf m" using Cons.prems by (auto simp: bt_wf_def)
  have gt: "\<forall>x \<in> set m. j < fst x" using Cons.prems e by (auto simp: bt_wf_def)
  show ?case
  proof (cases "k < j")
    case True
    then have "filter (\<lambda>x. fst x \<noteq> k) (e # m) = e # m"
      using gt e by (intro filter_True) auto
    with True e show ?thesis by (simp add: bt_values_def bt_remove_def split: prod.split)
  next
    case False
    show ?thesis
    proof (cases "k = j")
      case True
      then have "filter (\<lambda>x. fst x \<noteq> k) m = m" using gt by (intro filter_True) auto
      with True e show ?thesis by (simp add: bt_values_def bt_remove_def)
    next
      case neq: False
      with False e Cons.IH [OF wf] show ?thesis by (simp add: bt_values_def bt_remove_def)
    qed
  qed
qed

text \<open>
  The interface the components rely on: a finite map with ordered entries. Its laws are what
  \<open>BTreeMap\<close> documents; the clients' facts are proved from the laws alone.
\<close>

locale ordered_map =
  fixes insert_op :: "'k::linorder \<Rightarrow> 'v \<Rightarrow> 'm \<Rightarrow> 'm"
    and remove_op :: "'k \<Rightarrow> 'm \<Rightarrow> 'm"
    and get_op :: "'m \<Rightarrow> 'k \<Rightarrow> 'v option"
    and entries :: "'m \<Rightarrow> ('k \<times> 'v) list"
    and wf :: "'m \<Rightarrow> bool"
  assumes get_insert: "get_op (insert_op k v m) = (get_op m)(k \<mapsto> v)"
    and get_remove: "get_op (remove_op k m) = (get_op m)(k := None)"
    and wf_insert: "wf m \<Longrightarrow> wf (insert_op k v m)"
    and wf_remove: "wf m \<Longrightarrow> wf (remove_op k m)"
    and entries_sorted: "wf m \<Longrightarrow> sorted_wrt (<) (map fst (entries m))"
    and entries_get: "wf m \<Longrightarrow> (k, v) \<in> set (entries m) \<longleftrightarrow> get_op m k = Some v"
begin

lemma entries_insert:
  assumes "wf m"
  shows "set (entries (insert_op k v m)) = insert (k, v) {e \<in> set (entries m). fst e \<noteq> k}"
  using entries_get [OF assms] entries_get [OF wf_insert [OF assms, of k v]]
  by (auto simp: get_insert split: if_splits)

lemma entries_remove:
  assumes "wf m"
  shows "set (entries (remove_op k m)) = {e \<in> set (entries m). fst e \<noteq> k}"
  using entries_get [OF assms] entries_get [OF wf_remove [OF assms, of k]]
  by (auto simp: get_remove split: if_splits)

lemma value_invariant_insert:
  assumes "wf m" and "\<forall>e \<in> set (entries m). P (fst e) (snd e)" and "P k v"
  shows "\<forall>e \<in> set (entries (insert_op k v m)). P (fst e) (snd e)"
  using assms by (auto simp: entries_insert)

lemma entries_functional:
  assumes "wf m" and "(k, v) \<in> set (entries m)" and "(k, w) \<in> set (entries m)"
  shows "v = w"
  using assms by (simp add: entries_get)

end

interpretation btm: ordered_map bt_insert bt_remove map_of "\<lambda>m. m" bt_wf
proof unfold_locales
  fix m :: "('a \<times> 'b) list" and k v
  assume "bt_wf m"
  then show "(k, v) \<in> set m \<longleftrightarrow> map_of m k = Some v"
    by (simp add: bt_wf_map_of_iff)
qed (auto simp: bt_wf_def [symmetric])

text \<open>Ordered sets (\<open>BTreeSet\<close>) are maps to the unit value.\<close>

type_synonym 'k btset = "('k, unit) btmap"

section \<open>Strings\<close>

text \<open>
  Characters of a UTF-8 byte sequence: every byte that is not a continuation byte starts one.
  \<open>chars().count()\<close> and \<open>chars().take(n)\<close> work on characters, not on bytes.
\<close>

definition is_continuation_byte :: "char \<Rightarrow> bool" where
  "is_continuation_byte c \<longleftrightarrow> 128 \<le> (of_char c :: nat) \<and> (of_char c :: nat) < 192"

definition chars_count :: "string \<Rightarrow> nat" where
  "chars_count s = length (filter (\<lambda>c. \<not> is_continuation_byte c) s)"

fun chars_take :: "nat \<Rightarrow> string \<Rightarrow> string" where
  "chars_take n [] = []"
| "chars_take n (c # s) =
     (if is_continuation_byte c then c # chars_take n s
      else case n of 0 \<Rightarrow> [] | Suc m \<Rightarrow> c # chars_take m s)"

lemma chars_count_take: "chars_count (chars_take n s) = min n (chars_count s)"
  by (induction n s rule: chars_take.induct) (auto simp: chars_count_def split: nat.splits)

lemma chars_take_prefix: "prefix (chars_take n s) s"
  by (induction n s rule: chars_take.induct) (auto split: nat.splits)

text \<open>
  \<open>str::replace\<close> with a non-empty pattern: the occurrences from left to right, without overlap.
\<close>

function str_replace :: "string \<Rightarrow> string \<Rightarrow> string \<Rightarrow> string" where
  "str_replace pat rep s =
     (case s of
        [] \<Rightarrow> []
      | c # cs \<Rightarrow>
          if pat \<noteq> [] \<and> prefix pat s then rep @ str_replace pat rep (drop (length pat) s)
          else c # str_replace pat rep cs)"
  by pat_completeness auto
termination
  by (relation "measure (\<lambda>(_, _, s). length s)") auto

declare str_replace.simps [simp del]

lemma str_replace_absent: "\<not> sublist pat s \<Longrightarrow> str_replace pat rep s = s"
proof (induction s)
  case (Cons c s)
  then have "\<not> prefix pat (c # s)" "\<not> sublist pat s" by (auto simp: sublist_Cons_right)
  with Cons.IH show ?case by (subst str_replace.simps) simp
qed (simp add: str_replace.simps)

text \<open>
  \<open>str::trim\<close> removes leading and trailing characters with the Unicode \<open>White_Space\<close> property.
  The table lists their UTF-8 encodings.
\<close>

definition whitespace_encodings :: "string list" where
  "whitespace_encodings =
     map (\<lambda>n. [char_of (n::nat)]) [9, 10, 11, 12, 13, 32]
     @ map (map char_of)
         ([[194, 133], [194, 160], [225, 154, 128], [226, 128, 168], [226, 128, 169],
           [226, 128, 175], [226, 129, 159], [227, 128, 128 :: nat]]
          @ map (\<lambda>n. [226, 128, n]) [128, 129, 130, 131, 132, 133, 134, 135, 136, 137, 138])"

lemma whitespace_encodings_code [code]:
  "whitespace_encodings =
     [[CHR 0x09], [CHR 0x0A], [CHR 0x0B], [CHR 0x0C], [CHR 0x0D], [CHR 0x20],
      [CHR 0xC2, CHR 0x85], [CHR 0xC2, CHR 0xA0], [CHR 0xE1, CHR 0x9A, CHR 0x80],
      [CHR 0xE2, CHR 0x80, CHR 0xA8], [CHR 0xE2, CHR 0x80, CHR 0xA9],
      [CHR 0xE2, CHR 0x80, CHR 0xAF], [CHR 0xE2, CHR 0x81, CHR 0x9F],
      [CHR 0xE3, CHR 0x80, CHR 0x80], [CHR 0xE2, CHR 0x80, CHR 0x80],
      [CHR 0xE2, CHR 0x80, CHR 0x81], [CHR 0xE2, CHR 0x80, CHR 0x82],
      [CHR 0xE2, CHR 0x80, CHR 0x83], [CHR 0xE2, CHR 0x80, CHR 0x84],
      [CHR 0xE2, CHR 0x80, CHR 0x85], [CHR 0xE2, CHR 0x80, CHR 0x86],
      [CHR 0xE2, CHR 0x80, CHR 0x87], [CHR 0xE2, CHR 0x80, CHR 0x88],
      [CHR 0xE2, CHR 0x80, CHR 0x89], [CHR 0xE2, CHR 0x80, CHR 0x8A]]"
  by (simp add: whitespace_encodings_def char_of_eq_iff take_bit_eq_mod)

lemma whitespace_encodings_nonempty: "w \<in> set whitespace_encodings \<Longrightarrow> w \<noteq> []"
  by (auto simp: whitespace_encodings_def)

function trim_start_with :: "string list \<Rightarrow> string \<Rightarrow> string" where
  "trim_start_with ws s =
     (case find (\<lambda>w. w \<noteq> [] \<and> prefix w s) ws of
        None \<Rightarrow> s
      | Some w \<Rightarrow> trim_start_with ws (drop (length w) s))"
  by pat_completeness auto
termination
proof (relation "measure (\<lambda>(ws, s). length s)", goal_cases)
  case (2 ws s w)
  then have "w \<noteq> []" and "prefix w s"
    by (auto simp: find_Some_iff)
  then have "0 < length w" and "length w \<le> length s"
    by (auto dest: prefix_length_le)
  then have "length s - length w < length s" by arith
  then show ?case by simp
qed simp

declare trim_start_with.simps [simp del]

definition trim_start :: "string \<Rightarrow> string" where
  "trim_start s = trim_start_with whitespace_encodings s"

definition trim_end :: "string \<Rightarrow> string" where
  "trim_end s = rev (trim_start_with (map rev whitespace_encodings) (rev s))"

definition trim :: "string \<Rightarrow> string" where
  "trim s = trim_end (trim_start s)"

lemma trim_Nil [simp]: "trim [] = []"
proof -
  have "trim_start_with ws [] = []" for ws
    by (subst trim_start_with.simps) (auto split: option.splits simp: find_Some_iff)
  then show ?thesis by (simp add: trim_def trim_start_def trim_end_def)
qed

lemma trim_start_with_skip:
  assumes "\<forall>w \<in> set ws. \<forall>c \<in> set w. \<not> P c" and "list_all P s"
  shows "trim_start_with ws s = s"
proof -
  have "\<not> (w \<noteq> [] \<and> prefix w s)" if "w \<in> set ws" for w
  proof
    assume w: "w \<noteq> [] \<and> prefix w s"
    then have "hd w \<in> set s" by (metis hd_in_set set_mono_prefix subsetD)
    then have "P (hd w)" using assms(2) by (simp add: list_all_iff)
    then show False using w that assms(1) by auto
  qed
  then have "find (\<lambda>w. w \<noteq> [] \<and> prefix w s) ws = None" by (auto simp: find_None_iff)
  then show ?thesis by (subst trim_start_with.simps) simp
qed

lemma trim_skip:
  assumes "\<forall>w \<in> set whitespace_encodings. \<forall>c \<in> set w. \<not> P c" and "list_all P s"
  shows "trim s = s"
  using trim_start_with_skip [of whitespace_encodings P s]
    trim_start_with_skip [of "map rev whitespace_encodings" P "rev s"] assms
  by (simp add: trim_def trim_start_def trim_end_def list_all_iff)

text \<open>Decimal rendering of an unsigned integer (\<open>to_string\<close>).\<close>

fun nat_to_string :: "nat \<Rightarrow> string" where
  "nat_to_string n =
     (if n < 10 then [char_of (48 + n)] else nat_to_string (n div 10) @ [char_of (48 + n mod 10)])"

declare nat_to_string.simps [simp del]

definition is_digit :: "char \<Rightarrow> bool" where
  "is_digit c \<longleftrightarrow> 48 \<le> (of_char c :: nat) \<and> (of_char c :: nat) \<le> 57"

fun digits_value :: "nat \<Rightarrow> string \<Rightarrow> nat" where
  "digits_value acc [] = acc"
| "digits_value acc (c # s) = digits_value (acc * 10 + (of_char c - 48)) s"

lemma of_char_char_of_small: "n < 256 \<Longrightarrow> (of_char (char_of n) :: nat) = n"
  by simp

lemma digits_value_append: "digits_value acc (s @ t) = digits_value (digits_value acc s) t"
  by (induction s arbitrary: acc) auto

lemma nat_to_string_digits: "\<forall>c \<in> set (nat_to_string n). is_digit c"
proof (induction n rule: nat_to_string.induct)
  case (1 n)
  show ?case
    by (cases "n < 10") (use 1 in \<open>auto simp: nat_to_string.simps [of n] is_digit_def\<close>)
qed

lemma digits_value_nat_to_string: "digits_value 0 (nat_to_string n) = n"
proof (induction n rule: nat_to_string.induct)
  case (1 n)
  show ?case
    by (cases "n < 10") (use 1 in \<open>auto simp: nat_to_string.simps [of n] digits_value_append\<close>)
qed

lemma nat_to_string_inject: "nat_to_string m = nat_to_string n \<longleftrightarrow> m = n"
  by (metis digits_value_nat_to_string)

lemma nat_to_string_nonempty: "nat_to_string n \<noteq> []"
  by (subst nat_to_string.simps) simp

definition u64_to_string :: "u64 \<Rightarrow> string" where
  "u64_to_string w = nat_to_string (unat w)"

section \<open>JSON documents\<close>

text \<open>
  \<open>serde_json::Value\<close>; an object keeps its members in key order (the default map of
  \<open>serde_json\<close> is a \<open>BTreeMap\<close>). Numbers are kept by their decimal text.
\<close>

datatype json =
    JNull
  | JBool bool
  | JNumber string
  | JString string
  | JArray "json list"
  | JObject "(string \<times> json) list"

type_synonym metadata = "(string, json) btmap"

definition json_is_object :: "json \<Rightarrow> bool" where
  "json_is_object j = (case j of JObject _ \<Rightarrow> True | _ \<Rightarrow> False)"

lemma json_is_object_simps [simp]: "json_is_object (JObject ms)"
  by (simp add: json_is_object_def)

section \<open>List facts\<close>

lemma find_None_filter: "find P xs = None \<longleftrightarrow> filter P xs = []"
  by (induction xs) auto

lemma length_take_Suc_gt:
  "length (take (Suc n) xs) > n \<longleftrightarrow> n < length xs"
  by auto

end
