(* ===== verification/Lifecycle.thy ===== *)
theory Lifecycle
  imports Prelude
begin

text \<open>
  The run lifecycle vocabulary (\<open>starweaver-core/src/lifecycle.rs\<close>) and the durable run status
  composed from it (\<open>starweaver-session/src/records.rs\<close>): a queued run has no lifecycle yet.
  The wire names round trip, and exactly the non-terminal statuses own the active session slot.
\<close>

section \<open>RunLifecycle\<close>

datatype run_lifecycle = Starting | Running | Waiting | Completed | Failed | Cancelled

fun run_lifecycle_as_str :: "run_lifecycle \<Rightarrow> string" where
  "run_lifecycle_as_str Starting = ''starting''"
| "run_lifecycle_as_str Running = ''running''"
| "run_lifecycle_as_str Waiting = ''waiting''"
| "run_lifecycle_as_str Completed = ''completed''"
| "run_lifecycle_as_str Failed = ''failed''"
| "run_lifecycle_as_str Cancelled = ''cancelled''"

fun run_lifecycle_is_terminal :: "run_lifecycle \<Rightarrow> bool" where
  "run_lifecycle_is_terminal Completed = True"
| "run_lifecycle_is_terminal Failed = True"
| "run_lifecycle_is_terminal Cancelled = True"
| "run_lifecycle_is_terminal _ = False"

section \<open>DurableRunStatus\<close>

datatype run_status = RunStatus "run_lifecycle option"

abbreviation StQueued :: run_status where "StQueued \<equiv> RunStatus None"
abbreviation StStarting :: run_status where "StStarting \<equiv> RunStatus (Some Starting)"
abbreviation StRunning :: run_status where "StRunning \<equiv> RunStatus (Some Running)"
abbreviation StWaiting :: run_status where "StWaiting \<equiv> RunStatus (Some Waiting)"
abbreviation StCompleted :: run_status where "StCompleted \<equiv> RunStatus (Some Completed)"
abbreviation StFailed :: run_status where "StFailed \<equiv> RunStatus (Some Failed)"
abbreviation StCancelled :: run_status where "StCancelled \<equiv> RunStatus (Some Cancelled)"

fun run_status_as_str :: "run_status \<Rightarrow> string" where
  "run_status_as_str (RunStatus None) = ''queued''"
| "run_status_as_str (RunStatus (Some l)) = run_lifecycle_as_str l"

fun run_status_is_active :: "run_status \<Rightarrow> bool" where
  "run_status_is_active (RunStatus None) = True"
| "run_status_is_active (RunStatus (Some Starting)) = True"
| "run_status_is_active (RunStatus (Some Running)) = True"
| "run_status_is_active (RunStatus (Some Waiting)) = True"
| "run_status_is_active _ = False"

fun run_status_is_terminal :: "run_status \<Rightarrow> bool" where
  "run_status_is_terminal (RunStatus (Some l)) = run_lifecycle_is_terminal l"
| "run_status_is_terminal (RunStatus None) = False"

text \<open>The flat wire form: \<open>Deserialize for DurableRunStatus\<close>; \<open>None\<close> is a decoding error.\<close>

definition run_status_deserialize :: "string \<Rightarrow> run_status option" where
  "run_status_deserialize s =
     (if s = ''queued'' then Some StQueued
      else if s = ''starting'' then Some StStarting
      else if s = ''running'' then Some StRunning
      else if s = ''waiting'' then Some StWaiting
      else if s = ''completed'' then Some StCompleted
      else if s = ''failed'' then Some StFailed
      else if s = ''cancelled'' then Some StCancelled
      else None)"

text \<open>The execution boundary a checkpoint was taken at, and its \<open>Debug\<close> name.\<close>

datatype agent_execution_node =
    NodeRunStart | NodePrepareModelRequest | NodeBeforeModelRequest | NodeModelResponse
  | NodeToolCall | NodeToolReturn | NodeValidateOutput | NodeRunComplete | NodeRunFailed

fun node_debug :: "agent_execution_node \<Rightarrow> string" where
  "node_debug NodeRunStart = ''RunStart''"
| "node_debug NodePrepareModelRequest = ''PrepareModelRequest''"
| "node_debug NodeBeforeModelRequest = ''BeforeModelRequest''"
| "node_debug NodeModelResponse = ''ModelResponse''"
| "node_debug NodeToolCall = ''ToolCall''"
| "node_debug NodeToolReturn = ''ToolReturn''"
| "node_debug NodeValidateOutput = ''ValidateOutput''"
| "node_debug NodeRunComplete = ''RunComplete''"
| "node_debug NodeRunFailed = ''RunFailed''"

lemma run_status_exhaust [case_names Queued Starting Running Waiting Completed Failed Cancelled]:
  obtains "s = StQueued" | "s = StStarting" | "s = StRunning" | "s = StWaiting"
    | "s = StCompleted" | "s = StFailed" | "s = StCancelled"
proof (cases s)
  case (RunStatus lc)
  then show ?thesis
    using that by (cases lc; cases "the lc") auto
qed

lemma run_status_active_iff: "run_status_is_active s \<longleftrightarrow> \<not> run_status_is_terminal s"
  by (cases s rule: run_status_exhaust) simp_all

lemma run_status_roundtrip: "run_status_deserialize (run_status_as_str s) = Some s"
  by (cases s rule: run_status_exhaust) (simp_all add: run_status_deserialize_def)

lemma run_status_deserialize_sound:
  "run_status_deserialize w = Some s \<Longrightarrow> run_status_as_str s = w"
  by (auto simp: run_status_deserialize_def split: if_splits)

end
