(* ===== verification/Session_Records.thy ===== *)
theory Session_Records
  imports Lifecycle
begin

text \<open>
  Durable session and run records (\<open>starweaver-session/src/records.rs\<close>), the store errors
  (\<open>error.rs\<close>) and the deletion fence (\<open>management.rs\<close>).

  Payloads the store only keeps and compares (the exported context state, environment and
  checkpoint references, input parts, configuration provenance, trace contexts) are
  represented by their JSON documents. Everything the store's decisions read is modelled field by
  field.
\<close>

type_synonym session_id = string
type_synonym run_id = string

section \<open>Store errors\<close>

datatype store_error =
    NotFound string
  | AlreadyExists string
  | Conflict string
  | StaleFence string
  | IdempotencyConflict string
  | QuotaExceeded string
  | RunConflict string
  | RetryableStorage string
  | StoreFailed string

type_synonym 'a store_result = "('a, store_error) result"

section \<open>Statuses and fences\<close>

datatype session_status = SessActive | SessArchived | SessFailed | SessDeleted

datatype session_deletion_fence =
    Stable
  | Deleting (deleting_fence_id: string) (deleting_expected_revision: u64)
      (deleting_requested_by: string) (deleting_started_at: datetime)
  | Deleted (deleted_fence_id: string) (deleted_deleted_at: datetime)

fun blocks_continuation :: "session_deletion_fence \<Rightarrow> bool" where
  "blocks_continuation Stable = False"
| "blocks_continuation _ = True"

datatype execution_status =
    ExPending | ExRunning | ExWaiting | ExCompleted | ExFailed | ExCancelled

section \<open>Terminal projections\<close>

record run_terminal_error =
  te_code :: string
  te_message :: string

definition run_terminal_error_new :: "string \<Rightarrow> string \<Rightarrow> run_terminal_error" where
  "run_terminal_error_new code message = \<lparr>te_code = code, te_message = message\<rparr>"

record run_terminal_projection =
  tp_status :: run_status
  tp_output_preview :: "string option"
  tp_error :: "run_terminal_error option"

datatype run_terminal_projection_error =
    NonTerminalStatus run_status
  | MissingFailureDiagnostic
  | UnexpectedSuccessDiagnostic
  | UnexpectedNonTerminalDiagnostic run_status
  | EmptyDiagnosticCode
  | EmptyDiagnosticMessage

definition terminal_projection_validate ::
    "run_terminal_projection \<Rightarrow> (unit, run_terminal_projection_error) result" where
  "terminal_projection_validate p =
     (if \<not> run_status_is_terminal (tp_status p) then Err (NonTerminalStatus (tp_status p))
      else if tp_status p = StFailed \<and> tp_error p = None then Err MissingFailureDiagnostic
      else if tp_status p = StCompleted \<and> tp_error p \<noteq> None then Err UnexpectedSuccessDiagnostic
      else case tp_error p of
          None \<Rightarrow> Ok ()
        | Some e \<Rightarrow>
            if te_code e = [] then Err EmptyDiagnosticCode
            else if te_message e = [] then Err EmptyDiagnosticMessage
            else Ok ())"

definition terminal_projection_try_new ::
    "run_status \<Rightarrow> string option \<Rightarrow> run_terminal_error option
     \<Rightarrow> (run_terminal_projection, run_terminal_projection_error) result" where
  "terminal_projection_try_new status preview error =
     (let p = \<lparr>tp_status = status, tp_output_preview = preview, tp_error = error\<rparr>
      in case terminal_projection_validate p of
           Ok _ \<Rightarrow> Ok p
         | Err e \<Rightarrow> Err e
         | Panic \<Rightarrow> Panic)"

definition terminal_completed :: "string option \<Rightarrow> run_terminal_projection" where
  "terminal_completed preview =
     \<lparr>tp_status = StCompleted, tp_output_preview = preview, tp_error = None\<rparr>"

definition terminal_failed :: "run_terminal_error \<Rightarrow> run_terminal_projection" where
  "terminal_failed e = \<lparr>tp_status = StFailed, tp_output_preview = None, tp_error = Some e\<rparr>"

definition terminal_cancelled :: "run_terminal_error option \<Rightarrow> run_terminal_projection" where
  "terminal_cancelled e =
     \<lparr>tp_status = StCancelled, tp_output_preview = None, tp_error = e\<rparr>"

fun projection_error_to_string :: "run_terminal_projection_error \<Rightarrow> string" where
  "projection_error_to_string (NonTerminalStatus s) =
     ''run status '' @ run_status_as_str s @ '' is not terminal''"
| "projection_error_to_string MissingFailureDiagnostic =
     ''failed run requires a terminal diagnostic''"
| "projection_error_to_string UnexpectedSuccessDiagnostic =
     ''completed run cannot carry a terminal diagnostic''"
| "projection_error_to_string (UnexpectedNonTerminalDiagnostic s) =
     ''non-terminal run status '' @ run_status_as_str s
     @ '' cannot carry a terminal diagnostic''"
| "projection_error_to_string EmptyDiagnosticCode = ''terminal diagnostic code is empty''"
| "projection_error_to_string EmptyDiagnosticMessage = ''terminal diagnostic message is empty''"

declare projection_error_to_string.simps [simp del]

section \<open>Stream cursors\<close>

datatype replay_cursor_family = RawRuntime | Display | ReplayEvent

record replay_cursor =
  cur_family :: replay_cursor_family
  cur_scope :: string
  cur_sequence :: u64
  cur_backend_cursor :: "string option"

record stream_cursor_ref =
  sc_position :: replay_cursor
  sc_created_at :: datetime
  sc_metadata :: metadata

definition replay_scope_run :: "run_id \<Rightarrow> string" where
  "replay_scope_run r = ''run:'' @ r"

datatype stream_cursor_ref_error =
    WrongScope string string
  | SequenceRegression replay_cursor_family string u64 u64

definition stream_cursor_ref_new :: "datetime \<Rightarrow> replay_cursor \<Rightarrow> stream_cursor_ref" where
  "stream_cursor_ref_new now position =
     \<lparr>sc_position = position, sc_created_at = now, sc_metadata = []\<rparr>"

definition same_stream :: "stream_cursor_ref \<Rightarrow> stream_cursor_ref \<Rightarrow> bool" where
  "same_stream a b \<longleftrightarrow>
     cur_family (sc_position a) = cur_family (sc_position b)
     \<and> cur_scope (sc_position a) = cur_scope (sc_position b)"

definition cursor_validate_for_run ::
    "stream_cursor_ref \<Rightarrow> run_id \<Rightarrow> (unit, stream_cursor_ref_error) result" where
  "cursor_validate_for_run c r =
     (if cur_scope (sc_position c) \<noteq> replay_scope_run r
      then Err (WrongScope (replay_scope_run r) (cur_scope (sc_position c)))
      else Ok ())"

definition cursor_validate_progression ::
    "stream_cursor_ref \<Rightarrow> stream_cursor_ref \<Rightarrow> (unit, stream_cursor_ref_error) result" where
  "cursor_validate_progression c current =
     (if same_stream c current \<and> cur_sequence (sc_position c) < cur_sequence (sc_position current)
      then Err (SequenceRegression (cur_family (sc_position c)) (cur_scope (sc_position c))
             (cur_sequence (sc_position current)) (cur_sequence (sc_position c)))
      else Ok ())"

section \<open>Workspace provenance\<close>

record workspace_provenance_ref =
  ws_workspace_id :: string
  ws_display_label :: "string option"
  ws_provenance_digest :: string

definition workspace_is_legacy_unbound :: "workspace_provenance_ref \<Rightarrow> bool" where
  "workspace_is_legacy_unbound w \<longleftrightarrow> prefix ''legacy:'' (ws_workspace_id w)"

definition workspace_display_value :: "workspace_provenance_ref \<Rightarrow> string" where
  "workspace_display_value w =
     (case ws_display_label w of None \<Rightarrow> ws_workspace_id w | Some l \<Rightarrow> l)"

definition workspace_matches_filter :: "workspace_provenance_ref \<Rightarrow> string \<Rightarrow> bool" where
  "workspace_matches_filter w f \<longleftrightarrow> ws_workspace_id w = f \<or> ws_display_label w = Some f"

definition workspace_validate :: "workspace_provenance_ref \<Rightarrow> (unit, string) result" where
  "workspace_validate w =
     (if trim (ws_workspace_id w) = [] \<or> trim (ws_provenance_digest w) = []
      then Err ''workspace provenance identity is empty''
      else if workspace_is_legacy_unbound w
        \<and> (ws_workspace_id w \<noteq> ''legacy:'' @ ws_provenance_digest w
           \<or> (case ws_display_label w of None \<Rightarrow> True | Some l \<Rightarrow> l = []))
      then Err ''legacy workspace provenance is inconsistent''
      else Ok ())"

section \<open>Session record\<close>

record session_record =
  sr_session_id :: session_id
  sr_namespace_id :: string
  sr_owner_id :: "string option"
  sr_revision :: u64
  sr_deletion_fence :: session_deletion_fence
  sr_title :: "string option"
  sr_workspace :: "workspace_provenance_ref option"
  sr_profile :: "string option"
  sr_status :: session_status
  sr_state :: json
  sr_environment_state :: "json option"
  sr_stream_cursors :: "stream_cursor_ref list"
  sr_trace_context :: json
  sr_parent_session_id :: "session_id option"
  sr_head_run_id :: "run_id option"
  sr_head_success_run_id :: "run_id option"
  sr_active_run_id :: "run_id option"
  sr_created_at :: datetime
  sr_updated_at :: datetime
  sr_metadata :: metadata

definition local_session_namespace :: string where
  "local_session_namespace = ''local''"

definition session_record_new :: "datetime \<Rightarrow> json \<Rightarrow> json \<Rightarrow> session_id \<Rightarrow> session_record" where
  "session_record_new now default_state default_trace sid =
     \<lparr>sr_session_id = sid,
      sr_namespace_id = local_session_namespace,
      sr_owner_id = None,
      sr_revision = 1,
      sr_deletion_fence = Stable,
      sr_title = None,
      sr_workspace = None,
      sr_profile = None,
      sr_status = SessActive,
      sr_state = default_state,
      sr_environment_state = None,
      sr_stream_cursors = [],
      sr_trace_context = default_trace,
      sr_parent_session_id = None,
      sr_head_run_id = None,
      sr_head_success_run_id = None,
      sr_active_run_id = None,
      sr_created_at = now,
      sr_updated_at = now,
      sr_metadata = []\<rparr>"

section \<open>Run record\<close>

record checkpoint_ref =
  cr_checkpoint_id :: string
  cr_run_id :: run_id
  cr_sequence :: u64
  cr_node :: string
  cr_storage_ref :: "string option"
  cr_stream_cursor :: "u64 option"
  cr_created_at :: datetime
  cr_metadata :: metadata

record run_record =
  rr_session_id :: session_id
  rr_run_id :: run_id
  rr_revision :: u64
  rr_conversation_id :: string
  rr_input :: "json list"
  rr_status :: run_status
  rr_output_preview :: "string option"
  rr_terminal_error :: "run_terminal_error option"
  rr_structured_output :: json
  rr_latest_checkpoint :: "checkpoint_ref option"
  rr_environment_state :: "json option"
  rr_stream_cursors :: "stream_cursor_ref list"
  rr_trace_context :: json
  rr_sequence_no :: u64
  rr_restore_from_run_id :: "run_id option"
  rr_parent_run_id :: "run_id option"
  rr_parent_task_id :: "string option"
  rr_trigger_type :: "string option"
  rr_profile :: "string option"
  rr_config_snapshot :: "json option"
  rr_created_at :: datetime
  rr_updated_at :: datetime
  rr_metadata :: metadata

definition run_record_new :: "datetime \<Rightarrow> json \<Rightarrow> session_id \<Rightarrow> run_id \<Rightarrow> string \<Rightarrow> run_record" where
  "run_record_new now default_trace sid rid conversation =
     \<lparr>rr_session_id = sid,
      rr_run_id = rid,
      rr_revision = 1,
      rr_conversation_id = conversation,
      rr_input = [],
      rr_status = StQueued,
      rr_output_preview = None,
      rr_terminal_error = None,
      rr_structured_output = JNull,
      rr_latest_checkpoint = None,
      rr_environment_state = None,
      rr_stream_cursors = [],
      rr_trace_context = default_trace,
      rr_sequence_no = 0,
      rr_restore_from_run_id = None,
      rr_parent_run_id = None,
      rr_parent_task_id = None,
      rr_trigger_type = None,
      rr_profile = None,
      rr_config_snapshot = None,
      rr_created_at = now,
      rr_updated_at = now,
      rr_metadata = []\<rparr>"

definition run_terminal_projection_of :: "run_record \<Rightarrow> run_terminal_projection option" where
  "run_terminal_projection_of run =
     (if run_status_is_terminal (rr_status run)
      then Some \<lparr>tp_status = rr_status run,
                 tp_output_preview = rr_output_preview run,
                 tp_error = rr_terminal_error run\<rparr>
      else None)"

definition run_validate_new_write ::
    "run_record \<Rightarrow> (unit, run_terminal_projection_error) result" where
  "run_validate_new_write run =
     (case run_terminal_projection_of run of
        None \<Rightarrow>
          if rr_terminal_error run \<noteq> None
          then Err (UnexpectedNonTerminalDiagnostic (rr_status run)) else Ok ()
      | Some terminal \<Rightarrow> terminal_projection_validate terminal)"

definition run_normalize_for_admission :: "run_record \<Rightarrow> run_record" where
  "run_normalize_for_admission run =
     run\<lparr>rr_status := StQueued, rr_output_preview := None, rr_terminal_error := None\<rparr>"

definition run_apply_legacy_status_update ::
    "run_record \<Rightarrow> run_status \<Rightarrow> string option \<Rightarrow> run_record" where
  "run_apply_legacy_status_update run status preview =
     (if status = StFailed then
        run\<lparr>rr_status := status, rr_output_preview := None,
            rr_terminal_error := Some (run_terminal_error_new ''legacy_status_update_failed''
              ''run failed'')\<rparr>
      else if status = StCancelled then
        run\<lparr>rr_status := status, rr_output_preview := None,
            rr_terminal_error := Some (run_terminal_error_new ''legacy_status_update_cancelled''
              ''run cancelled'')\<rparr>
      else
        run\<lparr>rr_status := status, rr_output_preview := preview, rr_terminal_error := None\<rparr>)"

definition terminal_projection_matches :: "run_terminal_projection \<Rightarrow> run_record \<Rightarrow> bool" where
  "terminal_projection_matches p run \<longleftrightarrow>
     (rr_status run, rr_output_preview run, rr_terminal_error run)
       = (tp_status p, tp_output_preview p, tp_error p)"

definition terminal_projection_apply_to :: "run_terminal_projection \<Rightarrow> run_record \<Rightarrow> run_record" where
  "terminal_projection_apply_to p run =
     run\<lparr>rr_status := tp_status p, rr_output_preview := tp_output_preview p,
         rr_terminal_error := tp_error p\<rparr>"

section \<open>What the constructors and validators guarantee\<close>

text \<open>
  The write contract: a run passes \<open>validate_new_write\<close> exactly when a diagnostic is present only
  on failed and cancelled runs, is mandatory on failed ones, and has no empty part.
\<close>

definition well_formed_terminal :: "run_record \<Rightarrow> bool" where
  "well_formed_terminal run \<longleftrightarrow>
     (case rr_terminal_error run of
        None \<Rightarrow> rr_status run \<noteq> StFailed
      | Some e \<Rightarrow>
          rr_status run \<in> {StFailed, StCancelled} \<and> te_code e \<noteq> [] \<and> te_message e \<noteq> [])"

lemma validate_new_write_iff:
  "run_validate_new_write run = Ok () \<longleftrightarrow> well_formed_terminal run"
  by (cases "rr_status run" rule: run_status_exhaust; cases "rr_terminal_error run")
     (simp_all add: run_validate_new_write_def run_terminal_projection_of_def
        terminal_projection_validate_def well_formed_terminal_def)

lemma validate_new_write_no_panic: "run_validate_new_write run \<noteq> Panic"
  by (auto simp: run_validate_new_write_def terminal_projection_validate_def
      split: option.splits if_splits)

lemma terminal_projection_no_panic: "terminal_projection_validate p \<noteq> Panic"
  by (auto simp: terminal_projection_validate_def split: option.splits if_splits)

lemma normalize_for_admission_valid:
  "run_validate_new_write (run_normalize_for_admission run) = Ok ()"
  by (simp add: run_validate_new_write_def run_terminal_projection_of_def
      run_normalize_for_admission_def)

lemma legacy_status_update_valid:
  "run_validate_new_write (run_apply_legacy_status_update run status preview) = Ok ()"
  by (cases status rule: run_status_exhaust)
     (simp_all add: run_apply_legacy_status_update_def run_validate_new_write_def
        run_terminal_projection_of_def terminal_projection_validate_def run_terminal_error_new_def)

lemma terminal_apply_matches: "terminal_projection_matches p (terminal_projection_apply_to p run)"
  by (simp add: terminal_projection_matches_def terminal_projection_apply_to_def)

end
