(* ===== verification/Management.thy ===== *)
theory Management
  imports Session_Records
begin

text \<open>
  Composite identities, admission leases and receipts
  (\<open>starweaver-session/src/management.rs\<close>). Targets are map keys, so they carry the derived
  lexicographic order of their fields.
\<close>

section \<open>Targets\<close>

record managed_session_target =
  st_namespace_id :: string
  st_session_id :: session_id

record managed_run_target =
  rt_namespace_id :: string
  rt_session_id :: session_id
  rt_run_id :: run_id

definition managed_session_target_new :: "string \<Rightarrow> session_id \<Rightarrow> managed_session_target" where
  "managed_session_target_new ns sid = \<lparr>st_namespace_id = ns, st_session_id = sid\<rparr>"

definition managed_run_target_new :: "string \<Rightarrow> session_id \<Rightarrow> run_id \<Rightarrow> managed_run_target" where
  "managed_run_target_new ns sid rid =
     \<lparr>rt_namespace_id = ns, rt_session_id = sid, rt_run_id = rid\<rparr>"

text \<open>The derived \<open>Ord\<close> instances compare the fields in declaration order.\<close>

instantiation managed_session_target_ext :: (linorder) linorder
begin

definition less_eq_managed_session_target_ext ::
    "'a managed_session_target_scheme \<Rightarrow> 'a managed_session_target_scheme \<Rightarrow> bool" where
  "less_eq_managed_session_target_ext a b \<longleftrightarrow>
     (st_namespace_id a, st_session_id a, managed_session_target.more a)
       \<le> (st_namespace_id b, st_session_id b, managed_session_target.more b)"

definition less_managed_session_target_ext ::
    "'a managed_session_target_scheme \<Rightarrow> 'a managed_session_target_scheme \<Rightarrow> bool" where
  "less_managed_session_target_ext a b \<longleftrightarrow>
     (st_namespace_id a, st_session_id a, managed_session_target.more a)
       < (st_namespace_id b, st_session_id b, managed_session_target.more b)"

instance
  by standard
     (auto simp: less_eq_managed_session_target_ext_def less_managed_session_target_ext_def)

end

instantiation managed_run_target_ext :: (linorder) linorder
begin

definition less_eq_managed_run_target_ext ::
    "'a managed_run_target_scheme \<Rightarrow> 'a managed_run_target_scheme \<Rightarrow> bool" where
  "less_eq_managed_run_target_ext a b \<longleftrightarrow>
     (rt_namespace_id a, rt_session_id a, rt_run_id a, managed_run_target.more a)
       \<le> (rt_namespace_id b, rt_session_id b, rt_run_id b, managed_run_target.more b)"

definition less_managed_run_target_ext ::
    "'a managed_run_target_scheme \<Rightarrow> 'a managed_run_target_scheme \<Rightarrow> bool" where
  "less_managed_run_target_ext a b \<longleftrightarrow>
     (rt_namespace_id a, rt_session_id a, rt_run_id a, managed_run_target.more a)
       < (rt_namespace_id b, rt_session_id b, rt_run_id b, managed_run_target.more b)"

instance
  by standard
     (auto simp: less_eq_managed_run_target_ext_def less_managed_run_target_ext_def)

end

lemma managed_session_target_new_simps [simp]:
  "st_namespace_id (managed_session_target_new ns sid) = ns"
  "st_session_id (managed_session_target_new ns sid) = sid"
  "managed_session_target_new ns sid = managed_session_target_new ns' sid'
     \<longleftrightarrow> ns = ns' \<and> sid = sid'"
  by (simp_all add: managed_session_target_new_def)

lemma managed_run_target_new_simps [simp]:
  "rt_namespace_id (managed_run_target_new ns sid rid) = ns"
  "rt_session_id (managed_run_target_new ns sid rid) = sid"
  "rt_run_id (managed_run_target_new ns sid rid) = rid"
  by (simp_all add: managed_run_target_new_def)

definition session_target_of :: "managed_run_target \<Rightarrow> managed_session_target" where
  "session_target_of t = managed_session_target_new (rt_namespace_id t) (rt_session_id t)"

lemma session_target_of_new [simp]:
  "session_target_of (managed_run_target_new ns sid rid) = managed_session_target_new ns sid"
  by (simp add: session_target_of_def)

section \<open>Continuation fence\<close>

record session_continuation_fence =
  cf_target :: managed_session_target
  cf_revision :: u64
  cf_continuation_allowed :: bool
  cf_fence_id :: "string option"

section \<open>Session commands\<close>

record managed_session_patch =
  patch_title :: "string option option"
  patch_profile :: "string option option"
  patch_archived :: "bool option"
  patch_metadata :: metadata

record update_managed_session_cmd =
  upd_session_id :: session_id
  upd_expected_revision :: u64
  upd_patch :: managed_session_patch
  upd_idempotency_key :: string

section \<open>Run admission\<close>

record run_admission_lease =
  lease_target :: managed_run_target
  lease_admission_id :: string
  lease_host_instance_id :: string
  lease_fencing_generation :: u64
  lease_lease_expires_at :: datetime
  lease_heartbeat_at :: datetime
  lease_command_fingerprint :: string
  lease_idempotency_key :: string

definition lease_expired_at :: "run_admission_lease \<Rightarrow> datetime \<Rightarrow> bool" where
  "lease_expired_at lease now \<longleftrightarrow> lease_lease_expires_at lease \<le> now"

record acquire_run_admission_req =
  acq_run :: run_record
  acq_namespace_id :: string
  acq_host_instance_id :: string
  acq_admission_id :: string
  acq_lease_expires_at :: datetime
  acq_idempotency_key :: string
  acq_command_fingerprint :: string
  acq_replaces_waiting_run_id :: "run_id option"
  acq_hitl_resume_claim_id :: "string option"

record run_admission_receipt =
  rar_run :: run_record
  rar_lease :: run_admission_lease
  rar_idempotent_replay :: bool

record durable_control_receipt =
  cr_receipt_id :: string
  cr_target :: managed_run_target
  cr_operation_id :: string
  cr_operation :: string
  cr_idempotency_key :: string
  cr_command_fingerprint :: string
  cr_fencing_generation :: u64
  cr_state :: string
  cr_created_at :: datetime

text \<open>
  Ownership identity of a lease. The heartbeat and expiry fields are not part of it: a holder
  keeps acting under the lease it acquired while its heartbeats move the stored expiry.
\<close>

definition same_owner :: "run_admission_lease \<Rightarrow> run_admission_lease \<Rightarrow> bool" where
  "same_owner a b \<longleftrightarrow>
     lease_target a = lease_target b
     \<and> lease_admission_id a = lease_admission_id b
     \<and> lease_host_instance_id a = lease_host_instance_id b
     \<and> lease_fencing_generation a = lease_fencing_generation b"

lemma same_owner_refl [simp]: "same_owner a a"
  by (simp add: same_owner_def)

end
