(* ===== verification/Run_Control.thy ===== *)
theory Run_Control
  imports Management
begin

text \<open>
  Durable live-run control (\<open>starweaver-session/src/run_control.rs\<close>) and HITL resume claims
  (\<open>claim.rs\<close>): two small state machines whose phases only move forward. Both are instances of
  one interface, a status type with a rank that every step increases.
\<close>

section \<open>Forward-only status machines\<close>

locale forward_status =
  fixes rank :: "'s \<Rightarrow> nat"
    and step :: "'s \<Rightarrow> 's \<Rightarrow> bool"
  assumes step_rank: "step a b \<Longrightarrow> a \<noteq> b \<Longrightarrow> rank a < rank b"
begin

lemma steps_rank: "step\<^sup>*\<^sup>* a b \<Longrightarrow> rank a \<le> rank b"
proof (induction rule: rtranclp_induct)
  case (step b c)
  then show ?case
    using step_rank [of b c] by (cases "b = c") auto
qed simp

lemma steps_rank_strict: "step\<^sup>*\<^sup>* a b \<Longrightarrow> a \<noteq> b \<Longrightarrow> rank a < rank b"
proof (induction rule: converse_rtranclp_induct)
  case (step a c)
  show ?case
  proof (cases "a = c")
    case True
    with step show ?thesis by simp
  next
    case False
    with step have "rank a < rank c" by (simp add: step_rank)
    also have "rank c \<le> rank b" using step.hyps(2) by (rule steps_rank)
    finally show ?thesis .
  qed
qed simp

lemma no_return: "step\<^sup>*\<^sup>* a b \<Longrightarrow> step\<^sup>*\<^sup>* b a \<Longrightarrow> a = b"
  using steps_rank [of a b] steps_rank_strict [of b a] by (cases "a = b") auto

end

section \<open>Run control intents\<close>

datatype durable_run_control_effect = Steer string | Interrupt "string option"

fun effect_operation :: "durable_run_control_effect \<Rightarrow> string" where
  "effect_operation (Steer _) = ''steer''"
| "effect_operation (Interrupt _) = ''interrupt''"

datatype durable_run_control_status = CtlPending | CtlDelivered | CtlConsumed | CtlReconciled

fun control_status_as_str :: "durable_run_control_status \<Rightarrow> string" where
  "control_status_as_str CtlPending = ''pending''"
| "control_status_as_str CtlDelivered = ''delivered''"
| "control_status_as_str CtlConsumed = ''consumed''"
| "control_status_as_str CtlReconciled = ''reconciled''"

fun can_advance_to :: "durable_run_control_status \<Rightarrow> durable_run_control_status \<Rightarrow> bool" where
  "can_advance_to s n \<longleftrightarrow>
     s = n \<or> (case (s, n) of
         (CtlPending, CtlDelivered) \<Rightarrow> True
       | (CtlPending, CtlReconciled) \<Rightarrow> True
       | (CtlDelivered, CtlConsumed) \<Rightarrow> True
       | (CtlDelivered, CtlReconciled) \<Rightarrow> True
       | (CtlConsumed, CtlReconciled) \<Rightarrow> True
       | _ \<Rightarrow> False)"

record admit_run_control_req =
  arc_lease :: run_admission_lease
  arc_authority_binding :: string
  arc_operation_id :: string
  arc_receipt_id :: string
  arc_idempotency_key :: string
  arc_command_fingerprint :: string
  arc_effect :: durable_run_control_effect
  arc_created_at :: datetime

record durable_run_control_intent =
  in_operation_id :: string
  in_target :: managed_run_target
  in_authority_binding :: string
  in_admission_id :: string
  in_host_instance_id :: string
  in_fencing_generation :: u64
  in_idempotency_key :: string
  in_command_fingerprint :: string
  in_receipt :: durable_control_receipt
  in_effect :: durable_run_control_effect
  in_status :: durable_run_control_status
  in_created_at :: datetime
  in_delivered_at :: "datetime option"
  in_consumed_at :: "datetime option"
  in_reconciled_at :: "datetime option"

definition into_intent :: "admit_run_control_req \<Rightarrow> durable_run_control_intent" where
  "into_intent req =
     (let receipt =
        \<lparr>cr_receipt_id = arc_receipt_id req,
         cr_target = lease_target (arc_lease req),
         cr_operation_id = arc_operation_id req,
         cr_operation = effect_operation (arc_effect req),
         cr_idempotency_key = arc_idempotency_key req,
         cr_command_fingerprint = arc_command_fingerprint req,
         cr_fencing_generation = lease_fencing_generation (arc_lease req),
         cr_state = control_status_as_str CtlPending,
         cr_created_at = arc_created_at req\<rparr>
      in \<lparr>in_operation_id = arc_operation_id req,
          in_target = lease_target (arc_lease req),
          in_authority_binding = arc_authority_binding req,
          in_admission_id = lease_admission_id (arc_lease req),
          in_host_instance_id = lease_host_instance_id (arc_lease req),
          in_fencing_generation = lease_fencing_generation (arc_lease req),
          in_idempotency_key = cr_idempotency_key receipt,
          in_command_fingerprint = cr_command_fingerprint receipt,
          in_receipt = receipt,
          in_effect = arc_effect req,
          in_status = CtlPending,
          in_created_at = arc_created_at req,
          in_delivered_at = None,
          in_consumed_at = None,
          in_reconciled_at = None\<rparr>)"

definition matches_admission ::
    "durable_run_control_intent \<Rightarrow> admit_run_control_req \<Rightarrow> bool" where
  "matches_admission i req \<longleftrightarrow>
     in_target i = lease_target (arc_lease req)
     \<and> in_authority_binding i = arc_authority_binding req
     \<and> in_admission_id i = lease_admission_id (arc_lease req)
     \<and> in_host_instance_id i = lease_host_instance_id (arc_lease req)
     \<and> in_fencing_generation i = lease_fencing_generation (arc_lease req)
     \<and> in_operation_id i = arc_operation_id req
     \<and> cr_receipt_id (in_receipt i) = arc_receipt_id req
     \<and> in_idempotency_key i = arc_idempotency_key req
     \<and> in_command_fingerprint i = arc_command_fingerprint req
     \<and> in_effect i = arc_effect req"

definition msg_invalid_control_transition :: string where
  "msg_invalid_control_transition = ''invalid durable run control state transition''"

definition intent_advance ::
    "durable_run_control_intent \<Rightarrow> durable_run_control_status \<Rightarrow> datetime
     \<Rightarrow> (durable_run_control_intent, string) result" where
  "intent_advance i next occurred_at =
     (if \<not> can_advance_to (in_status i) next then Err msg_invalid_control_transition
      else if in_status i = next then Ok i
      else
        let i' = i\<lparr>in_status := next,
                   in_receipt := (in_receipt i)\<lparr>cr_state := control_status_as_str next\<rparr>\<rparr>
        in Ok (case next of
             CtlPending \<Rightarrow> i'
           | CtlDelivered \<Rightarrow> i'\<lparr>in_delivered_at := Some occurred_at\<rparr>
           | CtlConsumed \<Rightarrow>
               i'\<lparr>in_delivered_at := (case in_delivered_at i' of
                                        Some t \<Rightarrow> Some t | None \<Rightarrow> Some occurred_at),
                  in_consumed_at := Some occurred_at\<rparr>
           | CtlReconciled \<Rightarrow> i'\<lparr>in_reconciled_at := Some occurred_at\<rparr>))"

fun control_rank :: "durable_run_control_status \<Rightarrow> nat" where
  "control_rank CtlPending = 0"
| "control_rank CtlDelivered = 1"
| "control_rank CtlConsumed = 2"
| "control_rank CtlReconciled = 3"

interpretation control: forward_status control_rank can_advance_to
proof
  fix a b
  assume "can_advance_to a b" "a \<noteq> b"
  then show "control_rank a < control_rank b"
    by (cases a; cases b) simp_all
qed

text \<open>
  An intent is consistent when its public receipt mirrors its state and each acknowledgement
  time is present exactly for the boundaries it has crossed.
\<close>

definition intent_consistent :: "durable_run_control_intent \<Rightarrow> bool" where
  "intent_consistent i \<longleftrightarrow>
     cr_state (in_receipt i) = control_status_as_str (in_status i)
     \<and> cr_target (in_receipt i) = in_target i
     \<and> cr_operation_id (in_receipt i) = in_operation_id i
     \<and> cr_idempotency_key (in_receipt i) = in_idempotency_key i
     \<and> cr_command_fingerprint (in_receipt i) = in_command_fingerprint i
     \<and> cr_fencing_generation (in_receipt i) = in_fencing_generation i
     \<and> (in_status i = CtlPending \<longrightarrow> in_delivered_at i = None)
     \<and> (in_status i \<in> {CtlDelivered, CtlConsumed} \<longrightarrow> in_delivered_at i \<noteq> None)
     \<and> (in_status i \<in> {CtlPending, CtlDelivered} \<longrightarrow> in_consumed_at i = None)
     \<and> (in_status i = CtlConsumed \<longrightarrow> in_consumed_at i \<noteq> None)
     \<and> (in_reconciled_at i \<noteq> None \<longleftrightarrow> in_status i = CtlReconciled)"

lemma into_intent_consistent: "intent_consistent (into_intent req)"
  by (simp add: intent_consistent_def into_intent_def Let_def)

lemma into_intent_matches: "matches_admission (into_intent req) req"
  by (simp add: matches_admission_def into_intent_def Let_def)

lemma intent_advance_consistent:
  assumes "intent_consistent i" and "intent_advance i next t = Ok i'"
  shows "intent_consistent i'"
  using assms
  by (cases "in_status i"; cases "next"; cases "in_delivered_at i")
     (auto simp: intent_advance_def intent_consistent_def Let_def)

lemma intent_advance_status:
  "intent_advance i next t = Ok i' \<Longrightarrow> in_status i' = next \<and> can_advance_to (in_status i) next"
  by (auto simp: intent_advance_def Let_def split: if_splits durable_run_control_status.splits)

lemma intent_advance_frame:
  "intent_advance i next t = Ok i' \<Longrightarrow>
     in_target i' = in_target i \<and> in_operation_id i' = in_operation_id i
     \<and> in_admission_id i' = in_admission_id i \<and> in_effect i' = in_effect i
     \<and> in_fencing_generation i' = in_fencing_generation i
     \<and> in_host_instance_id i' = in_host_instance_id i
     \<and> in_authority_binding i' = in_authority_binding i
     \<and> in_idempotency_key i' = in_idempotency_key i
     \<and> in_command_fingerprint i' = in_command_fingerprint i
     \<and> cr_receipt_id (in_receipt i') = cr_receipt_id (in_receipt i)"
  by (auto simp: intent_advance_def Let_def split: if_splits durable_run_control_status.splits)

lemma intent_advance_no_panic: "intent_advance i next t \<noteq> Panic"
  by (auto simp: intent_advance_def Let_def)

lemma intent_advance_reconciled_ok: "\<exists>i'. intent_advance i CtlReconciled t = Ok i'"
  by (cases "in_status i") (auto simp: intent_advance_def Let_def)

section \<open>HITL resume claims\<close>

datatype hitl_resume_claim_state = Preflight | Admitted | Started

datatype hitl_resume_abort_outcome = AbortedBeforeEffect | EffectStarted

datatype continuation_effect_phase = PhaseStarted
datatype continuation_effect_outcome = Indeterminate

record continuation_effect_state =
  ce_phase :: continuation_effect_phase
  ce_outcome :: continuation_effect_outcome

definition continuation_effect_indeterminate :: continuation_effect_state where
  "continuation_effect_indeterminate = \<lparr>ce_phase = PhaseStarted, ce_outcome = Indeterminate\<rparr>"

definition continuation_effect_metadata_key :: string where
  "continuation_effect_metadata_key = ''starweaver.continuation.effect''"

text \<open>
  The serialized form: a \<open>camelCase\<close> object whose enum values are in \<open>snake_case\<close>. Decoding
  denies unknown fields, so exactly the two members are accepted. \<open>None\<close> stands for a decoding
  error of the outer result.
\<close>

definition continuation_effect_to_json :: "continuation_effect_state \<Rightarrow> json" where
  "continuation_effect_to_json e =
     JObject [(''outcome'', JString (case ce_outcome e of Indeterminate \<Rightarrow> ''indeterminate'')),
              (''phase'', JString (case ce_phase e of PhaseStarted \<Rightarrow> ''started''))]"

definition continuation_effect_of_json :: "json \<Rightarrow> continuation_effect_state option" where
  "continuation_effect_of_json j =
     (case j of
        JObject ms \<Rightarrow>
          if set (map fst ms) = {''outcome'', ''phase''}
             \<and> map_of ms ''outcome'' = Some (JString ''indeterminate'')
             \<and> map_of ms ''phase'' = Some (JString ''started'')
          then Some continuation_effect_indeterminate else None
      | _ \<Rightarrow> None)"

definition continuation_effect_insert_into ::
    "continuation_effect_state \<Rightarrow> metadata \<Rightarrow> metadata" where
  "continuation_effect_insert_into e m =
     bt_insert continuation_effect_metadata_key (continuation_effect_to_json e) m"

definition continuation_effect_from_metadata ::
    "metadata \<Rightarrow> (continuation_effect_state option, unit) result" where
  "continuation_effect_from_metadata m =
     (case map_of m continuation_effect_metadata_key of
        None \<Rightarrow> Ok None
      | Some v \<Rightarrow>
          (case continuation_effect_of_json v of
             None \<Rightarrow> Err ()
           | Some e \<Rightarrow> Ok (Some e)))"

record hitl_resume_claim =
  claim_claim_id :: string
  claim_session_id :: session_id
  claim_run_id :: run_id
  claim_state :: hitl_resume_claim_state
  claim_created_at :: datetime

definition hitl_resume_claim_new ::
    "string \<Rightarrow> session_id \<Rightarrow> run_id \<Rightarrow> datetime \<Rightarrow> hitl_resume_claim" where
  "hitl_resume_claim_new cid sid rid created =
     \<lparr>claim_claim_id = cid, claim_session_id = sid, claim_run_id = rid,
      claim_state = Preflight, claim_created_at = created\<rparr>"

definition claim_is_valid_preflight :: "hitl_resume_claim \<Rightarrow> bool" where
  "claim_is_valid_preflight c \<longleftrightarrow> claim_state c = Preflight \<and> trim (claim_claim_id c) \<noteq> []"

text \<open>
  The claim protocol as a step relation. \<open>Preflight\<close> may be admitted, or marked started by the
  legacy single-step path; \<open>Admitted\<close> may be started; \<open>Started\<close> has no successor.
\<close>

inductive claim_step :: "hitl_resume_claim_state \<Rightarrow> hitl_resume_claim_state \<Rightarrow> bool" where
  admit: "claim_step Preflight Admitted"
| start: "claim_step Admitted Started"
| mark: "claim_step Preflight Started"

code_pred claim_step .

inductive_cases claim_step_from_started: "claim_step Started s"

fun claim_rank :: "hitl_resume_claim_state \<Rightarrow> nat" where
  "claim_rank Preflight = 0"
| "claim_rank Admitted = 1"
| "claim_rank Started = 2"

interpretation claims: forward_status claim_rank claim_step
  by standard (auto elim: claim_step.cases)

lemma continuation_effect_roundtrip:
  "continuation_effect_from_metadata (continuation_effect_insert_into e m) = Ok (Some e)"
proof -
  have "e = continuation_effect_indeterminate"
    by (cases "ce_phase e"; cases "ce_outcome e"; cases e)
       (simp add: continuation_effect_indeterminate_def)
  then show ?thesis
    by (auto simp: continuation_effect_from_metadata_def continuation_effect_insert_into_def
        continuation_effect_of_json_def continuation_effect_to_json_def
        continuation_effect_indeterminate_def)
qed

end
