(* ===== verification/Host_Events.thy ===== *)
theory Host_Events
  imports Management
begin

text \<open>
  Durable host-event evidence (\<open>starweaver-session/src/host_events.rs\<close>): event classes and
  scopes, deterministic publication identities, the run projections, and the rule that adds the
  authoritative run events to a batch.

  Two pieces of third-party code are parameters, kept in one record: the hexadecimal SHA-256
  digest of a byte sequence, and the JSON text of a UTC timestamp.
\<close>

record host_env =
  env_sha256_hex :: "string \<Rightarrow> string"
  env_time_text :: "datetime \<Rightarrow> string"

section \<open>Classes and scopes\<close>

datatype durable_host_event_class =
    SessionChanged | RunChanged | OutputAvailable | TranscriptChanged | ApprovalChanged
  | DeferredChanged | ClarificationChanged | EnvironmentChanged | Diagnostic

fun event_class_as_str :: "durable_host_event_class \<Rightarrow> string" where
  "event_class_as_str SessionChanged = ''session_changed''"
| "event_class_as_str RunChanged = ''run_changed''"
| "event_class_as_str OutputAvailable = ''output_available''"
| "event_class_as_str TranscriptChanged = ''transcript_changed''"
| "event_class_as_str ApprovalChanged = ''approval_changed''"
| "event_class_as_str DeferredChanged = ''deferred_changed''"
| "event_class_as_str ClarificationChanged = ''clarification_changed''"
| "event_class_as_str EnvironmentChanged = ''environment_changed''"
| "event_class_as_str Diagnostic = ''diagnostic''"

datatype durable_host_event_scope =
    ScopeGlobal
  | ScopeSession session_id
  | ScopeRun session_id run_id

fun scope_contains :: "durable_host_event_scope \<Rightarrow> durable_host_event_scope \<Rightarrow> bool" where
  "scope_contains ScopeGlobal _ = True"
| "scope_contains (ScopeSession e) (ScopeSession s) = (e = s)"
| "scope_contains (ScopeSession e) (ScopeRun s _) = (e = s)"
| "scope_contains (ScopeRun es er) (ScopeRun s r) = (es = s \<and> er = r)"
| "scope_contains _ _ = False"

fun scope_identity_components :: "durable_host_event_scope \<Rightarrow> string list" where
  "scope_identity_components ScopeGlobal = [''global'']"
| "scope_identity_components (ScopeSession s) = [''session'', s]"
| "scope_identity_components (ScopeRun s r) = [''run'', s, r]"

section \<open>Publication identities\<close>

text \<open>The byte sequence fed to the digest: each component framed by its length.\<close>

definition frame_components :: "string list \<Rightarrow> string" where
  "frame_components cs = concat (map (\<lambda>c. nat_to_string (length c) @ '':'' @ c @ '';'') cs)"

definition framed_digest :: "host_env \<Rightarrow> string list \<Rightarrow> string" where
  "framed_digest env cs = env_sha256_hex env (frame_components cs)"

type_synonym event_publication_key = string

definition msg_transition_identity_empty :: string where
  "msg_transition_identity_empty = ''host event transition identity cannot be empty''"

definition publication_key_components ::
    "string \<Rightarrow> nat \<Rightarrow> durable_host_event_scope \<Rightarrow> durable_host_event_class \<Rightarrow> string list" where
  "publication_key_components identity ordinal scope cls =
     [identity, event_class_as_str cls, nat_to_string ordinal] @ scope_identity_components scope"

definition event_publication_key_derive ::
    "host_env \<Rightarrow> string \<Rightarrow> nat \<Rightarrow> durable_host_event_scope \<Rightarrow> durable_host_event_class
     \<Rightarrow> event_publication_key store_result" where
  "event_publication_key_derive env identity ordinal scope cls =
     (if identity = [] then Err (StoreFailed msg_transition_identity_empty)
      else Ok (''host-event-publication-sha256:''
               @ framed_digest env (publication_key_components identity ordinal scope cls)))"

definition derived_event_id :: "host_env \<Rightarrow> event_publication_key \<Rightarrow> string" where
  "derived_event_id env key = ''event-sha256:'' @ framed_digest env [key]"

record pending_host_event_publication =
  pub_publication_key :: event_publication_key
  pub_event_id :: string
  pub_scope :: durable_host_event_scope
  pub_event_class :: durable_host_event_class
  pub_projection :: json
  pub_occurred_at :: datetime

definition msg_projection_not_object :: string where
  "msg_projection_not_object = ''durable host event projection must be a JSON object''"

definition msg_event_identity_empty :: string where
  "msg_event_identity_empty = ''durable host event identity cannot be empty''"

definition msg_event_identity_mismatch :: "event_publication_key \<Rightarrow> string" where
  "msg_event_identity_mismatch k = ''host event identity does not match publication '' @ k"

definition pending_publication_new ::
    "host_env \<Rightarrow> string \<Rightarrow> nat \<Rightarrow> durable_host_event_scope \<Rightarrow> durable_host_event_class \<Rightarrow> json
     \<Rightarrow> datetime \<Rightarrow> pending_host_event_publication store_result" where
  "pending_publication_new env identity ordinal scope cls projection occurred_at =
     (if \<not> json_is_object projection then Err (StoreFailed msg_projection_not_object)
      else case event_publication_key_derive env identity ordinal scope cls of
          Err e \<Rightarrow> Err e
        | Panic \<Rightarrow> Panic
        | Ok key \<Rightarrow>
            Ok \<lparr>pub_publication_key = key,
                pub_event_id = derived_event_id env key,
                pub_scope = scope,
                pub_event_class = cls,
                pub_projection = projection,
                pub_occurred_at = occurred_at\<rparr>)"

definition pending_publication_validate ::
    "host_env \<Rightarrow> pending_host_event_publication \<Rightarrow> unit store_result" where
  "pending_publication_validate env p =
     (if pub_publication_key p = [] \<or> pub_event_id p = []
      then Err (StoreFailed msg_event_identity_empty)
      else if pub_event_id p \<noteq> derived_event_id env (pub_publication_key p)
      then Err (Conflict (msg_event_identity_mismatch (pub_publication_key p)))
      else if \<not> json_is_object (pub_projection p)
      then Err (StoreFailed msg_projection_not_object)
      else Ok ())"

section \<open>Run projections\<close>

text \<open>Members with \<open>skip_serializing_if = "Option::is_none"\<close> are left out.\<close>

definition optional_member :: "string \<Rightarrow> string option \<Rightarrow> (string \<times> json) list" where
  "optional_member k v = (case v of None \<Rightarrow> [] | Some s \<Rightarrow> [(k, JString s)])"

definition run_changed_summary :: "host_env \<Rightarrow> run_record \<Rightarrow> json" where
  "run_changed_summary env run =
     JObject
       ([(''createdAt'', JString (env_time_text env (rr_created_at run)))]
        @ optional_member ''diagnosticRef'' (map_option te_code (rr_terminal_error run))
        @ optional_member ''outputPreview'' (rr_output_preview run)
        @ [(''revision'', JString (u64_to_string (rr_revision run))),
           (''runId'', JString (rr_run_id run)),
           (''sessionId'', JString (rr_session_id run)),
           (''status'', JString (run_status_as_str (rr_status run))),
           (''updatedAt'', JString (env_time_text env (rr_updated_at run)))])"

definition run_changed_publication ::
    "host_env \<Rightarrow> string \<Rightarrow> nat \<Rightarrow> run_record \<Rightarrow> pending_host_event_publication store_result" where
  "run_changed_publication env identity ordinal run =
     pending_publication_new env identity ordinal (ScopeRun (rr_session_id run) (rr_run_id run))
       RunChanged
       (JObject [(''kind'', JString ''run_changed''), (''run'', run_changed_summary env run)])
       (rr_updated_at run)"

definition output_available_publication ::
    "host_env \<Rightarrow> string \<Rightarrow> nat \<Rightarrow> run_record
     \<Rightarrow> pending_host_event_publication option store_result" where
  "output_available_publication env identity ordinal run =
     (case rr_output_preview run of
        None \<Rightarrow> Ok None
      | Some preview \<Rightarrow>
          result_map Some
            (pending_publication_new env identity ordinal
               (ScopeRun (rr_session_id run) (rr_run_id run)) OutputAvailable
               (JObject
                 [(''kind'', JString ''output_available''),
                  (''outputRef'', JString (''run-output:'' @ rr_session_id run @ '':''
                     @ rr_run_id run @ '':'' @ u64_to_string (rr_revision run))),
                  (''preview'', JString preview),
                  (''runId'', JString (rr_run_id run)),
                  (''sessionId'', JString (rr_session_id run))])
               (rr_updated_at run)))"

datatype transcript_update_projection =
    MessageStarted (tu_message_id: string) (tu_role: string)
  | TextAppended (tu_message_id: string) (tu_delta: string)
  | MessageFinished (tu_message_id: string)

fun transcript_update_to_json :: "transcript_update_projection \<Rightarrow> json" where
  "transcript_update_to_json (MessageStarted m r) =
     JObject [(''kind'', JString ''message_started''), (''messageId'', JString m),
              (''role'', JString r)]"
| "transcript_update_to_json (TextAppended m d) =
     JObject [(''delta'', JString d), (''kind'', JString ''text_appended''),
              (''messageId'', JString m)]"
| "transcript_update_to_json (MessageFinished m) =
     JObject [(''kind'', JString ''message_finished''), (''messageId'', JString m)]"

definition msg_transcript_role :: string where
  "msg_transcript_role = ''transcript role must be assistant''"

definition msg_transcript_message_identity :: string where
  "msg_transcript_message_identity =
     ''transcript message identity is outside host contract bounds''"

definition msg_transcript_delta :: string where
  "msg_transcript_delta = ''transcript text delta is outside host contract bounds''"

fun transcript_delta_of :: "transcript_update_projection \<Rightarrow> string option" where
  "transcript_delta_of (TextAppended _ d) = Some d"
| "transcript_delta_of _ = None"

definition transcript_changed_publication ::
    "host_env \<Rightarrow> string \<Rightarrow> nat \<Rightarrow> session_id \<Rightarrow> run_id \<Rightarrow> u64 \<Rightarrow> transcript_update_projection
     \<Rightarrow> datetime \<Rightarrow> pending_host_event_publication store_result" where
  "transcript_changed_publication env identity ordinal sid rid sequence update occurred_at =
     (if (case update of MessageStarted _ role \<Rightarrow> role \<noteq> ''assistant'' | _ \<Rightarrow> False)
      then Err (StoreFailed msg_transcript_role)
      else if tu_message_id update = [] \<or> chars_count (tu_message_id update) > 256
      then Err (StoreFailed msg_transcript_message_identity)
      else if (case transcript_delta_of update of
                 None \<Rightarrow> False | Some d \<Rightarrow> d = [] \<or> chars_count d > 16384)
      then Err (StoreFailed msg_transcript_delta)
      else pending_publication_new env identity ordinal (ScopeRun sid rid) TranscriptChanged
             (JObject
               [(''kind'', JString ''transcript_changed''),
                (''runId'', JString rid),
                (''sessionId'', JString sid),
                (''transcriptSequence'', JString (u64_to_string sequence)),
                (''update'', transcript_update_to_json update)])
             occurred_at)"

section \<open>Authoritative run publications\<close>

fun list_position :: "('a \<Rightarrow> bool) \<Rightarrow> 'a list \<Rightarrow> nat option" where
  "list_position P [] = None"
| "list_position P (x # xs) = (if P x then Some 0 else map_option Suc (list_position P xs))"

definition list_remove_at :: "nat \<Rightarrow> 'a list \<Rightarrow> 'a list" where
  "list_remove_at i xs = take i xs @ drop (Suc i) xs"

definition list_insert_at :: "nat \<Rightarrow> 'a \<Rightarrow> 'a list \<Rightarrow> 'a list" where
  "list_insert_at i x xs = take i xs @ x # drop i xs"

definition is_publication ::
    "durable_host_event_scope \<Rightarrow> durable_host_event_class \<Rightarrow> pending_host_event_publication \<Rightarrow> bool" where
  "is_publication scope cls p \<longleftrightarrow> pub_scope p = scope \<and> pub_event_class p = cls"

text \<open>The last part of one iteration: a terminal run's output precedes its change event.\<close>

definition order_output_before_change ::
    "durable_host_event_scope \<Rightarrow> run_record \<Rightarrow> pending_host_event_publication list
     \<Rightarrow> pending_host_event_publication list" where
  "order_output_before_change scope run pubs =
     (if run_status_is_terminal (rr_status run) \<and> rr_output_preview run \<noteq> None
      then case (list_position (is_publication scope RunChanged) pubs,
                 list_position (is_publication scope OutputAvailable) pubs) of
             (Some i, Some j) \<Rightarrow>
               if j > i then list_insert_at i (pubs ! j) (list_remove_at j pubs) else pubs
           | _ \<Rightarrow> pubs
      else pubs)"

definition msg_too_many_publications :: string where
  "msg_too_many_publications =
     ''too many authoritative run publications: out of range integral type conversion attempted''"

fun append_authoritative_from ::
    "host_env \<Rightarrow> string \<Rightarrow> nat \<Rightarrow> pending_host_event_publication list \<Rightarrow> run_record list
     \<Rightarrow> pending_host_event_publication list store_result" where
  "append_authoritative_from env identity index pubs [] = Ok pubs"
| "append_authoritative_from env identity index pubs (run # runs) =
     (let scope = ScopeRun (rr_session_id run) (rr_run_id run) in
      if \<not> fits_u32 index then Err (StoreFailed msg_too_many_publications)
      else
        case (if \<exists>p \<in> set pubs. is_publication scope RunChanged p then Ok pubs
              else result_map (\<lambda>p. pubs @ [p]) (run_changed_publication env identity index run)) of
          Err e \<Rightarrow> Err e
        | Panic \<Rightarrow> Panic
        | Ok pubs1 \<Rightarrow>
            (case (if rr_output_preview run \<noteq> None
                      \<and> \<not> (\<exists>p \<in> set pubs1. is_publication scope OutputAvailable p)
                   then result_map (\<lambda>p. case p of None \<Rightarrow> pubs1 | Some q \<Rightarrow> pubs1 @ [q])
                          (output_available_publication env identity index run)
                   else Ok pubs1) of
               Err e \<Rightarrow> Err e
             | Panic \<Rightarrow> Panic
             | Ok pubs2 \<Rightarrow>
                 append_authoritative_from env identity (Suc index)
                   (order_output_before_change scope run pubs2) runs))"

definition append_authoritative_run_publications ::
    "host_env \<Rightarrow> pending_host_event_publication list \<Rightarrow> string \<Rightarrow> run_record list
     \<Rightarrow> pending_host_event_publication list store_result" where
  "append_authoritative_run_publications env pubs identity runs =
     append_authoritative_from env identity 0 pubs runs"

section \<open>Materialized records and queries\<close>

record durable_host_event_record =
  her_position :: u64
  her_publication_key :: event_publication_key
  her_event_id :: string
  her_scope :: durable_host_event_scope
  her_event_class :: durable_host_event_class
  her_projection :: json
  her_occurred_at :: datetime

definition host_event_from_pending ::
    "u64 \<Rightarrow> pending_host_event_publication \<Rightarrow> durable_host_event_record" where
  "host_event_from_pending position p =
     \<lparr>her_position = position,
      her_publication_key = pub_publication_key p,
      her_event_id = pub_event_id p,
      her_scope = pub_scope p,
      her_event_class = pub_event_class p,
      her_projection = pub_projection p,
      her_occurred_at = pub_occurred_at p\<rparr>"

definition pending_projection :: "durable_host_event_record \<Rightarrow> pending_host_event_publication" where
  "pending_projection r =
     \<lparr>pub_publication_key = her_publication_key r,
      pub_event_id = her_event_id r,
      pub_scope = her_scope r,
      pub_event_class = her_event_class r,
      pub_projection = her_projection r,
      pub_occurred_at = her_occurred_at r\<rparr>"

definition max_host_event_page_size :: u64 where
  "max_host_event_page_size = 500"

definition max_host_event_position :: u64 where
  "max_host_event_position = 9223372036854775807"

record durable_host_event_query =
  heq_scope :: durable_host_event_scope
  heq_event_classes :: "durable_host_event_class set"
  heq_after_position :: "u64 option"
  heq_limit :: u64

record durable_host_event_page =
  hep_records :: "durable_host_event_record list"
  hep_next_position :: "u64 option"
  hep_has_more :: bool

definition msg_query_requires_class :: string where
  "msg_query_requires_class = ''durable host event query requires at least one event class''"

definition msg_query_limit :: string where
  "msg_query_limit = ''durable host event query limit must be between 1 and 500''"

definition msg_query_position :: string where
  "msg_query_position = ''durable host event position exceeds 9223372036854775807''"

definition host_event_query_new ::
    "durable_host_event_scope \<Rightarrow> durable_host_event_class set \<Rightarrow> u64 option \<Rightarrow> u64
     \<Rightarrow> durable_host_event_query store_result" where
  "host_event_query_new scope classes after limit =
     (if classes = {} then Err (StoreFailed msg_query_requires_class)
      else if \<not> (1 \<le> limit \<and> limit \<le> max_host_event_page_size)
      then Err (StoreFailed msg_query_limit)
      else if (case after of None \<Rightarrow> False | Some p \<Rightarrow> p > max_host_event_position)
      then Err (StoreFailed msg_query_position)
      else Ok \<lparr>heq_scope = scope, heq_event_classes = classes, heq_after_position = after,
               heq_limit = limit\<rparr>)"

section \<open>Facts\<close>

lemma pending_projection_from_pending [simp]:
  "pending_projection (host_event_from_pending pos p) = p"
  by (simp add: pending_projection_def host_event_from_pending_def)

lemma from_pending_simps [simp]:
  "her_position (host_event_from_pending pos p) = pos"
  "her_publication_key (host_event_from_pending pos p) = pub_publication_key p"
  "her_event_id (host_event_from_pending pos p) = pub_event_id p"
  by (simp_all add: host_event_from_pending_def)

text \<open>Length framing is unambiguous: distinct component lists have distinct byte sequences.\<close>

lemma not_digit_colon: "\<not> is_digit (CHR '':'')"
  by (simp add: is_digit_def)

lemma takeWhile_digits_frame:
  "takeWhile is_digit (nat_to_string n @ '':'' @ s) = nat_to_string n"
  using nat_to_string_digits [of n] not_digit_colon by (simp add: takeWhile_append2)

lemma frame_components_inject:
  "frame_components cs = frame_components ds \<Longrightarrow> cs = ds"
proof (induction cs arbitrary: ds)
  case Nil
  then show ?case
    by (cases ds) (auto simp: frame_components_def nat_to_string_nonempty)
next
  case (Cons c cs)
  show ?case
  proof (cases ds)
    case Nil
    with Cons.prems show ?thesis by (auto simp: frame_components_def)
  next
    case (Cons d ds')
    have eq: "nat_to_string (length c) @ '':'' @ (c @ '';'' @ frame_components cs)
        = nat_to_string (length d) @ '':'' @ (d @ '';'' @ frame_components ds')"
      using Cons.prems Cons by (simp add: frame_components_def)
    then have "nat_to_string (length c) = nat_to_string (length d)"
      using takeWhile_digits_frame by metis
    then have len: "length c = length d"
      by (simp add: nat_to_string_inject)
    with eq have "c @ '';'' @ frame_components cs = d @ '';'' @ frame_components ds'"
      by simp
    with len have "c = d" and "frame_components cs = frame_components ds'"
      by auto
    with Cons.IH Cons show ?thesis by simp
  qed
qed

lemma scope_components_inject:
  "scope_identity_components s = scope_identity_components t \<longleftrightarrow> s = t"
  by (cases s; cases t) auto

lemma event_class_inject: "event_class_as_str a = event_class_as_str b \<longleftrightarrow> a = b"
  by (cases a; cases b) simp_all

lemma publication_components_inject:
  "publication_key_components i n s c = publication_key_components i' n' s' c'
     \<longleftrightarrow> i = i' \<and> n = n' \<and> s = s' \<and> c = c'"
  by (auto simp: publication_key_components_def nat_to_string_inject scope_components_inject
      event_class_inject)

lemma pending_publication_new_ok:
  assumes "pending_publication_new env identity n scope cls proj t = Ok p"
  shows "pub_scope p = scope" and "pub_event_class p = cls" and "pub_projection p = proj"
    and "pending_publication_validate env p = Ok ()"
  using assms
  by (auto simp: pending_publication_new_def event_publication_key_derive_def
      pending_publication_validate_def derived_event_id_def split: if_splits)

lemma pending_publication_new_total:
  assumes "identity \<noteq> []" and "json_is_object proj"
  shows "\<exists>p. pending_publication_new env identity n scope cls proj t = Ok p"
  using assms by (simp add: pending_publication_new_def event_publication_key_derive_def)

end
