(* ===== verification/Background.thy ===== *)
theory Background
  imports Management
begin

text \<open>
  Durable projections of background subagent attempts
  (\<open>starweaver-session/src/background.rs\<close>): execution, delivery and retention are three
  orthogonal states of one record; an owner lease fences execution writes and a bounded claim
  fences delivery. Oversized results are kept as artifacts, and a terminal result may cause a
  continuation of the parent session whose input and cause are derived from the record.

  SHA-256 and the JSON writer of \<open>serde_json\<close> are third-party code: the digest and the two
  serializations the fingerprints use are parameters, kept in one record.
\<close>

datatype background_execution_status =
    BgAccepted | BgStarting | BgRunning | BgWaiting | BgCompleted | BgFailed | BgCancelled

fun background_execution_is_terminal :: "background_execution_status \<Rightarrow> bool" where
  "background_execution_is_terminal BgCompleted = True"
| "background_execution_is_terminal BgFailed = True"
| "background_execution_is_terminal BgCancelled = True"
| "background_execution_is_terminal _ = False"

datatype background_delivery_status = Undelivered | Claimed | Delivered

datatype background_retention_status = RetInline | RetArtifact | RetExpired

record background_result_ref =
  brr_content :: "string option"
  brr_error :: "string option"
  brr_artifact_ref :: "string option"
  brr_digest :: "string option"
  brr_size_bytes :: u64

record background_delivery_claim =
  bdc_claim_id :: string
  bdc_continuation_run_id :: "run_id option"
  bdc_deadline :: datetime

datatype background_delivery_release = Retryable | ConsumerTerminated run_id

record background_owner_lease =
  bol_host_instance_id :: string
  bol_fencing_generation :: u64
  bol_heartbeat_at :: datetime
  bol_lease_expires_at :: datetime

definition background_owner_lease_is_valid :: "background_owner_lease \<Rightarrow> bool" where
  "background_owner_lease_is_valid l \<longleftrightarrow>
     bol_host_instance_id l \<noteq> [] \<and> bol_fencing_generation l > 0
     \<and> bol_lease_expires_at l > bol_heartbeat_at l"

definition background_owner_expired_at :: "background_owner_lease \<Rightarrow> datetime \<Rightarrow> bool" where
  "background_owner_expired_at l now \<longleftrightarrow> bol_lease_expires_at l \<le> now"

record background_subagent_record =
  bg_schema_version :: "32 word"
  bg_attempt_id :: string
  bg_agent_id :: string
  bg_linked_task_id :: "string option"
  bg_subagent_name :: string
  bg_namespace_id :: string
  bg_parent_session_id :: session_id
  bg_parent_run_id :: run_id
  bg_child_run_id :: "run_id option"
  bg_continuation_run_id :: "run_id option"
  bg_profile :: string
  bg_owner_lease :: background_owner_lease
  bg_execution_status :: background_execution_status
  bg_result_ref :: "background_result_ref option"
  bg_failure_category :: "string option"
  bg_cancellation_reason :: "string option"
  bg_delivery_status :: background_delivery_status
  bg_delivery_claim :: "background_delivery_claim option"
  bg_delivered_claim_id :: "string option"
  bg_automatic_continuation_suppressed_by_run_id :: "run_id option"
  bg_retention_status :: background_retention_status
  bg_retention_expires_at :: "datetime option"
  bg_trace_context :: "json option"
  bg_accepted_at :: datetime
  bg_updated_at :: datetime
  bg_terminal_at :: "datetime option"

definition background_is_valid_acceptance :: "background_subagent_record \<Rightarrow> bool" where
  "background_is_valid_acceptance r \<longleftrightarrow>
     bg_execution_status r = BgAccepted
     \<and> background_owner_lease_is_valid (bg_owner_lease r)
     \<and> bol_heartbeat_at (bg_owner_lease r) = bg_accepted_at r
     \<and> bg_child_run_id r = None
     \<and> bg_result_ref r = None
     \<and> bg_failure_category r = None
     \<and> bg_cancellation_reason r = None
     \<and> bg_delivery_status r = Undelivered
     \<and> bg_delivery_claim r = None
     \<and> bg_delivered_claim_id r = None
     \<and> bg_continuation_run_id r = None
     \<and> bg_automatic_continuation_suppressed_by_run_id r = None
     \<and> bg_retention_status r = RetInline
     \<and> bg_retention_expires_at r = None
     \<and> bg_terminal_at r = None
     \<and> bg_updated_at r = bg_accepted_at r"

definition background_is_valid_terminal :: "background_subagent_record \<Rightarrow> bool" where
  "background_is_valid_terminal r \<longleftrightarrow>
     background_execution_is_terminal (bg_execution_status r)
     \<and> background_owner_lease_is_valid (bg_owner_lease r)
     \<and> bg_result_ref r \<noteq> None
     \<and> bg_delivery_status r = Undelivered
     \<and> bg_delivery_claim r = None
     \<and> bg_delivered_claim_id r = None
     \<and> bg_continuation_run_id r = None
     \<and> bg_automatic_continuation_suppressed_by_run_id r = None
     \<and> (case bg_retention_status r of
          RetExpired \<Rightarrow>
            bg_retention_expires_at r = None
            \<and> (case bg_result_ref r of
                 None \<Rightarrow> False
               | Some x \<Rightarrow> brr_content x = None \<and> brr_error x = None \<and> brr_artifact_ref x = None)
        | _ \<Rightarrow> (case bg_retention_expires_at r of
                  None \<Rightarrow> False | Some d \<Rightarrow> d > bg_updated_at r))
     \<and> bg_terminal_at r = Some (bg_updated_at r)
     \<and> bg_updated_at r \<ge> bg_accepted_at r
     \<and> (if bg_execution_status r = BgCompleted
        then bg_failure_category r = None \<and> bg_cancellation_reason r = None else True)
     \<and> (if bg_cancellation_reason r \<noteq> None
        then bg_execution_status r = BgCancelled else True)"

definition background_delivery_claimable_at :: "background_subagent_record \<Rightarrow> datetime \<Rightarrow> bool" where
  "background_delivery_claimable_at r now \<longleftrightarrow>
     background_execution_is_terminal (bg_execution_status r)
     \<and> (bg_delivery_status r = Undelivered
        \<or> (bg_delivery_status r = Claimed
           \<and> (case bg_delivery_claim r of
                None \<Rightarrow> False | Some c \<Rightarrow> bdc_deadline c \<le> now)))"

lemma valid_terminal_claimable:
  "background_is_valid_terminal r \<Longrightarrow> background_delivery_claimable_at r now"
  by (simp add: background_is_valid_terminal_def background_delivery_claimable_at_def)

section \<open>Artifacts\<close>

definition background_execution_as_str :: "background_execution_status \<Rightarrow> string" where
  "background_execution_as_str st =
     (case st of BgAccepted \<Rightarrow> ''accepted'' | BgStarting \<Rightarrow> ''starting'' | BgRunning \<Rightarrow> ''running''
      | BgWaiting \<Rightarrow> ''waiting'' | BgCompleted \<Rightarrow> ''completed'' | BgFailed \<Rightarrow> ''failed''
      | BgCancelled \<Rightarrow> ''cancelled'')"

record background_artifact =
  ba_artifact_ref :: string
  ba_namespace_id :: string
  ba_attempt_id :: string
  ba_content :: string
  ba_digest :: string
  ba_size_bytes :: u64
  ba_created_at :: datetime
  ba_expires_at :: datetime

text \<open>
  The canonical evidence of a commit, in the order of the serialized struct. Two commits have the
  same evidence when they differ only in the delivery fields and the lease times. The fingerprint
  of a commit is a parameter on top of it: the JSON bytes of the evidence and their digest.
\<close>

record canonical_terminal_commit =
  ctc_schema_version :: "32 word"
  ctc_attempt_id :: string
  ctc_agent_id :: string
  ctc_linked_task_id :: "string option"
  ctc_subagent_name :: string
  ctc_namespace_id :: string
  ctc_parent_session_id :: session_id
  ctc_parent_run_id :: run_id
  ctc_child_run_id :: "run_id option"
  ctc_profile :: string
  ctc_owner_host_instance_id :: string
  ctc_owner_fencing_generation :: u64
  ctc_execution_status :: background_execution_status
  ctc_result_ref :: "background_result_ref option"
  ctc_failure_category :: "string option"
  ctc_cancellation_reason :: "string option"
  ctc_initial_retention_status :: background_retention_status
  ctc_initial_retention_expires_at :: "datetime option"
  ctc_trace_context :: "json option"
  ctc_accepted_at :: datetime
  ctc_terminal_at :: "datetime option"
  ctc_updated_at :: datetime
  ctc_artifact :: "background_artifact option"

definition canonical_evidence ::
    "background_subagent_record \<Rightarrow> background_artifact option \<Rightarrow> canonical_terminal_commit" where
  "canonical_evidence r artifact =
     \<lparr>ctc_schema_version = bg_schema_version r,
      ctc_attempt_id = bg_attempt_id r,
      ctc_agent_id = bg_agent_id r,
      ctc_linked_task_id = bg_linked_task_id r,
      ctc_subagent_name = bg_subagent_name r,
      ctc_namespace_id = bg_namespace_id r,
      ctc_parent_session_id = bg_parent_session_id r,
      ctc_parent_run_id = bg_parent_run_id r,
      ctc_child_run_id = bg_child_run_id r,
      ctc_profile = bg_profile r,
      ctc_owner_host_instance_id = bol_host_instance_id (bg_owner_lease r),
      ctc_owner_fencing_generation = bol_fencing_generation (bg_owner_lease r),
      ctc_execution_status = bg_execution_status r,
      ctc_result_ref = bg_result_ref r,
      ctc_failure_category = bg_failure_category r,
      ctc_cancellation_reason = bg_cancellation_reason r,
      ctc_initial_retention_status = bg_retention_status r,
      ctc_initial_retention_expires_at = bg_retention_expires_at r,
      ctc_trace_context = bg_trace_context r,
      ctc_accepted_at = bg_accepted_at r,
      ctc_terminal_at = bg_terminal_at r,
      ctc_updated_at = bg_updated_at r,
      ctc_artifact = artifact\<rparr>"

text \<open>The third-party parameters: the digest, and the JSON bytes of input parts and of evidence.\<close>

record background_env =
  bge_sha256_hex :: "string \<Rightarrow> string"
  bge_input_json :: "json list \<Rightarrow> string"
  bge_commit_json :: "canonical_terminal_commit \<Rightarrow> string"

definition nul :: string where
  "nul = [Char False False False False False False False False]"

definition background_subagent_result_digest ::
    "background_env \<Rightarrow> string option \<Rightarrow> string option \<Rightarrow> string" where
  "background_subagent_result_digest env content error =
     ''sha256:'' @ bge_sha256_hex env
       (''starweaver.session.background_subagent.result.v1'' @ nul
        @ (case (content, error) of
             (Some c, _) \<Rightarrow> ''content'' @ nul @ c
           | (None, Some e) \<Rightarrow> ''error'' @ nul @ e
           | (None, None) \<Rightarrow> ''empty'' @ nul))"

definition background_subagent_input_digest :: "background_env \<Rightarrow> json list \<Rightarrow> string" where
  "background_subagent_input_digest env input =
     ''sha256:'' @ bge_sha256_hex env
       (''starweaver.session.background_subagent_continuation.input.v1'' @ nul @ bge_input_json env input)"

definition artifact_content_digest :: "background_env \<Rightarrow> string \<Rightarrow> string" where
  "artifact_content_digest env content = background_subagent_result_digest env (Some content) None"

definition artifact_is_valid :: "background_env \<Rightarrow> background_artifact \<Rightarrow> bool" where
  "artifact_is_valid env a \<longleftrightarrow>
     ba_artifact_ref a \<noteq> [] \<and> ba_namespace_id a \<noteq> []
     \<and> ba_digest a = artifact_content_digest env (ba_content a)
     \<and> ba_size_bytes a = of_nat (length (ba_content a))
     \<and> ba_expires_at a > ba_created_at a"

definition artifact_is_available_at :: "background_env \<Rightarrow> background_artifact \<Rightarrow> datetime \<Rightarrow> bool" where
  "artifact_is_available_at env a now \<longleftrightarrow> artifact_is_valid env a \<and> ba_expires_at a > now"

record artifact_limits =
  al_max_single_bytes :: u64
  al_max_retained_bytes :: u64

definition artifact_limits_is_valid :: "artifact_limits \<Rightarrow> bool" where
  "artifact_limits_is_valid l \<longleftrightarrow>
     al_max_single_bytes l > 0 \<and> al_max_retained_bytes l > 0
     \<and> al_max_single_bytes l \<le> al_max_retained_bytes l"

section \<open>Terminal commits\<close>

record background_terminal_commit =
  btc_record :: background_subagent_record
  btc_artifact :: "background_artifact option"
  btc_artifact_limits :: "artifact_limits option"

definition canonical_fingerprint :: "background_env \<Rightarrow> background_terminal_commit \<Rightarrow> string" where
  "canonical_fingerprint env commit =
     ''sha256:'' @ bge_sha256_hex env
       (''starweaver.session.background_subagent.terminal_commit.v1'' @ nul
        @ bge_commit_json env (canonical_evidence (btc_record commit) (btc_artifact commit)))"

section \<open>Continuations\<close>

text \<open>
  Inputs and trace contexts are kept in their serialized form: a text part is an object with its
  kind and text, and the default trace context is the empty object.
\<close>

definition input_part_text :: "string \<Rightarrow> json" where
  "input_part_text t = JObject [(''kind'', JString ''text''), (''text'', JString t)]"

definition default_trace_context :: json where
  "default_trace_context = JObject []"

definition trace_or_default :: "json option \<Rightarrow> json" where
  "trace_or_default t = (case t of None \<Rightarrow> default_trace_context | Some c \<Rightarrow> c)"

definition finished_text :: "background_subagent_record \<Rightarrow> string" where
  "finished_text r =
     ''Background subagent finished with status '' @ background_execution_as_str (bg_execution_status r) @ ''.''"

definition continuation_outcome ::
    "background_subagent_record \<Rightarrow> string option \<Rightarrow> string" where
  "continuation_outcome r artifact_content =
     (if bg_retention_status r = RetExpired then
        ''Retained background result content expired (digest: ''
        @ (case bg_result_ref r of
             None \<Rightarrow> ''unknown''
           | Some x \<Rightarrow> (case brr_digest x of None \<Rightarrow> ''unknown'' | Some d \<Rightarrow> d))
        @ '', logical_size_bytes: ''
        @ u64_to_string (case bg_result_ref r of None \<Rightarrow> 0 | Some x \<Rightarrow> brr_size_bytes x) @ '').''
      else
        (case artifact_content of
           Some content \<Rightarrow> content
         | None \<Rightarrow>
             (case bg_result_ref r of
                None \<Rightarrow> finished_text r
              | Some x \<Rightarrow>
                  (case brr_content x of
                     Some c \<Rightarrow> c
                   | None \<Rightarrow> (case brr_error x of Some e \<Rightarrow> e | None \<Rightarrow> finished_text r)))))"

definition newline :: string where
  "newline = [Char False True False True False False False False]"

definition continuation_text ::
    "background_subagent_record \<Rightarrow> string option \<Rightarrow> string" where
  "continuation_text r artifact_content =
     ''Background subagent result (subagent: '' @ bg_subagent_name r
     @ '', agent_id: '' @ bg_agent_id r
     @ '', attempt_id: '' @ bg_attempt_id r
     @ '', child_run_id: '' @ (case bg_child_run_id r of None \<Rightarrow> ''unknown'' | Some c \<Rightarrow> c)
     @ ''):'' @ newline @ newline @ continuation_outcome r artifact_content"

definition continuation_input ::
    "background_subagent_record \<Rightarrow> string option \<Rightarrow> json list" where
  "continuation_input r artifact_content =
     [input_part_text (continuation_text r artifact_content)]"

definition metadata_str :: "metadata \<Rightarrow> string \<Rightarrow> string option" where
  "metadata_str m k = (case map_of m k of Some (JString v) \<Rightarrow> Some v | _ \<Rightarrow> None)"

definition validates_continuation_run :: "background_subagent_record \<Rightarrow> run_record \<Rightarrow> bool" where
  "validates_continuation_run r run \<longleftrightarrow>
     rr_session_id run = bg_parent_session_id r
     \<and> rr_status run = StQueued
     \<and> rr_parent_run_id run = Some (bg_parent_run_id r)
     \<and> rr_trigger_type run = Some ''async_subagent_result''
     \<and> rr_profile run = Some (bg_profile r)
     \<and> metadata_str (rr_metadata run) ''starweaver.async_subagent.attempt_id'' = Some (bg_attempt_id r)
     \<and> metadata_str (rr_metadata run) ''starweaver.async_subagent.agent_id'' = Some (bg_agent_id r)
     \<and> metadata_str (rr_metadata run) ''starweaver.async_subagent.parent_run_id''
         = Some (bg_parent_run_id r)
     \<and> (case bg_child_run_id r of
          None \<Rightarrow> \<not> bt_contains (rr_metadata run) ''starweaver.async_subagent.child_run_id''
        | Some c \<Rightarrow> metadata_str (rr_metadata run) ''starweaver.async_subagent.child_run_id'' = Some c)
     \<and> rr_trace_context run = trace_or_default (bg_trace_context r)"

record continuation_cause =
  cc_attempt_id :: string
  cc_agent_id :: string
  cc_parent_session_id :: session_id
  cc_parent_run_id :: run_id
  cc_child_run_id :: "run_id option"
  cc_result_digest :: "string option"
  cc_result_size_bytes :: u64
  cc_trace_context :: json
  cc_input_digest :: string

definition result_digest_of :: "background_subagent_record \<Rightarrow> string option" where
  "result_digest_of r = (case bg_result_ref r of None \<Rightarrow> None | Some x \<Rightarrow> brr_digest x)"

definition result_size_of :: "background_subagent_record \<Rightarrow> u64" where
  "result_size_of r = (case bg_result_ref r of None \<Rightarrow> 0 | Some x \<Rightarrow> brr_size_bytes x)"

definition continuation_cause_new ::
    "background_env \<Rightarrow> background_subagent_record \<Rightarrow> json list \<Rightarrow> continuation_cause" where
  "continuation_cause_new env r input =
     \<lparr>cc_attempt_id = bg_attempt_id r, cc_agent_id = bg_agent_id r,
      cc_parent_session_id = bg_parent_session_id r, cc_parent_run_id = bg_parent_run_id r,
      cc_child_run_id = bg_child_run_id r, cc_result_digest = result_digest_of r,
      cc_result_size_bytes = result_size_of r,
      cc_trace_context = trace_or_default (bg_trace_context r),
      cc_input_digest = background_subagent_input_digest env input\<rparr>"

definition validates_continuation_cause_envelope ::
    "background_env \<Rightarrow> background_subagent_record \<Rightarrow> continuation_cause \<Rightarrow> run_record \<Rightarrow> bool" where
  "validates_continuation_cause_envelope env r cause run \<longleftrightarrow>
     validates_continuation_run r run
     \<and> cc_attempt_id cause = bg_attempt_id r
     \<and> cc_agent_id cause = bg_agent_id r
     \<and> cc_parent_session_id cause = bg_parent_session_id r
     \<and> cc_parent_run_id cause = bg_parent_run_id r
     \<and> cc_child_run_id cause = bg_child_run_id r
     \<and> cc_result_digest cause = result_digest_of r
     \<and> cc_result_size_bytes cause = result_size_of r
     \<and> cc_trace_context cause = trace_or_default (bg_trace_context r)
     \<and> cc_input_digest cause = background_subagent_input_digest env (rr_input run)"

definition validates_continuation_cause ::
    "background_env \<Rightarrow> background_subagent_record \<Rightarrow> continuation_cause
     \<Rightarrow> run_record \<Rightarrow> string option \<Rightarrow> bool" where
  "validates_continuation_cause env r cause run artifact_content \<longleftrightarrow>
     (bg_retention_status r = RetArtifact) = (artifact_content \<noteq> None)
     \<and> validates_continuation_cause_envelope env r cause run
     \<and> rr_input run = continuation_input r artifact_content"

record acquire_continuation_req =
  acr_attempt_id :: string
  acr_claim_id :: string
  acr_claim_deadline :: datetime
  acr_cause :: continuation_cause
  acr_admission :: acquire_run_admission_req

record continuation_receipt =
  ctr_cause :: continuation_cause
  ctr_background :: background_subagent_record
  ctr_admission :: run_admission_receipt

lemma cause_of_run_is_envelope:
  "validates_continuation_cause_envelope env r (continuation_cause_new env r (rr_input run)) run
     \<longleftrightarrow> validates_continuation_run r run"
  by (simp add: validates_continuation_cause_envelope_def continuation_cause_new_def)

lemma envelope_is_canonical:
  "validates_continuation_cause_envelope env r cause run \<longleftrightarrow>
     validates_continuation_run r run \<and> cause = continuation_cause_new env r (rr_input run)"
  by (cases cause) (auto simp: validates_continuation_cause_envelope_def continuation_cause_new_def)

end
