(* ===== verification/Store_State.thy ===== *)
theory Store_State
  imports Run_Control Host_Events Background
begin

text \<open>
  The state of the in-memory session store (\<open>starweaver-session/src/store/memory.rs\<close>) and the
  helpers its operations share.

  The code keeps \<open>StoreInner\<close> behind one mutex that every operation holds from its first read to
  its last write, so an operation is a function from the state to a result and the next state. A
  function that mutates the state in place and then fails leaves its partial writes behind; a
  function that works on a clone and assigns it back leaves nothing. Both are modelled as written:
  an operation returns the state next to the result, also on failure. A poisoned mutex (a panic of
  another thread inside the store) is outside the model.
\<close>

type_synonym run_key_t = "session_id \<times> run_id"

record store_inner =
  si_sessions :: "(session_id, session_record) btmap"
  si_runs :: "(run_key_t, run_record) btmap"
  si_run_sequences :: "(session_id, (u64, run_id) btmap) btmap"
  si_hitl_resume_claims :: "(run_key_t, hitl_resume_claim) btmap"
  si_host_event_outbox :: "(event_publication_key, pending_host_event_publication) btmap"
  si_host_event_outbox_order :: "(u64, event_publication_key) btmap"
  si_host_event_outbox_sequences :: "(event_publication_key, u64) btmap"
  si_last_host_event_outbox_sequence :: u64
  si_host_event_records :: "(u64, durable_host_event_record) btmap"
  si_host_event_positions :: "(event_publication_key, u64) btmap"
  si_host_event_ids :: "(string, event_publication_key) btmap"
  si_last_host_event_position :: u64
  si_session_idempotency :: "(string \<times> string, string \<times> session_record) btmap"
  si_run_admission_idempotency :: "(string \<times> string, string \<times> run_admission_receipt) btmap"
  si_run_admissions :: "(managed_session_target, run_admission_lease) btmap"
  si_admission_generations :: "(managed_session_target, u64) btmap"
  si_control_receipts :: "(string, durable_control_receipt) btmap"
  si_control_idempotency :: "(managed_run_target \<times> string, string) btmap"
  si_run_control_intents :: "(managed_run_target \<times> string, durable_run_control_intent) btmap"
  si_run_control_authority_keys :: "(string \<times> string, managed_run_target \<times> string) btmap"
  si_background_subagents :: "(string, background_subagent_record) btmap"
  si_background_artifacts :: "(string, background_artifact) btmap"
  si_background_terminal_fingerprints :: "(string, string) btmap"

definition store_new :: store_inner where
  "store_new =
     \<lparr>si_sessions = [], si_runs = [], si_run_sequences = [], si_hitl_resume_claims = [],
      si_host_event_outbox = [], si_host_event_outbox_order = [],
      si_host_event_outbox_sequences = [], si_last_host_event_outbox_sequence = 0,
      si_host_event_records = [], si_host_event_positions = [], si_host_event_ids = [],
      si_last_host_event_position = 0, si_session_idempotency = [],
      si_run_admission_idempotency = [], si_run_admissions = [], si_admission_generations = [],
      si_control_receipts = [], si_control_idempotency = [], si_run_control_intents = [],
      si_run_control_authority_keys = [], si_background_subagents = [],
      si_background_artifacts = [], si_background_terminal_fingerprints = []\<rparr>"

type_synonym 'a store_op = "store_inner \<Rightarrow> 'a store_result \<times> store_inner"

text \<open>
  The transactional pattern: run the operation on a clone of the state, and assign the clone
  back only when it succeeded.
\<close>

definition staged :: "'a store_op \<Rightarrow> 'a store_op" where
  "staged f s =
     (case f s of
        (Ok x, s') \<Rightarrow> (Ok x, s')
      | (r, _) \<Rightarrow> (r, s))"

lemma staged_Ok: "staged f s = (Ok x, s') \<longleftrightarrow> f s = (Ok x, s')"
  by (auto simp: staged_def split: prod.splits result.splits)

lemma staged_not_Ok: "staged f s = (r, s') \<Longrightarrow> \<not> is_ok r \<Longrightarrow> s' = s"
  by (auto simp: staged_def split: prod.splits result.splits)

lemma staged_result: "fst (staged f s) = fst (f s)"
  by (auto simp: staged_def split: prod.splits result.splits)

text \<open>Sequencing with \<open>?\<close>: the first failure is returned, with the writes made before it.\<close>

definition op_lift :: "'a store_result \<Rightarrow> 'a store_op" where
  "op_lift r s = (r, s)"

definition op_bind :: "'a store_op \<Rightarrow> ('a \<Rightarrow> 'b store_op) \<Rightarrow> 'b store_op" where
  "op_bind f g s =
     (case f s of
        (Ok x, s') \<Rightarrow> g x s'
      | (Err e, s') \<Rightarrow> (Err e, s')
      | (Panic, s') \<Rightarrow> (Panic, s'))"

lemma op_bind_Ok:
  "op_bind f g s = (Ok y, s2) \<longleftrightarrow> (\<exists>x s1. f s = (Ok x, s1) \<and> g x s1 = (Ok y, s2))"
  by (auto simp: op_bind_def split: prod.splits result.splits)

lemma op_bind_simps [simp]:
  "f s = (Ok x, s1) \<Longrightarrow> op_bind f g s = g x s1"
  "f s = (Err e, s1) \<Longrightarrow> op_bind f g s = (Err e, s1)"
  by (simp_all add: op_bind_def)

lemma op_lift_eq [simp]: "op_lift r s = (r', s') \<longleftrightarrow> r = r' \<and> s' = s"
  by (auto simp: op_lift_def)

text \<open>
  An invariant is kept by an operation when the next state has it, whatever the result. It is
  enough that the successful results have it when the operation is staged.
\<close>

definition keeps :: "(store_inner \<Rightarrow> bool) \<Rightarrow> 'a store_op \<Rightarrow> bool" where
  "keeps I f \<longleftrightarrow> (\<forall>s. I s \<longrightarrow> I (snd (f s)))"

lemma keepsI: "(\<And>s. I s \<Longrightarrow> I (snd (f s))) \<Longrightarrow> keeps I f"
  by (simp add: keeps_def)

lemma keepsD: "keeps I f \<Longrightarrow> I s \<Longrightarrow> I (snd (f s))"
  by (simp add: keeps_def)

lemma keeps_stagedI:
  assumes "\<And>s x s'. I s \<Longrightarrow> f s = (Ok x, s') \<Longrightarrow> I s'"
  shows "keeps I (staged f)"
  using assms by (auto simp: keeps_def staged_def split: prod.splits result.splits)

lemma keeps_op_bind:
  assumes "keeps I f" and "\<And>x. keeps I (g x)"
  shows "keeps I (op_bind f g)"
proof (rule keepsI)
  fix s assume "I s"
  with assms(1) have "I (snd (f s))" by (rule keepsD)
  with assms(2) show "I (snd (op_bind f g s))"
    by (auto simp: op_bind_def keeps_def split: prod.splits result.splits)
qed

lemma keeps_op_lift [simp]: "keeps I (op_lift r)"
  by (simp add: keeps_def op_lift_def)

text \<open>An operation is refused when it fails and writes nothing.\<close>

definition refused :: "'a store_op \<Rightarrow> store_inner \<Rightarrow> bool" where
  "refused f s \<longleftrightarrow> \<not> is_ok (fst (f s)) \<and> snd (f s) = s"

section \<open>Keys, labels and messages\<close>

definition run_key :: "session_id \<Rightarrow> run_id \<Rightarrow> run_key_t" where
  "run_key sid rid = (sid, rid)"

definition run_key_label :: "session_id \<Rightarrow> run_id \<Rightarrow> string" where
  "run_key_label sid rid = sid @ '':'' @ rid"

lemma run_key_eq [simp]: "run_key a b = run_key c d \<longleftrightarrow> a = c \<and> b = d"
  by (simp add: run_key_def)

definition msg_run_revision_overflow :: "run_id \<Rightarrow> string" where
  "msg_run_revision_overflow r = ''run '' @ r @ '' revision overflow''"

definition msg_run_exists :: "session_id \<Rightarrow> run_id \<Rightarrow> string" where
  "msg_run_exists s r = ''run '' @ r @ '' already exists for session '' @ s"

definition msg_run_sequence_overflow :: string where
  "msg_run_sequence_overflow = ''run sequence overflow''"

definition msg_run_sequence_conflict :: "session_id \<Rightarrow> u64 \<Rightarrow> string" where
  "msg_run_sequence_conflict s n =
     ''run sequence conflict for session '' @ s @ '' at sequence '' @ u64_to_string n"

definition msg_publications_one_time :: string where
  "msg_publications_one_time = ''session mutation publications must share one occurred_at''"

definition msg_no_active_owner_lease :: string where
  "msg_no_active_owner_lease = ''run has no active owner lease''"

definition msg_stale_admission_owner :: string where
  "msg_stale_admission_owner = ''stale admission owner''"

definition msg_lease_expired :: string where
  "msg_lease_expired = ''run admission lease expired''"

definition msg_no_resume_claim :: "run_id \<Rightarrow> string" where
  "msg_no_resume_claim r = ''waiting replacement source '' @ r @ '' has no resume claim''"

definition msg_mismatched_resume_claim :: "run_id \<Rightarrow> string" where
  "msg_mismatched_resume_claim r =
     ''waiting replacement source '' @ r @ '' has a mismatched resume claim''"

definition msg_invalid_preflight_source :: "run_id \<Rightarrow> string" where
  "msg_invalid_preflight_source r =
     ''waiting replacement source '' @ r @ '' has an invalid preflight claim''"

definition msg_claim_changed_terminalizing :: "run_id \<Rightarrow> string" where
  "msg_claim_changed_terminalizing r = ''resume claim changed while terminalizing run '' @ r"

definition code_admission_lease_expired :: string where
  "code_admission_lease_expired = ''admission_lease_expired''"

definition text_interrupted_lease_expired :: string where
  "text_interrupted_lease_expired = ''interrupted after host lease expired''"

section \<open>Run helpers\<close>

definition advance_run_revision :: "run_record \<Rightarrow> run_record store_result" where
  "advance_run_revision run =
     (case u64_checked_add (rr_revision run) 1 of
        None \<Rightarrow> Err (StoreFailed (msg_run_revision_overflow (rr_run_id run)))
      | Some r \<Rightarrow> Ok (run\<lparr>rr_revision := r\<rparr>))"

definition prepare_new_run_record :: "store_inner \<Rightarrow> run_record \<Rightarrow> run_record store_result" where
  "prepare_new_run_record s run =
     (if bt_contains (si_runs s) (run_key (rr_session_id run) (rr_run_id run))
      then Err (Conflict (msg_run_exists (rr_session_id run) (rr_run_id run)))
      else
        let sequences = map_of (si_run_sequences s) (rr_session_id run) in
        if rr_sequence_no run = 0 then
          (let last_no = (case sequences of
                            None \<Rightarrow> 0
                          | Some q \<Rightarrow> (case bt_last q of None \<Rightarrow> 0 | Some (n, _) \<Rightarrow> n))
           in case u64_checked_add last_no 1 of
                None \<Rightarrow> Err (StoreFailed msg_run_sequence_overflow)
              | Some n \<Rightarrow> Ok (run\<lparr>rr_sequence_no := n\<rparr>))
        else if (case sequences of None \<Rightarrow> False | Some q \<Rightarrow> bt_contains q (rr_sequence_no run))
        then Err (StoreFailed (msg_run_sequence_conflict (rr_session_id run) (rr_sequence_no run)))
        else Ok run)"

definition insert_prepared_run_record :: "run_record \<Rightarrow> store_inner \<Rightarrow> store_inner" where
  "insert_prepared_run_record run s =
     (let sid = rr_session_id run;
          seqs = (case map_of (si_run_sequences s) sid of None \<Rightarrow> [] | Some q \<Rightarrow> q)
      in s\<lparr>si_run_sequences :=
             bt_insert sid (bt_insert (rr_sequence_no run) (rr_run_id run) seqs)
               (si_run_sequences s),
           si_runs := bt_insert (run_key sid (rr_run_id run)) run (si_runs s)\<rparr>)"

text \<open>
  The session bookkeeping that every run write performs: the head moves to the run, the active
  slot follows its status, and the last success is recorded.
\<close>

definition session_note_run_status ::
    "run_id \<Rightarrow> run_status \<Rightarrow> datetime \<Rightarrow> session_record \<Rightarrow> session_record" where
  "session_note_run_status rid status updated_at session =
     (let s1 = session\<lparr>sr_head_run_id := Some rid\<rparr>;
          s2 = (if run_status_is_active status then s1\<lparr>sr_active_run_id := Some rid\<rparr>
                else
                  let s3 = (if status = StCompleted
                            then s1\<lparr>sr_head_success_run_id := Some rid\<rparr> else s1)
                  in if sr_active_run_id s3 = Some rid
                     then s3\<lparr>sr_active_run_id := None\<rparr> else s3)
      in s2\<lparr>sr_revision := u64_saturating_add (sr_revision s2) 1, sr_updated_at := updated_at\<rparr>)"

definition session_modify ::
    "session_id \<Rightarrow> (session_record \<Rightarrow> session_record) \<Rightarrow> store_inner \<Rightarrow> store_inner" where
  "session_modify sid f s =
     (case map_of (si_sessions s) sid of
        None \<Rightarrow> s
      | Some session \<Rightarrow> s\<lparr>si_sessions := bt_insert sid (f session) (si_sessions s)\<rparr>)"

text \<open>
  \<open>apply_run_status_locked\<close> writes status, preview and diagnostic before it advances the
  revision: when the revision overflows, those writes stay.
\<close>

definition apply_run_status_locked ::
    "session_id \<Rightarrow> run_id \<Rightarrow> run_status \<Rightarrow> string option \<Rightarrow> run_terminal_error option \<Rightarrow> datetime
     \<Rightarrow> run_record store_op" where
  "apply_run_status_locked sid rid status preview error updated_at s =
     (let key = run_key sid rid in
      case map_of (si_runs s) key of
        None \<Rightarrow> (Err (NotFound (run_key_label sid rid)), s)
      | Some run \<Rightarrow>
          if (rr_status run, rr_output_preview run, rr_terminal_error run) = (status, preview, error)
          then (Ok run, s)
          else
            let run1 = run\<lparr>rr_status := status, rr_output_preview := preview,
                           rr_terminal_error := error\<rparr> in
            case advance_run_revision run1 of
              Err e \<Rightarrow> (Err e, s\<lparr>si_runs := bt_insert key run1 (si_runs s)\<rparr>)
            | Panic \<Rightarrow> (Panic, s)
            | Ok run2 \<Rightarrow>
                let run3 = run2\<lparr>rr_updated_at := updated_at\<rparr>;
                    s1 = s\<lparr>si_runs := bt_insert key run3 (si_runs s)\<rparr>
                in (Ok run3,
                    session_modify sid (session_note_run_status rid status updated_at) s1))"

section \<open>Admission checks\<close>

definition session_mutation_time ::
    "datetime \<Rightarrow> pending_host_event_publication list \<Rightarrow> datetime store_result" where
  "session_mutation_time now pubs =
     (case pubs of
        [] \<Rightarrow> Ok now
      | first # _ \<Rightarrow>
          if \<exists>p \<in> set pubs. pub_occurred_at p \<noteq> pub_occurred_at first
          then Err (Conflict msg_publications_one_time)
          else Ok (pub_occurred_at first))"

definition ensure_active_admission_locked ::
    "store_inner \<Rightarrow> run_admission_lease \<Rightarrow> datetime \<Rightarrow> unit store_result" where
  "ensure_active_admission_locked s lease now =
     (let key = managed_session_target_new (rt_namespace_id (lease_target lease))
                  (rt_session_id (lease_target lease)) in
      case map_of (si_run_admissions s) key of
        None \<Rightarrow> Err (StaleFence msg_no_active_owner_lease)
      | Some current \<Rightarrow>
          if lease_target current \<noteq> lease_target lease
             \<or> lease_admission_id current \<noteq> lease_admission_id lease
             \<or> lease_host_instance_id current \<noteq> lease_host_instance_id lease
             \<or> lease_fencing_generation current \<noteq> lease_fencing_generation lease
          then Err (StaleFence msg_stale_admission_owner)
          else if lease_expired_at current now
          then Err (StaleFence msg_lease_expired)
          else Ok ())"

section \<open>Control-intent reconciliation\<close>

definition control_intent_reconcilable ::
    "run_admission_lease \<Rightarrow> durable_run_control_intent \<Rightarrow> bool" where
  "control_intent_reconcilable lease i \<longleftrightarrow>
     in_target i = lease_target lease
     \<and> in_admission_id i = lease_admission_id lease
     \<and> in_fencing_generation i = lease_fencing_generation lease
     \<and> in_status i \<in> {CtlPending, CtlDelivered}"

fun reconcile_control_keys ::
    "datetime \<Rightarrow> (managed_run_target \<times> string) list \<Rightarrow> unit store_op" where
  "reconcile_control_keys occurred_at [] s = (Ok (), s)"
| "reconcile_control_keys occurred_at (key # keys) s =
     (case map_of (si_run_control_intents s) key of
        None \<Rightarrow> (Err (NotFound (snd key)), s)
      | Some i \<Rightarrow>
          (case intent_advance i CtlReconciled occurred_at of
             Err e \<Rightarrow> (Err (Conflict e), s)
           | Panic \<Rightarrow> (Panic, s)
           | Ok i' \<Rightarrow>
               reconcile_control_keys occurred_at keys
                 (s\<lparr>si_control_receipts :=
                      bt_insert (cr_receipt_id (in_receipt i')) (in_receipt i')
                        (si_control_receipts s),
                    si_run_control_intents :=
                      bt_insert key i' (si_run_control_intents s)\<rparr>)))"

definition reconcile_run_control_intents_locked ::
    "run_admission_lease \<Rightarrow> datetime \<Rightarrow> unit store_op" where
  "reconcile_run_control_intents_locked lease occurred_at s =
     reconcile_control_keys occurred_at
       (map fst (filter (\<lambda>(_, i). control_intent_reconcilable lease i)
          (si_run_control_intents s))) s"

section \<open>Expiry of a continuation\<close>

definition interrupt_expired_run :: "run_record \<Rightarrow> run_record" where
  "interrupt_expired_run run =
     run\<lparr>rr_status := StCancelled,
         rr_output_preview := Some text_interrupted_lease_expired,
         rr_terminal_error := Some (run_terminal_error_new code_admission_lease_expired
            text_interrupted_lease_expired)\<rparr>"

text \<open>
  The waiting source of an expired replacement. A started claim means the approved effect may
  have run: the source is cancelled with the indeterminate marker. An admitted claim is consumed
  and the source keeps waiting. The result says whether the effect had started.
\<close>

definition mark_source_indeterminate ::
    "run_key_t \<Rightarrow> run_record \<Rightarrow> datetime \<Rightarrow> unit store_op" where
  "mark_source_indeterminate source_key source now s =
     (let source1 = interrupt_expired_run source in
      case advance_run_revision source1 of
        Err e \<Rightarrow> (Err e, s\<lparr>si_runs := bt_insert source_key source1 (si_runs s)\<rparr>)
      | Panic \<Rightarrow> (Panic, s)
      | Ok source2 \<Rightarrow>
          (Ok (), s\<lparr>si_runs := bt_insert source_key
             (source2\<lparr>rr_updated_at := now,
                rr_metadata := continuation_effect_insert_into
                  continuation_effect_indeterminate (rr_metadata source2)\<rparr>) (si_runs s)\<rparr>))"

definition settle_source_claim ::
    "run_key_t \<Rightarrow> run_record \<Rightarrow> hitl_resume_claim \<Rightarrow> datetime \<Rightarrow> bool store_op" where
  "settle_source_claim source_key source claim now =
     op_bind
       (if claim_state claim = Started then mark_source_indeterminate source_key source now
        else op_lift (Ok ()))
       (\<lambda>_ s1.
          let consumed = map_of (si_hitl_resume_claims s1) source_key;
              s2 = s1\<lparr>si_hitl_resume_claims :=
                        bt_remove source_key (si_hitl_resume_claims s1)\<rparr>
          in if consumed \<noteq> Some claim
             then (Err (Conflict (msg_claim_changed_terminalizing (snd source_key))), s2)
             else (Ok (claim_state claim = Started), s2))"

definition terminalize_started_hitl_source_locked ::
    "run_record \<Rightarrow> datetime \<Rightarrow> bool store_op" where
  "terminalize_started_hitl_source_locked replacement now s =
     (case rr_restore_from_run_id replacement of
        None \<Rightarrow> (Ok False, s)
      | Some source_run_id \<Rightarrow>
          let source_key = run_key (rr_session_id replacement) source_run_id in
          case map_of (si_runs s) source_key of
            None \<Rightarrow> (Err (NotFound (run_key_label (rr_session_id replacement) source_run_id)), s)
          | Some source \<Rightarrow>
              if rr_status source \<noteq> StWaiting then (Ok False, s)
              else case map_of (si_hitl_resume_claims s) source_key of
                  None \<Rightarrow> (Err (Conflict (msg_no_resume_claim source_run_id)), s)
                | Some claim \<Rightarrow>
                    if claim_session_id claim \<noteq> rr_session_id replacement
                       \<or> claim_run_id claim \<noteq> source_run_id
                    then (Err (Conflict (msg_mismatched_resume_claim source_run_id)), s)
                    else if claim_state claim = Preflight
                    then (Err (Conflict (msg_invalid_preflight_source source_run_id)), s)
                    else settle_source_claim source_key source claim now s)"

end
