(* ===== verification/Store_Runs.thy ===== *)
theory Store_Runs
  imports Store_State
begin

text \<open>
  Run and session records of the in-memory store
  (\<open>starweaver-session/src/store/memory/runs.rs\<close>, \<open>sessions.rs\<close>, and the page queries of
  \<open>store/contract.rs\<close>): appending, loading, listing, keyset pages and status updates. The
  sequence index and the record table are two views of the same runs; the invariant of this
  theory says so, and makes the code's "index is inconsistent" branches unreachable.
\<close>

section \<open>Queries and pages\<close>

definition max_stable_page_size :: u64 where
  "max_stable_page_size = 200"

record session_filter =
  sf_status :: "session_status option"
  sf_profile :: "string option"
  sf_workspace :: "string option"
  sf_limit :: "u64 option"

record session_page_key =
  spk_updated_at :: datetime
  spk_session_id :: session_id

definition session_page_key_from :: "session_record \<Rightarrow> session_page_key" where
  "session_page_key_from r = \<lparr>spk_updated_at = sr_updated_at r, spk_session_id = sr_session_id r\<rparr>"

record session_page_query =
  spq_after :: "session_page_key option"
  spq_limit :: u64

record session_page =
  sp_sessions :: "session_record list"
  sp_next_key :: "session_page_key option"
  sp_has_more :: bool

record run_page_key =
  rpk_sequence_no :: u64

definition run_page_key_from :: "run_record \<Rightarrow> run_page_key" where
  "run_page_key_from r = \<lparr>rpk_sequence_no = rr_sequence_no r\<rparr>"

record run_page_query =
  rpq_before :: "run_page_key option"
  rpq_limit :: u64

record run_page =
  rp_runs :: "run_record list"
  rp_next_key :: "run_page_key option"
  rp_has_more :: bool

definition msg_page_limit :: string where
  "msg_page_limit = ''stable page limit must be between 1 and 200''"

definition validate_page_limit :: "u64 \<Rightarrow> unit store_result" where
  "validate_page_limit limit =
     (if \<not> (1 \<le> limit \<and> limit \<le> max_stable_page_size)
      then Err (StoreFailed msg_page_limit) else Ok ())"

definition session_page_query_new ::
    "session_page_key option \<Rightarrow> u64 \<Rightarrow> session_page_query store_result" where
  "session_page_query_new after limit =
     result_map (\<lambda>_. \<lparr>spq_after = after, spq_limit = limit\<rparr>) (validate_page_limit limit)"

definition run_page_query_new :: "run_page_key option \<Rightarrow> u64 \<Rightarrow> run_page_query store_result" where
  "run_page_query_new before limit =
     result_map (\<lambda>_. \<lparr>rpq_before = before, rpq_limit = limit\<rparr>) (validate_page_limit limit)"

section \<open>Run operations\<close>

definition msg_invalid_run_state :: "run_id \<Rightarrow> run_terminal_projection_error \<Rightarrow> string" where
  "msg_invalid_run_state rid e =
     ''invalid run state for '' @ rid @ '': '' @ projection_error_to_string e"

definition msg_sequence_immutable :: "session_id \<Rightarrow> run_id \<Rightarrow> u64 \<Rightarrow> u64 \<Rightarrow> string" where
  "msg_sequence_immutable sid rid persisted received =
     ''run sequence is immutable for session '' @ sid @ '' and run '' @ rid
     @ '': persisted '' @ u64_to_string persisted @ '', received '' @ u64_to_string received"

definition msg_index_inconsistent :: string where
  "msg_index_inconsistent = ''run sequence index is inconsistent''"

definition append_run_record :: "datetime \<Rightarrow> run_record \<Rightarrow> unit store_op" where
  "append_run_record now run0 s =
     (case run_validate_new_write run0 of
        Err e \<Rightarrow> (Err (StoreFailed (msg_invalid_run_state (rr_run_id run0) e)), s)
      | Panic \<Rightarrow> (Panic, s)
      | Ok _ \<Rightarrow>
          let run = run0\<lparr>rr_updated_at := now\<rparr> in
          if \<not> bt_contains (si_sessions s) (rr_session_id run)
          then (Err (NotFound (rr_session_id run)), s)
          else
            let key = run_key (rr_session_id run) (rr_run_id run);
                note = (\<lambda>r. session_modify (rr_session_id r)
                          (session_note_run_status (rr_run_id r) (rr_status r) (rr_updated_at r)))
            in case map_of (si_runs s) key of
                 Some persisted \<Rightarrow>
                   if rr_sequence_no run \<noteq> 0 \<and> rr_sequence_no run \<noteq> rr_sequence_no persisted
                   then (Err (StoreFailed (msg_sequence_immutable (rr_session_id run)
                            (rr_run_id run) (rr_sequence_no persisted) (rr_sequence_no run))), s)
                   else
                     (case advance_run_revision
                             (run\<lparr>rr_sequence_no := rr_sequence_no persisted,
                                  rr_revision := rr_revision persisted\<rparr>) of
                        Err e \<Rightarrow> (Err e, s)
                      | Panic \<Rightarrow> (Panic, s)
                      | Ok r \<Rightarrow>
                          (Ok (), note r (s\<lparr>si_runs := bt_insert key r (si_runs s)\<rparr>)))
               | None \<Rightarrow>
                   (case prepare_new_run_record s (run\<lparr>rr_revision := 1\<rparr>) of
                      Err e \<Rightarrow> (Err e, s)
                    | Panic \<Rightarrow> (Panic, s)
                    | Ok r \<Rightarrow> (Ok (), note r (insert_prepared_run_record r s))))"

definition load_run_record :: "session_id \<Rightarrow> run_id \<Rightarrow> store_inner \<Rightarrow> run_record store_result" where
  "load_run_record sid rid s =
     (case map_of (si_runs s) (run_key sid rid) of
        None \<Rightarrow> Err (NotFound (run_key_label sid rid))
      | Some r \<Rightarrow> Ok r)"

definition load_indexed_runs ::
    "session_id \<Rightarrow> store_inner \<Rightarrow> run_id list \<Rightarrow> run_record list store_result" where
  "load_indexed_runs sid s rids =
     collect_results
       (map (\<lambda>rid. case map_of (si_runs s) (run_key sid rid) of
                      None \<Rightarrow> Err (StoreFailed msg_index_inconsistent)
                    | Some r \<Rightarrow> Ok r) rids)"

definition list_run_records :: "session_id \<Rightarrow> store_inner \<Rightarrow> run_record list store_result" where
  "list_run_records sid s =
     (case map_of (si_run_sequences s) sid of
        None \<Rightarrow> Ok []
      | Some q \<Rightarrow> load_indexed_runs sid s (bt_values q))"

definition list_recent_run_records ::
    "session_id \<Rightarrow> u64 \<Rightarrow> store_inner \<Rightarrow> run_record list store_result" where
  "list_recent_run_records sid limit s =
     (if limit = 0 then Ok []
      else case map_of (si_run_sequences s) sid of
          None \<Rightarrow> Ok []
        | Some q \<Rightarrow>
            result_map rev (load_indexed_runs sid s (take (unat limit) (rev (bt_values q)))))"

definition list_run_record_page ::
    "session_id \<Rightarrow> run_page_query \<Rightarrow> store_inner \<Rightarrow> run_page store_result" where
  "list_run_record_page sid q s =
     (let fetch_limit = unat (u64_saturating_add (rpq_limit q) 1);
          run_ids = (case map_of (si_run_sequences s) sid of
              None \<Rightarrow> []
            | Some m \<Rightarrow>
                (case rpq_before q of
                   None \<Rightarrow> take fetch_limit (rev (bt_values m))
                 | Some b \<Rightarrow>
                     take fetch_limit
                       (map snd (rev (filter (\<lambda>(n, _). n < rpk_sequence_no b) m)))))
      in case load_indexed_runs sid s run_ids of
           Err e \<Rightarrow> Err e
         | Panic \<Rightarrow> Panic
         | Ok runs \<Rightarrow>
             let has_more = length runs > unat (rpq_limit q);
                 page = take (unat (rpq_limit q)) runs
             in Ok \<lparr>rp_runs = page,
                    rp_next_key =
                      (if page = [] then rpq_before q else Some (run_page_key_from (last page))),
                    rp_has_more = has_more\<rparr>)"

definition update_run_record ::
    "datetime \<Rightarrow> session_id \<Rightarrow> run_id \<Rightarrow> (run_record \<Rightarrow> run_record) \<Rightarrow> unit store_op" where
  "update_run_record now sid rid f s =
     (case map_of (si_runs s) (run_key sid rid) of
        None \<Rightarrow> (Err (NotFound (run_key_label sid rid)), s)
      | Some previous \<Rightarrow>
          let run = f previous in
          (case run_validate_new_write run of
             Err e \<Rightarrow> (Err (StoreFailed (msg_invalid_run_state (rr_run_id run) e)), s)
           | Panic \<Rightarrow> (Panic, s)
           | Ok _ \<Rightarrow>
               if run = previous then (Ok (), s)
               else
                 (case advance_run_revision (run\<lparr>rr_revision := rr_revision previous\<rparr>) of
                    Err e \<Rightarrow> (Err e, s)
                  | Panic \<Rightarrow> (Panic, s)
                  | Ok r \<Rightarrow>
                      (Ok (), session_modify sid
                         (session_note_run_status rid (rr_status r) now)
                         (s\<lparr>si_runs := bt_insert (run_key sid rid) (r\<lparr>rr_updated_at := now\<rparr>)
                              (si_runs s)\<rparr>)))))"

definition set_run_status ::
    "datetime \<Rightarrow> session_id \<Rightarrow> run_id \<Rightarrow> run_status \<Rightarrow> string option \<Rightarrow> run_terminal_error option
     \<Rightarrow> unit store_op" where
  "set_run_status now sid rid status preview error =
     update_run_record now sid rid
       (\<lambda>run. run\<lparr>rr_status := status, rr_output_preview := preview, rr_terminal_error := error\<rparr>)"

definition set_legacy_run_status ::
    "datetime \<Rightarrow> session_id \<Rightarrow> run_id \<Rightarrow> run_status \<Rightarrow> string option \<Rightarrow> unit store_op" where
  "set_legacy_run_status now sid rid status preview =
     update_run_record now sid rid (\<lambda>run. run_apply_legacy_status_update run status preview)"

section \<open>Session operations\<close>

definition save_session_record :: "datetime \<Rightarrow> session_record \<Rightarrow> unit store_op" where
  "save_session_record now session0 s =
     (let session = (case map_of (si_sessions s) (sr_session_id session0) of
            None \<Rightarrow> session0
          | Some current \<Rightarrow>
              session0\<lparr>sr_revision := u64_saturating_add (sr_revision current) 1,
                       sr_updated_at := now\<rparr>)
      in (Ok (), s\<lparr>si_sessions := bt_insert (sr_session_id session) session (si_sessions s)\<rparr>))"

definition load_session_record :: "session_id \<Rightarrow> store_inner \<Rightarrow> session_record store_result" where
  "load_session_record sid s =
     (case map_of (si_sessions s) sid of None \<Rightarrow> Err (NotFound sid) | Some r \<Rightarrow> Ok r)"

text \<open>A stable sort in descending key order.\<close>

definition sort_desc :: "('a \<Rightarrow> 'k::linorder) \<Rightarrow> 'a list \<Rightarrow> 'a list" where
  "sort_desc key xs = rev (sort_key key (rev xs))"

definition session_filter_matches :: "session_filter \<Rightarrow> session_record \<Rightarrow> bool" where
  "session_filter_matches f r \<longleftrightarrow>
     (case sf_status f of None \<Rightarrow> True | Some st \<Rightarrow> sr_status r = st)
     \<and> (case sf_profile f of None \<Rightarrow> True | Some p \<Rightarrow> sr_profile r = Some p)
     \<and> (case sf_workspace f of
          None \<Rightarrow> True
        | Some w \<Rightarrow>
            (case sr_workspace r of None \<Rightarrow> False | Some p \<Rightarrow> workspace_matches_filter p w))"

definition list_session_records ::
    "session_filter \<Rightarrow> store_inner \<Rightarrow> session_record list store_result" where
  "list_session_records f s =
     (let sessions = sort_desc sr_updated_at
            (filter (session_filter_matches f) (bt_values (si_sessions s)))
      in Ok (case sf_limit f of None \<Rightarrow> sessions | Some n \<Rightarrow> take (unat n) sessions))"

definition list_session_record_page ::
    "session_page_query \<Rightarrow> store_inner \<Rightarrow> session_page store_result" where
  "list_session_record_page q s =
     (let sessions = sort_desc (\<lambda>r. (sr_updated_at r, sr_session_id r))
            (filter (\<lambda>r. case spq_after q of
                 None \<Rightarrow> True
               | Some after \<Rightarrow>
                   sr_updated_at r < spk_updated_at after
                   \<or> sr_updated_at r = spk_updated_at after
                     \<and> sr_session_id r < spk_session_id after)
              (bt_values (si_sessions s)));
          has_more = length sessions > unat (spq_limit q);
          page = take (unat (spq_limit q)) sessions
      in Ok \<lparr>sp_sessions = page,
             sp_next_key =
               (if page = [] then spq_after q else Some (session_page_key_from (last page))),
             sp_has_more = has_more\<rparr>)"

text \<open>The three session writers that replace one field.\<close>

definition session_touch ::
    "datetime \<Rightarrow> session_id \<Rightarrow> (session_record \<Rightarrow> session_record) \<Rightarrow> unit store_op" where
  "session_touch now sid f s =
     (case map_of (si_sessions s) sid of
        None \<Rightarrow> (Err (NotFound sid), s)
      | Some session \<Rightarrow>
          let r = f session in
          (Ok (), s\<lparr>si_sessions := bt_insert sid
             (r\<lparr>sr_revision := u64_saturating_add (sr_revision r) 1, sr_updated_at := now\<rparr>)
             (si_sessions s)\<rparr>))"

definition set_session_status :: "datetime \<Rightarrow> session_id \<Rightarrow> session_status \<Rightarrow> unit store_op" where
  "set_session_status now sid status = session_touch now sid (\<lambda>r. r\<lparr>sr_status := status\<rparr>)"

definition save_context_state_snapshot :: "datetime \<Rightarrow> session_id \<Rightarrow> json \<Rightarrow> unit store_op" where
  "save_context_state_snapshot now sid state = session_touch now sid (\<lambda>r. r\<lparr>sr_state := state\<rparr>)"

definition save_environment_state_ref :: "datetime \<Rightarrow> session_id \<Rightarrow> json \<Rightarrow> unit store_op" where
  "save_environment_state_ref now sid env =
     session_touch now sid (\<lambda>r. r\<lparr>sr_environment_state := Some env\<rparr>)"

section \<open>The record invariant\<close>

text \<open>
  Sessions and runs are stored under their own identities, every run belongs to a stored session
  and has a nonzero sequence number, and the sequence index of a session lists exactly its runs.
\<close>

definition run_at ::
    "(session_id, (u64, run_id) btmap) btmap \<Rightarrow> session_id \<Rightarrow> u64 \<Rightarrow> run_id option" where
  "run_at seqs sid n = (case map_of seqs sid of None \<Rightarrow> None | Some q \<Rightarrow> map_of q n)"

definition sessions_ok :: "(session_id, session_record) btmap \<Rightarrow> bool" where
  "sessions_ok ss \<longleftrightarrow> bt_wf ss \<and> (\<forall>k r. map_of ss k = Some r \<longrightarrow> sr_session_id r = k)"

definition runs_ok ::
    "(session_id, session_record) btmap \<Rightarrow> (run_key_t, run_record) btmap \<Rightarrow> bool" where
  "runs_ok ss rs \<longleftrightarrow>
     bt_wf rs
     \<and> (\<forall>k r. map_of rs k = Some r
          \<longrightarrow> k = (rr_session_id r, rr_run_id r) \<and> rr_sequence_no r \<noteq> 0
              \<and> bt_contains ss (rr_session_id r))"

definition index_ok ::
    "(run_key_t, run_record) btmap \<Rightarrow> (session_id, (u64, run_id) btmap) btmap \<Rightarrow> bool" where
  "index_ok rs seqs \<longleftrightarrow>
     (\<forall>sid q. map_of seqs sid = Some q \<longrightarrow> bt_wf q)
     \<and> (\<forall>sid n rid. run_at seqs sid n = Some rid
          \<longleftrightarrow> (\<exists>r. map_of rs (sid, rid) = Some r \<and> rr_sequence_no r = n))"

definition record_inv :: "store_inner \<Rightarrow> bool" where
  "record_inv s \<longleftrightarrow>
     sessions_ok (si_sessions s)
     \<and> runs_ok (si_sessions s) (si_runs s)
     \<and> index_ok (si_runs s) (si_run_sequences s)"

lemma record_inv_new: "record_inv store_new"
  by (simp add: record_inv_def sessions_ok_def runs_ok_def index_ok_def run_at_def store_new_def)

lemma sessions_ok_insert:
  "sessions_ok ss \<Longrightarrow> sr_session_id r = sid \<Longrightarrow> sessions_ok (bt_insert sid r ss)"
  by (auto simp: sessions_ok_def)

lemma runs_ok_session_insert: "runs_ok ss rs \<Longrightarrow> runs_ok (bt_insert sid r ss) rs"
  by (auto simp: runs_ok_def)

text \<open>Writing a record back under the same identity and sequence number.\<close>

definition same_run :: "run_record \<Rightarrow> run_record \<Rightarrow> bool" where
  "same_run r r' \<longleftrightarrow>
     rr_session_id r' = rr_session_id r \<and> rr_run_id r' = rr_run_id r
     \<and> rr_sequence_no r' = rr_sequence_no r"

lemma runs_ok_update:
  "runs_ok ss rs \<Longrightarrow> map_of rs k = Some r \<Longrightarrow> same_run r r' \<Longrightarrow> runs_ok ss (bt_insert k r' rs)"
  by (auto simp: runs_ok_def same_run_def)

lemma index_ok_update:
  assumes "index_ok rs seqs" and "map_of rs k = Some r" and "same_run r r'"
  shows "index_ok (bt_insert k r' rs) seqs"
proof -
  have "(\<exists>x. map_of (bt_insert k r' rs) (sid, rid) = Some x \<and> rr_sequence_no x = n)
      \<longleftrightarrow> (\<exists>x. map_of rs (sid, rid) = Some x \<and> rr_sequence_no x = n)" for sid rid n
    using assms(2,3) by (auto simp: same_run_def)
  with assms(1) show ?thesis unfolding index_ok_def by blast
qed

lemma run_at_insert:
  "run_at (bt_insert sid (bt_insert n rid (case map_of seqs sid of None \<Rightarrow> [] | Some q \<Rightarrow> q)) seqs) sid' m
     = (if sid' = sid \<and> m = n then Some rid else run_at seqs sid' m)"
  by (auto simp: run_at_def split: option.splits)

lemma index_ok_insert:
  assumes inv: "index_ok rs seqs"
    and fresh: "map_of rs (sid, rid) = None" "run_at seqs sid n = None"
    and run: "rr_sequence_no r = n"
  shows "index_ok (bt_insert (sid, rid) r rs)
    (bt_insert sid (bt_insert n rid (case map_of seqs sid of None \<Rightarrow> [] | Some q \<Rightarrow> q)) seqs)"
    (is "index_ok ?rs ?seqs")
proof -
  have wf: "bt_wf q" if "map_of ?seqs x = Some q" for x q
    using inv that by (auto simp: index_ok_def bt_wf_def [of "[(n, rid)]"] split: if_splits option.splits)
  have old: "run_at seqs x m = Some y \<longleftrightarrow> (\<exists>z. map_of rs (x, y) = Some z \<and> rr_sequence_no z = m)"
    for x y m using inv unfolding index_ok_def by blast
  have "run_at ?seqs x m = Some y \<longleftrightarrow> (\<exists>z. map_of ?rs (x, y) = Some z \<and> rr_sequence_no z = m)"
    for x y m
  proof (cases "x = sid \<and> m = n")
    case True
    then show ?thesis
      using fresh run old [of sid n y] by (auto simp: run_at_insert)
  next
    case False
    then show ?thesis
      unfolding run_at_insert if_not_P [OF False] old using fresh(1) run by (auto split: if_splits)
  qed
  with wf show ?thesis unfolding index_ok_def by blast
qed

lemma prepare_new_run_record_Ok:
  assumes inv: "record_inv s" and ok: "prepare_new_run_record s run = Ok r"
  shows "map_of (si_runs s) (rr_session_id run, rr_run_id run) = None
    \<and> run_at (si_run_sequences s) (rr_session_id run) (rr_sequence_no r) = None
    \<and> rr_sequence_no r \<noteq> 0
    \<and> (\<exists>n. r = run\<lparr>rr_sequence_no := n\<rparr>)"
proof -
  let ?q = "map_of (si_run_sequences s) (rr_session_id run)"
  have fresh: "map_of (si_runs s) (rr_session_id run, rr_run_id run) = None"
    using ok by (auto simp: prepare_new_run_record_def bt_contains_def run_key_def split: if_splits)
  show ?thesis
  proof (cases "rr_sequence_no run = 0")
    case False
    with ok have "r = run" "run_at (si_run_sequences s) (rr_session_id run) (rr_sequence_no run) = None"
      by (auto simp: prepare_new_run_record_def run_at_def bt_contains_def Let_def
          split: if_splits option.splits)
    with False fresh show ?thesis by (auto intro!: exI [of _ "rr_sequence_no run"])
  next
    case True
    define l where "l = (case ?q of None \<Rightarrow> 0
        | Some q \<Rightarrow> (case bt_last q of None \<Rightarrow> 0 | Some (n, _) \<Rightarrow> n))"
    from ok True obtain n where n: "u64_checked_add l 1 = Some n" and r: "r = run\<lparr>rr_sequence_no := n\<rparr>"
      by (auto simp: prepare_new_run_record_def Let_def l_def split: if_splits option.splits)
    from n have un: "unat n = unat l + 1" using unat_u64_checked_add by fastforce
    have "run_at (si_run_sequences s) (rr_session_id run) n = None"
    proof (cases ?q)
      case None
      then show ?thesis by (simp add: run_at_def)
    next
      case (Some q)
      then have wf: "bt_wf q" using inv by (auto simp: record_inv_def index_ok_def)
      have "map_of q n = None"
      proof (rule ccontr)
        assume "map_of q n \<noteq> None"
        then obtain y where y: "map_of q n = Some y" by auto
        then have "q \<noteq> []" by auto
        then obtain k v where l: "bt_last q = Some (k, v)" by (cases "last q") (auto simp: bt_last_def)
        then have "n \<le> k" using bt_last_greatest [OF wf l y] by simp
        moreover have "l = k" using l Some by (simp add: l_def)
        ultimately show False using un by (simp add: word_le_nat_alt)
      qed
      with Some show ?thesis by (simp add: run_at_def)
    qed
    moreover have "n \<noteq> 0" using un by auto
    ultimately show ?thesis using fresh r by auto
  qed
qed

lemma record_inv_insert_prepared:
  assumes inv: "record_inv s" and ok: "prepare_new_run_record s run = Ok r"
    and sess: "bt_contains (si_sessions s) (rr_session_id run)"
  shows "record_inv (insert_prepared_run_record r s)"
proof -
  from prepare_new_run_record_Ok [OF inv ok] obtain n where
    P: "map_of (si_runs s) (rr_session_id run, rr_run_id run) = None"
      "run_at (si_run_sequences s) (rr_session_id run) n = None" "n \<noteq> 0"
    and r: "r = run\<lparr>rr_sequence_no := n\<rparr>" by auto
  have "index_ok (si_runs (insert_prepared_run_record r s))
      (si_run_sequences (insert_prepared_run_record r s))"
    using index_ok_insert [OF _ P(1,2), of r] inv
    by (simp add: insert_prepared_run_record_def Let_def record_inv_def run_key_def r)
  moreover have "runs_ok (si_sessions s) (si_runs (insert_prepared_run_record r s))"
    using inv P sess
    by (auto simp: insert_prepared_run_record_def Let_def record_inv_def runs_ok_def run_key_def r)
  ultimately show ?thesis
    using inv by (simp add: record_inv_def insert_prepared_run_record_def Let_def)
qed

lemma record_inv_session_modify:
  assumes "record_inv s" and "\<And>r. sr_session_id (f r) = sr_session_id r"
  shows "record_inv (session_modify sid f s)"
proof (cases "map_of (si_sessions s) sid")
  case (Some r)
  then have "sr_session_id (f r) = sid"
    using assms by (auto simp: record_inv_def sessions_ok_def)
  with assms(1) Some show ?thesis
    by (simp add: session_modify_def record_inv_def sessions_ok_insert runs_ok_session_insert)
qed (use assms in \<open>simp add: session_modify_def\<close>)

lemma session_note_run_status_id [simp]:
  "sr_session_id (session_note_run_status rid st t r) = sr_session_id r"
  by (simp add: session_note_run_status_def Let_def)

lemma record_inv_run_update:
  "record_inv s \<Longrightarrow> map_of (si_runs s) k = Some r \<Longrightarrow> same_run r r' \<Longrightarrow>
     record_inv (s\<lparr>si_runs := bt_insert k r' (si_runs s)\<rparr>)"
  by (simp add: record_inv_def runs_ok_update index_ok_update)

lemma record_inv_note:
  "record_inv s \<Longrightarrow> record_inv (session_modify sid (session_note_run_status rid st t) s)"
  by (simp add: record_inv_session_modify)

lemma advance_run_revision_Ok:
  "advance_run_revision r = Ok r' \<longleftrightarrow>
     unat (rr_revision r) + 1 < 2 ^ 64 \<and> r' = r\<lparr>rr_revision := rr_revision r + 1\<rparr>"
  by (auto simp: advance_run_revision_def u64_simps split: option.splits)
     (auto simp: u64_checked_add_def)

lemma advance_run_revision_no_panic [simp]: "advance_run_revision r \<noteq> Panic"
  by (auto simp: advance_run_revision_def split: option.splits)

section \<open>Every writer keeps the invariant\<close>

lemma append_run_record_inv:
  assumes "record_inv s"
  shows "record_inv (snd (append_run_record now run s))"
proof -
  let ?run = "run\<lparr>rr_updated_at := now\<rparr>"
  have old: "record_inv (session_modify sid (session_note_run_status rid st t)
        (s\<lparr>si_runs := bt_insert (run_key (rr_session_id run) (rr_run_id run)) r (si_runs s)\<rparr>))"
    if "map_of (si_runs s) (run_key (rr_session_id run) (rr_run_id run)) = Some p"
      "advance_run_revision (?run\<lparr>rr_sequence_no := rr_sequence_no p, rr_revision := rr_revision p\<rparr>) = Ok r"
    for p r sid rid st t
  proof -
    have "same_run p r"
      using that assms
      by (auto simp: same_run_def advance_run_revision_Ok record_inv_def runs_ok_def run_key_def)
    with assms that(1) show ?thesis
      by (simp add: record_inv_note record_inv_run_update)
  qed
  have new: "record_inv (session_modify sid (session_note_run_status rid st t)
        (insert_prepared_run_record r s))"
    if "prepare_new_run_record s (?run\<lparr>rr_revision := 1\<rparr>) = Ok r"
      "bt_contains (si_sessions s) (rr_session_id run)" for r sid rid st t
    using record_inv_insert_prepared [OF assms that(1)] that(2) by (simp add: record_inv_note)
  show ?thesis
    using assms old new
    by (simp add: append_run_record_def Let_def split: result.splits option.splits)
qed

lemma update_run_record_inv:
  assumes inv: "record_inv s" and f: "\<And>r. same_run r (f r)"
  shows "record_inv (snd (update_run_record now sid rid f s))"
proof -
  have upd: "record_inv (session_modify sid (session_note_run_status rid st t)
        (s\<lparr>si_runs := bt_insert (run_key sid rid) (r\<lparr>rr_updated_at := now\<rparr>) (si_runs s)\<rparr>))"
    if "map_of (si_runs s) (run_key sid rid) = Some p"
      "advance_run_revision ((f p)\<lparr>rr_revision := rr_revision p\<rparr>) = Ok r" for p r st t
  proof -
    have "same_run p (r\<lparr>rr_updated_at := now\<rparr>)"
      using that f [of p] by (auto simp: same_run_def advance_run_revision_Ok)
    with inv that(1) show ?thesis by (simp add: record_inv_note record_inv_run_update)
  qed
  show ?thesis
    using inv upd by (simp add: update_run_record_def Let_def split: result.splits option.splits)
qed

lemma set_run_status_inv:
  "record_inv s \<Longrightarrow> record_inv (snd (set_run_status now sid rid st pv er s))"
  unfolding set_run_status_def by (rule update_run_record_inv) (simp_all add: same_run_def)

lemma set_legacy_run_status_inv:
  "record_inv s \<Longrightarrow> record_inv (snd (set_legacy_run_status now sid rid st pv s))"
  unfolding set_legacy_run_status_def
  by (rule update_run_record_inv) (simp_all add: same_run_def run_apply_legacy_status_update_def Let_def split: run_status.splits)

lemma save_session_record_inv:
  "record_inv s \<Longrightarrow> record_inv (snd (save_session_record now r s))"
  by (auto simp: save_session_record_def record_inv_def Let_def
      intro!: sessions_ok_insert runs_ok_session_insert split: option.splits)

lemma session_touch_inv:
  assumes "record_inv s" and "\<And>r. sr_session_id (f r) = sr_session_id r"
  shows "record_inv (snd (session_touch now sid f s))"
proof (cases "map_of (si_sessions s) sid")
  case (Some r)
  then have "sr_session_id (f r) = sid"
    using assms by (auto simp: record_inv_def sessions_ok_def)
  with assms(1) Some show ?thesis
    by (simp add: session_touch_def Let_def record_inv_def sessions_ok_insert runs_ok_session_insert)
qed (use assms in \<open>simp add: session_touch_def\<close>)

section \<open>Listings\<close>

text \<open>The runs of a session in sequence order.\<close>

definition session_runs :: "session_id \<Rightarrow> store_inner \<Rightarrow> run_record list" where
  "session_runs sid s =
     (case map_of (si_run_sequences s) sid of
        None \<Rightarrow> []
      | Some q \<Rightarrow> map (\<lambda>rid. the (map_of (si_runs s) (sid, rid))) (bt_values q))"

lemma index_entry:
  assumes "record_inv s" and "map_of (si_run_sequences s) sid = Some q" and "(n, rid) \<in> set q"
  shows "\<exists>r. map_of (si_runs s) (sid, rid) = Some r \<and> rr_sequence_no r = n"
proof -
  have "bt_wf q" using assms(1,2) by (auto simp: record_inv_def index_ok_def)
  with assms(3) have "map_of q n = Some rid" by (simp add: bt_wf_map_of_iff)
  with assms(1,2) show ?thesis
    by (auto simp: record_inv_def index_ok_def run_at_def dest!: spec [of _ sid])
qed

lemma load_indexed_runs_Ok:
  assumes "\<And>rid. rid \<in> set rids \<Longrightarrow> map_of (si_runs s) (sid, rid) \<noteq> None"
  shows "load_indexed_runs sid s rids = Ok (map (\<lambda>rid. the (map_of (si_runs s) (sid, rid))) rids)"
proof -
  have "map (\<lambda>rid. case map_of (si_runs s) (run_key sid rid) of
                      None \<Rightarrow> Err (StoreFailed msg_index_inconsistent) | Some r \<Rightarrow> Ok r) rids
      = map Ok (map (\<lambda>rid. the (map_of (si_runs s) (sid, rid))) rids)"
    using assms by (auto simp: run_key_def split: option.splits)
  then show ?thesis by (simp add: load_indexed_runs_def collect_results_Ok_iff)
qed

lemma load_indexed_runs_sub:
  assumes "record_inv s" and "map_of (si_run_sequences s) sid = Some q" and "set rids \<subseteq> set (bt_values q)"
  shows "load_indexed_runs sid s rids = Ok (map (\<lambda>rid. the (map_of (si_runs s) (sid, rid))) rids)"
proof (rule load_indexed_runs_Ok)
  fix rid assume "rid \<in> set rids"
  with assms(3) obtain n where "(n, rid) \<in> set q" by (auto simp: bt_values_def)
  with index_entry [OF assms(1,2)] show "map_of (si_runs s) (sid, rid) \<noteq> None" by fastforce
qed

lemma session_runs_sequences:
  assumes "record_inv s" and "map_of (si_run_sequences s) sid = Some q"
  shows "map rr_sequence_no (session_runs sid s) = map fst q"
proof -
  have "rr_sequence_no (the (map_of (si_runs s) (sid, snd e))) = fst e" if "e \<in> set q" for e
    using index_entry [OF assms, of "fst e" "snd e"] that by auto
  with assms(2) show ?thesis by (simp add: session_runs_def bt_values_def)
qed

lemma session_runs_sorted:
  assumes "record_inv s"
  shows "sorted_wrt (<) (map rr_sequence_no (session_runs sid s))"
proof (cases "map_of (si_run_sequences s) sid")
  case None
  then show ?thesis by (simp add: session_runs_def)
next
  case (Some q)
  then have "bt_wf q" using assms by (auto simp: record_inv_def index_ok_def)
  then show ?thesis using session_runs_sequences [OF assms Some] by (simp add: bt_wf_def)
qed

lemma session_runs_set:
  assumes inv: "record_inv s"
  shows "set (session_runs sid s) = {r. \<exists>rid. map_of (si_runs s) (sid, rid) = Some r}"
proof (intro equalityI subsetI)
  fix r assume "r \<in> set (session_runs sid s)"
  then obtain q e where q: "map_of (si_run_sequences s) sid = Some q" "e \<in> set q"
      "r = the (map_of (si_runs s) (sid, snd e))"
    by (cases "map_of (si_run_sequences s) sid") (auto simp: session_runs_def bt_values_def)
  with index_entry [OF inv q(1), of "fst e" "snd e"]
  show "r \<in> {r. \<exists>rid. map_of (si_runs s) (sid, rid) = Some r}" by auto
next
  fix r assume "r \<in> {r. \<exists>rid. map_of (si_runs s) (sid, rid) = Some r}"
  then obtain rid where rid: "map_of (si_runs s) (sid, rid) = Some r" by auto
  then have "run_at (si_run_sequences s) sid (rr_sequence_no r) = Some rid"
    using inv by (auto simp: record_inv_def index_ok_def)
  then obtain q where q: "map_of (si_run_sequences s) sid = Some q"
      and "map_of q (rr_sequence_no r) = Some rid"
    by (auto simp: run_at_def split: option.splits)
  then have "rid \<in> set (bt_values q)" by (blast intro: map_of_Some_in_values)
  with rid q show "r \<in> set (session_runs sid s)"
    by (force simp: session_runs_def)
qed

lemma list_run_records_ok: "record_inv s \<Longrightarrow> list_run_records sid s = Ok (session_runs sid s)"
  by (auto simp: list_run_records_def session_runs_def load_indexed_runs_sub split: option.splits)

lemma list_recent_run_records_ok:
  assumes "record_inv s"
  shows "list_recent_run_records sid limit s
    = Ok (drop (length (session_runs sid s) - unat limit) (session_runs sid s))"
proof (cases "map_of (si_run_sequences s) sid")
  case None
  then show ?thesis by (simp add: list_recent_run_records_def session_runs_def)
next
  case (Some q)
  let ?ids = "take (unat limit) (rev (bt_values q))"
  have "set ?ids \<subseteq> set (bt_values q)" by (metis set_rev set_take_subset)
  from load_indexed_runs_sub [OF assms Some this] Some show ?thesis
    by (auto simp: list_recent_run_records_def session_runs_def take_rev drop_map rev_map [symmetric])
qed

section \<open>Keyset pages\<close>

text \<open>
  A keyset page query is given an exclusive key and a limit. It promises the next rows in
  descending key order, the key of the last row as the next boundary, and whether more rows
  follow. A client drains a listing by asking again at the returned key while there is more.
\<close>

fun drain_pages ::
    "('k option \<Rightarrow> ('r list \<times> 'k option \<times> bool) option) \<Rightarrow> nat \<Rightarrow> 'k option \<Rightarrow> 'r list option" where
  "drain_pages page 0 b = None"
| "drain_pages page (Suc fuel) b =
     (case page b of
        None \<Rightarrow> None
      | Some (rows, nxt, has_more) \<Rightarrow>
          if has_more then map_option ((@) rows) (drain_pages page fuel nxt) else Some rows)"

definition rows_beyond :: "('r \<Rightarrow> 'k::linorder) \<Rightarrow> 'k option \<Rightarrow> 'r list \<Rightarrow> 'r list" where
  "rows_beyond key b rows = filter (\<lambda>r. case b of None \<Rightarrow> True | Some k \<Rightarrow> key r < k) rows"

locale keyset_pages =
  fixes inv :: "'s \<Rightarrow> bool"
    and rows :: "'s \<Rightarrow> 'r list"
    and key :: "'r \<Rightarrow> 'k::linorder"
    and page :: "'s \<Rightarrow> nat \<Rightarrow> 'k option \<Rightarrow> ('r list \<times> 'k option \<times> bool) option"
    and good_limit :: "nat \<Rightarrow> bool"
  assumes rows_desc: "inv s \<Longrightarrow> sorted_wrt (\<lambda>a b. key b < key a) (rows s)"
    and page_spec: "inv s \<Longrightarrow> good_limit n \<Longrightarrow>
      page s n b = Some (take n (rows_beyond key b (rows s)),
        (if rows_beyond key b (rows s) = [] then b
         else Some (key (last (take n (rows_beyond key b (rows s)))))),
        length (rows_beyond key b (rows s)) > n)"
    and limit_pos: "good_limit n \<Longrightarrow> 0 < n"
begin

lemma beyond_desc: "inv s \<Longrightarrow> sorted_wrt (\<lambda>a b. key b < key a) (rows_beyond key b (rows s))"
  unfolding rows_beyond_def by (rule sorted_wrt_filter) (rule rows_desc)

text \<open>Asking at the key of the last row of a page continues exactly after the page.\<close>

lemma resume_after_page:
  assumes inv: "inv s" and n: "0 < n" and ne: "rows_beyond key b (rows s) \<noteq> []"
  shows "rows_beyond key (Some (key (last (take n (rows_beyond key b (rows s)))))) (rows s)
    = drop n (rows_beyond key b (rows s))"
proof -
  let ?B = "rows_beyond key b (rows s)"
  let ?P = "take n ?B" and ?k = "key (last (take n ?B))"
  have P: "?P \<noteq> []" using n ne by (cases ?B) (auto simp: take_Cons')
  have desc: "sorted_wrt (\<lambda>a b. key b < key a) (?P @ drop n ?B)"
    using beyond_desc [OF inv] by simp
  have last_in: "last ?P \<in> set ?B" using P by (metis in_set_takeD last_in_set)
  have "case b of None \<Rightarrow> True | Some k \<Rightarrow> key r < k" if "r \<in> set ?B" for r
    using that by (simp add: rows_beyond_def)
  from this [OF last_in] have kb: "case b of None \<Rightarrow> True | Some k \<Rightarrow> ?k < k" .
  have "rows_beyond key (Some ?k) (rows s) = filter (\<lambda>r. key r < ?k) ?B"
    using kb by (auto simp: rows_beyond_def split: option.splits intro!: filter_cong)
  also have "\<dots> = filter (\<lambda>r. key r < ?k) ?P @ filter (\<lambda>r. key r < ?k) (drop n ?B)"
    by (metis append_take_drop_id filter_append)
  also have "filter (\<lambda>r. key r < ?k) ?P = []"
  proof -
    have "\<not> key r < ?k" if "r \<in> set ?P" for r
    proof -
      have "?P = butlast ?P @ [last ?P]" using P by simp
      with desc have "sorted_wrt (\<lambda>a b. key b < key a) (butlast ?P @ [last ?P])"
        by (metis sorted_wrt_append)
      moreover from that P have "r \<in> set (butlast ?P) \<or> r = last ?P"
        by (metis append_butlast_last_id in_set_conv_decomp rotate1.simps(2) set_ConsD set_rotate1)
      ultimately show ?thesis by (auto simp: sorted_wrt_append)
    qed
    then show ?thesis by (simp add: filter_empty_conv)
  qed
  also have "filter (\<lambda>r. key r < ?k) (drop n ?B) = drop n ?B"
  proof (rule filter_True, rule ballI)
    fix r assume "r \<in> set (drop n ?B)"
    then show "key r < ?k"
      using desc last_in_set [OF P] unfolding sorted_wrt_append by blast
  qed
  finally show ?thesis by simp
qed

lemma drain_beyond:
  assumes inv: "inv s" and n: "good_limit n"
  shows "length (rows_beyond key b (rows s)) < fuel \<Longrightarrow>
    drain_pages (page s n) fuel b = Some (rows_beyond key b (rows s))"
proof (induction fuel arbitrary: b)
  case (Suc fuel)
  let ?B = "rows_beyond key b (rows s)"
  show ?case
  proof (cases "length ?B > n")
    case False
    then show ?thesis by (simp add: page_spec [OF inv n])
  next
    case True
    then have ne: "?B \<noteq> []" by auto
    note res = resume_after_page [OF inv limit_pos [OF n] ne]
    have "length (drop n ?B) < fuel"
      using Suc.prems True limit_pos [OF n] by simp
    then have "drain_pages (page s n) fuel (Some (key (last (take n ?B)))) = Some (drop n ?B)"
      using Suc.IH [of "Some (key (last (take n ?B)))"] by (simp add: res)
    with True ne show ?thesis by (simp add: page_spec [OF inv n, of b])
  qed
qed simp

lemma drain_all:
  assumes "inv s" and "good_limit n"
  shows "drain_pages (page s n) (Suc (length (rows s))) None = Some (rows s)"
  using drain_beyond [OF assms, of None] by (simp add: rows_beyond_def del: drain_pages.simps)

end

lemma session_runs_desc:
  assumes "record_inv s"
  shows "sorted_wrt (\<lambda>a b. rr_sequence_no b < rr_sequence_no a) (rev (session_runs sid s))"
  using session_runs_sorted [OF assms, of sid] by (simp add: sorted_wrt_rev sorted_wrt_map)

text \<open>The run page as a keyset page over sequence numbers.\<close>

definition run_keyset_page ::
    "session_id \<Rightarrow> store_inner \<Rightarrow> nat \<Rightarrow> u64 option \<Rightarrow> (run_record list \<times> u64 option \<times> bool) option" where
  "run_keyset_page sid s n b =
     (case run_page_query_new (map_option (\<lambda>k. \<lparr>rpk_sequence_no = k\<rparr>) b) (of_nat n) of
        Ok q \<Rightarrow>
          (case list_run_record_page sid q s of
             Ok p \<Rightarrow> Some (rp_runs p, map_option rpk_sequence_no (rp_next_key p), rp_has_more p)
           | _ \<Rightarrow> None)
      | _ \<Rightarrow> None)"

definition page_limit_ok :: "nat \<Rightarrow> bool" where
  "page_limit_ok n \<longleftrightarrow> 1 \<le> n \<and> n \<le> 200"

lemma unat_page_limit: "page_limit_ok n \<Longrightarrow> unat (of_nat n :: u64) = n"
  by (simp add: page_limit_ok_def unat_of_nat)

lemma validate_page_limit_ok: "page_limit_ok n \<Longrightarrow> validate_page_limit (of_nat n) = Ok ()"
  using unat_page_limit [of n]
  by (simp add: validate_page_limit_def page_limit_ok_def max_stable_page_size_def word_le_nat_alt)

lemma unat_fetch_limit: "page_limit_ok n \<Longrightarrow> unat (u64_saturating_add (of_nat n) 1) = Suc n"
  by (simp add: unat_u64_saturating_add unat_page_limit) (simp add: page_limit_ok_def)

lemma list_run_record_page_spec:
  assumes inv: "record_inv s" and n: "page_limit_ok n"
  shows "list_run_record_page sid \<lparr>rpq_before = map_option (\<lambda>k. \<lparr>rpk_sequence_no = k\<rparr>) b, rpq_limit = of_nat n\<rparr> s
    = Ok (let B = rows_beyond rr_sequence_no b (rev (session_runs sid s)) in
        \<lparr>rp_runs = take n B,
         rp_next_key = (if B = [] then map_option (\<lambda>k. \<lparr>rpk_sequence_no = k\<rparr>) b
           else Some (run_page_key_from (last (take n B)))),
         rp_has_more = length B > n\<rparr>)"
proof (cases "map_of (si_run_sequences s) sid")
  case None
  then show ?thesis
    by (simp add: list_run_record_page_def load_indexed_runs_def session_runs_def rows_beyond_def)
next
  case (Some m)
  let ?get = "\<lambda>rid. the (map_of (si_runs s) (sid, rid))"
  define ids where "ids = map snd (rev (filter (\<lambda>e. case b of None \<Rightarrow> True | Some x \<Rightarrow> fst e < x) m))"
  have "rr_sequence_no (?get (snd e)) = fst e" if "e \<in> set m" for e
    using index_entry [OF inv Some, of "fst e" "snd e"] that by auto
  then have B: "rows_beyond rr_sequence_no b (rev (session_runs sid s)) = map ?get ids"
    using Some unfolding ids_def
    by (cases b) (simp_all add: rows_beyond_def session_runs_def bt_values_def rev_map
        filter_map rev_filter [symmetric] comp_def cong: filter_cong)
  have ids: "b = None \<Longrightarrow> rev (bt_values m) = ids"
      "b = Some x \<Longrightarrow> map snd (rev (filter (\<lambda>(n, _). n < x) m)) = ids" for x
    by (simp_all add: ids_def bt_values_def rev_map case_prod_unfold)
  have "set (take (Suc n) ids) \<subseteq> set (bt_values m)"
    using set_take_subset [of "Suc n" ids] by (auto simp: bt_values_def ids_def)
  note L = load_indexed_runs_sub [OF inv Some this]
  have n0: "0 < n" using n by (simp add: page_limit_ok_def)
  show ?thesis
    unfolding B using Some n0
    by (cases b) (simp_all add: list_run_record_page_def L ids Let_def unat_fetch_limit [OF n]
        unat_page_limit [OF n] take_map [symmetric] min_def)
qed

interpretation run_pages: keyset_pages record_inv "\<lambda>s. rev (session_runs sid s)" rr_sequence_no
    "run_keyset_page sid" page_limit_ok for sid
proof
  fix s
  assume "record_inv s"
  then show "sorted_wrt (\<lambda>a b. rr_sequence_no b < rr_sequence_no a) (rev (session_runs sid s))"
    by (rule session_runs_desc)
next
  fix s n b
  assume inv: "record_inv s" and n: "page_limit_ok n"
  let ?B = "rows_beyond rr_sequence_no b (rev (session_runs sid s))"
  show "run_keyset_page sid s n b = Some (take n ?B,
      (if ?B = [] then b else Some (rr_sequence_no (last (take n ?B)))), length ?B > n)"
    by (simp add: run_keyset_page_def run_page_query_new_def validate_page_limit_ok [OF n]
        list_run_record_page_spec [OF inv n] Let_def run_page_key_from_def option.map_comp comp_def option.map_ident)
next
  fix n
  assume "page_limit_ok n"
  then show "0 < n" by (simp add: page_limit_ok_def)
qed

text \<open>The session page as a keyset page over update time and identity.\<close>

definition session_sort_key :: "session_record \<Rightarrow> datetime \<times> session_id" where
  "session_sort_key r = (sr_updated_at r, sr_session_id r)"

definition session_keyset_page ::
    "store_inner \<Rightarrow> nat \<Rightarrow> (datetime \<times> session_id) option
     \<Rightarrow> (session_record list \<times> (datetime \<times> session_id) option \<times> bool) option" where
  "session_keyset_page s n b =
     (case session_page_query_new
             (map_option (\<lambda>(t, i). \<lparr>spk_updated_at = t, spk_session_id = i\<rparr>) b) (of_nat n) of
        Ok q \<Rightarrow>
          (case list_session_record_page q s of
             Ok p \<Rightarrow> Some (sp_sessions p,
                map_option (\<lambda>k. (spk_updated_at k, spk_session_id k)) (sp_next_key p), sp_has_more p)
           | _ \<Rightarrow> None)
      | _ \<Rightarrow> None)"

definition sessions_desc :: "store_inner \<Rightarrow> session_record list" where
  "sessions_desc s = sort_desc session_sort_key (bt_values (si_sessions s))"

lemma sort_desc_filter: "sort_desc key (filter P xs) = filter P (sort_desc key xs)"
  by (simp add: sort_desc_def rev_filter filter_sort [symmetric])

lemma set_sort_desc [simp]: "set (sort_desc key xs) = set xs"
  by (simp add: sort_desc_def)

lemma sort_desc_strict:
  assumes "distinct (map key xs)"
  shows "sorted_wrt (\<lambda>a b. key b < key a) (sort_desc key xs)"
proof -
  let ?ys = "sort_key key (rev xs)"
  have "distinct (map key ?ys)"
    using assms by (simp add: distinct_map)
  then have "sorted_wrt (<) (map key ?ys)"
    using sorted_sort_key [of key "rev xs"] by (simp only: strict_sorted_iff)
  then show ?thesis by (simp add: sort_desc_def sorted_wrt_rev sorted_wrt_map)
qed

lemma sessions_desc_sorted:
  assumes "record_inv s"
  shows "sorted_wrt (\<lambda>a b. session_sort_key b < session_sort_key a) (sessions_desc s)"
  unfolding sessions_desc_def
proof (rule sort_desc_strict)
  let ?ss = "si_sessions s"
  from assms have wf: "bt_wf ?ss" and k: "\<And>e. e \<in> set ?ss \<Longrightarrow> sr_session_id (snd e) = fst e"
    by (auto simp: record_inv_def sessions_ok_def bt_wf_map_of_iff)
  have "map sr_session_id (bt_values ?ss) = map fst ?ss"
    using k by (simp add: bt_values_def)
  with bt_wf_distinct [OF wf] have "distinct (map (snd \<circ> session_sort_key) (bt_values ?ss))"
    by (simp add: session_sort_key_def comp_def)
  then show "distinct (map session_sort_key (bt_values ?ss))"
    by (metis distinct_map map_map)
qed

interpretation session_pages: keyset_pages record_inv sessions_desc session_sort_key
    session_keyset_page page_limit_ok
proof
  fix s
  assume "record_inv s"
  then show "sorted_wrt (\<lambda>a b. session_sort_key b < session_sort_key a) (sessions_desc s)"
    by (rule sessions_desc_sorted)
next
  fix s n b
  assume n: "page_limit_ok n"
  let ?B = "rows_beyond session_sort_key b (sessions_desc s)"
  have "sort_desc (\<lambda>r. (sr_updated_at r, sr_session_id r))
      (filter (\<lambda>r. case map_option (\<lambda>(t, i). \<lparr>spk_updated_at = t, spk_session_id = i\<rparr>) b of
                 None \<Rightarrow> True
               | Some after \<Rightarrow>
                   sr_updated_at r < spk_updated_at after
                   \<or> sr_updated_at r = spk_updated_at after
                     \<and> sr_session_id r < spk_session_id after)
              (bt_values (si_sessions s))) = ?B"
    by (cases b) (auto simp: sort_desc_filter rows_beyond_def sessions_desc_def session_sort_key_def
        [abs_def] less_prod_simp intro!: filter_cong)
  moreover have "0 < n" using n by (simp add: page_limit_ok_def)
  ultimately show "session_keyset_page s n b = Some (take n ?B,
      (if ?B = [] then b else Some (session_sort_key (last (take n ?B)))), length ?B > n)"
    by (cases b) (simp_all add: session_keyset_page_def session_page_query_new_def validate_page_limit_ok [OF n]
        list_session_record_page_def Let_def session_page_key_from_def session_sort_key_def
        unat_page_limit [OF n] split: prod.splits)
next
  fix n
  assume "page_limit_ok n"
  then show "0 < n" by (simp add: page_limit_ok_def)
qed

end
