(* ===== verification/Store_Outbox.thy ===== *)
theory Store_Outbox
  imports Store_State
begin

text \<open>
  The transactional host-event outbox (\<open>starweaver-session/src/store/memory/host_events.rs\<close>):
  publications are enqueued once under their deterministic key, materialized in enqueue order at
  strictly increasing positions, and replayed in bounded pages.
\<close>

section \<open>Messages\<close>

definition msg_batch_limit :: string where
  "msg_batch_limit = ''host event batch limit must be between 1 and 500''"

definition msg_publication_conflict :: "event_publication_key \<Rightarrow> string" where
  "msg_publication_conflict k = ''host event publication conflict for '' @ k"

definition msg_outbox_order_corrupt :: "event_publication_key \<Rightarrow> string" where
  "msg_outbox_order_corrupt k = ''host event outbox order is corrupt for '' @ k"

definition msg_position_index_corrupt :: "event_publication_key \<Rightarrow> string" where
  "msg_position_index_corrupt k = ''host event position index is corrupt for '' @ k"

definition msg_identity_conflict :: "string \<Rightarrow> string" where
  "msg_identity_conflict e = ''host event identity conflict for '' @ e"

definition msg_outbox_sequence_exhausted :: string where
  "msg_outbox_sequence_exhausted = ''host event outbox sequence space is exhausted''"

definition msg_position_exhausted :: string where
  "msg_position_exhausted = ''durable host event position space is exhausted''"

definition msg_fence_requires_class :: string where
  "msg_fence_requires_class = ''host event fence requires at least one event class''"

section \<open>Operations\<close>

definition validate_batch_limit :: "u64 \<Rightarrow> unit store_result" where
  "validate_batch_limit limit =
     (if \<not> (1 \<le> limit \<and> limit \<le> max_host_event_page_size)
      then Err (StoreFailed msg_batch_limit) else Ok ())"

definition publication_conflict :: "event_publication_key \<Rightarrow> store_error" where
  "publication_conflict k = Conflict (msg_publication_conflict k)"

definition pending_in_order ::
    "store_inner \<Rightarrow> nat \<Rightarrow> pending_host_event_publication list store_result" where
  "pending_in_order s limit =
     collect_results
       (map (\<lambda>key. case map_of (si_host_event_outbox s) key of
                      None \<Rightarrow> Err (StoreFailed (msg_outbox_order_corrupt key))
                    | Some p \<Rightarrow> Ok p)
          (take limit (bt_values (si_host_event_outbox_order s))))"

definition remove_pending :: "event_publication_key \<Rightarrow> store_inner \<Rightarrow> store_inner" where
  "remove_pending key s =
     (let s1 = (case map_of (si_host_event_outbox_sequences s) key of
                  None \<Rightarrow> s
                | Some n \<Rightarrow>
                    s\<lparr>si_host_event_outbox_sequences :=
                        bt_remove key (si_host_event_outbox_sequences s),
                      si_host_event_outbox_order := bt_remove n (si_host_event_outbox_order s)\<rparr>)
      in s1\<lparr>si_host_event_outbox := bt_remove key (si_host_event_outbox s1)\<rparr>)"

text \<open>First pass: the batch must be consistent with itself.\<close>

fun check_batch ::
    "host_env \<Rightarrow> (event_publication_key, pending_host_event_publication) btmap
     \<Rightarrow> (string, event_publication_key) btmap \<Rightarrow> pending_host_event_publication list
     \<Rightarrow> (event_publication_key, pending_host_event_publication) btmap store_result" where
  "check_batch env by_key ids [] = Ok by_key"
| "check_batch env by_key ids (p # ps) =
     (case pending_publication_validate env p of
        Err e \<Rightarrow> Err e
      | Panic \<Rightarrow> Panic
      | Ok _ \<Rightarrow>
          if (case map_of by_key (pub_publication_key p) of None \<Rightarrow> False | Some q \<Rightarrow> q \<noteq> p)
          then Err (publication_conflict (pub_publication_key p))
          else if (case map_of ids (pub_event_id p) of
                     None \<Rightarrow> False | Some k \<Rightarrow> k \<noteq> pub_publication_key p)
          then Err (Conflict (msg_identity_conflict (pub_event_id p)))
          else check_batch env (bt_insert (pub_publication_key p) p by_key)
                 (bt_insert (pub_event_id p) (pub_publication_key p) ids) ps)"

text \<open>Second pass: one publication against the durable evidence.\<close>

definition check_publication ::
    "store_inner \<Rightarrow> pending_host_event_publication \<Rightarrow> unit store_result" where
  "check_publication s p =
     (case (case map_of (si_host_event_positions s) (pub_publication_key p) of
              None \<Rightarrow> Ok ()
            | Some pos \<Rightarrow>
                (case map_of (si_host_event_records s) pos of
                   None \<Rightarrow> Err (StoreFailed (msg_position_index_corrupt (pub_publication_key p)))
                 | Some existing \<Rightarrow>
                     if pending_projection existing \<noteq> p
                     then Err (publication_conflict (pub_publication_key p)) else Ok ())) of
        Err e \<Rightarrow> Err e
      | Panic \<Rightarrow> Panic
      | Ok _ \<Rightarrow>
          if (case map_of (si_host_event_outbox s) (pub_publication_key p) of
                None \<Rightarrow> False | Some q \<Rightarrow> q \<noteq> p)
          then Err (publication_conflict (pub_publication_key p))
          else if (case map_of (si_host_event_ids s) (pub_event_id p) of
                     None \<Rightarrow> False | Some k \<Rightarrow> k \<noteq> pub_publication_key p)
          then Err (Conflict (msg_identity_conflict (pub_event_id p)))
          else Ok ())"

fun check_publications :: "store_inner \<Rightarrow> pending_host_event_publication list \<Rightarrow> unit store_result" where
  "check_publications s [] = Ok ()"
| "check_publications s (p # ps) =
     (case check_publication s p of
        Ok _ \<Rightarrow> check_publications s ps
      | Err e \<Rightarrow> Err e
      | Panic \<Rightarrow> Panic)"

text \<open>Third pass: insert what is new, in batch order.\<close>

definition next_host_event_number :: "u64 \<Rightarrow> u64 option" where
  "next_host_event_number n =
     (case u64_checked_add n 1 of
        None \<Rightarrow> None
      | Some m \<Rightarrow> if m \<le> max_host_event_position then Some m else None)"

definition insert_publication ::
    "u64 \<Rightarrow> pending_host_event_publication \<Rightarrow> store_inner \<Rightarrow> store_inner" where
  "insert_publication n p s =
     s\<lparr>si_last_host_event_outbox_sequence := n,
       si_host_event_ids :=
         bt_insert (pub_event_id p) (pub_publication_key p) (si_host_event_ids s),
       si_host_event_outbox_order :=
         bt_insert n (pub_publication_key p) (si_host_event_outbox_order s),
       si_host_event_outbox_sequences :=
         bt_insert (pub_publication_key p) n (si_host_event_outbox_sequences s),
       si_host_event_outbox :=
         bt_insert (pub_publication_key p) p (si_host_event_outbox s)\<rparr>"

fun insert_publications ::
    "event_publication_key btset \<Rightarrow> pending_host_event_publication list \<Rightarrow> unit store_op" where
  "insert_publications seen [] s = (Ok (), s)"
| "insert_publications seen (p # ps) s =
     (let key = pub_publication_key p; seen' = bt_insert key () seen in
      if bt_contains seen key
         \<or> bt_contains (si_host_event_positions s) key
         \<or> bt_contains (si_host_event_outbox s) key
      then insert_publications seen' ps s
      else case next_host_event_number (si_last_host_event_outbox_sequence s) of
          None \<Rightarrow> (Err (StoreFailed msg_outbox_sequence_exhausted), s)
        | Some n \<Rightarrow> insert_publications seen' ps (insert_publication n p s))"

definition enqueue_host_event_publications_locked ::
    "host_env \<Rightarrow> pending_host_event_publication list \<Rightarrow> unit store_op" where
  "enqueue_host_event_publications_locked env pubs s =
     (case check_batch env [] [] pubs of
        Err e \<Rightarrow> (Err e, s)
      | Panic \<Rightarrow> (Panic, s)
      | Ok by_key \<Rightarrow>
          (case check_publications s (bt_values by_key) of
             Err e \<Rightarrow> (Err e, s)
           | Panic \<Rightarrow> (Panic, s)
           | Ok _ \<Rightarrow> insert_publications [] pubs s))"

definition enqueue_host_event_publication_batch ::
    "host_env \<Rightarrow> pending_host_event_publication list \<Rightarrow> unit store_op" where
  "enqueue_host_event_publication_batch env pubs =
     staged (enqueue_host_event_publications_locked env pubs)"

definition pending_host_event_publication_batch ::
    "u64 \<Rightarrow> store_inner \<Rightarrow> pending_host_event_publication list store_result" where
  "pending_host_event_publication_batch limit s =
     (case validate_batch_limit limit of
        Err e \<Rightarrow> Err e
      | Panic \<Rightarrow> Panic
      | Ok _ \<Rightarrow> pending_in_order s (unat limit))"

definition materialize_new ::
    "u64 \<Rightarrow> pending_host_event_publication \<Rightarrow> store_inner \<Rightarrow> store_inner" where
  "materialize_new pos p s =
     remove_pending (pub_publication_key p)
       (s\<lparr>si_last_host_event_position := pos,
          si_host_event_positions :=
            bt_insert (pub_publication_key p) pos (si_host_event_positions s),
          si_host_event_ids :=
            bt_insert (pub_event_id p) (pub_publication_key p) (si_host_event_ids s),
          si_host_event_records :=
            bt_insert pos (host_event_from_pending pos p) (si_host_event_records s)\<rparr>)"

fun materialize_pending ::
    "pending_host_event_publication list \<Rightarrow> durable_host_event_record list
     \<Rightarrow> durable_host_event_record list store_op" where
  "materialize_pending [] acc s = (Ok acc, s)"
| "materialize_pending (p # ps) acc s =
     (case map_of (si_host_event_positions s) (pub_publication_key p) of
        Some pos \<Rightarrow>
          (case map_of (si_host_event_records s) pos of
             None \<Rightarrow> (Err (StoreFailed (msg_position_index_corrupt (pub_publication_key p))), s)
           | Some existing \<Rightarrow>
               if pending_projection existing \<noteq> p
               then (Err (publication_conflict (pub_publication_key p)), s)
               else materialize_pending ps (acc @ [existing])
                      (remove_pending (pub_publication_key p) s))
      | None \<Rightarrow>
          (case next_host_event_number (si_last_host_event_position s) of
             None \<Rightarrow> (Err (StoreFailed msg_position_exhausted), s)
           | Some pos \<Rightarrow>
               materialize_pending ps (acc @ [host_event_from_pending pos p])
                 (materialize_new pos p s)))"

definition materialize_host_event_publication_batch ::
    "u64 \<Rightarrow> durable_host_event_record list store_op" where
  "materialize_host_event_publication_batch limit s =
     (case validate_batch_limit limit of
        Err e \<Rightarrow> (Err e, s)
      | Panic \<Rightarrow> (Panic, s)
      | Ok _ \<Rightarrow>
          (case pending_in_order s (unat limit) of
             Err e \<Rightarrow> (Err e, s)
           | Panic \<Rightarrow> (Panic, s)
           | Ok pending \<Rightarrow> staged (materialize_pending pending []) s))"

definition replay_host_event_page ::
    "durable_host_event_query \<Rightarrow> store_inner \<Rightarrow> durable_host_event_page store_result" where
  "replay_host_event_page q0 s =
     (case host_event_query_new (heq_scope q0) (heq_event_classes q0) (heq_after_position q0)
             (heq_limit q0) of
        Err e \<Rightarrow> Err e
      | Panic \<Rightarrow> Panic
      | Ok q \<Rightarrow>
          let after = (case heq_after_position q of None \<Rightarrow> 0 | Some p \<Rightarrow> p);
              eligible = take (unat (u64_saturating_add (heq_limit q) 1))
                (filter (\<lambda>r. scope_contains (heq_scope q) (her_scope r)
                             \<and> her_event_class r \<in> heq_event_classes q)
                  (map snd (filter (\<lambda>(p, _). u64_saturating_add after 1 \<le> p)
                     (si_host_event_records s))));
              has_more = length eligible > unat (heq_limit q);
              records = (if has_more then butlast eligible else eligible)
          in Ok \<lparr>hep_records = records,
                 hep_next_position =
                   (if records = [] then heq_after_position q
                    else Some (her_position (last records))),
                 hep_has_more = has_more\<rparr>)"

definition host_event_fence_position ::
    "durable_host_event_scope \<Rightarrow> durable_host_event_class list \<Rightarrow> store_inner
     \<Rightarrow> u64 option store_result" where
  "host_event_fence_position scope classes s =
     (if classes = [] then Err (StoreFailed msg_fence_requires_class)
      else Ok (map_option fst
        (find (\<lambda>(_, r). scope_contains scope (her_scope r) \<and> her_event_class r \<in> set classes)
          (rev (si_host_event_records s)))))"

section \<open>The outbox invariant\<close>

text \<open>
  The three outbox tables describe one queue, the two durable tables one log, and no publication
  is in both. Numbers stay below the counters that issue them.
\<close>

definition queue_inv :: "store_inner \<Rightarrow> bool" where
  "queue_inv s \<longleftrightarrow>
     bt_wf (si_host_event_outbox_order s)
     \<and> (\<forall>n k. map_of (si_host_event_outbox_order s) n = Some k
              \<longleftrightarrow> map_of (si_host_event_outbox_sequences s) k = Some n)
     \<and> (\<forall>k. map_of (si_host_event_outbox_sequences s) k = None
            \<longleftrightarrow> map_of (si_host_event_outbox s) k = None)
     \<and> (\<forall>k p. map_of (si_host_event_outbox s) k = Some p \<longrightarrow> pub_publication_key p = k)
     \<and> (\<forall>n k. map_of (si_host_event_outbox_order s) n = Some k
              \<longrightarrow> n \<le> si_last_host_event_outbox_sequence s)"

definition log_inv :: "store_inner \<Rightarrow> bool" where
  "log_inv s \<longleftrightarrow>
     bt_wf (si_host_event_records s)
     \<and> (\<forall>k pos. map_of (si_host_event_positions s) k = Some pos
              \<longleftrightarrow> (\<exists>r. map_of (si_host_event_records s) pos = Some r
                       \<and> her_publication_key r = k))
     \<and> (\<forall>pos r. map_of (si_host_event_records s) pos = Some r
              \<longrightarrow> her_position r = pos \<and> pos \<le> si_last_host_event_position s)"

definition identity_inv :: "store_inner \<Rightarrow> bool" where
  "identity_inv s \<longleftrightarrow>
     (\<forall>k p. map_of (si_host_event_outbox s) k = Some p
            \<longrightarrow> map_of (si_host_event_positions s) k = None
                \<and> map_of (si_host_event_ids s) (pub_event_id p) = Some k)
     \<and> (\<forall>pos r. map_of (si_host_event_records s) pos = Some r
            \<longrightarrow> map_of (si_host_event_ids s) (her_event_id r) = Some (her_publication_key r))"

definition outbox_inv :: "store_inner \<Rightarrow> bool" where
  "outbox_inv s \<longleftrightarrow> queue_inv s \<and> log_inv s \<and> identity_inv s"

lemma outbox_inv_new: "outbox_inv store_new"
  by (simp add: outbox_inv_def queue_inv_def log_inv_def identity_inv_def store_new_def)

lemma next_host_event_number_gt:
  "next_host_event_number n = Some m \<Longrightarrow> n < m \<and> unat m = Suc (unat n) \<and> m \<le> max_host_event_position"
proof -
  assume "next_host_event_number n = Some m"
  then have a: "u64_checked_add n 1 = Some m" and b: "m \<le> max_host_event_position"
    by (auto simp: next_host_event_number_def split: option.splits if_splits)
  from a have "unat m = Suc (unat n)"
    by (auto dest: unat_u64_checked_add)
  with b show ?thesis by (simp add: word_less_nat_alt)
qed

lemma queue_invD:
  assumes "queue_inv s"
  shows queue_inv_wf: "bt_wf (si_host_event_outbox_order s)"
    and queue_inv_order: "map_of (si_host_event_outbox_order s) n = Some k \<Longrightarrow>
      map_of (si_host_event_outbox_sequences s) k = Some n"
    and queue_inv_seq: "map_of (si_host_event_outbox_sequences s) k = Some n \<Longrightarrow>
      map_of (si_host_event_outbox_order s) n = Some k"
    and queue_inv_none: "map_of (si_host_event_outbox_sequences s) k = None
      \<longleftrightarrow> map_of (si_host_event_outbox s) k = None"
    and queue_inv_key: "map_of (si_host_event_outbox s) k = Some p \<Longrightarrow> pub_publication_key p = k"
    and queue_inv_le: "map_of (si_host_event_outbox_order s) n = Some k \<Longrightarrow>
      n \<le> si_last_host_event_outbox_sequence s"
  using assms unfolding queue_inv_def by blast+

lemma log_invD:
  assumes "log_inv s"
  shows log_inv_wf: "bt_wf (si_host_event_records s)"
    and log_inv_position: "map_of (si_host_event_positions s) k = Some pos \<Longrightarrow>
      \<exists>r. map_of (si_host_event_records s) pos = Some r \<and> her_publication_key r = k"
    and log_inv_record: "map_of (si_host_event_records s) pos = Some r \<Longrightarrow>
      map_of (si_host_event_positions s) (her_publication_key r) = Some pos"
    and log_inv_pos: "map_of (si_host_event_records s) pos = Some r \<Longrightarrow> her_position r = pos"
    and log_inv_le: "map_of (si_host_event_records s) pos = Some r \<Longrightarrow>
      pos \<le> si_last_host_event_position s"
  using assms unfolding log_inv_def by blast+

lemma identity_invD:
  assumes "identity_inv s"
  shows identity_inv_fresh: "map_of (si_host_event_outbox s) k = Some p \<Longrightarrow>
      map_of (si_host_event_positions s) k = None"
    and identity_inv_outbox: "map_of (si_host_event_outbox s) k = Some p \<Longrightarrow>
      map_of (si_host_event_ids s) (pub_event_id p) = Some k"
    and identity_inv_record: "map_of (si_host_event_records s) pos = Some r \<Longrightarrow>
      map_of (si_host_event_ids s) (her_event_id r) = Some (her_publication_key r)"
  using assms unfolding identity_inv_def by blast+

lemma queue_invI:
  assumes "bt_wf (si_host_event_outbox_order s)"
    and "\<And>n k. map_of (si_host_event_outbox_order s) n = Some k \<Longrightarrow>
      map_of (si_host_event_outbox_sequences s) k = Some n"
    and "\<And>n k. map_of (si_host_event_outbox_sequences s) k = Some n \<Longrightarrow>
      map_of (si_host_event_outbox_order s) n = Some k"
    and "\<And>k. map_of (si_host_event_outbox_sequences s) k = None
      \<longleftrightarrow> map_of (si_host_event_outbox s) k = None"
    and "\<And>k p. map_of (si_host_event_outbox s) k = Some p \<Longrightarrow> pub_publication_key p = k"
    and "\<And>n k. map_of (si_host_event_outbox_order s) n = Some k \<Longrightarrow>
      n \<le> si_last_host_event_outbox_sequence s"
  shows "queue_inv s"
  unfolding queue_inv_def by (intro conjI allI impI iffI) (fact assms iffD1 [OF assms(4)] iffD2 [OF assms(4)] | erule assms iffD1 [OF assms(4)] iffD2 [OF assms(4)])+

lemma queue_inv_insert_publication:
  assumes inv: "queue_inv s"
    and n: "next_host_event_number (si_last_host_event_outbox_sequence s) = Some n"
    and fresh: "map_of (si_host_event_outbox s) (pub_publication_key p) = None"
  shows "queue_inv (insert_publication n p s)"
proof -
  note D = queue_invD [OF inv]
  from n have lt: "si_last_host_event_outbox_sequence s < n"
    by (simp add: next_host_event_number_gt)
  have n_new: "map_of (si_host_event_outbox_order s) n \<noteq> Some k" for k
    using D(6) [of n k] lt by auto
  have seq_new: "map_of (si_host_event_outbox_sequences s) (pub_publication_key p) = None"
    using D(4) fresh by simp
  show ?thesis
  proof (rule queue_invI, goal_cases)
    case 1
    show ?case using D(1) by (simp add: insert_publication_def)
  next
    case (2 m k)
    then show ?case
      using D(2) [of m k] seq_new by (auto simp: insert_publication_def split: if_splits)
  next
    case (3 m k)
    then show ?case
      using D(3) [of k m] n_new [of k] by (auto simp: insert_publication_def split: if_splits)
  next
    case (4 k)
    show ?case using D(4) [of k] by (simp add: insert_publication_def)
  next
    case (5 k q)
    then show ?case
      using D(5) [of k q] by (auto simp: insert_publication_def split: if_splits)
  next
    case (6 m k)
    then show ?case
      using D(6) [of m k] lt by (auto simp: insert_publication_def split: if_splits)
  qed
qed

lemma log_inv_insert_publication: "log_inv (insert_publication n p s) = log_inv s"
  by (simp add: log_inv_def insert_publication_def)

lemma identity_inv_insert_publication:
  assumes inv: "identity_inv s" and log: "log_inv s"
    and fresh: "map_of (si_host_event_positions s) (pub_publication_key p) = None"
    and ids: "map_of (si_host_event_ids s) (pub_event_id p) \<in> {None, Some (pub_publication_key p)}"
  shows "identity_inv (insert_publication n p s)"
proof -
  let ?s = "insert_publication n p s"
  have "map_of (si_host_event_ids ?s) (pub_event_id q) = Some k"
    "map_of (si_host_event_positions ?s) k = None"
    if "map_of (si_host_event_outbox ?s) k = Some q" for k q
    using that fresh ids identity_inv_fresh [OF inv, of k q] identity_inv_outbox [OF inv, of k q]
    by (auto simp: insert_publication_def split: if_splits)
  moreover have "map_of (si_host_event_ids ?s) (her_event_id r) = Some (her_publication_key r)"
    if "map_of (si_host_event_records ?s) pos = Some r" for pos r
    using that fresh ids identity_inv_record [OF inv, of pos r] log_inv_record [OF log, of pos r]
    by (auto simp: insert_publication_def split: if_splits)
  ultimately show ?thesis
    unfolding identity_inv_def by blast
qed

lemma outbox_inv_insert_publication:
  assumes "outbox_inv s"
    and "next_host_event_number (si_last_host_event_outbox_sequence s) = Some n"
    and "map_of (si_host_event_positions s) (pub_publication_key p) = None"
    and "map_of (si_host_event_outbox s) (pub_publication_key p) = None"
    and "map_of (si_host_event_ids s) (pub_event_id p) \<in> {None, Some (pub_publication_key p)}"
  shows "outbox_inv (insert_publication n p s)"
  using assms
  by (simp add: outbox_inv_def queue_inv_insert_publication log_inv_insert_publication
      identity_inv_insert_publication)

text \<open>What a batch that passed both checks guarantees.\<close>

definition batch_consistent :: "pending_host_event_publication list \<Rightarrow> bool" where
  "batch_consistent ps \<longleftrightarrow>
     (\<forall>p \<in> set ps. \<forall>q \<in> set ps. pub_event_id p = pub_event_id q
        \<longrightarrow> pub_publication_key p = pub_publication_key q)"

definition ids_admissible :: "store_inner \<Rightarrow> pending_host_event_publication list \<Rightarrow> bool" where
  "ids_admissible s ps \<longleftrightarrow>
     (\<forall>p \<in> set ps. map_of (si_host_event_ids s) (pub_event_id p)
        \<in> {None, Some (pub_publication_key p)})"

lemma ids_admissible_insert:
  assumes "batch_consistent (p # ps)" and "ids_admissible s ps"
  shows "ids_admissible (insert_publication n p s) ps"
  unfolding ids_admissible_def
proof
  fix q
  assume q: "q \<in> set ps"
  show "map_of (si_host_event_ids (insert_publication n p s)) (pub_event_id q)
      \<in> {None, Some (pub_publication_key q)}"
  proof (cases "pub_event_id q = pub_event_id p")
    case True
    with assms(1) q have "pub_publication_key q = pub_publication_key p"
      unfolding batch_consistent_def by (metis list.set_intros)
    with True show ?thesis by (simp add: insert_publication_def)
  next
    case False
    with assms(2) q show ?thesis by (simp add: ids_admissible_def insert_publication_def)
  qed
qed

lemma insert_publications_inv:
  assumes "outbox_inv s" and "batch_consistent ps" and "ids_admissible s ps"
  shows "outbox_inv (snd (insert_publications seen ps s))"
  using assms
proof (induction seen ps s rule: insert_publications.induct)
  case (2 seen p ps s)
  have tail: "batch_consistent ps" "ids_admissible s ps"
    using "2.prems"(2,3) unfolding batch_consistent_def ids_admissible_def
    by (metis list.set_intros(2))+
  have adm: "ids_admissible (insert_publication n p s) ps" for n
    using "2.prems"(2) tail(2) by (rule ids_admissible_insert)
  show ?case
  proof (cases "bt_contains seen (pub_publication_key p)
      \<or> bt_contains (si_host_event_positions s) (pub_publication_key p)
      \<or> bt_contains (si_host_event_outbox s) (pub_publication_key p)")
    case True
    with 2 tail show ?thesis by (simp add: Let_def)
  next
    case new: False
    show ?thesis
    proof (cases "next_host_event_number (si_last_host_event_outbox_sequence s)")
      case None
      with new "2.prems" show ?thesis by (simp add: Let_def)
    next
      case (Some n)
      have "outbox_inv (insert_publication n p s)"
        using "2.prems" new Some
        by (intro outbox_inv_insert_publication) (auto simp: ids_admissible_def bt_contains_def)
      with 2 new Some tail adm show ?thesis
        by (simp add: Let_def)
    qed
  qed
qed simp

lemma check_batch_ok:
  assumes "check_batch env by_key ids ps = Ok m"
  shows "(\<forall>p \<in> set ps. pending_publication_validate env p = Ok ())
    \<and> (\<forall>k p. map_of by_key k = Some p \<longrightarrow> map_of m k = Some p)
    \<and> (\<forall>p \<in> set ps. map_of m (pub_publication_key p) = Some p)
    \<and> (\<forall>k p. map_of m k = Some p \<longrightarrow> map_of by_key k = Some p \<or> p \<in> set ps \<and> pub_publication_key p = k)
    \<and> (\<forall>p \<in> set ps. map_of ids (pub_event_id p) \<in> {None, Some (pub_publication_key p)})
    \<and> batch_consistent ps"
  using assms
proof (induction env by_key ids ps rule: check_batch.induct)
  case (2 env by_key ids p ps)
  let ?k = "pub_publication_key p"
  from "2.prems" have v: "pending_publication_validate env p = Ok ()"
    and k: "map_of by_key ?k \<in> {None, Some p}"
    and i: "map_of ids (pub_event_id p) \<in> {None, Some ?k}"
    and rest: "check_batch env (bt_insert ?k p by_key) (bt_insert (pub_event_id p) ?k ids) ps = Ok m"
    by (auto split: result.splits if_splits option.splits)
  have IH: "(\<forall>p \<in> set ps. pending_publication_validate env p = Ok ())
    \<and> (\<forall>l q. map_of (bt_insert ?k p by_key) l = Some q \<longrightarrow> map_of m l = Some q)
    \<and> (\<forall>q \<in> set ps. map_of m (pub_publication_key q) = Some q)
    \<and> (\<forall>l q. map_of m l = Some q \<longrightarrow> map_of (bt_insert ?k p by_key) l = Some q
        \<or> q \<in> set ps \<and> pub_publication_key q = l)
    \<and> (\<forall>q \<in> set ps. map_of (bt_insert (pub_event_id p) ?k ids) (pub_event_id q)
        \<in> {None, Some (pub_publication_key q)})
    \<and> batch_consistent ps"
    using v k i rest by (intro "2.IH") (auto split: option.splits)
  have same: "pub_publication_key q = ?k" if "q \<in> set ps" "pub_event_id q = pub_event_id p" for q
  proof -
    from IH that(1) have "map_of (bt_insert (pub_event_id p) ?k ids) (pub_event_id q)
        \<in> {None, Some (pub_publication_key q)}" by blast
    with that(2) show ?thesis by simp
  qed
  have a5: "map_of ids (pub_event_id q) \<in> {None, Some (pub_publication_key q)}"
    if "q \<in> set ps" for q
  proof (cases "pub_event_id q = pub_event_id p")
    case True
    with same [OF that True] i show ?thesis by simp
  next
    case False
    from IH that have "map_of (bt_insert (pub_event_id p) ?k ids) (pub_event_id q)
        \<in> {None, Some (pub_publication_key q)}" by blast
    with False show ?thesis by simp
  qed
  have a2: "map_of m l = Some q" if "map_of by_key l = Some q" for l q
  proof -
    from that k have "map_of (bt_insert ?k p by_key) l = Some q" by auto
    with IH show ?thesis by blast
  qed
  have a3: "map_of m ?k = Some p"
    using IH by simp
  have a6: "batch_consistent (p # ps)"
    using IH same unfolding batch_consistent_def by (metis set_ConsD)
  have a4: "map_of by_key l = Some q \<or> q \<in> set (p # ps) \<and> pub_publication_key q = l"
    if "map_of m l = Some q" for l q
  proof -
    from IH that have "map_of (bt_insert ?k p by_key) l = Some q
        \<or> q \<in> set ps \<and> pub_publication_key q = l" by blast
    then show ?thesis by (cases "l = ?k") auto
  qed
  from IH have a1: "\<forall>q \<in> set (p # ps). pending_publication_validate env q = Ok ()"
    using v by simp
  from IH have a3': "\<forall>q \<in> set (p # ps). map_of m (pub_publication_key q) = Some q"
    using a3 by simp
  have a5': "\<forall>q \<in> set (p # ps). map_of ids (pub_event_id q) \<in> {None, Some (pub_publication_key q)}"
    using a5 i by simp
  show ?case
    using a1 a2 a3' a4 a5' a6 by blast
qed (auto simp: batch_consistent_def)

lemma check_publications_ok:
  "check_publications s ps = Ok () \<longleftrightarrow> (\<forall>p \<in> set ps. check_publication s p = Ok ())"
  by (induction ps) (auto split: result.splits)

lemma check_publication_Ok_iff:
  "check_publication s p = Ok () \<longleftrightarrow>
     (\<forall>pos. map_of (si_host_event_positions s) (pub_publication_key p) = Some pos
        \<longrightarrow> (\<exists>r. map_of (si_host_event_records s) pos = Some r \<and> pending_projection r = p))
     \<and> (\<forall>q. map_of (si_host_event_outbox s) (pub_publication_key p) = Some q \<longrightarrow> q = p)
     \<and> (\<forall>k. map_of (si_host_event_ids s) (pub_event_id p) = Some k \<longrightarrow> k = pub_publication_key p)"
  by (cases "map_of (si_host_event_positions s) (pub_publication_key p)";
      cases "map_of (si_host_event_records s) (the (map_of (si_host_event_positions s) (pub_publication_key p)))";
      cases "map_of (si_host_event_outbox s) (pub_publication_key p)";
      cases "map_of (si_host_event_ids s) (pub_event_id p)")
     (simp_all add: check_publication_def)

lemma check_publication_ids:
  "check_publication s p = Ok () \<Longrightarrow>
     map_of (si_host_event_ids s) (pub_event_id p) \<in> {None, Some (pub_publication_key p)}"
  by (cases "map_of (si_host_event_ids s) (pub_event_id p)") (auto simp: check_publication_Ok_iff)

lemma checks_admissible:
  assumes cb: "check_batch env [] [] pubs = Ok by_key"
    and cp: "check_publications s (bt_values by_key) = Ok ()"
  shows "batch_consistent pubs \<and> ids_admissible s pubs"
proof -
  note B = check_batch_ok [OF cb]
  have "check_publication s p = Ok ()" if "p \<in> set pubs" for p
  proof -
    from B that have "map_of by_key (pub_publication_key p) = Some p" by blast
    then have "p \<in> set (bt_values by_key)" by (rule map_of_Some_in_values)
    with cp show ?thesis by (simp add: check_publications_ok)
  qed
  then have "ids_admissible s pubs"
    unfolding ids_admissible_def using check_publication_ids by metis
  moreover from B have "batch_consistent pubs" by blast
  ultimately show ?thesis by blast
qed

lemma enqueue_inv:
  assumes "outbox_inv s"
  shows "outbox_inv (snd (enqueue_host_event_publications_locked env pubs s))"
proof (cases "check_batch env [] [] pubs")
  case (Ok by_key)
  show ?thesis
  proof (cases "check_publications s (bt_values by_key)")
    case ck: (Ok u)
    with checks_admissible [OF Ok, of s] assms Ok show ?thesis
      by (simp add: enqueue_host_event_publications_locked_def insert_publications_inv)
  qed (use assms Ok in \<open>simp_all add: enqueue_host_event_publications_locked_def\<close>)
qed (use assms in \<open>simp_all add: enqueue_host_event_publications_locked_def\<close>)

lemma enqueue_Ok:
  assumes "enqueue_host_event_publications_locked env pubs s = (Ok (), s')"
  shows "batch_consistent pubs \<and> ids_admissible s pubs \<and> insert_publications [] pubs s = (Ok (), s')"
proof -
  from assms obtain by_key where "check_batch env [] [] pubs = Ok by_key"
    "check_publications s (bt_values by_key) = Ok ()" "insert_publications [] pubs s = (Ok (), s')"
    by (auto simp: enqueue_host_event_publications_locked_def split: result.splits)
  with checks_admissible show ?thesis by blast
qed

lemma remove_pending_simps [simp]:
  "si_host_event_positions (remove_pending k s) = si_host_event_positions s"
  "si_host_event_records (remove_pending k s) = si_host_event_records s"
  "si_host_event_ids (remove_pending k s) = si_host_event_ids s"
  "si_last_host_event_position (remove_pending k s) = si_last_host_event_position s"
  "si_last_host_event_outbox_sequence (remove_pending k s) = si_last_host_event_outbox_sequence s"
  "si_host_event_outbox (remove_pending k s) = bt_remove k (si_host_event_outbox s)"
  by (simp_all add: remove_pending_def split: option.splits)

lemma queue_inv_outbox_cong:
  "map_of m = map_of (si_host_event_outbox s) \<Longrightarrow>
     queue_inv (s\<lparr>si_host_event_outbox := m\<rparr>) = queue_inv s"
  by (simp add: queue_inv_def)

lemma queue_inv_remove_pending:
  assumes inv: "queue_inv s"
  shows "queue_inv (remove_pending k s)"
proof (cases "map_of (si_host_event_outbox_sequences s) k")
  case None
  then have "map_of (si_host_event_outbox s) k = None"
    using queue_inv_none [OF inv] by simp
  then have "map_of (bt_remove k (si_host_event_outbox s)) = map_of (si_host_event_outbox s)"
    by (simp add: fun_upd_idem)
  moreover have "remove_pending k s
      = s\<lparr>si_host_event_outbox := bt_remove k (si_host_event_outbox s)\<rparr>"
    using None by (simp add: remove_pending_def)
  ultimately show ?thesis
    using inv by (simp only: queue_inv_outbox_cong)
next
  case (Some n)
  note D = queue_invD [OF inv]
  have on: "map_of (si_host_event_outbox_order s) n = Some k"
    using D(3) Some by simp
  show ?thesis
  proof (rule queue_invI, goal_cases)
    case 1
    show ?case using D(1) Some by (simp add: remove_pending_def)
  next
    case (2 m l)
    then show ?case
      using D(2) [of m l] Some on by (auto simp: remove_pending_def split: if_splits)
  next
    case (3 m l)
    then show ?case
      using D(3) [of l m] Some on by (auto simp: remove_pending_def split: if_splits)
  next
    case (4 l)
    show ?case using D(4) [of l] Some by (simp add: remove_pending_def)
  next
    case (5 l q)
    then show ?case
      using D(5) [of l q] by (auto split: if_splits)
  next
    case (6 m l)
    then show ?case
      using D(6) [of m l] Some by (auto simp: remove_pending_def split: if_splits)
  qed
qed

lemma log_inv_materialize_new:
  assumes inv: "log_inv s"
    and pos: "next_host_event_number (si_last_host_event_position s) = Some pos"
    and fresh: "map_of (si_host_event_positions s) (pub_publication_key p) = None"
  shows "log_inv (materialize_new pos p s)"
proof -
  from pos have lt: "si_last_host_event_position s < pos"
    by (simp add: next_host_event_number_gt)
  have new: "map_of (si_host_event_records s) pos = None"
    using log_inv_le [OF inv, of pos] lt
    by (cases "map_of (si_host_event_records s) pos") auto
  have ne: "her_publication_key r \<noteq> pub_publication_key p"
    if "map_of (si_host_event_records s) q = Some r" for q r
    using log_inv_record [OF inv that] fresh by auto
  show ?thesis
    unfolding log_inv_def
  proof (intro conjI allI impI iffI, goal_cases)
    case 1
    show ?case using log_inv_wf [OF inv] by (simp add: materialize_new_def)
  next
    case (2 k q)
    then show ?case
      using log_inv_position [OF inv, of k q] new
      by (auto simp: materialize_new_def split: if_splits)
  next
    case (3 k q)
    then show ?case
      using log_inv_record [OF inv, of q] ne [of q]
      by (auto simp: materialize_new_def split: if_splits)
  next
    case (4 q r)
    then show ?case
      using log_inv_pos [OF inv, of q r] by (auto simp: materialize_new_def split: if_splits)
  next
    case (5 q r)
    then show ?case
      using log_inv_le [OF inv, of q r] lt by (auto simp: materialize_new_def split: if_splits)
  qed
qed

lemma outbox_inv_materialize_new:
  assumes inv: "outbox_inv s"
    and pos: "next_host_event_number (si_last_host_event_position s) = Some pos"
    and pend: "map_of (si_host_event_outbox s) (pub_publication_key p) = Some p"
  shows "outbox_inv (materialize_new pos p s)"
proof -
  let ?k = "pub_publication_key p"
  from inv have q: "queue_inv s" and l: "log_inv s" and i: "identity_inv s"
    by (auto simp: outbox_inv_def)
  note fresh = identity_inv_fresh [OF i pend]
  have "queue_inv (materialize_new pos p s)"
    unfolding materialize_new_def
    by (rule queue_inv_remove_pending) (use q in \<open>simp add: queue_inv_def\<close>)
  moreover have "identity_inv (materialize_new pos p s)"
    unfolding identity_inv_def
  proof (intro conjI allI impI, goal_cases)
    case (1 k q)
    then show ?case
      using identity_inv_fresh [OF i, of k q] by (auto simp: materialize_new_def split: if_splits)
  next
    case (2 k q)
    then show ?case
      using identity_inv_outbox [OF i, of k q] identity_inv_outbox [OF i pend]
      by (auto simp: materialize_new_def split: if_splits)
  next
    case (3 r x)
    then show ?case
      using identity_inv_record [OF i, of r x] identity_inv_outbox [OF i pend]
      by (auto simp: materialize_new_def split: if_splits)
  qed
  moreover have "log_inv (materialize_new pos p s)"
    using l pos fresh by (rule log_inv_materialize_new)
  ultimately show ?thesis by (simp add: outbox_inv_def)
qed

lemma pending_in_order_ok:
  assumes inv: "outbox_inv s"
  shows "\<exists>ps. pending_in_order s limit = Ok ps
    \<and> map pub_publication_key ps = take limit (bt_values (si_host_event_outbox_order s))
    \<and> (\<forall>p \<in> set ps. map_of (si_host_event_outbox s) (pub_publication_key p) = Some p)"
proof -
  let ?keys = "take limit (bt_values (si_host_event_outbox_order s))"
  from inv have q: "queue_inv s" by (simp add: outbox_inv_def)
  have ex: "\<exists>p. map_of (si_host_event_outbox s) k = Some p \<and> pub_publication_key p = k"
    if "k \<in> set ?keys" for k
  proof -
    from that obtain n where "(n, k) \<in> set (si_host_event_outbox_order s)"
      by (auto simp: bt_values_def dest!: in_set_takeD)
    then have "map_of (si_host_event_outbox_order s) n = Some k"
      using queue_inv_wf [OF q] by (simp add: bt_wf_map_of_iff)
    then have "map_of (si_host_event_outbox_sequences s) k = Some n"
      by (rule queue_inv_order [OF q])
    then have "map_of (si_host_event_outbox s) k \<noteq> None"
      using queue_inv_none [OF q, of k] by simp
    then show ?thesis using queue_inv_key [OF q] by auto
  qed
  let ?ps = "map (\<lambda>k. the (map_of (si_host_event_outbox s) k)) ?keys"
  have "map (\<lambda>key. case map_of (si_host_event_outbox s) key of
                      None \<Rightarrow> Err (StoreFailed (msg_outbox_order_corrupt key))
                    | Some p \<Rightarrow> Ok p) ?keys = map Ok ?ps"
    using ex by (auto split: option.splits)
  then have "pending_in_order s limit = Ok ?ps"
    by (simp add: pending_in_order_def collect_results_Ok_iff)
  moreover have "map pub_publication_key ?ps = ?keys"
    unfolding map_map by (rule map_idI) (use ex in force)
  moreover have "\<forall>p \<in> set ?ps. map_of (si_host_event_outbox s) (pub_publication_key p) = Some p"
    using ex by fastforce
  ultimately show ?thesis by blast
qed

text \<open>The effect of a successful insertion pass, as a relation between the two states.\<close>

definition enqueued_to :: "pending_host_event_publication list \<Rightarrow> store_inner \<Rightarrow> store_inner \<Rightarrow> bool" where
  "enqueued_to ps s s' \<longleftrightarrow>
     si_host_event_positions s' = si_host_event_positions s
     \<and> si_host_event_records s' = si_host_event_records s
     \<and> (\<forall>k q. map_of (si_host_event_outbox s) k = Some q
          \<longrightarrow> map_of (si_host_event_outbox s') k = Some q)
     \<and> (\<forall>k q. map_of (si_host_event_outbox s') k = Some q
          \<longrightarrow> map_of (si_host_event_outbox s) k = Some q \<or> q \<in> set ps \<and> pub_publication_key q = k)
     \<and> (\<forall>e k. map_of (si_host_event_ids s') e = Some k
          \<longrightarrow> map_of (si_host_event_ids s) e = Some k
              \<or> (\<exists>q \<in> set ps. pub_event_id q = e \<and> pub_publication_key q = k))"

definition key_known :: "store_inner \<Rightarrow> event_publication_key \<Rightarrow> bool" where
  "key_known s k \<longleftrightarrow> bt_contains (si_host_event_positions s) k \<or> bt_contains (si_host_event_outbox s) k"

lemma enqueued_to_refl: "enqueued_to ps s s"
  by (simp add: enqueued_to_def)

lemma enqueued_to_skip: "enqueued_to ps s s' \<Longrightarrow> enqueued_to (p # ps) s s'"
  unfolding enqueued_to_def by (meson list.set_intros(2))

lemma enqueued_to_insert:
  assumes "enqueued_to ps (insert_publication n p s) s'"
    and "map_of (si_host_event_outbox s) (pub_publication_key p) = None"
  shows "enqueued_to (p # ps) s s'"
proof -
  let ?t = "insert_publication n p s"
  have out: "map_of (si_host_event_outbox ?t)
      = (map_of (si_host_event_outbox s))(pub_publication_key p \<mapsto> p)"
    and ids: "map_of (si_host_event_ids ?t)
      = (map_of (si_host_event_ids s))(pub_event_id p \<mapsto> pub_publication_key p)"
    and same: "si_host_event_positions ?t = si_host_event_positions s"
      "si_host_event_records ?t = si_host_event_records s"
    by (simp_all add: insert_publication_def)
  have a: "map_of (si_host_event_outbox s') k = Some q"
    if "map_of (si_host_event_outbox s) k = Some q" for k q
  proof -
    from that assms(2) have "map_of (si_host_event_outbox ?t) k = Some q" by (auto simp: out)
    with assms(1) show ?thesis by (simp add: enqueued_to_def)
  qed
  have b: "map_of (si_host_event_outbox s) k = Some q \<or> q \<in> set (p # ps) \<and> pub_publication_key q = k"
    if "map_of (si_host_event_outbox s') k = Some q" for k q
  proof -
    from assms(1) that have "map_of (si_host_event_outbox ?t) k = Some q
        \<or> q \<in> set ps \<and> pub_publication_key q = k" unfolding enqueued_to_def by blast
    then show ?thesis by (auto simp: out split: if_splits)
  qed
  have c: "map_of (si_host_event_ids s) e = Some k
      \<or> (\<exists>q \<in> set (p # ps). pub_event_id q = e \<and> pub_publication_key q = k)"
    if "map_of (si_host_event_ids s') e = Some k" for e k
  proof -
    from assms(1) that have "map_of (si_host_event_ids ?t) e = Some k
        \<or> (\<exists>q \<in> set ps. pub_event_id q = e \<and> pub_publication_key q = k)"
      unfolding enqueued_to_def by blast
    then show ?thesis by (auto simp: ids split: if_splits)
  qed
  from assms(1) a b c show ?thesis
    unfolding enqueued_to_def same by blast
qed

lemma enqueued_to_known: "enqueued_to ps s s' \<Longrightarrow> key_known s k \<Longrightarrow> key_known s' k"
  unfolding enqueued_to_def key_known_def bt_contains_iff by metis

lemma insert_publications_enqueued:
  assumes "insert_publications seen ps s = (Ok (), s')"
    and "\<And>k. bt_contains seen k \<Longrightarrow> key_known s k"
  shows "enqueued_to ps s s' \<and> (\<forall>p \<in> set ps. key_known s' (pub_publication_key p))"
  using assms
proof (induction seen ps s rule: insert_publications.induct)
  case (1 seen s)
  then show ?case by (simp add: enqueued_to_refl)
next
  case (2 seen p ps s)
  let ?k = "pub_publication_key p"
  show ?case
  proof (cases "bt_contains seen ?k \<or> bt_contains (si_host_event_positions s) ?k
      \<or> bt_contains (si_host_event_outbox s) ?k")
    case True
    then have known: "key_known s ?k" using "2.prems"(2) by (auto simp: key_known_def)
    have "enqueued_to ps s s' \<and> (\<forall>p \<in> set ps. key_known s' (pub_publication_key p))"
      using True "2.prems" known by (intro "2.IH"(1) [OF refl refl]) (auto simp: Let_def)
    with known show ?thesis by (auto intro: enqueued_to_skip enqueued_to_known)
  next
    case False
    with "2.prems"(1) obtain n
      where n: "next_host_event_number (si_last_host_event_outbox_sequence s) = Some n"
      and rest: "insert_publications (bt_insert ?k () seen) ps (insert_publication n p s) = (Ok (), s')"
      by (auto simp: Let_def split: option.splits)
    have known: "key_known (insert_publication n p s) ?k"
      by (simp add: key_known_def insert_publication_def)
    have "key_known (insert_publication n p s) k" if "bt_contains seen k" for k
      using "2.prems"(2) [OF that] by (auto simp: key_known_def insert_publication_def)
    then have IH: "enqueued_to ps (insert_publication n p s) s'
        \<and> (\<forall>p \<in> set ps. key_known s' (pub_publication_key p))"
      using False n rest known by (intro "2.IH"(2) [OF refl refl]) auto
    then show ?thesis
      using False known by (auto simp: bt_contains_def intro: enqueued_to_insert enqueued_to_known)
  qed
qed

lemma insert_publications_noop:
  "\<forall>p \<in> set ps. key_known s (pub_publication_key p) \<Longrightarrow> insert_publications seen ps s = (Ok (), s)"
  by (induction ps arbitrary: seen) (auto simp: key_known_def Let_def)

lemma check_batch_wf: "check_batch env by_key ids ps = Ok m \<Longrightarrow> bt_wf by_key \<Longrightarrow> bt_wf m"
  by (induction env by_key ids ps rule: check_batch.induct)
     (auto split: result.splits if_splits option.splits)

lemma check_publication_again:
  assumes ok: "check_publication s p = Ok ()" and to: "enqueued_to pubs s s'"
    and same: "\<And>q. q \<in> set pubs \<Longrightarrow> pub_publication_key q = pub_publication_key p \<Longrightarrow> q = p"
    and ids: "\<And>q. q \<in> set pubs \<Longrightarrow> pub_event_id q = pub_event_id p \<Longrightarrow>
      pub_publication_key q = pub_publication_key p"
  shows "check_publication s' p = Ok ()"
proof -
  let ?k = "pub_publication_key p"
  from to have pos: "si_host_event_positions s' = si_host_event_positions s"
      "si_host_event_records s' = si_host_event_records s"
    by (simp_all add: enqueued_to_def)
  have out: "q = p" if "map_of (si_host_event_outbox s') ?k = Some q" for q
  proof -
    from to that have "map_of (si_host_event_outbox s) ?k = Some q
        \<or> q \<in> set pubs \<and> pub_publication_key q = ?k"
      unfolding enqueued_to_def by blast
    with ok same show ?thesis
      unfolding check_publication_Ok_iff by blast
  qed
  have idk: "k = ?k" if "map_of (si_host_event_ids s') (pub_event_id p) = Some k" for k
  proof -
    from to that have "map_of (si_host_event_ids s) (pub_event_id p) = Some k
        \<or> (\<exists>q \<in> set pubs. pub_event_id q = pub_event_id p \<and> pub_publication_key q = k)"
      unfolding enqueued_to_def by blast
    with check_publication_ids [OF ok] ids show ?thesis by auto
  qed
  from ok out idk show ?thesis
    unfolding check_publication_Ok_iff pos by blast
qed

lemma enqueue_twice:
  assumes first: "enqueue_host_event_publications_locked env pubs s = (Ok (), s')"
  shows "enqueue_host_event_publications_locked env pubs s' = (Ok (), s')"
proof -
  from first obtain by_key where cb: "check_batch env [] [] pubs = Ok by_key"
    and cp: "check_publications s (bt_values by_key) = Ok ()"
    and ins: "insert_publications [] pubs s = (Ok (), s')"
    by (auto simp: enqueue_host_event_publications_locked_def split: result.splits)
  note B = check_batch_ok [OF cb]
  have wf: "bt_wf by_key" using cb by (rule check_batch_wf) simp
  have E: "enqueued_to pubs s s'" "\<forall>p \<in> set pubs. key_known s' (pub_publication_key p)"
    using insert_publications_enqueued [OF ins] by simp_all
  have "check_publication s' p = Ok ()" if "p \<in> set (bt_values by_key)" for p
  proof (rule check_publication_again [OF _ E(1)])
    from that obtain k where "(k, p) \<in> set by_key" by (auto simp: bt_values_def)
    then have k: "map_of by_key k = Some p" using wf by (simp add: bt_wf_map_of_iff)
    with B have p: "p \<in> set pubs" by auto
    show "check_publication s p = Ok ()" using cp that by (simp add: check_publications_ok)
    show "q = p" if "q \<in> set pubs" "pub_publication_key q = pub_publication_key p" for q
      using B p that by (metis option.inject)
    show "pub_publication_key q = pub_publication_key p"
      if "q \<in> set pubs" "pub_event_id q = pub_event_id p" for q
      using B p that unfolding batch_consistent_def by blast
  qed
  then have "check_publications s' (bt_values by_key) = Ok ()"
    by (simp add: check_publications_ok)
  with cb E(2) show ?thesis
    by (simp add: enqueue_host_event_publications_locked_def insert_publications_noop)
qed

lemma bt_remove_head:
  assumes "bt_wf ((n, k) # m)"
  shows "bt_remove n ((n, k) # m) = m"
proof -
  from assms have "n \<notin> fst ` set m"
    by (auto simp: bt_wf_def)
  then show ?thesis
    by (auto simp: bt_remove_def filter_id_conv)
qed

lemma materialize_new_order:
  assumes inv: "outbox_inv s" and ord: "si_host_event_outbox_order s = (n, pub_publication_key p) # m"
  shows "si_host_event_outbox_order (materialize_new pos p s) = m"
proof -
  from inv have q: "queue_inv s" by (simp add: outbox_inv_def)
  have "map_of (si_host_event_outbox_order s) n = Some (pub_publication_key p)"
    by (simp add: ord)
  then have "map_of (si_host_event_outbox_sequences s) (pub_publication_key p) = Some n"
    by (rule queue_inv_order [OF q])
  moreover have "bt_remove n (si_host_event_outbox_order s) = m"
    using queue_inv_wf [OF q] by (simp add: ord bt_remove_head)
  ultimately show ?thesis
    by (simp add: materialize_new_def remove_pending_def)
qed

lemma materialize_new_simps [simp]:
  "si_last_host_event_position (materialize_new pos p s) = pos"
  "si_host_event_outbox (materialize_new pos p s)
     = bt_remove (pub_publication_key p) (si_host_event_outbox s)"
  by (simp_all add: materialize_new_def)

lemma materialize_new_records:
  assumes "log_inv s" and "next_host_event_number (si_last_host_event_position s) = Some pos"
  shows "si_host_event_records (materialize_new pos p s)
    = si_host_event_records s @ [(pos, host_event_from_pending pos p)]"
proof -
  have "\<forall>k \<in> fst ` set (si_host_event_records s). k < pos"
  proof
    fix k
    assume "k \<in> fst ` set (si_host_event_records s)"
    then obtain r where "map_of (si_host_event_records s) k = Some r"
      using log_inv_wf [OF assms(1)] by (auto simp: bt_wf_map_of_iff)
    then have "k \<le> si_last_host_event_position s" by (rule log_inv_le [OF assms(1)])
    also have "\<dots> < pos" using assms(2) by (simp add: next_host_event_number_gt)
    finally show "k < pos" .
  qed
  then show ?thesis by (simp add: materialize_new_def bt_insert_last)
qed

lemma next_host_event_number_Some:
  assumes "unat n < unat max_host_event_position"
  shows "\<exists>m. next_host_event_number n = Some m"
proof -
  from assms have b: "unat n + unat (1::u64) < 2 ^ 64"
    using u64_unat_bound [of max_host_event_position] by simp
  then have "u64_checked_add n 1 = Some (n + 1)"
    by (simp add: u64_checked_add_def)
  moreover have "n + 1 \<le> max_host_event_position"
    using assms b by (simp add: word_le_nat_alt unat_u64_add)
  ultimately show ?thesis by (simp add: next_host_event_number_def)
qed

lemma queue_inv_distinct:
  assumes inv: "queue_inv s"
  shows "distinct (bt_values (si_host_event_outbox_order s))"
proof -
  let ?m = "si_host_event_outbox_order s"
  note wf = queue_inv_wf [OF inv]
  have "inj_on snd (set ?m)"
  proof (rule inj_onI)
    fix e e'
    assume "e \<in> set ?m" "e' \<in> set ?m" "snd e = snd e'"
    then have "map_of ?m (fst e) = Some (snd e)" "map_of ?m (fst e') = Some (snd e)"
      by (metis bt_wf_map_of_iff [OF wf] prod.collapse)+
    then have "fst e = fst e'"
      using queue_inv_order [OF inv, of "fst e" "snd e"] queue_inv_order [OF inv, of "fst e'" "snd e"]
      by (simp only: option.inject)
    with \<open>snd e = snd e'\<close> show "e = e'" by (simp add: prod_eq_iff)
  qed
  moreover have "distinct ?m"
    using bt_wf_distinct [OF wf] by (simp add: distinct_map)
  ultimately show ?thesis
    by (simp add: bt_values_def distinct_map)
qed

lemma materialize_pending_spec:
  assumes "outbox_inv s"
    and "map pub_publication_key ps @ rest = bt_values (si_host_event_outbox_order s)"
    and "\<forall>p \<in> set ps. map_of (si_host_event_outbox s) (pub_publication_key p) = Some p"
    and "unat (si_last_host_event_position s) + length ps \<le> unat max_host_event_position"
  shows "\<exists>recs s'. materialize_pending ps acc s = (Ok (acc @ recs), s')
    \<and> outbox_inv s'
    \<and> map pending_projection recs = ps
    \<and> map (\<lambda>r. unat (her_position r)) recs
        = [Suc (unat (si_last_host_event_position s))
           ..< Suc (unat (si_last_host_event_position s) + length ps)]
    \<and> bt_values (si_host_event_outbox_order s') = rest
    \<and> si_host_event_records s' = si_host_event_records s @ map (\<lambda>r. (her_position r, r)) recs
    \<and> (\<forall>k. k \<notin> pub_publication_key ` set ps
          \<longrightarrow> map_of (si_host_event_outbox s') k = map_of (si_host_event_outbox s) k)"
  using assms
proof (induction ps arbitrary: acc s)
  case Nil
  then show ?case by simp
next
  case (Cons p ps)
  let ?k = "pub_publication_key p"
  from Cons.prems(2) obtain n m where ord: "si_host_event_outbox_order s = (n, ?k) # m"
    and vals: "map pub_publication_key ps @ rest = bt_values m"
    by (cases "si_host_event_outbox_order s") (auto simp: bt_values_def)
  from Cons.prems(4) have "unat (si_last_host_event_position s) < unat max_host_event_position"
    by simp
  then obtain pos where pos: "next_host_event_number (si_last_host_event_position s) = Some pos"
    using next_host_event_number_Some by blast
  then have un: "unat pos = Suc (unat (si_last_host_event_position s))"
    by (simp add: next_host_event_number_gt)
  from Cons.prems(3) have pend: "map_of (si_host_event_outbox s) ?k = Some p" by simp
  have inv': "outbox_inv (materialize_new pos p s)"
    using Cons.prems(1) pos pend by (rule outbox_inv_materialize_new)
  have order': "si_host_event_outbox_order (materialize_new pos p s) = m"
    using Cons.prems(1) ord by (rule materialize_new_order)
  have "distinct (bt_values (si_host_event_outbox_order s))"
    using Cons.prems(1) by (simp add: outbox_inv_def queue_inv_distinct)
  then have fresh: "?k \<notin> pub_publication_key ` set ps"
    unfolding Cons.prems(2) [symmetric] by simp
  have pend': "\<forall>q \<in> set ps. map_of (si_host_event_outbox (materialize_new pos p s))
      (pub_publication_key q) = Some q"
  proof
    fix q assume "q \<in> set ps"
    then have "map_of (si_host_event_outbox s) (pub_publication_key q) = Some q"
      using Cons.prems(3) by (blast intro: list.set_intros(2))
    moreover have "pub_publication_key q \<noteq> ?k"
      using fresh \<open>q \<in> set ps\<close> by (metis imageI)
    ultimately show "map_of (si_host_event_outbox (materialize_new pos p s))
      (pub_publication_key q) = Some q" by simp
  qed
  have vals': "map pub_publication_key ps @ rest
      = bt_values (si_host_event_outbox_order (materialize_new pos p s))"
    using vals order' by simp
  have bound: "unat (si_last_host_event_position (materialize_new pos p s)) + length ps
      \<le> unat max_host_event_position"
    using un Cons.prems(4) by simp
  obtain recs s' where IH: "materialize_pending ps (acc @ [host_event_from_pending pos p])
        (materialize_new pos p s) = (Ok ((acc @ [host_event_from_pending pos p]) @ recs), s')"
      "outbox_inv s'" "map pending_projection recs = ps"
      "map (\<lambda>r. unat (her_position r)) recs = [Suc (unat pos) ..< Suc (unat pos + length ps)]"
      "bt_values (si_host_event_outbox_order s') = rest"
      "si_host_event_records s' = si_host_event_records (materialize_new pos p s)
         @ map (\<lambda>r. (her_position r, r)) recs"
      "\<forall>k. k \<notin> pub_publication_key ` set ps
         \<longrightarrow> map_of (si_host_event_outbox s') k
             = map_of (bt_remove (pub_publication_key p) (si_host_event_outbox s)) k"
    using Cons.IH [OF inv' vals' pend' bound, of "acc @ [host_event_from_pending pos p]"]
    unfolding materialize_new_simps by blast
  have "map_of (si_host_event_positions s) ?k = None"
    using Cons.prems(1) pend by (auto simp: outbox_inv_def identity_inv_def)
  with pos IH(1) have "materialize_pending (p # ps) acc s
      = (Ok (acc @ host_event_from_pending pos p # recs), s')" by simp
  moreover have "si_host_event_records (materialize_new pos p s)
      = si_host_event_records s @ [(pos, host_event_from_pending pos p)]"
    using Cons.prems(1) pos by (intro materialize_new_records) (simp_all add: outbox_inv_def)
  ultimately show ?case
    using IH un
    by (intro exI [of _ "host_event_from_pending pos p # recs"] exI [of _ s'])
       (simp add: upt_conv_Cons del: upt_Suc)
qed

lemma validate_batch_limit_ok:
  "validate_batch_limit limit = Ok () \<longleftrightarrow> 1 \<le> limit \<and> limit \<le> max_host_event_page_size"
  by (simp add: validate_batch_limit_def)

lemma materialize_batch_spec:
  assumes inv: "outbox_inv s" and lim: "1 \<le> limit" "limit \<le> max_host_event_page_size"
    and room: "unat (si_last_host_event_position s) + unat limit \<le> unat max_host_event_position"
  shows "\<exists>ps recs s'. pending_host_event_publication_batch limit s = Ok ps
    \<and> materialize_host_event_publication_batch limit s = (Ok recs, s')
    \<and> outbox_inv s'
    \<and> map pending_projection recs = ps
    \<and> map (\<lambda>r. unat (her_position r)) recs
        = [Suc (unat (si_last_host_event_position s))
           ..< Suc (unat (si_last_host_event_position s) + length ps)]
    \<and> map pub_publication_key ps
        = take (unat limit) (bt_values (si_host_event_outbox_order s))
    \<and> bt_values (si_host_event_outbox_order s')
        = drop (unat limit) (bt_values (si_host_event_outbox_order s))
    \<and> si_host_event_records s' = si_host_event_records s @ map (\<lambda>r. (her_position r, r)) recs
    \<and> (\<forall>k. k \<notin> pub_publication_key ` set ps
          \<longrightarrow> map_of (si_host_event_outbox s') k = map_of (si_host_event_outbox s) k)"
proof -
  let ?q = "bt_values (si_host_event_outbox_order s)"
  have lim': "validate_batch_limit limit = Ok ()"
    using lim by (simp add: validate_batch_limit_ok)
  obtain ps where ps: "pending_in_order s (unat limit) = Ok ps"
      "map pub_publication_key ps = take (unat limit) ?q"
      "\<forall>p \<in> set ps. map_of (si_host_event_outbox s) (pub_publication_key p) = Some p"
    using pending_in_order_ok [OF inv, of "unat limit"] by blast
  have "length ps = length (take (unat limit) ?q)"
    unfolding ps(2) [symmetric] by simp
  then have "unat (si_last_host_event_position s) + length ps \<le> unat max_host_event_position"
    using room by simp
  moreover have "map pub_publication_key ps @ drop (unat limit) ?q = ?q"
    unfolding ps(2) by simp
  ultimately obtain recs s' where R: "materialize_pending ps [] s = (Ok ([] @ recs), s')"
      "outbox_inv s'" "map pending_projection recs = ps"
      "map (\<lambda>r. unat (her_position r)) recs
        = [Suc (unat (si_last_host_event_position s))
           ..< Suc (unat (si_last_host_event_position s) + length ps)]"
      "bt_values (si_host_event_outbox_order s') = drop (unat limit) ?q"
      "si_host_event_records s' = si_host_event_records s @ map (\<lambda>r. (her_position r, r)) recs"
      "\<forall>k. k \<notin> pub_publication_key ` set ps
          \<longrightarrow> map_of (si_host_event_outbox s') k = map_of (si_host_event_outbox s) k"
    using materialize_pending_spec [OF inv _ ps(3)] by blast
  have "materialize_host_event_publication_batch limit s = (Ok recs, s')"
    using lim' ps(1) R(1) by (simp add: materialize_host_event_publication_batch_def staged_def)
  moreover have "pending_host_event_publication_batch limit s = Ok ps"
    using lim' ps(1) by (simp add: pending_host_event_publication_batch_def)
  ultimately show ?thesis using R ps(2) by blast
qed

text \<open>Materialization keeps the invariant also when the position space runs out.\<close>

lemma materialize_pending_inv:
  assumes "outbox_inv s" and "\<forall>p \<in> set ps. map_of (si_host_event_outbox s) (pub_publication_key p) = Some p"
    and "distinct (map pub_publication_key ps)"
  shows "outbox_inv (snd (materialize_pending ps acc s))"
  using assms
proof (induction ps arbitrary: acc s)
  case (Cons p ps)
  have pend: "map_of (si_host_event_outbox s) (pub_publication_key p) = Some p"
    using Cons.prems(2) by simp
  have fresh: "map_of (si_host_event_positions s) (pub_publication_key p) = None"
    using Cons.prems(1) pend by (auto simp: outbox_inv_def identity_inv_def)
  show ?case
  proof (cases "next_host_event_number (si_last_host_event_position s)")
    case None
    with fresh Cons.prems(1) show ?thesis by simp
  next
    case (Some pos)
    have "outbox_inv (materialize_new pos p s)"
      using Cons.prems(1) Some pend by (rule outbox_inv_materialize_new)
    moreover have "\<forall>q \<in> set ps. map_of (si_host_event_outbox (materialize_new pos p s))
        (pub_publication_key q) = Some q"
    proof
      fix q
      assume q: "q \<in> set ps"
      then have "map_of (si_host_event_outbox s) (pub_publication_key q) = Some q"
        using Cons.prems(2) by (blast intro: list.set_intros(2))
      moreover have "pub_publication_key q \<noteq> pub_publication_key p"
        using Cons.prems(3) q by (metis distinct.simps(2) image_eqI list.map(2) list.set_map)
      ultimately show "map_of (si_host_event_outbox (materialize_new pos p s))
          (pub_publication_key q) = Some q" by simp
    qed
    moreover have "distinct (map pub_publication_key ps)" using Cons.prems(3) by simp
    ultimately show ?thesis
      using Cons.IH [of "materialize_new pos p s"] Some fresh by simp
  qed
qed simp

lemma materialize_batch_inv:
  assumes "outbox_inv s"
  shows "outbox_inv (snd (materialize_host_event_publication_batch limit s))"
proof -
  obtain ps where ps: "pending_in_order s (unat limit) = Ok ps"
      "map pub_publication_key ps = take (unat limit) (bt_values (si_host_event_outbox_order s))"
      "\<forall>p \<in> set ps. map_of (si_host_event_outbox s) (pub_publication_key p) = Some p"
    using pending_in_order_ok [OF assms, of "unat limit"] by blast
  have "distinct (map pub_publication_key ps)"
    unfolding ps(2) using assms by (simp add: outbox_inv_def queue_inv_distinct distinct_take)
  with materialize_pending_inv [OF assms ps(3)] assms ps(1) show ?thesis
    by (auto simp: materialize_host_event_publication_batch_def staged_def split: result.split prod.split)
       (metis snd_conv)
qed

end
