(* ===== verification/Store_Admission.thy ===== *)
theory Store_Admission
  imports Store_Runs Store_Outbox
begin

text \<open>
  Run admission (\<open>acquire_run_admission_locked\<close> and the admission methods of
  \<open>starweaver-session/src/store/memory.rs\<close>): one live lease per session, fencing generations,
  idempotent receipts, heartbeats, fenced status updates, finalization, and the recovery of
  expired leases. \<open>Utc::now()\<close> is an argument; an operation that reads the clock more than once
  has one argument per read.
\<close>

section \<open>Messages\<close>

definition msg_replacement_shape :: string where
  "msg_replacement_shape = ''waiting-run replacement requires exactly one preflight HITL claim''"

definition msg_active_run :: "session_id \<Rightarrow> run_id \<Rightarrow> string" where
  "msg_active_run sid rid = ''session '' @ sid @ '' already has active run '' @ rid"

definition msg_cannot_admit :: string where
  "msg_cannot_admit = ''session cannot admit new work''"

definition msg_no_waiting_source :: string where
  "msg_no_waiting_source = ''waiting-run replacement has no retryable waiting source''"

definition msg_claim_for :: "run_id \<Rightarrow> string" where
  "msg_claim_for rid = ''resume claim for '' @ rid"

definition msg_invalid_preflight_claim :: "run_id \<Rightarrow> string" where
  "msg_invalid_preflight_claim rid = ''invalid preflight resume claim for run '' @ rid"

definition msg_invalid_admitted_state :: "run_id \<Rightarrow> run_terminal_projection_error \<Rightarrow> string" where
  "msg_invalid_admitted_state rid e =
     ''invalid admitted run state for '' @ rid @ '': '' @ projection_error_to_string e"

definition msg_preflight_disappeared :: string where
  "msg_preflight_disappeared = ''validated preflight resume claim disappeared''"

definition msg_fenced_nonterminal :: string where
  "msg_fenced_nonterminal =
     ''fenced status updates are non-terminal; use finalize_run_admission''"

definition msg_finalize_active :: string where
  "msg_finalize_active = ''run admission can only finalize to a non-active status''"

section \<open>Acquiring an admission\<close>

definition lease_session_key :: "run_admission_lease \<Rightarrow> managed_session_target" where
  "lease_session_key lease =
     managed_session_target_new (rt_namespace_id (lease_target lease))
       (rt_session_id (lease_target lease))"

definition lease_run_key :: "run_admission_lease \<Rightarrow> run_key_t" where
  "lease_run_key lease =
     run_key (rt_session_id (lease_target lease)) (rt_run_id (lease_target lease))"

definition lease_run_label :: "run_admission_lease \<Rightarrow> string" where
  "lease_run_label lease =
     run_key_label (rt_session_id (lease_target lease)) (rt_run_id (lease_target lease))"

text \<open>
  Interruption of the run of an expired lease: its waiting source is settled first, then the run
  is cancelled with the expiry diagnostic, and marked indeterminate when its effect had started.
\<close>

definition cancel_admitted_run ::
    "run_admission_lease \<Rightarrow> datetime \<Rightarrow> bool \<Rightarrow> run_record store_op" where
  "cancel_admitted_run lease now effect_started s =
     (case map_of (si_runs s) (lease_run_key lease) of
        None \<Rightarrow> (Err (NotFound (lease_run_label lease)), s)
      | Some run \<Rightarrow>
          let run1 = interrupt_expired_run run in
          (case advance_run_revision run1 of
             Err e \<Rightarrow> (Err e, s\<lparr>si_runs := bt_insert (lease_run_key lease) run1 (si_runs s)\<rparr>)
           | Panic \<Rightarrow> (Panic, s)
           | Ok run2 \<Rightarrow>
               let run3 = run2\<lparr>rr_updated_at := now\<rparr>;
                   run4 = (if effect_started
                           then run3\<lparr>rr_metadata := continuation_effect_insert_into
                                  continuation_effect_indeterminate (rr_metadata run3)\<rparr>
                           else run3)
               in (Ok run4, s\<lparr>si_runs := bt_insert (lease_run_key lease) run4 (si_runs s)\<rparr>)))"

definition interrupt_admitted_run ::
    "run_admission_lease \<Rightarrow> run_record \<Rightarrow> datetime \<Rightarrow> run_record store_op" where
  "interrupt_admitted_run lease replacement now =
     op_bind (terminalize_started_hitl_source_locked replacement now)
       (cancel_admitted_run lease now)"

definition interrupt_if_active ::
    "run_admission_lease \<Rightarrow> run_record \<Rightarrow> datetime \<Rightarrow> unit store_op" where
  "interrupt_if_active lease replacement now =
     (if run_status_is_active (rr_status replacement)
      then op_bind (interrupt_admitted_run lease replacement now) (\<lambda>_. op_lift (Ok ()))
      else op_lift (Ok ()))"

definition clear_active_run :: "run_id \<Rightarrow> session_record \<Rightarrow> session_record" where
  "clear_active_run rid r =
     (if sr_active_run_id r = Some rid then r\<lparr>sr_active_run_id := None\<rparr> else r)"

definition displace_expired_admission ::
    "managed_session_target \<Rightarrow> session_id \<Rightarrow> datetime \<Rightarrow> unit store_op" where
  "displace_expired_admission target sid now s =
     (case map_of (si_run_admissions s) target of
        None \<Rightarrow> (Ok (), s)
      | Some active \<Rightarrow>
          if \<not> lease_expired_at active now
          then (Err (RunConflict (msg_active_run sid (rt_run_id (lease_target active)))), s)
          else
            case map_of (si_runs s) (lease_run_key active) of
              None \<Rightarrow> (Err (NotFound (lease_run_label active)), s)
            | Some replacement \<Rightarrow>
                op_bind (interrupt_if_active active replacement now)
                  (\<lambda>_ s1.
                     (Ok (), session_modify sid
                        (clear_active_run (rt_run_id (lease_target active)))
                        (s1\<lparr>si_run_admissions := bt_remove target (si_run_admissions s1)\<rparr>)))
                  s)"

definition waiting_source :: "store_inner \<Rightarrow> session_id \<Rightarrow> run_id \<Rightarrow> bool" where
  "waiting_source s sid rid \<longleftrightarrow>
     (case map_of (si_runs s) (run_key sid rid) of
        None \<Rightarrow> False
      | Some source \<Rightarrow> rr_status source = StWaiting)"

definition check_session_admits ::
    "acquire_run_admission_req \<Rightarrow> store_inner \<Rightarrow> unit store_result" where
  "check_session_admits req s =
     (let sid = rr_session_id (acq_run req) in
      case map_of (si_sessions s) sid of
        None \<Rightarrow> Err (NotFound sid)
      | Some session \<Rightarrow>
          if sr_namespace_id session \<noteq> acq_namespace_id req then Err (NotFound sid)
          else if sr_status session \<noteq> SessActive \<or> blocks_continuation (sr_deletion_fence session)
          then Err (Conflict msg_cannot_admit)
          else
            (case sr_active_run_id session of
               Some active \<Rightarrow>
                 if acq_replaces_waiting_run_id req = Some active
                    \<and> rr_restore_from_run_id (acq_run req) = Some active
                    \<and> waiting_source s sid active
                 then Ok ()
                 else Err (RunConflict (msg_active_run sid active))
             | None \<Rightarrow>
                 (case acq_replaces_waiting_run_id req of
                    None \<Rightarrow> Ok ()
                  | Some source \<Rightarrow>
                      if rr_restore_from_run_id (acq_run req) = Some source
                         \<and> waiting_source s sid source
                      then Ok ()
                      else Err (Conflict msg_no_waiting_source))))"

definition preflight_claim_key ::
    "acquire_run_admission_req \<Rightarrow> store_inner \<Rightarrow> run_key_t option store_result" where
  "preflight_claim_key req s =
     (let sid = rr_session_id (acq_run req) in
      case (acq_replaces_waiting_run_id req, acq_hitl_resume_claim_id req) of
        (Some source, Some claim_id) \<Rightarrow>
          let key = run_key sid source in
          (case map_of (si_hitl_resume_claims s) key of
             None \<Rightarrow> Err (NotFound (msg_claim_for source))
           | Some claim \<Rightarrow>
               if claim_claim_id claim \<noteq> claim_id
                  \<or> claim_session_id claim \<noteq> sid
                  \<or> claim_run_id claim \<noteq> source
                  \<or> claim_state claim \<noteq> Preflight
               then Err (Conflict (msg_invalid_preflight_claim source))
               else Ok (Some key))
      | (None, None) \<Rightarrow> Ok None
      | _ \<Rightarrow> Panic)"

definition prepare_admitted_run ::
    "acquire_run_admission_req \<Rightarrow> store_inner \<Rightarrow> run_record store_result" where
  "prepare_admitted_run req s =
     (let run = (run_normalize_for_admission (acq_run req))\<lparr>rr_revision := 1\<rparr> in
      case run_validate_new_write run of
        Err e \<Rightarrow> Err (StoreFailed (msg_invalid_admitted_state (rr_run_id run) e))
      | Panic \<Rightarrow> Panic
      | Ok _ \<Rightarrow> prepare_new_run_record s run)"

definition next_generation :: "managed_session_target \<Rightarrow> store_inner \<Rightarrow> u64" where
  "next_generation target s =
     (case map_of (si_admission_generations s) target of
        None \<Rightarrow> 1
      | Some g \<Rightarrow> u64_saturating_add g 1)"

definition admit_claim :: "run_key_t option \<Rightarrow> unit store_op" where
  "admit_claim key s =
     (case key of
        None \<Rightarrow> (Ok (), s)
      | Some k \<Rightarrow>
          (case map_of (si_hitl_resume_claims s) k of
             None \<Rightarrow> (Err (Conflict msg_preflight_disappeared), s)
           | Some claim \<Rightarrow>
               (Ok (), s\<lparr>si_hitl_resume_claims :=
                  bt_insert k (claim\<lparr>claim_state := Admitted\<rparr>) (si_hitl_resume_claims s)\<rparr>)))"

definition note_admitted :: "run_id \<Rightarrow> datetime \<Rightarrow> session_record \<Rightarrow> session_record" where
  "note_admitted rid now r =
     r\<lparr>sr_head_run_id := Some rid, sr_active_run_id := Some rid,
       sr_revision := u64_saturating_add (sr_revision r) 1, sr_updated_at := now\<rparr>"

definition admitted_lease ::
    "acquire_run_admission_req \<Rightarrow> u64 \<Rightarrow> run_record \<Rightarrow> datetime \<Rightarrow> run_admission_lease" where
  "admitted_lease req generation run now =
     \<lparr>lease_target = managed_run_target_new (acq_namespace_id req) (rr_session_id run) (rr_run_id run),
      lease_admission_id = acq_admission_id req,
      lease_host_instance_id = acq_host_instance_id req,
      lease_fencing_generation = generation,
      lease_lease_expires_at = acq_lease_expires_at req,
      lease_heartbeat_at = now,
      lease_command_fingerprint = acq_command_fingerprint req,
      lease_idempotency_key = acq_idempotency_key req\<rparr>"

definition commit_admission ::
    "acquire_run_admission_req \<Rightarrow> run_record \<Rightarrow> datetime \<Rightarrow> run_admission_receipt store_op" where
  "commit_admission req prepared now s =
     (let run = prepared\<lparr>rr_updated_at := now\<rparr>;
          target = managed_session_target_new (acq_namespace_id req) (rr_session_id (acq_run req));
          generation = next_generation target s;
          lease = admitted_lease req generation run now;
          s1 = insert_prepared_run_record run
                 (s\<lparr>si_admission_generations :=
                      bt_insert target generation (si_admission_generations s)\<rparr>)
      in case map_of (si_sessions s1) (rr_session_id run) of
           None \<Rightarrow> (Err (NotFound (rr_session_id run)), s1)
         | Some session \<Rightarrow>
             let receipt = \<lparr>rar_run = run, rar_lease = lease, rar_idempotent_replay = False\<rparr>
             in (Ok receipt,
                 s1\<lparr>si_sessions := bt_insert (rr_session_id run)
                      (note_admitted (rr_run_id run) now session) (si_sessions s1),
                    si_run_admissions := bt_insert target lease (si_run_admissions s1),
                    si_run_admission_idempotency :=
                      bt_insert (acq_namespace_id req, acq_idempotency_key req)
                        (acq_command_fingerprint req, receipt)
                        (si_run_admission_idempotency s1)\<rparr>))"

definition acquire_run_admission_locked ::
    "datetime \<Rightarrow> acquire_run_admission_req \<Rightarrow> run_admission_receipt store_op" where
  "acquire_run_admission_locked now req s =
     (case map_of (si_run_admission_idempotency s)
             (acq_namespace_id req, acq_idempotency_key req) of
        Some (fingerprint, receipt) \<Rightarrow>
          if fingerprint = acq_command_fingerprint req
          then (Ok (receipt\<lparr>rar_idempotent_replay := True\<rparr>), s)
          else (Err (IdempotencyConflict (acq_idempotency_key req)), s)
      | None \<Rightarrow>
          if (acq_replaces_waiting_run_id req \<noteq> None) \<noteq> (acq_hitl_resume_claim_id req \<noteq> None)
          then (Err (Conflict msg_replacement_shape), s)
          else
            op_bind
              (displace_expired_admission
                 (managed_session_target_new (acq_namespace_id req) (rr_session_id (acq_run req)))
                 (rr_session_id (acq_run req)) now)
              (\<lambda>_ s1. op_bind (op_lift (check_session_admits req s1))
              (\<lambda>_. op_bind (op_lift (preflight_claim_key req s1))
              (\<lambda>key. op_bind (op_lift (prepare_admitted_run req s1))
              (\<lambda>run. op_bind (admit_claim key)
              (\<lambda>_. commit_admission req run now)))) s1)
              s)"

definition acquire_run_admission ::
    "datetime \<Rightarrow> acquire_run_admission_req \<Rightarrow> run_admission_receipt store_op" where
  "acquire_run_admission now req = staged (acquire_run_admission_locked now req)"

definition load_run_admission_receipt ::
    "string \<Rightarrow> string \<Rightarrow> string \<Rightarrow> store_inner \<Rightarrow> run_admission_receipt option store_result" where
  "load_run_admission_receipt ns key fp s =
     (case map_of (si_run_admission_idempotency s) (ns, key) of
        None \<Rightarrow> Ok None
      | Some (fingerprint, receipt) \<Rightarrow>
          if fingerprint \<noteq> fp then Err (IdempotencyConflict key)
          else Ok (Some (receipt\<lparr>rar_idempotent_replay := True\<rparr>)))"

section \<open>Operating under a lease\<close>

definition stale_owner :: "run_admission_lease \<Rightarrow> run_admission_lease \<Rightarrow> datetime \<Rightarrow> bool" where
  "stale_owner current lease now \<longleftrightarrow>
     lease_admission_id current \<noteq> lease_admission_id lease
     \<or> lease_host_instance_id current \<noteq> lease_host_instance_id lease
     \<or> lease_fencing_generation current \<noteq> lease_fencing_generation lease
     \<or> lease_target current \<noteq> lease_target lease
     \<or> lease_expired_at current now"

definition heartbeat_run_admission ::
    "datetime \<Rightarrow> datetime \<Rightarrow> run_admission_lease \<Rightarrow> datetime \<Rightarrow> run_admission_lease store_op" where
  "heartbeat_run_admission t_check t_write lease expires_at s =
     (case map_of (si_run_admissions s) (lease_session_key lease) of
        None \<Rightarrow> (Err (NotFound (lease_admission_id lease)), s)
      | Some current \<Rightarrow>
          if stale_owner current lease t_check
          then (Err (Conflict msg_stale_admission_owner), s)
          else
            let current' = current\<lparr>lease_heartbeat_at := t_write,
                                   lease_lease_expires_at := expires_at\<rparr>
            in (Ok current',
                s\<lparr>si_run_admissions :=
                    bt_insert (lease_session_key lease) current' (si_run_admissions s)\<rparr>))"

definition release_run_admission :: "datetime \<Rightarrow> run_admission_lease \<Rightarrow> unit store_op" where
  "release_run_admission now lease s =
     (case map_of (si_run_admissions s) (lease_session_key lease) of
        None \<Rightarrow> (Ok (), s)
      | Some current \<Rightarrow>
          if stale_owner current lease now
          then (Err (Conflict msg_stale_admission_owner), s)
          else (Ok (), s\<lparr>si_run_admissions :=
                 bt_remove (lease_session_key lease) (si_run_admissions s)\<rparr>))"

definition update_run_status_fenced ::
    "datetime \<Rightarrow> datetime \<Rightarrow> run_admission_lease \<Rightarrow> run_status \<Rightarrow> string option
     \<Rightarrow> run_record store_op" where
  "update_run_status_fenced t_check t_write lease status preview s =
     (if \<not> run_status_is_active status then (Err (Conflict msg_fenced_nonterminal), s)
      else op_bind (op_lift (ensure_active_admission_locked s lease t_check))
             (\<lambda>_. apply_run_status_locked (rt_session_id (lease_target lease))
                (rt_run_id (lease_target lease)) status preview None t_write) s)"

definition finalize_identity :: "run_admission_lease \<Rightarrow> run_record \<Rightarrow> string" where
  "finalize_identity lease run =
     ''run-admission-finalize:'' @ lease_admission_id lease @ '':''
     @ u64_to_string (lease_fencing_generation lease) @ '':'' @ u64_to_string (rr_revision run)"

definition publish_authoritative :: "host_env \<Rightarrow> string \<Rightarrow> run_record list \<Rightarrow> unit store_op" where
  "publish_authoritative env identity runs =
     op_bind (op_lift (append_authoritative_run_publications env [] identity runs))
       (enqueue_host_event_publications_locked env)"

definition finalize_outcome ::
    "datetime \<Rightarrow> run_admission_lease \<Rightarrow> run_terminal_projection \<Rightarrow> run_record
     \<Rightarrow> (run_record \<times> bool) store_op" where
  "finalize_outcome t_write lease terminal committed =
     (if run_status_is_terminal (rr_status committed) then op_lift (Ok (committed, False))
      else
        op_bind
          (op_lift (case terminal_projection_validate terminal of
              Ok _ \<Rightarrow> Ok ()
            | Err e \<Rightarrow> Err (Conflict (projection_error_to_string e))
            | Panic \<Rightarrow> Panic))
          (\<lambda>_. op_bind
             (apply_run_status_locked (rt_session_id (lease_target lease))
                (rt_run_id (lease_target lease)) (tp_status terminal)
                (tp_output_preview terminal) (tp_error terminal) t_write)
             (\<lambda>run. op_lift (Ok (run, True)))))"

definition publish_if_changed ::
    "host_env \<Rightarrow> run_admission_lease \<Rightarrow> run_record \<Rightarrow> bool \<Rightarrow> unit store_op" where
  "publish_if_changed env lease run changed =
     (if changed then publish_authoritative env (finalize_identity lease run) [run]
      else op_lift (Ok ()))"

text \<open>
  The part of \<open>finalize_run_admission\<close> that runs on the clone. Evidence that is already
  terminal is authoritative and only the lease is released.
\<close>

definition finalize_staged ::
    "host_env \<Rightarrow> datetime \<Rightarrow> datetime \<Rightarrow> run_admission_lease \<Rightarrow> run_terminal_projection
     \<Rightarrow> run_record store_op" where
  "finalize_staged env t_write t_reconcile lease terminal s =
     (case map_of (si_runs s) (lease_run_key lease) of
        None \<Rightarrow> (Err (NotFound (lease_run_label lease)), s)
      | Some committed \<Rightarrow>
          op_bind (finalize_outcome t_write lease terminal committed)
            (\<lambda>(run, changed).
               op_bind (publish_if_changed env lease run changed)
                 (\<lambda>_. op_bind (reconcile_run_control_intents_locked lease t_reconcile)
                 (\<lambda>_ s2. (Ok run, s2\<lparr>si_run_admissions :=
                    bt_remove (lease_session_key lease) (si_run_admissions s2)\<rparr>))))
            s)"

definition finalize_run_admission ::
    "host_env \<Rightarrow> datetime \<Rightarrow> datetime \<Rightarrow> datetime \<Rightarrow> run_admission_lease
     \<Rightarrow> run_terminal_projection \<Rightarrow> run_record store_op" where
  "finalize_run_admission env t_check t_write t_reconcile lease terminal s =
     (if run_status_is_active (tp_status terminal) then (Err (Conflict msg_finalize_active), s)
      else if \<not> bt_contains (si_run_admissions s) (lease_session_key lease) then
        (case map_of (si_runs s) (lease_run_key lease) of
           None \<Rightarrow> (Err (NotFound (lease_run_label lease)), s)
         | Some run \<Rightarrow>
             if terminal_projection_matches terminal run then (Ok run, s)
             else (Err (Conflict msg_stale_admission_owner), s))
      else
        op_bind (op_lift (ensure_active_admission_locked s lease t_check))
          (\<lambda>_. staged (finalize_staged env t_write t_reconcile lease terminal)) s)"

definition load_run_admission ::
    "managed_run_target \<Rightarrow> store_inner \<Rightarrow> run_admission_lease option store_result" where
  "load_run_admission target s =
     Ok (case map_of (si_run_admissions s)
                (managed_session_target_new (rt_namespace_id target) (rt_session_id target)) of
           None \<Rightarrow> None
         | Some lease \<Rightarrow> if lease_target lease = target then Some lease else None)"

definition session_continuation_fence_of ::
    "string \<Rightarrow> session_id \<Rightarrow> store_inner \<Rightarrow> session_continuation_fence store_result" where
  "session_continuation_fence_of ns sid s =
     (case map_of (si_sessions s) sid of
        None \<Rightarrow> Err (NotFound sid)
      | Some session \<Rightarrow>
          if sr_namespace_id session \<noteq> ns then Err (NotFound sid)
          else Ok \<lparr>cf_target = managed_session_target_new ns sid,
                   cf_revision = sr_revision session,
                   cf_continuation_allowed =
                     (\<not> blocks_continuation (sr_deletion_fence session)
                      \<and> sr_status session \<noteq> SessDeleted),
                   cf_fence_id =
                     (case sr_deletion_fence session of
                        Stable \<Rightarrow> None
                      | Deleting fid _ _ _ \<Rightarrow> Some fid
                      | Deleted fid _ \<Rightarrow> Some fid)\<rparr>)"

section \<open>Recovery of expired leases\<close>

definition expired_identity :: "run_admission_lease \<Rightarrow> string" where
  "expired_identity lease =
     ''run-admission-expired:'' @ lease_admission_id lease @ '':''
     @ u64_to_string (lease_fencing_generation lease)"

definition note_expired :: "run_id \<Rightarrow> datetime \<Rightarrow> session_record \<Rightarrow> session_record" where
  "note_expired rid now r =
     (let r1 = clear_active_run rid r
      in r1\<lparr>sr_revision := u64_saturating_add (sr_revision r1) 1, sr_updated_at := now\<rparr>)"

definition interrupted_source ::
    "run_admission_lease \<Rightarrow> run_record \<Rightarrow> bool \<Rightarrow> store_inner \<Rightarrow> run_record list" where
  "interrupted_source lease replacement effect_started s =
     (if effect_started then
        (case rr_restore_from_run_id replacement of
           None \<Rightarrow> []
         | Some source \<Rightarrow>
             (case map_of (si_runs s) (run_key (rt_session_id (lease_target lease)) source) of
                None \<Rightarrow> []
              | Some r \<Rightarrow> [r]))
      else [])"

text \<open>
  Recovery of one expired lease. The interrupted source is read before the run of the lease is
  written, and published before it.
\<close>

definition expire_admitted_run ::
    "host_env \<Rightarrow> run_admission_lease \<Rightarrow> run_record \<Rightarrow> datetime \<Rightarrow> unit store_op" where
  "expire_admitted_run env lease replacement now =
     op_bind (terminalize_started_hitl_source_locked replacement now)
       (\<lambda>effect_started s1.
          op_bind (cancel_admitted_run lease now effect_started)
            (\<lambda>run. publish_authoritative env (expired_identity lease)
               (interrupted_source lease replacement effect_started s1 @ [run]))
            s1)"

definition expire_if_active ::
    "host_env \<Rightarrow> run_admission_lease \<Rightarrow> run_record \<Rightarrow> datetime \<Rightarrow> unit store_op" where
  "expire_if_active env lease replacement now =
     (if run_status_is_active (rr_status replacement)
      then expire_admitted_run env lease replacement now
      else op_lift (Ok ()))"

definition reconcile_expired_one ::
    "host_env \<Rightarrow> datetime \<Rightarrow> managed_session_target \<times> run_admission_lease \<Rightarrow> unit store_op" where
  "reconcile_expired_one env now = (\<lambda>(session_target, lease) s.
     case map_of (si_runs s) (lease_run_key lease) of
       None \<Rightarrow> (Err (NotFound (lease_run_label lease)), s)
     | Some replacement \<Rightarrow>
         op_bind (expire_if_active env lease replacement now)
           (\<lambda>_ s1. op_bind (reconcile_run_control_intents_locked lease now)
              (\<lambda>_ s2. (Ok (), s2\<lparr>si_run_admissions :=
                 bt_remove session_target (si_run_admissions s2)\<rparr>))
              (session_modify (rt_session_id (lease_target lease))
                 (note_expired (rt_run_id (lease_target lease)) now) s1))
           s)"

fun reconcile_expired_list ::
    "host_env \<Rightarrow> datetime \<Rightarrow> (managed_session_target \<times> run_admission_lease) list
     \<Rightarrow> unit store_op" where
  "reconcile_expired_list env now [] = op_lift (Ok ())"
| "reconcile_expired_list env now (e # es) =
     op_bind (reconcile_expired_one env now e) (\<lambda>_. reconcile_expired_list env now es)"

definition expired_admissions ::
    "string \<Rightarrow> datetime \<Rightarrow> store_inner \<Rightarrow> (managed_session_target \<times> run_admission_lease) list" where
  "expired_admissions ns now s =
     filter (\<lambda>(target, lease). st_namespace_id target = ns \<and> lease_expired_at lease now)
       (si_run_admissions s)"

definition reconcile_expired_run_admissions ::
    "host_env \<Rightarrow> string \<Rightarrow> datetime \<Rightarrow> managed_run_target list store_op" where
  "reconcile_expired_run_admissions env ns now =
     staged (\<lambda>s. op_bind (reconcile_expired_list env now (expired_admissions ns now s))
       (\<lambda>_. op_lift (Ok (map (\<lambda>(_, lease). lease_target lease) (expired_admissions ns now s)))) s)"

section \<open>Frames of the shared helpers\<close>

lemma session_modify_frame [simp]:
  "si_runs (session_modify sid f s) = si_runs s"
  "si_run_sequences (session_modify sid f s) = si_run_sequences s"
  "si_hitl_resume_claims (session_modify sid f s) = si_hitl_resume_claims s"
  "si_host_event_outbox (session_modify sid f s) = si_host_event_outbox s"
  "si_host_event_outbox_order (session_modify sid f s) = si_host_event_outbox_order s"
  "si_host_event_outbox_sequences (session_modify sid f s) = si_host_event_outbox_sequences s"
  "si_last_host_event_outbox_sequence (session_modify sid f s) = si_last_host_event_outbox_sequence s"
  "si_host_event_records (session_modify sid f s) = si_host_event_records s"
  "si_host_event_positions (session_modify sid f s) = si_host_event_positions s"
  "si_host_event_ids (session_modify sid f s) = si_host_event_ids s"
  "si_last_host_event_position (session_modify sid f s) = si_last_host_event_position s"
  "si_session_idempotency (session_modify sid f s) = si_session_idempotency s"
  "si_run_admission_idempotency (session_modify sid f s) = si_run_admission_idempotency s"
  "si_run_admissions (session_modify sid f s) = si_run_admissions s"
  "si_admission_generations (session_modify sid f s) = si_admission_generations s"
  "si_control_receipts (session_modify sid f s) = si_control_receipts s"
  "si_control_idempotency (session_modify sid f s) = si_control_idempotency s"
  "si_run_control_intents (session_modify sid f s) = si_run_control_intents s"
  "si_run_control_authority_keys (session_modify sid f s) = si_run_control_authority_keys s"
  "si_background_subagents (session_modify sid f s) = si_background_subagents s"
  "si_background_artifacts (session_modify sid f s) = si_background_artifacts s"
  "si_background_terminal_fingerprints (session_modify sid f s) = si_background_terminal_fingerprints s"
  by (simp_all add: session_modify_def split: option.splits)

text \<open>
  The record part of the store: what the run and status helpers may write. The rest of the state
  is compared through one projection.
\<close>

definition beside_records :: "store_inner \<Rightarrow> store_inner" where
  "beside_records s = s\<lparr>si_sessions := [], si_runs := [], si_run_sequences := [],
     si_hitl_resume_claims := []\<rparr>"

definition records_only :: "store_inner \<Rightarrow> store_inner \<Rightarrow> bool" where
  "records_only s s' \<longleftrightarrow> beside_records s' = beside_records s"

definition beside_outbox :: "store_inner \<Rightarrow> store_inner" where
  "beside_outbox s = s\<lparr>si_host_event_outbox := [], si_host_event_outbox_order := [],
     si_host_event_outbox_sequences := [], si_last_host_event_outbox_sequence := 0,
     si_host_event_records := [], si_host_event_positions := [], si_host_event_ids := [],
     si_last_host_event_position := 0\<rparr>"

definition outbox_only :: "store_inner \<Rightarrow> store_inner \<Rightarrow> bool" where
  "outbox_only s s' \<longleftrightarrow> beside_outbox s' = beside_outbox s"

definition beside_control :: "store_inner \<Rightarrow> store_inner" where
  "beside_control s = s\<lparr>si_control_receipts := [], si_control_idempotency := [],
     si_run_control_intents := [], si_run_control_authority_keys := []\<rparr>"

definition control_only :: "store_inner \<Rightarrow> store_inner \<Rightarrow> bool" where
  "control_only s s' \<longleftrightarrow> beside_control s' = beside_control s"

lemma records_onlyD:
  assumes "records_only s s'"
  shows "si_host_event_outbox s' = si_host_event_outbox s"
    "si_host_event_outbox_order s' = si_host_event_outbox_order s"
    "si_host_event_outbox_sequences s' = si_host_event_outbox_sequences s"
    "si_last_host_event_outbox_sequence s' = si_last_host_event_outbox_sequence s"
    "si_host_event_records s' = si_host_event_records s"
    "si_host_event_positions s' = si_host_event_positions s"
    "si_host_event_ids s' = si_host_event_ids s"
    "si_last_host_event_position s' = si_last_host_event_position s"
    "si_session_idempotency s' = si_session_idempotency s"
    "si_run_admission_idempotency s' = si_run_admission_idempotency s"
    "si_run_admissions s' = si_run_admissions s"
    "si_admission_generations s' = si_admission_generations s"
    "si_control_receipts s' = si_control_receipts s"
    "si_control_idempotency s' = si_control_idempotency s"
    "si_run_control_intents s' = si_run_control_intents s"
    "si_run_control_authority_keys s' = si_run_control_authority_keys s"
    "si_background_subagents s' = si_background_subagents s"
    "si_background_artifacts s' = si_background_artifacts s"
    "si_background_terminal_fingerprints s' = si_background_terminal_fingerprints s"
  using assms by (cases s; cases s'; simp add: records_only_def beside_records_def)+

lemma outbox_onlyD:
  assumes "outbox_only s s'"
  shows "si_sessions s' = si_sessions s" "si_runs s' = si_runs s"
    "si_run_sequences s' = si_run_sequences s"
    "si_hitl_resume_claims s' = si_hitl_resume_claims s"
    "si_session_idempotency s' = si_session_idempotency s"
    "si_run_admission_idempotency s' = si_run_admission_idempotency s"
    "si_run_admissions s' = si_run_admissions s"
    "si_admission_generations s' = si_admission_generations s"
    "si_control_receipts s' = si_control_receipts s"
    "si_control_idempotency s' = si_control_idempotency s"
    "si_run_control_intents s' = si_run_control_intents s"
    "si_run_control_authority_keys s' = si_run_control_authority_keys s"
    "si_background_subagents s' = si_background_subagents s"
    "si_background_artifacts s' = si_background_artifacts s"
    "si_background_terminal_fingerprints s' = si_background_terminal_fingerprints s"
  using assms by (cases s; cases s'; simp add: outbox_only_def beside_outbox_def)+

lemma control_onlyD:
  assumes "control_only s s'"
  shows "si_sessions s' = si_sessions s" "si_runs s' = si_runs s"
    "si_run_sequences s' = si_run_sequences s"
    "si_hitl_resume_claims s' = si_hitl_resume_claims s"
    "si_host_event_outbox s' = si_host_event_outbox s"
    "si_host_event_outbox_order s' = si_host_event_outbox_order s"
    "si_host_event_outbox_sequences s' = si_host_event_outbox_sequences s"
    "si_last_host_event_outbox_sequence s' = si_last_host_event_outbox_sequence s"
    "si_host_event_records s' = si_host_event_records s"
    "si_host_event_positions s' = si_host_event_positions s"
    "si_host_event_ids s' = si_host_event_ids s"
    "si_last_host_event_position s' = si_last_host_event_position s"
    "si_session_idempotency s' = si_session_idempotency s"
    "si_run_admission_idempotency s' = si_run_admission_idempotency s"
    "si_run_admissions s' = si_run_admissions s"
    "si_admission_generations s' = si_admission_generations s"
    "si_background_subagents s' = si_background_subagents s"
    "si_background_artifacts s' = si_background_artifacts s"
    "si_background_terminal_fingerprints s' = si_background_terminal_fingerprints s"
  using assms by (cases s; cases s'; simp add: control_only_def beside_control_def)+

lemma apply_run_status_records_only:
  "records_only s (snd (apply_run_status_locked sid rid st pv er t s))"
  by (auto simp: apply_run_status_locked_def records_only_def beside_records_def session_modify_def
      Let_def split: option.splits result.splits)

lemma mark_source_records_only:
  "records_only s (snd (mark_source_indeterminate k r now s))"
  by (auto simp: mark_source_indeterminate_def records_only_def beside_records_def Let_def
      split: result.splits)

lemma settle_source_records_only:
  "records_only s (snd (settle_source_claim k r c now s))"
proof -
  let ?m = "if claim_state c = Started then mark_source_indeterminate k r now else op_lift (Ok ())"
  have "records_only s (snd (?m s))"
    using mark_source_records_only by (simp add: op_lift_def records_only_def)
  then show ?thesis
    unfolding settle_source_claim_def op_bind_def
    by (cases "?m s"; cases "fst (?m s)")
       (simp_all add: records_only_def beside_records_def Let_def)
qed

lemma terminalize_records_only:
  "records_only s (snd (terminalize_started_hitl_source_locked r now s))"
proof -
  have "records_only s s" by (simp add: records_only_def)
  then show ?thesis
    using settle_source_records_only
    by (simp add: terminalize_started_hitl_source_locked_def Let_def split: option.split)
qed

lemma cancel_admitted_records_only:
  "records_only s (snd (cancel_admitted_run lease now eff s))"
  by (auto simp: cancel_admitted_run_def records_only_def beside_records_def Let_def
      split: option.splits result.splits)

lemma insert_publications_outbox_only: "outbox_only s (snd (insert_publications seen ps s))"
proof (induction seen ps s rule: insert_publications.induct)
  case (2 seen p ps s)
  have "outbox_only s (insert_publication n p s)" for n
    by (simp add: insert_publication_def outbox_only_def beside_outbox_def)
  with 2 show ?case
    by (auto simp: Let_def outbox_only_def split: option.splits)
qed (simp add: outbox_only_def)

lemma enqueue_outbox_only:
  "outbox_only s (snd (enqueue_host_event_publications_locked env pubs s))"
  using insert_publications_outbox_only
  by (auto simp: enqueue_host_event_publications_locked_def outbox_only_def split: result.splits)

lemma publish_outbox_only: "outbox_only s (snd (publish_authoritative env i runs s))"
  using enqueue_outbox_only
  by (auto simp: publish_authoritative_def op_bind_def op_lift_def outbox_only_def
      split: result.splits)

lemma reconcile_keys_control_only: "control_only s (snd (reconcile_control_keys t ks s))"
proof (induction t ks s rule: reconcile_control_keys.induct)
  case (2 t k ks s)
  then show ?case
    by (auto simp: control_only_def beside_control_def split: option.splits result.splits)
qed (simp add: control_only_def)

lemma reconcile_control_only: "control_only s (snd (reconcile_run_control_intents_locked l t s))"
  by (simp add: reconcile_run_control_intents_locked_def reconcile_keys_control_only)

section \<open>The admission invariant\<close>

text \<open>
  Every lease is stored under its own session, carries the newest generation issued for it, and
  belongs to a stored run; receipts are for leases whose generation has been issued.
\<close>

definition admissions_ok ::
    "(managed_session_target, run_admission_lease) btmap \<Rightarrow> (managed_session_target, u64) btmap
     \<Rightarrow> (run_key_t, run_record) btmap \<Rightarrow> bool" where
  "admissions_ok adm gens rs \<longleftrightarrow>
     bt_wf adm
     \<and> (\<forall>t l. map_of adm t = Some l
          \<longrightarrow> lease_session_key l = t
              \<and> map_of gens t = Some (lease_fencing_generation l)
              \<and> map_of rs (lease_run_key l) \<noteq> None)"

definition admission_inv :: "store_inner \<Rightarrow> bool" where
  "admission_inv s \<longleftrightarrow>
     record_inv s
     \<and> admissions_ok (si_run_admissions s) (si_admission_generations s) (si_runs s)"

lemma admission_inv_new: "admission_inv store_new"
  using record_inv_new by (simp add: admission_inv_def admissions_ok_def store_new_def)

text \<open>The run table may only grow, and only the newest lease of a session may be kept.\<close>

lemma admissions_ok_runs:
  "admissions_ok adm gens rs \<Longrightarrow> (\<And>k. map_of rs k \<noteq> None \<Longrightarrow> map_of rs' k \<noteq> None) \<Longrightarrow>
     admissions_ok adm gens rs'"
  unfolding admissions_ok_def by blast

lemma admissions_ok_remove:
  "admissions_ok adm gens rs \<Longrightarrow> admissions_ok (bt_remove t adm) gens rs"
  by (auto simp: admissions_ok_def split: if_splits)

lemma admissions_ok_insert:
  "admissions_ok adm gens rs \<Longrightarrow> lease_session_key l = t \<Longrightarrow> map_of rs (lease_run_key l) \<noteq> None \<Longrightarrow>
     admissions_ok (bt_insert t l adm) (bt_insert t (lease_fencing_generation l) gens) rs"
  by (auto simp: admissions_ok_def)

lemma same_owner_keys:
  assumes "same_owner l l'"
  shows "lease_session_key l' = lease_session_key l" "lease_run_key l' = lease_run_key l"
    "lease_fencing_generation l' = lease_fencing_generation l"
  using assms by (simp_all add: same_owner_def lease_session_key_def lease_run_key_def)

lemma admissions_ok_replace:
  "admissions_ok adm gens rs \<Longrightarrow> map_of adm t = Some l \<Longrightarrow> same_owner l l' \<Longrightarrow>
     admissions_ok (bt_insert t l' adm) gens rs"
  by (auto simp: admissions_ok_def same_owner_keys)

lemma admission_inv_remove:
  "admission_inv s \<Longrightarrow> admission_inv (s\<lparr>si_run_admissions := bt_remove t (si_run_admissions s)\<rparr>)"
  by (simp add: admission_inv_def record_inv_def admissions_ok_remove)

lemma admission_inv_run_update:
  assumes "admission_inv s" and "map_of (si_runs s) k = Some r" and "same_run r r'"
  shows "admission_inv (s\<lparr>si_runs := bt_insert k r' (si_runs s)\<rparr>)"
proof -
  have "admissions_ok (si_run_admissions s) (si_admission_generations s) (bt_insert k r' (si_runs s))"
    by (rule admissions_ok_runs) (use assms(1) in \<open>auto simp: admission_inv_def\<close>)
  with assms show ?thesis
    using record_inv_run_update [of s k r r'] by (simp add: admission_inv_def)
qed

lemma admission_inv_session_modify:
  "admission_inv s \<Longrightarrow> (\<And>r. sr_session_id (f r) = sr_session_id r) \<Longrightarrow>
     admission_inv (session_modify sid f s)"
  by (simp add: admission_inv_def record_inv_session_modify)

lemma admission_inv_outbox_only: "outbox_only s s' \<Longrightarrow> admission_inv s \<Longrightarrow> admission_inv s'"
  by (simp add: admission_inv_def record_inv_def outbox_onlyD)

lemma admission_inv_control_only: "control_only s s' \<Longrightarrow> admission_inv s \<Longrightarrow> admission_inv s'"
  by (simp add: admission_inv_def record_inv_def control_onlyD)

lemma admission_inv_claims [simp]:
  "admission_inv (s\<lparr>si_hitl_resume_claims := c\<rparr>) = admission_inv s"
  by (simp add: admission_inv_def record_inv_def)

lemma same_run_interrupt [simp]: "same_run r (interrupt_expired_run r)"
  by (simp add: same_run_def interrupt_expired_run_def)

lemma same_run_refl [simp]: "same_run r r"
  by (simp add: same_run_def)

lemma apply_run_status_admission_inv: "keeps admission_inv (apply_run_status_locked sid rid st pv er t)"
proof (rule keepsI)
  fix s
  assume inv: "admission_inv s"
  have upd: "admission_inv (s\<lparr>si_runs := bt_insert (run_key sid rid) r' (si_runs s)\<rparr>)"
    if "map_of (si_runs s) (run_key sid rid) = Some r" "same_run r r'" for r r'
    using inv that by (rule admission_inv_run_update)
  show "admission_inv (snd (apply_run_status_locked sid rid st pv er t s))"
    using inv upd
    by (auto simp: apply_run_status_locked_def Let_def advance_run_revision_Ok same_run_def
        split: option.split result.split intro!: admission_inv_session_modify)
qed

lemma mark_source_admission_inv:
  assumes "admission_inv s" and "map_of (si_runs s) k = Some r"
  shows "admission_inv (snd (mark_source_indeterminate k r now s))"
  using assms admission_inv_run_update [OF assms]
  by (auto simp: mark_source_indeterminate_def Let_def advance_run_revision_Ok same_run_def
      interrupt_expired_run_def split: result.split)

lemma settle_source_admission_inv:
  assumes "admission_inv s" and "map_of (si_runs s) k = Some r"
  shows "admission_inv (snd (settle_source_claim k r c now s))"
proof -
  let ?m = "if claim_state c = Started then mark_source_indeterminate k r now else op_lift (Ok ())"
  have "admission_inv (snd (?m s))"
    using assms mark_source_admission_inv by (simp add: op_lift_def)
  then show ?thesis
    unfolding settle_source_claim_def op_bind_def
    by (cases "?m s"; cases "fst (?m s)") (simp_all add: Let_def)
qed

lemma terminalize_admission_inv:
  "keeps admission_inv (terminalize_started_hitl_source_locked r now)"
  by (rule keepsI) (auto simp: terminalize_started_hitl_source_locked_def Let_def
      intro: settle_source_admission_inv split: option.split)

lemma cancel_admitted_admission_inv: "keeps admission_inv (cancel_admitted_run lease now eff)"
proof (rule keepsI)
  fix s
  assume inv: "admission_inv s"
  have upd: "admission_inv (s\<lparr>si_runs := bt_insert (lease_run_key lease) r' (si_runs s)\<rparr>)"
    if "map_of (si_runs s) (lease_run_key lease) = Some r" "same_run r r'" for r r'
    using inv that by (rule admission_inv_run_update)
  show "admission_inv (snd (cancel_admitted_run lease now eff s))"
    using inv upd
    by (auto simp: cancel_admitted_run_def Let_def advance_run_revision_Ok same_run_def
        interrupt_expired_run_def split: option.split result.split)
qed

lemma publish_admission_inv: "keeps admission_inv (publish_authoritative env i runs)"
  using publish_outbox_only admission_inv_outbox_only by (blast intro: keepsI)

lemma reconcile_control_admission_inv:
  "keeps admission_inv (reconcile_run_control_intents_locked l t)"
  using reconcile_control_only admission_inv_control_only by (blast intro: keepsI)

lemmas admission_keeps = apply_run_status_admission_inv terminalize_admission_inv
  cancel_admitted_admission_inv publish_admission_inv reconcile_control_admission_inv

lemma clear_active_run_id [simp]: "sr_session_id (clear_active_run rid r) = sr_session_id r"
  by (simp add: clear_active_run_def)

lemma note_expired_id [simp]: "sr_session_id (note_expired rid now r) = sr_session_id r"
  by (simp add: note_expired_def Let_def)

section \<open>Operations under a lease keep the invariants\<close>

lemma heartbeat_admission_inv: "keeps admission_inv (heartbeat_run_admission t1 t2 lease e)"
proof (rule keepsI)
  fix s
  assume inv: "admission_inv s"
  have "admission_inv (s\<lparr>si_run_admissions := bt_insert (lease_session_key lease)
      (l\<lparr>lease_heartbeat_at := t2, lease_lease_expires_at := e\<rparr>) (si_run_admissions s)\<rparr>)"
    if "map_of (si_run_admissions s) (lease_session_key lease) = Some l" for l
    using inv that admissions_ok_replace [OF _ that, of _ _ "l\<lparr>lease_heartbeat_at := t2, lease_lease_expires_at := e\<rparr>"]
    by (simp add: admission_inv_def record_inv_def same_owner_def)
  with inv show "admission_inv (snd (heartbeat_run_admission t1 t2 lease e s))"
    by (simp add: heartbeat_run_admission_def Let_def split: option.split)
qed

lemma release_admission_inv: "keeps admission_inv (release_run_admission now lease)"
  by (rule keepsI) (simp add: release_run_admission_def admission_inv_remove split: option.split)

lemma update_status_admission_inv: "keeps admission_inv (update_run_status_fenced t1 t2 lease st pv)"
proof (rule keepsI)
  fix s
  assume inv: "admission_inv s"
  have "keeps admission_inv (op_bind (op_lift (ensure_active_admission_locked s lease t1))
      (\<lambda>_. apply_run_status_locked (rt_session_id (lease_target lease))
         (rt_run_id (lease_target lease)) st pv None t2))"
    by (simp add: keeps_op_bind admission_keeps)
  from keepsD [OF this inv] inv show "admission_inv (snd (update_run_status_fenced t1 t2 lease st pv s))"
    by (simp add: update_run_status_fenced_def)
qed

lemma keeps_pre: "keeps I f \<Longrightarrow> (\<And>s. I s \<Longrightarrow> I (h s)) \<Longrightarrow> keeps I (\<lambda>s. f (h s))"
  by (simp add: keeps_def)

text \<open>
  Finalization and recovery are sequences of the same helpers, so one argument gives every
  invariant that the helpers and the removal of a lease keep.
\<close>

locale lease_expiry =
  fixes I :: "store_inner \<Rightarrow> bool"
  assumes keeps_terminalize: "keeps I (terminalize_started_hitl_source_locked r t)"
    and keeps_cancel: "keeps I (cancel_admitted_run lease t eff)"
    and keeps_publish: "keeps I (publish_authoritative env i runs)"
    and keeps_reconcile: "keeps I (reconcile_run_control_intents_locked lease t)"
    and keeps_remove: "I s \<Longrightarrow> I (s\<lparr>si_run_admissions := bt_remove key (si_run_admissions s)\<rparr>)"
    and keeps_clear: "I s \<Longrightarrow> I (session_modify sid (clear_active_run rid) s)"
    and keeps_note_expired: "I s \<Longrightarrow> I (session_modify sid (note_expired rid t) s)"
begin

lemma keeps_drop_lease: "keeps I (\<lambda>s. (r, s\<lparr>si_run_admissions := bt_remove key (si_run_admissions s)\<rparr>))"
  by (simp add: keeps_def keeps_remove)

lemma keeps_expire_if_active: "keeps I (expire_if_active env lease r now)"
proof -
  have "keeps I (\<lambda>s1. op_bind (cancel_admitted_run lease now eff)
      (\<lambda>run. publish_authoritative env (expired_identity lease)
         (interrupted_source lease r eff s1 @ [run])) s1)" for eff
    using keeps_op_bind [OF keeps_cancel keeps_publish] by (simp add: keeps_def)
  then show ?thesis
    by (simp add: expire_if_active_def expire_admitted_run_def keeps_op_bind keeps_terminalize)
qed

lemma keeps_reconcile_expired_one: "keeps I (reconcile_expired_one env now e)"
proof (rule keepsI)
  fix s
  assume I: "I s"
  obtain target lease where e: "e = (target, lease)" by (cases e)
  have "keeps I (\<lambda>s1. op_bind (reconcile_run_control_intents_locked lease now)
      (\<lambda>_ s2. (Ok (), s2\<lparr>si_run_admissions := bt_remove target (si_run_admissions s2)\<rparr>))
      (session_modify sid (note_expired rid now) s1))" for sid rid
    by (rule keeps_pre [OF keeps_op_bind [OF keeps_reconcile keeps_drop_lease]])
       (simp add: keeps_note_expired)
  from keeps_op_bind [OF keeps_expire_if_active this] I
  have "I (snd (op_bind (expire_if_active env lease r now)
      (\<lambda>_ s1. op_bind (reconcile_run_control_intents_locked lease now)
         (\<lambda>_ s2. (Ok (), s2\<lparr>si_run_admissions := bt_remove target (si_run_admissions s2)\<rparr>))
         (session_modify sid (note_expired rid now) s1)) s))" for r sid rid
    by (rule keepsD)
  with I show "I (snd (reconcile_expired_one env now e s))"
    by (simp add: reconcile_expired_one_def e split: option.split)
qed

lemma keeps_reconcile_expired_list: "keeps I (reconcile_expired_list env now es)"
  by (induction es) (simp_all add: keeps_op_bind keeps_reconcile_expired_one)

lemma keeps_reconcile_expired: "keeps I (reconcile_expired_run_admissions env ns now)"
  unfolding reconcile_expired_run_admissions_def
proof (rule keeps_stagedI)
  fix s x s'
  assume I: "I s" and ok: "op_bind (reconcile_expired_list env now (expired_admissions ns now s))
       (\<lambda>_. op_lift (Ok (map (\<lambda>(_, lease). lease_target lease) (expired_admissions ns now s)))) s = (Ok x, s')"
  from ok obtain y where "reconcile_expired_list env now (expired_admissions ns now s) s = (Ok y, s')"
    by (auto simp: op_bind_Ok)
  with keepsD [OF keeps_reconcile_expired_list I] show "I s'" by (metis snd_conv)
qed

lemma keeps_displace:
  assumes "I s" and "displace_expired_admission target sid now s = (r, s')"
  shows "I s'"
proof -
  have "keeps I (interrupt_if_active l rep now)" for l rep
    by (simp add: interrupt_if_active_def interrupt_admitted_run_def keeps_op_bind
        keeps_terminalize keeps_cancel)
  moreover have "keeps I (\<lambda>s1. (Ok (), session_modify sid (clear_active_run rid)
      (s1\<lparr>si_run_admissions := bt_remove target (si_run_admissions s1)\<rparr>)))" for rid
    by (simp add: keeps_def keeps_clear keeps_remove)
  ultimately have "keeps I (op_bind (interrupt_if_active l rep now)
      (\<lambda>_ s1. (Ok (), session_modify sid (clear_active_run rid)
        (s1\<lparr>si_run_admissions := bt_remove target (si_run_admissions s1)\<rparr>))))" for l rep rid
    by (rule keeps_op_bind)
  then have "I (snd (op_bind (interrupt_if_active l rep now)
      (\<lambda>_ s1. (Ok (), session_modify sid (clear_active_run rid)
        (s1\<lparr>si_run_admissions := bt_remove target (si_run_admissions s1)\<rparr>))) s))" for l rep rid
    using assms(1) by (rule keepsD)
  with assms(1) have "I (snd (displace_expired_admission target sid now s))"
    by (simp add: displace_expired_admission_def split: option.split)
  with assms(2) show ?thesis by simp
qed

end

text \<open>Finalization also writes the outcome of the run.\<close>

locale lease_cleanup = lease_expiry +
  assumes keeps_apply: "keeps I (apply_run_status_locked sid rid st pv er t)"
begin

lemma keeps_finalize_staged: "keeps I (finalize_staged env t1 t2 lease terminal)"
proof (rule keepsI)
  fix s
  assume I: "I s"
  have outcome: "keeps I (finalize_outcome t1 lease terminal c)" for c
    by (simp add: finalize_outcome_def keeps_op_bind keeps_apply)
  have publish: "keeps I (publish_if_changed env lease run ch)" for run ch
    by (simp add: publish_if_changed_def keeps_publish)
  have rest: "keeps I (case p of (run, ch) \<Rightarrow> op_bind (publish_if_changed env lease run ch)
      (\<lambda>_. op_bind (reconcile_run_control_intents_locked lease t2)
        (\<lambda>_ s2. (Ok run, s2\<lparr>si_run_admissions :=
           bt_remove (lease_session_key lease) (si_run_admissions s2)\<rparr>))))" for p
    by (cases p) (simp add: keeps_op_bind publish keeps_reconcile keeps_drop_lease)
  show "I (snd (finalize_staged env t1 t2 lease terminal s))"
    using I keepsD [OF keeps_op_bind [OF outcome rest] I]
    by (simp add: finalize_staged_def split: option.split)
qed

lemma keeps_staged: "keeps I f \<Longrightarrow> keeps I (staged f)"
  by (rule keeps_stagedI) (metis keepsD snd_conv)

lemma keeps_finalize: "keeps I (finalize_run_admission env t0 t1 t2 lease terminal)"
proof (rule keepsI)
  fix s
  assume I: "I s"
  have "keeps I (op_bind (op_lift (ensure_active_admission_locked s lease t0))
      (\<lambda>_. staged (finalize_staged env t1 t2 lease terminal)))"
    by (simp add: keeps_op_bind keeps_staged keeps_finalize_staged)
  from keepsD [OF this I] I show "I (snd (finalize_run_admission env t0 t1 t2 lease terminal s))"
    by (simp add: finalize_run_admission_def split: option.split)
qed

end

interpretation admission_cleanup: lease_cleanup admission_inv
  by unfold_locales (simp_all add: admission_keeps admission_inv_remove admission_inv_session_modify)

lemma outbox_inv_frame:
  assumes "si_host_event_outbox s' = si_host_event_outbox s"
    "si_host_event_outbox_order s' = si_host_event_outbox_order s"
    "si_host_event_outbox_sequences s' = si_host_event_outbox_sequences s"
    "si_last_host_event_outbox_sequence s' = si_last_host_event_outbox_sequence s"
    "si_host_event_records s' = si_host_event_records s"
    "si_host_event_positions s' = si_host_event_positions s"
    "si_host_event_ids s' = si_host_event_ids s"
    "si_last_host_event_position s' = si_last_host_event_position s"
  shows "outbox_inv s' = outbox_inv s"
  unfolding outbox_inv_def queue_inv_def log_inv_def identity_inv_def assms by (rule refl)

lemma outbox_inv_records_only: "records_only s s' \<Longrightarrow> outbox_inv s \<Longrightarrow> outbox_inv s'"
  by (subst outbox_inv_frame [of s' s]) (simp_all add: records_onlyD)

lemma outbox_inv_control_only: "control_only s s' \<Longrightarrow> outbox_inv s \<Longrightarrow> outbox_inv s'"
  by (subst outbox_inv_frame [of s' s]) (simp_all add: control_onlyD)

lemma publish_outbox_inv: "keeps outbox_inv (publish_authoritative env i runs)"
  unfolding publish_authoritative_def
  by (rule keeps_op_bind) (auto intro: keepsI enqueue_inv)

interpretation outbox_cleanup: lease_cleanup outbox_inv
proof
  show "keeps outbox_inv (apply_run_status_locked sid rid st pv er t)" for sid rid st pv er t
    by (rule keepsI) (rule outbox_inv_records_only [OF apply_run_status_records_only])
  show "keeps outbox_inv (terminalize_started_hitl_source_locked r t)" for r t
    by (rule keepsI) (rule outbox_inv_records_only [OF terminalize_records_only])
  show "keeps outbox_inv (cancel_admitted_run lease t eff)" for lease t eff
    by (rule keepsI) (rule outbox_inv_records_only [OF cancel_admitted_records_only])
  show "keeps outbox_inv (reconcile_run_control_intents_locked lease t)" for lease t
    by (rule keepsI) (rule outbox_inv_control_only [OF reconcile_control_only])
  show "keeps outbox_inv (publish_authoritative env i runs)" for env i runs
    by (rule publish_outbox_inv)
  show "outbox_inv s \<Longrightarrow> outbox_inv (s\<lparr>si_run_admissions := bt_remove key (si_run_admissions s)\<rparr>)" for s key
    by (subst outbox_inv_frame [of _ s]) simp_all
  show "outbox_inv s \<Longrightarrow> outbox_inv (session_modify sid (clear_active_run rid) s)" for s sid rid
    by (subst outbox_inv_frame [of _ s]) simp_all
  show "outbox_inv s \<Longrightarrow> outbox_inv (session_modify sid (note_expired rid t) s)" for s sid rid t
    by (subst outbox_inv_frame [of _ s]) simp_all
qed

section \<open>Acquisition\<close>

lemma prepare_admitted_run_Ok:
  assumes inv: "record_inv s" and ok: "prepare_admitted_run req s = Ok r"
  shows "rr_session_id r = rr_session_id (acq_run req) \<and> rr_run_id r = rr_run_id (acq_run req)
    \<and> rr_status r = StQueued \<and> rr_revision r = 1
    \<and> map_of (si_runs s) (rr_session_id r, rr_run_id r) = None
    \<and> (bt_contains (si_sessions s) (rr_session_id r)
        \<longrightarrow> record_inv (insert_prepared_run_record (r\<lparr>rr_updated_at := now\<rparr>) s))"
proof -
  let ?run = "(run_normalize_for_admission (acq_run req))\<lparr>rr_revision := 1\<rparr>"
  have prep: "prepare_new_run_record s ?run = Ok r"
    using ok by (auto simp: prepare_admitted_run_def Let_def split: result.splits)
  from prepare_new_run_record_Ok [OF inv this] obtain n where n: "r = ?run\<lparr>rr_sequence_no := n\<rparr>"
    and fresh: "map_of (si_runs s) (rr_session_id ?run, rr_run_id ?run) = None"
      "run_at (si_run_sequences s) (rr_session_id ?run) n = None" "n \<noteq> 0" by auto
  have "prepare_new_run_record s (?run\<lparr>rr_updated_at := now\<rparr>) = Ok (r\<lparr>rr_updated_at := now\<rparr>)"
    using prep by (auto simp: prepare_new_run_record_def Let_def split: if_splits option.splits)
  from record_inv_insert_prepared [OF inv this] n fresh show ?thesis
    by (auto simp: run_normalize_for_admission_def)
qed

text \<open>The claim update leaves everything but the claims.\<close>

lemma admit_claim_eq:
  "admit_claim key s = (Ok x, s') \<Longrightarrow> \<exists>c. s' = s\<lparr>si_hitl_resume_claims := c\<rparr>"
  by (auto simp: admit_claim_def split: option.splits intro: exI [of _ "si_hitl_resume_claims s"])

lemma prepare_admitted_run_claims [simp]:
  "prepare_admitted_run req (s\<lparr>si_hitl_resume_claims := c\<rparr>) = prepare_admitted_run req s"
proof -
  have "prepare_new_run_record (s\<lparr>si_hitl_resume_claims := c\<rparr>) run = prepare_new_run_record s run" for run
    by (simp add: prepare_new_run_record_def)
  then show ?thesis by (simp only: prepare_admitted_run_def)
qed

lemma commit_admission_inv:
  assumes inv: "admission_inv s" and prep: "prepare_admitted_run req s = Ok r"
    and ok: "commit_admission req r now s = (Ok receipt, s')"
  shows "admission_inv s'"
proof -
  let ?run = "r\<lparr>rr_updated_at := now\<rparr>"
  let ?t = "managed_session_target_new (acq_namespace_id req) (rr_session_id (acq_run req))"
  let ?g = "next_generation ?t s" let ?l = "admitted_lease req ?g ?run now"
  from inv have rinv: "record_inv s"
    and adm: "admissions_ok (si_run_admissions s) (si_admission_generations s) (si_runs s)"
    by (auto simp: admission_inv_def)
  note P = prepare_admitted_run_Ok [OF rinv prep, of now]
  let ?s0 = "s\<lparr>si_admission_generations := bt_insert ?t ?g (si_admission_generations s)\<rparr>"
  let ?s1 = "insert_prepared_run_record ?run ?s0"
  from ok obtain session idem where sess: "map_of (si_sessions s) (rr_session_id r) = Some session"
    and s': "s' = ?s1\<lparr>si_sessions := bt_insert (rr_session_id r)
          (note_admitted (rr_run_id r) now session) (si_sessions s),
        si_run_admissions := bt_insert ?t ?l (si_run_admissions s),
        si_run_admission_idempotency := idem\<rparr>"
    by (auto simp: commit_admission_def Let_def insert_prepared_run_record_def split: option.splits)
  have rec: "record_inv (insert_prepared_run_record ?run s)"
    using P sess by (auto simp: bt_contains_def)
  have "sr_session_id session = rr_session_id r"
    using rinv sess by (auto simp: record_inv_def sessions_ok_def)
  then have "record_inv s'"
    using rec by (simp add: s' record_inv_def insert_prepared_run_record_def Let_def sessions_ok_insert
        runs_ok_session_insert note_admitted_def)
  moreover have "admissions_ok (si_run_admissions s') (si_admission_generations s') (si_runs s')"
  proof -
    have "admissions_ok (si_run_admissions s) (si_admission_generations s) (si_runs s')"
      by (rule admissions_ok_runs [OF adm]) (auto simp: s' insert_prepared_run_record_def Let_def)
    from admissions_ok_insert [OF this, of ?l ?t] P show ?thesis
      by (simp add: insert_prepared_run_record_def Let_def admitted_lease_def lease_session_key_def
          lease_run_key_def s')
  qed
  ultimately show ?thesis by (simp add: admission_inv_def)
qed

text \<open>
  A successful acquisition is either an idempotent replay, or it went through every check and
  committed.
\<close>

definition acquire_target :: "acquire_run_admission_req \<Rightarrow> managed_session_target" where
  "acquire_target req = managed_session_target_new (acq_namespace_id req) (rr_session_id (acq_run req))"

lemma acquire_locked_Ok_cases:
  assumes "acquire_run_admission_locked now req s = (Ok receipt, s')"
  obtains
    (replay) r where "map_of (si_run_admission_idempotency s) (acq_namespace_id req, acq_idempotency_key req)
        = Some (acq_command_fingerprint req, r)"
      "receipt = r\<lparr>rar_idempotent_replay := True\<rparr>" "s' = s"
  | (fresh) s1 key run s2
    where "map_of (si_run_admission_idempotency s) (acq_namespace_id req, acq_idempotency_key req) = None"
      "displace_expired_admission (acquire_target req) (rr_session_id (acq_run req)) now s = (Ok (), s1)"
      "check_session_admits req s1 = Ok ()" "preflight_claim_key req s1 = Ok key"
      "prepare_admitted_run req s1 = Ok run" "admit_claim key s1 = (Ok (), s2)"
      "commit_admission req run now s2 = (Ok receipt, s')"
proof (cases "map_of (si_run_admission_idempotency s) (acq_namespace_id req, acq_idempotency_key req)")
  case (Some p)
  with assms that(1) show ?thesis
    by (cases p) (auto simp: acquire_run_admission_locked_def split: if_splits)
next
  case None
  with assms that(2) show ?thesis
    by (auto simp: acquire_run_admission_locked_def acquire_target_def op_bind_Ok split: if_splits)
qed

lemma acquire_admission_inv: "keeps admission_inv (acquire_run_admission now req)"
  unfolding acquire_run_admission_def
proof (rule keeps_stagedI)
  fix s x s'
  assume inv: "admission_inv s" and "acquire_run_admission_locked now req s = (Ok x, s')"
  from this(2) show "admission_inv s'"
  proof (cases rule: acquire_locked_Ok_cases)
    case (fresh s1 key run s2)
    have "admission_inv s1"
      using inv fresh(2) by (rule admission_cleanup.keeps_displace)
    moreover obtain c where "s2 = s1\<lparr>si_hitl_resume_claims := c\<rparr>"
      using admit_claim_eq [OF fresh(6)] by blast
    ultimately have "admission_inv s2" "prepare_admitted_run req s2 = Ok run"
      using fresh(5) by simp_all
    then show ?thesis using fresh(7) by (rule commit_admission_inv)
  qed (use inv in simp)
qed

section \<open>What an acquisition guarantees\<close>

text \<open>Tables that no helper writes, and the run table, which helpers only update in place.\<close>

definition ledgers :: "store_inner \<Rightarrow> (managed_session_target, u64) btmap
    \<times> (string \<times> string, string \<times> run_admission_receipt) btmap
    \<times> (string \<times> string, string \<times> session_record) btmap" where
  "ledgers s = (si_admission_generations s, si_run_admission_idempotency s, si_session_idempotency s)"

lemma ledgers_only:
  "records_only s s' \<Longrightarrow> ledgers s' = ledgers s"
  "outbox_only s s' \<Longrightarrow> ledgers s' = ledgers s"
  "control_only s s' \<Longrightarrow> ledgers s' = ledgers s"
  by (simp_all add: ledgers_def records_onlyD outbox_onlyD control_onlyD)

interpretation ledger_cleanup: lease_cleanup "\<lambda>s. ledgers s = G" for G
proof
  show "keeps (\<lambda>s. ledgers s = G) (apply_run_status_locked sid rid st pv er t)" for sid rid st pv er t
    by (simp add: keeps_def ledgers_only(1) [OF apply_run_status_records_only])
  show "keeps (\<lambda>s. ledgers s = G) (terminalize_started_hitl_source_locked r t)" for r t
    by (simp add: keeps_def ledgers_only(1) [OF terminalize_records_only])
  show "keeps (\<lambda>s. ledgers s = G) (cancel_admitted_run lease t eff)" for lease t eff
    by (simp add: keeps_def ledgers_only(1) [OF cancel_admitted_records_only])
  show "keeps (\<lambda>s. ledgers s = G) (publish_authoritative env i runs)" for env i runs
    by (simp add: keeps_def ledgers_only(2) [OF publish_outbox_only])
  show "keeps (\<lambda>s. ledgers s = G) (reconcile_run_control_intents_locked lease t)" for lease t
    by (simp add: keeps_def ledgers_only(3) [OF reconcile_control_only])
qed (simp_all add: ledgers_def)

definition has_run :: "run_key_t \<Rightarrow> store_inner \<Rightarrow> bool" where
  "has_run k s \<longleftrightarrow> map_of (si_runs s) k \<noteq> None"

lemma has_run_frame: "si_runs s' = si_runs s \<Longrightarrow> has_run k s' = has_run k s"
  by (simp add: has_run_def)

lemma mark_source_has_run: "keeps (has_run k) (mark_source_indeterminate sk r t)"
  by (rule keepsI) (auto simp: mark_source_indeterminate_def has_run_def Let_def split: result.split)

lemma settle_source_has_run: "keeps (has_run k) (settle_source_claim sk r c t)"
  unfolding settle_source_claim_def
proof (rule keeps_op_bind)
  show "keeps (has_run k)
      (if claim_state c = Started then mark_source_indeterminate sk r t else op_lift (Ok ()))"
    by (simp add: mark_source_has_run)
qed (simp add: keeps_def has_run_def Let_def)

interpretation run_cleanup: lease_cleanup "has_run k" for k
proof
  show "keeps (has_run k) (apply_run_status_locked sid rid st pv er t)" for sid rid st pv er t
    by (rule keepsI) (auto simp: apply_run_status_locked_def has_run_def Let_def
        split: option.split result.split)
  show "keeps (has_run k) (terminalize_started_hitl_source_locked r t)" for r t
    by (rule keepsI) (simp add: terminalize_started_hitl_source_locked_def Let_def
        keepsD [OF settle_source_has_run] split: option.split)
  show "keeps (has_run k) (cancel_admitted_run lease t eff)" for lease t eff
    by (rule keepsI) (auto simp: cancel_admitted_run_def has_run_def Let_def
        split: option.split result.split)
  show "keeps (has_run k) (publish_authoritative env i runs)" for env i runs
    by (rule keepsI) (simp add: has_run_def outbox_onlyD [OF publish_outbox_only])
  show "keeps (has_run k) (reconcile_run_control_intents_locked lease t)" for lease t
    by (rule keepsI) (simp add: has_run_def control_onlyD [OF reconcile_control_only])
qed (simp_all add: has_run_def)

lemma next_generation_grows:
  assumes "map_of (si_admission_generations s) target = Some g"
  shows "g \<le> next_generation target s" and "g \<noteq> - 1 \<Longrightarrow> g < next_generation target s"
  using assms u64_saturating_add_mono [of g 1] u64_saturating_add_one_strict [of g]
  by (simp_all add: next_generation_def)

lemma displace_blocks_live:
  assumes "displace_expired_admission target sid now s = (Ok x, s1)"
    and "map_of (si_run_admissions s) target = Some l"
  shows "lease_expired_at l now"
  using assms by (auto simp: displace_expired_admission_def split: if_splits)

lemma commit_admission_spec:
  assumes "commit_admission req run now s = (Ok rc, s')" and "rr_session_id run = rr_session_id (acq_run req)"
  shows "rar_idempotent_replay rc = False"
    and "rar_run rc = run\<lparr>rr_updated_at := now\<rparr>"
    and "rar_lease rc = admitted_lease req (next_generation (acquire_target req) s) run now"
    and "map_of (si_run_admissions s') (acquire_target req) = Some (rar_lease rc)"
    and "map_of (si_runs s') (lease_run_key (rar_lease rc)) = Some (rar_run rc)"
    and "\<exists>session. map_of (si_sessions s') (rr_session_id run) = Some session
           \<and> sr_active_run_id session = Some (rr_run_id run)
           \<and> sr_head_run_id session = Some (rr_run_id run)"
    and "map_of (si_run_admission_idempotency s') (acq_namespace_id req, acq_idempotency_key req)
           = Some (acq_command_fingerprint req, rc)"
    and "map_of (si_admission_generations s') (acquire_target req) = Some (lease_fencing_generation (rar_lease rc))"
  using assms
  by (auto simp: commit_admission_def Let_def acquire_target_def insert_prepared_run_record_def
      lease_run_key_def admitted_lease_def note_admitted_def split: option.splits)

text \<open>A granted lease, as the store must show it after a fresh acquisition.\<close>

definition admission_granted ::
    "acquire_run_admission_req \<Rightarrow> store_inner \<Rightarrow> run_admission_receipt \<Rightarrow> store_inner \<Rightarrow> bool" where
  "admission_granted req s rc s' \<longleftrightarrow>
     map_of (si_run_admissions s') (acquire_target req) = Some (rar_lease rc)
     \<and> lease_session_key (rar_lease rc) = acquire_target req
     \<and> lease_admission_id (rar_lease rc) = acq_admission_id req
     \<and> lease_host_instance_id (rar_lease rc) = acq_host_instance_id req
     \<and> lease_lease_expires_at (rar_lease rc) = acq_lease_expires_at req
     \<and> map_of (si_runs s) (lease_run_key (rar_lease rc)) = None
     \<and> map_of (si_runs s') (lease_run_key (rar_lease rc)) = Some (rar_run rc)
     \<and> rr_status (rar_run rc) = StQueued \<and> rr_revision (rar_run rc) = 1
     \<and> (\<exists>session. map_of (si_sessions s') (rr_session_id (acq_run req)) = Some session
          \<and> sr_active_run_id session = Some (rr_run_id (acq_run req)))
     \<and> (\<forall>g. map_of (si_admission_generations s) (acquire_target req) = Some g
          \<longrightarrow> g \<le> lease_fencing_generation (rar_lease rc)
              \<and> (g \<noteq> - 1 \<longrightarrow> g < lease_fencing_generation (rar_lease rc)))"

lemma acquire_fresh:
  assumes inv: "admission_inv s" and ok: "acquire_run_admission now req s = (Ok rc, s')"
    and fresh: "\<not> rar_idempotent_replay rc"
  shows "admission_granted req s rc s'
    \<and> (\<forall>l. map_of (si_run_admissions s) (acquire_target req) = Some l \<longrightarrow> lease_expired_at l now)
    \<and> map_of (si_run_admission_idempotency s') (acq_namespace_id req, acq_idempotency_key req)
        = Some (acq_command_fingerprint req, rc)"
proof -
  from ok have "acquire_run_admission_locked now req s = (Ok rc, s')"
    by (simp add: acquire_run_admission_def staged_Ok)
  then show ?thesis
  proof (cases rule: acquire_locked_Ok_cases)
    case (replay r)
    with fresh show ?thesis by simp
  next
    case (fresh s1 key run s2)
    have inv1: "admission_inv s1" using inv fresh(2) by (rule admission_cleanup.keeps_displace)
    then have "record_inv s1" by (simp add: admission_inv_def)
    note P = prepare_admitted_run_Ok [OF this fresh(5), of now]
    obtain c where s2: "s2 = s1\<lparr>si_hitl_resume_claims := c\<rparr>"
      using admit_claim_eq [OF fresh(6)] by blast
    have led: "ledgers s1 = ledgers s"
      using ledger_cleanup.keeps_displace [OF refl fresh(2)] by simp
    then have gen: "next_generation (acquire_target req) s2 = next_generation (acquire_target req) s"
      by (simp add: next_generation_def s2 ledgers_def)
    have "\<not> has_run (rr_session_id run, rr_run_id run) s1"
      using P by (elim conjE) (simp add: has_run_def)
    then have "\<not> has_run (rr_session_id run, rr_run_id run) s"
      using run_cleanup.keeps_displace [OF _ fresh(2)] by blast
    then have new: "map_of (si_runs s) (rr_session_id run, rr_run_id run) = None"
      by (simp add: has_run_def)
    have "rr_session_id run = rr_session_id (acq_run req)" using P by simp
    note C = commit_admission_spec [OF fresh(7) this]
    have "admission_granted req s rc s'"
      unfolding admission_granted_def
      using C P new next_generation_grows [of s "acquire_target req"]
      by (auto simp: gen [unfolded acquire_target_def] admitted_lease_def lease_session_key_def lease_run_key_def acquire_target_def
          run_key_def)
    with C(7) displace_blocks_live [OF fresh(2)] show ?thesis by blast
  qed
qed

text \<open>A live lease refuses every other admission of its session.\<close>

lemma acquire_refused_while_live:
  assumes "map_of (si_run_admissions s) (acquire_target req) = Some l" and "\<not> lease_expired_at l now"
    and "map_of (si_run_admission_idempotency s) (acq_namespace_id req, acq_idempotency_key req) = None"
    and "(acq_replaces_waiting_run_id req \<noteq> None) = (acq_hitl_resume_claim_id req \<noteq> None)"
  shows "acquire_run_admission now req s
    = (Err (RunConflict (msg_active_run (rr_session_id (acq_run req)) (rt_run_id (lease_target l)))), s)"
  using assms
  by (auto simp: acquire_run_admission_def staged_def acquire_run_admission_locked_def op_bind_def
      displace_expired_admission_def acquire_target_def)

lemma acquire_replay:
  assumes "map_of (si_run_admission_idempotency s) (acq_namespace_id req, acq_idempotency_key req)
      = Some (fp, rc)"
  shows "acquire_run_admission now req s
    = (if fp = acq_command_fingerprint req then Ok (rc\<lparr>rar_idempotent_replay := True\<rparr>)
       else Err (IdempotencyConflict (acq_idempotency_key req)), s)"
  using assms by (simp add: acquire_run_admission_def staged_def acquire_run_admission_locked_def)

section \<open>Fencing\<close>

text \<open>
  A fenced operation takes the caller's lease and the time at which it checks it. It has no
  effect when the stored lease of the session is another owner's or has expired.
\<close>

locale fenced_operation =
  fixes f :: "datetime \<Rightarrow> run_admission_lease \<Rightarrow> 'a store_op"
  assumes rejects: "map_of (si_run_admissions s) (lease_session_key lease) = Some cur \<Longrightarrow>
    \<not> same_owner cur lease \<or> lease_expired_at cur t \<Longrightarrow>
    \<not> is_ok (fst (f t lease s)) \<and> snd (f t lease s) = s"
begin

text \<open>Any number of attempts by superseded owners leaves the store as it is.\<close>

lemma stale_attempts:
  assumes "map_of (si_run_admissions s) target = Some cur"
    and "\<forall>(t, lease) \<in> set attempts. lease_session_key lease = target \<and> \<not> same_owner cur lease"
  shows "fold (\<lambda>(t, lease) s. snd (f t lease s)) attempts s = s"
  using assms(2)
proof (induction attempts)
  case (Cons a as)
  obtain t lease where a: "a = (t, lease)" by (cases a)
  with Cons.prems assms(1) have "snd (f t lease s) = s"
    using rejects [of s lease cur t] by auto
  with Cons a show ?case by simp
qed simp

text \<open>
  After a fresh acquisition, every lease issued earlier for the session is fenced off, as long as
  the generation counter has not reached its last value.
\<close>

lemma superseded_rejected:
  assumes "admission_granted req s rc s'"
    and "lease_session_key old = acquire_target req"
    and "map_of (si_admission_generations s) (acquire_target req) = Some g"
    and "lease_fencing_generation old \<le> g" and "g \<noteq> - 1"
  shows "\<not> is_ok (fst (f t old s')) \<and> snd (f t old s') = s'"
proof -
  have "lease_fencing_generation old < lease_fencing_generation (rar_lease rc)"
    using assms by (auto simp: admission_granted_def)
  then have "\<not> same_owner (rar_lease rc) old" by (auto simp: same_owner_def)
  then show ?thesis
    using rejects [of s' old "rar_lease rc" t] assms(1,2) by (simp add: admission_granted_def)
qed

end

lemma ensure_active_rejects:
  assumes "map_of (si_run_admissions s) (lease_session_key lease) = Some cur"
    and "\<not> same_owner cur lease \<or> lease_expired_at cur t"
  shows "\<exists>e. ensure_active_admission_locked s lease t = Err (StaleFence e)"
  using assms
  by (auto simp: ensure_active_admission_locked_def lease_session_key_def same_owner_def Let_def)

lemma ensure_active_Ok:
  "ensure_active_admission_locked s lease t = Ok () \<longleftrightarrow>
     (\<exists>cur. map_of (si_run_admissions s) (lease_session_key lease) = Some cur
        \<and> same_owner cur lease \<and> \<not> lease_expired_at cur t)"
  by (auto simp: ensure_active_admission_locked_def lease_session_key_def same_owner_def Let_def
      split: option.split)

interpretation heartbeat: fenced_operation "\<lambda>t lease. heartbeat_run_admission t t' lease e" for t' e
  by unfold_locales (auto simp: heartbeat_run_admission_def stale_owner_def same_owner_def)

interpretation release: fenced_operation "\<lambda>t lease. release_run_admission t lease"
  by unfold_locales (auto simp: release_run_admission_def stale_owner_def same_owner_def)

interpretation status_update: fenced_operation "\<lambda>t lease. update_run_status_fenced t t' lease st pv"
  for t' st pv
proof
  fix s :: store_inner and lease cur t
  assume "map_of (si_run_admissions s) (lease_session_key lease) = Some cur"
    "\<not> same_owner cur lease \<or> lease_expired_at cur t"
  then obtain e where "ensure_active_admission_locked s lease t = Err (StaleFence e)"
    using ensure_active_rejects by blast
  then show "\<not> is_ok (fst (update_run_status_fenced t t' lease st pv s))
      \<and> snd (update_run_status_fenced t t' lease st pv s) = s"
    by (simp add: update_run_status_fenced_def op_bind_def op_lift_def)
qed

interpretation finalize: fenced_operation
  "\<lambda>t lease. finalize_run_admission env t t1 t2 lease terminal" for env t1 t2 terminal
proof
  fix s :: store_inner and lease cur t
  assume cur: "map_of (si_run_admissions s) (lease_session_key lease) = Some cur"
    and "\<not> same_owner cur lease \<or> lease_expired_at cur t"
  then obtain e where "ensure_active_admission_locked s lease t = Err (StaleFence e)"
    using ensure_active_rejects by blast
  with cur show "\<not> is_ok (fst (finalize_run_admission env t t1 t2 lease terminal s))
      \<and> snd (finalize_run_admission env t t1 t2 lease terminal s) = s"
    by (simp add: finalize_run_admission_def op_bind_def op_lift_def bt_contains_def)
qed

section \<open>No panic\<close>

definition no_panic :: "'a store_op \<Rightarrow> bool" where
  "no_panic f \<longleftrightarrow> (\<forall>s. fst (f s) \<noteq> Panic)"

lemma no_panicD: "no_panic f \<Longrightarrow> f s \<noteq> (Panic, s')"
  by (metis fst_conv no_panic_def)

lemma no_panic_op_bind: "no_panic f \<Longrightarrow> (\<And>x. no_panic (g x)) \<Longrightarrow> no_panic (op_bind f g)"
  unfolding no_panic_def op_bind_def by (auto split: prod.split result.split) (metis fst_conv)+

lemma no_panic_op_lift [simp]: "no_panic (op_lift r) \<longleftrightarrow> r \<noteq> Panic"
  by (simp add: no_panic_def op_lift_def)

lemma no_panic_settle: "no_panic (settle_source_claim k r c now)"
  unfolding settle_source_claim_def
proof (rule no_panic_op_bind)
  have "no_panic (mark_source_indeterminate k r now)"
    by (auto simp: no_panic_def mark_source_indeterminate_def Let_def split: result.split)
  then show "no_panic (if claim_state c = Started then mark_source_indeterminate k r now
      else op_lift (Ok ()))" by simp
qed (simp add: no_panic_def Let_def)

lemma no_panic_terminalize: "no_panic (terminalize_started_hitl_source_locked r now)"
  using no_panic_settle
  by (simp add: no_panic_def terminalize_started_hitl_source_locked_def Let_def split: option.split)

lemma no_panic_cancel: "no_panic (cancel_admitted_run lease now eff)"
  by (auto simp: no_panic_def cancel_admitted_run_def Let_def split: option.split result.split)

lemma no_panic_interrupt: "no_panic (interrupt_if_active l r now)"
  by (simp add: interrupt_if_active_def interrupt_admitted_run_def no_panic_op_bind
      no_panic_terminalize no_panic_cancel)

lemma no_panic_displace: "no_panic (displace_expired_admission target sid now)"
proof -
  have "fst (op_bind (interrupt_if_active l r now) (\<lambda>_ s1. (Ok (), h s1)) s) \<noteq> Panic" for l r h s
    using no_panic_op_bind [OF no_panic_interrupt, of "\<lambda>_ s1. (Ok (), h s1)"]
    by (simp add: no_panic_def)
  then show ?thesis
    by (simp add: no_panic_def displace_expired_admission_def split: option.split)
qed

lemma prepare_admitted_no_panic: "prepare_admitted_run req s \<noteq> Panic"
  using validate_new_write_no_panic
  by (auto simp: prepare_admitted_run_def prepare_new_run_record_def Let_def
      split: result.split option.split)

lemma check_session_no_panic: "check_session_admits req s \<noteq> Panic"
  by (simp add: check_session_admits_def Let_def split: option.split)

lemma no_panic_admit_commit: "no_panic (op_bind (admit_claim key) (\<lambda>_. commit_admission req run now))"
  by (rule no_panic_op_bind)
     (simp_all add: no_panic_def admit_claim_def commit_admission_def Let_def split: option.split)

text \<open>
  The \<open>unreachable!\<close> arm of the claim match is unreachable: the shape of the request was checked
  before.
\<close>

lemma preflight_claim_no_panic:
  "(acq_replaces_waiting_run_id req \<noteq> None) = (acq_hitl_resume_claim_id req \<noteq> None) \<Longrightarrow>
     preflight_claim_key req s \<noteq> Panic"
  by (auto simp: preflight_claim_key_def Let_def split: option.split)

lemma acquire_no_panic: "fst (acquire_run_admission now req s) \<noteq> Panic"
proof -
  have "fst (op_bind (displace_expired_admission t sid now)
      (\<lambda>_ s1. op_bind (op_lift (check_session_admits req s1))
        (\<lambda>_. op_bind (op_lift (preflight_claim_key req s1))
        (\<lambda>key. op_bind (op_lift (prepare_admitted_run req s1))
        (\<lambda>run. op_bind (admit_claim key) (\<lambda>_. commit_admission req run now)))) s1) s) \<noteq> Panic"
    if shape: "(acq_replaces_waiting_run_id req \<noteq> None) = (acq_hitl_resume_claim_id req \<noteq> None)" for t sid
  proof -
    have "no_panic (op_bind (op_lift (check_session_admits req s1))
        (\<lambda>_. op_bind (op_lift (preflight_claim_key req s1))
        (\<lambda>key. op_bind (op_lift (prepare_admitted_run req s1))
        (\<lambda>run. op_bind (admit_claim key) (\<lambda>_. commit_admission req run now)))))" for s1
      by (intro no_panic_op_bind [OF _ no_panic_op_bind [OF _ no_panic_op_bind [OF _ no_panic_admit_commit]]])
         (simp_all add: check_session_no_panic preflight_claim_no_panic [OF shape] prepare_admitted_no_panic)
    then have "no_panic (\<lambda>s1. op_bind (op_lift (check_session_admits req s1))
        (\<lambda>_. op_bind (op_lift (preflight_claim_key req s1))
        (\<lambda>key. op_bind (op_lift (prepare_admitted_run req s1))
        (\<lambda>run. op_bind (admit_claim key) (\<lambda>_. commit_admission req run now)))) s1)"
      by (simp add: no_panic_def)
    from no_panic_op_bind [OF no_panic_displace this] show ?thesis by (simp add: no_panic_def)
  qed
  then show ?thesis
    unfolding acquire_run_admission_def staged_result
    by (auto simp: acquire_run_admission_locked_def split: option.split)
qed

section \<open>Reconciling control intents\<close>

lemma reconcile_control_keys_Ok:
  assumes "\<forall>k \<in> set ks. map_of (si_run_control_intents s) k \<noteq> None"
  shows "\<exists>s'. reconcile_control_keys t ks s = (Ok (), s')
    \<and> (\<forall>k. k \<notin> set ks \<longrightarrow> map_of (si_run_control_intents s') k = map_of (si_run_control_intents s) k)
    \<and> (\<forall>k \<in> set ks. \<exists>i. map_of (si_run_control_intents s') k = Some i \<and> in_status i = CtlReconciled)"
  using assms
proof (induction ks arbitrary: s)
  case (Cons k ks)
  from Cons.prems obtain i where i: "map_of (si_run_control_intents s) k = Some i" by auto
  obtain i' where i': "intent_advance i CtlReconciled t = Ok i'"
    using intent_advance_reconciled_ok by blast
  let ?s = "s\<lparr>si_control_receipts := bt_insert (cr_receipt_id (in_receipt i')) (in_receipt i')
                 (si_control_receipts s),
      si_run_control_intents := bt_insert k i' (si_run_control_intents s)\<rparr>"
  have st: "in_status i' = CtlReconciled" using intent_advance_status [OF i'] by simp
  have pre: "\<forall>l \<in> set ks. map_of (si_run_control_intents ?s) l \<noteq> None" using Cons.prems by auto
  obtain s' where IH: "reconcile_control_keys t ks ?s = (Ok (), s')"
      "\<forall>l. l \<notin> set ks \<longrightarrow> map_of (si_run_control_intents s') l = map_of (si_run_control_intents ?s) l"
      "\<forall>l \<in> set ks. \<exists>i. map_of (si_run_control_intents s') l = Some i \<and> in_status i = CtlReconciled"
    using Cons.IH [OF pre] by blast
  have "\<exists>j. map_of (si_run_control_intents s') k = Some j \<and> in_status j = CtlReconciled"
    using IH(2) [rule_format, of k] IH(3) st by (cases "k \<in> set ks") auto
  with IH i i' show ?case by (intro exI [of _ s']) auto
qed simp

text \<open>Reconciliation of a lease never fails and leaves no intent of the lease undecided.\<close>

lemma reconcile_intents_Ok:
  assumes wf: "bt_wf (si_run_control_intents s)"
  shows "\<exists>s'. reconcile_run_control_intents_locked lease t s = (Ok (), s')
    \<and> (\<forall>k i. map_of (si_run_control_intents s') k = Some i \<longrightarrow> \<not> control_intent_reconcilable lease i)
    \<and> (\<forall>k i. map_of (si_run_control_intents s) k = Some i \<and> \<not> control_intent_reconcilable lease i
          \<longrightarrow> map_of (si_run_control_intents s') k = Some i)"
proof -
  let ?ks = "map fst (filter (\<lambda>(_, i). control_intent_reconcilable lease i) (si_run_control_intents s))"
  have mem: "k \<in> set ?ks \<longleftrightarrow> (\<exists>i. map_of (si_run_control_intents s) k = Some i
      \<and> control_intent_reconcilable lease i)" for k
    by (auto simp: bt_wf_map_of_iff [OF wf] intro: rev_image_eqI)
  have "\<forall>k \<in> set ?ks. map_of (si_run_control_intents s) k \<noteq> None"
    using mem by (metis option.distinct(1))
  from reconcile_control_keys_Ok [OF this] obtain s' where
    s': "reconcile_control_keys t ?ks s = (Ok (), s')"
      "\<And>k. k \<notin> set ?ks \<Longrightarrow> map_of (si_run_control_intents s') k = map_of (si_run_control_intents s) k"
      "\<And>k. k \<in> set ?ks \<Longrightarrow> \<exists>i. map_of (si_run_control_intents s') k = Some i \<and> in_status i = CtlReconciled"
    by blast
  have "\<not> control_intent_reconcilable lease i" if "map_of (si_run_control_intents s') k = Some i" for k i
  proof (cases "k \<in> set ?ks")
    case True
    with s'(3) [of k] that have "in_status i = CtlReconciled" by (metis option.inject)
    then show ?thesis by (simp add: control_intent_reconcilable_def)
  next
    case False
    then show ?thesis using s'(2) [of k] that mem [of k] by metis
  qed
  moreover have "map_of (si_run_control_intents s') k = Some i"
    if "map_of (si_run_control_intents s) k = Some i" "\<not> control_intent_reconcilable lease i" for k i
    using s'(2) [of k] that mem [of k] by (metis option.inject)
  ultimately show ?thesis
    unfolding reconcile_run_control_intents_locked_def s'(1) by blast
qed

section \<open>Finalization\<close>

text \<open>
  What a finalization under a live lease leaves: the lease is gone, the run is terminal, evidence
  that was already terminal is untouched, and no control intent of the lease is undecided.
\<close>

definition finalized ::
    "run_admission_lease \<Rightarrow> run_terminal_projection \<Rightarrow> store_inner \<Rightarrow> run_record \<Rightarrow> store_inner \<Rightarrow> bool" where
  "finalized lease terminal s run s' \<longleftrightarrow>
     si_run_admissions s' = bt_remove (lease_session_key lease) (si_run_admissions s)
     \<and> map_of (si_runs s') (lease_run_key lease) = Some run
     \<and> run_status_is_terminal (rr_status run)
     \<and> (\<forall>committed. map_of (si_runs s) (lease_run_key lease) = Some committed
          \<longrightarrow> (if run_status_is_terminal (rr_status committed)
               then run = committed \<and> si_runs s' = si_runs s
               else terminal_projection_matches terminal run))
     \<and> (\<forall>k i. map_of (si_run_control_intents s') k = Some i
          \<longrightarrow> \<not> control_intent_reconcilable lease i)"

lemma apply_run_status_spec:
  assumes "apply_run_status_locked sid rid st pv er t s = (Ok run, s')"
  shows "map_of (si_runs s') (sid, rid) = Some run \<and> rr_status run = st
    \<and> rr_output_preview run = pv \<and> rr_terminal_error run = er"
  using assms
  by (auto simp: apply_run_status_locked_def Let_def run_key_def advance_run_revision_Ok
      split: option.splits if_splits result.splits)

lemma finalize_outcome_spec:
  assumes ok: "finalize_outcome t1 lease terminal committed s = (Ok (run, ch), s1)"
    and com: "map_of (si_runs s) (lease_run_key lease) = Some committed"
  shows "records_only s s1 \<and> map_of (si_runs s1) (lease_run_key lease) = Some run
    \<and> run_status_is_terminal (rr_status run)
    \<and> (if run_status_is_terminal (rr_status committed) then run = committed \<and> s1 = s
       else terminal_projection_matches terminal run)"
proof (cases "run_status_is_terminal (rr_status committed)")
  case True
  with ok com show ?thesis by (auto simp: finalize_outcome_def records_only_def)
next
  case False
  with ok have valid: "terminal_projection_validate terminal = Ok ()"
    and app: "apply_run_status_locked (rt_session_id (lease_target lease)) (rt_run_id (lease_target lease))
        (tp_status terminal) (tp_output_preview terminal) (tp_error terminal) t1 s = (Ok run, s1)"
    by (auto simp: finalize_outcome_def op_bind_Ok split: result.splits)
  from valid have "run_status_is_terminal (tp_status terminal)"
    by (auto simp: terminal_projection_validate_def split: if_splits)
  moreover have "records_only s s1"
    using apply_run_status_records_only [of s] app by (metis snd_conv)
  ultimately show ?thesis
    using False apply_run_status_spec [OF app]
    by (auto simp: terminal_projection_matches_def lease_run_key_def run_key_def)
qed

lemma finalize_spec:
  assumes wf: "bt_wf (si_run_control_intents s)"
    and held: "bt_contains (si_run_admissions s) (lease_session_key lease)"
    and ok: "finalize_run_admission env t0 t1 t2 lease terminal s = (Ok run, s')"
  shows "finalized lease terminal s run s'"
proof -
  from ok held have "finalize_staged env t1 t2 lease terminal s = (Ok run, s')"
    by (auto simp: finalize_run_admission_def op_bind_Ok staged_Ok split: if_splits)
  then obtain committed ch s1 s2 s3 where com: "map_of (si_runs s) (lease_run_key lease) = Some committed"
    and out: "finalize_outcome t1 lease terminal committed s = (Ok (run, ch), s1)"
    and pub: "publish_if_changed env lease run ch s1 = (Ok (), s2)"
    and rec: "reconcile_run_control_intents_locked lease t2 s2 = (Ok (), s3)"
    and s': "s' = s3\<lparr>si_run_admissions := bt_remove (lease_session_key lease) (si_run_admissions s3)\<rparr>"
    by (auto simp: finalize_staged_def op_bind_Ok split: option.splits)
  note O = finalize_outcome_spec [OF out com]
  have o12: "outbox_only s1 s2"
    using pub publish_outbox_only [of s1 env "finalize_identity lease run" "[run]"]
    by (auto simp: publish_if_changed_def outbox_only_def split: if_splits)
  have c23: "control_only s2 s3" using rec reconcile_control_only [of s2 lease t2] by simp
  have r01: "records_only s s1" using O by simp
  have "bt_wf (si_run_control_intents s2)"
    using wf by (simp add: outbox_onlyD [OF o12] records_onlyD [OF r01])
  from reconcile_intents_Ok [OF this, of lease t2] rec
  have noint: "\<And>k i. map_of (si_run_control_intents s3) k = Some i \<Longrightarrow> \<not> control_intent_reconcilable lease i"
    by (metis Pair_inject)
  have runs: "si_runs s' = si_runs s1"
    by (simp add: s' control_onlyD [OF c23] outbox_onlyD [OF o12])
  have adm: "si_run_admissions s' = bt_remove (lease_session_key lease) (si_run_admissions s)"
    by (simp add: s' control_onlyD [OF c23] outbox_onlyD [OF o12] records_onlyD [OF r01])
  have int: "si_run_control_intents s' = si_run_control_intents s3" by (simp add: s')
  show ?thesis
    unfolding finalized_def runs adm int com option.inject
  proof (intro conjI allI impI, goal_cases)
    case (4 c)
    then show ?case using O by (simp split: if_splits)
  qed (use O noint in blast)+
qed

lemma finalize_retry:
  assumes "finalized lease terminal s run s'" and "terminal_projection_matches terminal run"
  shows "finalize_run_admission env t0 t1 t2 lease terminal s' = (Ok run, s')"
proof -
  have "\<not> run_status_is_active (tp_status terminal)"
    using assms by (auto simp: finalized_def terminal_projection_matches_def run_status_active_iff)
  moreover have "\<not> bt_contains (si_run_admissions s') (lease_session_key lease)"
    using assms(1) by (simp add: finalized_def)
  ultimately show ?thesis
    using assms by (simp add: finalize_run_admission_def finalized_def)
qed

section \<open>Recovery of expired leases\<close>

text \<open>
  The waiting source of an interrupted continuation. When the effect had started the source is
  cancelled with the indeterminate marker; when it was only admitted the source keeps waiting. In
  both cases the claim is consumed.
\<close>

definition source_settled ::
    "run_key_t \<Rightarrow> run_record \<Rightarrow> hitl_resume_claim \<Rightarrow> store_inner \<Rightarrow> bool \<Rightarrow> store_inner \<Rightarrow> bool" where
  "source_settled key source claim s started s' \<longleftrightarrow>
     started = (claim_state claim = Started)
     \<and> si_hitl_resume_claims s' = bt_remove key (si_hitl_resume_claims s)
     \<and> (if started
        then \<exists>r. map_of (si_runs s') key = Some r \<and> rr_status r = StCancelled
               \<and> unat (rr_revision r) = Suc (unat (rr_revision source))
               \<and> continuation_effect_from_metadata (rr_metadata r)
                   = Ok (Some continuation_effect_indeterminate)
        else si_runs s' = si_runs s)"

lemma settle_source_spec:
  assumes "settle_source_claim key source claim now s = (Ok b, s')"
  shows "source_settled key source claim s b s'"
proof (cases "claim_state claim = Started")
  case True
  with assms obtain s1 where m: "mark_source_indeterminate key source now s = (Ok (), s1)"
    and s': "s' = s1\<lparr>si_hitl_resume_claims := bt_remove key (si_hitl_resume_claims s1)\<rparr>" and b: "b"
    by (auto simp: settle_source_claim_def op_bind_Ok Let_def split: if_splits)
  from m s' b True show ?thesis
    by (auto simp: source_settled_def mark_source_indeterminate_def advance_run_revision_Ok Let_def
        continuation_effect_roundtrip interrupt_expired_run_def unat_u64_add split: result.splits)
next
  case False
  with assms show ?thesis
    by (auto simp: settle_source_claim_def op_bind_Ok Let_def source_settled_def split: if_splits)
qed

lemma terminalize_spec:
  assumes "terminalize_started_hitl_source_locked rep now s = (Ok b, s')"
    and "rr_restore_from_run_id rep = Some src"
    and "map_of (si_runs s) (rr_session_id rep, src) = Some source" and "rr_status source = StWaiting"
  shows "\<exists>claim. map_of (si_hitl_resume_claims s) (rr_session_id rep, src) = Some claim
    \<and> claim_state claim \<noteq> Preflight
    \<and> source_settled (rr_session_id rep, src) source claim s b s'"
  using assms
  by (auto simp: terminalize_started_hitl_source_locked_def Let_def run_key_def settle_source_spec
      split: option.splits if_splits)

text \<open>A run that is not active stays so through every recovery step.\<close>

definition run_settled :: "run_key_t \<Rightarrow> store_inner \<Rightarrow> bool" where
  "run_settled k s \<longleftrightarrow>
     (\<exists>r. map_of (si_runs s) k = Some r \<and> \<not> run_status_is_active (rr_status r))"

lemma interrupt_not_active [simp]: "\<not> run_status_is_active (rr_status (interrupt_expired_run r))"
  by (simp add: interrupt_expired_run_def)

lemma settle_source_run_settled: "keeps (run_settled k) (settle_source_claim sk r c t)"
  unfolding settle_source_claim_def
proof (rule keeps_op_bind)
  have "keeps (run_settled k) (mark_source_indeterminate sk r t)"
    by (rule keepsI) (auto simp: mark_source_indeterminate_def run_settled_def Let_def
        advance_run_revision_Ok split: result.split)
  then show "keeps (run_settled k)
      (if claim_state c = Started then mark_source_indeterminate sk r t else op_lift (Ok ()))"
    by simp
qed (simp add: keeps_def run_settled_def Let_def)

interpretation settled_expiry: lease_expiry "run_settled k" for k
proof
  show "keeps (run_settled k) (terminalize_started_hitl_source_locked r t)" for r t
    by (rule keepsI) (simp add: terminalize_started_hitl_source_locked_def Let_def
        keepsD [OF settle_source_run_settled] split: option.split)
  show "keeps (run_settled k) (cancel_admitted_run lease t eff)" for lease t eff
    by (rule keepsI) (auto simp: cancel_admitted_run_def run_settled_def Let_def
        advance_run_revision_Ok split: option.split result.split)
  show "keeps (run_settled k) (publish_authoritative env i runs)" for env i runs
    by (rule keepsI) (simp add: run_settled_def outbox_onlyD [OF publish_outbox_only])
  show "keeps (run_settled k) (reconcile_run_control_intents_locked lease t)" for lease t
    by (rule keepsI) (simp add: run_settled_def control_onlyD [OF reconcile_control_only])
qed (simp_all add: run_settled_def)

lemma cancel_admitted_settles:
  "cancel_admitted_run lease now eff s = (Ok run, s') \<Longrightarrow> run_settled (lease_run_key lease) s'"
  by (auto simp: cancel_admitted_run_def run_settled_def Let_def advance_run_revision_Ok
      split: option.splits result.splits)

lemma expire_if_active_settles:
  assumes "expire_if_active env lease r now s = (Ok (), s')"
    and "map_of (si_runs s) (lease_run_key lease) = Some r"
  shows "run_settled (lease_run_key lease) s' \<and> si_run_admissions s' = si_run_admissions s"
proof (cases "run_status_is_active (rr_status r)")
  case True
  with assms(1) obtain eff s1 run s2 where
    t: "terminalize_started_hitl_source_locked r now s = (Ok eff, s1)"
    and c: "cancel_admitted_run lease now eff s1 = (Ok run, s2)"
    and p: "publish_authoritative env (expired_identity lease)
      (interrupted_source lease r eff s1 @ [run]) s2 = (Ok (), s')"
    by (auto simp: expire_if_active_def expire_admitted_run_def op_bind_Ok)
  have r1: "records_only s s1" using t terminalize_records_only [of s r now] by simp
  have r2: "records_only s1 s2" using c cancel_admitted_records_only [of s1 lease now eff] by simp
  have r3: "outbox_only s2 s'" using p publish_outbox_only by (metis snd_conv)
  have "run_settled (lease_run_key lease) s'"
    using cancel_admitted_settles [OF c] by (simp add: run_settled_def outbox_onlyD [OF r3])
  moreover have "si_run_admissions s' = si_run_admissions s"
    by (simp add: outbox_onlyD [OF r3] records_onlyD [OF r2] records_onlyD [OF r1])
  ultimately show ?thesis by simp
next
  case False
  with assms show ?thesis by (simp add: expire_if_active_def run_settled_def)
qed

lemma reconcile_expired_one_spec:
  assumes "reconcile_expired_one env now (target, lease) s = (Ok (), s')"
  shows "run_settled (lease_run_key lease) s'
    \<and> si_run_admissions s' = bt_remove target (si_run_admissions s)"
proof -
  from assms obtain r s1 s2 where r: "map_of (si_runs s) (lease_run_key lease) = Some r"
    and e: "expire_if_active env lease r now s = (Ok (), s1)"
    and c: "reconcile_run_control_intents_locked lease now
      (session_modify (rt_session_id (lease_target lease))
         (note_expired (rt_run_id (lease_target lease)) now) s1) = (Ok (), s2)"
    and s': "s' = s2\<lparr>si_run_admissions := bt_remove target (si_run_admissions s2)\<rparr>"
    by (auto simp: reconcile_expired_one_def op_bind_Ok split: option.splits)
  have c2: "control_only (session_modify (rt_session_id (lease_target lease))
         (note_expired (rt_run_id (lease_target lease)) now) s1) s2"
    using c reconcile_control_only by (metis snd_conv)
  from expire_if_active_settles [OF e r] show ?thesis
    by (simp add: s' run_settled_def control_onlyD [OF c2])
qed

lemma reconcile_expired_list_spec:
  assumes "reconcile_expired_list env now es s = (Ok (), s')"
  shows "(\<forall>(target, lease) \<in> set es. run_settled (lease_run_key lease) s')
    \<and> si_run_admissions s' = filter (\<lambda>e. fst e \<notin> fst ` set es) (si_run_admissions s)"
  using assms
proof (induction es arbitrary: s)
  case (Cons e es)
  obtain target lease where e: "e = (target, lease)" by (cases e)
  from Cons.prems obtain s1 where one: "reconcile_expired_one env now (target, lease) s = (Ok (), s1)"
    and rest: "reconcile_expired_list env now es s1 = (Ok (), s')"
    by (auto simp: e op_bind_Ok)
  note S = reconcile_expired_one_spec [OF one]
  have "run_settled (lease_run_key lease) s'"
    using keepsD [OF settled_expiry.keeps_reconcile_expired_list, of _ s1 env now es] S rest by simp
  with Cons.IH [OF rest] S show ?case
    by (auto simp: e bt_remove_def)
qed (simp add: filter_True)

lemma reconcile_expired_spec:
  assumes "reconcile_expired_run_admissions env ns now s = (Ok targets, s')"
  shows "targets = map (\<lambda>(_, lease). lease_target lease) (expired_admissions ns now s)"
    and "expired_admissions ns now s' = []"
    and "\<forall>(target, lease) \<in> set (expired_admissions ns now s). run_settled (lease_run_key lease) s'"
    and "bt_wf (si_run_admissions s) \<Longrightarrow> si_run_admissions s'
           = filter (\<lambda>e. e \<notin> set (expired_admissions ns now s)) (si_run_admissions s)"
proof -
  from assms have t: "targets = map (\<lambda>(_, lease). lease_target lease) (expired_admissions ns now s)"
    and l: "reconcile_expired_list env now (expired_admissions ns now s) s = (Ok (), s')"
    by (auto simp: reconcile_expired_run_admissions_def staged_Ok op_bind_Ok)
  note S = reconcile_expired_list_spec [OF l]
  show "targets = map (\<lambda>(_, lease). lease_target lease) (expired_admissions ns now s)" by (rule t)
  show "\<forall>(target, lease) \<in> set (expired_admissions ns now s). run_settled (lease_run_key lease) s'"
    using S by blast
  show "expired_admissions ns now s' = []"
    using S by (auto simp: expired_admissions_def filter_empty_conv)
  show "si_run_admissions s' = filter (\<lambda>e. e \<notin> set (expired_admissions ns now s)) (si_run_admissions s)"
    if wf: "bt_wf (si_run_admissions s)"
  proof -
    have "e \<in> set (expired_admissions ns now s)"
      if "e \<in> set (si_run_admissions s)" "fst e \<in> fst ` set (expired_admissions ns now s)" for e
    proof -
      from that(2) obtain e' where e': "e' \<in> set (expired_admissions ns now s)" "fst e' = fst e" by auto
      then have "e' \<in> set (si_run_admissions s)" by (simp add: expired_admissions_def)
      with that(1) e'(2) have "e' = e"
        using bt_wf_distinct [OF wf] by (auto simp: distinct_map dest: inj_onD)
      with e' show ?thesis by simp
    qed
    then show ?thesis using S by (auto intro!: filter_cong)
  qed
qed

section \<open>An expired or absent lease does not block\<close>

definition displaceable :: "datetime \<Rightarrow> acquire_run_admission_req \<Rightarrow> session_record \<Rightarrow> store_inner \<Rightarrow> bool" where
  "displaceable now req session s \<longleftrightarrow>
     (case map_of (si_run_admissions s) (acquire_target req) of
        None \<Rightarrow> sr_active_run_id session = None
      | Some l \<Rightarrow> lease_expired_at l now
          \<and> sr_active_run_id session \<in> {None, Some (rt_run_id (lease_target l))}
          \<and> (\<exists>r. map_of (si_runs s) (lease_run_key l) = Some r
               \<and> rr_restore_from_run_id r = None \<and> rr_revision r \<noteq> - 1))"

lemma advance_revision_ok: "rr_revision r \<noteq> - 1 \<Longrightarrow> \<exists>r'. advance_run_revision r = Ok r'"
proof -
  assume "rr_revision r \<noteq> - 1"
  then have "rr_revision r < u64_saturating_add (rr_revision r) 1" by (rule u64_saturating_add_one_strict)
  then have "unat (rr_revision r) < 2 ^ 64 - 1"
    by (simp add: word_less_nat_alt unat_u64_saturating_add)
  then have "unat (rr_revision r) + unat (1::u64) < 2 ^ 64" by simp
  then show ?thesis by (simp add: advance_run_revision_def u64_checked_add_def)
qed

lemma interrupt_if_active_ok:
  assumes "map_of (si_runs s) (lease_run_key l) = Some r" "rr_restore_from_run_id r = None"
    and "rr_revision r \<noteq> - 1"
  shows "\<exists>s1. interrupt_if_active l r now s = (Ok (), s1) \<and> si_sessions s1 = si_sessions s
    \<and> si_run_sequences s1 = si_run_sequences s
    \<and> (\<forall>k. map_of (si_runs s1) k = None \<longleftrightarrow> map_of (si_runs s) k = None)"
proof -
  have "rr_revision (interrupt_expired_run r) \<noteq> - 1"
    using assms(3) by (simp add: interrupt_expired_run_def)
  from advance_revision_ok [OF this] obtain r' where "advance_run_revision (interrupt_expired_run r) = Ok r'" ..
  with assms show ?thesis
    by (auto simp: interrupt_if_active_def interrupt_admitted_run_def cancel_admitted_run_def
        terminalize_started_hitl_source_locked_def op_bind_def op_lift_def Let_def)
qed

lemma displace_ok:
  assumes "displaceable now req session s"
    and "map_of (si_sessions s) (rr_session_id (acq_run req)) = Some session"
  shows "\<exists>s1. displace_expired_admission (acquire_target req) (rr_session_id (acq_run req)) now s = (Ok (), s1)
    \<and> map_of (si_sessions s1) (rr_session_id (acq_run req)) = Some (session\<lparr>sr_active_run_id := None\<rparr>)
    \<and> si_run_sequences s1 = si_run_sequences s
    \<and> (\<forall>k. map_of (si_runs s1) k = None \<longleftrightarrow> map_of (si_runs s) k = None)"
proof (cases "map_of (si_run_admissions s) (acquire_target req)")
  case None
  with assms show ?thesis by (auto simp: displace_expired_admission_def displaceable_def)
next
  case (Some l)
  with assms obtain r where r: "map_of (si_runs s) (lease_run_key l) = Some r"
      "rr_restore_from_run_id r = None" "rr_revision r \<noteq> - 1" and "lease_expired_at l now"
      "sr_active_run_id session \<in> {None, Some (rt_run_id (lease_target l))}"
    by (auto simp: displaceable_def)
  from interrupt_if_active_ok [OF r, of now] obtain s1 where s1:
      "interrupt_if_active l r now s = (Ok (), s1)" "si_sessions s1 = si_sessions s"
      "si_run_sequences s1 = si_run_sequences s"
      "\<forall>k. map_of (si_runs s1) k = None \<longleftrightarrow> map_of (si_runs s) k = None" by blast
  have "clear_active_run (rt_run_id (lease_target l)) session = session\<lparr>sr_active_run_id := None\<rparr>"
    using \<open>sr_active_run_id session \<in> _\<close> by (auto simp: clear_active_run_def)
  with Some r(1) s1 \<open>lease_expired_at l now\<close> assms(2) show ?thesis
    by (auto simp: displace_expired_admission_def op_bind_def session_modify_def simp del: split_paired_All)
qed

lemma acquire_succeeds:
  assumes session: "map_of (si_sessions s) (rr_session_id (acq_run req)) = Some session"
      "sr_namespace_id session = acq_namespace_id req" "sr_status session = SessActive"
      "sr_deletion_fence session = Stable"
    and new: "map_of (si_run_admission_idempotency s) (acq_namespace_id req, acq_idempotency_key req) = None"
    and plain: "acq_replaces_waiting_run_id req = None" "acq_hitl_resume_claim_id req = None"
    and run: "map_of (si_runs s) (run_key (rr_session_id (acq_run req)) (rr_run_id (acq_run req))) = None"
      "rr_sequence_no (acq_run req) = 0"
    and room: "\<And>q. map_of (si_run_sequences s) (rr_session_id (acq_run req)) = Some q \<Longrightarrow>
        \<forall>(n, _) \<in> set q. n \<noteq> - 1"
    and holder: "displaceable now req session s"
  shows "\<exists>rc s'. acquire_run_admission now req s = (Ok rc, s') \<and> \<not> rar_idempotent_replay rc"
proof -
  obtain s1 where s1:
    "displace_expired_admission (acquire_target req) (rr_session_id (acq_run req)) now s = (Ok (), s1)"
    "map_of (si_sessions s1) (rr_session_id (acq_run req)) = Some (session\<lparr>sr_active_run_id := None\<rparr>)"
    "si_run_sequences s1 = si_run_sequences s"
    "\<forall>k. map_of (si_runs s1) k = None \<longleftrightarrow> map_of (si_runs s) k = None"
    using displace_ok [OF holder session(1)] by blast
  have admits: "check_session_admits req s1 = Ok ()"
    using s1(2) session plain by (simp add: check_session_admits_def Let_def)
  have no_claim: "preflight_claim_key req s1 = Ok None"
    using plain by (simp add: preflight_claim_key_def Let_def)
  have fresh_run: "\<not> bt_contains (si_runs s1) (run_key (rr_session_id (acq_run req)) (rr_run_id (acq_run req)))"
    using s1(4) run(1) by (simp add: bt_contains_def del: split_paired_All)
  define top where "top = (case map_of (si_run_sequences s) (rr_session_id (acq_run req)) of
      None \<Rightarrow> 0 | Some q \<Rightarrow> (case bt_last q of None \<Rightarrow> 0 | Some (n, _) \<Rightarrow> n))"
  have "top \<noteq> - 1"
    using room by (fastforce simp: top_def bt_last_def split: option.splits if_splits prod.splits)
  then have "unat top + unat (1::u64) < 2 ^ 64"
    using advance_revision_ok [of "(acq_run req)\<lparr>rr_revision := top\<rparr>"]
    by (auto simp: advance_run_revision_def u64_checked_add_def split: if_splits)
  then have "u64_checked_add top 1 = Some (top + 1)" by (simp add: u64_checked_add_def)
  then obtain prepared where prep: "prepare_admitted_run req s1 = Ok prepared"
      "rr_session_id prepared = rr_session_id (acq_run req)"
    using fresh_run run(2) s1(3)
    by (simp add: prepare_admitted_run_def prepare_new_run_record_def run_normalize_for_admission_def
        run_validate_new_write_def run_terminal_projection_of_def Let_def top_def)
  obtain rc s' where commit: "commit_admission req prepared now s1 = (Ok rc, s')" "\<not> rar_idempotent_replay rc"
    using s1(2) prep(2) by (auto simp: commit_admission_def insert_prepared_run_record_def Let_def)
  have "acquire_run_admission_locked now req s = (Ok rc, s')"
    using new plain s1(1) admits no_claim prep(1) commit(1)
    by (simp add: acquire_run_admission_locked_def acquire_target_def op_bind_def op_lift_def admit_claim_def)
  then show ?thesis using commit(2) by (auto simp: acquire_run_admission_def staged_Ok)
qed

end
