(* ===== verification/Store_Control.thy ===== *)
theory Store_Control
  imports Store_Admission
begin

text \<open>
  Durable live-run control in the store (\<open>admit_run_control\<close> to \<open>update_control_receipt_state\<close>
  of \<open>starweaver-session/src/store/memory.rs\<close>): an intent is admitted once under a live lease,
  advances through delivery and consumption under the same lease, and is reconciled when the run
  ends. The older receipt reservation path shares the receipt table.
\<close>

definition msg_empty_identity :: string where
  "msg_empty_identity = ''durable run control identity fields cannot be empty''"

definition msg_different_evidence :: "string \<Rightarrow> string" where
  "msg_different_evidence op =
     ''run control operation '' @ op @ '' already has different evidence''"

definition msg_receipt_exists :: "string \<Rightarrow> string" where
  "msg_receipt_exists rid = ''control receipt '' @ rid @ '' already exists''"

definition msg_control_page_limit :: string where
  "msg_control_page_limit = ''run control page limit must be between 1 and 200''"

definition msg_stale_intent :: string where
  "msg_stale_intent = ''run control intent belongs to a stale admission''"

definition msg_unexpected_status ::
    "string \<Rightarrow> durable_run_control_status \<Rightarrow> durable_run_control_status \<Rightarrow> string" where
  "msg_unexpected_status op actual expected =
     ''run control operation '' @ op @ '' is '' @ control_status_as_str actual
     @ '', expected '' @ control_status_as_str expected"

definition msg_stale_control_generation :: string where
  "msg_stale_control_generation = ''stale control generation''"

section \<open>Operations\<close>

definition control_identity_empty :: "admit_run_control_req \<Rightarrow> bool" where
  "control_identity_empty req \<longleftrightarrow>
     arc_authority_binding req = [] \<or> arc_operation_id req = [] \<or> arc_receipt_id req = []
     \<or> arc_idempotency_key req = [] \<or> arc_command_fingerprint req = []"

definition intent_by_authority ::
    "admit_run_control_req \<Rightarrow> store_inner \<Rightarrow> durable_run_control_intent option" where
  "intent_by_authority req s =
     (case map_of (si_run_control_authority_keys s)
             (arc_authority_binding req, arc_idempotency_key req) of
        None \<Rightarrow> None
      | Some key \<Rightarrow> map_of (si_run_control_intents s) key)"

definition admit_new_control :: "datetime \<Rightarrow> admit_run_control_req
    \<Rightarrow> durable_run_control_intent store_op" where
  "admit_new_control now req s =
     (let target = lease_target (arc_lease req);
          intent_key = (target, arc_operation_id req);
          receipt_key = (target, arc_idempotency_key req)
      in case ensure_active_admission_locked s (arc_lease req) now of
           Err e \<Rightarrow> (Err e, s)
         | Panic \<Rightarrow> (Panic, s)
         | Ok _ \<Rightarrow>
             (case map_of (si_control_idempotency s) receipt_key of
                Some existing_id \<Rightarrow> (Err (IdempotencyConflict existing_id), s)
              | None \<Rightarrow>
                  if bt_contains (si_control_receipts s) (arc_receipt_id req)
                  then (Err (Conflict (msg_receipt_exists (arc_receipt_id req))), s)
                  else
                    let intent = into_intent req;
                        rid = cr_receipt_id (in_receipt intent)
                    in (Ok intent,
                        s\<lparr>si_control_idempotency :=
                            bt_insert receipt_key rid (si_control_idempotency s),
                          si_control_receipts :=
                            bt_insert rid (in_receipt intent) (si_control_receipts s),
                          si_run_control_authority_keys :=
                            bt_insert (arc_authority_binding req, arc_idempotency_key req)
                              intent_key (si_run_control_authority_keys s),
                          si_run_control_intents :=
                            bt_insert intent_key intent (si_run_control_intents s)\<rparr>)))"

definition admit_run_control ::
    "datetime \<Rightarrow> admit_run_control_req \<Rightarrow> durable_run_control_intent store_op" where
  "admit_run_control now req s =
     (if control_identity_empty req then (Err (Conflict msg_empty_identity), s)
      else case intent_by_authority req s of
          Some existing \<Rightarrow>
            (if matches_admission existing req then Ok existing
             else Err (IdempotencyConflict (arc_idempotency_key req)), s)
        | None \<Rightarrow>
            (case map_of (si_run_control_intents s)
                    (lease_target (arc_lease req), arc_operation_id req) of
               Some existing \<Rightarrow>
                 (if matches_admission existing req then Ok existing
                  else Err (Conflict (msg_different_evidence (arc_operation_id req))), s)
             | None \<Rightarrow> admit_new_control now req s))"

definition load_run_control_intent ::
    "managed_run_target \<Rightarrow> string \<Rightarrow> store_inner \<Rightarrow> durable_run_control_intent option store_result" where
  "load_run_control_intent target op s = Ok (map_of (si_run_control_intents s) (target, op))"

definition list_run_control_intents ::
    "managed_run_target \<Rightarrow> durable_run_control_status list \<Rightarrow> u64 \<Rightarrow> store_inner
     \<Rightarrow> durable_run_control_intent list store_result" where
  "list_run_control_intents target statuses limit s =
     (if limit = 0 \<or> limit > max_stable_page_size then Err (Conflict msg_control_page_limit)
      else Ok (take (unat limit)
        (sort_key (\<lambda>i. (in_created_at i, in_operation_id i))
          (filter (\<lambda>i. in_target i = target \<and> (statuses = [] \<or> in_status i \<in> set statuses))
            (bt_values (si_run_control_intents s))))))"

definition store_intent ::
    "managed_run_target \<times> string \<Rightarrow> durable_run_control_intent \<Rightarrow> store_inner \<Rightarrow> store_inner" where
  "store_intent key i s =
     s\<lparr>si_control_receipts :=
         bt_insert (cr_receipt_id (in_receipt i)) (in_receipt i) (si_control_receipts s),
       si_run_control_intents := bt_insert key i (si_run_control_intents s)\<rparr>"

definition advance_run_control_intent ::
    "datetime \<Rightarrow> run_admission_lease \<Rightarrow> string \<Rightarrow> durable_run_control_status
     \<Rightarrow> durable_run_control_status \<Rightarrow> datetime \<Rightarrow> durable_run_control_intent store_op" where
  "advance_run_control_intent now lease op expected nxt occurred_at s =
     (let key = (lease_target lease, op) in
      case ensure_active_admission_locked s lease now of
        Err e \<Rightarrow> (Err e, s)
      | Panic \<Rightarrow> (Panic, s)
      | Ok _ \<Rightarrow>
          (case map_of (si_run_control_intents s) key of
             None \<Rightarrow> (Err (NotFound op), s)
           | Some i \<Rightarrow>
               if in_admission_id i \<noteq> lease_admission_id lease
                  \<or> in_host_instance_id i \<noteq> lease_host_instance_id lease
                  \<or> in_fencing_generation i \<noteq> lease_fencing_generation lease
               then (Err (StaleFence msg_stale_intent), s)
               else if in_status i \<noteq> expected \<and> in_status i \<noteq> nxt
               then (Err (Conflict (msg_unexpected_status op (in_status i) expected)), s)
               else
                 (case intent_advance i nxt occurred_at of
                    Err e \<Rightarrow> (Err (Conflict e), s)
                  | Panic \<Rightarrow> (Panic, s)
                  | Ok i' \<Rightarrow> (Ok i', store_intent key i' s))))"

definition reconcile_run_control_intent ::
    "managed_run_target \<Rightarrow> string \<Rightarrow> datetime \<Rightarrow> durable_run_control_intent store_op" where
  "reconcile_run_control_intent target op occurred_at s =
     (case map_of (si_run_control_intents s) (target, op) of
        None \<Rightarrow> (Err (NotFound op), s)
      | Some i \<Rightarrow>
          (case intent_advance i CtlReconciled occurred_at of
             Err e \<Rightarrow> (Err (Conflict e), s)
           | Panic \<Rightarrow> (Panic, s)
           | Ok i' \<Rightarrow> (Ok i', store_intent (target, op) i' s)))"

definition load_control_receipt ::
    "managed_run_target \<Rightarrow> string \<Rightarrow> store_inner \<Rightarrow> durable_control_receipt option store_result" where
  "load_control_receipt target key s =
     Ok (case map_of (si_control_idempotency s) (target, key) of
           None \<Rightarrow> None
         | Some rid \<Rightarrow> map_of (si_control_receipts s) rid)"

definition reserve_control_receipt ::
    "durable_control_receipt \<Rightarrow> durable_control_receipt store_op" where
  "reserve_control_receipt receipt s =
     (let key = (cr_target receipt, cr_idempotency_key receipt);
          existing = (case map_of (si_control_idempotency s) key of
                        None \<Rightarrow> None
                      | Some rid \<Rightarrow> map_of (si_control_receipts s) rid)
      in case existing of
           Some e \<Rightarrow>
             (if cr_command_fingerprint e = cr_command_fingerprint receipt then Ok e
              else Err (IdempotencyConflict (cr_idempotency_key receipt)), s)
         | None \<Rightarrow>
             (case map_of (si_run_admissions s)
                     (managed_session_target_new (rt_namespace_id (cr_target receipt))
                        (rt_session_id (cr_target receipt))) of
                None \<Rightarrow> (Err (Conflict msg_no_active_owner_lease), s)
              | Some lease \<Rightarrow>
                  if lease_target lease \<noteq> cr_target receipt
                     \<or> lease_fencing_generation lease \<noteq> cr_fencing_generation receipt
                  then (Err (Conflict msg_stale_control_generation), s)
                  else (Ok receipt,
                        s\<lparr>si_control_idempotency :=
                            bt_insert key (cr_receipt_id receipt) (si_control_idempotency s),
                          si_control_receipts :=
                            bt_insert (cr_receipt_id receipt) receipt (si_control_receipts s)\<rparr>)))"

definition update_control_receipt_state ::
    "string \<Rightarrow> string \<Rightarrow> durable_control_receipt store_op" where
  "update_control_receipt_state rid state s =
     (case map_of (si_control_receipts s) rid of
        None \<Rightarrow> (Err (NotFound rid), s)
      | Some r \<Rightarrow>
          let r' = r\<lparr>cr_state := state\<rparr>
          in (Ok r', s\<lparr>si_control_receipts := bt_insert rid r' (si_control_receipts s)\<rparr>))"

section \<open>The control invariant\<close>

text \<open>
  Every intent is stored under its own target and operation, is consistent, and is the one its
  authority binding and idempotency key lead to; every authority key leads to an intent.
\<close>

definition intents_ok ::
    "(managed_run_target \<times> string, durable_run_control_intent) btmap
     \<Rightarrow> (string \<times> string, managed_run_target \<times> string) btmap \<Rightarrow> bool" where
  "intents_ok intents authority \<longleftrightarrow>
     bt_wf intents
     \<and> (\<forall>k i. map_of intents k = Some i
          \<longrightarrow> k = (in_target i, in_operation_id i) \<and> intent_consistent i
              \<and> map_of authority (in_authority_binding i, in_idempotency_key i) = Some k)
     \<and> (\<forall>a k. map_of authority a = Some k \<longrightarrow> map_of intents k \<noteq> None)"

lemma intents_ok_wf: "intents_ok intents authority \<Longrightarrow> bt_wf intents"
  by (simp add: intents_ok_def)

lemma intents_ok_lookup:
  assumes "intents_ok intents authority" and "map_of intents k = Some i"
  shows "k = (in_target i, in_operation_id i)" and "intent_consistent i"
    and "map_of authority (in_authority_binding i, in_idempotency_key i) = Some k"
  using assms unfolding intents_ok_def by blast+

lemma intents_ok_authority:
  "intents_ok intents authority \<Longrightarrow> map_of authority a = Some k \<Longrightarrow> map_of intents k \<noteq> None"
  unfolding intents_ok_def by blast

definition control_inv :: "store_inner \<Rightarrow> bool" where
  "control_inv s \<longleftrightarrow> intents_ok (si_run_control_intents s) (si_run_control_authority_keys s)"

lemma control_inv_new: "control_inv store_new"
  by (simp add: control_inv_def intents_ok_def store_new_def)

lemma control_inv_frame:
  "si_run_control_intents s' = si_run_control_intents s \<Longrightarrow>
     si_run_control_authority_keys s' = si_run_control_authority_keys s \<Longrightarrow>
     control_inv s' = control_inv s"
  by (simp add: control_inv_def)

lemma intents_ok_advance:
  assumes ok: "intents_ok intents authority" and i: "map_of intents k = Some i"
    and adv: "intent_advance i nxt t = Ok i'"
  shows "intents_ok (bt_insert k i' intents) authority"
proof -
  note F = intent_advance_frame [OF adv]
  have "intent_consistent i'"
    using ok i intent_advance_consistent [OF _ adv] unfolding intents_ok_def by blast
  with ok i F show ?thesis unfolding intents_ok_def by auto
qed

lemma intents_ok_admit:
  assumes ok: "intents_ok intents authority"
    and fresh: "map_of intents (lease_target (arc_lease req), arc_operation_id req) = None"
    and auth: "case map_of authority (arc_authority_binding req, arc_idempotency_key req) of
        None \<Rightarrow> True | Some k \<Rightarrow> map_of intents k = None"
  shows "intents_ok
    (bt_insert (lease_target (arc_lease req), arc_operation_id req) (into_intent req) intents)
    (bt_insert (arc_authority_binding req, arc_idempotency_key req)
       (lease_target (arc_lease req), arc_operation_id req) authority)"
proof -
  let ?k = "(lease_target (arc_lease req), arc_operation_id req)"
  let ?a = "(arc_authority_binding req, arc_idempotency_key req)"
  have noauth: "map_of authority ?a = None"
  proof (cases "map_of authority ?a")
    case (Some k)
    with ok have "map_of intents k \<noteq> None" unfolding intents_ok_def by blast
    with auth Some show ?thesis by simp
  qed
  have fields: "in_target (into_intent req) = lease_target (arc_lease req)"
    "in_operation_id (into_intent req) = arc_operation_id req"
    "in_authority_binding (into_intent req) = arc_authority_binding req"
    "in_idempotency_key (into_intent req) = arc_idempotency_key req"
    by (simp_all add: into_intent_def Let_def)
  have old: "(in_authority_binding i, in_idempotency_key i) \<noteq> ?a" if "map_of intents k = Some i" for k i
    using ok that noauth unfolding intents_ok_def by (metis option.distinct(1))
  have "k = (in_target i, in_operation_id i) \<and> intent_consistent i
      \<and> map_of (bt_insert ?a ?k authority) (in_authority_binding i, in_idempotency_key i) = Some k"
    if "map_of (bt_insert ?k (into_intent req) intents) k = Some i" for k i
  proof (cases "k = ?k")
    case True
    with that have "i = into_intent req" by simp
    with True show ?thesis by (simp add: fields into_intent_consistent)
  next
    case False
    with that have i: "map_of intents k = Some i" by auto
    with ok have "k = (in_target i, in_operation_id i) \<and> intent_consistent i
        \<and> map_of authority (in_authority_binding i, in_idempotency_key i) = Some k"
      unfolding intents_ok_def by blast
    with old [OF i] show ?thesis by (auto simp del: Pair_inject)
  qed
  moreover have "map_of (bt_insert ?k (into_intent req) intents) k \<noteq> None"
    if "map_of (bt_insert ?a ?k authority) a = Some k" for a k
    using intents_ok_authority [OF ok, of a k] that by (auto split: if_splits)
  moreover have "bt_wf (bt_insert ?k (into_intent req) intents)"
    using ok by (simp add: intents_ok_def)
  ultimately show ?thesis unfolding intents_ok_def by blast
qed

lemma admit_control_inv: "keeps control_inv (admit_run_control now req)"
proof (rule keepsI)
  fix s
  assume inv: "control_inv s"
  have "control_inv (snd (admit_new_control now req s))"
    if "intent_by_authority req s = None"
      "map_of (si_run_control_intents s) (lease_target (arc_lease req), arc_operation_id req) = None"
  proof -
    from that(1) have auth: "case map_of (si_run_control_authority_keys s)
          (arc_authority_binding req, arc_idempotency_key req) of
        None \<Rightarrow> True | Some k \<Rightarrow> map_of (si_run_control_intents s) k = None"
      by (simp add: intent_by_authority_def split: option.splits del: split_paired_All)
    from intents_ok_admit [OF _ that(2) auth] inv show ?thesis
      by (simp add: admit_new_control_def control_inv_def Let_def split: result.split option.split)
  qed
  with inv show "control_inv (snd (admit_run_control now req s))"
    by (simp add: admit_run_control_def split: option.split)
qed

lemma store_intent_inv:
  "control_inv s \<Longrightarrow> map_of (si_run_control_intents s) k = Some i \<Longrightarrow> intent_advance i nxt t = Ok i' \<Longrightarrow>
     control_inv (store_intent k i' s)"
  by (simp add: control_inv_def store_intent_def intents_ok_advance)

lemma advance_control_inv: "keeps control_inv (advance_run_control_intent now lease op ex nxt t)"
  by (rule keepsI) (auto simp: advance_run_control_intent_def Let_def intro: store_intent_inv
      split: result.split option.split)

lemma reconcile_one_control_inv: "keeps control_inv (reconcile_run_control_intent target op t)"
  by (rule keepsI) (auto simp: reconcile_run_control_intent_def intro: store_intent_inv
      split: result.split option.split)

lemma reserve_control_inv: "keeps control_inv (reserve_control_receipt r)"
  by (rule keepsI) (simp add: reserve_control_receipt_def Let_def control_inv_def split: option.split)

lemma update_receipt_control_inv: "keeps control_inv (update_control_receipt_state rid st)"
  by (rule keepsI) (simp add: update_control_receipt_state_def Let_def control_inv_def split: option.split)

lemma reconcile_keys_control_inv: "keeps control_inv (reconcile_control_keys t ks)"
proof (rule keepsI)
  show "control_inv s \<Longrightarrow> control_inv (snd (reconcile_control_keys t ks s))" for s
  proof (induction t ks s rule: reconcile_control_keys.induct)
    case (2 t k ks s)
    show ?case
    proof (cases "map_of (si_run_control_intents s) k")
      case (Some i)
      obtain i' where i': "intent_advance i CtlReconciled t = Ok i'"
        using intent_advance_reconciled_ok by blast
      have "control_inv (store_intent k i' s)"
        using "2.prems" Some i' by (rule store_intent_inv)
      with "2.IH" [OF Some i'] Some i' show ?thesis by (simp add: store_intent_def)
    qed (use "2.prems" in simp)
  qed simp
qed

interpretation control_cleanup: lease_cleanup control_inv
proof
  show "keeps control_inv (terminalize_started_hitl_source_locked r t)" for r t
    by (rule keepsI) (simp add: control_inv_def records_onlyD [OF terminalize_records_only])
  show "keeps control_inv (cancel_admitted_run lease t eff)" for lease t eff
    by (rule keepsI) (simp add: control_inv_def records_onlyD [OF cancel_admitted_records_only])
  show "keeps control_inv (publish_authoritative env i runs)" for env i runs
    by (rule keepsI) (simp add: control_inv_def outbox_onlyD [OF publish_outbox_only])
  show "keeps control_inv (reconcile_run_control_intents_locked lease t)" for lease t
    using reconcile_keys_control_inv
    by (simp add: reconcile_run_control_intents_locked_def keeps_def)
  show "keeps control_inv (apply_run_status_locked sid rid st pv er t)" for sid rid st pv er t
    by (rule keepsI) (simp add: control_inv_def records_onlyD [OF apply_run_status_records_only])
qed (simp_all add: control_inv_def)

lemma acquire_control_inv: "keeps control_inv (acquire_run_admission now req)"
  unfolding acquire_run_admission_def
proof (rule keeps_stagedI)
  fix s x s'
  assume inv: "control_inv s" and "acquire_run_admission_locked now req s = (Ok x, s')"
  from this(2) show "control_inv s'"
  proof (cases rule: acquire_locked_Ok_cases)
    case (fresh s1 key run s2)
    have "control_inv s1" using inv fresh(2) by (rule control_cleanup.keeps_displace)
    with fresh(6,7) show ?thesis
      by (auto simp: admit_claim_def commit_admission_def control_inv_def Let_def
          insert_prepared_run_record_def split: option.splits)
  qed (use inv in simp)
qed

section \<open>Admission and advance\<close>

text \<open>
  What an admitted intent looks like to the next attempt: an exact retry returns the stored
  intent, whatever its state and whatever happened to the lease.
\<close>

lemma admit_Ok_stored:
  assumes inv: "control_inv s" and ok: "admit_run_control now req s = (Ok i, s')"
  shows "map_of (si_run_control_intents s') (lease_target (arc_lease req), arc_operation_id req) = Some i
    \<and> matches_admission i req
    \<and> map_of (si_run_control_authority_keys s') (arc_authority_binding req, arc_idempotency_key req)
        = Some (lease_target (arc_lease req), arc_operation_id req)
    \<and> \<not> control_identity_empty req"
proof -
  let ?k = "(lease_target (arc_lease req), arc_operation_id req)"
  have old: "?thesis" if m: "map_of (si_run_control_intents s) k = Some i" and "matches_admission i req"
      "s' = s" "\<not> control_identity_empty req" for k
  proof -
    from inv m have "k = (in_target i, in_operation_id i)"
      "map_of (si_run_control_authority_keys s) (in_authority_binding i, in_idempotency_key i) = Some k"
      unfolding control_inv_def intents_ok_def by blast+
    with that show ?thesis by (simp add: matches_admission_def)
  qed
  show ?thesis
  proof (cases "intent_by_authority req s")
    case (Some e)
    then obtain k where k: "map_of (si_run_control_intents s) k = Some e"
      by (auto simp: intent_by_authority_def split: option.splits)
    from Some ok have "matches_admission i req" "i = e" "s' = s" "\<not> control_identity_empty req"
      by (auto simp: admit_run_control_def split: if_splits)
    with k show ?thesis by (intro old [of k]) simp_all
  next
    case None
    show ?thesis
    proof (cases "map_of (si_run_control_intents s) ?k")
      case (Some e)
      with None ok have "matches_admission i req" "i = e" "s' = s" "\<not> control_identity_empty req"
        by (auto simp: admit_run_control_def split: if_splits)
      with Some show ?thesis by (intro old [of ?k]) simp_all
    next
      case nokey: None
      with None ok show ?thesis
        by (auto simp: admit_run_control_def admit_new_control_def Let_def into_intent_matches
            split: if_splits result.splits option.splits)
    qed
  qed
qed

lemma admit_retry:
  assumes "map_of (si_run_control_intents s) k = Some i" and "matches_admission i req"
    and "map_of (si_run_control_authority_keys s) (arc_authority_binding req, arc_idempotency_key req) = Some k"
    and "\<not> control_identity_empty req"
  shows "admit_run_control now req s = (Ok i, s)"
  using assms by (simp add: admit_run_control_def intent_by_authority_def)

lemma advance_spec:
  assumes "advance_run_control_intent now lease op ex nxt t s = (Ok i', s')"
  shows "\<exists>i. map_of (si_run_control_intents s) (lease_target lease, op) = Some i
    \<and> can_advance_to (in_status i) nxt \<and> in_status i' = nxt
    \<and> in_admission_id i = lease_admission_id lease
    \<and> in_fencing_generation i = lease_fencing_generation lease
    \<and> ensure_active_admission_locked s lease now = Ok ()
    \<and> map_of (si_run_control_intents s') = (map_of (si_run_control_intents s))((lease_target lease, op) \<mapsto> i')
    \<and> map_of (si_control_receipts s') (cr_receipt_id (in_receipt i')) = Some (in_receipt i')"
  using assms intent_advance_status
  by (auto simp: advance_run_control_intent_def Let_def store_intent_def
      split: result.splits option.splits if_splits)

interpretation advance_fenced: fenced_operation
  "\<lambda>t lease. advance_run_control_intent t lease op ex nxt occ" for op ex nxt occ
proof
  fix s :: store_inner and lease cur t
  assume "map_of (si_run_admissions s) (lease_session_key lease) = Some cur"
    "\<not> same_owner cur lease \<or> lease_expired_at cur t"
  then obtain e where "ensure_active_admission_locked s lease t = Err (StaleFence e)"
    using ensure_active_rejects by blast
  then show "\<not> is_ok (fst (advance_run_control_intent t lease op ex nxt occ s))
      \<and> snd (advance_run_control_intent t lease op ex nxt occ s) = s"
    by (simp add: advance_run_control_intent_def Let_def)
qed

lemma list_control_spec:
  assumes "control_inv s" and "list_run_control_intents target statuses limit s = Ok is"
  shows "length is \<le> unat limit"
    and "sorted (map (\<lambda>i. (in_created_at i, in_operation_id i)) is)"
    and "set is \<subseteq> {i. in_target i = target \<and> (statuses = [] \<or> in_status i \<in> set statuses)
           \<and> map_of (si_run_control_intents s) (target, in_operation_id i) = Some i}"
proof -
  let ?key = "\<lambda>i. (in_created_at i, in_operation_id i)"
  let ?all = "sort_key ?key (filter (\<lambda>i. in_target i = target \<and> (statuses = [] \<or> in_status i \<in> set statuses))
            (bt_values (si_run_control_intents s)))"
  from assms(2) have is': "is = take (unat limit) ?all"
    by (simp add: list_run_control_intents_def split: if_splits)
  show "length is \<le> unat limit" by (simp add: is')
  show "sorted (map ?key is)"
    unfolding is' take_map [symmetric] by (rule sorted_wrt_take) (rule sorted_sort_key)
  show "set is \<subseteq> {i. in_target i = target \<and> (statuses = [] \<or> in_status i \<in> set statuses)
           \<and> map_of (si_run_control_intents s) (target, in_operation_id i) = Some i}"
  proof
    fix i
    assume "i \<in> set is"
    then have "i \<in> set ?all" unfolding is' by (rule in_set_takeD)
    then have i: "in_target i = target" "statuses = [] \<or> in_status i \<in> set statuses"
      "i \<in> set (bt_values (si_run_control_intents s))" by auto
    from i(3) obtain k where "(k, i) \<in> set (si_run_control_intents s)" by (auto simp: bt_values_def)
    then have "map_of (si_run_control_intents s) k = Some i"
      using assms(1) unfolding control_inv_def by (simp add: bt_wf_map_of_iff [OF intents_ok_wf])
    moreover from this have "k = (in_target i, in_operation_id i)"
      using assms(1) unfolding control_inv_def by (blast dest: intents_ok_lookup(1))
    ultimately show "i \<in> {i. in_target i = target \<and> (statuses = [] \<or> in_status i \<in> set statuses)
           \<and> map_of (si_run_control_intents s) (target, in_operation_id i) = Some i}"
      using i by simp
  qed
qed

end
