(* ===== verification/Store_Claims.thy ===== *)
theory Store_Claims
  imports Store_Admission
begin

text \<open>
  HITL resume claims in the store (\<open>claim_hitl_resume\<close>, \<open>start_hitl_resume_effect\<close>,
  \<open>abort_admitted_hitl_resume\<close>, \<open>mark_hitl_resume_started\<close>, \<open>release_hitl_resume_claim\<close> of
  \<open>starweaver-session/src/store/memory.rs\<close>). A claim is made on a waiting run before its approved
  effect, admitted together with the replacement run, and started before the effect; from then
  on no caller can take it back.
\<close>

definition msg_invalid_preflight :: string where
  "msg_invalid_preflight = ''invalid HITL preflight claim''"

definition msg_not_waiting :: "run_id \<Rightarrow> string" where
  "msg_not_waiting rid = ''run '' @ rid @ '' is not waiting''"

definition msg_active_claim :: "run_id \<Rightarrow> string" where
  "msg_active_claim rid = ''run '' @ rid @ '' already has an active resume claim''"

definition msg_unbound_admission :: string where
  "msg_unbound_admission = ''active admission is not bound to the HITL source run''"

definition msg_source_not_waiting :: string where
  "msg_source_not_waiting = ''HITL source run is not waiting''"

definition msg_invalid_admitted_claim :: "run_id \<Rightarrow> string" where
  "msg_invalid_admitted_claim rid = ''invalid admitted resume claim for run '' @ rid"

definition msg_invalid_claim :: "run_id \<Rightarrow> string" where
  "msg_invalid_claim rid = ''invalid resume claim for run '' @ rid"

definition msg_claim_changed_aborting :: "run_id \<Rightarrow> string" where
  "msg_claim_changed_aborting rid = ''admitted resume claim changed while aborting run '' @ rid"

definition msg_claim_conflict :: "run_id \<Rightarrow> string" where
  "msg_claim_conflict rid = ''resume claim conflict for run '' @ rid"

definition msg_started_claim :: "run_id \<Rightarrow> string" where
  "msg_started_claim rid = ''started resume claim for run '' @ rid @ '' cannot be released''"

section \<open>Operations\<close>

definition claim_hitl_resume :: "hitl_resume_claim \<Rightarrow> unit store_op" where
  "claim_hitl_resume claim s =
     (if \<not> claim_is_valid_preflight claim then (Err (StoreFailed msg_invalid_preflight), s)
      else
        let key = run_key (claim_session_id claim) (claim_run_id claim) in
        case map_of (si_runs s) key of
          None \<Rightarrow> (Err (NotFound (run_key_label (claim_session_id claim) (claim_run_id claim))), s)
        | Some run \<Rightarrow>
            if rr_status run \<noteq> StWaiting
            then (Err (StoreFailed (msg_not_waiting (claim_run_id claim))), s)
            else case map_of (si_hitl_resume_claims s) key of
                Some existing \<Rightarrow>
                  if claim_claim_id existing = claim_claim_id claim
                     \<and> claim_session_id existing = claim_session_id claim
                     \<and> claim_run_id existing = claim_run_id claim
                     \<and> claim_state existing = Preflight
                  then (Ok (), s)
                  else (Err (StoreFailed (msg_active_claim (claim_run_id claim))), s)
              | None \<Rightarrow>
                  (Ok (), s\<lparr>si_hitl_resume_claims :=
                     bt_insert key claim (si_hitl_resume_claims s)\<rparr>))"

text \<open>
  The checks that starting and aborting share: a live lease whose active run restores from the
  waiting source, and a claim on that source. The result is the claim.
\<close>

definition bound_claim ::
    "datetime \<Rightarrow> run_admission_lease \<Rightarrow> run_id \<Rightarrow> store_inner \<Rightarrow> hitl_resume_claim store_result" where
  "bound_claim now lease source_run_id s =
     (let sid = rt_session_id (lease_target lease) in
      case ensure_active_admission_locked s lease now of
        Err e \<Rightarrow> Err e
      | Panic \<Rightarrow> Panic
      | Ok _ \<Rightarrow>
          (case map_of (si_runs s) (lease_run_key lease) of
             None \<Rightarrow> Err (NotFound (lease_run_label lease))
           | Some target \<Rightarrow>
               if rr_restore_from_run_id target \<noteq> Some source_run_id
                  \<or> \<not> run_status_is_active (rr_status target)
               then Err (Conflict msg_unbound_admission)
               else
                 (case map_of (si_runs s) (run_key sid source_run_id) of
                    None \<Rightarrow> Err (NotFound (run_key_label sid source_run_id))
                  | Some source \<Rightarrow>
                      if rr_status source \<noteq> StWaiting then Err (Conflict msg_source_not_waiting)
                      else
                        (case map_of (si_hitl_resume_claims s) (run_key sid source_run_id) of
                           None \<Rightarrow> Err (NotFound (msg_claim_for source_run_id))
                         | Some claim \<Rightarrow> Ok claim))))"

definition start_hitl_resume_effect ::
    "datetime \<Rightarrow> run_admission_lease \<Rightarrow> run_id \<Rightarrow> string \<Rightarrow> unit store_op" where
  "start_hitl_resume_effect now lease source_run_id claim_id s =
     (let sid = rt_session_id (lease_target lease); key = run_key sid source_run_id in
      case bound_claim now lease source_run_id s of
        Err e \<Rightarrow> (Err e, s)
      | Panic \<Rightarrow> (Panic, s)
      | Ok claim \<Rightarrow>
          if claim_claim_id claim \<noteq> claim_id
             \<or> claim_session_id claim \<noteq> sid
             \<or> claim_run_id claim \<noteq> source_run_id
             \<or> claim_state claim \<noteq> Admitted
          then (Err (Conflict (msg_invalid_admitted_claim source_run_id)), s)
          else (Ok (), s\<lparr>si_hitl_resume_claims :=
                 bt_insert key (claim\<lparr>claim_state := Started\<rparr>) (si_hitl_resume_claims s)\<rparr>))"

definition code_preparation_failed :: string where
  "code_preparation_failed = ''hitl_resume_preparation_failed''"

definition abort_admitted_hitl_resume ::
    "datetime \<Rightarrow> datetime \<Rightarrow> run_admission_lease \<Rightarrow> run_id \<Rightarrow> string \<Rightarrow> string
     \<Rightarrow> hitl_resume_abort_outcome store_op" where
  "abort_admitted_hitl_resume t_check t_write lease source_run_id claim_id preview s =
     (let sid = rt_session_id (lease_target lease); key = run_key sid source_run_id in
      case bound_claim t_check lease source_run_id s of
        Err e \<Rightarrow> (Err e, s)
      | Panic \<Rightarrow> (Panic, s)
      | Ok claim \<Rightarrow>
          if claim_claim_id claim \<noteq> claim_id
             \<or> claim_session_id claim \<noteq> sid
             \<or> claim_run_id claim \<noteq> source_run_id
          then (Err (Conflict (msg_invalid_claim source_run_id)), s)
          else if claim_state claim = Started then (Ok EffectStarted, s)
          else if claim_state claim \<noteq> Admitted
          then (Err (Conflict (msg_invalid_admitted_claim source_run_id)), s)
          else
            op_bind
              (apply_run_status_locked sid (rt_run_id (lease_target lease)) StFailed (Some preview)
                 (Some (run_terminal_error_new code_preparation_failed preview)) t_write)
              (\<lambda>_ s1.
                 let consumed = map_of (si_hitl_resume_claims s1) key;
                     s2 = s1\<lparr>si_hitl_resume_claims := bt_remove key (si_hitl_resume_claims s1)\<rparr>
                 in if consumed \<noteq> Some claim
                    then (Err (Conflict (msg_claim_changed_aborting source_run_id)), s2)
                    else (Ok AbortedBeforeEffect, s2))
              s)"

definition mark_hitl_resume_started ::
    "session_id \<Rightarrow> run_id \<Rightarrow> string \<Rightarrow> unit store_op" where
  "mark_hitl_resume_started sid rid claim_id s =
     (let key = run_key sid rid in
      case map_of (si_hitl_resume_claims s) key of
        None \<Rightarrow> (Err (NotFound (msg_claim_for rid)), s)
      | Some claim \<Rightarrow>
          if claim_claim_id claim \<noteq> claim_id
          then (Err (StoreFailed (msg_claim_conflict rid)), s)
          else (Ok (),
            if claim_state claim = Preflight
            then s\<lparr>si_hitl_resume_claims :=
                     bt_insert key (claim\<lparr>claim_state := Started\<rparr>) (si_hitl_resume_claims s)\<rparr>
            else s))"

definition release_hitl_resume_claim ::
    "session_id \<Rightarrow> run_id \<Rightarrow> string \<Rightarrow> unit store_op" where
  "release_hitl_resume_claim sid rid claim_id s =
     (let key = run_key sid rid in
      case map_of (si_hitl_resume_claims s) key of
        None \<Rightarrow> (Ok (), s)
      | Some existing \<Rightarrow>
          if claim_claim_id existing \<noteq> claim_id
          then (Err (StoreFailed (msg_claim_conflict rid)), s)
          else if claim_state existing \<noteq> Preflight
          then (Err (StoreFailed (msg_started_claim rid)), s)
          else (Ok (), s\<lparr>si_hitl_resume_claims := bt_remove key (si_hitl_resume_claims s)\<rparr>))"

section \<open>How claims evolve\<close>

text \<open>
  One operation of the claim protocol: a claim appears in \<open>Preflight\<close>, moves along the step
  relation with its identity, or disappears before its effect has started.
\<close>

definition claim_evolves :: "hitl_resume_claim option \<Rightarrow> hitl_resume_claim option \<Rightarrow> bool" where
  "claim_evolves a b \<longleftrightarrow>
     (case (a, b) of
        (None, None) \<Rightarrow> True
      | (None, Some c) \<Rightarrow> claim_is_valid_preflight c
      | (Some c, Some c') \<Rightarrow>
          c' = c \<or> (c' = c\<lparr>claim_state := claim_state c'\<rparr> \<and> claim_step (claim_state c) (claim_state c'))
      | (Some c, None) \<Rightarrow> claim_state c \<noteq> Started)"

lemma claim_evolves_refl [simp]: "claim_evolves a a"
  by (simp add: claim_evolves_def split: option.split)

lemma claim_evolves_started: "claim_evolves (Some c) b \<Longrightarrow> claim_state c = Started \<Longrightarrow> b = Some c"
  by (auto simp: claim_evolves_def elim: claim_step_from_started split: option.splits)

text \<open>The interface that every claim operation has to offer.\<close>

locale claim_operation =
  fixes f :: "'a store_op"
  assumes evolves: "claim_evolves (map_of (si_hitl_resume_claims s) k)
    (map_of (si_hitl_resume_claims (snd (f s))) k)"
begin

lemma started_is_kept:
  "map_of (si_hitl_resume_claims s) k = Some c \<Longrightarrow> claim_state c = Started \<Longrightarrow>
     map_of (si_hitl_resume_claims (snd (f s))) k = Some c"
  using evolves [of s k] claim_evolves_started by metis

end

lemma apply_run_status_claims [simp]:
  "si_hitl_resume_claims (snd (apply_run_status_locked sid rid st pv er t s)) = si_hitl_resume_claims s"
  by (simp add: apply_run_status_locked_def Let_def split: option.split result.split)

interpretation claiming: claim_operation "claim_hitl_resume claim" for claim
  by unfold_locales
     (auto simp: claim_hitl_resume_def Let_def claim_evolves_def [of None] split: option.split)

interpretation starting: claim_operation "start_hitl_resume_effect now lease src cid" for now lease src cid
proof
  fix s k
  have "bound_claim now lease src s = Ok c \<Longrightarrow>
      map_of (si_hitl_resume_claims s) (run_key (rt_session_id (lease_target lease)) src) = Some c" for c
    by (auto simp: bound_claim_def Let_def split: result.splits option.splits if_splits)
  then show "claim_evolves (map_of (si_hitl_resume_claims s) k)
      (map_of (si_hitl_resume_claims (snd (start_hitl_resume_effect now lease src cid s))) k)"
    by (auto simp: start_hitl_resume_effect_def Let_def claim_evolves_def [of "Some _" "Some _"]
        claim_step.simps split: result.split)
qed

interpretation marking: claim_operation "mark_hitl_resume_started sid rid cid" for sid rid cid
  by unfold_locales
     (auto simp: mark_hitl_resume_started_def Let_def claim_evolves_def [of "Some _" "Some _"]
        claim_step.simps split: option.split)

interpretation releasing: claim_operation "release_hitl_resume_claim sid rid cid" for sid rid cid
  by unfold_locales
     (auto simp: release_hitl_resume_claim_def Let_def claim_evolves_def [of "Some _" None]
        split: option.split)

lemma bound_claim_Ok:
  assumes "bound_claim now lease src s = Ok c"
  shows "ensure_active_admission_locked s lease now = Ok ()"
    and "map_of (si_hitl_resume_claims s) (run_key (rt_session_id (lease_target lease)) src) = Some c"
    and "\<exists>r. map_of (si_runs s) (lease_run_key lease) = Some r
           \<and> rr_restore_from_run_id r = Some src \<and> run_status_is_active (rr_status r)"
    and "\<exists>r. map_of (si_runs s) (run_key (rt_session_id (lease_target lease)) src) = Some r
           \<and> rr_status r = StWaiting"
  using assms by (auto simp: bound_claim_def Let_def split: result.splits option.splits if_splits)

lemma abort_claims:
  "snd (abort_admitted_hitl_resume t1 t2 lease src cid pv s) = s
   \<or> (\<exists>c. map_of (si_hitl_resume_claims s) (run_key (rt_session_id (lease_target lease)) src) = Some c
        \<and> claim_state c = Admitted
        \<and> si_hitl_resume_claims (snd (abort_admitted_hitl_resume t1 t2 lease src cid pv s))
          \<in> {si_hitl_resume_claims s,
             bt_remove (run_key (rt_session_id (lease_target lease)) src) (si_hitl_resume_claims s)})"
proof (cases "bound_claim t1 lease src s")
  case (Ok c)
  note B = bound_claim_Ok [OF Ok]
  let ?a = "apply_run_status_locked (rt_session_id (lease_target lease)) (rt_run_id (lease_target lease))
      StFailed (Some pv) (Some (run_terminal_error_new code_preparation_failed pv)) t2"
  have "si_hitl_resume_claims (snd (?a s)) = si_hitl_resume_claims s" by simp
  with B(2) Ok show ?thesis
    by (cases "?a s"; cases "fst (?a s)")
       (auto simp: abort_admitted_hitl_resume_def Let_def op_bind_def)
qed (auto simp: abort_admitted_hitl_resume_def Let_def)

interpretation aborting: claim_operation "abort_admitted_hitl_resume t1 t2 lease src cid pv"
  for t1 t2 lease src cid pv
proof
  fix s k
  show "claim_evolves (map_of (si_hitl_resume_claims s) k)
      (map_of (si_hitl_resume_claims (snd (abort_admitted_hitl_resume t1 t2 lease src cid pv s))) k)"
    using abort_claims [of t1 t2 lease src cid pv s]
    by (auto simp: claim_evolves_def [of "Some _" None])
qed

text \<open>Starting and aborting are fenced.\<close>

lemma bound_claim_rejects:
  assumes "map_of (si_run_admissions s) (lease_session_key lease) = Some cur"
    and "\<not> same_owner cur lease \<or> lease_expired_at cur t"
  shows "\<exists>e. bound_claim t lease src s = Err e"
  using ensure_active_rejects [OF assms] by (auto simp: bound_claim_def Let_def)

interpretation start_fenced: fenced_operation "\<lambda>t lease. start_hitl_resume_effect t lease src cid"
  for src cid
proof
  fix s :: store_inner and lease cur t
  assume "map_of (si_run_admissions s) (lease_session_key lease) = Some cur"
    "\<not> same_owner cur lease \<or> lease_expired_at cur t"
  then obtain e where "bound_claim t lease src s = Err e" using bound_claim_rejects by blast
  then show "\<not> is_ok (fst (start_hitl_resume_effect t lease src cid s))
      \<and> snd (start_hitl_resume_effect t lease src cid s) = s"
    by (simp add: start_hitl_resume_effect_def Let_def)
qed

interpretation abort_fenced: fenced_operation
  "\<lambda>t lease. abort_admitted_hitl_resume t t' lease src cid pv" for t' src cid pv
proof
  fix s :: store_inner and lease cur t
  assume "map_of (si_run_admissions s) (lease_session_key lease) = Some cur"
    "\<not> same_owner cur lease \<or> lease_expired_at cur t"
  then obtain e where "bound_claim t lease src s = Err e" using bound_claim_rejects by blast
  then show "\<not> is_ok (fst (abort_admitted_hitl_resume t t' lease src cid pv s))
      \<and> snd (abort_admitted_hitl_resume t t' lease src cid pv s) = s"
    by (simp add: abort_admitted_hitl_resume_def Let_def)
qed

section \<open>Effects are started at most once\<close>

lemma start_spec:
  assumes "start_hitl_resume_effect now lease src cid s = (Ok (), s')"
  shows "\<exists>c. map_of (si_hitl_resume_claims s) (rt_session_id (lease_target lease), src) = Some c
    \<and> claim_state c = Admitted \<and> claim_claim_id c = cid
    \<and> map_of (si_hitl_resume_claims s') (rt_session_id (lease_target lease), src)
        = Some (c\<lparr>claim_state := Started\<rparr>)
    \<and> ensure_active_admission_locked s lease now = Ok ()
    \<and> waiting_source s (rt_session_id (lease_target lease)) src"
proof -
  from assms obtain c where b: "bound_claim now lease src s = Ok c"
    and c: "claim_state c = Admitted" "claim_claim_id c = cid"
    and s': "s' = s\<lparr>si_hitl_resume_claims := bt_insert (run_key (rt_session_id (lease_target lease)) src)
        (c\<lparr>claim_state := Started\<rparr>) (si_hitl_resume_claims s)\<rparr>"
    by (auto simp: start_hitl_resume_effect_def Let_def split: result.splits if_splits)
  note B = bound_claim_Ok [OF b]
  show ?thesis
    using B c by (auto simp: s' run_key_def waiting_source_def)
qed

lemma start_refused_once_started:
  assumes "map_of (si_hitl_resume_claims s) (rt_session_id (lease_target lease), src) = Some c"
    and "claim_state c = Started"
  shows "\<exists>e. start_hitl_resume_effect now lease src cid s = (Err e, s)"
proof (cases "bound_claim now lease src s")
  case (Ok d)
  from bound_claim_Ok(2) [OF this] assms Ok show ?thesis
    by (auto simp: start_hitl_resume_effect_def Let_def run_key_def)
next
  case Panic
  then show ?thesis
    by (auto simp: bound_claim_def ensure_active_admission_locked_def Let_def
        split: option.splits if_splits result.splits)
qed (simp add: start_hitl_resume_effect_def Let_def)

lemma abort_spec:
  assumes "abort_admitted_hitl_resume t1 t2 lease src cid pv s = (Ok out, s')"
  shows "(out = EffectStarted \<longrightarrow> s' = s)
    \<and> (out = AbortedBeforeEffect \<longrightarrow>
        map_of (si_hitl_resume_claims s') (rt_session_id (lease_target lease), src) = None
        \<and> (\<exists>r. map_of (si_runs s') (lease_run_key lease) = Some r \<and> rr_status r = StFailed
             \<and> rr_terminal_error r = Some (run_terminal_error_new code_preparation_failed pv)))"
proof -
  from assms obtain c where b: "bound_claim t1 lease src s = Ok c"
    by (auto simp: abort_admitted_hitl_resume_def Let_def split: result.splits)
  show ?thesis
  proof (cases "claim_state c = Started")
    case True
    with assms b show ?thesis
      by (auto simp: abort_admitted_hitl_resume_def Let_def split: if_splits)
  next
    case False
    with assms b obtain run s1 where
      app: "apply_run_status_locked (rt_session_id (lease_target lease)) (rt_run_id (lease_target lease))
        StFailed (Some pv) (Some (run_terminal_error_new code_preparation_failed pv)) t2 s = (Ok run, s1)"
      and s': "s' = s1\<lparr>si_hitl_resume_claims :=
          bt_remove (run_key (rt_session_id (lease_target lease)) src) (si_hitl_resume_claims s1)\<rparr>"
      and out: "out = AbortedBeforeEffect"
      by (auto simp: abort_admitted_hitl_resume_def Let_def op_bind_Ok split: if_splits)
    from apply_run_status_spec [OF app] show ?thesis
      by (auto simp: s' out run_key_def lease_run_key_def)
  qed
qed

section \<open>Claims are stored under their own run\<close>

definition claims_ok :: "(run_key_t, hitl_resume_claim) btmap \<Rightarrow> bool" where
  "claims_ok m \<longleftrightarrow> (\<forall>k c. map_of m k = Some c \<longrightarrow> k = (claim_session_id c, claim_run_id c))"

definition claim_inv :: "store_inner \<Rightarrow> bool" where
  "claim_inv s \<longleftrightarrow> claims_ok (si_hitl_resume_claims s)"

lemma claims_ok_remove [simp]: "claims_ok m \<Longrightarrow> claims_ok (bt_remove k m)"
  by (simp add: claims_ok_def)

lemma claims_ok_state:
  "claims_ok m \<Longrightarrow> map_of m k = Some c \<Longrightarrow> claims_ok (bt_insert k (c\<lparr>claim_state := st\<rparr>) m)"
  by (auto simp: claims_ok_def)

lemma claim_inv_frame: "si_hitl_resume_claims s' = si_hitl_resume_claims s \<Longrightarrow> claim_inv s' = claim_inv s"
  by (simp add: claim_inv_def)

lemma claim_hitl_resume_claim_inv: "keeps claim_inv (claim_hitl_resume claim)"
  by (rule keepsI) (auto simp: claim_hitl_resume_def claim_inv_def claims_ok_def Let_def run_key_def
      split: option.split)

lemma start_claim_inv: "keeps claim_inv (start_hitl_resume_effect now lease src cid)"
  by (rule keepsI) (auto simp: start_hitl_resume_effect_def claim_inv_def Let_def
      intro: claims_ok_state dest: bound_claim_Ok(2) split: result.split)

lemma mark_claim_inv: "keeps claim_inv (mark_hitl_resume_started sid rid cid)"
  by (rule keepsI) (auto simp: mark_hitl_resume_started_def claim_inv_def Let_def
      intro: claims_ok_state split: option.split)

lemma release_claim_inv: "keeps claim_inv (release_hitl_resume_claim sid rid cid)"
  by (rule keepsI) (auto simp: release_hitl_resume_claim_def claim_inv_def Let_def split: option.split)

lemma abort_claim_inv: "keeps claim_inv (abort_admitted_hitl_resume t1 t2 lease src cid pv)"
  using abort_claims [of t1 t2 lease src cid pv]
  by (intro keepsI) (auto simp: claim_inv_def; metis claims_ok_remove)

lemma settle_source_claim_inv: "keeps claim_inv (settle_source_claim k r c t)"
  unfolding settle_source_claim_def
proof (rule keeps_op_bind)
  have "keeps claim_inv (mark_source_indeterminate k r t)"
    by (rule keepsI) (auto simp: mark_source_indeterminate_def claim_inv_def Let_def split: result.split)
  then show "keeps claim_inv
      (if claim_state c = Started then mark_source_indeterminate k r t else op_lift (Ok ()))" by simp
qed (simp add: keeps_def claim_inv_def Let_def)

interpretation claim_cleanup: lease_cleanup claim_inv
proof
  show "keeps claim_inv (terminalize_started_hitl_source_locked r t)" for r t
    by (rule keepsI) (simp add: terminalize_started_hitl_source_locked_def Let_def
        keepsD [OF settle_source_claim_inv] split: option.split)
  show "keeps claim_inv (cancel_admitted_run lease t eff)" for lease t eff
    by (rule keepsI) (simp add: cancel_admitted_run_def claim_inv_def Let_def
        split: option.split result.split)
  show "keeps claim_inv (publish_authoritative env i runs)" for env i runs
    by (rule keepsI) (simp add: claim_inv_def outbox_onlyD [OF publish_outbox_only])
  show "keeps claim_inv (reconcile_run_control_intents_locked lease t)" for lease t
    by (rule keepsI) (simp add: claim_inv_def control_onlyD [OF reconcile_control_only])
  show "keeps claim_inv (apply_run_status_locked sid rid st pv er t)" for sid rid st pv er t
    by (rule keepsI) (simp add: claim_inv_def)
qed (simp_all add: claim_inv_def)

lemma acquire_claim_inv: "keeps claim_inv (acquire_run_admission now req)"
  unfolding acquire_run_admission_def
proof (rule keeps_stagedI)
  fix s x s'
  assume inv: "claim_inv s" and "acquire_run_admission_locked now req s = (Ok x, s')"
  from this(2) show "claim_inv s'"
  proof (cases rule: acquire_locked_Ok_cases)
    case (fresh s1 key run s2)
    have "claim_inv s1" using inv fresh(2) by (rule claim_cleanup.keeps_displace)
    then have "claim_inv s2"
      using fresh(6) by (auto simp: admit_claim_def claim_inv_def intro: claims_ok_state split: option.splits)
    with fresh(7) show ?thesis
      by (auto simp: commit_admission_def claim_inv_def Let_def insert_prepared_run_record_def
          split: option.splits)
  qed (use inv in simp)
qed

text \<open>The remaining operations, under the other invariants.\<close>

lemma claims_update_frames [simp]:
  "outbox_inv (s\<lparr>si_hitl_resume_claims := c\<rparr>) = outbox_inv s"
  by (rule outbox_inv_frame) simp_all

lemma claim_ops_claims_only:
  "\<exists>c. snd (claim_hitl_resume claim s) = s\<lparr>si_hitl_resume_claims := c\<rparr>"
  "\<exists>c. snd (start_hitl_resume_effect now lease src cid s) = s\<lparr>si_hitl_resume_claims := c\<rparr>"
  "\<exists>c. snd (mark_hitl_resume_started sid rid cid s) = s\<lparr>si_hitl_resume_claims := c\<rparr>"
  "\<exists>c. snd (release_hitl_resume_claim sid rid cid s) = s\<lparr>si_hitl_resume_claims := c\<rparr>"
  by (auto simp: claim_hitl_resume_def start_hitl_resume_effect_def mark_hitl_resume_started_def
      release_hitl_resume_claim_def Let_def split: option.split result.split
      intro: exI [of _ "si_hitl_resume_claims s"])

lemma abort_state:
  "snd (abort_admitted_hitl_resume t1 t2 lease src cid pv s) = s
    \<or> (\<exists>c. snd (abort_admitted_hitl_resume t1 t2 lease src cid pv s)
         = (snd (apply_run_status_locked (rt_session_id (lease_target lease)) (rt_run_id (lease_target lease))
              StFailed (Some pv) (Some (run_terminal_error_new code_preparation_failed pv)) t2 s))
             \<lparr>si_hitl_resume_claims := c\<rparr>)"
proof (cases "bound_claim t1 lease src s")
  case (Ok c)
  let ?a = "apply_run_status_locked (rt_session_id (lease_target lease)) (rt_run_id (lease_target lease))
      StFailed (Some pv) (Some (run_terminal_error_new code_preparation_failed pv)) t2"
  have "(\<forall>c. x \<noteq> x\<lparr>si_hitl_resume_claims := c\<rparr>) = False" for x :: store_inner
    by (auto intro: exI [of _ "si_hitl_resume_claims x"])
  with Ok show ?thesis
    by (cases "?a s"; cases "fst (?a s)")
       (auto simp: abort_admitted_hitl_resume_def Let_def op_bind_def)
qed (auto simp: abort_admitted_hitl_resume_def Let_def)

end
