(* ===== verification/Store_Sessions.thy ===== *)
theory Store_Sessions
  imports Store_Control Store_Claims
begin

text \<open>
  Managed session mutations (\<open>create_session_idempotent\<close> to
  \<open>tombstone_session_idempotent_with_host_events\<close> of
  \<open>starweaver-session/src/store/memory.rs\<close>): idempotent creation, revision-checked patches, the
  deletion fence and the tombstone, each also in the form that enqueues host events in the same
  transaction.
\<close>

definition msg_expected_revision :: "u64 \<Rightarrow> u64 \<Rightarrow> string" where
  "msg_expected_revision expected current =
     ''expected revision '' @ u64_to_string expected @ '', current '' @ u64_to_string current"

definition msg_deleting_or_deleted :: string where
  "msg_deleting_or_deleted = ''session is deleting or deleted''"

definition msg_admitted_active_run :: string where
  "msg_admitted_active_run = ''session still has an admitted active run''"

definition msg_active_background :: string where
  "msg_active_background = ''session still has active background-subagent ownership''"

definition msg_has_fence :: string where
  "msg_has_fence = ''session already has a deletion fence''"

definition msg_still_active_run :: string where
  "msg_still_active_run = ''session still has an active run''"

definition msg_fence_mismatch :: string where
  "msg_fence_mismatch = ''deletion fence mismatch''"

definition msg_deletion_receipt_mismatch :: string where
  "msg_deletion_receipt_mismatch = ''session deletion receipt target mismatch''"

section \<open>Creation\<close>

definition create_session_fresh ::
    "session_record \<Rightarrow> string \<Rightarrow> string \<Rightarrow> datetime store_result \<Rightarrow> session_record store_op" where
  "create_session_fresh session0 key fp time s =
     (if bt_contains (si_sessions s) (sr_session_id session0)
      then (Err (AlreadyExists (sr_session_id session0)), s)
      else case time of
          Err e \<Rightarrow> (Err e, s)
        | Panic \<Rightarrow> (Panic, s)
        | Ok now \<Rightarrow>
            let session = session0\<lparr>sr_revision := max (sr_revision session0) 1,
                                   sr_updated_at := now\<rparr>
            in (Ok session,
                s\<lparr>si_sessions := bt_insert (sr_session_id session) session (si_sessions s),
                  si_session_idempotency :=
                    bt_insert (sr_namespace_id session, key) (fp, session)
                      (si_session_idempotency s)\<rparr>))"

definition create_session_idempotent ::
    "datetime \<Rightarrow> session_record \<Rightarrow> string \<Rightarrow> string \<Rightarrow> session_record store_op" where
  "create_session_idempotent now session key fp s =
     (case map_of (si_session_idempotency s) (sr_namespace_id session, key) of
        Some (fingerprint, existing) \<Rightarrow>
          (if fingerprint = fp then Ok existing else Err (IdempotencyConflict key), s)
      | None \<Rightarrow> create_session_fresh session key fp (Ok now) s)"

definition create_session_idempotent_with_host_events ::
    "host_env \<Rightarrow> datetime \<Rightarrow> session_record \<Rightarrow> string \<Rightarrow> string
     \<Rightarrow> pending_host_event_publication list \<Rightarrow> session_record store_op" where
  "create_session_idempotent_with_host_events env now session key fp pubs =
     staged (op_bind
       (\<lambda>s. case map_of (si_session_idempotency s) (sr_namespace_id session, key) of
              Some (fingerprint, existing) \<Rightarrow>
                (if fingerprint \<noteq> fp then Err (IdempotencyConflict key) else Ok existing, s)
            | None \<Rightarrow> create_session_fresh session key fp (session_mutation_time now pubs) s)
       (\<lambda>result. op_bind (enqueue_host_event_publications_locked env pubs)
          (\<lambda>_. op_lift (Ok result))))"

definition load_session_mutation_receipt ::
    "string \<Rightarrow> string \<Rightarrow> string \<Rightarrow> store_inner \<Rightarrow> session_record option store_result" where
  "load_session_mutation_receipt ns key fp s =
     (case map_of (si_session_idempotency s) (ns, key) of
        None \<Rightarrow> Ok None
      | Some (fingerprint, session) \<Rightarrow>
          if fingerprint \<noteq> fp then Err (IdempotencyConflict key) else Ok (Some session))"

section \<open>Revision-checked patches\<close>

definition apply_metadata_patch :: "metadata \<Rightarrow> metadata \<Rightarrow> metadata" where
  "apply_metadata_patch patch m =
     fold (\<lambda>(k, v) m. if v = JNull then bt_remove k m else bt_insert k v m) patch m"

definition apply_session_patch :: "managed_session_patch \<Rightarrow> session_record \<Rightarrow> session_record" where
  "apply_session_patch p r =
     (let r1 = (case patch_title p of
                  None \<Rightarrow> r
                | Some t \<Rightarrow> r\<lparr>sr_title := map_option (chars_take 256) t\<rparr>);
          r2 = (case patch_profile p of None \<Rightarrow> r1 | Some f \<Rightarrow> r1\<lparr>sr_profile := f\<rparr>);
          r3 = (case patch_archived p of
                  None \<Rightarrow> r2
                | Some a \<Rightarrow> r2\<lparr>sr_status := (if a then SessArchived else SessActive)\<rparr>)
      in r3\<lparr>sr_metadata := apply_metadata_patch (patch_metadata p) (sr_metadata r3)\<rparr>)"

definition update_session_fresh ::
    "update_managed_session_cmd \<Rightarrow> session_record \<Rightarrow> string \<Rightarrow> datetime store_result
     \<Rightarrow> session_record store_op" where
  "update_session_fresh cmd session fp time s =
     (if sr_revision session \<noteq> upd_expected_revision cmd
      then (Err (Conflict (msg_expected_revision (upd_expected_revision cmd) (sr_revision session))), s)
      else if blocks_continuation (sr_deletion_fence session) \<or> sr_status session = SessDeleted
      then (Err (Conflict msg_deleting_or_deleted), s)
      else case time of
          Err e \<Rightarrow> (Err e, s)
        | Panic \<Rightarrow> (Panic, s)
        | Ok now \<Rightarrow>
            let r = apply_session_patch (upd_patch cmd) session;
                r' = r\<lparr>sr_revision := u64_saturating_add (sr_revision r) 1, sr_updated_at := now\<rparr>
            in (Ok r',
                s\<lparr>si_sessions := bt_insert (upd_session_id cmd) r' (si_sessions s),
                  si_session_idempotency :=
                    bt_insert (sr_namespace_id session, upd_idempotency_key cmd) (fp, r')
                      (si_session_idempotency s)\<rparr>))"

definition update_managed_session ::
    "datetime \<Rightarrow> update_managed_session_cmd \<Rightarrow> string \<Rightarrow> session_record store_op" where
  "update_managed_session now cmd fp s =
     (case map_of (si_sessions s) (upd_session_id cmd) of
        None \<Rightarrow> (Err (NotFound (upd_session_id cmd)), s)
      | Some session \<Rightarrow>
          (case map_of (si_session_idempotency s)
                  (sr_namespace_id session, upd_idempotency_key cmd) of
             Some (fingerprint, existing) \<Rightarrow>
               (if fingerprint = fp then Ok existing
                else Err (IdempotencyConflict (upd_idempotency_key cmd)), s)
           | None \<Rightarrow> update_session_fresh cmd session fp (Ok now) s))"

text \<open>
  In the transactional form the publication time is read after the patch has been written to the
  clone; a publication set without one common time discards the clone.
\<close>

definition update_managed_session_with_host_events ::
    "host_env \<Rightarrow> datetime \<Rightarrow> update_managed_session_cmd \<Rightarrow> string
     \<Rightarrow> pending_host_event_publication list \<Rightarrow> session_record store_op" where
  "update_managed_session_with_host_events env now cmd fp pubs =
     staged (op_bind
       (\<lambda>s. case map_of (si_sessions s) (upd_session_id cmd) of
              None \<Rightarrow> (Err (NotFound (upd_session_id cmd)), s)
            | Some session \<Rightarrow>
                (case map_of (si_session_idempotency s)
                        (sr_namespace_id session, upd_idempotency_key cmd) of
                   Some (fingerprint, existing) \<Rightarrow>
                     (if fingerprint \<noteq> fp then Err (IdempotencyConflict (upd_idempotency_key cmd))
                      else Ok existing, s)
                 | None \<Rightarrow> update_session_fresh cmd session fp (session_mutation_time now pubs) s))
       (\<lambda>result. op_bind (enqueue_host_event_publications_locked env pubs)
          (\<lambda>_. op_lift (Ok result))))"

section \<open>Deletion\<close>

definition live_background :: "datetime \<Rightarrow> session_id \<Rightarrow> background_subagent_record \<Rightarrow> bool" where
  "live_background now sid r \<longleftrightarrow>
     bg_parent_session_id r = sid
     \<and> \<not> background_execution_is_terminal (bg_execution_status r)
     \<and> \<not> background_owner_expired_at (bg_owner_lease r) now"

definition acquire_session_deletion_fence ::
    "datetime \<Rightarrow> datetime \<Rightarrow> datetime \<Rightarrow> session_id \<Rightarrow> u64 \<Rightarrow> string \<Rightarrow> string \<Rightarrow> string \<Rightarrow> string
     \<Rightarrow> session_record store_op" where
  "acquire_session_deletion_fence now t_started t_updated sid expected fence_id requested_by key fp s =
     (case map_of (si_sessions s) sid of
        None \<Rightarrow> (Err (NotFound sid), s)
      | Some session \<Rightarrow>
          let ns = sr_namespace_id session in
          (case map_of (si_session_idempotency s) (ns, key) of
             Some (fingerprint, existing) \<Rightarrow>
               (if fingerprint = fp then Ok existing else Err (IdempotencyConflict key), s)
           | None \<Rightarrow>
               if sr_active_run_id session \<noteq> None
                  \<or> bt_contains (si_run_admissions s) (managed_session_target_new ns sid)
               then (Err (RunConflict msg_admitted_active_run), s)
               else if \<exists>r \<in> set (bt_values (si_background_subagents s)).
                         bg_namespace_id r = ns \<and> live_background now sid r
               then (Err (RunConflict msg_active_background), s)
               else if sr_revision session \<noteq> expected
               then (Err (Conflict (msg_expected_revision expected (sr_revision session))), s)
               else if sr_deletion_fence session \<noteq> Stable
               then (Err (Conflict msg_has_fence), s)
               else
                 let r = session\<lparr>sr_deletion_fence :=
                            Deleting fence_id expected requested_by t_started,
                          sr_revision := u64_saturating_add (sr_revision session) 1,
                          sr_updated_at := t_updated\<rparr>
                 in (Ok r,
                     s\<lparr>si_sessions := bt_insert sid r (si_sessions s),
                       si_session_idempotency :=
                         bt_insert (ns, key) (fp, r) (si_session_idempotency s)\<rparr>)))"

definition session_in_use :: "datetime \<Rightarrow> session_id \<Rightarrow> store_inner \<Rightarrow> unit store_result" where
  "session_in_use now sid s =
     (if \<exists>r \<in> set (bt_values (si_runs s)).
           rr_session_id r = sid \<and> run_status_is_active (rr_status r)
      then Err (RunConflict msg_still_active_run)
      else if \<exists>r \<in> set (bt_values (si_background_subagents s)). live_background now sid r
      then Err (RunConflict msg_active_background)
      else Ok ())"

definition tombstoned :: "string \<Rightarrow> datetime \<Rightarrow> datetime \<Rightarrow> session_record \<Rightarrow> session_record" where
  "tombstoned fence_id deleted_at updated_at r =
     r\<lparr>sr_status := SessDeleted, sr_active_run_id := None,
       sr_deletion_fence := Deleted fence_id deleted_at,
       sr_revision := u64_saturating_add (sr_revision r) 1,
       sr_updated_at := updated_at\<rparr>"

definition tombstone_session ::
    "datetime \<Rightarrow> datetime \<Rightarrow> datetime \<Rightarrow> session_id \<Rightarrow> string \<Rightarrow> session_record store_op" where
  "tombstone_session now t_deleted t_updated sid fence_id s =
     (case session_in_use now sid s of
        Err e \<Rightarrow> (Err e, s)
      | Panic \<Rightarrow> (Panic, s)
      | Ok _ \<Rightarrow>
          (case map_of (si_sessions s) sid of
             None \<Rightarrow> (Err (NotFound sid), s)
           | Some session \<Rightarrow>
               let commit =
                 (let r = tombstoned fence_id t_deleted t_updated session
                  in (Ok r, s\<lparr>si_sessions := bt_insert sid r (si_sessions s)\<rparr>))
               in (case sr_deletion_fence session of
                     Deleted current _ \<Rightarrow>
                       if current = fence_id then (Ok session, s)
                       else (Err (Conflict msg_fence_mismatch), s)
                   | Deleting current _ _ _ \<Rightarrow>
                       if current = fence_id then commit
                       else (Err (Conflict msg_fence_mismatch), s)
                   | Stable \<Rightarrow> (Err (Conflict msg_fence_mismatch), s))))"

definition already_deleted :: "string \<Rightarrow> session_record \<Rightarrow> bool" where
  "already_deleted fence_id session \<longleftrightarrow>
     (case sr_deletion_fence session of Deleted current _ \<Rightarrow> current = fence_id | _ \<Rightarrow> False)"

definition tombstone_staged ::
    "datetime \<Rightarrow> datetime \<Rightarrow> session_id \<Rightarrow> string \<Rightarrow> pending_host_event_publication list
     \<Rightarrow> session_record \<Rightarrow> unit store_op" where
  "tombstone_staged now t_deleted sid fence_id pubs session s =
     (if already_deleted fence_id session then (Ok (), s)
      else case session_in_use now sid s of
          Err e \<Rightarrow> (Err e, s)
        | Panic \<Rightarrow> (Panic, s)
        | Ok _ \<Rightarrow>
            (case sr_deletion_fence session of
               Deleting current _ _ _ \<Rightarrow>
                 if current = fence_id then
                   (case session_mutation_time t_deleted pubs of
                      Err e \<Rightarrow> (Err e, s)
                    | Panic \<Rightarrow> (Panic, s)
                    | Ok t \<Rightarrow>
                        (Ok (), s\<lparr>si_sessions :=
                           bt_insert sid (tombstoned fence_id t t session) (si_sessions s)\<rparr>))
                 else (Err (Conflict msg_fence_mismatch), s)
             | _ \<Rightarrow> (Err (Conflict msg_fence_mismatch), s)))"

definition tombstone_session_idempotent_with_host_events ::
    "host_env \<Rightarrow> datetime \<Rightarrow> datetime \<Rightarrow> session_id \<Rightarrow> string \<Rightarrow> string \<Rightarrow> string
     \<Rightarrow> pending_host_event_publication list \<Rightarrow> session_record store_op" where
  "tombstone_session_idempotent_with_host_events env now t_deleted sid fence_id key fp pubs =
     staged (\<lambda>s.
       case map_of (si_sessions s) sid of
         None \<Rightarrow> (Err (NotFound sid), s)
       | Some session \<Rightarrow>
           let receipt_key = (sr_namespace_id session, key) in
           (case map_of (si_session_idempotency s) receipt_key of
              None \<Rightarrow> (Err (NotFound key), s)
            | Some (fingerprint, receipt_session) \<Rightarrow>
                if fingerprint \<noteq> fp then (Err (IdempotencyConflict key), s)
                else if sr_session_id receipt_session \<noteq> sid
                then (Err (Conflict msg_deletion_receipt_mismatch), s)
                else
                  op_bind (tombstone_staged now t_deleted sid fence_id pubs session)
                    (\<lambda>_ s1.
                       case map_of (si_sessions s1) sid of
                         None \<Rightarrow> (Err (NotFound sid), s1)
                       | Some result \<Rightarrow>
                           op_bind (enqueue_host_event_publications_locked env pubs)
                             (\<lambda>_. op_lift (Ok result))
                             (s1\<lparr>si_session_idempotency :=
                                   bt_insert receipt_key (fp, result)
                                     (si_session_idempotency s1)\<rparr>))
                    s))"

section \<open>Idempotent commands\<close>

text \<open>
  A command is identified by its idempotency key and fingerprint. The store keeps one receipt per
  key: a repeated command is answered from the receipt, another command under the same key is
  refused, and neither changes the store.
\<close>

locale idempotent_command =
  fixes receipt :: "store_inner \<Rightarrow> (string \<times> 'r) option"
    and run :: "datetime \<Rightarrow> string \<Rightarrow> 'r store_op"
    and replayed :: "'r \<Rightarrow> 'r"
  assumes replay: "receipt s = Some (fp, r) \<Longrightarrow> run now fp s = (Ok (replayed r), s)"
    and conflict: "receipt s = Some (fp, r) \<Longrightarrow> fp \<noteq> fp' \<Longrightarrow>
      \<exists>key. run now fp' s = (Err (IdempotencyConflict key), s)"
    and recorded: "receipt s = None \<Longrightarrow> run now fp s = (Ok r, s') \<Longrightarrow> receipt s' = Some (fp, r)"
begin

lemma receipt_after:
  assumes "run now fp s = (Ok r, s')"
  shows "\<exists>r0. receipt s' = Some (fp, r0) \<and> (r = r0 \<or> r = replayed r0)"
proof (cases "receipt s")
  case None
  with assms show ?thesis by (blast intro: recorded)
next
  case (Some p)
  obtain fp0 r0 where p: "p = (fp0, r0)" by (cases p)
  show ?thesis
  proof (cases "fp0 = fp")
    case True
    with Some p assms have "r = replayed r0" "s' = s"
      using replay [of s fp r0 now] by auto
    with True Some p show ?thesis by auto
  next
    case False
    with Some p assms show ?thesis using conflict [of s fp0 r0 fp now] by auto
  qed
qed

lemma retry_is_replay:
  assumes "run now fp s = (Ok r, s')"
  shows "\<exists>r0. run later fp s' = (Ok (replayed r0), s') \<and> (r = r0 \<or> r = replayed r0)"
  using receipt_after [OF assms] replay by blast

lemma retries_change_nothing:
  assumes "run now fp s = (Ok r, s')"
  shows "fold (\<lambda>t s. snd (run t fp s)) retries s' = s'"
proof (induction retries)
  case (Cons t ts)
  from retry_is_replay [OF assms, of t] have "snd (run t fp s') = s'" by auto
  with Cons show ?case by simp
qed simp

lemma other_command_refused:
  assumes "run now fp s = (Ok r, s')" and "fp \<noteq> fp'"
  shows "\<exists>key. run later fp' s' = (Err (IdempotencyConflict key), s')"
  using receipt_after [OF assms(1)] conflict assms(2) by blast

lemma exactly_once:
  assumes "run now fp s = (Ok r, s')"
  shows "fold (\<lambda>t u. snd (run t fp u)) retries s' = s' \<and> (fp' \<noteq> fp \<longrightarrow> refused (run later fp') s')"
  using retries_change_nothing [OF assms] other_command_refused [OF assms, of fp' later]
  by (auto simp: refused_def)

end

interpretation session_creation: idempotent_command
  "\<lambda>s. map_of (si_session_idempotency s) (sr_namespace_id session, key)"
  "\<lambda>now fp. create_session_idempotent now session key fp" "\<lambda>r. r" for session key
  by unfold_locales
     (auto simp: create_session_idempotent_def create_session_fresh_def Let_def split: if_splits)

definition session_receipt :: "session_id \<Rightarrow> string \<Rightarrow> store_inner \<Rightarrow> (string \<times> session_record) option" where
  "session_receipt sid key s =
     (case map_of (si_sessions s) sid of
        None \<Rightarrow> None
      | Some session \<Rightarrow> map_of (si_session_idempotency s) (sr_namespace_id session, key))"

lemma apply_session_patch_frame [simp]:
  "sr_namespace_id (apply_session_patch p r) = sr_namespace_id r"
  "sr_session_id (apply_session_patch p r) = sr_session_id r"
  "sr_revision (apply_session_patch p r) = sr_revision r"
  "sr_deletion_fence (apply_session_patch p r) = sr_deletion_fence r"
  "sr_active_run_id (apply_session_patch p r) = sr_active_run_id r"
  by (simp_all add: apply_session_patch_def Let_def split: option.split)

interpretation session_update: idempotent_command
  "session_receipt (upd_session_id cmd) (upd_idempotency_key cmd)"
  "\<lambda>now fp. update_managed_session now cmd fp" "\<lambda>r. r" for cmd
  by unfold_locales
     (auto simp: session_receipt_def update_managed_session_def update_session_fresh_def Let_def
        split: option.splits if_splits)

interpretation deletion_fence: idempotent_command "session_receipt sid key"
  "\<lambda>now fp. acquire_session_deletion_fence now t1 t2 sid ex fid by_whom key fp" "\<lambda>r. r"
  for t1 t2 sid ex fid by_whom key
  by unfold_locales
     (auto simp: session_receipt_def acquire_session_deletion_fence_def Let_def
        split: option.splits if_splits)

interpretation run_admission: idempotent_command
  "\<lambda>s. map_of (si_run_admission_idempotency s) (acq_namespace_id req, acq_idempotency_key req)"
  "\<lambda>now fp. acquire_run_admission now (req\<lparr>acq_command_fingerprint := fp\<rparr>)"
  "\<lambda>r. r\<lparr>rar_idempotent_replay := True\<rparr>" for req
proof
  fix s :: store_inner and fp r now
  assume "map_of (si_run_admission_idempotency s) (acq_namespace_id req, acq_idempotency_key req) = Some (fp, r)"
  then show "acquire_run_admission now (req\<lparr>acq_command_fingerprint := fp\<rparr>) s
      = (Ok (r\<lparr>rar_idempotent_replay := True\<rparr>), s)"
    by (simp add: acquire_replay)
next
  fix s :: store_inner and fp r now fp'
  assume "map_of (si_run_admission_idempotency s) (acq_namespace_id req, acq_idempotency_key req) = Some (fp, r)"
    and "fp \<noteq> fp'"
  then show "\<exists>key. acquire_run_admission now (req\<lparr>acq_command_fingerprint := fp'\<rparr>) s
      = (Err (IdempotencyConflict key), s)"
    by (simp add: acquire_replay)
next
  fix s s' :: store_inner and fp r now
  let ?req = "req\<lparr>acq_command_fingerprint := fp\<rparr>"
  assume none: "map_of (si_run_admission_idempotency s) (acq_namespace_id req, acq_idempotency_key req) = None"
    and "acquire_run_admission now ?req s = (Ok r, s')"
  then have "acquire_run_admission_locked now ?req s = (Ok r, s')"
    by (simp add: acquire_run_admission_def staged_Ok)
  then show "map_of (si_run_admission_idempotency s') (acq_namespace_id req, acq_idempotency_key req) = Some (fp, r)"
  proof (cases rule: acquire_locked_Ok_cases)
    case (replay r)
    with none show ?thesis by simp
  next
    case (fresh s1 key run s2)
    then show ?thesis
      by (auto simp: commit_admission_def Let_def split: option.splits)
  qed
qed

section \<open>Revision-checked updates\<close>

lemma update_fresh_spec:
  assumes ok: "update_managed_session now cmd fp s = (Ok r, s')"
    and fresh: "session_receipt (upd_session_id cmd) (upd_idempotency_key cmd) s = None"
  shows "\<exists>old. map_of (si_sessions s) (upd_session_id cmd) = Some old
    \<and> sr_revision old = upd_expected_revision cmd
    \<and> sr_deletion_fence old = Stable \<and> sr_status old \<noteq> SessDeleted
    \<and> r = (apply_session_patch (upd_patch cmd) old)
            \<lparr>sr_revision := u64_saturating_add (sr_revision old) 1, sr_updated_at := now\<rparr>
    \<and> map_of (si_sessions s') = (map_of (si_sessions s))(upd_session_id cmd \<mapsto> r)"
proof -
  from ok obtain old where old: "map_of (si_sessions s) (upd_session_id cmd) = Some old"
    by (auto simp: update_managed_session_def split: option.splits)
  with ok fresh have u: "update_session_fresh cmd old fp (Ok now) s = (Ok r, s')"
    by (auto simp: update_managed_session_def session_receipt_def)
  moreover from u have "sr_deletion_fence old = Stable"
    by (cases "sr_deletion_fence old") (auto simp: update_session_fresh_def split: if_splits)
  ultimately show ?thesis
    using old by (auto simp: update_session_fresh_def Let_def split: if_splits)
qed

lemma update_title_bounded:
  assumes "update_managed_session now cmd fp s = (Ok r, s')"
    and "session_receipt (upd_session_id cmd) (upd_idempotency_key cmd) s = None"
    and "patch_title (upd_patch cmd) = Some t" and "sr_title r = Some title"
  shows "\<exists>full. t = Some full \<and> prefix title full \<and> chars_count title = min 256 (chars_count full)"
proof -
  from update_fresh_spec [OF assms(1,2)] assms(3,4)
  obtain full where "t = Some full" "title = chars_take 256 full"
    by (auto simp: apply_session_patch_def Let_def split: option.splits)
  then show ?thesis by (auto simp: chars_take_prefix chars_count_take)
qed

text \<open>Two updates prepared against the same revision cannot both be applied.\<close>

lemma stale_revision_refused:
  assumes "map_of (si_sessions s) (upd_session_id cmd) = Some session"
    and "sr_revision session \<noteq> upd_expected_revision cmd"
    and "session_receipt (upd_session_id cmd) (upd_idempotency_key cmd) s = None"
  shows "\<exists>msg. update_managed_session now cmd fp s = (Err (Conflict msg), s)"
  using assms by (auto simp: update_managed_session_def session_receipt_def update_session_fresh_def)

section \<open>Deletion\<close>

definition session_fence :: "session_id \<Rightarrow> session_deletion_fence \<Rightarrow> store_inner \<Rightarrow> bool" where
  "session_fence sid fence s \<longleftrightarrow>
     (\<exists>r. map_of (si_sessions s) sid = Some r \<and> sr_deletion_fence r = fence)"

lemma session_fence_modify:
  "session_fence sid fence s \<Longrightarrow> (\<And>r. sr_deletion_fence (f r) = sr_deletion_fence r) \<Longrightarrow>
     session_fence sid fence (session_modify sid' f s)"
  by (auto simp: session_fence_def session_modify_def split: option.split)

lemma mark_source_sessions [simp]:
  "si_sessions (snd (mark_source_indeterminate k r t s)) = si_sessions s"
  by (simp add: mark_source_indeterminate_def Let_def split: result.split)

lemma settle_source_sessions [simp]:
  "si_sessions (snd (settle_source_claim k r c t s)) = si_sessions s"
proof -
  let ?m = "if claim_state c = Started then mark_source_indeterminate k r t else op_lift (Ok ())"
  have "si_sessions (snd (?m s)) = si_sessions s" by (simp add: op_lift_def)
  then show ?thesis
    unfolding settle_source_claim_def op_bind_def
    by (cases "?m s"; cases "fst (?m s)") (simp_all add: Let_def)
qed

lemma terminalize_sessions [simp]:
  "si_sessions (snd (terminalize_started_hitl_source_locked r t s)) = si_sessions s"
  by (simp add: terminalize_started_hitl_source_locked_def Let_def split: option.split)

lemma cancel_admitted_sessions [simp]:
  "si_sessions (snd (cancel_admitted_run lease t eff s)) = si_sessions s"
  by (simp add: cancel_admitted_run_def Let_def split: option.split result.split)

interpretation fence_cleanup: lease_cleanup "session_fence sid fence" for sid fence
proof
  show "keeps (session_fence sid fence) (terminalize_started_hitl_source_locked r t)" for r t
    by (rule keepsI) (simp add: session_fence_def)
  show "keeps (session_fence sid fence) (cancel_admitted_run lease t eff)" for lease t eff
    by (rule keepsI) (simp add: session_fence_def)
  show "keeps (session_fence sid fence) (publish_authoritative env i runs)" for env i runs
    by (rule keepsI) (simp add: session_fence_def outbox_onlyD [OF publish_outbox_only])
  show "keeps (session_fence sid fence) (reconcile_run_control_intents_locked lease t)" for lease t
    by (rule keepsI) (simp add: session_fence_def control_onlyD [OF reconcile_control_only])
  show "keeps (session_fence sid fence) (apply_run_status_locked sid' rid st pv er t)" for sid' rid st pv er t
  proof (rule keepsI)
    fix s
    assume I: "session_fence sid fence s"
    then have "session_fence sid fence (s\<lparr>si_runs := rs\<rparr>)" for rs by (simp add: session_fence_def)
    then have "session_fence sid fence
        (session_modify sid' (session_note_run_status rid st t) (s\<lparr>si_runs := rs\<rparr>))" for rs
      by (rule session_fence_modify) (simp add: session_note_run_status_def Let_def)
    with I show "session_fence sid fence (snd (apply_run_status_locked sid' rid st pv er t s))"
      by (simp add: apply_run_status_locked_def Let_def session_fence_def [of _ _ "s\<lparr>si_runs := _\<rparr>"]
          split: option.split result.split) (simp add: session_fence_def)
  qed
  show "session_fence sid fence s \<Longrightarrow> session_fence sid fence (session_modify sid' (clear_active_run rid) s)" for s sid' rid
    by (rule session_fence_modify) (simp_all add: clear_active_run_def)
  show "session_fence sid fence s \<Longrightarrow> session_fence sid fence (session_modify sid' (note_expired rid t) s)" for s sid' rid t
    by (rule session_fence_modify) (simp_all add: note_expired_def clear_active_run_def Let_def)
qed (simp add: session_fence_def)

text \<open>A session whose deletion has begun admits no new run.\<close>

lemma deleting_blocks_admission:
  assumes "session_fence (rr_session_id (acq_run req)) fence s" and "fence \<noteq> Stable"
    and ok: "acquire_run_admission now req s = (Ok rc, s')"
  shows "rar_idempotent_replay rc \<and> s' = s"
proof -
  from ok have "acquire_run_admission_locked now req s = (Ok rc, s')"
    by (simp add: acquire_run_admission_def staged_Ok)
  then show ?thesis
  proof (cases rule: acquire_locked_Ok_cases)
    case (fresh s1 key run s2)
    have "session_fence (rr_session_id (acq_run req)) fence s1"
      using assms(1) fresh(2) by (rule fence_cleanup.keeps_displace)
    with assms(2) fresh(3) show ?thesis
      by (cases fence) (auto simp: session_fence_def check_session_admits_def Let_def split: if_splits)
  qed auto
qed

lemma tombstone_spec:
  assumes inv: "record_inv s" and ok: "tombstone_session now t1 t2 sid fid s = (Ok r, s')"
  shows "sr_session_id r = sid \<and> (\<exists>d. sr_deletion_fence r = Deleted fid d)
    \<and> map_of (si_sessions s') = (map_of (si_sessions s))(sid \<mapsto> r)
    \<and> si_runs s' = si_runs s
    \<and> (\<forall>k run. map_of (si_runs s) k = Some run \<and> rr_session_id run = sid
          \<longrightarrow> \<not> run_status_is_active (rr_status run))"
proof -
  from ok obtain session where free: "session_in_use now sid s = Ok ()"
    and sess: "map_of (si_sessions s) sid = Some session"
    by (auto simp: tombstone_session_def split: result.splits option.splits)
  have "sr_session_id session = sid" using inv sess by (auto simp: record_inv_def sessions_ok_def)
  with ok free sess have A: "sr_session_id r = sid \<and> (\<exists>d. sr_deletion_fence r = Deleted fid d)
    \<and> map_of (si_sessions s') = (map_of (si_sessions s))(sid \<mapsto> r) \<and> si_runs s' = si_runs s"
    by (cases "sr_deletion_fence session")
       (auto simp: tombstone_session_def tombstoned_def Let_def fun_upd_idem split: if_splits)
  have "\<not> run_status_is_active (rr_status run)"
    if "map_of (si_runs s) k = Some run" "rr_session_id run = sid" for k run
    using free map_of_Some_in_values [OF that(1)] that(2) by (auto simp: session_in_use_def split: if_splits)
  with A show ?thesis by blast
qed

lemma tombstone_retry:
  assumes inv: "record_inv s" and ok: "tombstone_session now t1 t2 sid fid s = (Ok r, s')"
    and quiet: "session_in_use later sid s' = Ok ()"
  shows "tombstone_session later t1' t2' sid fid s' = (Ok r, s')"
proof -
  from tombstone_spec [OF inv ok] obtain d where "map_of (si_sessions s') sid = Some r"
    "sr_deletion_fence r = Deleted fid d" by auto
  with quiet show ?thesis by (simp add: tombstone_session_def Let_def)
qed

end
