(* ===== verification/Outbox_Refinement.thy ===== *)
theory Outbox_Refinement
  imports Store_Outbox
begin

text \<open>
  What the outbox promises, without its tables: a channel of publications, a published log and a
  queue behind it. Enqueueing appends what the channel does not know yet; publishing moves the
  front of the queue to the end of the log. The store's operations implement the two channel
  operations, so the log only grows, in enqueue order, and no publication enters twice.
\<close>

section \<open>The channel\<close>

type_synonym channel = "pending_host_event_publication list \<times> pending_host_event_publication list"

definition channel_all :: "channel \<Rightarrow> pending_host_event_publication list" where
  "channel_all c = fst c @ snd c"

definition channel_knows :: "channel \<Rightarrow> event_publication_key \<Rightarrow> bool" where
  "channel_knows c k \<longleftrightarrow> k \<in> pub_publication_key ` set (channel_all c)"

fun channel_enqueue :: "pending_host_event_publication list \<Rightarrow> channel \<Rightarrow> channel" where
  "channel_enqueue [] c = c"
| "channel_enqueue (p # ps) c =
     channel_enqueue ps
       (if channel_knows c (pub_publication_key p) then c else (fst c, snd c @ [p]))"

definition channel_publish :: "nat \<Rightarrow> channel \<Rightarrow> channel" where
  "channel_publish n c = (fst c @ take n (snd c), drop n (snd c))"

text \<open>The channel's own guarantees.\<close>

locale append_only_channel =
  fixes step :: "'a \<Rightarrow> channel \<Rightarrow> channel"
  assumes extends: "prefix (channel_all c) (channel_all (step a c))"
    and log_extends: "prefix (fst c) (fst (step a c))"
    and unique: "distinct (map pub_publication_key (channel_all c)) \<Longrightarrow>
      distinct (map pub_publication_key (channel_all (step a c)))"
begin

lemma runs_extend: "prefix (channel_all c) (channel_all (fold step as c))"
proof (induction as arbitrary: c)
  case (Cons a as)
  have "prefix (channel_all c) (channel_all (step a c))" by (rule extends)
  also have "prefix \<dots> (channel_all (fold step as (step a c)))" by (rule Cons.IH)
  finally show ?case by simp
qed simp

lemma runs_log_extend: "prefix (fst c) (fst (fold step as c))"
proof (induction as arbitrary: c)
  case (Cons a as)
  have "prefix (fst c) (fst (step a c))" by (rule log_extends)
  also have "prefix \<dots> (fst (fold step as (step a c)))" by (rule Cons.IH)
  finally show ?case by simp
qed simp

lemma runs_unique:
  "distinct (map pub_publication_key (channel_all c)) \<Longrightarrow>
     distinct (map pub_publication_key (channel_all (fold step as c)))"
  by (induction as arbitrary: c) (simp_all add: unique)

end

lemma channel_enqueue_log [simp]: "fst (channel_enqueue ps c) = fst c"
  by (induction ps arbitrary: c) simp_all

lemma channel_enqueue_extends: "prefix (channel_all c) (channel_all (channel_enqueue ps c))"
proof (induction ps arbitrary: c)
  case (Cons p ps)
  have "prefix (channel_all c)
      (channel_all (if channel_knows c (pub_publication_key p) then c else (fst c, snd c @ [p])))"
    by (simp add: channel_all_def)
  also have "prefix \<dots> (channel_all (channel_enqueue (p # ps) c))"
    by (simp add: Cons.IH)
  finally show ?case .
qed simp

lemma channel_enqueue_unique:
  "distinct (map pub_publication_key (channel_all c)) \<Longrightarrow>
     distinct (map pub_publication_key (channel_all (channel_enqueue ps c)))"
proof (induction ps arbitrary: c)
  case (Cons p ps)
  then have "distinct (map pub_publication_key
      (channel_all (if channel_knows c (pub_publication_key p) then c else (fst c, snd c @ [p]))))"
    by (auto simp: channel_all_def channel_knows_def)
  then show ?case by (simp add: Cons.IH)
qed simp

interpretation enqueueing: append_only_channel channel_enqueue
  by unfold_locales (simp_all add: channel_enqueue_extends channel_enqueue_unique)

interpretation publishing: append_only_channel channel_publish
  by unfold_locales (simp_all add: channel_publish_def channel_all_def)

section \<open>The store as a channel\<close>

definition pending_publications :: "store_inner \<Rightarrow> pending_host_event_publication list" where
  "pending_publications s =
     map (\<lambda>k. the (map_of (si_host_event_outbox s) k)) (bt_values (si_host_event_outbox_order s))"

definition channel_of :: "store_inner \<Rightarrow> channel" where
  "channel_of s =
     (map pending_projection (bt_values (si_host_event_records s)), pending_publications s)"

lemma pending_key:
  assumes "outbox_inv s" and "k \<in> set (bt_values (si_host_event_outbox_order s))"
  shows "\<exists>p. map_of (si_host_event_outbox s) k = Some p \<and> pub_publication_key p = k"
proof -
  from assms(1) have q: "queue_inv s" by (simp add: outbox_inv_def)
  from assms(2) obtain n where "(n, k) \<in> set (si_host_event_outbox_order s)"
    by (auto simp: bt_values_def)
  then have "map_of (si_host_event_outbox_order s) n = Some k"
    using queue_inv_wf [OF q] by (simp add: bt_wf_map_of_iff)
  then have "map_of (si_host_event_outbox_sequences s) k \<noteq> None"
    using queue_inv_order [OF q] by simp
  then have "map_of (si_host_event_outbox s) k \<noteq> None"
    using queue_inv_none [OF q, of k] by simp
  then show ?thesis using queue_inv_key [OF q] by auto
qed

lemma pending_publications_keys:
  assumes "outbox_inv s"
  shows "map pub_publication_key (pending_publications s) = bt_values (si_host_event_outbox_order s)"
  unfolding pending_publications_def map_map
  by (rule map_idI) (use pending_key [OF assms] in force)

lemma pending_publications_set:
  assumes inv: "outbox_inv s"
  shows "p \<in> set (pending_publications s)
    \<longleftrightarrow> map_of (si_host_event_outbox s) (pub_publication_key p) = Some p"
proof
  assume "p \<in> set (pending_publications s)"
  then obtain k where "k \<in> set (bt_values (si_host_event_outbox_order s))"
    and p: "p = the (map_of (si_host_event_outbox s) k)" by (auto simp: pending_publications_def)
  with pending_key [OF inv this(1)] show "map_of (si_host_event_outbox s) (pub_publication_key p) = Some p"
    by auto
next
  assume p: "map_of (si_host_event_outbox s) (pub_publication_key p) = Some p"
  from inv have q: "queue_inv s" by (simp add: outbox_inv_def)
  from p obtain n where "map_of (si_host_event_outbox_sequences s) (pub_publication_key p) = Some n"
    using queue_inv_none [OF q, of "pub_publication_key p"] by auto
  then have "map_of (si_host_event_outbox_order s) n = Some (pub_publication_key p)"
    by (rule queue_inv_seq [OF q])
  then have "pub_publication_key p \<in> set (bt_values (si_host_event_outbox_order s))"
    by (rule map_of_Some_in_values)
  with p show "p \<in> set (pending_publications s)"
    unfolding pending_publications_def by (force intro: rev_image_eqI)
qed

lemma pending_projection_key [simp]: "pub_publication_key (pending_projection r) = her_publication_key r"
  by (simp add: pending_projection_def)

lemma channel_knows_iff:
  assumes inv: "outbox_inv s"
  shows "channel_knows (channel_of s) k \<longleftrightarrow> key_known s k"
proof -
  from inv have q: "queue_inv s" and l: "log_inv s" by (simp_all add: outbox_inv_def)
  have "k \<in> her_publication_key ` set (bt_values (si_host_event_records s))
      \<longleftrightarrow> bt_contains (si_host_event_positions s) k"
  proof
    assume "k \<in> her_publication_key ` set (bt_values (si_host_event_records s))"
    then obtain pos r where "(pos, r) \<in> set (si_host_event_records s)" "k = her_publication_key r"
      by (auto simp: bt_values_def)
    then show "bt_contains (si_host_event_positions s) k"
      using log_inv_record [OF l, of pos r] log_inv_wf [OF l]
      by (simp add: bt_wf_map_of_iff bt_contains_def)
  next
    assume "bt_contains (si_host_event_positions s) k"
    then obtain pos where "map_of (si_host_event_positions s) k = Some pos"
      by (auto simp: bt_contains_iff)
    from log_inv_position [OF l this] show "k \<in> her_publication_key ` set (bt_values (si_host_event_records s))"
      by (auto dest: map_of_Some_in_values)
  qed
  moreover have "k \<in> pub_publication_key ` set (pending_publications s)
      \<longleftrightarrow> bt_contains (si_host_event_outbox s) k"
  proof
    assume "k \<in> pub_publication_key ` set (pending_publications s)"
    then obtain p where "p \<in> set (pending_publications s)" "k = pub_publication_key p" by auto
    then show "bt_contains (si_host_event_outbox s) k"
      by (simp add: pending_publications_set [OF inv] bt_contains_def)
  next
    assume "bt_contains (si_host_event_outbox s) k"
    then obtain p where p: "map_of (si_host_event_outbox s) k = Some p" by (auto simp: bt_contains_iff)
    moreover from p have "pub_publication_key p = k" by (rule queue_inv_key [OF q])
    ultimately show "k \<in> pub_publication_key ` set (pending_publications s)"
      using pending_publications_set [OF inv, of p] by auto
  qed
  ultimately show ?thesis
    by (auto simp: channel_knows_def channel_all_def channel_of_def key_known_def image_Un image_image)
qed

lemma channel_of_insert:
  assumes inv: "outbox_inv s"
    and n: "next_host_event_number (si_last_host_event_outbox_sequence s) = Some n"
    and fresh: "map_of (si_host_event_outbox s) (pub_publication_key p) = None"
  shows "channel_of (insert_publication n p s) = (fst (channel_of s), snd (channel_of s) @ [p])"
proof -
  from inv have q: "queue_inv s" by (simp add: outbox_inv_def)
  have "\<forall>k \<in> fst ` set (si_host_event_outbox_order s). k < n"
  proof
    fix k
    assume "k \<in> fst ` set (si_host_event_outbox_order s)"
    then obtain l where "map_of (si_host_event_outbox_order s) k = Some l"
      using queue_inv_wf [OF q] by (auto simp: bt_wf_map_of_iff)
    then have "k \<le> si_last_host_event_outbox_sequence s" by (rule queue_inv_le [OF q])
    also have "\<dots> < n" using n by (simp add: next_host_event_number_gt)
    finally show "k < n" .
  qed
  then have order: "bt_values (si_host_event_outbox_order (insert_publication n p s))
      = bt_values (si_host_event_outbox_order s) @ [pub_publication_key p]"
    by (simp add: insert_publication_def bt_insert_last bt_values_def)
  have "k \<noteq> pub_publication_key p" if "k \<in> set (bt_values (si_host_event_outbox_order s))" for k
    using pending_key [OF inv that] fresh by auto
  then show ?thesis
    by (simp add: channel_of_def pending_publications_def order)
       (auto simp: insert_publication_def)
qed

lemma insert_publications_refines:
  assumes "outbox_inv s" and "batch_consistent ps" and "ids_admissible s ps"
    and "insert_publications seen ps s = (Ok (), s')"
    and "\<And>k. bt_contains seen k \<Longrightarrow> key_known s k"
  shows "channel_of s' = channel_enqueue ps (channel_of s)"
  using assms
proof (induction ps arbitrary: seen s)
  case (Cons p ps)
  let ?k = "pub_publication_key p"
  have tail: "batch_consistent ps" "ids_admissible s ps"
    using Cons.prems(2,3) unfolding batch_consistent_def ids_admissible_def
    by (metis list.set_intros(2))+
  show ?case
  proof (cases "key_known s ?k")
    case True
    then have "insert_publications (bt_insert ?k () seen) ps s = (Ok (), s')"
      using Cons.prems(4) by (auto simp: Let_def key_known_def)
    moreover have "\<And>k. bt_contains (bt_insert ?k () seen) k \<Longrightarrow> key_known s k"
      using Cons.prems(5) True by auto
    ultimately have "channel_of s' = channel_enqueue ps (channel_of s)"
      using Cons.IH [OF Cons.prems(1) tail] by blast
    with True show ?thesis by (simp add: channel_knows_iff [OF Cons.prems(1)])
  next
    case False
    then have nseen: "\<not> bt_contains seen ?k" and npos: "\<not> bt_contains (si_host_event_positions s) ?k"
      and nout: "\<not> bt_contains (si_host_event_outbox s) ?k"
      using Cons.prems(5) by (auto simp: key_known_def)
    with Cons.prems(4) obtain n
      where n: "next_host_event_number (si_last_host_event_outbox_sequence s) = Some n"
      and rest: "insert_publications (bt_insert ?k () seen) ps (insert_publication n p s) = (Ok (), s')"
      by (auto simp: Let_def split: option.splits)
    let ?s = "insert_publication n p s"
    have inv': "outbox_inv ?s"
      using Cons.prems(1,3) n npos nout
      by (intro outbox_inv_insert_publication) (auto simp: ids_admissible_def bt_contains_def)
    have adm: "ids_admissible ?s ps"
      by (rule ids_admissible_insert [OF Cons.prems(2) tail(2)])
    have known: "\<And>k. bt_contains (bt_insert ?k () seen) k \<Longrightarrow> key_known ?s k"
      using Cons.prems(5) by (auto simp: key_known_def insert_publication_def)
    have "channel_of s' = channel_enqueue ps (channel_of ?s)"
      using inv' tail(1) adm rest known by (rule Cons.IH)
    also have "channel_of ?s = (fst (channel_of s), snd (channel_of s) @ [p])"
      using Cons.prems(1) n nout by (intro channel_of_insert) (simp_all add: bt_contains_def)
    finally show ?thesis
      using False by (simp add: channel_knows_iff [OF Cons.prems(1)])
  qed
qed simp

section \<open>The refinement\<close>

text \<open>Functional refinement: the abstraction of the result is the channel operation's result.\<close>

lemma enqueue_refines:
  assumes inv: "outbox_inv s" and ok: "enqueue_host_event_publications_locked env pubs s = (Ok (), s')"
  shows "channel_of s' = channel_enqueue pubs (channel_of s)"
proof -
  note E = enqueue_Ok [OF ok]
  show ?thesis
    by (rule insert_publications_refines [OF inv, of pubs "[]"]) (use E in simp_all)
qed

lemma materialize_refines:
  assumes inv: "outbox_inv s" and lim: "1 \<le> limit" "limit \<le> max_host_event_page_size"
    and room: "unat (si_last_host_event_position s) + unat limit \<le> unat max_host_event_position"
  shows "\<exists>recs s'. materialize_host_event_publication_batch limit s = (Ok recs, s')
    \<and> channel_of s' = channel_publish (unat limit) (channel_of s)"
proof -
  obtain ps recs s' where M: "materialize_host_event_publication_batch limit s = (Ok recs, s')"
      "outbox_inv s'" "map pending_projection recs = ps"
      "map pub_publication_key ps = take (unat limit) (bt_values (si_host_event_outbox_order s))"
      "bt_values (si_host_event_outbox_order s')
        = drop (unat limit) (bt_values (si_host_event_outbox_order s))"
      "si_host_event_records s' = si_host_event_records s @ map (\<lambda>r. (her_position r, r)) recs"
      "\<forall>k. k \<notin> pub_publication_key ` set ps
          \<longrightarrow> map_of (si_host_event_outbox s') k = map_of (si_host_event_outbox s) k"
    and pend: "pending_host_event_publication_batch limit s = Ok ps"
    using materialize_batch_spec [OF inv lim room] by blast
  have q: "queue_inv s" using inv by (simp add: outbox_inv_def)
  let ?keys = "bt_values (si_host_event_outbox_order s)"
  have "ps = take (unat limit) (pending_publications s)"
  proof -
    from pend have "pending_in_order s (unat limit) = Ok ps"
      by (simp add: pending_host_event_publication_batch_def split: result.splits)
    moreover obtain ps' where ps': "pending_in_order s (unat limit) = Ok ps'"
      "map pub_publication_key ps' = take (unat limit) ?keys"
      "\<forall>p \<in> set ps'. map_of (si_host_event_outbox s) (pub_publication_key p) = Some p"
      using pending_in_order_ok [OF inv, of "unat limit"] by blast
    ultimately have "ps = ps'" by simp
    have "map (\<lambda>k. the (map_of (si_host_event_outbox s) k)) (map pub_publication_key ps') = ps'"
      unfolding map_map by (rule map_idI) (use ps'(3) in simp)
    then show ?thesis
      unfolding \<open>ps = ps'\<close> ps'(2) by (simp add: pending_publications_def take_map)
  qed
  moreover have "pending_publications s' = drop (unat limit) (pending_publications s)"
  proof -
    have "k \<notin> pub_publication_key ` set ps" if "k \<in> set (drop (unat limit) ?keys)" for k
    proof -
      have "distinct (take (unat limit) ?keys @ drop (unat limit) ?keys)"
        using queue_inv_distinct [OF q] by simp
      with that have "k \<notin> set (take (unat limit) ?keys)" by (auto simp del: append_take_drop_id)
      then show ?thesis unfolding M(4) [symmetric] by simp
    qed
    then show ?thesis
      using M(7) unfolding pending_publications_def M(5) drop_map by (intro map_cong) simp_all
  qed
  ultimately have "channel_of s' = channel_publish (unat limit) (channel_of s)"
    using M(3) by (simp add: channel_of_def channel_publish_def M(6) bt_values_def comp_def)
  with M(1) show ?thesis by blast
qed

end
