(* ===== verification/Store_Background.thy ===== *)
theory Store_Background
  imports Store_Admission "HOL-Library.Option_ord"
begin

text \<open>
  Background subagent attempts in the store (the \<open>background\<close> functions and methods of
  \<open>starweaver-session/src/store/memory.rs\<close>). An attempt is accepted under an owner lease, executes,
  commits its terminal evidence once, and its result is delivered at most once: through a claim, or
  together with the admission of a continuation run. Clock readings are arguments, one per call of
  \<open>Utc::now\<close>; times are counted in nanoseconds.
\<close>

section \<open>Messages\<close>

definition msg_bg_acceptance :: string where
  "msg_bg_acceptance = ''invalid background-subagent acceptance record''"

definition msg_bg_other_identity :: "string \<Rightarrow> string" where
  "msg_bg_other_identity a = ''background attempt '' @ a @ '' already exists with different identity''"

definition msg_bg_acceptance_expired :: string where
  "msg_bg_acceptance_expired = ''background-subagent acceptance owner lease is already expired''"

definition msg_bg_no_delegation :: string where
  "msg_bg_no_delegation = ''session cannot admit background delegation''"

definition msg_bg_active_attempt :: "string \<Rightarrow> string" where
  "msg_bg_active_attempt a = ''background agent '' @ a @ '' already has an active durable attempt''"

definition msg_bg_transition :: "string \<Rightarrow> string" where
  "msg_bg_transition a = ''invalid background execution transition for '' @ a"

definition msg_bg_heartbeat :: string where
  "msg_bg_heartbeat = ''stale or invalid background-subagent owner heartbeat''"

definition msg_bg_parent_deleting :: string where
  "msg_bg_parent_deleting =
     ''background owner write rejected because parent session is deleting or deleted''"

definition msg_bg_terminal_record :: string where
  "msg_bg_terminal_record = ''invalid background-subagent terminal record''"

definition msg_bg_limits :: string where
  "msg_bg_limits = ''background-subagent artifact requires valid host quota limits''"

definition msg_bg_immutable :: "string \<Rightarrow> string" where
  "msg_bg_immutable a = ''terminal background attempt '' @ a @ '' is immutable''"

definition msg_bg_owner_expired :: "string \<Rightarrow> string" where
  "msg_bg_owner_expired a = ''background owner lease expired for '' @ a"

definition msg_bg_terminal_transition :: "string \<Rightarrow> string" where
  "msg_bg_terminal_transition a = ''invalid terminal background transition for '' @ a"

definition msg_bg_artifact_mismatch :: string where
  "msg_bg_artifact_mismatch = ''background-subagent artifact does not match terminal evidence''"

definition msg_bg_artifact_identity :: string where
  "msg_bg_artifact_identity = ''background-subagent artifact identity conflict''"

definition msg_bg_artifact_payload :: string where
  "msg_bg_artifact_payload = ''artifact retention requires an atomic artifact payload''"

definition msg_bg_artifact_expired :: string where
  "msg_bg_artifact_expired = ''background-subagent artifact is invalid or already expired''"

definition msg_bg_quota :: string where
  "msg_bg_quota = ''background-subagent artifact exceeds host retention quota''"

definition msg_bg_artifact_integrity :: string where
  "msg_bg_artifact_integrity = ''background-subagent artifact failed integrity validation''"

definition msg_bg_no_evidence :: string where
  "msg_bg_no_evidence = ''artifact result is missing terminal evidence''"

definition msg_bg_no_reference :: string where
  "msg_bg_no_reference = ''artifact result is missing its reference''"

definition msg_bg_artifact_retention :: string where
  "msg_bg_artifact_retention =
     ''background-subagent artifact failed integrity or retention validation''"

definition msg_bg_live_consumer :: string where
  "msg_bg_live_consumer = ''live admitted consumer still owns the background delivery claim''"

definition msg_bg_completed_consumer :: string where
  "msg_bg_completed_consumer = ''completed consumer already delivered the background result''"

definition msg_bg_terminated_consumer :: string where
  "msg_bg_terminated_consumer = ''terminated consumer released the background delivery claim''"

definition msg_bg_not_claimable :: string where
  "msg_bg_not_claimable = ''background result delivery is not claimable''"

definition msg_bg_other_claim :: string where
  "msg_bg_other_claim = ''background result was delivered by another claim''"

definition msg_bg_claim_mismatch :: string where
  "msg_bg_claim_mismatch = ''background delivery claim mismatch''"

definition msg_bg_no_matching_claim :: string where
  "msg_bg_no_matching_claim = ''terminated consumer has no matching background delivery claim''"

definition msg_bg_consumer_not_terminal :: string where
  "msg_bg_consumer_not_terminal = ''terminated consumer does not own the claim or is not terminal''"

definition msg_bg_cause :: string where
  "msg_bg_cause = ''background continuation cause does not match its durable result''"

definition msg_bg_already_claimed :: string where
  "msg_bg_already_claimed = ''background result was already claimed or delivered''"

definition msg_bg_receipt_mismatch :: string where
  "msg_bg_receipt_mismatch = ''stored continuation receipt does not match the causal request''"

definition msg_bg_cannot_admit :: string where
  "msg_bg_cannot_admit = ''background result cannot admit this continuation''"

definition msg_bg_head_moved :: string where
  "msg_bg_head_moved = ''background continuation source no longer matches the session head''"

definition msg_bg_lost_binding :: string where
  "msg_bg_lost_binding = ''admitted continuation receipt lost causal input binding''"

definition text_bg_interrupted :: string where
  "text_bg_interrupted = ''in-process background execution was interrupted by host restart''"

definition host_process_lost :: string where
  "host_process_lost = ''host_process_lost''"

definition default_background_result_retention :: datetime where
  "default_background_result_retention = 86400 * 1000000000"

section \<open>Comparisons of records\<close>

definition same_background_identity ::
    "background_subagent_record \<Rightarrow> background_subagent_record \<Rightarrow> bool" where
  "same_background_identity current nxt \<longleftrightarrow>
     bg_schema_version current = bg_schema_version nxt
     \<and> bg_attempt_id current = bg_attempt_id nxt
     \<and> bg_agent_id current = bg_agent_id nxt
     \<and> bg_linked_task_id current = bg_linked_task_id nxt
     \<and> bg_subagent_name current = bg_subagent_name nxt
     \<and> bg_namespace_id current = bg_namespace_id nxt
     \<and> bg_parent_session_id current = bg_parent_session_id nxt
     \<and> bg_parent_run_id current = bg_parent_run_id nxt
     \<and> bg_profile current = bg_profile nxt
     \<and> bol_host_instance_id (bg_owner_lease current) = bol_host_instance_id (bg_owner_lease nxt)
     \<and> bol_fencing_generation (bg_owner_lease current) = bol_fencing_generation (bg_owner_lease nxt)
     \<and> bg_accepted_at current = bg_accepted_at nxt"

definition same_background_owner ::
    "background_subagent_record \<Rightarrow> background_subagent_record \<Rightarrow> bool" where
  "same_background_owner current nxt \<longleftrightarrow>
     bol_host_instance_id (bg_owner_lease current) = bol_host_instance_id (bg_owner_lease nxt)
     \<and> bol_fencing_generation (bg_owner_lease current) = bol_fencing_generation (bg_owner_lease nxt)"

definition valid_background_terminal_base ::
    "background_subagent_record \<Rightarrow> background_subagent_record \<Rightarrow> bool" where
  "valid_background_terminal_base current nxt \<longleftrightarrow>
     bg_delivery_status current = Undelivered
     \<and> bg_delivery_claim current = None
     \<and> bg_delivered_claim_id current = None
     \<and> bg_continuation_run_id current = None
     \<and> bg_automatic_continuation_suppressed_by_run_id current = None
     \<and> bg_automatic_continuation_suppressed_by_run_id nxt = None
     \<and> bg_retention_status current = RetInline
     \<and> bg_retention_expires_at current = None
     \<and> bg_retention_status nxt \<in> {RetInline, RetArtifact}
     \<and> bg_trace_context current = bg_trace_context nxt
     \<and> bg_updated_at nxt \<ge> bg_updated_at current"

definition same_background_non_execution_state ::
    "background_subagent_record \<Rightarrow> background_subagent_record \<Rightarrow> bool" where
  "same_background_non_execution_state current nxt \<longleftrightarrow>
     bg_continuation_run_id current = bg_continuation_run_id nxt
     \<and> bg_result_ref current = bg_result_ref nxt
     \<and> bg_failure_category current = bg_failure_category nxt
     \<and> bg_cancellation_reason current = bg_cancellation_reason nxt
     \<and> bg_delivery_status current = bg_delivery_status nxt
     \<and> bg_delivery_claim current = bg_delivery_claim nxt
     \<and> bg_delivered_claim_id current = bg_delivered_claim_id nxt
     \<and> bg_automatic_continuation_suppressed_by_run_id current
         = bg_automatic_continuation_suppressed_by_run_id nxt
     \<and> bg_retention_status current = bg_retention_status nxt
     \<and> bg_retention_expires_at current = bg_retention_expires_at nxt
     \<and> bg_trace_context current = bg_trace_context nxt
     \<and> bg_terminal_at current = bg_terminal_at nxt
     \<and> bg_updated_at nxt \<ge> bg_updated_at current"

definition valid_background_transition ::
    "background_execution_status \<Rightarrow> background_execution_status \<Rightarrow> bool" where
  "valid_background_transition current nxt \<longleftrightarrow>
     current = nxt
     \<or> (case current of
          BgAccepted \<Rightarrow> nxt \<in> {BgStarting, BgFailed, BgCancelled}
        | BgStarting \<Rightarrow> nxt \<in> {BgRunning, BgFailed, BgCancelled}
        | BgRunning \<Rightarrow> nxt \<in> {BgWaiting, BgCompleted, BgFailed, BgCancelled}
        | BgWaiting \<Rightarrow> nxt \<in> {BgRunning, BgCompleted, BgFailed, BgCancelled}
        | _ \<Rightarrow> False)"

section \<open>Checks against the store\<close>

definition digest_or_empty :: "background_result_ref \<Rightarrow> string" where
  "digest_or_empty x = (case brr_digest x of None \<Rightarrow> [] | Some d \<Rightarrow> d)"

definition continuation_artifact_content ::
    "background_env \<Rightarrow> store_inner \<Rightarrow> background_subagent_record \<Rightarrow> datetime
     \<Rightarrow> string option store_result" where
  "continuation_artifact_content benv s background now =
     (if bg_retention_status background \<noteq> RetArtifact then Ok None
      else case bg_result_ref background of
          None \<Rightarrow> Err (Conflict msg_bg_no_evidence)
        | Some result_ref \<Rightarrow>
            (case brr_artifact_ref result_ref of
               None \<Rightarrow> Err (Conflict msg_bg_no_reference)
             | Some artifact_ref \<Rightarrow>
                 (case map_of (si_background_artifacts s) artifact_ref of
                    None \<Rightarrow> Err (NotFound artifact_ref)
                  | Some artifact \<Rightarrow>
                      if \<not> artifact_is_available_at benv artifact now
                         \<or> ba_namespace_id artifact \<noteq> bg_namespace_id background
                         \<or> ba_attempt_id artifact \<noteq> bg_attempt_id background
                         \<or> ba_digest artifact \<noteq> digest_or_empty result_ref
                         \<or> ba_size_bytes artifact \<noteq> brr_size_bytes result_ref
                         \<or> bg_retention_expires_at background \<noteq> Some (ba_expires_at artifact)
                      then Err (Conflict msg_bg_artifact_retention)
                      else Ok (Some (ba_content artifact)))))"

definition continuation_receipt_matches_request ::
    "background_env \<Rightarrow> background_subagent_record \<Rightarrow> acquire_continuation_req
     \<Rightarrow> run_admission_receipt \<Rightarrow> bool" where
  "continuation_receipt_matches_request benv background request admission \<longleftrightarrow>
     (let proposed = acq_run (acr_admission request); admitted = rar_run admission;
          target = lease_target (rar_lease admission)
      in validates_continuation_cause_envelope benv background (acr_cause request) admitted
         \<and> rr_session_id admitted = rr_session_id proposed
         \<and> rr_run_id admitted = rr_run_id proposed
         \<and> rr_conversation_id admitted = rr_conversation_id proposed
         \<and> rr_input admitted = rr_input proposed
         \<and> rr_parent_run_id admitted = rr_parent_run_id proposed
         \<and> rr_parent_task_id admitted = rr_parent_task_id proposed
         \<and> rr_trigger_type admitted = rr_trigger_type proposed
         \<and> rr_profile admitted = rr_profile proposed
         \<and> rr_trace_context admitted = rr_trace_context proposed
         \<and> rr_metadata admitted = rr_metadata proposed
         \<and> rt_session_id target = rr_session_id proposed
         \<and> rt_run_id target = rr_run_id proposed
         \<and> rt_namespace_id target = acq_namespace_id (acr_admission request)
         \<and> lease_command_fingerprint (rar_lease admission)
             = acq_command_fingerprint (acr_admission request)
         \<and> lease_idempotency_key (rar_lease admission)
             = acq_idempotency_key (acr_admission request))"

text \<open>
  Serializing the evidence does not fail: its fields are strings, numbers and options, so the
  fingerprint is a value and not a result.
\<close>

definition background_terminal_fingerprint ::
    "background_env \<Rightarrow> background_subagent_record \<Rightarrow> background_artifact option \<Rightarrow> string" where
  "background_terminal_fingerprint benv r artifact =
     canonical_fingerprint benv
       \<lparr>btc_record = r, btc_artifact = artifact, btc_artifact_limits = None\<rparr>"

definition reconstruct_artifact ::
    "background_env \<Rightarrow> store_inner \<Rightarrow> background_subagent_record \<Rightarrow> background_artifact option" where
  "reconstruct_artifact benv s current =
     (case bg_result_ref current of
        None \<Rightarrow> None
      | Some result_ref \<Rightarrow>
          (case brr_artifact_ref result_ref of
             None \<Rightarrow> None
           | Some artifact_ref \<Rightarrow>
               (case map_of (si_background_artifacts s) artifact_ref of
                  None \<Rightarrow> None
                | Some artifact \<Rightarrow>
                    if \<not> artifact_is_valid benv artifact
                       \<or> ba_namespace_id artifact \<noteq> bg_namespace_id current
                       \<or> ba_attempt_id artifact \<noteq> bg_attempt_id current
                       \<or> ba_digest artifact \<noteq> digest_or_empty result_ref
                       \<or> ba_size_bytes artifact \<noteq> brr_size_bytes result_ref
                       \<or> bg_retention_expires_at current \<noteq> Some (ba_expires_at artifact)
                    then None else Some artifact)))"

definition reconstruct_background_terminal_fingerprint ::
    "background_env \<Rightarrow> store_inner \<Rightarrow> background_subagent_record \<Rightarrow> string option" where
  "reconstruct_background_terminal_fingerprint benv s current =
     (if \<not> background_execution_is_terminal (bg_execution_status current)
         \<or> bg_retention_status current = RetExpired
         \<or> bg_result_ref current = None
      then None
      else case bg_terminal_at current of
          None \<Rightarrow> None
        | Some terminal_at \<Rightarrow>
            if (case bg_retention_expires_at current of None \<Rightarrow> True | Some d \<Rightarrow> d \<le> terminal_at)
            then None
            else
              let terminal = current\<lparr>bg_updated_at := terminal_at\<rparr> in
              (case bg_retention_status current of
                 RetInline \<Rightarrow> Some (background_terminal_fingerprint benv terminal None)
               | RetArtifact \<Rightarrow>
                   (case reconstruct_artifact benv s current of
                      None \<Rightarrow> None
                    | Some a \<Rightarrow> Some (background_terminal_fingerprint benv terminal (Some a)))
               | RetExpired \<Rightarrow> None))"

definition persisted_background_terminal_fingerprint ::
    "background_env \<Rightarrow> store_inner \<Rightarrow> background_subagent_record \<Rightarrow> string option" where
  "persisted_background_terminal_fingerprint benv s current =
     (case map_of (si_background_terminal_fingerprints s) (bg_attempt_id current) of
        Some fp \<Rightarrow> Some fp
      | None \<Rightarrow> reconstruct_background_terminal_fingerprint benv s current)"

datatype claim_consumer_state =
    ConsReclaimable | ConsLive | ConsCompleted run_id | ConsTerminated run_id

definition consumer_is_live ::
    "store_inner \<Rightarrow> background_subagent_record \<Rightarrow> run_id \<Rightarrow> datetime \<Rightarrow> bool" where
  "consumer_is_live s r run_id now \<longleftrightarrow>
     (case map_of (si_run_admissions s)
             (managed_session_target_new (bg_namespace_id r) (bg_parent_session_id r)) of
        None \<Rightarrow> False
      | Some lease \<Rightarrow> rt_run_id (lease_target lease) = run_id \<and> \<not> lease_expired_at lease now)"

definition background_claim_consumer_state ::
    "store_inner \<Rightarrow> background_subagent_record \<Rightarrow> background_delivery_claim \<Rightarrow> datetime
     \<Rightarrow> claim_consumer_state" where
  "background_claim_consumer_state s r claim now =
     (case bdc_continuation_run_id claim of
        None \<Rightarrow> ConsReclaimable
      | Some run_id \<Rightarrow>
          (case map_of (si_runs s) (run_key (bg_parent_session_id r) run_id) of
             None \<Rightarrow> ConsReclaimable
           | Some run \<Rightarrow>
               if rr_status run = StCompleted then ConsCompleted run_id
               else if rr_status run = StFailed \<or> rr_status run = StCancelled
               then ConsTerminated run_id
               else if run_status_is_active (rr_status run) \<and> consumer_is_live s r run_id now
               then ConsLive
               else ConsReclaimable))"

definition retained_bytes :: "store_inner \<Rightarrow> background_artifact \<Rightarrow> datetime \<Rightarrow> u64" where
  "retained_bytes s artifact now =
     foldl u64_saturating_add 0
       (map ba_size_bytes
          (filter (\<lambda>c. ba_namespace_id c = ba_namespace_id artifact
                       \<and> ba_artifact_ref c \<noteq> ba_artifact_ref artifact
                       \<and> ba_expires_at c > now)
             (bt_values (si_background_artifacts s))))"

definition validate_background_artifact_quota ::
    "background_env \<Rightarrow> store_inner \<Rightarrow> background_artifact \<Rightarrow> artifact_limits \<Rightarrow> datetime
     \<Rightarrow> unit store_result" where
  "validate_background_artifact_quota benv s artifact limits now =
     (if \<not> artifact_is_available_at benv artifact now then Err (Conflict msg_bg_artifact_expired)
      else if ba_size_bytes artifact > al_max_single_bytes limits
           \<or> u64_saturating_add (retained_bytes s artifact now) (ba_size_bytes artifact)
               > al_max_retained_bytes limits
      then Err (QuotaExceeded msg_bg_quota)
      else Ok ())"

text \<open>The parent session: present in the namespace, active and not being deleted.\<close>

definition background_parent ::
    "store_inner \<Rightarrow> background_subagent_record \<Rightarrow> string \<Rightarrow> unit store_result" where
  "background_parent s r msg =
     (case map_of (si_sessions s) (bg_parent_session_id r) of
        None \<Rightarrow> Err (NotFound (bg_parent_session_id r))
      | Some session \<Rightarrow>
          if sr_namespace_id session \<noteq> bg_namespace_id r
          then Err (NotFound (bg_parent_session_id r))
          else if sr_status session \<noteq> SessActive \<or> blocks_continuation (sr_deletion_fence session)
          then Err (Conflict msg)
          else Ok ())"

definition ensure_background_parent_writable ::
    "store_inner \<Rightarrow> background_subagent_record \<Rightarrow> unit store_result" where
  "ensure_background_parent_writable s r = background_parent s r msg_bg_parent_deleting"

section \<open>Execution\<close>

definition store_background :: "background_subagent_record \<Rightarrow> store_inner \<Rightarrow> store_inner" where
  "store_background r s =
     s\<lparr>si_background_subagents := bt_insert (bg_attempt_id r) r (si_background_subagents s)\<rparr>"

definition background_attempt_active :: "background_subagent_record \<Rightarrow> store_inner \<Rightarrow> bool" where
  "background_attempt_active r s \<longleftrightarrow>
     (\<exists>x \<in> set (bt_values (si_background_subagents s)).
        bg_namespace_id x = bg_namespace_id r
        \<and> bg_parent_session_id x = bg_parent_session_id r
        \<and> bg_agent_id x = bg_agent_id r
        \<and> \<not> background_execution_is_terminal (bg_execution_status x))"

definition record_background_subagent_acceptance ::
    "datetime \<Rightarrow> background_subagent_record \<Rightarrow> background_subagent_record store_op" where
  "record_background_subagent_acceptance now r s =
     (if \<not> background_is_valid_acceptance r then (Err (Conflict msg_bg_acceptance), s)
      else case map_of (si_background_subagents s) (bg_attempt_id r) of
          Some existing \<Rightarrow>
            if same_background_identity existing r then (Ok existing, s)
            else (Err (Conflict (msg_bg_other_identity (bg_attempt_id r))), s)
        | None \<Rightarrow>
            if background_owner_expired_at (bg_owner_lease r) now
            then (Err (Conflict msg_bg_acceptance_expired), s)
            else
              (case background_parent s r msg_bg_no_delegation of
                 Err e \<Rightarrow> (Err e, s)
               | Panic \<Rightarrow> (Panic, s)
               | Ok _ \<Rightarrow>
                   if \<not> bt_contains (si_runs s)
                        (run_key (bg_parent_session_id r) (bg_parent_run_id r))
                   then (Err (NotFound (run_key_label (bg_parent_session_id r) (bg_parent_run_id r))), s)
                   else if background_attempt_active r s
                   then (Err (Conflict (msg_bg_active_attempt (bg_agent_id r))), s)
                   else (Ok r, store_background r s)))"

definition update_background_subagent_execution ::
    "datetime \<Rightarrow> background_subagent_record \<Rightarrow> background_subagent_record store_op" where
  "update_background_subagent_execution now r s =
     (case map_of (si_background_subagents s) (bg_attempt_id r) of
        None \<Rightarrow> (Err (NotFound (bg_attempt_id r)), s)
      | Some current \<Rightarrow>
          (case ensure_background_parent_writable s current of
             Err e \<Rightarrow> (Err e, s)
           | Panic \<Rightarrow> (Panic, s)
           | Ok _ \<Rightarrow>
               if background_owner_expired_at (bg_owner_lease current) now
                  \<or> \<not> same_background_identity current r
                  \<or> \<not> same_background_owner current r
                  \<or> background_execution_is_terminal (bg_execution_status current)
                  \<or> background_execution_is_terminal (bg_execution_status r)
                  \<or> \<not> valid_background_transition (bg_execution_status current) (bg_execution_status r)
                  \<or> \<not> same_background_non_execution_state current r
               then (Err (Conflict (msg_bg_transition (bg_attempt_id r))), s)
               else
                 let r' = r\<lparr>bg_owner_lease := bg_owner_lease current\<rparr>
                 in (Ok r', store_background r' s)))"

definition heartbeat_background_subagent ::
    "datetime \<Rightarrow> string \<Rightarrow> string \<Rightarrow> u64 \<Rightarrow> datetime \<Rightarrow> background_subagent_record store_op" where
  "heartbeat_background_subagent now attempt_id host_instance_id fencing_generation lease_expires_at s =
     (case map_of (si_background_subagents s) attempt_id of
        None \<Rightarrow> (Err (NotFound attempt_id), s)
      | Some r \<Rightarrow>
          (case ensure_background_parent_writable s r of
             Err e \<Rightarrow> (Err e, s)
           | Panic \<Rightarrow> (Panic, s)
           | Ok _ \<Rightarrow>
               if background_execution_is_terminal (bg_execution_status r)
                  \<or> background_owner_expired_at (bg_owner_lease r) now
                  \<or> bol_host_instance_id (bg_owner_lease r) \<noteq> host_instance_id
                  \<or> bol_fencing_generation (bg_owner_lease r) \<noteq> fencing_generation
                  \<or> lease_expires_at \<le> now
               then (Err (Conflict msg_bg_heartbeat), s)
               else
                 let r' = r\<lparr>bg_owner_lease := (bg_owner_lease r)
                            \<lparr>bol_heartbeat_at := now, bol_lease_expires_at := lease_expires_at\<rparr>\<rparr>
                 in (Ok r', s\<lparr>si_background_subagents :=
                      bt_insert attempt_id r' (si_background_subagents s)\<rparr>)))"

section \<open>Terminal commits and retention\<close>

definition artifact_matches ::
    "background_env \<Rightarrow> background_subagent_record \<Rightarrow> background_artifact \<Rightarrow> datetime \<Rightarrow> bool" where
  "artifact_matches benv r artifact now \<longleftrightarrow>
     artifact_is_available_at benv artifact now
     \<and> ba_attempt_id artifact = bg_attempt_id r
     \<and> ba_namespace_id artifact = bg_namespace_id r
     \<and> bg_retention_status r = RetArtifact
     \<and> bg_retention_expires_at r = Some (ba_expires_at artifact)
     \<and> (case bg_result_ref r of
          None \<Rightarrow> False
        | Some x \<Rightarrow> brr_artifact_ref x = Some (ba_artifact_ref artifact)
                    \<and> brr_digest x = Some (ba_digest artifact)
                    \<and> brr_size_bytes x = ba_size_bytes artifact)"

text \<open>
  Storing the artifact of a commit: the result is the artifact table, an existing entry must be
  the same artifact.
\<close>

definition commit_artifact ::
    "background_env \<Rightarrow> background_subagent_record \<Rightarrow> background_artifact option \<Rightarrow> datetime
     \<Rightarrow> unit store_op" where
  "commit_artifact benv r artifact now s =
     (case artifact of
        Some a \<Rightarrow>
          if \<not> artifact_matches benv r a now then (Err (Conflict msg_bg_artifact_mismatch), s)
          else
            (case map_of (si_background_artifacts s) (ba_artifact_ref a) of
               Some existing \<Rightarrow>
                 if existing \<noteq> a then (Err (Conflict msg_bg_artifact_identity), s) else (Ok (), s)
             | None \<Rightarrow>
                 (Ok (), s\<lparr>si_background_artifacts :=
                    bt_insert (ba_artifact_ref a) a (si_background_artifacts s)\<rparr>))
      | None \<Rightarrow>
          if bg_retention_status r = RetArtifact
          then (Err (Conflict msg_bg_artifact_payload), s) else (Ok (), s))"

definition quota_check ::
    "background_env \<Rightarrow> background_artifact option \<Rightarrow> artifact_limits option \<Rightarrow> datetime
     \<Rightarrow> store_inner \<Rightarrow> unit store_result" where
  "quota_check benv artifact limits now s =
     (case (artifact, limits) of
        (Some a, Some l) \<Rightarrow> validate_background_artifact_quota benv s a l now
      | _ \<Rightarrow> Ok ())"

definition put_fingerprint :: "string \<Rightarrow> string \<Rightarrow> store_inner \<Rightarrow> store_inner" where
  "put_fingerprint attempt_id fp s =
     s\<lparr>si_background_terminal_fingerprints :=
         bt_insert attempt_id fp (si_background_terminal_fingerprints s)\<rparr>"

text \<open>The first commit of an attempt that is still executing.\<close>

definition commit_background_first ::
    "background_env \<Rightarrow> datetime \<Rightarrow> background_subagent_record \<Rightarrow> background_subagent_record
     \<Rightarrow> background_artifact option \<Rightarrow> artifact_limits option \<Rightarrow> background_subagent_record store_op" where
  "commit_background_first benv now current r artifact limits s =
     (if background_owner_expired_at (bg_owner_lease current) now
      then (Err (Conflict (msg_bg_owner_expired (bg_attempt_id r))), s)
      else
        op_bind (op_lift (quota_check benv artifact limits now s))
          (\<lambda>_ s1.
             if \<not> same_background_identity current r
                \<or> \<not> same_background_owner current r
                \<or> \<not> valid_background_terminal_base current r
                \<or> \<not> valid_background_transition (bg_execution_status current) (bg_execution_status r)
             then (Err (Conflict (msg_bg_terminal_transition (bg_attempt_id r))), s1)
             else
               op_bind (commit_artifact benv r artifact now)
                 (\<lambda>_ s2.
                    let r' = r\<lparr>bg_owner_lease := bg_owner_lease current\<rparr>
                    in (Ok r',
                        store_background r'
                          (put_fingerprint (bg_attempt_id r)
                             (background_terminal_fingerprint benv r artifact) s2))) s1) s)"

definition commit_background_terminal ::
    "background_env \<Rightarrow> datetime \<Rightarrow> background_subagent_record \<Rightarrow> background_artifact option
     \<Rightarrow> artifact_limits option \<Rightarrow> background_subagent_record store_op" where
  "commit_background_terminal benv now r artifact limits s =
     (if \<not> background_is_valid_terminal r then (Err (Conflict msg_bg_terminal_record), s)
      else if (artifact \<noteq> None) \<noteq> (limits \<noteq> None)
           \<or> (case limits of None \<Rightarrow> False | Some l \<Rightarrow> \<not> artifact_limits_is_valid l)
      then (Err (Conflict msg_bg_limits), s)
      else case map_of (si_background_subagents s) (bg_attempt_id r) of
          None \<Rightarrow> (Err (NotFound (bg_attempt_id r)), s)
        | Some current \<Rightarrow>
            (case ensure_background_parent_writable s current of
               Err e \<Rightarrow> (Err e, s)
             | Panic \<Rightarrow> (Panic, s)
             | Ok _ \<Rightarrow>
                 if background_execution_is_terminal (bg_execution_status current)
                 then
                   (if persisted_background_terminal_fingerprint benv s current
                         = Some (background_terminal_fingerprint benv r artifact)
                    then (Ok current,
                          put_fingerprint (bg_attempt_id current)
                            (background_terminal_fingerprint benv r artifact) s)
                    else (Err (Conflict (msg_bg_immutable (bg_attempt_id r))), s))
                 else commit_background_first benv now current r artifact limits s))"

definition commit_background_subagent_terminal ::
    "background_env \<Rightarrow> datetime \<Rightarrow> background_terminal_commit \<Rightarrow> background_subagent_record store_op" where
  "commit_background_subagent_terminal benv now commit =
     commit_background_terminal benv now (btc_record commit) (btc_artifact commit)
       (btc_artifact_limits commit)"

definition record_background_subagent_terminal ::
    "background_env \<Rightarrow> datetime \<Rightarrow> background_subagent_record \<Rightarrow> background_subagent_record store_op" where
  "record_background_subagent_terminal benv now r = commit_background_terminal benv now r None None"

definition load_background_subagent_artifact ::
    "background_env \<Rightarrow> datetime \<Rightarrow> string \<Rightarrow> store_inner \<Rightarrow> background_artifact store_result" where
  "load_background_subagent_artifact benv now artifact_ref s =
     (case map_of (si_background_artifacts s) artifact_ref of
        None \<Rightarrow> Err (NotFound artifact_ref)
      | Some artifact \<Rightarrow>
          if ba_expires_at artifact \<le> now then Err (NotFound artifact_ref)
          else if \<not> artifact_is_valid benv artifact then Err (Conflict msg_bg_artifact_integrity)
          else Ok artifact)"

definition retention_due :: "string \<Rightarrow> datetime \<Rightarrow> background_subagent_record \<Rightarrow> bool" where
  "retention_due namespace_id now r \<longleftrightarrow>
     bg_namespace_id r = namespace_id
     \<and> background_execution_is_terminal (bg_execution_status r)
     \<and> bg_retention_status r \<noteq> RetExpired
     \<and> (case bg_retention_expires_at r of None \<Rightarrow> False | Some d \<Rightarrow> d \<le> now)"

definition keep_fingerprint :: "background_env \<Rightarrow> string \<Rightarrow> store_inner \<Rightarrow> store_inner" where
  "keep_fingerprint benv attempt_id s =
     (if bt_contains (si_background_terminal_fingerprints s) attempt_id then s
      else case map_of (si_background_subagents s) attempt_id of
          None \<Rightarrow> s
        | Some r \<Rightarrow>
            (case reconstruct_background_terminal_fingerprint benv s r of
               None \<Rightarrow> s
             | Some fp \<Rightarrow> put_fingerprint attempt_id fp s))"

definition expire_record :: "background_subagent_record \<Rightarrow> background_subagent_record" where
  "expire_record r =
     r\<lparr>bg_result_ref := map_option
          (\<lambda>x. x\<lparr>brr_artifact_ref := None, brr_content := None, brr_error := None\<rparr>) (bg_result_ref r),
       bg_retention_status := RetExpired,
       bg_retention_expires_at := None\<rparr>"

definition artifact_ref_of :: "background_subagent_record \<Rightarrow> string list" where
  "artifact_ref_of r =
     (case bg_result_ref r of
        None \<Rightarrow> []
      | Some x \<Rightarrow> (case brr_artifact_ref x of None \<Rightarrow> [] | Some a \<Rightarrow> [a]))"

fun expire_attempts ::
    "background_env \<Rightarrow> string list \<Rightarrow> background_subagent_record list \<Rightarrow> string list \<Rightarrow> store_inner
     \<Rightarrow> (background_subagent_record list \<times> string list) \<times> store_inner" where
  "expire_attempts benv [] expired refs s = ((expired, refs), s)"
| "expire_attempts benv (attempt_id # ids) expired refs s =
     (let s1 = keep_fingerprint benv attempt_id s in
      case map_of (si_background_subagents s1) attempt_id of
        None \<Rightarrow> expire_attempts benv ids expired refs s1
      | Some r \<Rightarrow>
          expire_attempts benv ids (expired @ [expire_record r]) (refs @ artifact_ref_of r)
            (s1\<lparr>si_background_subagents :=
                  bt_insert attempt_id (expire_record r) (si_background_subagents s1)\<rparr>))"

definition expire_background_subagent_retention ::
    "background_env \<Rightarrow> string \<Rightarrow> datetime \<Rightarrow> u64 \<Rightarrow> background_subagent_record list store_op" where
  "expire_background_subagent_retention benv namespace_id now limit s =
     (let due = sort (map (\<lambda>r. (bg_retention_expires_at r, bg_attempt_id r))
                  (filter (retention_due namespace_id now) (bt_values (si_background_subagents s))));
          ((expired, refs), s1) = expire_attempts benv (map snd (take (unat limit) due)) [] [] s
      in (Ok expired,
          s1\<lparr>si_background_artifacts := foldl (\<lambda>m a. bt_remove a m) (si_background_artifacts s1) refs\<rparr>))"

section \<open>Reading\<close>

definition load_background_subagent ::
    "string \<Rightarrow> store_inner \<Rightarrow> background_subagent_record store_result" where
  "load_background_subagent attempt_id s =
     (case map_of (si_background_subagents s) attempt_id of
        None \<Rightarrow> Err (NotFound attempt_id)
      | Some r \<Rightarrow> Ok r)"

definition in_scope :: "string \<Rightarrow> session_id option \<Rightarrow> background_subagent_record \<Rightarrow> bool" where
  "in_scope namespace_id sid r \<longleftrightarrow>
     bg_namespace_id r = namespace_id
     \<and> (case sid of None \<Rightarrow> True | Some i \<Rightarrow> bg_parent_session_id r = i)"

definition list_background_subagents ::
    "string \<Rightarrow> session_id option \<Rightarrow> u64 \<Rightarrow> store_inner \<Rightarrow> background_subagent_record list store_result" where
  "list_background_subagents namespace_id sid limit s =
     Ok (take (unat limit)
       (sort_key (\<lambda>r. (- bg_updated_at r, bg_attempt_id r))
          (filter (in_scope namespace_id sid) (bt_values (si_background_subagents s)))))"

definition delivery_pending :: "background_subagent_record \<Rightarrow> bool" where
  "delivery_pending r \<longleftrightarrow>
     background_execution_is_terminal (bg_execution_status r) \<and> bg_delivery_status r \<noteq> Delivered"

definition list_pending_background_subagents ::
    "string \<Rightarrow> session_id option \<Rightarrow> u64 \<Rightarrow> store_inner \<Rightarrow> background_subagent_record list store_result" where
  "list_pending_background_subagents namespace_id sid limit s =
     Ok (take (unat limit)
       (sort_key (\<lambda>r. (bg_updated_at r, bg_attempt_id r))
          (filter (\<lambda>r. in_scope namespace_id sid r \<and> delivery_pending r)
             (bt_values (si_background_subagents s)))))"

section \<open>Delivery\<close>

definition deliver ::
    "string \<Rightarrow> run_id option \<Rightarrow> datetime \<Rightarrow> background_subagent_record \<Rightarrow> background_subagent_record" where
  "deliver claim_id run_id now r =
     r\<lparr>bg_delivery_status := Delivered, bg_delivery_claim := None,
       bg_delivered_claim_id := Some claim_id, bg_continuation_run_id := run_id,
       bg_automatic_continuation_suppressed_by_run_id := None, bg_updated_at := now\<rparr>"

definition undeliver ::
    "run_id option \<Rightarrow> datetime \<Rightarrow> background_subagent_record \<Rightarrow> background_subagent_record" where
  "undeliver suppressed now r =
     r\<lparr>bg_delivery_status := Undelivered, bg_delivery_claim := None,
       bg_automatic_continuation_suppressed_by_run_id := suppressed, bg_updated_at := now\<rparr>"

definition put_background :: "string \<Rightarrow> background_subagent_record \<Rightarrow> store_inner \<Rightarrow> store_inner" where
  "put_background attempt_id r s =
     s\<lparr>si_background_subagents := bt_insert attempt_id r (si_background_subagents s)\<rparr>"

definition claim_is_expired :: "background_subagent_record \<Rightarrow> datetime \<Rightarrow> background_delivery_claim option" where
  "claim_is_expired r now =
     (case bg_delivery_claim r of
        None \<Rightarrow> None
      | Some c \<Rightarrow> if bg_delivery_status r = Claimed \<and> bdc_deadline c \<le> now then Some c else None)"

definition take_delivery_claim ::
    "datetime \<Rightarrow> string \<Rightarrow> background_delivery_claim \<Rightarrow> background_subagent_record
     \<Rightarrow> background_subagent_record store_op" where
  "take_delivery_claim now attempt_id claim r s =
     (if \<not> background_delivery_claimable_at r now then (Err (Conflict msg_bg_not_claimable), s)
      else
        let r' = r\<lparr>bg_delivery_status := Claimed, bg_delivery_claim := Some claim,
                   bg_updated_at := now\<rparr>
        in (Ok r', put_background attempt_id r' s))"

text \<open>
  A claim finds an expired claim of another consumer: a completed consumer has delivered, a failed
  one gives the result back, and both are written although the call reports a conflict.
\<close>

definition claim_background_subagent_delivery ::
    "datetime \<Rightarrow> string \<Rightarrow> background_delivery_claim \<Rightarrow> background_subagent_record store_op" where
  "claim_background_subagent_delivery now attempt_id claim s =
     (case map_of (si_background_subagents s) attempt_id of
        None \<Rightarrow> (Err (NotFound attempt_id), s)
      | Some r \<Rightarrow>
          if bg_delivery_status r = Claimed \<and> bg_delivery_claim r = Some claim then (Ok r, s)
          else
            (case claim_is_expired r now of
               None \<Rightarrow> take_delivery_claim now attempt_id claim r s
             | Some current_claim \<Rightarrow>
                 (case background_claim_consumer_state s r current_claim now of
                    ConsLive \<Rightarrow> (Err (Conflict msg_bg_live_consumer), s)
                  | ConsCompleted run_id \<Rightarrow>
                      (Err (Conflict msg_bg_completed_consumer),
                       put_background attempt_id
                         (deliver (bdc_claim_id current_claim) (Some run_id) now r) s)
                  | ConsTerminated run_id \<Rightarrow>
                      (Err (Conflict msg_bg_terminated_consumer),
                       put_background attempt_id (undeliver (Some run_id) now r) s)
                  | ConsReclaimable \<Rightarrow> take_delivery_claim now attempt_id claim r s)))"

definition holds_claim :: "background_subagent_record \<Rightarrow> string \<Rightarrow> bool" where
  "holds_claim r claim_id \<longleftrightarrow>
     bg_delivery_status r = Claimed
     \<and> (case bg_delivery_claim r of None \<Rightarrow> False | Some c \<Rightarrow> bdc_claim_id c = claim_id)"

definition claim_continuation :: "background_subagent_record \<Rightarrow> run_id option" where
  "claim_continuation r =
     (case bg_delivery_claim r of None \<Rightarrow> None | Some c \<Rightarrow> bdc_continuation_run_id c)"

definition acknowledge_background_subagent_delivery ::
    "datetime \<Rightarrow> string \<Rightarrow> string \<Rightarrow> background_subagent_record store_op" where
  "acknowledge_background_subagent_delivery now attempt_id claim_id s =
     (case map_of (si_background_subagents s) attempt_id of
        None \<Rightarrow> (Err (NotFound attempt_id), s)
      | Some r \<Rightarrow>
          if bg_delivery_status r = Delivered then
            (if bg_delivered_claim_id r = Some claim_id then (Ok r, s)
             else (Err (Conflict msg_bg_other_claim), s))
          else if \<not> holds_claim r claim_id then (Err (Conflict msg_bg_claim_mismatch), s)
          else
            let r' = deliver claim_id (claim_continuation r) now r
            in (Ok r', put_background attempt_id r' s))"

definition consumer_terminated :: "store_inner \<Rightarrow> background_subagent_record \<Rightarrow> run_id \<Rightarrow> bool" where
  "consumer_terminated s r run_id \<longleftrightarrow>
     claim_continuation r = Some run_id
     \<and> (case map_of (si_runs s) (run_key (bg_parent_session_id r) run_id) of
          None \<Rightarrow> False
        | Some run \<Rightarrow> rr_status run = StFailed \<or> rr_status run = StCancelled)"

definition release_background_subagent_delivery ::
    "datetime \<Rightarrow> string \<Rightarrow> string \<Rightarrow> background_delivery_release \<Rightarrow> background_subagent_record store_op" where
  "release_background_subagent_delivery now attempt_id claim_id release s =
     (case map_of (si_background_subagents s) attempt_id of
        None \<Rightarrow> (Err (NotFound attempt_id), s)
      | Some r \<Rightarrow>
          if bg_delivery_status r = Undelivered then
            (case release of
               Retryable \<Rightarrow> (Ok r, s)
             | ConsumerTerminated _ \<Rightarrow> (Err (Conflict msg_bg_no_matching_claim), s))
          else if \<not> holds_claim r claim_id then (Err (Conflict msg_bg_claim_mismatch), s)
          else
            (case release of
               ConsumerTerminated run_id \<Rightarrow>
                 if \<not> consumer_terminated s r run_id
                 then (Err (Conflict msg_bg_consumer_not_terminal), s)
                 else
                   let r' = undeliver (Some run_id) now r
                   in (Ok r', put_background attempt_id r' s)
             | Retryable \<Rightarrow>
                 let r' = undeliver (bg_automatic_continuation_suppressed_by_run_id r) now r
                 in (Ok r', put_background attempt_id r' s)))"

section \<open>Continuations\<close>

text \<open>A result that is claimed or delivered: the stored receipt of the same claim is replayed.\<close>

definition replay_continuation ::
    "background_env \<Rightarrow> acquire_continuation_req \<Rightarrow> background_subagent_record \<Rightarrow> store_inner
     \<Rightarrow> continuation_receipt store_result" where
  "replay_continuation benv request background s =
     (let adm = acr_admission request in
      if \<not> (bg_continuation_run_id background = Some (rr_run_id (acq_run adm))
            \<and> (bg_delivered_claim_id background = Some (acr_claim_id request)
               \<or> (case bg_delivery_claim background of
                    None \<Rightarrow> False | Some c \<Rightarrow> bdc_claim_id c = acr_claim_id request)))
      then Err (Conflict msg_bg_already_claimed)
      else case map_of (si_run_admission_idempotency s)
                  (acq_namespace_id adm, acq_idempotency_key adm) of
          None \<Rightarrow> Err (NotFound (acr_claim_id request))
        | Some (fingerprint, admission) \<Rightarrow>
            if fingerprint \<noteq> acq_command_fingerprint adm
            then Err (IdempotencyConflict (acq_idempotency_key adm))
            else
              let admission' = admission\<lparr>rar_idempotent_replay := True\<rparr> in
              if \<not> continuation_receipt_matches_request benv background request admission'
              then Err (Conflict msg_bg_receipt_mismatch)
              else Ok \<lparr>ctr_cause = continuation_cause_new benv background
                                    (rr_input (rar_run admission')),
                       ctr_background = background, ctr_admission = admission'\<rparr>)"

definition continuation_admissible ::
    "background_env \<Rightarrow> datetime \<Rightarrow> acquire_continuation_req \<Rightarrow> background_subagent_record
     \<Rightarrow> store_inner \<Rightarrow> unit store_result" where
  "continuation_admissible benv now request background s =
     (case continuation_artifact_content benv s background now of
        Err e \<Rightarrow> Err e
      | Panic \<Rightarrow> Panic
      | Ok artifact_content \<Rightarrow>
          if bg_parent_session_id background \<noteq> rr_session_id (acq_run (acr_admission request))
             \<or> bg_namespace_id background \<noteq> acq_namespace_id (acr_admission request)
             \<or> \<not> validates_continuation_cause benv background (acr_cause request)
                  (acq_run (acr_admission request)) artifact_content
             \<or> acr_claim_id request = []
             \<or> acr_claim_deadline request \<le> now
             \<or> \<not> background_delivery_claimable_at background now
          then Err (Conflict msg_bg_cannot_admit)
          else
            (case map_of (si_sessions s) (bg_parent_session_id background) of
               None \<Rightarrow> Err (NotFound (bg_parent_session_id background))
             | Some session \<Rightarrow>
                 if rr_restore_from_run_id (acq_run (acr_admission request)) \<noteq> sr_head_run_id session
                 then Err (Conflict msg_bg_head_moved)
                 else Ok ()))"

text \<open>The transaction: admit the run, check the receipt against the request, mark the delivery.\<close>

definition admit_continuation ::
    "background_env \<Rightarrow> datetime \<Rightarrow> datetime \<Rightarrow> acquire_continuation_req \<Rightarrow> background_subagent_record
     \<Rightarrow> continuation_receipt store_op" where
  "admit_continuation benv t_adm t_write request background =
     op_bind (acquire_run_admission_locked t_adm (acr_admission request))
       (\<lambda>admission s1.
          if \<not> continuation_receipt_matches_request benv background request admission
          then (Err (Conflict msg_bg_lost_binding), s1)
          else
            let background' = background
                  \<lparr>bg_delivery_status := Delivered, bg_delivery_claim := None,
                   bg_delivered_claim_id := Some (acr_claim_id request),
                   bg_continuation_run_id := Some (rr_run_id (rar_run admission)),
                   bg_updated_at := t_write\<rparr>
            in (Ok \<lparr>ctr_cause = continuation_cause_new benv background' (rr_input (rar_run admission)),
                    ctr_background = background', ctr_admission = admission\<rparr>,
                store_background background' s1))"

definition acquire_background_subagent_continuation ::
    "background_env \<Rightarrow> datetime \<Rightarrow> datetime \<Rightarrow> datetime \<Rightarrow> acquire_continuation_req
     \<Rightarrow> continuation_receipt store_op" where
  "acquire_background_subagent_continuation benv now t_adm t_write request s =
     (case map_of (si_background_subagents s) (acr_attempt_id request) of
        None \<Rightarrow> (Err (NotFound (acr_attempt_id request)), s)
      | Some background \<Rightarrow>
          if acr_attempt_id request \<noteq> cc_attempt_id (acr_cause request)
             \<or> bg_automatic_continuation_suppressed_by_run_id background \<noteq> None
             \<or> \<not> validates_continuation_cause_envelope benv background (acr_cause request)
                  (acq_run (acr_admission request))
          then (Err (Conflict msg_bg_cause), s)
          else if bg_delivery_status background \<in> {Delivered, Claimed}
          then (replay_continuation benv request background s, s)
          else
            (case continuation_admissible benv now request background s of
               Err e \<Rightarrow> (Err e, s)
             | Panic \<Rightarrow> (Panic, s)
             | Ok _ \<Rightarrow> staged (admit_continuation benv t_adm t_write request background) s))"

section \<open>Reconciliation after a host loss\<close>

definition host_lost :: "datetime \<Rightarrow> background_subagent_record \<Rightarrow> background_subagent_record" where
  "host_lost now r =
     r\<lparr>bg_execution_status := BgFailed,
       bg_failure_category := Some host_process_lost,
       bg_result_ref := Some \<lparr>brr_content = None, brr_error = Some text_bg_interrupted,
         brr_artifact_ref = None, brr_digest = None,
         brr_size_bytes = of_nat (length text_bg_interrupted)\<rparr>,
       bg_delivery_status := Undelivered,
       bg_delivery_claim := None,
       bg_retention_expires_at := Some (now + default_background_result_retention),
       bg_terminal_at := Some now,
       bg_updated_at := now\<rparr>"

definition claim_consumer ::
    "store_inner \<Rightarrow> background_subagent_record \<Rightarrow> background_delivery_claim
     \<Rightarrow> (run_id \<times> run_status) option" where
  "claim_consumer s r claim =
     (case bdc_continuation_run_id claim of
        None \<Rightarrow> None
      | Some run_id \<Rightarrow>
          map_option (\<lambda>run. (run_id, rr_status run))
            (map_of (si_runs s) (run_key (bg_parent_session_id r) run_id)))"

text \<open>The record after an expired claim was settled, or nothing while its consumer is live.\<close>

definition settle_expired_claim ::
    "store_inner \<Rightarrow> datetime \<Rightarrow> background_subagent_record \<Rightarrow> background_delivery_claim
     \<Rightarrow> background_subagent_record option" where
  "settle_expired_claim s now r claim =
     (case claim_consumer s r claim of
        None \<Rightarrow> Some (undeliver (bg_automatic_continuation_suppressed_by_run_id r) now r)
      | Some (run_id, status) \<Rightarrow>
          if run_status_is_active status \<and> consumer_is_live s r run_id now then None
          else if status = StCompleted
          then Some (deliver (bdc_claim_id claim) (bdc_continuation_run_id claim) now r)
          else if status = StFailed \<or> status = StCancelled
          then Some (undeliver (Some run_id) now r)
          else Some (undeliver (bg_automatic_continuation_suppressed_by_run_id r) now r))"

definition reconcile_background_one ::
    "background_env \<Rightarrow> datetime \<Rightarrow> string \<Rightarrow> store_inner
     \<Rightarrow> background_subagent_record list \<times> store_inner" where
  "reconcile_background_one benv now attempt_id s =
     (case map_of (si_background_subagents s) attempt_id of
        None \<Rightarrow> ([], s)
      | Some r \<Rightarrow>
          if \<not> background_execution_is_terminal (bg_execution_status r)
             \<and> background_owner_expired_at (bg_owner_lease r) now
          then
            ([host_lost now r],
             put_background attempt_id (host_lost now r)
               (put_fingerprint attempt_id
                  (background_terminal_fingerprint benv (host_lost now r) None) s))
          else
            (case claim_is_expired r now of
               None \<Rightarrow> ([], s)
             | Some claim \<Rightarrow>
                 (case settle_expired_claim s now r claim of
                    None \<Rightarrow> ([], s)
                  | Some r' \<Rightarrow> ([r'], put_background attempt_id r' s))))"

fun reconcile_background_ids ::
    "background_env \<Rightarrow> datetime \<Rightarrow> string list \<Rightarrow> background_subagent_record list
     \<Rightarrow> background_subagent_record list store_op" where
  "reconcile_background_ids benv now [] changed s = (Ok changed, s)"
| "reconcile_background_ids benv now (i # ids) changed s =
     (let (c, s') = reconcile_background_one benv now i s
      in reconcile_background_ids benv now ids (changed @ c) s')"

definition reconcile_background_subagents ::
    "background_env \<Rightarrow> string \<Rightarrow> datetime \<Rightarrow> background_subagent_record list store_op" where
  "reconcile_background_subagents benv namespace_id now s =
     reconcile_background_ids benv now
       (map bg_attempt_id
          (filter (\<lambda>r. bg_namespace_id r = namespace_id) (bt_values (si_background_subagents s)))) [] s"

end
