(* ===== verification/Background_Lifecycle.thy ===== *)
theory Background_Lifecycle
  imports Store_Background "HOL-Library.Multiset"
begin

text \<open>
  The life of a background attempt in the store: the invariant of the background tables, the
  contract every background operation meets (\<open>background_operation\<close>), loops that visit each attempt
  once (\<open>attempt_loop\<close>), and what follows: terminal evidence is committed once, a result is
  delivered at most once and by one claim, owners are fenced by their leases, artifacts respect the
  quota, and reconciliation settles whatever a lost host left behind.
\<close>

section \<open>The invariant\<close>

text \<open>
  One attempt: a claim is present exactly while it is claimed, a delivering claim exactly once it
  is delivered; before the terminal commit nothing is delivered, retained or suppressed; after it
  the evidence is present, and content is only dropped by expiry.
\<close>

definition attempt_ok :: "background_subagent_record \<Rightarrow> bool" where
  "attempt_ok r \<longleftrightarrow>
     background_owner_lease_is_valid (bg_owner_lease r)
     \<and> (bg_delivery_status r = Claimed \<longleftrightarrow> bg_delivery_claim r \<noteq> None)
     \<and> (bg_delivery_status r = Delivered \<longleftrightarrow> bg_delivered_claim_id r \<noteq> None)
     \<and> (bg_delivery_status r \<noteq> Delivered \<longrightarrow> bg_continuation_run_id r = None)
     \<and> (bg_retention_status r = RetExpired \<longrightarrow> artifact_ref_of r = [])
     \<and> (if background_execution_is_terminal (bg_execution_status r)
        then bg_result_ref r \<noteq> None \<and> bg_terminal_at r \<noteq> None
        else bg_delivery_status r = Undelivered \<and> bg_result_ref r = None \<and> bg_terminal_at r = None
             \<and> bg_retention_status r = RetInline \<and> bg_retention_expires_at r = None
             \<and> bg_automatic_continuation_suppressed_by_run_id r = None)"

definition same_agent :: "background_subagent_record \<Rightarrow> background_subagent_record \<Rightarrow> bool" where
  "same_agent r r' \<longleftrightarrow>
     bg_namespace_id r = bg_namespace_id r'
     \<and> bg_parent_session_id r = bg_parent_session_id r' \<and> bg_agent_id r = bg_agent_id r'"

text \<open>
  The tables: attempts and artifacts are stored under their own ids, an agent of a session has at
  most one attempt that is still executing, and exactly the terminal attempts have a fingerprint.
\<close>

definition background_inv :: "store_inner \<Rightarrow> bool" where
  "background_inv s \<longleftrightarrow>
     bt_wf (si_background_subagents s)
     \<and> bt_wf (si_background_artifacts s)
     \<and> bt_wf (si_background_terminal_fingerprints s)
     \<and> (\<forall>k r. map_of (si_background_subagents s) k = Some r \<longrightarrow>
          bg_attempt_id r = k \<and> attempt_ok r
          \<and> (background_execution_is_terminal (bg_execution_status r) \<longleftrightarrow>
               map_of (si_background_terminal_fingerprints s) k \<noteq> None))
     \<and> (\<forall>k. map_of (si_background_terminal_fingerprints s) k \<noteq> None \<longrightarrow>
          map_of (si_background_subagents s) k \<noteq> None)
     \<and> (\<forall>k r k' r'. map_of (si_background_subagents s) k = Some r \<longrightarrow>
          map_of (si_background_subagents s) k' = Some r' \<longrightarrow> same_agent r r' \<longrightarrow>
          \<not> background_execution_is_terminal (bg_execution_status r) \<longrightarrow>
          \<not> background_execution_is_terminal (bg_execution_status r') \<longrightarrow> k = k')
     \<and> (\<forall>k a. map_of (si_background_artifacts s) k = Some a \<longrightarrow> ba_artifact_ref a = k)"

lemma background_invD:
  assumes "background_inv s" and "map_of (si_background_subagents s) k = Some r"
  shows "bg_attempt_id r = k" "attempt_ok r"
    "background_execution_is_terminal (bg_execution_status r) \<longleftrightarrow>
       map_of (si_background_terminal_fingerprints s) k \<noteq> None"
  using assms unfolding background_inv_def by blast+

lemma background_inv_unique:
  assumes "background_inv s" and "map_of (si_background_subagents s) k = Some r"
    and "map_of (si_background_subagents s) k' = Some r'" and "same_agent r r'"
    and "\<not> background_execution_is_terminal (bg_execution_status r)"
    and "\<not> background_execution_is_terminal (bg_execution_status r')"
  shows "k = k'"
  using assms unfolding background_inv_def by blast

lemma background_inv_new: "background_inv store_new"
  by (simp add: background_inv_def store_new_def)

section \<open>How an attempt evolves\<close>

text \<open>
  The evidence of a terminal attempt: everything but its payload, which may only be dropped as a
  whole when the retention expires.
\<close>

definition result_expired :: "background_result_ref \<Rightarrow> background_result_ref" where
  "result_expired x = x\<lparr>brr_artifact_ref := None, brr_content := None, brr_error := None\<rparr>"

definition same_evidence :: "background_subagent_record \<Rightarrow> background_subagent_record \<Rightarrow> bool" where
  "same_evidence r r' \<longleftrightarrow>
     bg_execution_status r' = bg_execution_status r
     \<and> bg_child_run_id r' = bg_child_run_id r
     \<and> bg_failure_category r' = bg_failure_category r
     \<and> bg_cancellation_reason r' = bg_cancellation_reason r
     \<and> bg_terminal_at r' = bg_terminal_at r
     \<and> bg_trace_context r' = bg_trace_context r
     \<and> (bg_retention_status r = RetExpired \<longrightarrow> bg_retention_status r' = RetExpired)
     \<and> (bg_result_ref r' = bg_result_ref r
        \<or> bg_retention_status r' = RetExpired
          \<and> bg_result_ref r' = map_option result_expired (bg_result_ref r))"

definition same_delivery :: "background_subagent_record \<Rightarrow> background_subagent_record \<Rightarrow> bool" where
  "same_delivery r r' \<longleftrightarrow>
     bg_delivery_status r' = bg_delivery_status r
     \<and> bg_delivered_claim_id r' = bg_delivered_claim_id r
     \<and> bg_continuation_run_id r' = bg_continuation_run_id r"

definition attempt_kept :: "background_subagent_record \<Rightarrow> background_subagent_record \<Rightarrow> bool" where
  "attempt_kept r r' \<longleftrightarrow>
     same_background_identity r r'
     \<and> (background_execution_is_terminal (bg_execution_status r) \<longrightarrow> same_evidence r r')
     \<and> (bg_delivery_status r = Delivered \<longrightarrow> same_delivery r r')"

definition attempt_evolves :: "background_subagent_record \<Rightarrow> background_subagent_record \<Rightarrow> bool" where
  "attempt_evolves r r' \<longleftrightarrow>
     attempt_kept r r' \<and> valid_background_transition (bg_execution_status r) (bg_execution_status r')"

lemma attempt_evolves_refl [simp]: "attempt_evolves r r"
  by (simp add: attempt_evolves_def attempt_kept_def same_background_identity_def same_evidence_def
      same_delivery_def valid_background_transition_def)

lemma same_identity_trans:
  "same_background_identity a b \<Longrightarrow> same_background_identity b c \<Longrightarrow> same_background_identity a c"
  by (simp add: same_background_identity_def)

lemma result_expired_idem: "map_option result_expired (map_option result_expired x) = map_option result_expired x"
  by (cases x) (simp_all add: result_expired_def)

lemma same_evidence_trans: "same_evidence a b \<Longrightarrow> same_evidence b c \<Longrightarrow> same_evidence a c"
  by (auto simp: same_evidence_def result_expired_idem)

lemma attempt_kept_trans:
  assumes "attempt_kept a b" and "attempt_kept b c"
  shows "attempt_kept a c"
proof -
  have "same_background_identity a c"
    using assms same_identity_trans unfolding attempt_kept_def by blast
  moreover have "same_evidence a c" if "background_execution_is_terminal (bg_execution_status a)"
  proof -
    have "same_evidence a b" using that assms(1) unfolding attempt_kept_def by blast
    moreover from this that have "same_evidence b c"
      using assms(2) unfolding attempt_kept_def same_evidence_def by metis
    ultimately show ?thesis by (rule same_evidence_trans)
  qed
  moreover have "same_delivery a c" if "bg_delivery_status a = Delivered"
    using that assms by (simp add: attempt_kept_def same_delivery_def)
  ultimately show ?thesis unfolding attempt_kept_def by blast
qed

lemma attempt_kept_refl [simp]: "attempt_kept r r"
  using attempt_evolves_refl unfolding attempt_evolves_def by blast

section \<open>Writing one attempt\<close>

text \<open>Only the background tables are written.\<close>

definition beside_background :: "store_inner \<Rightarrow> store_inner" where
  "beside_background s =
     s\<lparr>si_background_subagents := [], si_background_artifacts := [],
       si_background_terminal_fingerprints := []\<rparr>"

definition background_only :: "store_inner \<Rightarrow> store_inner \<Rightarrow> bool" where
  "background_only s s' \<longleftrightarrow> beside_background s' = beside_background s"

definition attempts_evolve :: "store_inner \<Rightarrow> store_inner \<Rightarrow> bool" where
  "attempts_evolve s s' \<longleftrightarrow>
     (\<forall>k r. map_of (si_background_subagents s) k = Some r \<longrightarrow>
        (\<exists>r'. map_of (si_background_subagents s') k = Some r' \<and> attempt_evolves r r'))
     \<and> (\<forall>k fp. map_of (si_background_terminal_fingerprints s) k = Some fp \<longrightarrow>
        map_of (si_background_terminal_fingerprints s') k = Some fp)"

lemma attempts_evolve_refl [simp]: "attempts_evolve s s"
  by (simp add: attempts_evolve_def)

lemma background_only_refl [simp]: "background_only s s"
  by (simp add: background_only_def)

lemma same_agent_identity:
  "same_background_identity r r' \<Longrightarrow> same_agent r' x = same_agent r x"
  "same_background_identity r r' \<Longrightarrow> same_agent x r' = same_agent x r"
  by (auto simp: same_background_identity_def same_agent_def)

lemma transition_from_terminal:
  "valid_background_transition a b \<Longrightarrow> background_execution_is_terminal a \<Longrightarrow> b = a"
  by (cases a) (simp_all add: valid_background_transition_def)

text \<open>
  The write of one record, with the fingerprint of its first terminal commit when there is one.
\<close>

lemma background_write:
  assumes inv: "background_inv s" and k: "map_of (si_background_subagents s) k = Some r"
    and ev: "attempt_evolves r r'" and ok: "attempt_ok r'"
    and subs: "si_background_subagents s' = bt_insert k r' (si_background_subagents s)"
    and fps: "si_background_terminal_fingerprints s' =
        (if background_execution_is_terminal (bg_execution_status r)
            \<or> \<not> background_execution_is_terminal (bg_execution_status r')
         then si_background_terminal_fingerprints s
         else bt_insert k fp (si_background_terminal_fingerprints s))"
    and arts: "bt_wf (si_background_artifacts s')"
      "\<And>j a. map_of (si_background_artifacts s') j = Some a \<Longrightarrow> ba_artifact_ref a = j"
  shows "background_inv s'" and "attempts_evolve s s'"
proof -
  have id: "same_background_identity r r'" using ev by (simp add: attempt_evolves_def attempt_kept_def)
  have fin: "background_execution_is_terminal (bg_execution_status r')"
    if "background_execution_is_terminal (bg_execution_status r)"
    using ev that by (auto simp: attempt_evolves_def dest: transition_from_terminal)
  note D = background_invD [OF inv]
  have A: "bg_attempt_id r' = k" using D(1) [OF k] id by (simp add: same_background_identity_def)
  have one: "j = j'" if as: "map_of (si_background_subagents s') j = Some x"
      "map_of (si_background_subagents s') j' = Some x'" "same_agent x x'"
      "\<not> background_execution_is_terminal (bg_execution_status x)"
      "\<not> background_execution_is_terminal (bg_execution_status x')" for j j' x x'
  proof -
    obtain y where y: "map_of (si_background_subagents s) j = Some y" "same_agent y x'"
        "\<not> background_execution_is_terminal (bg_execution_status y)"
      using as k fin same_agent_identity [OF id] by (auto simp: subs split: if_splits)
    obtain y' where "map_of (si_background_subagents s) j' = Some y'" "same_agent y y'"
        "\<not> background_execution_is_terminal (bg_execution_status y')"
      using as y k fin same_agent_identity [OF id] by (auto simp: subs split: if_splits)
    with y show ?thesis using background_inv_unique [OF inv] by blast
  qed
  have fp: "map_of (si_background_terminal_fingerprints s') j =
      (if j = k \<and> \<not> background_execution_is_terminal (bg_execution_status r)
            \<and> background_execution_is_terminal (bg_execution_status r') then Some fp
       else map_of (si_background_terminal_fingerprints s) j)" for j
    by (simp add: fps)
  have none: "map_of (si_background_terminal_fingerprints s) k = None"
    if "\<not> background_execution_is_terminal (bg_execution_status r)"
    using D(3) [OF k] that by simp
  have each: "bg_attempt_id x = j \<and> attempt_ok x
      \<and> (background_execution_is_terminal (bg_execution_status x) \<longleftrightarrow>
           map_of (si_background_terminal_fingerprints s') j \<noteq> None)"
    if "map_of (si_background_subagents s') j = Some x" for j x
    using that A ok fin D(3) [OF k] D [of j x] by (auto simp: subs fp split: if_splits)
  have sub: "map_of (si_background_subagents s') j \<noteq> None"
    if "map_of (si_background_terminal_fingerprints s') j \<noteq> None" for j
    using that inv by (auto simp: subs fp background_inv_def split: if_splits)
  have wf: "bt_wf (si_background_subagents s')" "bt_wf (si_background_terminal_fingerprints s')"
    using inv by (simp_all add: background_inv_def subs fps)
  show "background_inv s'"
    unfolding background_inv_def using wf arts each sub one by blast
  show "attempts_evolve s s'"
    using k ev none by (auto simp: attempts_evolve_def subs fp)
qed

lemma background_put:
  assumes "background_inv s" and "map_of (si_background_subagents s) k = Some r"
    and "attempt_evolves r r'" and "attempt_ok r'"
    and "background_execution_is_terminal (bg_execution_status r)
       \<or> \<not> background_execution_is_terminal (bg_execution_status r')"
  shows "background_inv (put_background k r' s)" "attempts_evolve s (put_background k r' s)"
    "background_only s (put_background k r' s)"
  by (rule background_write [OF assms(1-4)]; use assms in \<open>simp add: put_background_def background_inv_def\<close>)+
     (simp add: put_background_def background_only_def beside_background_def)

section \<open>The operations\<close>

text \<open>
  The contract of a background operation: it writes only the background tables, keeps their
  invariant, and every attempt it finds evolves by at most one execution transition, with terminal
  evidence, a completed delivery and the fingerprints left alone.
\<close>

locale background_operation =
  fixes f :: "'a store_op"
  assumes frame: "background_inv s \<Longrightarrow> background_only s (snd (f s))"
    and inv: "background_inv s \<Longrightarrow> background_inv (snd (f s))"
    and evolves: "background_inv s \<Longrightarrow> attempts_evolve s (snd (f s))"
begin

lemma keeps_background_inv: "keeps background_inv f"
  by (rule keepsI) (rule inv)

lemma attempt_after:
  assumes "background_inv s" and "map_of (si_background_subagents s) k = Some r"
  obtains r' where "map_of (si_background_subagents (snd (f s))) k = Some r'" "attempt_evolves r r'"
  using evolves [OF assms(1)] assms(2) unfolding attempts_evolve_def by blast

end

lemma background_operationI:
  assumes "\<And>s. background_inv s \<Longrightarrow> background_only s (snd (f s))"
    and "\<And>s. background_inv s \<Longrightarrow> background_inv (snd (f s)) \<and> attempts_evolve s (snd (f s))"
  shows "background_operation f"
  using assms by unfold_locales blast+

lemma background_only_put [simp]:
  "background_only s (put_background k r s)" "background_only s (store_background r s)"
  "background_only s (put_background k r (put_fingerprint i fp s))"
  by (simp_all add: background_only_def beside_background_def put_background_def store_background_def put_fingerprint_def)

lemma acceptance_ok: "background_is_valid_acceptance r \<Longrightarrow> attempt_ok r"
  by (simp add: background_is_valid_acceptance_def attempt_ok_def)

lemma attempt_activeD:
  "\<not> background_attempt_active r s \<Longrightarrow> map_of (si_background_subagents s) k = Some x \<Longrightarrow>
     same_agent x r \<Longrightarrow> background_execution_is_terminal (bg_execution_status x)"
  by (auto simp: background_attempt_active_def same_agent_def dest: map_of_Some_in_values)

lemma same_agent_sym: "same_agent a b = same_agent b a"
  by (auto simp: same_agent_def)

lemma background_accept:
  assumes inv: "background_inv s" and ok: "background_is_valid_acceptance r"
    and new: "map_of (si_background_subagents s) (bg_attempt_id r) = None"
    and idle: "\<not> background_attempt_active r s"
  shows "background_inv (store_background r s) \<and> attempts_evolve s (store_background r s)"
proof
  have nt: "\<not> background_execution_is_terminal (bg_execution_status r)"
    using ok by (simp add: background_is_valid_acceptance_def)
  have nofp: "map_of (si_background_terminal_fingerprints s) (bg_attempt_id r) = None"
    using inv new by (auto simp: background_inv_def)
  have one: "j = j'" if as: "map_of (si_background_subagents (store_background r s)) j = Some x"
      "map_of (si_background_subagents (store_background r s)) j' = Some x'" "same_agent x x'"
      "\<not> background_execution_is_terminal (bg_execution_status x)"
      "\<not> background_execution_is_terminal (bg_execution_status x')" for j j' x x'
    using as attempt_activeD [OF idle] background_inv_unique [OF inv _ _ as(3-5)] same_agent_sym
    by (auto simp: store_background_def split: if_splits)
  have each: "bg_attempt_id x = j \<and> attempt_ok x
      \<and> (background_execution_is_terminal (bg_execution_status x) \<longleftrightarrow>
           map_of (si_background_terminal_fingerprints s) j \<noteq> None)"
    if "map_of (si_background_subagents (store_background r s)) j = Some x" for j x
    using that acceptance_ok [OF ok] nt nofp background_invD [OF inv, of j x]
    by (auto simp: store_background_def split: if_splits)
  have rest: "bt_wf (si_background_subagents (store_background r s))"
      "bt_wf (si_background_artifacts s)" "bt_wf (si_background_terminal_fingerprints s)"
      "\<forall>k a. map_of (si_background_artifacts s) k = Some a \<longrightarrow> ba_artifact_ref a = k"
      "\<forall>k. map_of (si_background_terminal_fingerprints s) k \<noteq> None \<longrightarrow>
         map_of (si_background_subagents (store_background r s)) k \<noteq> None"
    using inv by (auto simp: background_inv_def store_background_def)
  have same: "si_background_artifacts (store_background r s) = si_background_artifacts s"
    "si_background_terminal_fingerprints (store_background r s) = si_background_terminal_fingerprints s"
    by (simp_all add: store_background_def)
  show "background_inv (store_background r s)"
    unfolding background_inv_def same using rest each one by blast
  show "attempts_evolve s (store_background r s)"
    using new by (auto simp: attempts_evolve_def store_background_def)
qed

interpretation bg_accept: background_operation "record_background_subagent_acceptance now r" for now r
  by (rule background_operationI)
     (auto simp: record_background_subagent_acceptance_def background_accept
       split: option.split result.split)

lemma update_evolves:
  assumes "same_background_identity c r" "same_background_non_execution_state c r"
    "\<not> background_execution_is_terminal (bg_execution_status c)"
    "valid_background_transition (bg_execution_status c) (bg_execution_status r)" "attempt_ok c"
    "\<not> background_execution_is_terminal (bg_execution_status r)"
  shows "attempt_evolves c (r\<lparr>bg_owner_lease := bg_owner_lease c\<rparr>)"
    and "attempt_ok (r\<lparr>bg_owner_lease := bg_owner_lease c\<rparr>)"
  using assms
  by (auto simp: attempt_evolves_def attempt_kept_def attempt_ok_def same_background_identity_def
      same_background_non_execution_state_def artifact_ref_of_def)

interpretation bg_update: background_operation "update_background_subagent_execution now r" for now r
proof (rule background_operationI)
  fix s
  show "background_only s (snd (update_background_subagent_execution now r s))"
    by (auto simp: update_background_subagent_execution_def Let_def split: option.split result.split)
  assume inv: "background_inv s"
  show "background_inv (snd (update_background_subagent_execution now r s))
     \<and> attempts_evolve s (snd (update_background_subagent_execution now r s))"
    using inv by (auto simp: update_background_subagent_execution_def Let_def store_background_def
        put_background_def [symmetric] update_evolves background_invD(2) background_put
        split: option.split result.split)
qed

lemma heartbeat_evolves:
  assumes "attempt_ok r" "now < e"
  defines "r' \<equiv> r\<lparr>bg_owner_lease := (bg_owner_lease r)\<lparr>bol_heartbeat_at := now, bol_lease_expires_at := e\<rparr>\<rparr>"
  shows "attempt_evolves r r'" "attempt_ok r'"
    "bg_execution_status r' = bg_execution_status r"
  using assms
  by (simp_all add: attempt_evolves_def attempt_kept_def attempt_ok_def same_background_identity_def
      background_owner_lease_is_valid_def artifact_ref_of_def valid_background_transition_def
      same_evidence_def same_delivery_def)

interpretation bg_heartbeat: background_operation "heartbeat_background_subagent now k h g e" for now k h g e
proof (rule background_operationI)
  fix s
  show "background_only s (snd (heartbeat_background_subagent now k h g e s))"
    by (auto simp: heartbeat_background_subagent_def Let_def put_background_def [symmetric]
        split: option.split result.split)
  assume inv: "background_inv s"
  show "background_inv (snd (heartbeat_background_subagent now k h g e s))
     \<and> attempts_evolve s (snd (heartbeat_background_subagent now k h g e s))"
    using inv by (auto simp: heartbeat_background_subagent_def Let_def
        put_background_def [symmetric] heartbeat_evolves background_invD(2) background_put
        split: option.split result.split)
qed


lemma persisted_is_stored:
  assumes "background_inv s" and "map_of (si_background_subagents s) k = Some r"
    and "background_execution_is_terminal (bg_execution_status r)"
  shows "persisted_background_terminal_fingerprint benv s r
     = map_of (si_background_terminal_fingerprints s) k"
  using background_invD [OF assms(1,2)] assms(3)
  by (auto simp: persisted_background_terminal_fingerprint_def)

lemma put_fingerprint_same:
  assumes "background_inv s" and "map_of (si_background_terminal_fingerprints s) k = Some fp"
  shows "put_fingerprint k fp s = s"
  using assms by (simp add: put_fingerprint_def background_inv_def bt_insert_same)

lemma commit_artifact_state:
  "commit_artifact benv r artifact now s = (x, s') \<Longrightarrow>
     \<not> is_ok x \<and> s' = s \<or> x = Ok () \<and> s' = s
     \<or> (\<exists>a. x = Ok () \<and> artifact = Some a \<and> s' = s\<lparr>si_background_artifacts :=
           bt_insert (ba_artifact_ref a) a (si_background_artifacts s)\<rparr>)"
  by (cases artifact) (auto simp: commit_artifact_def split: option.splits if_splits)

lemma commit_artifact_cases:
  assumes "commit_artifact benv r artifact now s = (x, s')"
  obtains (refused) "\<not> is_ok x" "s' = s"
    | (present) "x = Ok ()" "s' = s"
    | (added) a where "x = Ok ()" "artifact = Some a"
        "s' = s\<lparr>si_background_artifacts := bt_insert (ba_artifact_ref a) a (si_background_artifacts s)\<rparr>"
  using commit_artifact_state [OF assms]
  by (elim disjE exE conjE) (rule refused, assumption+ | rule present, assumption+ | rule added, assumption+)+

lemma background_inv_artifacts:
  assumes "background_inv s"
  shows "bt_wf (si_background_artifacts s)"
    "map_of (si_background_artifacts s) k = Some a \<Longrightarrow> ba_artifact_ref a = k"
  using assms unfolding background_inv_def by blast+

lemma commit_evolves:
  assumes "background_is_valid_terminal r" "same_background_identity c r"
    "valid_background_terminal_base c r" "\<not> background_execution_is_terminal (bg_execution_status c)"
    "valid_background_transition (bg_execution_status c) (bg_execution_status r)" "attempt_ok c"
  shows "attempt_evolves c (r\<lparr>bg_owner_lease := bg_owner_lease c\<rparr>)"
    and "attempt_ok (r\<lparr>bg_owner_lease := bg_owner_lease c\<rparr>)"
  using assms
  by (auto simp: attempt_evolves_def attempt_kept_def attempt_ok_def same_background_identity_def
      background_is_valid_terminal_def artifact_ref_of_def valid_background_terminal_base_def)

lemma commit_first_state:
  assumes "commit_background_first benv now c r artifact limits s = (x, s')"
  obtains (refused) "\<not> is_ok x" "s' = s"
    | (committed) s2 where "commit_artifact benv r artifact now s = (Ok (), s2)"
        "quota_check benv artifact limits now s = Ok ()"
        "\<not> background_owner_expired_at (bg_owner_lease c) now"
        "same_background_identity c r" "valid_background_terminal_base c r"
        "valid_background_transition (bg_execution_status c) (bg_execution_status r)"
        "x = Ok (r\<lparr>bg_owner_lease := bg_owner_lease c\<rparr>)"
        "s' = store_background (r\<lparr>bg_owner_lease := bg_owner_lease c\<rparr>)
           (put_fingerprint (bg_attempt_id r) (background_terminal_fingerprint benv r artifact) s2)"
proof -
  have art: "\<not> is_ok y \<Longrightarrow> s2 = s" if "commit_artifact benv r artifact now s = (y, s2)" for y s2
    using that by (cases rule: commit_artifact_cases) auto
  show thesis
    using assms refused committed art
    by (auto simp: commit_background_first_def op_bind_def op_lift_def Let_def
        split: if_splits result.splits prod.splits)
qed

lemma commit_first_keeps:
  assumes inv: "background_inv s" and cur: "map_of (si_background_subagents s) (bg_attempt_id r) = Some c"
    and nt: "\<not> background_execution_is_terminal (bg_execution_status c)"
    and ok: "background_is_valid_terminal r"
  shows "background_inv (snd (commit_background_first benv now c r artifact limits s))
     \<and> attempts_evolve s (snd (commit_background_first benv now c r artifact limits s))
     \<and> background_only s (snd (commit_background_first benv now c r artifact limits s))"
proof (cases "commit_background_first benv now c r artifact limits s")
  case (Pair x s')
  then show ?thesis
  proof (cases rule: commit_first_state)
    case refused
    with Pair inv show ?thesis by simp
  next
    case (committed s2)
    let ?r = "r\<lparr>bg_owner_lease := bg_owner_lease c\<rparr>"
    have s2: "\<exists>m. s2 = s\<lparr>si_background_artifacts := m\<rparr> \<and> bt_wf m
        \<and> (\<forall>j a. map_of m j = Some a \<longrightarrow> ba_artifact_ref a = j)"
      using committed(1)
    proof (cases rule: commit_artifact_cases)
      case present
      with inv show ?thesis by (intro exI [of _ "si_background_artifacts s"]) (simp add: background_inv_artifacts)
    next
      case (added a)
      with background_inv_artifacts [OF inv] show ?thesis
        by (intro exI [of _ "bt_insert (ba_artifact_ref a) a (si_background_artifacts s)"]) simp
    qed simp
    then obtain m where m: "s2 = s\<lparr>si_background_artifacts := m\<rparr>" "bt_wf m"
      "\<And>j a. map_of m j = Some a \<Longrightarrow> ba_artifact_ref a = j" by blast
    have fin: "background_execution_is_terminal (bg_execution_status r)"
      using ok by (simp add: background_is_valid_terminal_def)
    note ev = commit_evolves [OF ok committed(4,5) nt committed(6) background_invD(2) [OF inv cur]]
    have subs: "si_background_subagents s' = bt_insert (bg_attempt_id r) ?r (si_background_subagents s)"
      and fps: "si_background_terminal_fingerprints s' =
        (if background_execution_is_terminal (bg_execution_status c)
            \<or> \<not> background_execution_is_terminal (bg_execution_status ?r)
         then si_background_terminal_fingerprints s
         else bt_insert (bg_attempt_id r) (background_terminal_fingerprint benv r artifact)
           (si_background_terminal_fingerprints s))"
      and arts: "si_background_artifacts s' = m"
      by (simp_all add: committed(8) m(1) store_background_def put_fingerprint_def nt fin)
    have "background_inv s'" "attempts_evolve s s'"
      by (rule background_write [OF inv cur ev subs fps]; unfold arts; rule m(2,3); assumption?)+
    moreover have "background_only s s'"
      by (simp add: committed(8) m(1) store_background_def put_fingerprint_def background_only_def beside_background_def)
    ultimately show ?thesis using Pair by simp
  qed
qed

lemma commit_frame: "background_only s (snd (commit_background_terminal benv now r artifact limits s))"
proof -
  have "background_only s (snd (commit_background_first benv now c r artifact limits s))" for c
  proof (cases "commit_background_first benv now c r artifact limits s")
    case (Pair x s')
    then show ?thesis
    proof (cases rule: commit_first_state)
      case (committed s2)
      from committed(1) have "background_only s s'"
        by (cases rule: commit_artifact_cases)
           (simp_all add: committed(8) background_only_def beside_background_def store_background_def put_fingerprint_def)
      with Pair show ?thesis by simp
    qed (use Pair in simp)
  qed
  moreover have "background_only s (put_fingerprint k fp s)" for k fp
    by (simp add: background_only_def beside_background_def put_fingerprint_def)
  ultimately show ?thesis
    by (auto simp: commit_background_terminal_def split: option.split result.split)
qed

interpretation bg_commit: background_operation "commit_background_terminal benv now r artifact limits"
  for benv now r artifact limits
proof (rule background_operationI, rule commit_frame)
  fix s
  assume inv: "background_inv s"
  have "put_fingerprint k fp s = s"
    if "map_of (si_background_subagents s) k = Some c" "background_execution_is_terminal (bg_execution_status c)"
      "persisted_background_terminal_fingerprint benv s c = Some fp" for k c fp
    using that inv by (simp add: persisted_is_stored put_fingerprint_same)
  with inv commit_first_keeps [OF inv] background_invD(1) [OF inv]
  show "background_inv (snd (commit_background_terminal benv now r artifact limits s))
      \<and> attempts_evolve s (snd (commit_background_terminal benv now r artifact limits s))"
    by (auto simp: commit_background_terminal_def split: option.split result.split)
qed


lemma take_claim_evolves:
  assumes "attempt_ok r" "background_delivery_claimable_at r now"
  shows "attempt_evolves r (r\<lparr>bg_delivery_status := Claimed, bg_delivery_claim := Some c, bg_updated_at := now\<rparr>)"
    "attempt_ok (r\<lparr>bg_delivery_status := Claimed, bg_delivery_claim := Some c, bg_updated_at := now\<rparr>)"
  using assms
  by (auto simp: attempt_evolves_def attempt_kept_def attempt_ok_def same_background_identity_def
      background_delivery_claimable_at_def artifact_ref_of_def valid_background_transition_def
      same_evidence_def)

lemma claimed_is_terminal:
  "attempt_ok r \<Longrightarrow> bg_delivery_status r = Claimed \<Longrightarrow>
     background_execution_is_terminal (bg_execution_status r)"
  by (auto simp: attempt_ok_def split: if_splits)

lemma deliver_evolves:
  assumes "attempt_ok r" "bg_delivery_status r = Claimed"
  shows "attempt_evolves r (deliver c run now r)" "attempt_ok (deliver c run now r)"
    "attempt_evolves r (undeliver x now r)" "attempt_ok (undeliver x now r)"
  using assms claimed_is_terminal [OF assms]
  by (auto simp: attempt_evolves_def attempt_kept_def attempt_ok_def same_background_identity_def
      artifact_ref_of_def valid_background_transition_def deliver_def undeliver_def
      same_evidence_def)

lemma background_put_delivery:
  assumes inv: "background_inv s" and k: "map_of (si_background_subagents s) k = Some r"
    and ev: "attempt_evolves r r'" "attempt_ok r'"
    and fin: "background_execution_is_terminal (bg_execution_status r)"
  shows "background_inv (put_background k r' s) \<and> attempts_evolve s (put_background k r' s)"
  using background_put [OF inv k ev] fin by blast

lemma take_claim_keeps:
  assumes inv: "background_inv s" and k: "map_of (si_background_subagents s) k = Some r"
  shows "background_inv (snd (take_delivery_claim now k c r s))
     \<and> attempts_evolve s (snd (take_delivery_claim now k c r s))"
proof (cases "background_delivery_claimable_at r now")
  case True
  with background_put_delivery [OF inv k take_claim_evolves [OF background_invD(2) [OF inv k] True]]
  show ?thesis by (simp add: take_delivery_claim_def Let_def background_delivery_claimable_at_def)
qed (use inv in \<open>simp add: take_delivery_claim_def\<close>)

lemma settle_keeps:
  assumes inv: "background_inv s" and k: "map_of (si_background_subagents s) k = Some r"
    and cl: "bg_delivery_status r = Claimed"
  shows "background_inv (put_background k (deliver c run now r) s)
      \<and> attempts_evolve s (put_background k (deliver c run now r) s)"
    and "background_inv (put_background k (undeliver x now r) s)
      \<and> attempts_evolve s (put_background k (undeliver x now r) s)"
  using background_put_delivery [OF inv k] claimed_is_terminal [OF background_invD(2) [OF inv k] cl]
    deliver_evolves [OF background_invD(2) [OF inv k] cl] by blast+

lemma claim_is_expiredD:
  "claim_is_expired r now = Some c \<Longrightarrow>
     bg_delivery_status r = Claimed \<and> bg_delivery_claim r = Some c \<and> bdc_deadline c \<le> now"
  by (auto simp: claim_is_expired_def split: option.splits if_splits)

interpretation bg_claim: background_operation "claim_background_subagent_delivery now k c" for now k c
proof (rule background_operationI)
  fix s
  assume inv: "background_inv s"
  show "background_only s (snd (claim_background_subagent_delivery now k c s))"
    by (auto simp: claim_background_subagent_delivery_def take_delivery_claim_def Let_def
        split: option.split claim_consumer_state.split)
  show "background_inv (snd (claim_background_subagent_delivery now k c s))
      \<and> attempts_evolve s (snd (claim_background_subagent_delivery now k c s))"
    using inv take_claim_keeps [OF inv] settle_keeps [OF inv]
    by (auto simp: claim_background_subagent_delivery_def dest: claim_is_expiredD
        split: option.split claim_consumer_state.split)
qed

interpretation bg_acknowledge: background_operation "acknowledge_background_subagent_delivery now k c"
  for now k c
proof (rule background_operationI)
  fix s
  assume inv: "background_inv s"
  show "background_only s (snd (acknowledge_background_subagent_delivery now k c s))"
    by (auto simp: acknowledge_background_subagent_delivery_def Let_def split: option.split)
  show "background_inv (snd (acknowledge_background_subagent_delivery now k c s))
      \<and> attempts_evolve s (snd (acknowledge_background_subagent_delivery now k c s))"
    using inv settle_keeps [OF inv]
    by (auto simp: acknowledge_background_subagent_delivery_def holds_claim_def Let_def split: option.split)
qed

interpretation bg_release: background_operation "release_background_subagent_delivery now k c rel"
  for now k c rel
proof (rule background_operationI)
  fix s
  assume inv: "background_inv s"
  show "background_only s (snd (release_background_subagent_delivery now k c rel s))"
    by (auto simp: release_background_subagent_delivery_def Let_def
        split: option.split background_delivery_release.split)
  show "background_inv (snd (release_background_subagent_delivery now k c rel s))
      \<and> attempts_evolve s (snd (release_background_subagent_delivery now k c rel s))"
    using inv settle_keeps [OF inv]
    by (auto simp: release_background_subagent_delivery_def holds_claim_def Let_def
        split: option.split background_delivery_release.split)
qed

text \<open>A loop that visits each attempt at most once.\<close>

locale attempt_loop =
  fixes g :: "string \<Rightarrow> store_inner \<Rightarrow> store_inner" and pre :: "background_subagent_record \<Rightarrow> bool"
  assumes missing: "background_inv s \<Longrightarrow> map_of (si_background_subagents s) i = None \<Longrightarrow> g i s = s"
    and visit: "background_inv s \<Longrightarrow> map_of (si_background_subagents s) i = Some r \<Longrightarrow> pre r \<Longrightarrow>
          background_inv (g i s) \<and> attempts_evolve s (g i s) \<and> background_only s (g i s)"
    and other: "background_inv s \<Longrightarrow> i \<noteq> j \<Longrightarrow>
          map_of (si_background_subagents (g i s)) j = map_of (si_background_subagents s) j"
begin

lemma one:
  assumes "background_inv s"
    and "\<And>r. map_of (si_background_subagents s) i = Some r \<Longrightarrow> pre r"
  shows "background_inv (g i s) \<and> attempts_evolve s (g i s) \<and> background_only s (g i s)"
  using assms missing visit by (cases "map_of (si_background_subagents s) i") auto

lemma loop_other:
  assumes "background_inv s" and "distinct ids" and "j \<notin> set ids"
    and "\<And>i r. i \<in> set ids \<Longrightarrow> map_of (si_background_subagents s) i = Some r \<Longrightarrow> pre r"
  shows "map_of (si_background_subagents (fold g ids s)) j = map_of (si_background_subagents s) j"
  using assms
proof (induction ids arbitrary: s)
  case (Cons i ids)
  have hd: "pre r" if "map_of (si_background_subagents s) i = Some r" for r
    using that Cons.prems(4) [of i r] by simp
  have pre': "pre r" if "k \<in> set ids" "map_of (si_background_subagents (g i s)) k = Some r" for k r
    using that Cons.prems(2,4) other [OF Cons.prems(1), of i k] by (cases "k = i") auto
  have "background_inv (g i s)" using one [OF Cons.prems(1) hd] by simp
  then have "map_of (si_background_subagents (fold g ids (g i s))) j
      = map_of (si_background_subagents (g i s)) j"
    using Cons.prems(2,3) pre' by (intro Cons.IH) auto
  then show ?case using other [OF Cons.prems(1), of i j] Cons.prems(3) by auto
qed simp

lemma loop:
  assumes "background_inv s" and "distinct ids"
    and "\<And>i r. i \<in> set ids \<Longrightarrow> map_of (si_background_subagents s) i = Some r \<Longrightarrow> pre r"
  shows "background_inv (fold g ids s) \<and> attempts_evolve s (fold g ids s) \<and> background_only s (fold g ids s)"
  using assms
proof (induction ids arbitrary: s)
  case (Cons i ids)
  have hd: "pre r" if "map_of (si_background_subagents s) i = Some r" for r
    using that Cons.prems(3) [of i r] by simp
  let ?t = "g i s" and ?u = "fold g ids (g i s)"
  have t: "background_inv ?t" "attempts_evolve s ?t" "background_only s ?t"
    using one [OF Cons.prems(1) hd] by simp_all
  have pre': "pre r" if "k \<in> set ids" "map_of (si_background_subagents ?t) k = Some r" for k r
    using that Cons.prems(2,3) other [OF Cons.prems(1), of i k] by (cases "k = i") auto
  have u: "background_inv ?u" "attempts_evolve ?t ?u" "background_only ?t ?u"
    using Cons.IH [OF t(1)] Cons.prems(2) pre' by auto
  have i: "map_of (si_background_subagents ?u) i = map_of (si_background_subagents ?t) i"
    using t(1) Cons.prems(2) pre' by (intro loop_other) auto
  have "\<exists>r'. map_of (si_background_subagents ?u) k = Some r' \<and> attempt_evolves r r'"
    if "map_of (si_background_subagents s) k = Some r" for k r
  proof (cases "k = i")
    case True
    with that t(2) i show ?thesis by (auto simp: attempts_evolve_def)
  next
    case False
    then have "map_of (si_background_subagents ?t) k = Some r"
      using that other [OF Cons.prems(1), of i k] by auto
    with u(2) show ?thesis by (auto simp: attempts_evolve_def)
  qed
  then have "attempts_evolve s ?u" using t(2) u(2) unfolding attempts_evolve_def by blast
  moreover have "background_only s ?u" using t(3) u(3) by (simp add: background_only_def)
  ultimately show ?case using u(1) by simp
qed simp

text \<open>Each visited attempt is written once, in a state that agrees with the first one on it.\<close>

lemma loop_at:
  assumes "background_inv s" and "distinct ids" and "i \<in> set ids"
    and "\<And>i r. i \<in> set ids \<Longrightarrow> map_of (si_background_subagents s) i = Some r \<Longrightarrow> pre r"
  obtains t where "background_only s t" "map_of (si_background_subagents t) i = map_of (si_background_subagents s) i"
    "map_of (si_background_subagents (fold g ids s)) i = map_of (si_background_subagents (g i t)) i"
proof -
  from assms(3) obtain xs ys where ids: "ids = xs @ i # ys" by (meson split_list)
  let ?t = "fold g xs s"
  have xs: "background_inv ?t" "background_only s ?t"
    using loop [OF assms(1), of xs] assms(2,4) ids by auto
  have same: "map_of (si_background_subagents ?t) j = map_of (si_background_subagents s) j"
    if "j \<in> set (i # ys)" for j
    using assms(1,2,4) that ids by (intro loop_other) auto
  have pre': "pre r" if "j \<in> set (i # ys)" "map_of (si_background_subagents ?t) j = Some r" for j r
    using that same assms(4) [of j r] ids by auto
  have gt: "background_inv (g i ?t)" using one [OF xs(1)] pre' [of i] by simp
  have pre'': "pre r" if "j \<in> set ys" "map_of (si_background_subagents (g i ?t)) j = Some r" for j r
    using that other [OF xs(1), of i j] pre' [of j r] assms(2) ids by (cases "j = i") auto
  have "map_of (si_background_subagents (fold g ys (g i ?t))) i = map_of (si_background_subagents (g i ?t)) i"
    using gt assms(2) ids pre'' by (intro loop_other) auto
  with xs(2) same [of i] ids that [of ?t] show thesis by simp
qed

end


subsection \<open>Expiry of retention\<close>

text \<open>Under the invariant every terminal attempt has its fingerprint, and there is none to rebuild.\<close>

lemma keep_fingerprint_id:
  assumes inv: "background_inv s"
  shows "keep_fingerprint benv k s = s"
proof -
  have "reconstruct_background_terminal_fingerprint benv s r = None"
    if "map_of (si_background_subagents s) k = Some r"
      "map_of (si_background_terminal_fingerprints s) k = None" for r
    using background_invD(3) [OF inv that(1)] that(2)
    by (simp add: reconstruct_background_terminal_fingerprint_def)
  then show ?thesis
    by (auto simp: keep_fingerprint_def bt_contains_iff split: option.split)
qed

definition expire_one :: "background_env \<Rightarrow> string \<Rightarrow> store_inner \<Rightarrow> store_inner" where
  "expire_one benv k s =
     (let s1 = keep_fingerprint benv k s in
      case map_of (si_background_subagents s1) k of
        None \<Rightarrow> s1 | Some r \<Rightarrow> put_background k (expire_record r) s1)"

lemma expire_attempts_state: "snd (expire_attempts benv ids e a s) = fold (expire_one benv) ids s"
  by (induction ids arbitrary: e a s)
     (simp_all add: expire_one_def put_background_def Let_def split: option.split)

lemma expire_evolves:
  assumes "attempt_ok r" "background_execution_is_terminal (bg_execution_status r)"
  shows "attempt_evolves r (expire_record r)" "attempt_ok (expire_record r)"
proof -
  have "(\<lambda>x. x\<lparr>brr_artifact_ref := None, brr_content := None, brr_error := None\<rparr>) = result_expired"
    by (simp add: result_expired_def fun_eq_iff)
  with assms show "attempt_evolves r (expire_record r)"
    by (simp add: attempt_evolves_def attempt_kept_def same_background_identity_def expire_record_def
        valid_background_transition_def same_evidence_def same_delivery_def)
  from assms show "attempt_ok (expire_record r)"
    by (auto simp: attempt_ok_def expire_record_def artifact_ref_of_def split: option.split)
qed

interpretation expiry: attempt_loop "expire_one benv"
  "\<lambda>r. background_execution_is_terminal (bg_execution_status r)" for benv
proof unfold_locales
  fix s i
  assume inv: "background_inv s"
  note id = keep_fingerprint_id [OF inv]
  show "expire_one benv i s = s" if "map_of (si_background_subagents s) i = None"
    using that by (simp add: expire_one_def id)
  show "map_of (si_background_subagents (expire_one benv i s)) j = map_of (si_background_subagents s) j"
    if "i \<noteq> j" for j
    using that by (simp add: expire_one_def id put_background_def split: option.split)
  show "background_inv (expire_one benv i s) \<and> attempts_evolve s (expire_one benv i s)
      \<and> background_only s (expire_one benv i s)"
    if k: "map_of (si_background_subagents s) i = Some r"
      and fin: "background_execution_is_terminal (bg_execution_status r)" for r
    using background_put [OF inv k expire_evolves [OF background_invD(2) [OF inv k] fin]] fin k
    by (simp add: expire_one_def id)
qed

lemma background_values:
  assumes "background_inv s" and "r \<in> set (bt_values (si_background_subagents s))"
  shows "map_of (si_background_subagents s) (bg_attempt_id r) = Some r"
proof -
  have wf: "bt_wf (si_background_subagents s)" using assms(1) by (simp add: background_inv_def)
  from assms(2) obtain k where "(k, r) \<in> set (si_background_subagents s)" by (auto simp: bt_values_def)
  then have "map_of (si_background_subagents s) k = Some r" using bt_wf_map_of_iff [OF wf] by blast
  with background_invD(1) [OF assms(1)] show ?thesis by blast
qed

lemma background_ids:
  assumes "background_inv s"
  shows "map bg_attempt_id (bt_values (si_background_subagents s)) = map fst (si_background_subagents s)"
proof -
  have wf: "bt_wf (si_background_subagents s)" using assms by (simp add: background_inv_def)
  show ?thesis
    using background_invD(1) [OF assms] bt_wf_map_of_iff [OF wf] by (auto simp: bt_values_def)
qed

lemma background_ids_distinct:
  assumes "background_inv s"
  shows "distinct (map bg_attempt_id (filter P (bt_values (si_background_subagents s))))"
proof (rule distinct_map_filter)
  show "distinct (map bg_attempt_id (bt_values (si_background_subagents s)))"
    unfolding background_ids [OF assms] using assms by (intro bt_wf_distinct) (simp add: background_inv_def)
qed

definition due_ids :: "string \<Rightarrow> datetime \<Rightarrow> store_inner \<Rightarrow> string list" where
  "due_ids ns now s =
     map snd (sort (map (\<lambda>r. (bg_retention_expires_at r, bg_attempt_id r))
       (filter (retention_due ns now) (bt_values (si_background_subagents s)))))"

lemma due_ids_permutes:
  "mset (due_ids ns now s) = image_mset bg_attempt_id
     (mset (filter (retention_due ns now) (bt_values (si_background_subagents s))))"
  by (simp add: due_ids_def comp_def image_mset.compositionality mset_map)

lemma due_ids_distinct: "background_inv s \<Longrightarrow> distinct (due_ids ns now s)"
  using background_ids_distinct [of s "retention_due ns now"] due_ids_permutes [of ns now s]
  by (metis mset_eq_imp_distinct_iff mset_map)

lemma due_ids_due:
  assumes "background_inv s" and "i \<in> set (due_ids ns now s)"
    and "map_of (si_background_subagents s) i = Some r"
  shows "retention_due ns now r"
proof -
  from assms(2) obtain x where "x \<in> set (bt_values (si_background_subagents s))"
      "retention_due ns now x" "i = bg_attempt_id x" by (auto simp: due_ids_def)
  with background_values [OF assms(1), of x] assms(3) show ?thesis by simp
qed

lemma fold_remove_wf:
  "bt_wf m \<Longrightarrow> bt_wf (foldl (\<lambda>m a. bt_remove a m) m refs)"
  "map_of (foldl (\<lambda>m a. bt_remove a m) m refs) j = (if j \<in> set refs then None else map_of m j)"
  by (induction refs arbitrary: m) auto

lemma background_inv_drop_artifacts:
  assumes "background_inv s"
  shows "background_inv (s\<lparr>si_background_artifacts := foldl (\<lambda>m a. bt_remove a m) (si_background_artifacts s) refs\<rparr>)"
    (is "background_inv ?s")
proof -
  have "map_of (si_background_artifacts ?s) k = Some a \<Longrightarrow> ba_artifact_ref a = k" for k a
    using background_inv_artifacts(2) [OF assms] by (auto simp: fold_remove_wf(2) split: if_splits)
  moreover have "bt_wf (si_background_artifacts ?s)"
    using background_inv_artifacts(1) [OF assms] by (simp add: fold_remove_wf(1))
  ultimately show ?thesis using assms unfolding background_inv_def by simp
qed

lemma expire_state:
  "\<exists>refs. snd (expire_background_subagent_retention benv ns now limit s) =
     (fold (expire_one benv) (take (unat limit) (due_ids ns now s)) s)
       \<lparr>si_background_artifacts := foldl (\<lambda>m a. bt_remove a m)
          (si_background_artifacts (fold (expire_one benv) (take (unat limit) (due_ids ns now s)) s)) refs\<rparr>"
proof -
  let ?x = "expire_attempts benv (take (unat limit) (due_ids ns now s)) [] [] s"
  have "snd (expire_background_subagent_retention benv ns now limit s) =
      (snd ?x)\<lparr>si_background_artifacts :=
        foldl (\<lambda>m a. bt_remove a m) (si_background_artifacts (snd ?x)) (snd (fst ?x))\<rparr>"
    by (simp add: expire_background_subagent_retention_def due_ids_def take_map Let_def split: prod.split)
  then show ?thesis unfolding expire_attempts_state by blast
qed

lemma expire_loop:
  assumes "background_inv s"
    and t: "t = fold (expire_one benv) (take n (due_ids ns now s)) s"
  shows "background_inv t" "attempts_evolve s t" "background_only s t"
proof -
  have "background_execution_is_terminal (bg_execution_status r)"
    if "i \<in> set (take n (due_ids ns now s))" "map_of (si_background_subagents s) i = Some r" for i r
    using due_ids_due [OF assms(1) in_set_takeD [OF that(1)] that(2)] by (simp add: retention_due_def)
  then show "background_inv t" "attempts_evolve s t" "background_only s t"
    using expiry.loop [OF assms(1), of "take n (due_ids ns now s)" benv] due_ids_distinct [OF assms(1)]
    unfolding t by (simp_all add: distinct_take)
qed

interpretation bg_expire: background_operation "expire_background_subagent_retention benv ns now limit"
  for benv ns now limit
proof (rule background_operationI)
  fix s
  assume inv: "background_inv s"
  let ?t = "fold (expire_one benv) (take (unat limit) (due_ids ns now s)) s"
  obtain refs where eq: "snd (expire_background_subagent_retention benv ns now limit s) =
      ?t\<lparr>si_background_artifacts := foldl (\<lambda>m a. bt_remove a m) (si_background_artifacts ?t) refs\<rparr>"
    using expire_state by blast
  note t = expire_loop [OF inv refl, of benv "unat limit" ns now]
  show "background_only s (snd (expire_background_subagent_retention benv ns now limit s))"
    using t(3) unfolding eq by (simp add: background_only_def beside_background_def)
  show "background_inv (snd (expire_background_subagent_retention benv ns now limit s))
      \<and> attempts_evolve s (snd (expire_background_subagent_retention benv ns now limit s))"
    using background_inv_drop_artifacts [OF t(1)] t(2) unfolding eq by (simp add: attempts_evolve_def)
qed

subsection \<open>Reconciliation\<close>

lemma host_lost_evolves:
  assumes "attempt_ok r" "\<not> background_execution_is_terminal (bg_execution_status r)"
  shows "attempt_evolves r (host_lost now r)" "attempt_ok (host_lost now r)"
  using assms
  by (cases "bg_execution_status r"; auto simp: attempt_evolves_def attempt_kept_def attempt_ok_def
      same_background_identity_def host_lost_def valid_background_transition_def artifact_ref_of_def)+

lemma settle_expired_cases:
  assumes "settle_expired_claim s now r c = Some r'"
    and "\<And>i run. P (deliver i run now r)" and "\<And>x. P (undeliver x now r)"
  shows "P r'"
  using assms by (auto simp: settle_expired_claim_def split: option.splits if_splits)

lemma reconcile_one_keeps:
  assumes inv: "background_inv s" and k: "map_of (si_background_subagents s) k = Some r"
    and t_def: "t = snd (reconcile_background_one benv now k s)"
  shows "background_inv t \<and> attempts_evolve s t \<and> background_only s t"
proof -
  note ok = background_invD(2) [OF inv k]
  show ?thesis
  proof (cases "\<not> background_execution_is_terminal (bg_execution_status r)
      \<and> background_owner_expired_at (bg_owner_lease r) now")
    case True
    then have lost: "\<not> background_execution_is_terminal (bg_execution_status r)"
      "background_owner_expired_at (bg_owner_lease r) now" by simp_all
    let ?r = "host_lost now r"
    have t: "t = put_background k ?r (put_fingerprint k (background_terminal_fingerprint benv ?r None) s)"
      using lost k by (simp add: t_def reconcile_background_one_def)
    have fin: "background_execution_is_terminal (bg_execution_status ?r)" by (simp add: host_lost_def)
    have subs: "si_background_subagents t = bt_insert k ?r (si_background_subagents s)"
      and fps: "si_background_terminal_fingerprints t =
        (if background_execution_is_terminal (bg_execution_status r)
            \<or> \<not> background_execution_is_terminal (bg_execution_status ?r)
         then si_background_terminal_fingerprints s
         else bt_insert k (background_terminal_fingerprint benv ?r None)
           (si_background_terminal_fingerprints s))"
      and arts: "si_background_artifacts t = si_background_artifacts s"
      using lost fin by (simp_all add: t put_background_def put_fingerprint_def)
    have "background_inv t" "attempts_evolve s t"
      by (rule background_write [OF inv k host_lost_evolves [OF ok lost(1)] subs fps];
          unfold arts; rule background_inv_artifacts [OF inv]; assumption?)+
    moreover have "background_only s t" by (simp add: t)
    ultimately show ?thesis by blast
  next
    case False
    note F = this
    show ?thesis
    proof (cases "claim_is_expired r now")
      case None
      with F k inv show ?thesis by (auto simp: t_def reconcile_background_one_def)
    next
      case (Some c)
      have cl: "bg_delivery_status r = Claimed" using claim_is_expiredD [OF Some] by blast
      show ?thesis
      proof (cases "settle_expired_claim s now r c")
        case None
        with F k inv Some show ?thesis by (auto simp: t_def reconcile_background_one_def)
      next
        case (Some r')
        then have "background_inv (put_background k r' s) \<and> attempts_evolve s (put_background k r' s)"
          using settle_keeps [OF inv k cl] by (rule settle_expired_cases)
        moreover have "t = put_background k r' s"
          using F k Some \<open>claim_is_expired r now = Some c\<close>
          by (auto simp: t_def reconcile_background_one_def)
        ultimately show ?thesis by simp
      qed
    qed
  qed
qed

lemma reconcile_ids_state:
  "snd (reconcile_background_ids benv now ids c s)
     = fold (\<lambda>i s. snd (reconcile_background_one benv now i s)) ids s"
  by (induction ids arbitrary: c s) (simp_all add: split_beta Let_def)

interpretation recovery: attempt_loop "\<lambda>i s. snd (reconcile_background_one benv now i s)" "\<lambda>_. True"
  for benv now
proof unfold_locales
  fix s i
  assume inv: "background_inv s"
  show "snd (reconcile_background_one benv now i s) = s" if "map_of (si_background_subagents s) i = None"
    using that by (simp add: reconcile_background_one_def)
  show "map_of (si_background_subagents (snd (reconcile_background_one benv now i s))) j
      = map_of (si_background_subagents s) j" if "i \<noteq> j" for j
    using that by (simp add: reconcile_background_one_def put_background_def put_fingerprint_def
        split: option.split)
qed (rule reconcile_one_keeps [OF _ _ refl])

interpretation bg_reconcile: background_operation "reconcile_background_subagents benv ns now"
  for benv ns now
proof (rule background_operationI)
  fix s
  assume inv: "background_inv s"
  note L = recovery.loop [OF inv background_ids_distinct [OF inv], of "\<lambda>r. bg_namespace_id r = ns" benv now]
  show "background_only s (snd (reconcile_background_subagents benv ns now s))"
    using L by (simp add: reconcile_background_subagents_def reconcile_ids_state)
  show "background_inv (snd (reconcile_background_subagents benv ns now s))
      \<and> attempts_evolve s (snd (reconcile_background_subagents benv ns now s))"
    using L by (simp add: reconcile_background_subagents_def reconcile_ids_state)
qed


subsection \<open>Continuations\<close>

definition background_tables :: "store_inner \<Rightarrow> (string, background_subagent_record) btmap
    \<times> (string, background_artifact) btmap \<times> (string, string) btmap" where
  "background_tables s = (si_background_subagents s, si_background_artifacts s,
     si_background_terminal_fingerprints s)"

lemma background_tables_only:
  "records_only s s' \<Longrightarrow> background_tables s' = background_tables s"
  "outbox_only s s' \<Longrightarrow> background_tables s' = background_tables s"
  "control_only s s' \<Longrightarrow> background_tables s' = background_tables s"
  by (simp_all add: background_tables_def records_onlyD outbox_onlyD control_onlyD)

lemma background_inv_tables: "background_tables s' = background_tables s \<Longrightarrow> background_inv s' = background_inv s"
  by (simp add: background_tables_def background_inv_def)

interpretation background_cleanup: lease_cleanup "\<lambda>s. background_tables s = B" for B
proof unfold_locales
  show "keeps (\<lambda>s. background_tables s = B) (terminalize_started_hitl_source_locked r t)" for r t
    by (simp add: keeps_def background_tables_only(1) [OF terminalize_records_only])
  show "keeps (\<lambda>s. background_tables s = B) (cancel_admitted_run lease t eff)" for lease t eff
    by (simp add: keeps_def background_tables_only(1) [OF cancel_admitted_records_only])
  show "keeps (\<lambda>s. background_tables s = B) (publish_authoritative env i runs)" for env i runs
    by (simp add: keeps_def background_tables_only(2) [OF publish_outbox_only])
  show "keeps (\<lambda>s. background_tables s = B) (reconcile_run_control_intents_locked lease t)" for lease t
    by (simp add: keeps_def background_tables_only(3) [OF reconcile_control_only])
  show "keeps (\<lambda>s. background_tables s = B) (apply_run_status_locked sid rid st pv er t)"
    for sid rid st pv er t
    by (simp add: keeps_def background_tables_only(1) [OF apply_run_status_records_only])
qed (simp_all add: background_tables_def)

lemma acquire_background_tables:
  assumes "acquire_run_admission_locked now req s = (Ok x, s')"
  shows "background_tables s' = background_tables s"
  using assms
proof (cases rule: acquire_locked_Ok_cases)
  case (fresh s1 key run s2)
  have "background_tables s1 = background_tables s"
    using background_cleanup.keeps_displace [OF refl fresh(2)] by simp
  moreover obtain c where "s2 = s1\<lparr>si_hitl_resume_claims := c\<rparr>"
    using admit_claim_eq [OF fresh(6)] by blast
  ultimately have "background_tables s2 = background_tables s" by (simp add: background_tables_def)
  with fresh(7) show ?thesis
    by (auto simp: commit_admission_def Let_def background_tables_def insert_prepared_run_record_def
        split: option.splits)
qed simp

text \<open>
  A successful acquisition either replays the receipt of a delivered result, or admits the run
  and marks the result delivered in one write.
\<close>

definition continuation_delivered ::
    "datetime \<Rightarrow> acquire_continuation_req \<Rightarrow> run_id \<Rightarrow> background_subagent_record \<Rightarrow> background_subagent_record" where
  "continuation_delivered t_write request run_id r =
     r\<lparr>bg_delivery_status := Delivered, bg_delivery_claim := None,
       bg_delivered_claim_id := Some (acr_claim_id request),
       bg_continuation_run_id := Some run_id, bg_updated_at := t_write\<rparr>"

lemma acquire_continuation_cases:
  assumes "acquire_background_subagent_continuation benv now t_adm t_write request s = (x, s')"
  obtains (failed) "\<not> is_ok x" "s' = s"
  | (replayed) r c where "map_of (si_background_subagents s) (acr_attempt_id request) = Some r"
      "bg_delivery_status r \<in> {Delivered, Claimed}" "replay_continuation benv request r s = Ok c"
      "x = Ok c" "s' = s"
  | (admitted) r adm s1 where "map_of (si_background_subagents s) (acr_attempt_id request) = Some r"
      "bg_delivery_status r = Undelivered"
      "continuation_admissible benv now request r s = Ok ()"
      "acquire_run_admission_locked t_adm (acr_admission request) s = (Ok adm, s1)"
      "continuation_receipt_matches_request benv r request adm"
      "x = Ok \<lparr>ctr_cause = continuation_cause_new benv
                  (continuation_delivered t_write request (rr_run_id (rar_run adm)) r)
                  (rr_input (rar_run adm)),
               ctr_background = continuation_delivered t_write request (rr_run_id (rar_run adm)) r,
               ctr_admission = adm\<rparr>"
      "s' = store_background (continuation_delivered t_write request (rr_run_id (rar_run adm)) r) s1"
proof (cases "map_of (si_background_subagents s) (acr_attempt_id request)")
  case None
  with assms failed show ?thesis by (auto simp: acquire_background_subagent_continuation_def)
next
  case (Some r)
  let ?bad = "acr_attempt_id request \<noteq> cc_attempt_id (acr_cause request)
     \<or> bg_automatic_continuation_suppressed_by_run_id r \<noteq> None
     \<or> \<not> validates_continuation_cause_envelope benv r (acr_cause request) (acq_run (acr_admission request))"
  show ?thesis
  proof (cases ?bad)
    case True
    with Some assms failed show ?thesis by (auto simp: acquire_background_subagent_continuation_def)
  next
    case good: False
    show ?thesis
    proof (cases "bg_delivery_status r \<in> {Delivered, Claimed}")
      case True
      then have eq: "x = replay_continuation benv request r s" "s' = s"
        using good Some assms by (auto simp: acquire_background_subagent_continuation_def)
      show ?thesis
      proof (cases x)
        case (Ok c)
        with eq Some True replayed show ?thesis by metis
      qed (use eq failed in simp_all)
    next
      case undel: False
      then have del: "bg_delivery_status r = Undelivered" by (cases "bg_delivery_status r") auto
      have eq: "(x, s') = (case continuation_admissible benv now request r s of
               Err e \<Rightarrow> (Err e, s) | Panic \<Rightarrow> (Panic, s)
             | Ok _ \<Rightarrow> staged (admit_continuation benv t_adm t_write request r) s)"
        using good undel Some assms by (auto simp: acquire_background_subagent_continuation_def)
      show ?thesis
      proof (cases "is_ok x")
        case False
        then show ?thesis using eq failed staged_not_Ok [of "admit_continuation benv t_adm t_write request r" s x s']
          by (auto split: result.splits)
      next
        case True
        then obtain c where x: "x = Ok c" by blast
        then have ok: "continuation_admissible benv now request r s = Ok ()"
          and st: "admit_continuation benv t_adm t_write request r s = (Ok c, s')"
          using eq [symmetric] by (auto simp: staged_Ok split: result.splits)
        from st obtain adm s1 where
          "acquire_run_admission_locked t_adm (acr_admission request) s = (Ok adm, s1)"
          "continuation_receipt_matches_request benv r request adm"
          "c = \<lparr>ctr_cause = continuation_cause_new benv
                  (continuation_delivered t_write request (rr_run_id (rar_run adm)) r)
                  (rr_input (rar_run adm)),
               ctr_background = continuation_delivered t_write request (rr_run_id (rar_run adm)) r,
               ctr_admission = adm\<rparr>"
          "s' = store_background (continuation_delivered t_write request (rr_run_id (rar_run adm)) r) s1"
          by (auto simp: admit_continuation_def op_bind_Ok Let_def continuation_delivered_def split: if_splits)
        with Some del ok x admitted show ?thesis by metis
      qed
    qed
  qed
qed

lemma admissible_terminal:
  "continuation_admissible benv now request r s = Ok () \<Longrightarrow>
     background_execution_is_terminal (bg_execution_status r)"
  by (auto simp: continuation_admissible_def background_delivery_claimable_at_def
      split: result.splits if_splits)

lemma continuation_evolves:
  assumes "attempt_ok r" "background_execution_is_terminal (bg_execution_status r)"
    "bg_delivery_status r = Undelivered"
  shows "attempt_evolves r (continuation_delivered t req run r)"
    "attempt_ok (continuation_delivered t req run r)"
  using assms
  by (auto simp: attempt_evolves_def attempt_kept_def attempt_ok_def same_background_identity_def
      artifact_ref_of_def valid_background_transition_def continuation_delivered_def same_evidence_def)

lemma acquire_continuation_keeps:
  assumes inv: "background_inv s"
    and run: "acquire_background_subagent_continuation benv now t_adm t_write request s = (x, s')"
  shows "background_inv s' \<and> attempts_evolve s s'"
  using run
proof (cases rule: acquire_continuation_cases)
  case (admitted r adm s1)
  have tabs: "background_tables s1 = background_tables s"
    by (rule acquire_background_tables [OF admitted(4)])
  have inv1: "background_inv s1" using inv unfolding background_inv_tables [OF tabs] .
  have k: "map_of (si_background_subagents s1) (acr_attempt_id request) = Some r"
    using admitted(1) tabs by (simp add: background_tables_def)
  let ?r = "continuation_delivered t_write request (rr_run_id (rar_run adm)) r"
  note ev = continuation_evolves [OF background_invD(2) [OF inv1 k] admissible_terminal [OF admitted(3)] admitted(2)]
  have "s' = put_background (acr_attempt_id request) ?r s1"
    using admitted(7) background_invD(1) [OF inv1 k]
    by (simp add: store_background_def put_background_def continuation_delivered_def)
  moreover have "background_inv (put_background (acr_attempt_id request) ?r s1)
      \<and> attempts_evolve s1 (put_background (acr_attempt_id request) ?r s1)"
    by (rule background_put_delivery [OF inv1 k ev]) (rule admissible_terminal [OF admitted(3)])
  moreover have "attempts_evolve s s' = attempts_evolve s1 s'"
    using tabs by (simp add: attempts_evolve_def background_tables_def)
  ultimately show ?thesis by simp
qed (use inv in simp_all)


section \<open>Exactly-once terminal commits\<close>

definition commit_shape_ok ::
    "background_subagent_record \<Rightarrow> background_artifact option \<Rightarrow> artifact_limits option \<Rightarrow> bool" where
  "commit_shape_ok r artifact limits \<longleftrightarrow>
     background_is_valid_terminal r \<and> (artifact \<noteq> None) = (limits \<noteq> None)
     \<and> (\<forall>l. limits = Some l \<longrightarrow> artifact_limits_is_valid l)"

lemma commit_unfold:
  assumes "commit_shape_ok r artifact limits"
  shows "commit_background_terminal benv now r artifact limits s =
     (case map_of (si_background_subagents s) (bg_attempt_id r) of
          None \<Rightarrow> (Err (NotFound (bg_attempt_id r)), s)
        | Some current \<Rightarrow>
            (case ensure_background_parent_writable s current of
               Err e \<Rightarrow> (Err e, s)
             | Panic \<Rightarrow> (Panic, s)
             | Ok _ \<Rightarrow>
                 if background_execution_is_terminal (bg_execution_status current)
                 then
                   (if persisted_background_terminal_fingerprint benv s current
                         = Some (background_terminal_fingerprint benv r artifact)
                    then (Ok current,
                          put_fingerprint (bg_attempt_id current)
                            (background_terminal_fingerprint benv r artifact) s)
                    else (Err (Conflict (msg_bg_immutable (bg_attempt_id r))), s))
                 else commit_background_first benv now current r artifact limits s))"
  using assms by (auto simp: commit_background_terminal_def commit_shape_ok_def split: option.split)

lemma commit_shape: "commit_background_terminal benv now r artifact limits s = (Ok x, s') \<Longrightarrow> commit_shape_ok r artifact limits"
  by (auto simp: commit_background_terminal_def commit_shape_ok_def split: if_splits option.splits)

lemma commit_committed:
  assumes inv: "background_inv s"
    and ok: "commit_background_terminal benv now r artifact limits s = (Ok x, s')"
  shows "map_of (si_background_subagents s') (bg_attempt_id r) = Some x"
    and "map_of (si_background_terminal_fingerprints s') (bg_attempt_id r)
       = Some (background_terminal_fingerprint benv r artifact)"
    and "background_execution_is_terminal (bg_execution_status x)"
proof -
  note shape = commit_shape [OF ok]
  from ok obtain c where c: "map_of (si_background_subagents s) (bg_attempt_id r) = Some c"
    by (auto simp: commit_unfold [OF shape] split: option.splits)
  have id: "bg_attempt_id c = bg_attempt_id r" by (rule background_invD(1) [OF inv c])
  have "map_of (si_background_subagents s') (bg_attempt_id r) = Some x
      \<and> map_of (si_background_terminal_fingerprints s') (bg_attempt_id r)
         = Some (background_terminal_fingerprint benv r artifact)
      \<and> background_execution_is_terminal (bg_execution_status x)"
  proof (cases "background_execution_is_terminal (bg_execution_status c)")
    case True
    with ok c id show ?thesis
      by (auto simp: commit_unfold [OF shape] put_fingerprint_def split: result.splits if_splits)
  next
    case False
    with ok c have "commit_background_first benv now c r artifact limits s = (Ok x, s')"
      by (auto simp: commit_unfold [OF shape] split: result.splits)
    then show ?thesis
    proof (cases rule: commit_first_state)
      case (committed s2)
      with shape show ?thesis
        by (simp add: store_background_def put_fingerprint_def commit_shape_ok_def
            background_is_valid_terminal_def)
    qed simp
  qed
  then show "map_of (si_background_subagents s') (bg_attempt_id r) = Some x"
    "map_of (si_background_terminal_fingerprints s') (bg_attempt_id r)
       = Some (background_terminal_fingerprint benv r artifact)"
    "background_execution_is_terminal (bg_execution_status x)" by simp_all
qed

lemma commit_retry:
  assumes inv: "background_inv s" and shape: "commit_shape_ok r artifact limits"
    and k: "map_of (si_background_subagents s) (bg_attempt_id r) = Some c"
    and fp: "map_of (si_background_terminal_fingerprints s) (bg_attempt_id r)
       = Some (background_terminal_fingerprint benv r artifact)"
    and w: "ensure_background_parent_writable s c = Ok ()"
  shows "commit_background_terminal benv now r artifact limits s = (Ok c, s)"
proof -
  have "background_execution_is_terminal (bg_execution_status c)"
    using background_invD(3) [OF inv k] fp by simp
  then show ?thesis
    using persisted_is_stored [OF inv k] put_fingerprint_same [OF inv fp] background_invD(1) [OF inv k]
    by (simp add: commit_unfold [OF shape] k w fp)
qed

lemma commit_other_refused:
  assumes inv: "background_inv s"
    and k: "map_of (si_background_subagents s) (bg_attempt_id r) = Some c"
    and fp: "map_of (si_background_terminal_fingerprints s) (bg_attempt_id r) = Some fp"
    and other: "background_terminal_fingerprint benv r artifact \<noteq> fp"
  shows "refused (commit_background_terminal benv now r artifact limits) s"
proof -
  have "background_execution_is_terminal (bg_execution_status c)"
    using background_invD(3) [OF inv k] fp by simp
  then show ?thesis
    using persisted_is_stored [OF inv k, of benv] fp other
    by (auto simp: refused_def commit_background_terminal_def k split: result.split option.split)
qed

section \<open>Artifact quota\<close>

definition retained_in :: "string \<Rightarrow> datetime \<Rightarrow> store_inner \<Rightarrow> nat" where
  "retained_in ns now s =
     sum_list (map (\<lambda>a. unat (ba_size_bytes a))
       (filter (\<lambda>a. ba_namespace_id a = ns \<and> ba_expires_at a > now) (bt_values (si_background_artifacts s))))"


lemma retained_after_artifact:
  assumes inv: "background_inv s" and a: "map_of (si_background_artifacts s) (ba_artifact_ref a) \<in> {None, Some a}"
    and live: "ba_expires_at a > now"
  shows "retained_in (ba_namespace_id a) now
       (s\<lparr>si_background_artifacts := bt_insert (ba_artifact_ref a) a (si_background_artifacts s)\<rparr>)
     = unat (ba_size_bytes a) + sum_list (map (\<lambda>c. unat (ba_size_bytes c))
         (filter (\<lambda>c. ba_namespace_id c = ba_namespace_id a \<and> ba_artifact_ref c \<noteq> ba_artifact_ref a
             \<and> ba_expires_at c > now) (bt_values (si_background_artifacts s))))"
proof -
  let ?m = "si_background_artifacts s"
  have wf: "bt_wf ?m" by (rule background_inv_artifacts(1) [OF inv])
  have key: "ba_artifact_ref (snd e) = fst e" if "e \<in> set ?m" for e
    using that bt_wf_map_of_iff [OF wf, of "fst e" "snd e"] background_inv_artifacts(2) [OF inv] by simp
  have "filter (\<lambda>c. ba_namespace_id c = ba_namespace_id a \<and> ba_expires_at c > now)
        (bt_values (bt_remove (ba_artifact_ref a) ?m))
      = filter (\<lambda>c. ba_namespace_id c = ba_namespace_id a \<and> ba_artifact_ref c \<noteq> ba_artifact_ref a
          \<and> ba_expires_at c > now) (bt_values ?m)"
    unfolding bt_values_def bt_remove_def filter_map filter_filter
    by (rule arg_cong [where f = "map snd"], rule filter_cong [OF refl]) (auto simp: key)
  then show ?thesis
    using live sum_list_bt_insert [OF wf, of "\<lambda>c. unat (ba_size_bytes c)"
      "\<lambda>c. ba_namespace_id c = ba_namespace_id a \<and> ba_expires_at c > now" "ba_artifact_ref a" a]
    by (simp add: retained_in_def)
qed

lemma quota_bound:
  assumes inv: "background_inv s"
    and quota: "validate_background_artifact_quota benv s a l now = Ok ()"
    and art: "commit_artifact benv r (Some a) now s = (Ok (), s2)"
    and small: "al_max_retained_bytes l \<noteq> - 1"
  shows "retained_in (ba_namespace_id a) now s2 \<le> unat (al_max_retained_bytes l)"
    and "ba_size_bytes a \<le> al_max_single_bytes l"
proof -
  have live: "ba_expires_at a > now" and single: "ba_size_bytes a \<le> al_max_single_bytes l"
    and tot: "u64_saturating_add (retained_bytes s a now) (ba_size_bytes a) \<le> al_max_retained_bytes l"
    using quota by (auto simp: validate_background_artifact_quota_def artifact_is_available_at_def
        split: if_splits)
  let ?rest = "sum_list (map (\<lambda>c. unat (ba_size_bytes c))
         (filter (\<lambda>c. ba_namespace_id c = ba_namespace_id a \<and> ba_artifact_ref c \<noteq> ba_artifact_ref a
             \<and> ba_expires_at c > now) (bt_values (si_background_artifacts s))))"
  have "map_of (si_background_artifacts s) (ba_artifact_ref a) \<in> {None, Some a}"
    using art by (auto simp: commit_artifact_def split: if_splits option.splits)
  note after = retained_after_artifact [OF inv this live]
  have "si_background_artifacts s2 = bt_insert (ba_artifact_ref a) a (si_background_artifacts s)"
    using art background_inv_artifacts(1) [OF inv]
    by (auto simp: commit_artifact_def bt_insert_same split: if_splits option.splits)
  then have sum: "retained_in (ba_namespace_id a) now s2 = unat (ba_size_bytes a) + ?rest"
    using after by (simp add: retained_in_def)
  have "unat (u64_saturating_add (retained_bytes s a now) (ba_size_bytes a))
      = min (?rest + unat (ba_size_bytes a)) (2 ^ 64 - 1)"
    by (simp add: unat_u64_saturating_add retained_bytes_def unat_foldl_saturating comp_def)
  moreover have "unat (u64_saturating_add (retained_bytes s a now) (ba_size_bytes a))
      \<le> unat (al_max_retained_bytes l)"
    using tot by (simp add: word_le_nat_alt)
  moreover have "unat (al_max_retained_bytes l) < 2 ^ 64 - 1"
    using small u64_unat_bound [of "al_max_retained_bytes l"]
    unfolding word_unat_eq_iff unat_u64_minus_one by linarith
  ultimately show "retained_in (ba_namespace_id a) now s2 \<le> unat (al_max_retained_bytes l)"
    unfolding sum by linarith
  show "ba_size_bytes a \<le> al_max_single_bytes l" by (rule single)
qed

lemma commit_within_quota:
  assumes inv: "background_inv s"
    and ok: "commit_background_terminal benv now r (Some a) (Some l) s = (Ok x, s')"
    and live: "map_of (si_background_subagents s) (bg_attempt_id r) = Some c"
      "\<not> background_execution_is_terminal (bg_execution_status c)"
    and small: "al_max_retained_bytes l \<noteq> - 1"
  shows "ba_size_bytes a \<le> al_max_single_bytes l
     \<and> retained_in (bg_namespace_id r) now s' \<le> unat (al_max_retained_bytes l)
     \<and> map_of (si_background_artifacts s') (ba_artifact_ref a) = Some a"
proof -
  note shape = commit_shape [OF ok]
  from ok live have "commit_background_first benv now c r (Some a) (Some l) s = (Ok x, s')"
    by (auto simp: commit_unfold [OF shape] split: result.splits)
  then show ?thesis
  proof (cases rule: commit_first_state)
    case (committed s2)
    have q: "validate_background_artifact_quota benv s a l now = Ok ()"
      using committed(2) by (simp add: quota_check_def)
    have ns: "ba_namespace_id a = bg_namespace_id r"
      and art: "map_of (si_background_artifacts s2) (ba_artifact_ref a) = Some a"
      using committed(1) by (auto simp: commit_artifact_def artifact_matches_def split: if_splits option.splits)
    have "retained_in ns now s' = retained_in ns now s2" for ns
      by (simp add: committed(8) retained_in_def store_background_def put_fingerprint_def)
    with quota_bound [OF inv q committed(1) small] ns art committed(8) show ?thesis
      by (simp add: store_background_def put_fingerprint_def)
  qed simp
qed

section \<open>Fencing of the owner\<close>

lemma lost_owner_refused:
  assumes k: "map_of (si_background_subagents s) k = Some c"
    and nt: "\<not> background_execution_is_terminal (bg_execution_status c)"
    and lost: "background_owner_expired_at (bg_owner_lease c) now"
  shows "refused (heartbeat_background_subagent now k h g e) s"
    and "bg_attempt_id r = k \<Longrightarrow> refused (update_background_subagent_execution now r) s"
    and "bg_attempt_id r = k \<Longrightarrow> refused (commit_background_terminal benv now r artifact limits) s"
  using assms
  by (auto simp: refused_def heartbeat_background_subagent_def update_background_subagent_execution_def
      commit_background_terminal_def commit_background_first_def split: result.split option.split)

lemma other_owner_refused:
  assumes k: "map_of (si_background_subagents s) k = Some c"
    and nt: "\<not> background_execution_is_terminal (bg_execution_status c)"
  shows "(h, g) \<noteq> (bol_host_instance_id (bg_owner_lease c), bol_fencing_generation (bg_owner_lease c)) \<Longrightarrow>
       refused (heartbeat_background_subagent now k h g e) s"
    and "bg_attempt_id r = k \<Longrightarrow> \<not> same_background_owner c r \<Longrightarrow>
       refused (update_background_subagent_execution now r) s"
    and "bg_attempt_id r = k \<Longrightarrow> \<not> same_background_owner c r \<Longrightarrow>
       refused (commit_background_terminal benv now r artifact limits) s"
  using assms
  by (auto simp: refused_def heartbeat_background_subagent_def update_background_subagent_execution_def
      commit_background_terminal_def commit_background_first_def op_bind_def op_lift_def
      split: result.split option.split)

section \<open>Exclusive delivery\<close>

lemma delivery_exclusive:
  assumes k: "map_of (si_background_subagents s) k = Some r"
    and held: "bg_delivery_status r = Claimed" "bg_delivery_claim r = Some c" "bdc_deadline c > now"
  shows "c' \<noteq> c \<Longrightarrow> refused (claim_background_subagent_delivery now k c') s"
    and "i \<noteq> bdc_claim_id c \<Longrightarrow> refused (acknowledge_background_subagent_delivery t k i) s"
    and "i \<noteq> bdc_claim_id c \<Longrightarrow> refused (release_background_subagent_delivery t k i rel) s"
  using assms
  by (auto simp: refused_def claim_background_subagent_delivery_def claim_is_expired_def
      take_delivery_claim_def background_delivery_claimable_at_def
      acknowledge_background_subagent_delivery_def release_background_subagent_delivery_def holds_claim_def)

lemma delivered_refuses:
  assumes k: "map_of (si_background_subagents s) k = Some r" and sent: "bg_delivery_status r = Delivered"
  shows "refused (claim_background_subagent_delivery now k c) s"
    and "refused (release_background_subagent_delivery now k i rel) s"
    and "bg_delivered_claim_id r \<noteq> Some i \<Longrightarrow> refused (acknowledge_background_subagent_delivery now k i) s"
    and "bg_delivered_claim_id r = Some i \<Longrightarrow> acknowledge_background_subagent_delivery now k i s = (Ok r, s)"
  using assms
  by (auto simp: refused_def claim_background_subagent_delivery_def claim_is_expired_def
      take_delivery_claim_def background_delivery_claimable_at_def
      acknowledge_background_subagent_delivery_def release_background_subagent_delivery_def holds_claim_def
      split: option.split)


section \<open>What reconciliation leaves\<close>

lemma background_onlyD:
  assumes "background_only s s'"
  shows "si_sessions s' = si_sessions s"
    "si_runs s' = si_runs s"
    "si_run_sequences s' = si_run_sequences s"
    "si_hitl_resume_claims s' = si_hitl_resume_claims s"
    "si_host_event_outbox s' = si_host_event_outbox s"
    "si_host_event_outbox_order s' = si_host_event_outbox_order s"
    "si_host_event_outbox_sequences s' = si_host_event_outbox_sequences s"
    "si_last_host_event_outbox_sequence s' = si_last_host_event_outbox_sequence s"
    "si_host_event_records s' = si_host_event_records s"
    "si_host_event_positions s' = si_host_event_positions s"
    "si_host_event_ids s' = si_host_event_ids s"
    "si_last_host_event_position s' = si_last_host_event_position s"
    "si_session_idempotency s' = si_session_idempotency s"
    "si_run_admission_idempotency s' = si_run_admission_idempotency s"
    "si_run_admissions s' = si_run_admissions s"
    "si_admission_generations s' = si_admission_generations s"
    "si_control_receipts s' = si_control_receipts s"
    "si_control_idempotency s' = si_control_idempotency s"
    "si_run_control_intents s' = si_run_control_intents s"
    "si_run_control_authority_keys s' = si_run_control_authority_keys s"
  using assms by (cases s; cases s'; simp add: background_only_def beside_background_def)+

text \<open>Nothing that reconciliation settles is left: no lost owner, no expired claim without a live consumer.\<close>

definition settled_at :: "datetime \<Rightarrow> store_inner \<Rightarrow> background_subagent_record \<Rightarrow> bool" where
  "settled_at now s r \<longleftrightarrow>
     (background_execution_is_terminal (bg_execution_status r)
      \<or> \<not> background_owner_expired_at (bg_owner_lease r) now)
     \<and> (\<forall>c. claim_is_expired r now = Some c \<longrightarrow>
          (\<exists>run_id status. claim_consumer s r c = Some (run_id, status)
             \<and> run_status_is_active status \<and> consumer_is_live s r run_id now))"

lemma settled_frame:
  assumes "background_only s s'"
  shows "settled_at now s' r = settled_at now s r"
  unfolding settled_at_def claim_consumer_def consumer_is_live_def background_onlyD [OF assms] ..

lemma attempts_evolveD:
  assumes "attempts_evolve s s'" and "map_of (si_background_subagents s) k = Some r"
    and "map_of (si_background_subagents s') k = Some r'"
  shows "attempt_evolves r r'"
  using assms unfolding attempts_evolve_def by force

lemma settle_expired_None:
  "settle_expired_claim s now r c = None \<Longrightarrow>
     \<exists>run_id status. claim_consumer s r c = Some (run_id, status)
       \<and> run_status_is_active status \<and> consumer_is_live s r run_id now"
  by (auto simp: settle_expired_claim_def split: option.splits if_splits)

lemma settled_written:
  "settled_at now s (host_lost now r)"
  "background_execution_is_terminal (bg_execution_status r) \<Longrightarrow> settled_at now s (deliver i run now r)"
  "background_execution_is_terminal (bg_execution_status r) \<Longrightarrow> settled_at now s (undeliver x now r)"
  by (auto simp: settled_at_def host_lost_def deliver_def undeliver_def claim_is_expired_def split: if_splits)

lemma reconcile_one_settles:
  assumes ok: "attempt_ok r" and k: "map_of (si_background_subagents s) k = Some r"
  shows "\<exists>r'. map_of (si_background_subagents (snd (reconcile_background_one benv now k s))) k = Some r'
     \<and> settled_at now s r'"
proof (cases "\<not> background_execution_is_terminal (bg_execution_status r)
      \<and> background_owner_expired_at (bg_owner_lease r) now")
  case True
  with k show ?thesis by (simp add: reconcile_background_one_def put_background_def settled_written)
next
  case F: False
  show ?thesis
  proof (cases "claim_is_expired r now")
    case None
    with F k show ?thesis by (auto simp: reconcile_background_one_def settled_at_def)
  next
    case (Some c)
    note cl = this
    have fin: "background_execution_is_terminal (bg_execution_status r)"
      using claim_is_expiredD [OF cl] claimed_is_terminal [OF ok] by blast
    show ?thesis
    proof (cases "settle_expired_claim s now r c")
      case None
      have "settled_at now s r" using cl settle_expired_None [OF None] fin by (simp add: settled_at_def)
      with F k cl None show ?thesis by (auto simp: reconcile_background_one_def)
    next
      case (Some r')
      then have "settled_at now s r'" using settled_written(2,3) [OF fin] by (rule settle_expired_cases)
      with F k cl Some show ?thesis by (auto simp: reconcile_background_one_def put_background_def)
    qed
  qed
qed

lemma reconcile_settles:
  assumes inv: "background_inv s" and run: "reconcile_background_subagents benv ns now s = (x, s')"
    and k: "map_of (si_background_subagents s') k = Some r'" and ns: "bg_namespace_id r' = ns"
  shows "settled_at now s' r'"
proof -
  let ?ids = "map bg_attempt_id (filter (\<lambda>r. bg_namespace_id r = ns) (bt_values (si_background_subagents s)))"
  have s': "s' = fold (\<lambda>i s. snd (reconcile_background_one benv now i s)) ?ids s"
    using run reconcile_ids_state [of benv now ?ids "[]" s]
    by (simp add: reconcile_background_subagents_def)
  note dist = background_ids_distinct [OF inv, of "\<lambda>r. bg_namespace_id r = ns"]
  have "background_only s s'" using bg_reconcile.frame [OF inv, of benv ns now] run by simp
  note frame = settled_frame [OF this, of now]
  have ev: "attempts_evolve s s'" using bg_reconcile.evolves [OF inv, of benv ns now] run by simp
  show ?thesis
  proof (cases "map_of (si_background_subagents s) k")
    case None
    then have "k \<notin> set ?ids" using background_values [OF inv] by auto
    then have "map_of (si_background_subagents s') k = None"
      using recovery.loop_other [OF inv dist, of k benv now] None unfolding s' by simp
    with k show ?thesis by simp
  next
    case (Some r)
    have "same_background_identity r r'"
      using attempts_evolveD [OF ev Some k] by (simp add: attempt_evolves_def attempt_kept_def)
    then have "bg_namespace_id r = ns" using ns by (simp add: same_background_identity_def)
    then have "k \<in> set ?ids"
      using Some background_invD(1) [OF inv Some] map_of_Some_in_values [OF Some] by force
    then obtain t where t: "background_only s t"
      "map_of (si_background_subagents t) k = map_of (si_background_subagents s) k"
      "map_of (si_background_subagents s') k
         = map_of (si_background_subagents (snd (reconcile_background_one benv now k t))) k"
      using recovery.loop_at [OF inv dist, of k benv now] unfolding s' by blast
    from t(2) Some have "map_of (si_background_subagents t) k = Some r" by simp
    from reconcile_one_settles [OF background_invD(2) [OF inv Some] this, of benv now] t(3) k
    have "settled_at now t r'" by (metis option.inject)
    then show ?thesis unfolding frame settled_frame [OF t(1), of now] .
  qed
qed

lemma reconcile_never_fails: "\<exists>changed. fst (reconcile_background_subagents benv ns now s) = Ok changed"
proof -
  have "\<exists>changed. fst (reconcile_background_ids benv now ids acc s) = Ok changed" for ids acc
    by (induction ids arbitrary: acc s) (simp_all add: split_beta Let_def)
  then show ?thesis by (simp add: reconcile_background_subagents_def)
qed

section \<open>What a commit and a continuation establish\<close>

lemma commit_artifact_valid:
  assumes inv: "background_inv s"
    and ok: "commit_background_terminal benv now r (Some a) limits s = (Ok x, s')"
    and live: "map_of (si_background_subagents s) (bg_attempt_id r) = Some c"
      "\<not> background_execution_is_terminal (bg_execution_status c)"
  shows "artifact_is_valid benv a"
proof -
  note shape = commit_shape [OF ok]
  from ok live have "commit_background_first benv now c r (Some a) limits s = (Ok x, s')"
    by (auto simp: commit_unfold [OF shape] split: result.splits)
  then show ?thesis
    by (cases rule: commit_first_state)
       (auto simp: commit_artifact_def artifact_matches_def artifact_is_available_at_def
         split: if_splits option.splits)
qed

lemma replay_continuation_delivered:
  assumes inv: "background_inv s"
    and k: "map_of (si_background_subagents s) k = Some r"
    and ok: "replay_continuation benv request r s = Ok c"
  shows "rar_idempotent_replay (ctr_admission c) \<and> bg_delivery_status (ctr_background c) = Delivered
     \<and> bg_delivered_claim_id (ctr_background c) = Some (acr_claim_id request)"
proof -
  have cont: "bg_continuation_run_id r \<noteq> None"
    and claim: "bg_delivered_claim_id r = Some (acr_claim_id request)
       \<or> (\<exists>cl. bg_delivery_claim r = Some cl \<and> bdc_claim_id cl = acr_claim_id request)"
    and c: "rar_idempotent_replay (ctr_admission c)" "ctr_background c = r"
    using ok by (auto simp: replay_continuation_def Let_def split: if_splits option.splits prod.splits)
  note inv_r = background_invD(2) [OF inv k, unfolded attempt_ok_def]
  have "bg_delivery_status r = Delivered" using cont inv_r by (cases "bg_delivery_status r = Delivered") simp_all
  moreover from this have "bg_delivery_claim r = None" using inv_r by (auto split: if_splits)
  ultimately show ?thesis using claim c by auto
qed

lemma matches_input:
  "continuation_receipt_matches_request benv r request adm \<Longrightarrow>
     rr_input (rar_run adm) = rr_input (acq_run (acr_admission request))"
  by (simp add: continuation_receipt_matches_request_def Let_def)

lemma admissible_input:
  assumes "continuation_admissible benv now request r s = Ok ()"
  obtains content where "continuation_artifact_content benv s r now = Ok content"
    "rr_input (acq_run (acr_admission request)) = continuation_input r content"
  using assms by (auto simp: continuation_admissible_def validates_continuation_cause_def
      split: result.splits if_splits)

lemma continuation_admitted:
  assumes inv: "background_inv s"
    and k: "map_of (si_background_subagents s) (acr_attempt_id request) = Some r"
    and und: "bg_delivery_status r = Undelivered"
    and adm: "continuation_admissible benv now request r s = Ok ()"
    and acq: "acquire_run_admission_locked t_adm (acr_admission request) s = (Ok adm, s1)"
    and ok: "continuation_receipt_matches_request benv r request adm"
    and x: "x = Ok \<lparr>ctr_cause = continuation_cause_new benv
                  (continuation_delivered t_write request (rr_run_id (rar_run adm)) r)
                  (rr_input (rar_run adm)),
               ctr_background = continuation_delivered t_write request (rr_run_id (rar_run adm)) r,
               ctr_admission = adm\<rparr>"
    and s': "s' = store_background (continuation_delivered t_write request (rr_run_id (rar_run adm)) r) s1"
  shows "\<exists>c s1 r. x = Ok c
          \<and> acquire_run_admission t_adm (acr_admission request) s = (Ok (ctr_admission c), s1)
          \<and> map_of (si_background_subagents s) (acr_attempt_id request) = Some r
          \<and> bg_delivery_status r = Undelivered
          \<and> s' = put_background (acr_attempt_id request) (ctr_background c) s1
          \<and> si_background_subagents s1 = si_background_subagents s
          \<and> bg_delivery_status (ctr_background c) = Delivered
          \<and> bg_delivered_claim_id (ctr_background c) = Some (acr_claim_id request)
          \<and> bg_continuation_run_id (ctr_background c) = Some (rr_run_id (rar_run (ctr_admission c)))
          \<and> (\<exists>content. continuation_artifact_content benv s r now = Ok content
               \<and> rr_input (rar_run (ctr_admission c)) = continuation_input r content)"
proof -
  obtain content where content: "continuation_artifact_content benv s r now = Ok content"
    "rr_input (acq_run (acr_admission request)) = continuation_input r content"
    using adm by (rule admissible_input)
  have "acquire_run_admission t_adm (acr_admission request) s = (Ok adm, s1)"
    using acq by (simp add: acquire_run_admission_def staged_Ok)
  moreover have "si_background_subagents s1 = si_background_subagents s"
    using acquire_background_tables [OF acq] by (simp add: background_tables_def)
  moreover have "s' = put_background (acr_attempt_id request)
      (continuation_delivered t_write request (rr_run_id (rar_run adm)) r) s1"
    using s' background_invD(1) [OF inv k]
    by (simp add: store_background_def put_background_def continuation_delivered_def)
  ultimately show ?thesis
    using k und content matches_input [OF ok] unfolding x
    by (intro exI [of _ s1] exI [of _ r]
        exI [of _ "\<lparr>ctr_cause = continuation_cause_new benv
                  (continuation_delivered t_write request (rr_run_id (rar_run adm)) r)
                  (rr_input (rar_run adm)),
               ctr_background = continuation_delivered t_write request (rr_run_id (rar_run adm)) r,
               ctr_admission = adm\<rparr>"])
       (simp add: continuation_delivered_def)
qed

end
