(* ===== verification/Store_Core.thy ===== *)
theory Store_Core
  imports Store_Sessions Outbox_Refinement Background_Lifecycle
begin

text \<open>
  The invariant of the store without its background tables, and that every operation keeps it; the
  tables that only grow (the event log, the receipts and the generations) with the proof that the
  other operations leave them alone; and the frame between background and other operations.
\<close>

section \<open>The store invariant\<close>

definition core_inv :: "store_inner \<Rightarrow> bool" where
  "core_inv s \<longleftrightarrow> admission_inv s \<and> outbox_inv s \<and> control_inv s \<and> claim_inv s"

lemma core_inv_new: "core_inv store_new"
  using admission_inv_new outbox_inv_new control_inv_new
  by (simp add: core_inv_def claim_inv_def claims_ok_def store_new_def)

lemma core_invD:
  assumes "core_inv s"
  shows "record_inv s" "admission_inv s" "outbox_inv s" "control_inv s" "claim_inv s"
  using assms by (simp_all add: core_inv_def admission_inv_def)

lemma keeps_core_inv:
  "keeps admission_inv f \<Longrightarrow> keeps outbox_inv f \<Longrightarrow> keeps control_inv f \<Longrightarrow> keeps claim_inv f \<Longrightarrow>
     keeps core_inv f"
  by (simp add: keeps_def core_inv_def)

lemma core_inv_records:
  assumes inv: "core_inv s" and rec: "record_inv s'" and only: "records_only s s'"
    and claims: "si_hitl_resume_claims s' = si_hitl_resume_claims s"
    and grow: "\<And>k. has_run k s \<Longrightarrow> has_run k s'"
  shows "core_inv s'"
proof -
  have "admissions_ok (si_run_admissions s') (si_admission_generations s') (si_runs s')"
    unfolding records_onlyD [OF only]
    by (rule admissions_ok_runs [of _ _ "si_runs s"])
       (use inv grow in \<open>auto simp: core_inv_def admission_inv_def has_run_def\<close>)
  moreover have "outbox_inv s'"
    using only core_invD(3) [OF inv] by (rule outbox_inv_records_only)
  moreover have "control_inv s'" "claim_inv s'"
    using inv claims by (simp_all add: core_inv_def control_inv_def claim_inv_def records_onlyD [OF only])
  ultimately show ?thesis using rec by (simp add: core_inv_def admission_inv_def)
qed

lemma core_inv_sessions:
  assumes inv: "core_inv s" and ok: "sr_session_id r = sid"
  shows "core_inv (s\<lparr>si_sessions := bt_insert sid r (si_sessions s), si_session_idempotency := x\<rparr>)"
    and "core_inv (s\<lparr>si_sessions := bt_insert sid r (si_sessions s)\<rparr>)"
proof -
  let ?s = "s\<lparr>si_sessions := bt_insert sid r (si_sessions s)\<rparr>"
  have "record_inv ?s"
    using core_invD(1) [OF inv] ok
    by (simp add: record_inv_def sessions_ok_insert runs_ok_session_insert)
  then show A: "core_inv ?s"
    by (rule core_inv_records [OF inv]) (simp_all add: records_only_def beside_records_def has_run_def)
  have "outbox_inv (?s\<lparr>si_session_idempotency := x\<rparr>) = outbox_inv ?s"
    by (rule outbox_inv_frame) simp_all
  with A have "core_inv (?s\<lparr>si_session_idempotency := x\<rparr>)"
    by (simp add: core_inv_def admission_inv_def record_inv_def control_inv_def claim_inv_def)
  then show "core_inv (s\<lparr>si_sessions := bt_insert sid r (si_sessions s), si_session_idempotency := x\<rparr>)"
    by simp
qed

lemma core_inv_session_id:
  "core_inv s \<Longrightarrow> map_of (si_sessions s) sid = Some r \<Longrightarrow> sr_session_id r = sid"
  by (auto dest: core_invD(1) simp: record_inv_def sessions_ok_def)

section \<open>Record operations\<close>

lemma append_run_core_inv: "keeps core_inv (append_run_record now run)"
proof (rule keepsI)
  fix s
  assume inv: "core_inv s"
  show "core_inv (snd (append_run_record now run s))"
  proof (rule core_inv_records [OF inv])
    show "record_inv (snd (append_run_record now run s))"
      using core_invD(1) [OF inv] by (rule append_run_record_inv)
    show "records_only s (snd (append_run_record now run s))"
      by (auto simp: append_run_record_def Let_def records_only_def beside_records_def
          session_modify_def insert_prepared_run_record_def split: result.split option.split)
    show "si_hitl_resume_claims (snd (append_run_record now run s)) = si_hitl_resume_claims s"
      by (simp add: append_run_record_def Let_def insert_prepared_run_record_def
          split: result.split option.split)
    show "has_run k (snd (append_run_record now run s))" if "has_run k s" for k
      using that by (auto simp: append_run_record_def Let_def insert_prepared_run_record_def has_run_def
          split: result.split option.split)
  qed
qed

lemma update_run_core_inv:
  assumes "\<And>r. same_run r (f r)"
  shows "keeps core_inv (update_run_record now sid rid f)"
proof (rule keepsI)
  fix s
  assume inv: "core_inv s"
  show "core_inv (snd (update_run_record now sid rid f s))"
  proof (rule core_inv_records [OF inv])
    show "record_inv (snd (update_run_record now sid rid f s))"
      using core_invD(1) [OF inv] assms by (rule update_run_record_inv)
    show "records_only s (snd (update_run_record now sid rid f s))"
      by (auto simp: update_run_record_def Let_def records_only_def beside_records_def
          session_modify_def split: result.split option.split)
    show "si_hitl_resume_claims (snd (update_run_record now sid rid f s)) = si_hitl_resume_claims s"
      by (simp add: update_run_record_def Let_def split: result.split option.split)
    show "has_run k (snd (update_run_record now sid rid f s))" if "has_run k s" for k
      using that by (auto simp: update_run_record_def Let_def has_run_def split: result.split option.split)
  qed
qed

lemma set_run_status_core_inv: "keeps core_inv (set_run_status now sid rid st pv er)"
  unfolding set_run_status_def by (rule update_run_core_inv) (simp add: same_run_def)

lemma set_legacy_status_core_inv: "keeps core_inv (set_legacy_run_status now sid rid st pv)"
  unfolding set_legacy_run_status_def
  by (rule update_run_core_inv) (simp add: same_run_def run_apply_legacy_status_update_def)

lemma save_session_core_inv: "keeps core_inv (save_session_record now r)"
  by (rule keepsI) (auto simp: save_session_record_def Let_def intro!: core_inv_sessions(2)
      split: option.split)

lemma session_touch_core_inv:
  assumes "\<And>r. sr_session_id (f r) = sr_session_id r"
  shows "keeps core_inv (session_touch now sid f)"
  by (rule keepsI) (auto simp: session_touch_def Let_def assms core_inv_session_id
      intro!: core_inv_sessions(2) split: option.split)

lemma session_field_core_inv:
  "keeps core_inv (set_session_status now sid st)"
  "keeps core_inv (save_context_state_snapshot now sid state)"
  "keeps core_inv (save_environment_state_ref now sid env)"
  unfolding set_session_status_def save_context_state_snapshot_def save_environment_state_ref_def
  by (rule session_touch_core_inv; simp)+

section \<open>Session mutations\<close>

lemma create_fresh_core_inv: "keeps core_inv (create_session_fresh session key fp time)"
  by (rule keepsI) (auto simp: create_session_fresh_def Let_def intro!: core_inv_sessions(1)
      split: result.split)

lemma create_session_core_inv: "keeps core_inv (create_session_idempotent now session key fp)"
  using keepsD [OF create_fresh_core_inv]
  by (auto simp: keeps_def create_session_idempotent_def split: option.split)

lemma update_fresh_core_inv:
  assumes "core_inv s" and "map_of (si_sessions s) (upd_session_id cmd) = Some session"
  shows "core_inv (snd (update_session_fresh cmd session fp time s))"
  using assms core_inv_session_id [OF assms]
  by (auto simp: update_session_fresh_def Let_def intro!: core_inv_sessions(1) split: result.split)

lemma update_session_core_inv: "keeps core_inv (update_managed_session now cmd fp)"
  using update_fresh_core_inv
  by (auto simp: keeps_def update_managed_session_def split: option.split)

lemma deletion_fence_core_inv:
  "keeps core_inv (acquire_session_deletion_fence now t1 t2 sid ex fid who key fp)"
  by (rule keepsI) (auto simp: acquire_session_deletion_fence_def Let_def core_inv_session_id
      intro!: core_inv_sessions(1) split: option.split)

lemma tombstone_core_inv: "keeps core_inv (tombstone_session now t1 t2 sid fid)"
  by (rule keepsI) (auto simp: tombstone_session_def Let_def core_inv_session_id tombstoned_def
      intro!: core_inv_sessions(2) split: option.split result.split session_deletion_fence.split)

lemma enqueue_core_inv: "keeps core_inv (enqueue_host_event_publications_locked env pubs)"
proof (rule keepsI)
  fix s
  assume inv: "core_inv s"
  let ?s = "snd (enqueue_host_event_publications_locked env pubs s)"
  have only: "outbox_only s ?s" by (rule enqueue_outbox_only)
  have "admission_inv ?s" using only core_invD(2) [OF inv] by (rule admission_inv_outbox_only)
  moreover have "outbox_inv ?s" using core_invD(3) [OF inv] by (rule enqueue_inv)
  moreover have "control_inv ?s" "claim_inv ?s"
    using inv by (simp_all add: core_inv_def control_inv_def claim_inv_def outbox_onlyD [OF only])
  ultimately show "core_inv ?s" by (simp add: core_inv_def)
qed

lemma keeps_staged_core_inv: "keeps I f \<Longrightarrow> keeps I (staged f)"
  by (rule keeps_stagedI) (metis keepsD snd_conv)

lemma create_events_core_inv:
  "keeps core_inv (create_session_idempotent_with_host_events env now session key fp pubs)"
  unfolding create_session_idempotent_with_host_events_def
proof (rule keeps_staged_core_inv, rule keeps_op_bind)
  show "keeps core_inv (\<lambda>s. case map_of (si_session_idempotency s) (sr_namespace_id session, key) of
              Some (fingerprint, existing) \<Rightarrow>
                (if fingerprint \<noteq> fp then Err (IdempotencyConflict key) else Ok existing, s)
            | None \<Rightarrow> create_session_fresh session key fp (session_mutation_time now pubs) s)"
    using keepsD [OF create_fresh_core_inv] by (auto simp: keeps_def split: option.split)
qed (simp add: keeps_op_bind enqueue_core_inv)

lemma update_events_core_inv:
  "keeps core_inv (update_managed_session_with_host_events env now cmd fp pubs)"
  unfolding update_managed_session_with_host_events_def
proof (rule keeps_staged_core_inv, rule keeps_op_bind)
  show "keeps core_inv (\<lambda>s. case map_of (si_sessions s) (upd_session_id cmd) of
              None \<Rightarrow> (Err (NotFound (upd_session_id cmd)), s)
            | Some session \<Rightarrow>
                (case map_of (si_session_idempotency s)
                        (sr_namespace_id session, upd_idempotency_key cmd) of
                   Some (fingerprint, existing) \<Rightarrow>
                     (if fingerprint \<noteq> fp then Err (IdempotencyConflict (upd_idempotency_key cmd))
                      else Ok existing, s)
                 | None \<Rightarrow> update_session_fresh cmd session fp (session_mutation_time now pubs) s))"
    using update_fresh_core_inv by (auto simp: keeps_def split: option.split)
qed (simp add: keeps_op_bind enqueue_core_inv)

lemma tombstone_staged_core_inv:
  assumes "core_inv s" and "map_of (si_sessions s) sid = Some session"
  shows "core_inv (snd (tombstone_staged now t sid fid pubs session s))"
  using assms core_inv_session_id [OF assms]
  by (auto simp: tombstone_staged_def tombstoned_def intro!: core_inv_sessions(2)
      split: result.split session_deletion_fence.split)

lemma core_inv_idempotency [simp]:
  "core_inv (s\<lparr>si_session_idempotency := x\<rparr>) = core_inv s"
proof -
  have "outbox_inv (s\<lparr>si_session_idempotency := x\<rparr>) = outbox_inv s"
    by (rule outbox_inv_frame) simp_all
  then show ?thesis
    by (simp add: core_inv_def admission_inv_def record_inv_def control_inv_def claim_inv_def)
qed

lemma tombstone_events_core_inv:
  "keeps core_inv (tombstone_session_idempotent_with_host_events env now t sid fid key fp pubs)"
  unfolding tombstone_session_idempotent_with_host_events_def
proof (rule keeps_stagedI, goal_cases)
  case (1 s x s')
  then obtain session rs s1 result y where inv: "core_inv s"
    and sess: "map_of (si_sessions s) sid = Some session"
    and ts: "tombstone_staged now t sid fid pubs session s = (Ok y, s1)"
    and enq: "op_bind (enqueue_host_event_publications_locked env pubs) (\<lambda>_. op_lift (Ok result))
        (s1\<lparr>si_session_idempotency := rs\<rparr>) = (Ok x, s')"
    by (auto simp: op_bind_Ok Let_def split: option.splits if_splits)
  have "core_inv s1" using tombstone_staged_core_inv [OF inv sess] ts by (metis snd_conv)
  moreover have "keeps core_inv (op_bind (enqueue_host_event_publications_locked env pubs)
      (\<lambda>_. op_lift (Ok result)))" by (simp add: keeps_op_bind enqueue_core_inv)
  ultimately show ?case using enq by (metis keepsD snd_conv core_inv_idempotency)
qed

section \<open>Admission, claims and control\<close>

lemma acquire_outbox_inv: "keeps outbox_inv (acquire_run_admission now req)"
  unfolding acquire_run_admission_def
proof (rule keeps_stagedI)
  fix s x s'
  assume inv: "outbox_inv s" and "acquire_run_admission_locked now req s = (Ok x, s')"
  from this(2) show "outbox_inv s'"
  proof (cases rule: acquire_locked_Ok_cases)
    case (fresh s1 key run s2)
    have s1: "outbox_inv s1" using inv fresh(2) by (rule outbox_cleanup.keeps_displace)
    obtain c where s2: "s2 = s1\<lparr>si_hitl_resume_claims := c\<rparr>"
      using admit_claim_eq [OF fresh(6)] by blast
    have "outbox_inv s' = outbox_inv s1"
      using fresh(7) unfolding s2
      by (intro outbox_inv_frame)
         (auto simp: commit_admission_def Let_def insert_prepared_run_record_def split: option.splits)
    with s1 show ?thesis by simp
  qed (use inv in simp)
qed

lemma acquire_core_inv: "keeps core_inv (acquire_run_admission now req)"
  by (rule keeps_core_inv)
     (rule acquire_admission_inv acquire_outbox_inv acquire_control_inv acquire_claim_inv)+

lemma core_inv_admissions:
  assumes inv: "core_inv s"
    and ok: "admissions_ok adm (si_admission_generations s) (si_runs s)"
  shows "core_inv (s\<lparr>si_run_admissions := adm\<rparr>)"
proof -
  have "outbox_inv (s\<lparr>si_run_admissions := adm\<rparr>) = outbox_inv s"
    by (rule outbox_inv_frame) simp_all
  with inv ok show ?thesis
    by (simp add: core_inv_def admission_inv_def record_inv_def control_inv_def claim_inv_def)
qed

lemma heartbeat_core_inv: "keeps core_inv (heartbeat_run_admission t1 t2 lease e)"
proof (rule keepsI)
  fix s
  assume inv: "core_inv s"
  have adm: "admission_inv (snd (heartbeat_run_admission t1 t2 lease e s))"
    using heartbeat_admission_inv core_invD(2) [OF inv] by (rule keepsD)
  have "\<exists>a. snd (heartbeat_run_admission t1 t2 lease e s) = s\<lparr>si_run_admissions := a\<rparr>"
    by (auto simp: heartbeat_run_admission_def Let_def split: option.split
        intro: exI [of _ "si_run_admissions s"])
  then obtain a where a: "snd (heartbeat_run_admission t1 t2 lease e s) = s\<lparr>si_run_admissions := a\<rparr>" ..
  with adm show "core_inv (snd (heartbeat_run_admission t1 t2 lease e s))"
    by (simp add: core_inv_admissions [OF inv] admission_inv_def)
qed

lemma release_core_inv: "keeps core_inv (release_run_admission now lease)"
  by (rule keepsI) (auto simp: release_run_admission_def dest: core_invD(2)
      intro!: core_inv_admissions admissions_ok_remove simp: admission_inv_def split: option.split)

lemma apply_status_core_inv: "keeps core_inv (apply_run_status_locked sid rid st pv er t)"
  by (rule keeps_core_inv)
     (rule admission_cleanup.keeps_apply outbox_cleanup.keeps_apply control_cleanup.keeps_apply
        claim_cleanup.keeps_apply)+

lemma update_status_core_inv: "keeps core_inv (update_run_status_fenced t1 t2 lease st pv)"
proof (rule keepsI)
  fix s
  assume inv: "core_inv s"
  have "keeps core_inv (op_bind (op_lift (ensure_active_admission_locked s lease t1))
      (\<lambda>_. apply_run_status_locked (rt_session_id (lease_target lease))
         (rt_run_id (lease_target lease)) st pv None t2))"
    by (simp add: keeps_op_bind apply_status_core_inv)
  from keepsD [OF this inv] inv show "core_inv (snd (update_run_status_fenced t1 t2 lease st pv s))"
    by (simp add: update_run_status_fenced_def)
qed

lemma finalize_core_inv: "keeps core_inv (finalize_run_admission env t0 t1 t2 lease terminal)"
  by (rule keeps_core_inv)
     (rule admission_cleanup.keeps_finalize outbox_cleanup.keeps_finalize
        control_cleanup.keeps_finalize claim_cleanup.keeps_finalize)+

lemma reconcile_expired_core_inv: "keeps core_inv (reconcile_expired_run_admissions env ns now)"
  by (rule keeps_core_inv)
     (rule admission_cleanup.keeps_reconcile_expired outbox_cleanup.keeps_reconcile_expired
        control_cleanup.keeps_reconcile_expired claim_cleanup.keeps_reconcile_expired)+

lemma core_inv_claims:
  "core_inv s \<Longrightarrow> claim_inv (s\<lparr>si_hitl_resume_claims := c\<rparr>) \<Longrightarrow> core_inv (s\<lparr>si_hitl_resume_claims := c\<rparr>)"
  by (simp add: core_inv_def control_inv_def)

lemma keeps_core_inv_claims:
  assumes "keeps claim_inv f" and "\<And>s. \<exists>c. snd (f s) = s\<lparr>si_hitl_resume_claims := c\<rparr>"
  shows "keeps core_inv f"
proof (rule keepsI)
  fix s
  assume inv: "core_inv s"
  obtain c where c: "snd (f s) = s\<lparr>si_hitl_resume_claims := c\<rparr>" using assms(2) by blast
  have "claim_inv (snd (f s))" using assms(1) core_invD(5) [OF inv] by (rule keepsD)
  with inv show "core_inv (snd (f s))" unfolding c by (rule core_inv_claims)
qed

lemma claim_ops_core_inv:
  "keeps core_inv (claim_hitl_resume claim)"
  "keeps core_inv (start_hitl_resume_effect now lease src cid)"
  "keeps core_inv (mark_hitl_resume_started sid rid cid)"
  "keeps core_inv (release_hitl_resume_claim sid rid cid)"
  by (rule keeps_core_inv_claims; rule claim_hitl_resume_claim_inv start_claim_inv mark_claim_inv
      release_claim_inv claim_ops_claims_only)+

lemma abort_core_inv: "keeps core_inv (abort_admitted_hitl_resume t1 t2 lease src cid pv)"
proof (rule keepsI)
  fix s
  assume inv: "core_inv s"
  let ?s = "snd (abort_admitted_hitl_resume t1 t2 lease src cid pv s)"
  have claims: "claim_inv ?s" using abort_claim_inv core_invD(5) [OF inv] by (rule keepsD)
  from abort_state [of t1 t2 lease src cid pv s] show "core_inv ?s"
  proof
    assume "\<exists>c. ?s = (snd (apply_run_status_locked (rt_session_id (lease_target lease))
        (rt_run_id (lease_target lease)) StFailed (Some pv)
        (Some (run_terminal_error_new code_preparation_failed pv)) t2 s))\<lparr>si_hitl_resume_claims := c\<rparr>"
    then obtain c where c: "?s = (snd (apply_run_status_locked (rt_session_id (lease_target lease))
        (rt_run_id (lease_target lease)) StFailed (Some pv)
        (Some (run_terminal_error_new code_preparation_failed pv)) t2 s))\<lparr>si_hitl_resume_claims := c\<rparr>" ..
    show ?thesis
      using keepsD [OF apply_status_core_inv inv] claims unfolding c by (rule core_inv_claims)
  qed (use inv in simp)
qed

lemma core_inv_control:
  assumes inv: "core_inv s" and only: "control_only s s'" and ok: "control_inv s'"
  shows "core_inv s'"
  using inv ok admission_inv_control_only [OF only] outbox_inv_control_only [OF only]
  by (simp add: core_inv_def claim_inv_def control_onlyD [OF only])

lemma keeps_core_inv_control:
  assumes "keeps control_inv f" and "\<And>s. control_only s (snd (f s))"
  shows "keeps core_inv f"
  using assms by (auto simp: keeps_def intro: core_inv_control dest: core_invD(4))

lemma control_ops_control_only:
  "control_only s (snd (admit_run_control now req s))"
  "control_only s (snd (advance_run_control_intent now lease op ex nxt t s))"
  "control_only s (snd (reconcile_run_control_intent target op t s))"
  "control_only s (snd (reserve_control_receipt r s))"
  "control_only s (snd (update_control_receipt_state rid st s))"
  by (auto simp: control_only_def beside_control_def admit_run_control_def admit_new_control_def
      advance_run_control_intent_def reconcile_run_control_intent_def reserve_control_receipt_def
      update_control_receipt_state_def store_intent_def Let_def split: option.split result.split)

lemma control_ops_core_inv:
  "keeps core_inv (admit_run_control now req)"
  "keeps core_inv (advance_run_control_intent now lease op ex nxt t)"
  "keeps core_inv (reconcile_run_control_intent target op t)"
  "keeps core_inv (reserve_control_receipt r)"
  "keeps core_inv (update_control_receipt_state rid st)"
  by (rule keeps_core_inv_control; rule admit_control_inv advance_control_inv
      reconcile_one_control_inv reserve_control_inv update_receipt_control_inv control_ops_control_only)+

section \<open>Outbox\<close>

lemma remove_pending_outbox_only: "outbox_only s (remove_pending k s)"
  by (simp add: remove_pending_def outbox_only_def beside_outbox_def Let_def split: option.split)

lemma materialize_new_outbox_only: "outbox_only s (materialize_new pos p s)"
  by (simp add: materialize_new_def remove_pending_def outbox_only_def beside_outbox_def Let_def
      split: option.split)

lemma materialize_pending_outbox_only: "outbox_only s (snd (materialize_pending ps acc s))"
proof (induction ps arbitrary: acc s)
  case (Cons p ps)
  have "outbox_only s (snd (materialize_pending ps acc' (remove_pending k s)))" for acc' k
    using Cons.IH [of "remove_pending k s" acc'] remove_pending_outbox_only [of s k]
    by (simp add: outbox_only_def)
  moreover have "outbox_only s (snd (materialize_pending ps acc' (materialize_new pos p s)))" for acc' pos
    using Cons.IH [of "materialize_new pos p s" acc'] materialize_new_outbox_only [of s pos p]
    by (simp add: outbox_only_def)
  moreover have "outbox_only s s" by (simp add: outbox_only_def)
  ultimately show ?case by (simp split: option.split)
qed (simp add: outbox_only_def)

lemma materialize_batch_outbox_only:
  "outbox_only s (snd (materialize_host_event_publication_batch limit s))"
proof -
  have "outbox_only s (snd (staged (materialize_pending ps []) s))" for ps
    using materialize_pending_outbox_only [of s ps "[]"]
    by (auto simp: staged_def outbox_only_def split: prod.split result.split)
  moreover have "outbox_only s s" by (simp add: outbox_only_def)
  ultimately show ?thesis
    by (simp add: materialize_host_event_publication_batch_def split: result.split)
qed

lemma materialize_core_inv: "keeps core_inv (materialize_host_event_publication_batch limit)"
proof (rule keepsI)
  fix s
  assume inv: "core_inv s"
  let ?s = "snd (materialize_host_event_publication_batch limit s)"
  have only: "outbox_only s ?s" by (rule materialize_batch_outbox_only)
  have "admission_inv ?s" using only core_invD(2) [OF inv] by (rule admission_inv_outbox_only)
  moreover have "outbox_inv ?s" using core_invD(3) [OF inv] by (rule materialize_batch_inv)
  moreover have "control_inv ?s" "claim_inv ?s"
    using inv by (simp_all add: core_inv_def control_inv_def claim_inv_def outbox_onlyD [OF only])
  ultimately show "core_inv ?s" by (simp add: core_inv_def)
qed

lemma enqueue_batch_core_inv: "keeps core_inv (enqueue_host_event_publication_batch env pubs)"
  unfolding enqueue_host_event_publication_batch_def
  by (rule keeps_staged_core_inv) (rule enqueue_core_inv)

section \<open>History\<close>

text \<open>
  Some tables are history: the durable event log, the admission receipts and the issued
  generations. Over any execution the log only grows at its end, a receipt never changes, and a
  generation never decreases. The background tables are followed with them, because only the
  background operations write these.
\<close>

definition hist :: "store_inner \<Rightarrow> (u64, durable_host_event_record) btmap
    \<times> (string \<times> string, string \<times> run_admission_receipt) btmap
    \<times> (managed_session_target, u64) btmap
    \<times> (string, background_subagent_record) btmap \<times> (string, background_artifact) btmap
    \<times> (string, string) btmap" where
  "hist s = (si_host_event_records s, si_run_admission_idempotency s, si_admission_generations s,
     si_background_subagents s, si_background_artifacts s, si_background_terminal_fingerprints s)"

definition history_extends :: "store_inner \<Rightarrow> store_inner \<Rightarrow> bool" where
  "history_extends s s' \<longleftrightarrow>
     prefix (si_host_event_records s) (si_host_event_records s')
     \<and> (\<forall>k v. map_of (si_run_admission_idempotency s) k = Some v
          \<longrightarrow> map_of (si_run_admission_idempotency s') k = Some v)
     \<and> (\<forall>t g. map_of (si_admission_generations s) t = Some g
          \<longrightarrow> (\<exists>g'. map_of (si_admission_generations s') t = Some g' \<and> g \<le> g'))"

lemma history_extends_same: "hist s' = hist s \<Longrightarrow> history_extends s s'"
  by (simp add: hist_def history_extends_def)

lemma history_extends_trans: "history_extends a b \<Longrightarrow> history_extends b c \<Longrightarrow> history_extends a c"
  unfolding history_extends_def by (meson order_trans prefix_order.trans)

lemma hist_only:
  "records_only s s' \<Longrightarrow> hist s' = hist s"
  "control_only s s' \<Longrightarrow> hist s' = hist s"
  "outbox_only s s' \<Longrightarrow> si_host_event_records s' = si_host_event_records s \<Longrightarrow> hist s' = hist s"
  by (simp_all add: hist_def records_onlyD control_onlyD outbox_onlyD)

lemma insert_publications_records [simp]:
  "si_host_event_records (snd (insert_publications seen ps s)) = si_host_event_records s"
proof (induction seen ps s rule: insert_publications.induct)
  case (2 seen p ps s)
  have "si_host_event_records (insert_publication n p s) = si_host_event_records s" for n
    by (simp add: insert_publication_def)
  with 2 show ?case by (auto simp: Let_def split: option.split)
qed simp

lemma enqueue_hist: "hist (snd (enqueue_host_event_publications_locked env pubs s)) = hist s"
  by (rule hist_only(3) [OF enqueue_outbox_only])
     (simp add: enqueue_host_event_publications_locked_def split: result.split)

lemma publish_hist: "hist (snd (publish_authoritative env i runs s)) = hist s"
proof (rule hist_only(3) [OF publish_outbox_only])
  have "si_host_event_records (snd (enqueue_host_event_publications_locked env pubs s))
      = si_host_event_records s" for pubs
    using enqueue_hist [of env pubs s] by (simp add: hist_def)
  then show "si_host_event_records (snd (publish_authoritative env i runs s)) = si_host_event_records s"
    by (simp add: publish_authoritative_def op_bind_def op_lift_def split: result.split)
qed

lemma hist_updates [simp]:
  "hist (s\<lparr>si_sessions := a\<rparr>) = hist s" "hist (s\<lparr>si_runs := b\<rparr>) = hist s"
  "hist (s\<lparr>si_hitl_resume_claims := c\<rparr>) = hist s"
  "hist (s\<lparr>si_session_idempotency := d\<rparr>) = hist s" "hist (s\<lparr>si_run_admissions := e\<rparr>) = hist s"
  "hist (session_modify sid f s) = hist s"
  by (simp_all add: hist_def)

interpretation hist_cleanup: lease_cleanup "\<lambda>s. hist s = H" for H
proof
  show "keeps (\<lambda>s. hist s = H) (terminalize_started_hitl_source_locked r t)" for r t
    by (simp add: keeps_def hist_only(1) [OF terminalize_records_only])
  show "keeps (\<lambda>s. hist s = H) (cancel_admitted_run lease t eff)" for lease t eff
    by (simp add: keeps_def hist_only(1) [OF cancel_admitted_records_only])
  show "keeps (\<lambda>s. hist s = H) (publish_authoritative env i runs)" for env i runs
    by (simp add: keeps_def publish_hist)
  show "keeps (\<lambda>s. hist s = H) (reconcile_run_control_intents_locked lease t)" for lease t
    by (simp add: keeps_def hist_only(2) [OF reconcile_control_only])
  show "keeps (\<lambda>s. hist s = H) (apply_run_status_locked sid rid st pv er t)" for sid rid st pv er t
    by (simp add: keeps_def hist_only(1) [OF apply_run_status_records_only])
qed simp_all

text \<open>The operations other than acquisition and materialization leave history as it is.\<close>

lemma keeps_hist: "keeps (\<lambda>s. hist s = hist s0) f \<Longrightarrow> hist (snd (f s0)) = hist s0"
  by (simp add: keeps_def)

lemma hist_finalize:
  "hist (snd (finalize_run_admission env t0 t1 t2 lease terminal s)) = hist s"
  "hist (snd (reconcile_expired_run_admissions env ns now s)) = hist s"
  by (rule keeps_hist; rule hist_cleanup.keeps_finalize hist_cleanup.keeps_reconcile_expired)+

lemma hist_record_ops:
  "hist (snd (append_run_record now run s)) = hist s"
  "hist (snd (set_run_status now sid rid st pv er s)) = hist s"
  "hist (snd (set_legacy_run_status now sid rid st pv s)) = hist s"
  "hist (snd (save_session_record now r s)) = hist s"
  "hist (snd (set_session_status now sid sst s)) = hist s"
  "hist (snd (save_context_state_snapshot now sid state s)) = hist s"
  "hist (snd (save_environment_state_ref now sid est s)) = hist s"
  by (auto simp: append_run_record_def set_run_status_def set_legacy_run_status_def
      update_run_record_def save_session_record_def set_session_status_def
      save_context_state_snapshot_def save_environment_state_ref_def session_touch_def Let_def
      insert_prepared_run_record_def hist_def split: option.split result.split)

lemma hist_session_fresh:
  "hist (snd (create_session_fresh r key fp time s)) = hist s"
  "hist (snd (update_session_fresh cmd session fp time s)) = hist s"
  "hist (snd (tombstone_staged now t sid fid pubs session s)) = hist s"
  by (auto simp: create_session_fresh_def update_session_fresh_def tombstone_staged_def Let_def hist_def
      split: result.split session_deletion_fence.split)

lemma keeps_hist_staged: "keeps (\<lambda>s. hist s = H) f \<Longrightarrow> keeps (\<lambda>s. hist s = H) (staged f)"
  by (rule keeps_staged_core_inv)

lemma keeps_hist_enqueue: "keeps (\<lambda>s. hist s = H) (enqueue_host_event_publications_locked env pubs)"
  by (simp add: keeps_def enqueue_hist)

lemma hist_session_ops:
  "hist (snd (create_session_idempotent now r key fp s)) = hist s"
  "hist (snd (update_managed_session now cmd fp s)) = hist s"
  "hist (snd (acquire_session_deletion_fence now t1 t2 sid ex fid who key fp s)) = hist s"
  "hist (snd (tombstone_session now t1 t2 sid fid s)) = hist s"
proof -
  show "hist (snd (create_session_idempotent now r key fp s)) = hist s"
    by (auto simp: create_session_idempotent_def hist_session_fresh split: option.split)
  show "hist (snd (update_managed_session now cmd fp s)) = hist s"
    by (auto simp: update_managed_session_def hist_session_fresh split: option.split)
  show "hist (snd (acquire_session_deletion_fence now t1 t2 sid ex fid who key fp s)) = hist s"
    by (auto simp: acquire_session_deletion_fence_def Let_def hist_def split: option.split)
  show "hist (snd (tombstone_session now t1 t2 sid fid s)) = hist s"
    by (auto simp: tombstone_session_def Let_def split: option.split result.split session_deletion_fence.split)
qed

lemma hist_event_ops:
  "hist (snd (create_session_idempotent_with_host_events env now r key fp pubs s)) = hist s"
  "hist (snd (update_managed_session_with_host_events env now cmd fp pubs s)) = hist s"
  "hist (snd (enqueue_host_event_publication_batch env pubs s)) = hist s"
proof -
  have enq: "keeps (\<lambda>s. hist s = H) (op_bind (enqueue_host_event_publications_locked env pubs)
      (\<lambda>_. op_lift (Ok r)))" for H and r :: session_record
    by (simp add: keeps_op_bind keeps_hist_enqueue)
  show "hist (snd (create_session_idempotent_with_host_events env now r key fp pubs s)) = hist s"
    unfolding create_session_idempotent_with_host_events_def
    by (rule keeps_hist, rule keeps_hist_staged, rule keeps_op_bind [OF _ enq])
       (auto simp: keeps_def hist_session_fresh split: option.split)
  show "hist (snd (update_managed_session_with_host_events env now cmd fp pubs s)) = hist s"
    unfolding update_managed_session_with_host_events_def
    by (rule keeps_hist, rule keeps_hist_staged, rule keeps_op_bind [OF _ enq])
       (auto simp: keeps_def hist_session_fresh split: option.split)
  show "hist (snd (enqueue_host_event_publication_batch env pubs s)) = hist s"
    unfolding enqueue_host_event_publication_batch_def
    by (rule keeps_hist, rule keeps_hist_staged, rule keeps_hist_enqueue)
qed

lemma hist_tombstone_events:
  "hist (snd (tombstone_session_idempotent_with_host_events env now t1 sid fid key fp pubs s)) = hist s"
  unfolding tombstone_session_idempotent_with_host_events_def
proof (rule keeps_hist, rule keeps_stagedI, goal_cases)
  case (1 s' x s'')
  then obtain session rs s1 result y where
    ts: "tombstone_staged now t1 sid fid pubs session s' = (Ok y, s1)"
    and enq: "op_bind (enqueue_host_event_publications_locked env pubs) (\<lambda>_. op_lift (Ok result))
        (s1\<lparr>si_session_idempotency := rs\<rparr>) = (Ok x, s'')"
    by (auto simp: op_bind_Ok Let_def split: option.splits if_splits)
  have "hist s1 = hist s'" using hist_session_fresh(3) ts by (metis snd_conv)
  moreover from enq obtain z where
    "enqueue_host_event_publications_locked env pubs (s1\<lparr>si_session_idempotency := rs\<rparr>) = (z, s'')"
    by (auto simp: op_bind_Ok)
  then have "hist s'' = hist s1" using enqueue_hist by (metis hist_updates(4) snd_conv)
  ultimately show ?case using 1 by simp
qed

lemma hist_lease_ops:
  "hist (snd (heartbeat_run_admission t1 t2 lease e s)) = hist s"
  "hist (snd (release_run_admission now lease s)) = hist s"
  "hist (snd (update_run_status_fenced t1 t2 lease st pv s)) = hist s"
proof -
  show "hist (snd (heartbeat_run_admission t1 t2 lease e s)) = hist s"
    by (simp add: heartbeat_run_admission_def Let_def split: option.split)
  show "hist (snd (release_run_admission now lease s)) = hist s"
    by (simp add: release_run_admission_def split: option.split)
  show "hist (snd (update_run_status_fenced t1 t2 lease st pv s)) = hist s"
    by (simp add: update_run_status_fenced_def op_bind_def op_lift_def
        hist_only(1) [OF apply_run_status_records_only] split: result.split)
qed

lemma hist_claim_ops:
  "hist (snd (claim_hitl_resume c s)) = hist s"
  "hist (snd (start_hitl_resume_effect now lease src cid s)) = hist s"
  "hist (snd (mark_hitl_resume_started sid rid cid s)) = hist s"
  "hist (snd (release_hitl_resume_claim sid rid cid s)) = hist s"
  "hist (snd (abort_admitted_hitl_resume t1 t2 lease src cid pvw s)) = hist s"
proof -
  have claims: "hist x = hist s" if "\<exists>c. x = s\<lparr>si_hitl_resume_claims := c\<rparr>" for x
    using that by auto
  show "hist (snd (claim_hitl_resume c s)) = hist s" by (rule claims) (rule claim_ops_claims_only)
  show "hist (snd (start_hitl_resume_effect now lease src cid s)) = hist s"
    by (rule claims) (rule claim_ops_claims_only)
  show "hist (snd (mark_hitl_resume_started sid rid cid s)) = hist s"
    by (rule claims) (rule claim_ops_claims_only)
  show "hist (snd (release_hitl_resume_claim sid rid cid s)) = hist s"
    by (rule claims) (rule claim_ops_claims_only)
  show "hist (snd (abort_admitted_hitl_resume t1 t2 lease src cid pvw s)) = hist s"
    using abort_state [of t1 t2 lease src cid pvw s] hist_only(1) [OF apply_run_status_records_only]
    by auto
qed

lemma hist_control_ops:
  "hist (snd (admit_run_control now req s)) = hist s"
  "hist (snd (advance_run_control_intent now lease op ex nxt t s)) = hist s"
  "hist (snd (reconcile_run_control_intent target op t s)) = hist s"
  "hist (snd (reserve_control_receipt r s)) = hist s"
  "hist (snd (update_control_receipt_state rid st s)) = hist s"
  by (rule hist_only(2), rule control_ops_control_only)+

lemmas hist_ops = hist_finalize hist_record_ops hist_session_ops hist_event_ops hist_tombstone_events
  hist_lease_ops hist_claim_ops hist_control_ops

lemma acquire_history: "history_extends s (snd (acquire_run_admission now req s))"
proof (cases "acquire_run_admission now req s")
  case (Pair r s')
  show ?thesis
  proof (cases r)
    case (Ok rc)
    with Pair have "acquire_run_admission_locked now req s = (Ok rc, s')"
      by (simp add: acquire_run_admission_def staged_Ok)
    then show ?thesis
    proof (cases rule: acquire_locked_Ok_cases)
      case (replay r0)
      then show ?thesis by (simp add: Pair history_extends_same)
    next
      case (fresh s1 key run s2)
      have "hist s1 = hist s" using hist_cleanup.keeps_displace [OF refl fresh(2)] by simp
      moreover obtain c where "s2 = s1\<lparr>si_hitl_resume_claims := c\<rparr>"
        using admit_claim_eq [OF fresh(6)] by blast
      ultimately have h: "hist s2 = hist s" by simp
      have "g \<le> next_generation t s2" if "map_of (si_admission_generations s2) t = Some g" for t g
        using that by (rule next_generation_grows)
      with fresh(1,7) h have "history_extends s s'"
        by (auto simp: commit_admission_def Let_def hist_def history_extends_def
            insert_prepared_run_record_def split: option.splits)
      then show ?thesis by (simp add: Pair)
    qed
  next
    case (Err e)
    with Pair have "s' = s" unfolding acquire_run_admission_def by (metis is_ok_simps(2) staged_not_Ok)
    then show ?thesis by (simp add: Pair history_extends_same)
  next
    case Panic
    with Pair have "s' = s" unfolding acquire_run_admission_def by (metis is_ok_simps(3) staged_not_Ok)
    then show ?thesis by (simp add: Pair history_extends_same)
  qed
qed

lemma materialize_pending_records:
  assumes "outbox_inv s" and "\<forall>p \<in> set ps. map_of (si_host_event_outbox s) (pub_publication_key p) = Some p"
    and "distinct (map pub_publication_key ps)"
  shows "prefix (si_host_event_records s) (si_host_event_records (snd (materialize_pending ps acc s)))"
  using assms
proof (induction ps arbitrary: acc s)
  case (Cons p ps)
  have pend: "map_of (si_host_event_outbox s) (pub_publication_key p) = Some p"
    using Cons.prems(2) by simp
  have fresh: "map_of (si_host_event_positions s) (pub_publication_key p) = None"
    using Cons.prems(1) pend by (auto simp: outbox_inv_def identity_inv_def)
  show ?case
  proof (cases "next_host_event_number (si_last_host_event_position s)")
    case None
    with fresh show ?thesis by simp
  next
    case (Some pos)
    have inv': "outbox_inv (materialize_new pos p s)"
      using Cons.prems(1) Some pend by (rule outbox_inv_materialize_new)
    have "\<forall>q \<in> set ps. map_of (si_host_event_outbox (materialize_new pos p s))
        (pub_publication_key q) = Some q"
    proof
      fix q
      assume q: "q \<in> set ps"
      then have "map_of (si_host_event_outbox s) (pub_publication_key q) = Some q"
        using Cons.prems(2) by (blast intro: list.set_intros(2))
      moreover have "pub_publication_key q \<noteq> pub_publication_key p"
        using Cons.prems(3) q by (metis distinct.simps(2) image_eqI list.map(2) list.set_map)
      ultimately show "map_of (si_host_event_outbox (materialize_new pos p s))
          (pub_publication_key q) = Some q" by simp
    qed
    from Cons.IH [OF inv' this] Cons.prems(3)
    have "prefix (si_host_event_records (materialize_new pos p s))
        (si_host_event_records (snd (materialize_pending ps (acc @ [host_event_from_pending pos p])
           (materialize_new pos p s))))" by simp
    moreover have "prefix (si_host_event_records s) (si_host_event_records (materialize_new pos p s))"
      using Cons.prems(1) Some by (simp add: materialize_new_records outbox_inv_def)
    ultimately show ?thesis
      using Some fresh by (simp add: prefix_order.trans)
  qed
qed simp

lemma materialize_history:
  assumes "outbox_inv s"
  shows "history_extends s (snd (materialize_host_event_publication_batch limit s))"
proof -
  obtain ps where ps: "pending_in_order s (unat limit) = Ok ps"
      "map pub_publication_key ps = take (unat limit) (bt_values (si_host_event_outbox_order s))"
      "\<forall>p \<in> set ps. map_of (si_host_event_outbox s) (pub_publication_key p) = Some p"
    using pending_in_order_ok [OF assms, of "unat limit"] by blast
  have "distinct (map pub_publication_key ps)"
    unfolding ps(2) using assms by (simp add: outbox_inv_def queue_inv_distinct distinct_take)
  note P = materialize_pending_records [OF assms ps(3) this, of "[]"]
  have "prefix (si_host_event_records s) (si_host_event_records (snd (staged (materialize_pending ps []) s)))"
    using P by (auto simp: staged_def split: prod.split result.split)
  with ps(1) have "prefix (si_host_event_records s)
      (si_host_event_records (snd (materialize_host_event_publication_batch limit s)))"
    by (simp add: materialize_host_event_publication_batch_def split: result.split)
  then show ?thesis
    by (simp add: history_extends_def outbox_onlyD [OF materialize_batch_outbox_only])
qed

section \<open>Background operations beside the rest\<close>

text \<open>
  The background operations write only their own tables, so they keep the invariant of the other
  ones; the other operations leave the background tables alone.
\<close>

lemma background_only_core:
  assumes only: "background_only s s'" and inv: "core_inv s"
  shows "core_inv s'"
proof -
  note D = background_onlyD [OF only]
  have "outbox_inv s' = outbox_inv s" by (rule outbox_inv_frame) (simp_all add: D)
  with inv show ?thesis
    by (simp add: core_inv_def admission_inv_def record_inv_def control_inv_def claim_inv_def D)
qed

lemma background_op_core:
  assumes "background_operation f" and "background_inv s" and "core_inv s"
  shows "core_inv (snd (f s))"
  using background_only_core background_operation.frame [OF assms(1,2)] assms(3) by blast

lemma acquire_continuation_core:
  assumes inv: "core_inv s"
  shows "core_inv (snd (acquire_background_subagent_continuation benv now t1 t2 req s))"
proof (cases "acquire_background_subagent_continuation benv now t1 t2 req s")
  case (Pair x s')
  then have "core_inv s'"
  proof (cases rule: acquire_continuation_cases)
    case (admitted r adm s1)
    have "acquire_run_admission t1 (acr_admission req) s = (Ok adm, s1)"
      using admitted(4) by (simp add: acquire_run_admission_def staged_Ok)
    then have "core_inv s1" using keepsD [OF acquire_core_inv inv] by (metis snd_conv)
    moreover have "background_only s1 s'" by (simp add: admitted(7))
    ultimately show ?thesis using background_only_core by blast
  qed (use inv in simp_all)
  with Pair show ?thesis by simp
qed

lemmas background_ops_core =
  background_op_core [OF bg_accept.background_operation_axioms]
  background_op_core [OF bg_update.background_operation_axioms]
  background_op_core [OF bg_heartbeat.background_operation_axioms]
  background_op_core [OF bg_commit.background_operation_axioms]
  background_op_core [OF bg_expire.background_operation_axioms]
  background_op_core [OF bg_claim.background_operation_axioms]
  background_op_core [OF bg_acknowledge.background_operation_axioms]
  background_op_core [OF bg_release.background_operation_axioms]
  background_op_core [OF bg_reconcile.background_operation_axioms]

lemma acquire_continuation_inv:
  "background_inv s \<Longrightarrow>
     background_inv (snd (acquire_background_subagent_continuation benv now t1 t2 req s))
     \<and> attempts_evolve s (snd (acquire_background_subagent_continuation benv now t1 t2 req s))"
  by (rule acquire_continuation_keeps [OF _ prod.collapse [symmetric]])

lemmas background_ops_inv = bg_accept.inv bg_update.inv bg_heartbeat.inv bg_commit.inv bg_expire.inv
  bg_claim.inv bg_acknowledge.inv bg_release.inv bg_reconcile.inv
  acquire_continuation_inv [THEN conjunct1]

lemmas background_ops_evolve = bg_accept.evolves bg_update.evolves bg_heartbeat.evolves
  bg_commit.evolves bg_expire.evolves bg_claim.evolves bg_acknowledge.evolves bg_release.evolves
  bg_reconcile.evolves acquire_continuation_inv [THEN conjunct2]

lemma background_only_history: "background_only s s' \<Longrightarrow> history_extends s s'"
  by (simp add: history_extends_def background_onlyD)

lemma background_op_history:
  "background_operation f \<Longrightarrow> background_inv s \<Longrightarrow> history_extends s (snd (f s))"
  by (rule background_only_history) (rule background_operation.frame)

lemma acquire_continuation_history:
  "history_extends s (snd (acquire_background_subagent_continuation benv now t1 t2 req s))"
proof (cases "acquire_background_subagent_continuation benv now t1 t2 req s")
  case (Pair x s')
  then have "history_extends s s'"
  proof (cases rule: acquire_continuation_cases)
    case (admitted r adm s1)
    have "snd (acquire_run_admission t1 (acr_admission req) s) = s1"
      using admitted(4) by (simp add: acquire_run_admission_def staged_def)
    then have "history_extends s s1" using acquire_history by metis
    moreover have "history_extends s1 s'" by (rule background_only_history) (simp add: admitted(7))
    ultimately show ?thesis by (rule history_extends_trans)
  qed (simp_all add: history_extends_same)
  with Pair show ?thesis by simp
qed

lemmas background_ops_history =
  background_op_history [OF bg_accept.background_operation_axioms]
  background_op_history [OF bg_update.background_operation_axioms]
  background_op_history [OF bg_heartbeat.background_operation_axioms]
  background_op_history [OF bg_commit.background_operation_axioms]
  background_op_history [OF bg_expire.background_operation_axioms]
  background_op_history [OF bg_claim.background_operation_axioms]
  background_op_history [OF bg_acknowledge.background_operation_axioms]
  background_op_history [OF bg_release.background_operation_axioms]
  background_op_history [OF bg_reconcile.background_operation_axioms]

end
