(* ===== verification/Store_Machine.thy ===== *)
theory Store_Machine
  imports Store_Core
begin

text \<open>
  The store as a transition system. Every operation of the modelled part of the \<open>SessionStore\<close>
  trait is one step, in any order and with any arguments, including the ones that fail; the
  conjunction of the component invariants holds in every reachable state.
\<close>

section \<open>The store invariant\<close>

definition store_inv :: "store_inner \<Rightarrow> bool" where
  "store_inv s \<longleftrightarrow> core_inv s \<and> background_inv s"

lemma store_invD:
  assumes "store_inv s"
  shows "record_inv s" "admission_inv s" "outbox_inv s" "control_inv s" "claim_inv s" "background_inv s"
    "core_inv s"
  using assms core_invD [of s] by (simp_all add: store_inv_def)

lemma background_inv_hist: "hist s' = hist s \<Longrightarrow> background_inv s \<Longrightarrow> background_inv s'"
  using background_inv_tables [of s' s] by (simp add: hist_def background_tables_def)

lemma acquire_background_inv: "background_inv s \<Longrightarrow> background_inv (snd (acquire_run_admission now req s))"
  using background_inv_tables [OF acquire_background_tables]
  by (auto simp: acquire_run_admission_def staged_def split: prod.split result.split)

lemma materialize_background_inv:
  "background_inv s \<Longrightarrow> background_inv (snd (materialize_host_event_publication_batch limit s))"
  using background_inv_tables [OF background_tables_only(2) [OF materialize_batch_outbox_only]] by blast

lemmas core_op_keeps = append_run_core_inv set_run_status_core_inv set_legacy_status_core_inv
  save_session_core_inv session_field_core_inv create_session_core_inv create_events_core_inv
  update_session_core_inv update_events_core_inv deletion_fence_core_inv tombstone_core_inv
  tombstone_events_core_inv acquire_core_inv heartbeat_core_inv release_core_inv
  update_status_core_inv finalize_core_inv reconcile_expired_core_inv claim_ops_core_inv
  abort_core_inv control_ops_core_inv enqueue_batch_core_inv materialize_core_inv

section \<open>The transition system\<close>

text \<open>One step per operation; the arguments, the clock readings and the outcome are arbitrary.\<close>

inductive store_step :: "host_env \<Rightarrow> background_env \<Rightarrow> store_inner \<Rightarrow> store_inner \<Rightarrow> bool" for env benv where
  append_run: "store_step env benv s (snd (append_run_record now run s))"
| update_run_status: "store_step env benv s (snd (set_run_status now sid rid st pv er s))"
| update_legacy_status: "store_step env benv s (snd (set_legacy_run_status now sid rid st pv s))"
| save_session: "store_step env benv s (snd (save_session_record now r s))"
| update_session_status: "store_step env benv s (snd (set_session_status now sid sst s))"
| save_context_state: "store_step env benv s (snd (save_context_state_snapshot now sid state s))"
| save_environment_state: "store_step env benv s (snd (save_environment_state_ref now sid est s))"
| create_session: "store_step env benv s (snd (create_session_idempotent now r key fp s))"
| create_session_events:
    "store_step env benv s (snd (create_session_idempotent_with_host_events env now r key fp pubs s))"
| update_session: "store_step env benv s (snd (update_managed_session now cmd fp s))"
| update_session_events:
    "store_step env benv s (snd (update_managed_session_with_host_events env now cmd fp pubs s))"
| deletion_fence:
    "store_step env benv s (snd (acquire_session_deletion_fence now t1 t2 sid ex fid who key fp s))"
| tombstone: "store_step env benv s (snd (tombstone_session now t1 t2 sid fid s))"
| tombstone_events:
    "store_step env benv s
       (snd (tombstone_session_idempotent_with_host_events env now t1 sid fid key fp pubs s))"
| acquire: "store_step env benv s (snd (acquire_run_admission now req s))"
| heartbeat: "store_step env benv s (snd (heartbeat_run_admission t1 t2 lease e s))"
| release: "store_step env benv s (snd (release_run_admission now lease s))"
| fenced_status: "store_step env benv s (snd (update_run_status_fenced t1 t2 lease st pv s))"
| finalize: "store_step env benv s (snd (finalize_run_admission env t0 t1 t2 lease terminal s))"
| reconcile_expired: "store_step env benv s (snd (reconcile_expired_run_admissions env ns now s))"
| claim: "store_step env benv s (snd (claim_hitl_resume c s))"
| start_effect: "store_step env benv s (snd (start_hitl_resume_effect now lease src cid s))"
| abort_effect: "store_step env benv s (snd (abort_admitted_hitl_resume t1 t2 lease src cid pvw s))"
| mark_started: "store_step env benv s (snd (mark_hitl_resume_started sid rid cid s))"
| release_claim: "store_step env benv s (snd (release_hitl_resume_claim sid rid cid s))"
| admit_control: "store_step env benv s (snd (admit_run_control now creq s))"
| advance_control: "store_step env benv s (snd (advance_run_control_intent now lease op exs nxt t s))"
| reconcile_control: "store_step env benv s (snd (reconcile_run_control_intent target op t s))"
| reserve_receipt: "store_step env benv s (snd (reserve_control_receipt rc s))"
| update_receipt: "store_step env benv s (snd (update_control_receipt_state rcid rst s))"
| enqueue: "store_step env benv s (snd (enqueue_host_event_publication_batch env pubs s))"
| materialize: "store_step env benv s (snd (materialize_host_event_publication_batch limit s))"
| bg_accept: "store_step env benv s (snd (record_background_subagent_acceptance now b s))"
| bg_update: "store_step env benv s (snd (update_background_subagent_execution now b s))"
| bg_heartbeat: "store_step env benv s (snd (heartbeat_background_subagent now k h g e s))"
| bg_commit: "store_step env benv s (snd (commit_background_terminal benv now b art lim s))"
| bg_expire: "store_step env benv s (snd (expire_background_subagent_retention benv ns now limit s))"
| bg_claim: "store_step env benv s (snd (claim_background_subagent_delivery now k bc s))"
| bg_acknowledge: "store_step env benv s (snd (acknowledge_background_subagent_delivery now k cid s))"
| bg_release: "store_step env benv s (snd (release_background_subagent_delivery now k cid rel s))"
| bg_continue:
    "store_step env benv s (snd (acquire_background_subagent_continuation benv now t1 t2 acr s))"
| bg_reconcile: "store_step env benv s (snd (reconcile_background_subagents benv ns now s))"

text \<open>An invariant that the initial state has and every step keeps holds in every reachable state.\<close>

locale guarded_machine =
  fixes init :: 's and step :: "'s \<Rightarrow> 's \<Rightarrow> bool" and inv :: "'s \<Rightarrow> bool"
  assumes init_inv: "inv init"
    and step_inv: "inv s \<Longrightarrow> step s s' \<Longrightarrow> inv s'"
begin

lemma steps_inv: "step\<^sup>*\<^sup>* s s' \<Longrightarrow> inv s \<Longrightarrow> inv s'"
  by (induction rule: rtranclp_induct) (auto intro: step_inv)

lemma reachable_inv: "step\<^sup>*\<^sup>* init s \<Longrightarrow> inv s"
  using steps_inv init_inv by blast

end

interpretation store: guarded_machine store_new "store_step env benv" store_inv for env benv
proof
  show "store_inv store_new" by (simp add: store_inv_def core_inv_new background_inv_new)
  fix s s'
  assume inv: "store_inv s" and step: "store_step env benv s s'"
  note core = store_invD(7) [OF inv] and bg = store_invD(6) [OF inv]
  from step have "core_inv s'"
    by cases (simp_all only: core_op_keeps [THEN keepsD, OF core] background_ops_core [OF bg core]
        acquire_continuation_core [OF core])
  moreover from step have "background_inv s'"
    by cases (simp_all only: hist_ops [THEN background_inv_hist, OF bg] acquire_background_inv [OF bg]
        materialize_background_inv [OF bg] background_ops_inv [OF bg])
  ultimately show "store_inv s'" by (simp add: store_inv_def)
qed

section \<open>History of executions\<close>

lemma step_history:
  assumes inv: "store_inv s" and step: "store_step env benv s s'"
  shows "history_extends s s'"
  using step
  by cases (simp_all only: hist_ops [THEN history_extends_same] acquire_history
      materialize_history [OF store_invD(3) [OF inv]] background_ops_history [OF store_invD(6) [OF inv]]
      acquire_continuation_history)

text \<open>
  The attempts over an execution: an attempt never disappears, keeps its identity, and once its
  evidence is committed or its result delivered, both stay; a fingerprint never changes.
\<close>

definition attempts_kept :: "store_inner \<Rightarrow> store_inner \<Rightarrow> bool" where
  "attempts_kept s s' \<longleftrightarrow>
     (\<forall>k r. map_of (si_background_subagents s) k = Some r \<longrightarrow>
        (\<exists>r'. map_of (si_background_subagents s') k = Some r' \<and> attempt_kept r r'))
     \<and> (\<forall>k fp. map_of (si_background_terminal_fingerprints s) k = Some fp \<longrightarrow>
        map_of (si_background_terminal_fingerprints s') k = Some fp)"

lemma attempts_kept_trans: "attempts_kept a b \<Longrightarrow> attempts_kept b c \<Longrightarrow> attempts_kept a c"
  unfolding attempts_kept_def by (meson attempt_kept_trans)

lemma attempts_evolve_tables: "background_tables s' = background_tables s \<Longrightarrow> attempts_evolve s s'"
  by (simp add: background_tables_def attempts_evolve_def)

lemma attempts_evolve_hist: "hist s' = hist s \<Longrightarrow> attempts_evolve s s'"
  by (rule attempts_evolve_tables) (simp add: hist_def background_tables_def)

lemma acquire_evolve: "attempts_evolve s (snd (acquire_run_admission now req s))"
  using attempts_evolve_tables [OF acquire_background_tables]
  by (auto simp: acquire_run_admission_def staged_def split: prod.split result.split)

lemma step_attempts:
  assumes inv: "store_inv s" and step: "store_step env benv s s'"
  shows "attempts_evolve s s'"
  using step
  by cases (simp_all only: hist_ops [THEN attempts_evolve_hist] acquire_evolve
      attempts_evolve_tables [OF background_tables_only(2) [OF materialize_batch_outbox_only]]
      background_ops_evolve [OF store_invD(6) [OF inv]])

lemma steps_attempts:
  assumes "(store_step env benv)\<^sup>*\<^sup>* s s'" and "store_inv s"
  shows "attempts_kept s s'"
  using assms(1)
proof (induction rule: rtranclp_induct)
  case base
  show ?case by (simp add: attempts_kept_def)
next
  case (step t u)
  have "store_inv t" using step.hyps(1) assms(2) by (rule store.steps_inv)
  then have "attempts_evolve t u" using step.hyps(2) by (rule step_attempts)
  then have "attempts_kept t u"
    unfolding attempts_evolve_def attempts_kept_def attempt_evolves_def by blast
  with step.IH show ?case by (rule attempts_kept_trans)
qed

lemma steps_history:
  assumes "(store_step env benv)\<^sup>*\<^sup>* s s'" and "store_inv s"
  shows "history_extends s s'"
  using assms(1)
proof (induction rule: rtranclp_induct)
  case base
  show ?case by (simp add: history_extends_same)
next
  case (step t u)
  have "store_inv t" using step.hyps(1) assms(2) by (rule store.steps_inv)
  then have "history_extends t u" using step.hyps(2) by (rule step_history)
  with step.IH show ?case by (rule history_extends_trans)
qed

text \<open>What an acquisition left behind outlives any later execution.\<close>

lemma generation_outlived:
  assumes inv: "store_inv s" and acq: "acquire_run_admission now req s = (Ok rc, s1)"
    and fresh: "\<not> rar_idempotent_replay rc" and later: "(store_step env benv)\<^sup>*\<^sup>* s1 s2"
    and g: "map_of (si_admission_generations s) (acquire_target req) = Some g" "g \<noteq> - 1"
    and cur: "map_of (si_run_admissions s2) (acquire_target req) = Some cur"
  shows "g < lease_fencing_generation cur"
proof -
  have inv1: "store_inv s1"
    using store.step_inv [OF inv store_step.acquire, of now req] acq by simp
  then have inv2: "store_inv s2" by (rule store.steps_inv [OF later])
  have grant: "admission_granted req s rc s1"
    using acquire_fresh [OF store_invD(2) [OF inv] acq fresh] by blast
  have adm: "admissions_ok (si_run_admissions t) (si_admission_generations t) (si_runs t)"
    if "store_inv t" for t
    using store_invD(2) [OF that] by (simp add: admission_inv_def)
  have "map_of (si_admission_generations s1) (acquire_target req)
      = Some (lease_fencing_generation (rar_lease rc))"
    using adm [OF inv1] grant by (auto simp: admissions_ok_def admission_granted_def)
  then obtain g2 where g2: "map_of (si_admission_generations s2) (acquire_target req) = Some g2"
      "lease_fencing_generation (rar_lease rc) \<le> g2"
    using steps_history [OF later inv1] unfolding history_extends_def by blast
  have "g2 = lease_fencing_generation cur"
    using adm [OF inv2] cur g2(1) by (auto simp: admissions_ok_def)
  moreover have "g < lease_fencing_generation (rar_lease rc)"
    using grant g by (simp add: admission_granted_def)
  ultimately show ?thesis using g2(2) by simp
qed

lemma receipt_outlives:
  assumes inv: "store_inv s" and acq: "acquire_run_admission now req s = (Ok rc, s1)"
    and later: "(store_step env benv)\<^sup>*\<^sup>* s1 s2"
  shows "acquire_run_admission now' req s2 = (Ok (rc\<lparr>rar_idempotent_replay := True\<rparr>), s2)"
proof -
  have inv1: "store_inv s1"
    using store.step_inv [OF inv store_step.acquire, of now req] acq by simp
  have "\<exists>r0. map_of (si_run_admission_idempotency s1) (acq_namespace_id req, acq_idempotency_key req)
      = Some (acq_command_fingerprint req, r0) \<and> (rc = r0 \<or> rc = r0\<lparr>rar_idempotent_replay := True\<rparr>)"
    using run_admission.receipt_after [where req = req and fp = "acq_command_fingerprint req"] acq by simp
  then obtain r0 where
    "map_of (si_run_admission_idempotency s2) (acq_namespace_id req, acq_idempotency_key req)
      = Some (acq_command_fingerprint req, r0)" "rc = r0 \<or> rc = r0\<lparr>rar_idempotent_replay := True\<rparr>"
    using steps_history [OF later inv1] unfolding history_extends_def by blast
  then show ?thesis by (auto simp: acquire_replay)
qed

end
