(* ===== verification/Scenario.thy ===== *)
theory Scenario
  imports Store_Machine
begin

text \<open>
  One execution of the store, from creation to recovery, as concrete states: a session is created,
  host A admits a run and parks it as waiting, the run is claimed for a continuation, host B admits
  the continuation, starts its effect and is lost, and the expired lease is recovered. Side
  branches admit a control intent and finalize the first run, and fill the event outbox.
  The states are computed by the operations of the model; the lemmas say that they are reachable.
  They are the concrete inputs at which the properties of the root theory are applied.
\<close>

section \<open>Inputs\<close>

definition sample_env :: host_env where
  "sample_env = \<lparr>env_sha256_hex = (\<lambda>b. b), env_time_text = (\<lambda>t. ''1970-01-01T00:00:00Z'')\<rparr>"

definition sample_benv :: background_env where
  "sample_benv = \<lparr>bge_sha256_hex = (\<lambda>x. x), bge_input_json = concat \<circ> map (\<lambda>_. ''part''),
     bge_commit_json = ctc_attempt_id\<rparr>"

definition sample_session :: session_record where
  "sample_session = session_record_new 1 JNull JNull ''s''"

definition sample_run :: "run_id \<Rightarrow> run_record" where
  "sample_run rid = run_record_new 2 JNull ''s'' rid ''c''"

definition sample_request :: "string \<Rightarrow> run_id \<Rightarrow> datetime \<Rightarrow> acquire_run_admission_req" where
  "sample_request host rid expires =
     \<lparr>acq_run = sample_run rid, acq_namespace_id = ''local'', acq_host_instance_id = host,
      acq_admission_id = ''adm-'' @ rid, acq_lease_expires_at = expires,
      acq_idempotency_key = ''admit-'' @ rid, acq_command_fingerprint = ''fp-'' @ rid,
      acq_replaces_waiting_run_id = None, acq_hitl_resume_claim_id = None\<rparr>"

definition resume_request :: acquire_run_admission_req where
  "resume_request = (sample_request ''hostB'' ''r2'' 60)
     \<lparr>acq_run := (sample_run ''r2'')\<lparr>rr_restore_from_run_id := Some ''r1''\<rparr>,
      acq_replaces_waiting_run_id := Some ''r1'', acq_hitl_resume_claim_id := Some ''claim''\<rparr>"

definition sample_lease :: "string \<Rightarrow> run_id \<Rightarrow> u64 \<Rightarrow> datetime \<Rightarrow> datetime \<Rightarrow> run_admission_lease" where
  "sample_lease host rid generation expires heartbeat =
     \<lparr>lease_target = managed_run_target_new ''local'' ''s'' rid,
      lease_admission_id = ''adm-'' @ rid, lease_host_instance_id = host,
      lease_fencing_generation = generation, lease_lease_expires_at = expires,
      lease_heartbeat_at = heartbeat,
      lease_command_fingerprint = ''fp-'' @ rid, lease_idempotency_key = ''admit-'' @ rid\<rparr>"

definition lease_a :: run_admission_lease where
  "lease_a = sample_lease ''hostA'' ''r1'' 1 100 10"

definition lease_b :: run_admission_lease where
  "lease_b = sample_lease ''hostB'' ''r2'' 2 60 30"

definition sample_claim :: hitl_resume_claim where
  "sample_claim = hitl_resume_claim_new ''claim'' ''s'' ''r1'' 21"

definition sample_control :: admit_run_control_req where
  "sample_control =
     \<lparr>arc_lease = lease_a, arc_authority_binding = ''owner'', arc_operation_id = ''op'',
      arc_receipt_id = ''receipt'', arc_idempotency_key = ''steer'', arc_command_fingerprint = ''fp'',
      arc_effect = Steer ''left'', arc_created_at = 12\<rparr>"

definition sample_update :: update_managed_session_cmd where
  "sample_update =
     \<lparr>upd_session_id = ''s'', upd_expected_revision = 1,
      upd_patch = \<lparr>patch_title = Some (Some ''title''), patch_profile = None, patch_archived = None,
                   patch_metadata = []\<rparr>,
      upd_idempotency_key = ''rename''\<rparr>"

definition sample_publication :: "string \<Rightarrow> pending_host_event_publication" where
  "sample_publication identity =
     (case pending_publication_new sample_env identity 0 (ScopeRun ''s'' ''r1'') RunChanged (JObject []) 5
        of Ok p \<Rightarrow> p)"

section \<open>States\<close>

definition s_created :: store_inner where
  "s_created = snd (create_session_idempotent 3 sample_session ''create'' ''fp'' store_new)"

definition s_admitted :: store_inner where
  "s_admitted = snd (acquire_run_admission 10 (sample_request ''hostA'' ''r1'' 100) s_created)"

definition s_parked :: store_inner where
  "s_parked = snd (update_run_status_fenced 20 20 lease_a StWaiting None s_admitted)"

definition s_waiting :: store_inner where
  "s_waiting = snd (release_run_admission 20 lease_a s_parked)"

definition s_claimed :: store_inner where
  "s_claimed = snd (claim_hitl_resume sample_claim s_waiting)"

definition s_resumed :: store_inner where
  "s_resumed = snd (acquire_run_admission 30 resume_request s_claimed)"

definition s_started :: store_inner where
  "s_started = snd (start_hitl_resume_effect 40 lease_b ''r1'' ''claim'' s_resumed)"

definition s_recovered :: store_inner where
  "s_recovered = snd (reconcile_expired_run_admissions sample_env ''local'' 70 s_started)"

definition s_controlled :: store_inner where
  "s_controlled = snd (admit_run_control 12 sample_control s_admitted)"

definition s_finalized :: store_inner where
  "s_finalized = snd (finalize_run_admission sample_env 50 50 50 lease_a (terminal_completed None)
     s_controlled)"

definition s_deleting :: store_inner where
  "s_deleting = snd (acquire_session_deletion_fence 4 4 4 ''s'' 1 ''fence'' ''owner'' ''delete'' ''fp''
     s_created)"

section \<open>The states in normal form\<close>

text \<open>
  Each state as a difference from the one before. The equations are the code equations of the
  states, so that evaluation of a later operation starts from a literal state.
\<close>

definition session_with :: "u64 \<Rightarrow> run_id \<Rightarrow> datetime \<Rightarrow> session_record" where
  "session_with revision rid now = sample_session\<lparr>sr_revision := revision,
     sr_head_run_id := Some rid, sr_active_run_id := Some rid, sr_updated_at := now\<rparr>"

definition admitted_a :: run_record where
  "admitted_a = (sample_run ''r1'')\<lparr>rr_sequence_no := 1, rr_updated_at := 10\<rparr>"

definition parked_a :: run_record where
  "parked_a = admitted_a\<lparr>rr_status := StWaiting, rr_revision := 2, rr_updated_at := 20\<rparr>"

definition admitted_b :: run_record where
  "admitted_b = (sample_run ''r2'')\<lparr>rr_sequence_no := 2, rr_updated_at := 30,
     rr_restore_from_run_id := Some ''r1''\<rparr>"

definition receipt_a :: run_admission_receipt where
  "receipt_a = \<lparr>rar_run = admitted_a, rar_lease = lease_a, rar_idempotent_replay = False\<rparr>"

definition receipt_b :: run_admission_receipt where
  "receipt_b = \<lparr>rar_run = admitted_b, rar_lease = lease_b, rar_idempotent_replay = False\<rparr>"

definition sample_target :: managed_session_target where
  "sample_target = managed_session_target_new ''local'' ''s''"

lemma s_created_eq [code]:
  "s_created = store_new
     \<lparr>si_sessions := [(''s'', sample_session\<lparr>sr_updated_at := 3\<rparr>)],
      si_session_idempotency := [((''local'', ''create''), ''fp'', sample_session\<lparr>sr_updated_at := 3\<rparr>)]\<rparr>"
  by code_simp

lemma s_admitted_Ok:
  "acquire_run_admission 10 (sample_request ''hostA'' ''r1'' 100) s_created = (Ok receipt_a,
     s_created
     \<lparr>si_sessions := [(''s'', session_with 2 ''r1'' 10)],
      si_runs := [((''s'', ''r1''), admitted_a)],
      si_run_sequences := [(''s'', [(1, ''r1'')])],
      si_run_admission_idempotency := [((''local'', ''admit-r1''), ''fp-r1'', receipt_a)],
      si_run_admissions := [(sample_target, lease_a)],
      si_admission_generations := [(sample_target, 1)]\<rparr>)"
  by code_simp

lemmas s_admitted_eq [code] = s_admitted_def [unfolded s_admitted_Ok snd_conv]

lemma s_parked_eq [code]:
  "s_parked = s_admitted
     \<lparr>si_sessions := [(''s'', session_with 3 ''r1'' 20)],
      si_runs := [((''s'', ''r1''), parked_a)]\<rparr>"
  by code_simp

lemma s_waiting_eq [code]: "s_waiting = s_parked\<lparr>si_run_admissions := []\<rparr>"
  by code_simp

lemma s_claimed_eq [code]:
  "s_claimed = s_waiting\<lparr>si_hitl_resume_claims := [((''s'', ''r1''), sample_claim)]\<rparr>"
  by code_simp

lemma s_resumed_Ok:
  "acquire_run_admission 30 resume_request s_claimed = (Ok receipt_b,
     s_claimed
     \<lparr>si_sessions := [(''s'', session_with 4 ''r2'' 30)],
      si_runs := [((''s'', ''r1''), parked_a), ((''s'', ''r2''), admitted_b)],
      si_run_sequences := [(''s'', [(1, ''r1''), (2, ''r2'')])],
      si_hitl_resume_claims := [((''s'', ''r1''), sample_claim\<lparr>claim_state := Admitted\<rparr>)],
      si_run_admission_idempotency := [((''local'', ''admit-r1''), ''fp-r1'', receipt_a),
        ((''local'', ''admit-r2''), ''fp-r2'', receipt_b)],
      si_run_admissions := [(sample_target, lease_b)],
      si_admission_generations := [(sample_target, 2)]\<rparr>)"
  by code_simp

lemmas s_resumed_eq [code] = s_resumed_def [unfolded s_resumed_Ok snd_conv]

lemma s_started_Ok:
  "start_hitl_resume_effect 40 lease_b ''r1'' ''claim'' s_resumed = (Ok (),
     s_resumed\<lparr>si_hitl_resume_claims := [((''s'', ''r1''), sample_claim\<lparr>claim_state := Started\<rparr>)]\<rparr>)"
  by code_simp

lemmas s_started_eq [code] = s_started_def [unfolded s_started_Ok snd_conv]

lemma s_controlled_Ok:
  "admit_run_control 12 sample_control s_admitted = (Ok (into_intent sample_control),
     s_admitted
     \<lparr>si_control_receipts := [(''receipt'', in_receipt (into_intent sample_control))],
      si_control_idempotency := [((lease_target lease_a, ''steer''), ''receipt'')],
      si_run_control_intents := [((lease_target lease_a, ''op''), into_intent sample_control)],
      si_run_control_authority_keys := [((''owner'', ''steer''), lease_target lease_a, ''op'')]\<rparr>)"
  by code_simp

lemmas s_controlled_eq [code] = s_controlled_def [unfolded s_controlled_Ok snd_conv]

text \<open>Reading a result off its evaluation.\<close>

lemma ok_resultE:
  assumes "case fst x of Ok v \<Rightarrow> P v | _ \<Rightarrow> False"
  obtains v where "x = (Ok v, snd x)" "P v"
  using assms by (cases x; cases "fst x") auto

section \<open>Reachability\<close>

lemma reach_created: "(store_step sample_env sample_benv)\<^sup>*\<^sup>* store_new s_created"
  unfolding s_created_def by (rule r_into_rtranclp) (rule store_step.create_session)

lemma reach_admitted: "(store_step sample_env sample_benv)\<^sup>*\<^sup>* store_new s_admitted"
  unfolding s_admitted_def by (rule rtranclp.rtrancl_into_rtrancl [OF reach_created store_step.acquire])

lemma reach_parked: "(store_step sample_env sample_benv)\<^sup>*\<^sup>* store_new s_parked"
  unfolding s_parked_def
  by (rule rtranclp.rtrancl_into_rtrancl [OF reach_admitted store_step.fenced_status])

lemma reach_waiting: "(store_step sample_env sample_benv)\<^sup>*\<^sup>* store_new s_waiting"
  unfolding s_waiting_def by (rule rtranclp.rtrancl_into_rtrancl [OF reach_parked store_step.release])

lemma reach_claimed: "(store_step sample_env sample_benv)\<^sup>*\<^sup>* store_new s_claimed"
  unfolding s_claimed_def by (rule rtranclp.rtrancl_into_rtrancl [OF reach_waiting store_step.claim])

lemma steps_claimed_resumed: "(store_step sample_env sample_benv)\<^sup>*\<^sup>* s_claimed s_resumed"
  unfolding s_resumed_def by (rule r_into_rtranclp) (rule store_step.acquire)

lemma steps_resumed_started: "(store_step sample_env sample_benv)\<^sup>*\<^sup>* s_resumed s_started"
  unfolding s_started_def by (rule r_into_rtranclp) (rule store_step.start_effect)

lemma steps_started_recovered: "(store_step sample_env sample_benv)\<^sup>*\<^sup>* s_started s_recovered"
  unfolding s_recovered_def by (rule r_into_rtranclp) (rule store_step.reconcile_expired)

lemma reach_resumed: "(store_step sample_env sample_benv)\<^sup>*\<^sup>* store_new s_resumed"
  by (rule rtranclp_trans [OF reach_claimed steps_claimed_resumed])

lemma reach_started: "(store_step sample_env sample_benv)\<^sup>*\<^sup>* store_new s_started"
  by (rule rtranclp_trans [OF reach_resumed steps_resumed_started])

lemma reach_recovered: "(store_step sample_env sample_benv)\<^sup>*\<^sup>* store_new s_recovered"
  by (rule rtranclp_trans [OF reach_started steps_started_recovered])

lemma steps_admitted_controlled: "(store_step sample_env sample_benv)\<^sup>*\<^sup>* s_admitted s_controlled"
  unfolding s_controlled_def by (rule r_into_rtranclp) (rule store_step.admit_control)

lemma reach_controlled: "(store_step sample_env sample_benv)\<^sup>*\<^sup>* store_new s_controlled"
  by (rule rtranclp_trans [OF reach_admitted steps_admitted_controlled])

lemma reach_finalized: "(store_step sample_env sample_benv)\<^sup>*\<^sup>* store_new s_finalized"
  unfolding s_finalized_def
  by (rule rtranclp.rtrancl_into_rtrancl [OF reach_controlled store_step.finalize])

lemma reach_deleting: "(store_step sample_env sample_benv)\<^sup>*\<^sup>* store_new s_deleting"
  unfolding s_deleting_def
  by (rule rtranclp.rtrancl_into_rtrancl [OF reach_created store_step.deletion_fence])

lemmas sample_states = reach_created reach_admitted reach_parked reach_waiting reach_claimed
  reach_resumed reach_started reach_recovered reach_controlled reach_finalized reach_deleting

lemmas sample_inv = sample_states [THEN store.reachable_inv]

end
