(* ===== verification/Background_Scenario.thy ===== *)
theory Background_Scenario
  imports Scenario
begin

text \<open>
  The life of one background attempt as concrete states, branching off the execution of theory
  \<open>Scenario\<close>: accepted, starting, running, committed with an artifact, then either claimed and
  acknowledged, or, after the parent run has finished, continued by a new run. A last section records
  an execution in which the expiry of one attempt drops the artifact of another.
\<close>

section \<open>Inputs\<close>

definition sample_attempt :: background_subagent_record where
  "sample_attempt =
     \<lparr>bg_schema_version = 1, bg_attempt_id = ''a1'', bg_agent_id = ''agent'', bg_linked_task_id = None,
      bg_subagent_name = ''helper'', bg_namespace_id = ''local'', bg_parent_session_id = ''s'',
      bg_parent_run_id = ''r1'', bg_child_run_id = None, bg_continuation_run_id = None,
      bg_profile = ''p'',
      bg_owner_lease = \<lparr>bol_host_instance_id = ''hostA'', bol_fencing_generation = 1,
         bol_heartbeat_at = 11, bol_lease_expires_at = 90\<rparr>,
      bg_execution_status = BgAccepted, bg_result_ref = None, bg_failure_category = None,
      bg_cancellation_reason = None, bg_delivery_status = Undelivered, bg_delivery_claim = None,
      bg_delivered_claim_id = None, bg_automatic_continuation_suppressed_by_run_id = None,
      bg_retention_status = RetInline, bg_retention_expires_at = None, bg_trace_context = None,
      bg_accepted_at = 11, bg_updated_at = 11, bg_terminal_at = None\<rparr>"

definition executing :: "background_execution_status \<Rightarrow> datetime \<Rightarrow> background_subagent_record" where
  "executing st now = sample_attempt\<lparr>bg_execution_status := st, bg_updated_at := now\<rparr>"

definition sample_artifact :: background_artifact where
  "sample_artifact = \<lparr>ba_artifact_ref = ''art'', ba_namespace_id = ''local'', ba_attempt_id = ''a1'',
     ba_content = ''result'', ba_digest = artifact_content_digest sample_benv ''result'',
     ba_size_bytes = 6, ba_created_at = 14, ba_expires_at = 200\<rparr>"

definition sample_limits :: artifact_limits where
  "sample_limits = \<lparr>al_max_single_bytes = 10, al_max_retained_bytes = 20\<rparr>"

definition sample_terminal :: background_subagent_record where
  "sample_terminal = sample_attempt\<lparr>bg_execution_status := BgCompleted,
     bg_result_ref := Some \<lparr>brr_content = None, brr_error = None, brr_artifact_ref = Some ''art'',
       brr_digest = Some (ba_digest sample_artifact), brr_size_bytes = 6\<rparr>,
     bg_retention_status := RetArtifact, bg_retention_expires_at := Some 200,
     bg_updated_at := 14, bg_terminal_at := Some 14\<rparr>"

definition sample_delivery :: background_delivery_claim where
  "sample_delivery = \<lparr>bdc_claim_id = ''claim'', bdc_continuation_run_id = None, bdc_deadline = 40\<rparr>"

definition continuation_run :: run_record where
  "continuation_run = (sample_run ''r3'')
     \<lparr>rr_parent_run_id := Some ''r1'', rr_trigger_type := Some ''async_subagent_result'',
      rr_profile := Some ''p'', rr_restore_from_run_id := Some ''r1'',
      rr_trace_context := default_trace_context,
      rr_metadata := [(''starweaver.async_subagent.agent_id'', JString ''agent''),
        (''starweaver.async_subagent.attempt_id'', JString ''a1''),
        (''starweaver.async_subagent.parent_run_id'', JString ''r1'')],
      rr_input := continuation_input sample_terminal (Some ''result'')\<rparr>"

definition continuation_request :: acquire_continuation_req where
  "continuation_request =
     \<lparr>acr_attempt_id = ''a1'', acr_claim_id = ''auto'', acr_claim_deadline = 100,
      acr_cause = continuation_cause_new sample_benv sample_terminal (rr_input continuation_run),
      acr_admission = (sample_request ''hostB'' ''r3'' 150)\<lparr>acq_run := continuation_run\<rparr>\<rparr>"

section \<open>States\<close>

definition s_accepted :: store_inner where
  "s_accepted = snd (record_background_subagent_acceptance 11 sample_attempt s_admitted)"

definition s_starting :: store_inner where
  "s_starting = snd (update_background_subagent_execution 12 (executing BgStarting 12) s_accepted)"

definition s_running :: store_inner where
  "s_running = snd (update_background_subagent_execution 13 (executing BgRunning 13) s_starting)"

definition s_committed :: store_inner where
  "s_committed = snd (commit_background_terminal sample_benv 14 sample_terminal (Some sample_artifact)
     (Some sample_limits) s_running)"

definition s_held :: store_inner where
  "s_held = snd (claim_background_subagent_delivery 15 ''a1'' sample_delivery s_committed)"

definition s_delivered :: store_inner where
  "s_delivered = snd (acknowledge_background_subagent_delivery 16 ''a1'' ''claim'' s_held)"

definition s_idle :: store_inner where
  "s_idle = snd (finalize_run_admission sample_env 50 50 50 lease_a (terminal_completed None) s_committed)"

definition s_continued :: store_inner where
  "s_continued = snd (acquire_background_subagent_continuation sample_benv 60 60 60
     continuation_request s_idle)"

lemma s_accepted_eq [code]:
  "s_accepted = s_admitted\<lparr>si_background_subagents := [(''a1'', sample_attempt)]\<rparr>"
  by code_simp

lemma s_starting_eq [code]:
  "s_starting = s_admitted\<lparr>si_background_subagents := [(''a1'', executing BgStarting 12)]\<rparr>"
  by code_simp

lemma s_running_eq [code]:
  "s_running = s_admitted\<lparr>si_background_subagents := [(''a1'', executing BgRunning 13)]\<rparr>"
  by code_simp

lemma s_committed_Ok:
  "commit_background_terminal sample_benv 14 sample_terminal (Some sample_artifact)
     (Some sample_limits) s_running = (Ok sample_terminal,
   s_running\<lparr>si_background_subagents := [(''a1'', sample_terminal)],
     si_background_artifacts := [(''art'', sample_artifact)],
     si_background_terminal_fingerprints := [(''a1'',
       background_terminal_fingerprint sample_benv sample_terminal (Some sample_artifact))]\<rparr>)"
  by code_simp

lemmas s_committed_eq [code] = s_committed_def [unfolded s_committed_Ok snd_conv]

lemma s_held_eq [code]:
  "s_held = s_committed\<lparr>si_background_subagents := [(''a1'', sample_terminal\<lparr>bg_delivery_status := Claimed,
     bg_delivery_claim := Some sample_delivery, bg_updated_at := 15\<rparr>)]\<rparr>"
  by code_simp

lemma s_delivered_eq [code]:
  "s_delivered = s_committed\<lparr>si_background_subagents :=
     [(''a1'', deliver ''claim'' None 16 sample_terminal)]\<rparr>"
  by code_simp

lemma s_continued_Ok:
  "case fst (acquire_background_subagent_continuation sample_benv 60 60 60 continuation_request s_idle) of
     Ok c \<Rightarrow> \<not> rar_idempotent_replay (ctr_admission c) \<and> rr_run_id (rar_run (ctr_admission c)) = ''r3''
   | _ \<Rightarrow> False"
  by code_simp

section \<open>Reachability\<close>

lemma reach_accepted: "(store_step sample_env sample_benv)\<^sup>*\<^sup>* store_new s_accepted"
  unfolding s_accepted_def by (rule rtranclp.rtrancl_into_rtrancl [OF reach_admitted store_step.bg_accept])

lemma reach_starting: "(store_step sample_env sample_benv)\<^sup>*\<^sup>* store_new s_starting"
  unfolding s_starting_def by (rule rtranclp.rtrancl_into_rtrancl [OF reach_accepted store_step.bg_update])

lemma reach_running: "(store_step sample_env sample_benv)\<^sup>*\<^sup>* store_new s_running"
  unfolding s_running_def by (rule rtranclp.rtrancl_into_rtrancl [OF reach_starting store_step.bg_update])

lemma reach_committed: "(store_step sample_env sample_benv)\<^sup>*\<^sup>* store_new s_committed"
  unfolding s_committed_def by (rule rtranclp.rtrancl_into_rtrancl [OF reach_running store_step.bg_commit])

lemma reach_held: "(store_step sample_env sample_benv)\<^sup>*\<^sup>* store_new s_held"
  unfolding s_held_def by (rule rtranclp.rtrancl_into_rtrancl [OF reach_committed store_step.bg_claim])

lemma steps_committed_held: "(store_step sample_env sample_benv)\<^sup>*\<^sup>* s_committed s_held"
  unfolding s_held_def by (rule r_into_rtranclp) (rule store_step.bg_claim)

lemma steps_committed_delivered: "(store_step sample_env sample_benv)\<^sup>*\<^sup>* s_committed s_delivered"
  unfolding s_delivered_def
  by (rule rtranclp.rtrancl_into_rtrancl [OF steps_committed_held store_step.bg_acknowledge])

lemma reach_idle: "(store_step sample_env sample_benv)\<^sup>*\<^sup>* store_new s_idle"
  unfolding s_idle_def by (rule rtranclp.rtrancl_into_rtrancl [OF reach_committed store_step.finalize])

lemmas background_inv_samples = store.reachable_inv [OF reach_accepted] store.reachable_inv [OF reach_running]
  store.reachable_inv [OF reach_committed] store.reachable_inv [OF reach_held] store.reachable_inv [OF reach_idle]

section \<open>A foreign artifact reference\<close>

definition careless_terminal :: background_subagent_record where
  "careless_terminal = sample_attempt\<lparr>bg_attempt_id := ''a2'', bg_agent_id := ''other'',
     bg_execution_status := BgFailed,
     bg_result_ref := Some \<lparr>brr_content = None, brr_error = Some ''no'', brr_artifact_ref = Some ''art'',
       brr_digest = None, brr_size_bytes = 2\<rparr>,
     bg_retention_expires_at := Some 30, bg_updated_at := 16, bg_terminal_at := Some 16\<rparr>"

lemma foreign_artifact_dropped:
  defines "s1 \<equiv> snd (record_background_subagent_acceptance 15
     (sample_attempt\<lparr>bg_attempt_id := ''a2'', bg_agent_id := ''other''\<rparr>) s_committed)"
  defines "s2 \<equiv> snd (record_background_subagent_terminal sample_benv 16 careless_terminal s1)"
  defines "s3 \<equiv> snd (expire_background_subagent_retention sample_benv ''local'' 30 10 s2)"
  shows "map_of (si_background_artifacts s2) ''art'' = Some sample_artifact
     \<and> map_of (si_background_subagents s3) ''a1'' = Some sample_terminal
     \<and> load_background_subagent_artifact sample_benv 30 ''art'' s3 = Err (NotFound ''art'')"
  unfolding assms by code_simp

end
