(* ===== verification/Replay_Log.thy ===== *)
theory Replay_Log
  imports Session_Records
begin

text \<open>
  Replay events (\<open>starweaver-stream/src/replay.rs\<close>, \<open>error.rs\<close>, the record types of
  \<open>display/types.rs\<close>): the in-memory event log, which is idempotent by scope and sequence, its
  replays and snapshots, and the subscription that merges a durable backlog with a live broadcast
  channel and delivers every sequence once and in order.

  The broadcast channel (\<open>tokio\<close>) is a parameter: what a receiver yields at each wait is an
  argument of the receive loop, and so is the answer of the durable source at each refill.
\<close>

section \<open>Display messages\<close>

datatype display_message_kind =
    DmRunQueued | DmRunStarted | DmAssistantTextStart | DmAssistantTextDelta | DmAssistantTextEnd
  | DmToolCallStart | DmToolCallDelta | DmToolCallEnd | DmToolResult | DmToolsUnavailable
  | DmToolSearchLoaded | DmToolSearchInitialized | DmToolSearchRefreshed | DmToolSearchInvalidated
  | DmToolSearchFailed | DmToolSearchNoMatch | DmToolsetInitialized | DmToolsetUnavailable
  | DmToolsetFailed | DmToolsetRefreshed | DmToolsetClosed | DmApprovalRequested
  | DmDeferredRequested | DmApprovalResolved | DmHitlResolved | DmHitlDiagnostic | DmCheckpoint
  | DmSkillsScanned | DmSkillActivated | DmSkillsReloaded | DmSubagentStarted | DmSubagentCompleted
  | DmSubagentFailed | DmCompactionStarted | DmCompactionCompleted | DmCompactionFailed
  | DmHandoffStarted | DmHandoffCompleted | DmHandoffFailed | DmSteeringSubmitted
  | DmSteeringReceived | DmGoalIteration | DmGoalCompleted | DmTaskSnapshot | DmTaskEvent
  | DmNoteEvent | DmFileEvent | DmMediaEvent | DmHostEvent | DmRunCompleted | DmRunFailed
  | DmRunCancelled

definition display_kind_is_terminal :: "display_message_kind \<Rightarrow> bool" where
  "display_kind_is_terminal k \<longleftrightarrow> k \<in> {DmRunCompleted, DmRunFailed, DmRunCancelled}"

datatype display_visibility = VisPublic | VisDiagnostic | VisInternal

record trace_context =
  tc_trace_id :: "string option"
  tc_span_id :: "string option"
  tc_parent_span_id :: "string option"
  tc_trace_state :: "string option"
  tc_metadata :: metadata

record display_message =
  dm_schema :: string
  dm_sequence :: u64
  dm_session_id :: session_id
  dm_run_id :: run_id
  dm_agent_id :: "string option"
  dm_agent_name :: "string option"
  dm_timestamp :: datetime
  dm_trace_context :: trace_context
  dm_kind :: display_message_kind
  dm_payload :: json
  dm_preview :: "string option"
  dm_visibility :: display_visibility
  dm_metadata :: metadata

definition trace_context_default :: trace_context where
  "trace_context_default =
     \<lparr>tc_trace_id = None, tc_span_id = None, tc_parent_span_id = None, tc_trace_state = None,
      tc_metadata = []\<rparr>"

definition display_message_new ::
    "datetime \<Rightarrow> u64 \<Rightarrow> session_id \<Rightarrow> run_id \<Rightarrow> display_message_kind \<Rightarrow> display_message" where
  "display_message_new now seq sid rid kind =
     \<lparr>dm_schema = ''starweaver.display.v1'', dm_sequence = seq, dm_session_id = sid,
      dm_run_id = rid, dm_agent_id = None, dm_agent_name = None, dm_timestamp = now,
      dm_trace_context = trace_context_default, dm_kind = kind, dm_payload = JNull,
      dm_preview = None, dm_visibility = VisPublic, dm_metadata = []\<rparr>"

section \<open>Events, cursors and snapshots\<close>

datatype replay_error = ReplayNotFound string | ReplayInvalidCursor string | ReplayFailed string

definition replay_scope_session :: "session_id \<Rightarrow> string" where
  "replay_scope_session s = ''session:'' @ s"

definition cursor_family_as_str :: "replay_cursor_family \<Rightarrow> string" where
  "cursor_family_as_str f =
     (case f of RawRuntime \<Rightarrow> ''raw_runtime'' | Display \<Rightarrow> ''display'' | ReplayEvent \<Rightarrow> ''replay_event'')"

definition cursor_for_family :: "replay_cursor_family \<Rightarrow> string \<Rightarrow> u64 \<Rightarrow> replay_cursor" where
  "cursor_for_family family scope seq =
     \<lparr>cur_family = family, cur_scope = scope, cur_sequence = seq, cur_backend_cursor = None\<rparr>"

definition cursor_replay_event :: "string \<Rightarrow> u64 \<Rightarrow> replay_cursor" where
  "cursor_replay_event = cursor_for_family ReplayEvent"

definition cursor_raw_runtime :: "string \<Rightarrow> u64 \<Rightarrow> replay_cursor" where
  "cursor_raw_runtime = cursor_for_family RawRuntime"

definition cursor_display :: "string \<Rightarrow> u64 \<Rightarrow> replay_cursor" where
  "cursor_display = cursor_for_family Display"

definition replay_cursor_validate ::
    "replay_cursor \<Rightarrow> replay_cursor_family \<Rightarrow> string \<Rightarrow> (unit, replay_error) result" where
  "replay_cursor_validate c family scope =
     (if cur_family c \<noteq> family
      then Err (ReplayInvalidCursor (''cursor family '' @ cursor_family_as_str (cur_family c)
             @ '' does not match requested family '' @ cursor_family_as_str family))
      else if cur_scope c \<noteq> scope
      then Err (ReplayInvalidCursor (''cursor scope '' @ cur_scope c
             @ '' does not match requested scope '' @ scope))
      else Ok ())"

datatype stream_terminal_marker =
  MarkRunCompleted | MarkRunFailed string string | MarkRunCancelled string

record environment_lifecycle_event =
  ele_operation_kind :: string
  ele_session_id :: string
  ele_run_id :: string
  ele_binding_version :: u64
  ele_environment :: json
  ele_operation_id :: "string option"
  ele_extra :: "(string, json) btmap"

definition lifecycle_to_display_message ::
    "datetime \<Rightarrow> environment_lifecycle_event \<Rightarrow> u64 \<Rightarrow> display_message" where
  "lifecycle_to_display_message now e seq =
     (let p1 = bt_insert ''kind'' (JString (ele_operation_kind e))
                 (bt_insert ''operationKind'' (JString (ele_operation_kind e)) []);
          p2 = (case ele_operation_id e of
                  None \<Rightarrow> p1 | Some i \<Rightarrow> bt_insert ''operationId'' (JString i) p1);
          p3 = bt_insert ''runId'' (JString (ele_run_id e)) p2;
          p4 = bt_insert ''bindingVersion'' (JNumber (u64_to_string (ele_binding_version e))) p3;
          p5 = bt_insert ''environment'' (ele_environment e) p4;
          payload = foldl (\<lambda>m kv. bt_insert (fst kv) (snd kv) m) p5 (ele_extra e)
      in (display_message_new now seq (ele_session_id e) (ele_run_id e) DmHostEvent)
           \<lparr>dm_payload := JObject payload,
            dm_preview := Some (''environment '' @ ele_operation_kind e)\<rparr>)"

record replay_snapshot =
  rs_scope :: "string option"
  rs_revision :: nat
  rs_cursor :: "replay_cursor option"
  rs_display_messages :: "display_message list"
  rs_metadata :: metadata

datatype replay_event_kind =
    EvDisplayMessage display_message
  | EvEnvironmentLifecycle environment_lifecycle_event
  | EvRaw json
  | EvSnapshot replay_snapshot
  | EvHeartbeat
  | EvTerminal stream_terminal_marker

record replay_event =
  re_scope :: string
  re_sequence :: u64
  re_timestamp :: datetime
  re_event :: replay_event_kind
  re_metadata :: metadata

definition replay_event_new :: "datetime \<Rightarrow> string \<Rightarrow> u64 \<Rightarrow> replay_event_kind \<Rightarrow> replay_event" where
  "replay_event_new now scope seq event =
     \<lparr>re_scope = scope, re_sequence = seq, re_timestamp = now, re_event = event, re_metadata = []\<rparr>"

definition replay_event_display_at :: "datetime \<Rightarrow> string \<Rightarrow> u64 \<Rightarrow> display_message \<Rightarrow> replay_event" where
  "replay_event_display_at now scope seq message =
     (replay_event_new now scope seq (EvDisplayMessage message))\<lparr>re_timestamp := dm_timestamp message\<rparr>"

definition replay_event_display :: "datetime \<Rightarrow> string \<Rightarrow> display_message \<Rightarrow> replay_event" where
  "replay_event_display now scope message = replay_event_display_at now scope (dm_sequence message) message"

definition snapshot_validate ::
    "replay_snapshot \<Rightarrow> replay_cursor_family \<Rightarrow> string \<Rightarrow> (unit, replay_error) result" where
  "snapshot_validate s family scope =
     (if rs_scope s \<noteq> Some scope
      then Err (ReplayInvalidCursor (''snapshot scope ''
             @ (case rs_scope s of None \<Rightarrow> ''<missing>'' | Some x \<Rightarrow> x)
             @ '' does not match requested scope '' @ scope))
      else case rs_cursor s of
             None \<Rightarrow> Ok () | Some c \<Rightarrow> replay_cursor_validate c family scope)"

section \<open>The log\<close>

text \<open>\<open>el_sent\<close> records what the broadcast sender was given, in order.\<close>

record event_log =
  el_events :: "(string, replay_event list) btmap"
  el_seen :: "(string \<times> u64) btset"
  el_snapshots :: "(string, replay_snapshot) btmap"
  el_sent :: "replay_event list"

definition event_log_new :: event_log where
  "event_log_new = \<lparr>el_events = [], el_seen = [], el_snapshots = [], el_sent = []\<rparr>"

definition scope_events :: "event_log \<Rightarrow> string \<Rightarrow> replay_event list" where
  "scope_events l scope = (case map_of (el_events l) scope of None \<Rightarrow> [] | Some es \<Rightarrow> es)"

definition log_append :: "event_log \<Rightarrow> string \<Rightarrow> replay_event \<Rightarrow> (unit, replay_error) result \<times> event_log" where
  "log_append l scope event0 =
     (let event = event0\<lparr>re_scope := scope\<rparr> in
      if bt_contains (el_seen l) (scope, re_sequence event)
      then
        (case (case map_of (el_events l) scope of
                 None \<Rightarrow> None
               | Some es \<Rightarrow> find (\<lambda>p. re_sequence p = re_sequence event) es) of
           None \<Rightarrow>
             (Err (ReplayFailed (''replay event index is inconsistent for scope '' @ scope
                @ '' at sequence '' @ u64_to_string (re_sequence event))), l)
         | Some persisted \<Rightarrow>
             if persisted \<noteq> event
             then (Err (ReplayFailed (''replay event conflict for scope '' @ scope
                     @ '' at sequence '' @ u64_to_string (re_sequence event))), l)
             else (Ok (), l))
      else
        (Ok (), l\<lparr>el_seen := bt_insert (scope, re_sequence event) () (el_seen l),
                  el_events := bt_insert scope
                    (sort_key re_sequence (scope_events l scope @ [event])) (el_events l),
                  el_sent := el_sent l @ [event]\<rparr>))"

definition log_replay_after ::
    "event_log \<Rightarrow> string \<Rightarrow> replay_cursor option \<Rightarrow> nat option
     \<Rightarrow> (replay_event list, replay_error) result" where
  "log_replay_after l scope cursor limit =
     (case (case cursor of
              None \<Rightarrow> Ok () | Some c \<Rightarrow> replay_cursor_validate c ReplayEvent scope) of
        Err e \<Rightarrow> Err e
      | Panic \<Rightarrow> Panic
      | Ok _ \<Rightarrow>
          let after = (case cursor of
                         None \<Rightarrow> 0 | Some c \<Rightarrow> u64_saturating_add (cur_sequence c) 1);
              events = sort_key re_sequence
                         (filter (\<lambda>e. after \<le> re_sequence e) (scope_events l scope))
          in Ok (case limit of None \<Rightarrow> events | Some n \<Rightarrow> take n events))"

definition display_messages_of :: "replay_event list \<Rightarrow> display_message list" where
  "display_messages_of es =
     List.map_filter (\<lambda>e. case re_event e of EvDisplayMessage m \<Rightarrow> Some m | _ \<Rightarrow> None) es"

definition log_compact_snapshot :: "event_log \<Rightarrow> string \<Rightarrow> (replay_snapshot, replay_error) result" where
  "log_compact_snapshot l scope =
     (case map_of (el_snapshots l) scope of
        Some s \<Rightarrow> Ok s
      | None \<Rightarrow>
          let events = scope_events l scope in
          Ok \<lparr>rs_scope = Some scope, rs_revision = length events,
              rs_cursor = (if events = [] then None
                           else Some (cursor_replay_event scope (re_sequence (last events)))),
              rs_display_messages = display_messages_of events, rs_metadata = []\<rparr>)"

definition log_save_snapshot ::
    "event_log \<Rightarrow> string \<Rightarrow> replay_snapshot \<Rightarrow> (unit, replay_error) result \<times> event_log" where
  "log_save_snapshot l scope s =
     (case snapshot_validate s ReplayEvent scope of
        Ok _ \<Rightarrow> (Ok (), l\<lparr>el_snapshots := bt_insert scope s (el_snapshots l)\<rparr>)
      | Err e \<Rightarrow> (Err e, l)
      | Panic \<Rightarrow> (Panic, l))"

section \<open>Subscriptions\<close>

record replay_subscription =
  sub_scope :: string
  sub_cursor :: "replay_cursor option"
  sub_backlog :: "replay_event list"
  sub_has_catchup :: bool
  sub_baseline :: bool

type_synonym catchup = "string \<Rightarrow> replay_cursor option \<Rightarrow> (replay_event list, replay_error) result"

datatype channel_outcome = ChanEvent replay_event | ChanLagged | ChanClosed

fun merge_backlog ::
    "string \<Rightarrow> u64 option \<Rightarrow> (u64, replay_event) btmap \<Rightarrow> replay_event list \<Rightarrow> (u64, replay_event) btmap" where
  "merge_backlog scope after merged [] = merged"
| "merge_backlog scope after merged (e # es) =
     merge_backlog scope after
       (if re_scope e = scope \<and> (case after of None \<Rightarrow> True | Some a \<Rightarrow> a < re_sequence e)
           \<and> \<not> bt_contains merged (re_sequence e)
        then bt_insert (re_sequence e) e merged else merged) es"

definition prepend_backlog :: "replay_event list \<Rightarrow> replay_subscription \<Rightarrow> replay_subscription" where
  "prepend_backlog events sub =
     sub\<lparr>sub_backlog := bt_values
          (merge_backlog (sub_scope sub) (map_option cur_sequence (sub_cursor sub)) []
            (events @ sub_backlog sub))\<rparr>"

definition initialize_backlog :: "replay_event list \<Rightarrow> replay_subscription \<Rightarrow> replay_subscription" where
  "initialize_backlog events sub = (prepend_backlog events sub)\<lparr>sub_baseline := True\<rparr>"

definition refill_from_durable ::
    "catchup \<Rightarrow> replay_subscription \<Rightarrow> (unit, replay_error) result \<times> replay_subscription" where
  "refill_from_durable catch sub =
     (if \<not> sub_has_catchup sub then (Ok (), sub)
      else case catch (sub_scope sub) (sub_cursor sub) of
             Err e \<Rightarrow> (Err e, sub)
           | Panic \<Rightarrow> (Panic, sub)
           | Ok events \<Rightarrow>
               let sub1 = prepend_backlog events sub in
               (Ok (), if sub_cursor sub1 \<noteq> None \<or> sub_backlog sub1 \<noteq> []
                       then sub1\<lparr>sub_baseline := True\<rparr> else sub1))"

definition set_catchup_source :: "replay_subscription \<Rightarrow> replay_subscription" where
  "set_catchup_source sub = sub\<lparr>sub_has_catchup := True\<rparr>"

definition log_subscribe ::
    "event_log \<Rightarrow> string \<Rightarrow> replay_cursor option \<Rightarrow> (replay_subscription, replay_error) result" where
  "log_subscribe l scope cursor =
     (case (case cursor of
              None \<Rightarrow> Ok () | Some c \<Rightarrow> replay_cursor_validate c ReplayEvent scope) of
        Err e \<Rightarrow> Err e
      | Panic \<Rightarrow> Panic
      | Ok _ \<Rightarrow>
          let sub = \<lparr>sub_scope = scope, sub_cursor = cursor, sub_backlog = [],
                     sub_has_catchup = True, sub_baseline = (cursor \<noteq> None)\<rparr>
          in (case log_replay_after l scope cursor None of
                Err e \<Rightarrow> Err e
              | Panic \<Rightarrow> Panic
              | Ok backlog \<Rightarrow> Ok (if backlog \<noteq> [] then initialize_backlog backlog sub else sub)))"

text \<open>
  One turn of the receive loop up to the wait: the refill that fixes the baseline, then the head of
  the backlog. \<open>Pending\<close> is the fall through to the channel.
\<close>

datatype recv_turn =
    Deliver replay_event replay_subscription
  | Again replay_subscription
  | Pending replay_subscription
  | Fail replay_error replay_subscription
  | Abort replay_subscription

definition recv_pop :: "replay_subscription \<Rightarrow> recv_turn" where
  "recv_pop sub =
     (case sub_backlog sub of
        [] \<Rightarrow> Pending sub
      | event # rest \<Rightarrow>
          let expected = (case sub_cursor sub of
                            None \<Rightarrow> re_sequence event
                          | Some c \<Rightarrow> u64_saturating_add (cur_sequence c) 1)
          in if re_scope event \<noteq> sub_scope sub \<or> re_sequence event < expected
             then Again (sub\<lparr>sub_backlog := rest\<rparr>)
             else if re_sequence event = expected
             then Deliver event
                    (sub\<lparr>sub_backlog := rest,
                         sub_cursor := Some (cursor_replay_event (re_scope event) (re_sequence event))\<rparr>)
             else Pending sub)"

definition recv_baseline ::
    "catchup \<Rightarrow> replay_subscription \<Rightarrow> (unit, replay_error) result \<times> replay_subscription" where
  "recv_baseline catch sub =
     (if \<not> sub_baseline sub \<and> sub_backlog sub \<noteq> []
      then (case refill_from_durable catch sub of
              (Ok _, sub1) \<Rightarrow>
                (Ok (), if \<not> sub_has_catchup sub1 then sub1\<lparr>sub_baseline := True\<rparr> else sub1)
            | (Err e, sub1) \<Rightarrow> (Err e, sub1)
            | (Panic, sub1) \<Rightarrow> (Panic, sub1))
      else (Ok (), sub))"

definition msg_channel_closed :: string where
  "msg_channel_closed = ''replay subscription channel closed''"

text \<open>What the loop does with one answer of the channel; the refill reads the durable source.\<close>

definition recv_wait :: "catchup \<Rightarrow> channel_outcome \<Rightarrow> replay_subscription \<Rightarrow> recv_turn" where
  "recv_wait catch outcome sub =
     (case outcome of
        ChanEvent event \<Rightarrow>
          if re_scope event = sub_scope sub
          then (case refill_from_durable catch (prepend_backlog [event] sub) of
                  (Ok _, s) \<Rightarrow> Again s | (Err e, s) \<Rightarrow> Fail e s | (Panic, s) \<Rightarrow> Abort s)
          else Again sub
      | ChanLagged \<Rightarrow>
          (case refill_from_durable catch sub of
             (Ok _, s) \<Rightarrow> Again s | (Err e, s) \<Rightarrow> Fail e s | (Panic, s) \<Rightarrow> Abort s)
      | ChanClosed \<Rightarrow>
          (case refill_from_durable catch sub of
             (Ok _, s) \<Rightarrow>
               if sub_backlog s = [] then Fail (ReplayFailed msg_channel_closed) s else Again s
           | (Err e, s) \<Rightarrow> Fail e s
           | (Panic, s) \<Rightarrow> Abort s))"

lemma recv_baseline_progress:
  assumes "recv_baseline catch sub = (Ok u, s)"
  shows "s = sub \<or> \<not> sub_baseline sub \<and> (sub_baseline s \<or> sub_backlog s = [])"
  using assms
  by (auto simp: recv_baseline_def refill_from_durable_def Let_def split: if_splits result.splits)

lemma recv_pop_Again:
  "recv_pop sub = Again s \<Longrightarrow> \<exists>e rest. sub_backlog sub = e # rest \<and> s = sub\<lparr>sub_backlog := rest\<rparr>"
  by (auto simp: recv_pop_def Let_def split: list.splits if_splits)

text \<open>
  The receive loop. The waits read \<open>ins\<close>; \<open>cat k\<close> is the answer of the durable source at its
  \<open>k\<close>-th reading. The loop has no value while it waits for more than the channel has yielded.
\<close>

function recv ::
    "(nat \<Rightarrow> catchup) \<Rightarrow> nat \<Rightarrow> channel_outcome list \<Rightarrow> replay_subscription
     \<Rightarrow> ((replay_event, replay_error) result \<times> replay_subscription \<times> nat \<times> channel_outcome list) option" where
  "recv cat n ins sub =
     (case recv_baseline (cat n) sub of
        (Err e, s) \<Rightarrow> Some (Err e, s, Suc n, ins)
      | (Panic, s) \<Rightarrow> Some (Panic, s, Suc n, ins)
      | (Ok _, s) \<Rightarrow>
          (case recv_pop s of
             Deliver e s1 \<Rightarrow> Some (Ok e, s1, Suc n, ins)
           | Again s1 \<Rightarrow> recv cat (Suc n) ins s1
           | Fail e s1 \<Rightarrow> Some (Err e, s1, Suc n, ins)
           | Abort s1 \<Rightarrow> Some (Panic, s1, Suc n, ins)
           | Pending s1 \<Rightarrow>
               (case ins of
                  [] \<Rightarrow> None
                | outcome # ins1 \<Rightarrow>
                    (case recv_wait (cat (Suc n)) outcome s1 of
                       Deliver e s2 \<Rightarrow> Some (Ok e, s2, Suc (Suc n), ins1)
                     | Again s2 \<Rightarrow> recv cat (Suc (Suc n)) ins1 s2
                     | Pending s2 \<Rightarrow> recv cat (Suc (Suc n)) ins1 s2
                     | Fail e s2 \<Rightarrow> Some (Err e, s2, Suc (Suc n), ins1)
                     | Abort s2 \<Rightarrow> Some (Panic, s2, Suc (Suc n), ins1)))))"
  by pat_completeness auto
termination
proof (relation "inv_image (less_than <*lex*> (less_than <*lex*> less_than))
    (\<lambda>(cat, n, ins, sub). (length ins, if sub_baseline sub then 0 else (1::nat), length (sub_backlog sub)))",
    goal_cases)
  case (2 cat n ins sub r s u s1)
  from recv_baseline_progress [of "cat n" sub u s] recv_pop_Again [of s s1] 2
  show ?case by (auto split: if_splits)
qed auto

declare recv.simps [simp del]

fun recv_stream ::
    "(nat \<Rightarrow> catchup) \<Rightarrow> nat \<Rightarrow> nat \<Rightarrow> channel_outcome list \<Rightarrow> replay_subscription \<Rightarrow> replay_event list" where
  "recv_stream cat 0 n ins sub = []"
| "recv_stream cat (Suc k) n ins sub =
     (case recv cat n ins sub of
        Some (Ok e, s, n1, ins1) \<Rightarrow> e # recv_stream cat k n1 ins1 s
      | _ \<Rightarrow> [])"

section \<open>The log is a partial map from scope and sequence\<close>

definition log_at :: "event_log \<Rightarrow> string \<Rightarrow> u64 \<Rightarrow> replay_event option" where
  "log_at l scope n = find (\<lambda>e. re_sequence e = n) (scope_events l scope)"

definition event_log_inv :: "event_log \<Rightarrow> bool" where
  "event_log_inv l \<longleftrightarrow>
     bt_wf (el_events l) \<and> bt_wf (el_seen l)
     \<and> (\<forall>sc. sorted_wrt (<) (map re_sequence (scope_events l sc))
            \<and> (\<forall>e \<in> set (scope_events l sc). re_scope e = sc))
     \<and> (\<forall>sc n. (sc, n) \<in> bt_keys (el_seen l) \<longleftrightarrow> n \<in> re_sequence ` set (scope_events l sc))
     \<and> (\<forall>e \<in> set (el_sent l). e \<in> set (scope_events l (re_scope e)))"

lemma event_log_inv_new: "event_log_inv event_log_new"
  by (simp add: event_log_inv_def event_log_new_def scope_events_def)

lemma log_at_mem:
  assumes "event_log_inv l"
  shows "log_at l sc n = Some e \<longleftrightarrow> e \<in> set (scope_events l sc) \<and> re_sequence e = n"
proof -
  have "distinct (map re_sequence (scope_events l sc))"
    using assms by (auto simp: event_log_inv_def strict_sorted_iff)
  then have "inj_on re_sequence (set (scope_events l sc))" by (simp add: distinct_map)
  then have uniq: "x = y" if "x \<in> set (scope_events l sc)" "y \<in> set (scope_events l sc)"
      "re_sequence x = re_sequence y" for x y
    using that by (simp add: inj_on_def)
  show ?thesis
  proof
    assume "log_at l sc n = Some e"
    then show "e \<in> set (scope_events l sc) \<and> re_sequence e = n"
      by (auto simp: log_at_def find_Some_iff)
  next
    assume e: "e \<in> set (scope_events l sc) \<and> re_sequence e = n"
    then obtain x where x: "log_at l sc n = Some x"
      by (cases "log_at l sc n") (auto simp: log_at_def find_None_iff)
    then have "x \<in> set (scope_events l sc) \<and> re_sequence x = n"
      by (auto simp: log_at_def find_Some_iff)
    with e x uniq show "log_at l sc n = Some e" by metis
  qed
qed

lemma option_eqI: "(\<And>x. a = Some x \<longleftrightarrow> b = Some x) \<Longrightarrow> a = b"
  by (cases a; cases b) auto

lemma log_seen_iff:
  assumes "event_log_inv l"
  shows "bt_contains (el_seen l) (sc, n) \<longleftrightarrow> log_at l sc n \<noteq> None"
  using assms log_at_mem [OF assms, of sc n]
  by (auto simp: bt_contains_keys event_log_inv_def image_iff)

lemma log_scope: "event_log_inv l \<Longrightarrow> e \<in> set (scope_events l sc) \<Longrightarrow> re_scope e = sc"
  unfolding event_log_inv_def by blast

lemma sorted_sort_key_new:
  assumes "distinct (map f xs)"
  shows "sorted_wrt (<) (map f (sort_key f xs))"
proof -
  have "distinct (map f (sort_key f xs))"
    using assms by (simp add: distinct_map)
  then show ?thesis by (simp add: strict_sorted_iff)
qed

lemma log_append_cases:
  assumes inv: "event_log_inv l" and ev: "event = event0\<lparr>re_scope := sc\<rparr>"
  obtains (new) "log_at l sc (re_sequence event0) = None"
      "log_append l sc event0 =
        (Ok (), l\<lparr>el_seen := bt_insert (sc, re_sequence event) () (el_seen l),
                  el_events := bt_insert sc
                    (sort_key re_sequence (scope_events l sc @ [event])) (el_events l),
                  el_sent := el_sent l @ [event]\<rparr>)"
  | (same) "log_at l sc (re_sequence event0) = Some event" "log_append l sc event0 = (Ok (), l)"
  | (conflict) other where "log_at l sc (re_sequence event0) = Some other" "other \<noteq> event"
      "log_append l sc event0 =
        (Err (ReplayFailed (''replay event conflict for scope '' @ sc
           @ '' at sequence '' @ u64_to_string (re_sequence event))), l)"
proof (cases "log_at l sc (re_sequence event0)")
  case None
  then have "\<not> bt_contains (el_seen l) (sc, re_sequence event)"
    using log_seen_iff [OF inv] by (simp add: ev)
  then show ?thesis using new [OF None] by (simp add: log_append_def Let_def ev)
next
  case (Some other)
  then have "bt_contains (el_seen l) (sc, re_sequence event)"
    using log_seen_iff [OF inv] by (simp add: ev)
  moreover have "(case map_of (el_events l) sc of None \<Rightarrow> None
      | Some es \<Rightarrow> find (\<lambda>p. re_sequence p = re_sequence event) es) = Some other"
    using Some by (auto simp: log_at_def scope_events_def ev split: option.splits)
  ultimately have "log_append l sc event0 =
      (if other \<noteq> event
       then (Err (ReplayFailed (''replay event conflict for scope '' @ sc
               @ '' at sequence '' @ u64_to_string (re_sequence event))), l)
       else (Ok (), l))"
    unfolding log_append_def Let_def ev [symmetric] by simp
  then show ?thesis using same conflict [OF Some] Some by (cases "other = event") simp_all
qed

lemma scope_events_insert:
  "scope_events (l\<lparr>el_seen := S, el_events := bt_insert sc es (el_events l), el_sent := T\<rparr>) sc' =
     (if sc' = sc then es else scope_events l sc')"
  by (simp add: scope_events_def)

lemma event_log_inv_append:
  assumes inv: "event_log_inv l"
  shows "event_log_inv (snd (log_append l sc event0))"
proof (cases rule: log_append_cases [OF inv refl, of sc event0, case_names new same conflict])
  case new
  define e where "e = event0\<lparr>re_scope := sc\<rparr>"
  let ?es = "sort_key re_sequence (scope_events l sc @ [e])"
  have fresh: "re_sequence e \<notin> re_sequence ` set (scope_events l sc)"
  proof
    assume "re_sequence e \<in> re_sequence ` set (scope_events l sc)"
    then obtain x where "x \<in> set (scope_events l sc)" "re_sequence x = re_sequence event0"
      by (auto simp: e_def)
    then show False using new(1) log_at_mem [OF inv, of sc "re_sequence event0" x] by simp
  qed
  have "distinct (map re_sequence (scope_events l sc @ [e]))"
    using inv fresh by (auto simp: event_log_inv_def strict_sorted_iff)
  then have sorted: "sorted_wrt (<) (map re_sequence ?es)" by (rule sorted_sort_key_new)
  have scope: "re_scope e = sc" by (simp add: e_def)
  have sent: "x \<in> set (el_sent l) \<Longrightarrow> x \<in> set (scope_events l (re_scope x))" for x
    using inv unfolding event_log_inv_def by blast
  have seen: "(s, n) \<in> bt_keys (el_seen l) \<longleftrightarrow> n \<in> re_sequence ` set (scope_events l s)" for s n
    using inv unfolding event_log_inv_def by blast
  have old: "sorted_wrt (<) (map re_sequence (scope_events l s))"
    "x \<in> set (scope_events l s) \<Longrightarrow> re_scope x = s" for s x
    using inv unfolding event_log_inv_def by blast+
  show ?thesis
    unfolding new(2) e_def [symmetric] event_log_inv_def snd_conv scope_events_insert
    using inv sorted scope sent seen old by (auto simp: event_log_inv_def [of l]) (metis sent)
qed (simp_all add: inv)

definition log_extends :: "event_log \<Rightarrow> event_log \<Rightarrow> bool" where
  "log_extends l l' \<longleftrightarrow> (\<forall>sc n e. log_at l sc n = Some e \<longrightarrow> log_at l' sc n = Some e)"

lemma log_at_append:
  assumes inv: "event_log_inv l"
  shows "log_append l sc e0 = (Ok (), l') \<Longrightarrow>
      log_at l' = (log_at l)(sc := (log_at l sc)(re_sequence e0 \<mapsto> e0\<lparr>re_scope := sc\<rparr>))"
    and "log_append l sc e0 = (Err err, l') \<Longrightarrow> l' = l"
    and "fst (log_append l sc e0) = Ok () \<longleftrightarrow>
      log_at l sc (re_sequence e0) \<in> {None, Some (e0\<lparr>re_scope := sc\<rparr>)}"
    and "log_extends l (snd (log_append l sc e0))"
proof -
  define e where "e = e0\<lparr>re_scope := sc\<rparr>"
  have at: "log_at (snd (log_append l sc e0)) s n =
      (if s = sc \<and> n = re_sequence e0 then Some e else log_at l s n)"
    if new: "log_at l sc (re_sequence e0) = None" for s n
  proof -
    have inv': "event_log_inv (snd (log_append l sc e0))" by (rule event_log_inv_append [OF inv])
    have ev: "set (scope_events (snd (log_append l sc e0)) s) =
        (if s = sc then insert e (set (scope_events l sc)) else set (scope_events l s))"
      by (cases rule: log_append_cases [OF inv refl, of sc e0])
        (use new in \<open>simp_all add: scope_events_insert e_def [symmetric]\<close>)
    show ?thesis
    proof (rule option_eqI)
      fix x
      have old: "\<not> (x \<in> set (scope_events l sc) \<and> re_sequence x = re_sequence e0)"
        using new log_at_mem [OF inv, of sc "re_sequence e0" x] by simp
      have "re_sequence e = re_sequence e0" by (simp add: e_def)
      with old show "log_at (snd (log_append l sc e0)) s n = Some x \<longleftrightarrow>
          (if s = sc \<and> n = re_sequence e0 then Some e else log_at l s n) = Some x"
        unfolding log_at_mem [OF inv'] ev by (auto simp: log_at_mem [OF inv])
    qed
  qed
  show "log_at l' = (log_at l)(sc := (log_at l sc)(re_sequence e0 \<mapsto> e0\<lparr>re_scope := sc\<rparr>))"
    if "log_append l sc e0 = (Ok (), l')"
    by (cases rule: log_append_cases [OF inv refl, of sc e0])
      (use that at in \<open>auto simp: fun_eq_iff e_def\<close>)
  show "l' = l" if "log_append l sc e0 = (Err err, l')"
    by (cases rule: log_append_cases [OF inv refl, of sc e0]) (use that in auto)
  show "fst (log_append l sc e0) = Ok () \<longleftrightarrow>
      log_at l sc (re_sequence e0) \<in> {None, Some (e0\<lparr>re_scope := sc\<rparr>)}"
    by (cases rule: log_append_cases [OF inv refl, of sc e0]) auto
  show "log_extends l (snd (log_append l sc e0))"
    by (cases rule: log_append_cases [OF inv refl, of sc e0])
      (use at in \<open>auto simp: log_extends_def\<close>)
qed

lemma log_replay_after_exact:
  assumes inv: "event_log_inv l" and c: "cur_family c = ReplayEvent" "cur_scope c = sc"
    and bound: "cur_sequence c \<noteq> - 1"
  shows "\<exists>es. log_replay_after l sc (Some c) None = Ok es
    \<and> sorted_wrt (<) (map re_sequence es)
    \<and> (\<forall>e. e \<in> set es \<longleftrightarrow> cur_sequence c < re_sequence e \<and> log_at l sc (re_sequence e) = Some e)"
proof -
  let ?es = "filter (\<lambda>e. u64_saturating_add (cur_sequence c) 1 \<le> re_sequence e) (scope_events l sc)"
  have "unat (cur_sequence c) \<noteq> unat (- 1 :: u64)" using bound by (metis word_unat_eq_iff)
  then have lt: "u64_saturating_add (cur_sequence c) 1 \<le> n \<longleftrightarrow> cur_sequence c < n" for n
    using u64_unat_bound [of "cur_sequence c"]
    by (simp add: word_le_nat_alt word_less_nat_alt unat_u64_saturating_add unat_u64_minus_one) linarith
  have "distinct (map re_sequence (scope_events l sc))"
    using inv by (auto simp: event_log_inv_def strict_sorted_iff)
  then have "sorted_wrt (<) (map re_sequence (sort_key re_sequence ?es))"
    by (intro sorted_sort_key_new) (simp add: distinct_map_filter)
  then show ?thesis
    using c by (simp add: log_replay_after_def replay_cursor_validate_def Let_def lt log_at_mem [OF inv])
      blast
qed

section \<open>Subscriptions deliver every sequence once and in order\<close>

definition past :: "replay_cursor option \<Rightarrow> u64 \<Rightarrow> bool" where
  "past cursor n \<longleftrightarrow> (case cursor of None \<Rightarrow> True | Some c \<Rightarrow> cur_sequence c < n)"

definition sub_ok :: "replay_event set \<Rightarrow> replay_subscription \<Rightarrow> bool" where
  "sub_ok L sub \<longleftrightarrow>
     sorted_wrt (<) (map re_sequence (sub_backlog sub))
     \<and> (\<forall>e \<in> set (sub_backlog sub). e \<in> L \<and> re_scope e = sub_scope sub \<and> past (sub_cursor sub) (re_sequence e))"

definition merged_ok :: "replay_event set \<Rightarrow> string \<Rightarrow> u64 option \<Rightarrow> (u64, replay_event) btmap \<Rightarrow> bool" where
  "merged_ok L scope after m \<longleftrightarrow>
     bt_wf m
     \<and> (\<forall>(k, e) \<in> set m. re_sequence e = k \<and> e \<in> L \<and> re_scope e = scope
          \<and> (case after of None \<Rightarrow> True | Some a \<Rightarrow> a < k))"

lemma merged_ok_insert:
  assumes "merged_ok L scope after m" and "e \<in> L" and "re_scope e = scope"
    and "case after of None \<Rightarrow> True | Some a \<Rightarrow> a < re_sequence e"
  shows "merged_ok L scope after (bt_insert (re_sequence e) e m)"
proof -
  have wf: "bt_wf m" using assms(1) by (simp add: merged_ok_def)
  show ?thesis
    using assms unfolding merged_ok_def btm.entries_insert [OF wf] by auto
qed

lemma merge_backlog_ok:
  assumes "merged_ok L scope after m" and "\<forall>e \<in> set es. re_scope e = scope \<longrightarrow> e \<in> L"
  shows "merged_ok L scope after (merge_backlog scope after m es)
    \<and> bt_keys (merge_backlog scope after m es) =
        bt_keys m \<union> {re_sequence e | e. e \<in> set es \<and> re_scope e = scope
                        \<and> (case after of None \<Rightarrow> True | Some a \<Rightarrow> a < re_sequence e)}"
  using assms
proof (induction es arbitrary: m)
  case (Cons e es)
  let ?take = "re_scope e = scope \<and> (case after of None \<Rightarrow> True | Some a \<Rightarrow> a < re_sequence e)"
  define m1 where "m1 = (if ?take \<and> \<not> bt_contains m (re_sequence e) then bt_insert (re_sequence e) e m else m)"
  have step: "merge_backlog scope after m (e # es) = merge_backlog scope after m1 es"
    by (simp add: m1_def conj_assoc)
  have "merged_ok L scope after m1"
    using Cons.prems merged_ok_insert [of L scope after m e] by (simp add: m1_def)
  moreover have "bt_keys m1 = bt_keys m \<union> (if ?take then {re_sequence e} else {})"
    by (auto simp: m1_def bt_contains_keys)
  ultimately show ?case
    using Cons.IH [of m1] Cons.prems(2) unfolding step by auto
qed simp

lemma prepend_backlog_ok:
  assumes "sub_ok L sub" and "\<forall>e \<in> set es. re_scope e = sub_scope sub \<longrightarrow> e \<in> L"
  shows "sub_ok L (prepend_backlog es sub)"
    and "re_sequence ` set (sub_backlog (prepend_backlog es sub)) =
      re_sequence ` set (sub_backlog sub)
      \<union> {re_sequence e | e. e \<in> set es \<and> re_scope e = sub_scope sub \<and> past (sub_cursor sub) (re_sequence e)}"
    and "sub_scope (prepend_backlog es sub) = sub_scope sub"
    and "sub_cursor (prepend_backlog es sub) = sub_cursor sub"
    and "sub_has_catchup (prepend_backlog es sub) = sub_has_catchup sub"
proof -
  let ?after = "map_option cur_sequence (sub_cursor sub)"
  let ?m = "merge_backlog (sub_scope sub) ?after [] (es @ sub_backlog sub)"
  have past: "past (sub_cursor sub) n \<longleftrightarrow> (case ?after of None \<Rightarrow> True | Some a \<Rightarrow> a < n)" for n
    by (cases "sub_cursor sub") (simp_all add: past_def)
  have "\<forall>e \<in> set (es @ sub_backlog sub). re_scope e = sub_scope sub \<longrightarrow> e \<in> L"
    using assms by (auto simp: sub_ok_def)
  from merge_backlog_ok [of L "sub_scope sub" ?after "[]", OF _ this]
  have ok: "merged_ok L (sub_scope sub) ?after ?m"
    and keys: "bt_keys ?m = {re_sequence e | e. e \<in> set (es @ sub_backlog sub)
        \<and> re_scope e = sub_scope sub \<and> past (sub_cursor sub) (re_sequence e)}"
    by (simp_all add: merged_ok_def past)
  have same: "map re_sequence (bt_values ?m) = map fst ?m"
    using ok by (auto simp: bt_values_def merged_ok_def)
  have "sorted_wrt (<) (map re_sequence (bt_values ?m))"
    unfolding same using ok by (simp add: merged_ok_def bt_wf_def)
  moreover have "\<forall>e \<in> set (bt_values ?m). e \<in> L \<and> re_scope e = sub_scope sub
      \<and> past (sub_cursor sub) (re_sequence e)"
    using ok by (auto simp: merged_ok_def bt_values_def past)
  ultimately show "sub_ok L (prepend_backlog es sub)"
    by (simp add: sub_ok_def prepend_backlog_def)
  have "re_sequence ` set (bt_values ?m) = bt_keys ?m"
    unfolding bt_keys_def set_map [symmetric] same ..
  then show "re_sequence ` set (sub_backlog (prepend_backlog es sub)) =
      re_sequence ` set (sub_backlog sub)
      \<union> {re_sequence e | e. e \<in> set es \<and> re_scope e = sub_scope sub \<and> past (sub_cursor sub) (re_sequence e)}"
    using assms(1) by (auto simp: prepend_backlog_def keys sub_ok_def)
qed (simp_all add: prepend_backlog_def)

definition faithful :: "replay_event set \<Rightarrow> catchup \<Rightarrow> bool" where
  "faithful L catch \<longleftrightarrow> (\<forall>sc c es. catch sc c = Ok es \<longrightarrow> set es \<subseteq> L)"

lemma refill_ok:
  assumes "sub_ok L sub" and "faithful L catch" and "refill_from_durable catch sub = (r, s)"
  shows "sub_ok L s \<and> sub_scope s = sub_scope sub \<and> sub_cursor s = sub_cursor sub"
proof -
  have base: "sub_ok L (t\<lparr>sub_baseline := b\<rparr>) = sub_ok L t" for t b by (simp add: sub_ok_def)
  have "sub_ok L (prepend_backlog es sub)" if "catch (sub_scope sub) (sub_cursor sub) = Ok es" for es
    using that assms(1,2) by (intro prepend_backlog_ok(1)) (auto simp: faithful_def)
  then show ?thesis
    using assms(1,3) prepend_backlog_ok(3,4) [OF assms(1), of "[]"]
    by (auto simp: refill_from_durable_def Let_def base prepend_backlog_def
        split: if_splits result.splits)
qed

lemma recv_baseline_ok:
  assumes "sub_ok L sub" and "faithful L catch" and "recv_baseline catch sub = (r, s)"
  shows "sub_ok L s \<and> sub_scope s = sub_scope sub \<and> sub_cursor s = sub_cursor sub"
proof -
  have base: "sub_ok L (t\<lparr>sub_baseline := b\<rparr>) = sub_ok L t" for t b by (simp add: sub_ok_def)
  show ?thesis
    using assms(1,3) refill_ok [OF assms(1,2)]
    by (auto simp: recv_baseline_def base split: if_splits result.splits prod.splits)
qed

lemma recv_wait_Again:
  assumes "recv_wait catch outcome sub = Again s"
  shows "s = sub \<or> (\<exists>u. refill_from_durable catch sub = (Ok u, s))
    \<or> (\<exists>e u. outcome = ChanEvent e \<and> re_scope e = sub_scope sub
         \<and> refill_from_durable catch (prepend_backlog [e] sub) = (Ok u, s))"
proof (cases outcome)
  case (ChanEvent e)
  show ?thesis
  proof (cases "re_scope e = sub_scope sub")
    case True
    obtain r t where "refill_from_durable catch (prepend_backlog [e] sub) = (r, t)"
      by (cases "refill_from_durable catch (prepend_backlog [e] sub)")
    with assms ChanEvent True show ?thesis by (cases r) (simp_all add: recv_wait_def)
  qed (use assms ChanEvent in \<open>simp add: recv_wait_def\<close>)
next
  case ChanLagged
  obtain r t where "refill_from_durable catch sub = (r, t)" by (cases "refill_from_durable catch sub")
  with assms ChanLagged show ?thesis by (cases r) (simp_all add: recv_wait_def)
next
  case ChanClosed
  obtain r t where "refill_from_durable catch sub = (r, t)" by (cases "refill_from_durable catch sub")
  with assms ChanClosed show ?thesis by (cases r) (simp_all add: recv_wait_def split: if_splits)
qed

lemma recv_wait_turns: "recv_wait catch outcome sub \<noteq> Deliver e s" "recv_wait catch outcome sub \<noteq> Pending s"
  by (auto simp: recv_wait_def split: channel_outcome.splits prod.splits result.splits)

lemma recv_wait_ok:
  assumes "sub_ok L sub" and "faithful L catch"
    and "\<And>e. outcome = ChanEvent e \<Longrightarrow> re_scope e = sub_scope sub \<Longrightarrow> e \<in> L"
    and "recv_wait catch outcome sub = Again s"
  shows "sub_ok L s \<and> sub_scope s = sub_scope sub \<and> sub_cursor s = sub_cursor sub"
proof -
  have "sub_ok L (prepend_backlog [e] sub)" if "outcome = ChanEvent e" "re_scope e = sub_scope sub" for e
    using assms(1,3) that by (intro prepend_backlog_ok(1)) auto
  then show ?thesis
    using recv_wait_Again [OF assms(4)] refill_ok [OF _ assms(2)] assms(1)
    by (metis prepend_backlog_ok(3,4) assms(1) empty_iff empty_set prepend_backlog_def
        replay_subscription.select_convs(1,2) replay_subscription.surjective replay_subscription.update_convs(3))
qed

lemma sub_ok_tail: "sub_ok L sub \<Longrightarrow> sub_backlog sub = e # rest \<Longrightarrow> sub_ok L (sub\<lparr>sub_backlog := rest\<rparr>)"
  by (simp add: sub_ok_def)

lemma recv_pop_Deliver:
  assumes "recv_pop sub = Deliver e s" and "sub_ok L sub"
  shows "e \<in> L" and "re_scope e = sub_scope sub" and "past (sub_cursor sub) (re_sequence e)"
    and "sub_cursor sub = Some c \<Longrightarrow> unat (re_sequence e) = Suc (unat (cur_sequence c))"
    and "sub_ok L s" and "sub_cursor s = Some (cursor_replay_event (sub_scope sub) (re_sequence e))"
    and "sub_scope s = sub_scope sub"
proof -
  obtain rest where b: "sub_backlog sub = e # rest"
    and s: "s = sub\<lparr>sub_backlog := rest,
        sub_cursor := Some (cursor_replay_event (re_scope e) (re_sequence e))\<rparr>"
    and sc: "re_scope e = sub_scope sub"
    and exp: "\<And>c. sub_cursor sub = Some c \<Longrightarrow> re_sequence e = u64_saturating_add (cur_sequence c) 1"
    using assms(1) by (auto simp: recv_pop_def Let_def split: list.splits if_splits)
  show "e \<in> L" "re_scope e = sub_scope sub" "past (sub_cursor sub) (re_sequence e)"
    using assms(2) b by (auto simp: sub_ok_def)
  show "sub_cursor s = Some (cursor_replay_event (sub_scope sub) (re_sequence e))"
    "sub_scope s = sub_scope sub" by (simp_all add: s sc)
  show "unat (re_sequence e) = Suc (unat (cur_sequence c))" if c: "sub_cursor sub = Some c"
  proof -
    have "cur_sequence c < re_sequence e"
      using assms(2) b c by (simp add: sub_ok_def past_def)
    then show ?thesis
      using exp [OF c] u64_unat_bound [of "cur_sequence c"]
      by (simp add: word_less_nat_alt unat_u64_saturating_add min_def split: if_splits)
  qed
  have "\<forall>x \<in> set rest. re_sequence e < re_sequence x"
    using assms(2) b by (simp add: sub_ok_def)
  then show "sub_ok L s"
    using assms(2) b by (simp add: sub_ok_def s past_def cursor_replay_event_def cursor_for_family_def)
qed

lemma recv_delivers_next:
  assumes "recv cat n ins sub = Some (Ok e, s, n', ins')" and "sub_ok L sub"
    and "\<And>k. faithful L (cat k)"
    and "\<And>x. ChanEvent x \<in> set ins \<Longrightarrow> re_scope x = sub_scope sub \<Longrightarrow> x \<in> L"
  shows "e \<in> L \<and> re_scope e = sub_scope sub \<and> sub_ok L s \<and> sub_scope s = sub_scope sub
    \<and> sub_cursor s = Some (cursor_replay_event (sub_scope sub) (re_sequence e))
    \<and> set ins' \<subseteq> set ins
    \<and> (\<forall>c. sub_cursor sub = Some c \<longrightarrow> unat (re_sequence e) = Suc (unat (cur_sequence c)))"
  using assms
proof (induction cat n ins sub rule: recv.induct)
  case (1 cat n ins sub)
  obtain r t where t: "recv_baseline (cat n) sub = (r, t)" by (cases "recv_baseline (cat n) sub")
  have tok: "sub_ok L t \<and> sub_scope t = sub_scope sub \<and> sub_cursor t = sub_cursor sub"
    by (rule recv_baseline_ok [OF "1.prems"(2) "1.prems"(3) t])
  obtain u where r: "r = Ok u"
    using "1.prems"(1) by (cases r) (auto simp: recv.simps [of cat n ins sub] t)
  show ?case
  proof (cases "recv_pop t")
    case (Deliver e1 t1)
    have "e1 = e" "t1 = s" "ins' = ins"
      using "1.prems"(1) by (auto simp: recv.simps [of cat n ins sub] t r Deliver)
    then show ?thesis using recv_pop_Deliver [OF Deliver, of L] tok by auto
  next
    case (Again t1)
    have "recv cat (Suc n) ins t1 = Some (Ok e, s, n', ins')"
      using "1.prems"(1) by (simp add: recv.simps [of cat n ins sub] t r Again)
    moreover obtain x rest where x: "sub_backlog t = x # rest" "t1 = t\<lparr>sub_backlog := rest\<rparr>"
      using recv_pop_Again [OF Again] by blast
    moreover have "sub_ok L t1" using sub_ok_tail [of L t] tok x by simp
    ultimately show ?thesis
      using "1.IH"(1) [OF t [symmetric] r Again] "1.prems"(3,4) tok by auto
  next
    case (Pending t1)
    then have t1: "t1 = t" by (auto simp: recv_pop_def Let_def split: list.splits if_splits)
    obtain out ins1 where ins: "ins = out # ins1"
      using "1.prems"(1) by (cases ins) (auto simp: recv.simps [of cat n "[]" sub] t r Pending)
    show ?thesis
    proof (cases "recv_wait (cat (Suc n)) out t1")
      case (Again t2)
      have "recv cat (Suc (Suc n)) ins1 t2 = Some (Ok e, s, n', ins')"
        using "1.prems"(1) by (simp add: recv.simps [of cat n "out # ins1" sub] t r Pending ins Again)
      moreover have t2: "sub_ok L t2 \<and> sub_scope t2 = sub_scope t1 \<and> sub_cursor t2 = sub_cursor t1"
        by (rule recv_wait_ok [OF _ "1.prems"(3) _ Again]) (use "1.prems"(4) tok t1 ins in auto)
      ultimately show ?thesis
        using "1.IH"(2) [OF t [symmetric] r Pending ins Again] "1.prems"(3,4) tok t1 ins by auto
    qed (use "1.prems"(1) recv_wait_turns in \<open>auto simp: recv.simps [of cat n "out # ins1" sub] t r Pending ins\<close>)
  qed (auto simp: recv_pop_def Let_def split: list.splits if_splits)
qed

lemma cur_sequence_replay [simp]: "cur_sequence (cursor_replay_event sc m) = m"
  by (simp add: cursor_replay_event_def cursor_for_family_def)

lemma recv_stream_in_order:
  assumes "sub_ok L sub" and "\<forall>k. faithful L (cat k)"
    and "\<forall>x. ChanEvent x \<in> set ins \<longrightarrow> re_scope x = sub_scope sub \<longrightarrow> x \<in> L"
    and "sub_cursor sub = Some c" and "i < length (recv_stream cat k n ins sub)"
  shows "recv_stream cat k n ins sub ! i \<in> L
    \<and> re_scope (recv_stream cat k n ins sub ! i) = sub_scope sub
    \<and> unat (re_sequence (recv_stream cat k n ins sub ! i)) = Suc (unat (cur_sequence c) + i)"
  using assms
proof (induction cat k n ins sub arbitrary: c i rule: recv_stream.induct)
  case (2 cat k n ins sub)
  obtain e s n1 ins1 where r: "recv cat n ins sub = Some (Ok e, s, n1, ins1)"
    using "2.prems"(5) by (auto split: option.splits prod.splits result.splits)
  have d: "e \<in> L \<and> re_scope e = sub_scope sub \<and> sub_ok L s \<and> sub_scope s = sub_scope sub
      \<and> sub_cursor s = Some (cursor_replay_event (sub_scope sub) (re_sequence e))
      \<and> set ins1 \<subseteq> set ins
      \<and> (\<forall>c. sub_cursor sub = Some c \<longrightarrow> unat (re_sequence e) = Suc (unat (cur_sequence c)))"
    by (rule recv_delivers_next [OF r "2.prems"(1)]) (use "2.prems"(2,3) in auto)
  then have seq: "unat (re_sequence e) = Suc (unat (cur_sequence c))" using "2.prems"(4) by blast
  show ?case
  proof (cases i)
    case 0
    then show ?thesis using d seq by (simp add: r)
  next
    case (Suc j)
    have j: "j < length (recv_stream cat k n1 ins1 s)" using "2.prems"(5) by (simp add: r Suc)
    have "recv_stream cat k n1 ins1 s ! j \<in> L
        \<and> re_scope (recv_stream cat k n1 ins1 s ! j) = sub_scope s
        \<and> unat (re_sequence (recv_stream cat k n1 ins1 s ! j)) = Suc (unat (re_sequence e) + j)"
      using "2.IH" [OF r refl refl refl refl, of "cursor_replay_event (sub_scope sub) (re_sequence e)" j]
        d j "2.prems"(2,3) by auto
    then show ?thesis using d seq by (simp add: r Suc)
  qed
qed simp

section \<open>A subscriber of the log\<close>

text \<open>\<open>log_appends ps\<close> is the log after the requests \<open>ps\<close>, the refused ones included.\<close>

definition log_appends :: "(string \<times> replay_event) list \<Rightarrow> event_log" where
  "log_appends ps = foldl (\<lambda>l p. snd (log_append l (fst p) (snd p))) event_log_new ps"

definition logged :: "event_log \<Rightarrow> replay_event set" where
  "logged l = {e. log_at l (re_scope e) (re_sequence e) = Some e}"

text \<open>What the log answers to the \<open>k\<close>-th reading, when \<open>at k\<close> requests have been made.\<close>

definition catchup_at :: "(string \<times> replay_event) list \<Rightarrow> (nat \<Rightarrow> nat) \<Rightarrow> nat \<Rightarrow> catchup" where
  "catchup_at ps at k sc cursor = log_replay_after (log_appends (take (at k) ps)) sc cursor None"

lemma log_appends_snoc:
  "log_appends (ps @ [p]) = snd (log_append (log_appends ps) (fst p) (snd p))"
  by (simp add: log_appends_def)

lemma log_appends_inv: "event_log_inv (log_appends ps)"
proof (induction ps rule: rev_induct)
  case Nil
  show ?case by (simp add: log_appends_def event_log_inv_new)
next
  case (snoc p ps)
  then show ?case unfolding log_appends_snoc by (rule event_log_inv_append)
qed

lemma log_extends_trans: "log_extends a b \<Longrightarrow> log_extends b c \<Longrightarrow> log_extends a c"
  by (simp add: log_extends_def)

lemma log_appends_extends: "log_extends (log_appends ps) (log_appends (ps @ qs))"
proof (induction qs rule: rev_induct)
  case Nil
  show ?case by (simp add: log_extends_def)
next
  case (snoc q qs)
  then show ?case
    using log_at_append(4) [OF log_appends_inv [of "ps @ qs"]] log_appends_snoc [of "ps @ qs" q]
    by (metis append_assoc log_extends_trans)
qed

lemma log_appends_take: "log_extends (log_appends (take n ps)) (log_appends ps)"
  using log_appends_extends [of "take n ps" "drop n ps"] by simp

lemma logged_mono: "log_extends l l' \<Longrightarrow> logged l \<subseteq> logged l'"
  by (auto simp: log_extends_def logged_def)

lemma logged_sent: "event_log_inv l \<Longrightarrow> set (el_sent l) \<subseteq> logged l"
  by (auto simp: logged_def log_at_mem event_log_inv_def)

lemma log_replay_after_logged:
  assumes inv: "event_log_inv l" and "log_replay_after l sc cursor limit = Ok es"
  shows "set es \<subseteq> logged l"
proof -
  have "set es \<subseteq> set (scope_events l sc)"
    using assms(2) by (auto simp: log_replay_after_def Let_def split: result.splits option.splits
        dest: in_set_takeD)
  then show ?thesis using inv by (auto simp: logged_def log_at_mem event_log_inv_def)
qed

lemma catchup_at_faithful: "faithful (logged (log_appends ps)) (catchup_at ps at k)"
  unfolding faithful_def catchup_at_def
  using log_replay_after_logged [OF log_appends_inv] logged_mono [OF log_appends_take] by blast

lemma log_subscribe_ok:
  assumes inv: "event_log_inv l" and "log_subscribe l sc cursor = Ok sub" and "logged l \<subseteq> L"
  shows "sub_ok L sub \<and> sub_scope sub = sc \<and> sub_cursor sub = cursor \<and> sub_has_catchup sub
    \<and> (cursor \<noteq> None \<longrightarrow> sub_baseline sub)"
proof -
  define s0 where "s0 = \<lparr>sub_scope = sc, sub_cursor = cursor, sub_backlog = [],
      sub_has_catchup = True, sub_baseline = (cursor \<noteq> None)\<rparr>"
  have ok: "sub_ok L s0" by (simp add: sub_ok_def s0_def)
  obtain es where es: "log_replay_after l sc cursor None = Ok es"
    and sub: "sub = (if es \<noteq> [] then initialize_backlog es s0 else s0)"
    using assms(2) by (auto simp: log_subscribe_def s0_def Let_def split: result.splits)
  have "\<forall>e \<in> set es. re_scope e = sub_scope s0 \<longrightarrow> e \<in> L"
    using log_replay_after_logged [OF inv es] assms(3) by auto
  from prepend_backlog_ok [OF ok this] ok show ?thesis
    by (simp add: sub initialize_backlog_def sub_ok_def) (simp add: s0_def)
qed

lemma subscriber_reads_log:
  assumes sub: "log_subscribe (log_appends (take t ps)) sc (Some c) = Ok sub"
    and chan: "\<forall>x. ChanEvent x \<in> set ins \<longrightarrow> x \<in> set (el_sent (log_appends ps))"
    and i: "i < length (recv_stream (catchup_at ps at) k n ins sub)"
  shows "unat (cur_sequence c) + i < 2 ^ 64 - 1
    \<and> log_at (log_appends ps) sc (cur_sequence c + 1 + of_nat i) =
        Some (recv_stream (catchup_at ps at) k n ins sub ! i)"
proof -
  let ?L = "logged (log_appends ps)" and ?e = "recv_stream (catchup_at ps at) k n ins sub ! i"
  have ok: "sub_ok ?L sub \<and> sub_scope sub = sc \<and> sub_cursor sub = Some c"
    using log_subscribe_ok [OF log_appends_inv sub logged_mono [OF log_appends_take]] by blast
  have e: "?e \<in> ?L \<and> re_scope ?e = sc \<and> unat (re_sequence ?e) = Suc (unat (cur_sequence c) + i)"
    using recv_stream_in_order [of ?L sub "catchup_at ps at" ins c i k n] ok i chan
      logged_sent [OF log_appends_inv] catchup_at_faithful by blast
  have "Suc (unat (cur_sequence c) + i) < 2 ^ 64"
    using e u64_unat_bound [of "re_sequence ?e"] by simp
  moreover have "re_sequence ?e = cur_sequence c + 1 + of_nat i"
  proof -
    have "re_sequence ?e = of_nat (Suc (unat (cur_sequence c) + i))"
      using e by (metis of_nat_unat ucast_id)
    then show ?thesis by (simp add: ac_simps)
  qed
  ultimately show ?thesis using e by (auto simp: logged_def)
qed

text \<open>
  A wake-up that finds the next sequence in the log returns it: neither a gap in the live channel
  nor a backlog that runs ahead of it sub_keeps the subscriber from it.
\<close>

lemma recv_pop_head:
  assumes "sub_ok L sub" and "sub_cursor sub = Some c" and e: "e \<in> set (sub_backlog sub)"
    and seq: "unat (re_sequence e) = Suc (unat (cur_sequence c))"
  shows "\<exists>s x. recv_pop sub = Deliver x s \<and> re_sequence x = re_sequence e"
proof -
  obtain h rest where h: "sub_backlog sub = h # rest" using e by (cases "sub_backlog sub") auto
  have ok: "cur_sequence c < re_sequence h" "re_scope h = sub_scope sub"
    using assms(1,2) by (simp_all add: sub_ok_def past_def h)
  have "re_sequence h \<le> re_sequence e" using assms(1) e by (auto simp: sub_ok_def h)
  then have eq: "unat (re_sequence h) = Suc (unat (cur_sequence c))"
    using ok seq by (simp add: word_less_nat_alt word_le_nat_alt)
  then have "re_sequence h = u64_saturating_add (cur_sequence c) 1"
    using u64_unat_bound [of "re_sequence h"] by (simp add: word_unat_eq_iff unat_u64_saturating_add)
  moreover have "re_sequence h = re_sequence e" using eq seq by (simp add: word_unat_eq_iff)
  ultimately show ?thesis using ok(2) assms(2) by (simp add: recv_pop_def h Let_def)
qed

lemma recv_pop_ok:
  assumes "sub_ok L sub" and "sub_cursor sub = Some c"
  shows "recv_pop sub = Pending sub \<or> (\<exists>x s. recv_pop sub = Deliver x s)"
proof (cases "sub_backlog sub")
  case (Cons h rest)
  have "re_scope h = sub_scope sub" "cur_sequence c < re_sequence h"
    using assms by (simp_all add: sub_ok_def past_def Cons)
  moreover have "\<not> re_sequence h < u64_saturating_add (cur_sequence c) 1"
    using calculation(2) u64_unat_bound [of "re_sequence h"]
    by (simp add: word_less_nat_alt unat_u64_saturating_add)
  ultimately show ?thesis using assms(2) by (simp add: recv_pop_def Cons Let_def)
qed (simp add: recv_pop_def)

lemma recv_wakes:
  assumes ok: "sub_ok L sub" "faithful L (cat n)" "faithful L (cat (Suc n))"
    and sub: "sub_cursor sub = Some c" "sub_baseline sub" "sub_has_catchup sub"
    and cat: "cat (Suc n) (sub_scope sub) (Some c) = Ok es"
    and e: "e \<in> set es" "re_scope e = sub_scope sub" "unat (re_sequence e) = Suc (unat (cur_sequence c))"
    and out: "\<forall>x. out = ChanEvent x \<longrightarrow> re_scope x = sub_scope sub \<and> x \<in> L"
  shows "\<exists>x s n' ins'. recv cat n (out # ins) sub = Some (Ok x, s, n', ins')"
proof -
  have base: "recv_baseline (cat n) sub = (Ok (), sub)" by (simp add: recv_baseline_def sub(2))
  have woken: "\<exists>x t2. recv_pop t = Deliver x t2" "sub_baseline t" "sub_backlog t \<noteq> []"
    if "sub_ok L s" "sub_cursor s = Some c" "sub_scope s = sub_scope sub" "sub_has_catchup s"
      "t = (prepend_backlog es s)\<lparr>sub_baseline := True\<rparr>" for s t
  proof -
    have mem: "\<forall>e \<in> set es. re_scope e = sub_scope s \<longrightarrow> e \<in> L"
      using ok(3) cat by (auto simp: faithful_def)
    note p = prepend_backlog_ok [OF that(1) mem]
    have "past (sub_cursor s) (re_sequence e)"
      using e(3) by (simp add: past_def that(2) word_less_nat_alt)
    then have "re_sequence e \<in> re_sequence ` set (sub_backlog t)"
      unfolding that(5) using p(2) e(1,2) that(3) by auto
    then obtain x where x: "x \<in> set (sub_backlog t)" "re_sequence x = re_sequence e" by auto
    have "sub_ok L t" "sub_cursor t = Some c"
      using p(1,4) that(2) by (simp_all add: that(5) sub_ok_def)
    from recv_pop_head [OF this x(1)] x(2) e(3) show "\<exists>x t2. recv_pop t = Deliver x t2" by auto
    show "sub_baseline t" "sub_backlog t \<noteq> []" using x(1) by (auto simp: that(5))
  qed
  have refill: "refill_from_durable (cat (Suc n)) s = (Ok (), (prepend_backlog es s)\<lparr>sub_baseline := True\<rparr>)"
    if "sub_cursor s = Some c" "sub_scope s = sub_scope sub" "sub_has_catchup s" for s
    using cat that by (simp add: refill_from_durable_def Let_def prepend_backlog_def)
  have wait: "\<exists>s. recv_wait (cat (Suc n)) out sub = Again ((prepend_backlog es s)\<lparr>sub_baseline := True\<rparr>)
      \<and> sub_ok L s \<and> sub_cursor s = Some c \<and> sub_scope s = sub_scope sub \<and> sub_has_catchup s"
  proof (cases out)
    case (ChanEvent x)
    have "sub_ok L (prepend_backlog [x] sub)" using ok(1) out ChanEvent by (intro prepend_backlog_ok) auto
    moreover have "refill_from_durable (cat (Suc n)) (prepend_backlog [x] sub) =
        (Ok (), (prepend_backlog es (prepend_backlog [x] sub))\<lparr>sub_baseline := True\<rparr>)"
      by (rule refill) (simp_all add: prepend_backlog_def sub)
    moreover have "re_scope x = sub_scope sub" using out ChanEvent by blast
    ultimately show ?thesis
      by (intro exI [of _ "prepend_backlog [x] sub"])
        (simp add: recv_wait_def ChanEvent sub prepend_backlog_def [of "[x]"])
  next
    case ChanLagged
    with ok(1) sub show ?thesis by (intro exI [of _ sub]) (simp add: recv_wait_def refill)
  next
    case ChanClosed
    with ok(1) sub woken(3) [OF ok(1) sub(1) refl sub(3) refl] show ?thesis
      by (intro exI [of _ sub]) (simp add: recv_wait_def refill)
  qed
  then obtain s where s: "recv_wait (cat (Suc n)) out sub = Again ((prepend_backlog es s)\<lparr>sub_baseline := True\<rparr>)"
    "sub_ok L s" "sub_cursor s = Some c" "sub_scope s = sub_scope sub" "sub_has_catchup s" by blast
  from woken(1) [OF s(2-5) refl]
  have "\<exists>x t n' ins'. recv cat (Suc (Suc n)) ins ((prepend_backlog es s)\<lparr>sub_baseline := True\<rparr>)
      = Some (Ok x, t, n', ins')"
    by (auto simp: recv.simps [of cat "Suc (Suc n)"] recv_baseline_def)
  then have step: ?thesis if "recv_pop sub = Pending sub"
    using s(1) that by (simp add: recv.simps [of cat n "out # ins" sub] base)
  show ?thesis
    using step recv_pop_ok [OF ok(1) sub(1)] by (auto simp: recv.simps [of cat n "out # ins" sub] base)
qed

text \<open>The states of a subscriber of the log: opened after a cursor, then any number of receptions.\<close>

definition sub_keeps :: "replay_subscription \<Rightarrow> replay_subscription \<Rightarrow> bool" where
  "sub_keeps sub s \<longleftrightarrow> (sub_has_catchup sub \<longrightarrow> sub_has_catchup s) \<and> (sub_baseline sub \<longrightarrow> sub_baseline s)"

lemma sub_keeps_trans: "sub_keeps a b \<Longrightarrow> sub_keeps b c \<Longrightarrow> sub_keeps a c"
  by (simp add: sub_keeps_def)

lemma sub_keeps_prepend: "sub_keeps sub (prepend_backlog es sub)"
  by (simp add: sub_keeps_def prepend_backlog_def)

lemma sub_keeps_refill: "refill_from_durable catch sub = (r, s) \<Longrightarrow> sub_keeps sub s"
  by (auto simp: refill_from_durable_def Let_def sub_keeps_def prepend_backlog_def
      split: if_splits result.splits)

lemma sub_keeps_baseline: "recv_baseline catch sub = (r, s) \<Longrightarrow> sub_keeps sub s"
  by (auto simp: recv_baseline_def split: if_splits prod.splits result.splits dest!: sub_keeps_refill)
    (simp_all add: sub_keeps_def)

lemma sub_keeps_pop: "recv_pop sub = Again s \<or> recv_pop sub = Deliver e s \<or> recv_pop sub = Pending s \<Longrightarrow> sub_keeps sub s"
  by (auto simp: recv_pop_def sub_keeps_def Let_def split: list.splits if_splits)

lemma sub_keeps_wait:
  assumes "recv_wait catch outcome sub = Again s"
  shows "sub_keeps sub s"
  using recv_wait_Again [OF assms] sub_keeps_refill sub_keeps_trans [OF sub_keeps_prepend] 
  by (auto simp: sub_keeps_def [of sub sub]) blast+

lemma recv_keeps:
  "recv cat n ins sub = Some (Ok e, s, n', ins') \<Longrightarrow> sub_keeps sub s"
proof (induction cat n ins sub rule: recv.induct)
  case (1 cat n ins sub)
  note unfold = recv.simps [of cat n _ sub]
  obtain r t where t: "recv_baseline (cat n) sub = (r, t)" by (cases "recv_baseline (cat n) sub")
  note k0 = sub_keeps_baseline [OF t]
  obtain u where r: "r = Ok u" using "1.prems" by (cases r) (auto simp: unfold t)
  show ?case
  proof (cases "recv_pop t")
    case (Deliver e1 t1)
    then show ?thesis
      using "1.prems" sub_keeps_trans [OF k0 sub_keeps_pop [of t t1 e1]] by (auto simp: unfold t r)
  next
    case (Again t1)
    have "sub_keeps t1 s"
      using "1.prems" "1.IH"(1) [OF t [symmetric] r Again] by (simp add: unfold t r Again)
    then show ?thesis using sub_keeps_trans [OF k0 sub_keeps_trans [OF sub_keeps_pop]] Again by blast
  next
    case (Pending t1)
    obtain out ins1 where ins: "ins = out # ins1"
      using "1.prems" by (cases ins) (auto simp: recv.simps [of cat n "[]" sub] t r Pending)
    show ?thesis
    proof (cases "recv_wait (cat (Suc n)) out t1")
      case (Again t2)
      have "sub_keeps t2 s"
        using "1.prems" "1.IH"(2) [OF t [symmetric] r Pending ins Again]
        by (simp add: recv.simps [of cat n "out # ins1" sub] t r Pending ins Again)
      then show ?thesis
        using sub_keeps_trans [OF k0 sub_keeps_trans [OF sub_keeps_pop sub_keeps_trans [OF sub_keeps_wait [OF Again]]]] Pending
        by blast
    qed (use "1.prems" recv_wait_turns in
        \<open>auto simp: recv.simps [of cat n "out # ins1" sub] t r Pending ins\<close>)
  qed (auto simp: recv_pop_def Let_def split: list.splits if_splits)
qed

lemma recv_of_log:
  assumes r: "recv (catchup_at ps at) n ins sub = Some (Ok e, s, n', ins')"
    and ok: "sub_ok (logged (log_appends ps)) sub"
    and chan: "\<forall>x. ChanEvent x \<in> set ins \<longrightarrow> x \<in> set (el_sent (log_appends ps))"
  shows "e \<in> logged (log_appends ps) \<and> re_scope e = sub_scope sub
    \<and> sub_ok (logged (log_appends ps)) s \<and> sub_scope s = sub_scope sub
    \<and> sub_cursor s = Some (cursor_replay_event (sub_scope sub) (re_sequence e))
    \<and> set ins' \<subseteq> set ins
    \<and> (\<forall>c. sub_cursor sub = Some c \<longrightarrow> unat (re_sequence e) = Suc (unat (cur_sequence c)))"
  by (rule recv_delivers_next [OF r ok catchup_at_faithful])
    (use chan logged_sent [OF log_appends_inv, of ps] in blast)

inductive subscriber :: "(string \<times> replay_event) list \<Rightarrow> string \<Rightarrow> replay_subscription \<Rightarrow> bool"
  for ps sc where
  opened: "log_subscribe (log_appends (take t ps)) sc (Some c) = Ok sub \<Longrightarrow> subscriber ps sc sub"
| received: "subscriber ps sc sub \<Longrightarrow> recv (catchup_at ps at) n ins sub = Some (Ok e, s, n', ins')
    \<Longrightarrow> \<forall>x. ChanEvent x \<in> set ins \<longrightarrow> x \<in> set (el_sent (log_appends ps)) \<Longrightarrow> subscriber ps sc s"

lemma subscriber_ok:
  assumes "subscriber ps sc sub"
  shows "sub_ok (logged (log_appends ps)) sub \<and> sub_scope sub = sc \<and> sub_has_catchup sub
    \<and> sub_baseline sub \<and> (\<exists>c. sub_cursor sub = Some c)"
  using assms
proof induction
  case (opened t c sub)
  from log_subscribe_ok [OF log_appends_inv this logged_mono [OF log_appends_take]] show ?case by auto
next
  case (received sub at n ins e s n' ins')
  from recv_of_log [OF received.hyps(2) _ received.hyps(3)] received.IH recv_keeps [OF received.hyps(2)]
  show ?case by (auto simp: sub_keeps_def)
qed

lemma subscriber_receives:
  assumes s: "subscriber ps sc sub" "sub_cursor sub = Some c"
    and chan: "\<forall>x. ChanEvent x \<in> set ins \<longrightarrow> x \<in> set (el_sent (log_appends ps))"
    and r: "recv (catchup_at ps at) n ins sub = Some (Ok e, s, n', ins')"
  shows "log_at (log_appends ps) sc (cur_sequence c + 1) = Some e
    \<and> cur_sequence c \<noteq> - 1 \<and> sub_cursor s = Some (cursor_replay_event sc (cur_sequence c + 1))"
proof -
  have d: "e \<in> logged (log_appends ps)" "re_scope e = sc"
      "sub_cursor s = Some (cursor_replay_event sc (re_sequence e))"
      "unat (re_sequence e) = Suc (unat (cur_sequence c))"
    using recv_of_log [OF r _ chan] subscriber_ok [OF s(1)] s(2) by auto
  have "re_sequence e = of_nat (Suc (unat (cur_sequence c)))" using d(4) by (metis of_nat_unat ucast_id)
  then have "re_sequence e = cur_sequence c + 1" by (simp add: ac_simps)
  moreover have "cur_sequence c \<noteq> - 1"
    using d(4) u64_unat_bound [of "re_sequence e"] by (auto simp: unat_u64_minus_one)
  ultimately show ?thesis using d by (simp add: logged_def)
qed

lemma subscriber_progresses:
  assumes s: "subscriber ps sc sub" "sub_cursor sub = Some c"
    and chan: "\<forall>x. ChanEvent x \<in> set (out # ins) \<longrightarrow> x \<in> set (el_sent (log_appends ps))"
      "\<forall>x. out = ChanEvent x \<longrightarrow> re_scope x = sc"
    and c: "cur_family c = ReplayEvent" "cur_scope c = sc" "cur_sequence c \<noteq> - 1"
    and log: "log_at (log_appends (take (at (Suc n)) ps)) sc (cur_sequence c + 1) = Some e"
  shows "\<exists>s n' ins'. recv (catchup_at ps at) n (out # ins) sub = Some (Ok e, s, n', ins')"
proof -
  let ?l = "log_appends (take (at (Suc n)) ps)"
  note ok = subscriber_ok [OF s(1)]
  obtain es where es: "log_replay_after ?l sc (Some c) None = Ok es"
    and mem: "\<forall>x. x \<in> set es \<longleftrightarrow> cur_sequence c < re_sequence x \<and> log_at ?l sc (re_sequence x) = Some x"
    using log_replay_after_exact [OF log_appends_inv c] by blast
  have e: "re_sequence e = cur_sequence c + 1" "re_scope e = sc"
    using log log_at_mem [OF log_appends_inv] log_appends_inv [of "take (at (Suc n)) ps"]
    by (auto simp: event_log_inv_def)
  have suc: "unat (re_sequence e) = Suc (unat (cur_sequence c))"
    using c(3) unfolding e(1) by (metis unatSuc add.commute add_eq_0_iff)
  have mem_e: "e \<in> set es" using mem log e(1) suc by (simp add: word_less_nat_alt)
  have cat: "catchup_at ps at (Suc n) (sub_scope sub) (Some c) = Ok es"
    using es ok by (simp add: catchup_at_def)
  have out: "\<forall>x. out = ChanEvent x \<longrightarrow> re_scope x = sub_scope sub \<and> x \<in> logged (log_appends ps)"
    using chan ok logged_sent [OF log_appends_inv, of ps] by auto
  have at: "sub_ok (logged (log_appends ps)) sub" "sub_baseline sub" "sub_has_catchup sub"
      "re_scope e = sub_scope sub"
    using ok e(2) by simp_all
  from recv_wakes [where ins = ins and cat = "catchup_at ps at" and n = n, OF at(1) catchup_at_faithful catchup_at_faithful s(2) at(2,3) cat
      mem_e at(4) suc out]
  obtain x t n' ins' where r: "recv (catchup_at ps at) n (out # ins) sub = Some (Ok x, t, n', ins')"
    by blast
  moreover have "x = e"
  proof -
    have d: "x \<in> logged (log_appends ps)" "re_scope x = sc" "unat (re_sequence x) = unat (re_sequence e)"
      using recv_of_log [OF r conjunct1 [OF ok] chan(1)] ok s(2) suc by auto
    moreover have "re_sequence x = cur_sequence c + 1" using d(3) by (simp add: word_unat_eq_iff e(1))
    ultimately show ?thesis
      using log log_appends_take [of "at (Suc n)" ps] by (simp add: log_extends_def logged_def)
  qed
  ultimately show ?thesis by blast
qed

end
