(* ===== verification/Stream_Archive.thy ===== *)
theory Stream_Archive
  imports Replay_Log
begin

text \<open>
  The stream archive (\<open>starweaver-stream/src/archive.rs\<close>): raw runtime records by run, display
  messages and compact snapshots by replay scope. Raw records and display messages are appended by
  the same two loops over a batch, a check for conflicts and an insertion of the missing sequences,
  which are written once here and used again by the run streams of the session store. The locale
  \<open>sequenced_log\<close> is the contract of such a log: what it promises is that the stored records are
  a set indexed by sequence, so that retries and the order of compatible batches do not matter.

  The event of a raw record is a type variable: its constructors carry model responses, which the
  archive compares for equality and nothing else.
\<close>

section \<open>Records\<close>

datatype agent_stream_source_kind = SrcSubagent

record agent_stream_source =
  ass_kind :: agent_stream_source_kind
  ass_agent_id :: string
  ass_agent_name :: string
  ass_task_id :: "string option"
  ass_run_id :: "run_id option"
  ass_parent_run_id :: "run_id option"
  ass_source_sequence :: u64

record 'e agent_stream_record =
  asr_sequence :: u64
  asr_source :: "agent_stream_source option"
  asr_event :: 'e

record 'e archive_inner =
  ai_raw :: "(session_id \<times> run_id, 'e agent_stream_record list) btmap"
  ai_display :: "(string, display_message list) btmap"
  ai_snapshots :: "(string, replay_snapshot) btmap"

definition archive_new :: "'e archive_inner" where
  "archive_new = \<lparr>ai_raw = [], ai_display = [], ai_snapshots = []\<rparr>"

section \<open>The two loops of an append\<close>

text \<open>
  The check: a record conflicts when the log, or else an earlier record of the batch, holds another
  record at its sequence. The first such sequence is reported.
\<close>

fun batch_conflict :: "('r \<Rightarrow> u64) \<Rightarrow> 'r list \<Rightarrow> 'r list \<Rightarrow> 'r list \<Rightarrow> u64 option" where
  "batch_conflict seq log before [] = None"
| "batch_conflict seq log before (r # rs) =
     (let existing = (case find (\<lambda>e. seq e = seq r) log of
                        Some e \<Rightarrow> Some e
                      | None \<Rightarrow> find (\<lambda>e. seq e = seq r) before)
      in case existing of
           None \<Rightarrow> batch_conflict seq log (before @ [r]) rs
         | Some e \<Rightarrow>
             if e \<noteq> r then Some (seq r) else batch_conflict seq log (before @ [r]) rs)"

text \<open>The insertion of the records whose sequence is missing.\<close>

fun batch_insert :: "('r \<Rightarrow> u64) \<Rightarrow> 'r list \<Rightarrow> 'r list \<Rightarrow> 'r list" where
  "batch_insert seq log [] = log"
| "batch_insert seq log (r # rs) =
     batch_insert seq (if list_all (\<lambda>e. seq e \<noteq> seq r) log then log @ [r] else log) rs"

definition bt_entry :: "('k, 'r list) btmap \<Rightarrow> 'k \<Rightarrow> 'r list" where
  "bt_entry m k = (case map_of m k of None \<Rightarrow> [] | Some rs \<Rightarrow> rs)"

text \<open>
  \<open>entry(..).or_default()\<close> precedes the check, so a refused batch may leave an empty entry behind.
\<close>

definition append_batch ::
    "('r \<Rightarrow> u64) \<Rightarrow> 'k::linorder \<Rightarrow> 'r list \<Rightarrow> ('k, 'r list) btmap \<Rightarrow> u64 option \<times> ('k, 'r list) btmap" where
  "append_batch seq k records m =
     (let log = bt_entry m k in
      case batch_conflict seq log [] records of
        Some n \<Rightarrow> (Some n, bt_insert k log m)
      | None \<Rightarrow> (None, bt_insert k (sort_key seq (batch_insert seq log records)) m))"

section \<open>Operations\<close>

definition append_raw_records ::
    "session_id \<Rightarrow> run_id \<Rightarrow> 'e agent_stream_record list \<Rightarrow> 'e archive_inner
     \<Rightarrow> (unit, replay_error) result \<times> 'e archive_inner" where
  "append_raw_records sid rid records a =
     (case append_batch asr_sequence (sid, rid) records (ai_raw a) of
        (Some n, raw) \<Rightarrow>
          (Err (ReplayFailed (''raw stream conflict for session '' @ sid @ '' run '' @ rid
             @ '' at sequence '' @ u64_to_string n)), a\<lparr>ai_raw := raw\<rparr>)
      | (None, raw) \<Rightarrow> (Ok (), a\<lparr>ai_raw := raw\<rparr>))"

definition append_display_messages ::
    "string \<Rightarrow> display_message list \<Rightarrow> 'e archive_inner
     \<Rightarrow> (unit, replay_error) result \<times> 'e archive_inner" where
  "append_display_messages scope messages a =
     (case append_batch dm_sequence scope messages (ai_display a) of
        (Some n, display) \<Rightarrow>
          (Err (ReplayFailed (''display message conflict for scope '' @ scope
             @ '' at sequence '' @ u64_to_string n)), a\<lparr>ai_display := display\<rparr>)
      | (None, display) \<Rightarrow> (Ok (), a\<lparr>ai_display := display\<rparr>))"

definition cursor_start :: "replay_cursor option \<Rightarrow> u64" where
  "cursor_start cursor =
     (case cursor of None \<Rightarrow> 0 | Some c \<Rightarrow> u64_saturating_add (cur_sequence c) 1)"

definition cursor_check ::
    "replay_cursor_family \<Rightarrow> string \<Rightarrow> replay_cursor option \<Rightarrow> (unit, replay_error) result" where
  "cursor_check family scope cursor =
     (case cursor of None \<Rightarrow> Ok () | Some c \<Rightarrow> replay_cursor_validate c family scope)"

definition replay_raw_after ::
    "session_id \<Rightarrow> run_id \<Rightarrow> replay_cursor option \<Rightarrow> 'e archive_inner
     \<Rightarrow> ('e agent_stream_record list, replay_error) result" where
  "replay_raw_after sid rid cursor a =
     result_map (\<lambda>_. filter (\<lambda>r. cursor_start cursor \<le> asr_sequence r) (bt_entry (ai_raw a) (sid, rid)))
       (cursor_check RawRuntime (replay_scope_run rid) cursor)"

definition replay_display_after ::
    "string \<Rightarrow> replay_cursor option \<Rightarrow> 'e archive_inner
     \<Rightarrow> (display_message list, replay_error) result" where
  "replay_display_after scope cursor a =
     result_map (\<lambda>_. filter (\<lambda>m. cursor_start cursor \<le> dm_sequence m) (bt_entry (ai_display a) scope))
       (cursor_check Display scope cursor)"

definition append_snapshot ::
    "string \<Rightarrow> replay_snapshot \<Rightarrow> 'e archive_inner \<Rightarrow> (unit, replay_error) result \<times> 'e archive_inner" where
  "append_snapshot scope snapshot a =
     (case snapshot_validate snapshot Display scope of
        Ok _ \<Rightarrow> (Ok (), a\<lparr>ai_snapshots := bt_insert scope snapshot (ai_snapshots a)\<rparr>)
      | Err e \<Rightarrow> (Err e, a)
      | Panic \<Rightarrow> (Panic, a))"

definition latest_snapshot :: "string \<Rightarrow> 'e archive_inner \<Rightarrow> replay_snapshot option" where
  "latest_snapshot scope a = map_of (ai_snapshots a) scope"

definition cursor_range :: "string \<Rightarrow> 'e archive_inner \<Rightarrow> (replay_cursor \<times> replay_cursor) option" where
  "cursor_range scope a =
     (case map_of (ai_display a) scope of
        None \<Rightarrow> None
      | Some messages \<Rightarrow>
          if messages = [] then None
          else Some (cursor_display scope (dm_sequence (hd messages)),
                     cursor_display scope (dm_sequence (last messages))))"

section \<open>The two loops against sets\<close>

definition compatible :: "('r \<Rightarrow> u64) \<Rightarrow> 'r set \<Rightarrow> bool" where
  "compatible seq R \<longleftrightarrow> inj_on seq R"

definition ascending :: "('r \<Rightarrow> u64) \<Rightarrow> 'r list \<Rightarrow> bool" where
  "ascending seq log \<longleftrightarrow> sorted (map seq log) \<and> distinct (map seq log)"

lemma ascending_Nil [simp]: "ascending seq []"
  by (simp add: ascending_def)

lemma ascending_compatible: "ascending seq log \<Longrightarrow> compatible seq (set log)"
  by (simp add: ascending_def compatible_def distinct_map)

lemma ascending_unique:
  "ascending seq xs \<Longrightarrow> ascending seq ys \<Longrightarrow> set xs = set ys \<Longrightarrow> xs = ys"
  using map_sorted_distinct_set_unique [of seq xs ys]
  by (simp add: ascending_def distinct_map)

lemma compatible_insert:
  "compatible seq R \<Longrightarrow>
   compatible seq (insert r R) \<longleftrightarrow> (\<forall>e \<in> R. seq e = seq r \<longrightarrow> e = r)"
  by (auto simp: compatible_def inj_on_def)

lemma find_append:
  "(case find P xs of Some e \<Rightarrow> Some e | None \<Rightarrow> find P ys) = find P (xs @ ys)"
  by (induction xs) auto

lemma find_seq_unique:
  assumes "compatible seq (set xs)"
  shows "(case find (\<lambda>e. seq e = seq r) xs of None \<Rightarrow> True | Some e \<Rightarrow> e = r)
         \<longleftrightarrow> compatible seq (insert r (set xs))"
proof (cases "find (\<lambda>e. seq e = seq r) xs")
  case None
  then have "\<forall>e \<in> set xs. seq e \<noteq> seq r"
    by (auto simp: find_None_iff)
  then show ?thesis
    using None by (simp add: compatible_insert [OF assms])
next
  case (Some e)
  then have "e \<in> set xs" "seq e = seq r"
    by (auto simp: find_Some_iff)
  then show ?thesis
    using assms Some by (auto simp: compatible_insert [OF assms] compatible_def inj_on_def)
qed

lemma batch_conflict_None:
  "compatible seq (set log \<union> set before) \<Longrightarrow>
   batch_conflict seq log before rs = None
     \<longleftrightarrow> compatible seq (set log \<union> set before \<union> set rs)"
proof (induction rs arbitrary: before)
  case (Cons r rs)
  have found: "(case find (\<lambda>e. seq e = seq r) (log @ before) of None \<Rightarrow> True | Some e \<Rightarrow> e = r)
      \<longleftrightarrow> compatible seq (insert r (set log \<union> set before))"
    using find_seq_unique [of seq "log @ before" r] Cons.prems by simp
  have sub: "compatible seq (set log \<union> set before \<union> set (r # rs))
      \<Longrightarrow> compatible seq (insert r (set log \<union> set before))"
    by (auto simp: compatible_def intro: inj_on_subset)
  have IH: "compatible seq (insert r (set log \<union> set before)) \<Longrightarrow>
      batch_conflict seq log (before @ [r]) rs = None
        \<longleftrightarrow> compatible seq (set log \<union> set before \<union> set (r # rs))"
    using Cons.IH [of "before @ [r]"] by (simp add: insert_commute)
  show ?case
    using found sub IH by (auto simp: Let_def find_append split: option.splits)
qed simp

lemma batch_insert_distinct:
  "distinct (map seq log) \<Longrightarrow> distinct (map seq (batch_insert seq log rs))"
proof (induction rs arbitrary: log)
  case (Cons r rs)
  have "distinct (map seq (log @ [r]))" if "list_all (\<lambda>e. seq e \<noteq> seq r) log"
    using Cons.prems that by (force simp: list_all_iff)
  then show ?case
    using Cons by simp
qed simp

lemma batch_insert_set:
  "compatible seq (set log \<union> set rs) \<Longrightarrow> set (batch_insert seq log rs) = set log \<union> set rs"
proof (induction rs arbitrary: log)
  case (Cons r rs)
  have "compatible seq (set (if list_all (\<lambda>e. seq e \<noteq> seq r) log then log @ [r] else log) \<union> set rs)"
    using Cons.prems by (auto simp: compatible_def intro: inj_on_subset)
  moreover have "r \<in> set log" if "\<not> list_all (\<lambda>e. seq e \<noteq> seq r) log"
    using that Cons.prems by (auto simp: list_all_iff compatible_def inj_on_def)
  ultimately show ?case
    using Cons.IH by auto
qed simp

lemma bt_entry_insert [simp]: "bt_entry (bt_insert k rs m) j = (if j = k then rs else bt_entry m j)"
  by (simp add: bt_entry_def)

definition logs_ascending :: "('r \<Rightarrow> u64) \<Rightarrow> ('k, 'r list) btmap \<Rightarrow> bool" where
  "logs_ascending seq m \<longleftrightarrow> (\<forall>k. ascending seq (bt_entry m k))"

lemma logs_ascending_Nil [simp]: "logs_ascending seq []"
  by (simp add: logs_ascending_def bt_entry_def)

lemma append_batch_accepts:
  "logs_ascending seq m \<Longrightarrow>
   fst (append_batch seq k rs m) = None \<longleftrightarrow> compatible seq (set (bt_entry m k) \<union> set rs)"
  using batch_conflict_None [of seq "bt_entry m k" "[]" rs] ascending_compatible [of seq "bt_entry m k"]
  by (auto simp: append_batch_def Let_def logs_ascending_def split: option.split)

lemma append_batch_ascending:
  "logs_ascending seq m \<Longrightarrow> logs_ascending seq (snd (append_batch seq k rs m))"
  using batch_insert_distinct [of seq "bt_entry m k" rs]
  by (auto simp: append_batch_def Let_def logs_ascending_def ascending_def
      distinct_map split: option.split)

lemma append_batch_set:
  assumes "logs_ascending seq m" "fst (append_batch seq k rs m) = None"
  shows "set (bt_entry (snd (append_batch seq k rs m)) k) = set (bt_entry m k) \<union> set rs"
  using assms(2) append_batch_accepts [OF assms(1), of k rs] batch_insert_set [of seq "bt_entry m k" rs]
  by (auto simp: append_batch_def Let_def split: option.splits)

lemma append_batch_keeps:
  "fst (append_batch seq k rs m) \<noteq> None \<or> j \<noteq> k \<Longrightarrow>
   bt_entry (snd (append_batch seq k rs m)) j = bt_entry m j"
  by (auto simp: append_batch_def Let_def split: option.splits)

section \<open>The contract of a sequenced log\<close>

locale sequenced_log =
  fixes seq :: "'r \<Rightarrow> u64"
    and wf :: "'s \<Rightarrow> bool"
    and stored :: "'s \<Rightarrow> 'k \<Rightarrow> 'r list"
    and add :: "'k \<Rightarrow> 'r list \<Rightarrow> 's \<Rightarrow> bool \<times> 's"
  assumes stored_ascending: "wf s \<Longrightarrow> ascending seq (stored s k)"
    and add_wf: "wf s \<Longrightarrow> wf (snd (add k rs s))"
    and add_accepts: "wf s \<Longrightarrow> fst (add k rs s) \<longleftrightarrow> compatible seq (set (stored s k) \<union> set rs)"
    and add_stored: "wf s \<Longrightarrow> fst (add k rs s) \<Longrightarrow>
      set (stored (snd (add k rs s)) k) = set (stored s k) \<union> set rs"
    and add_keeps: "\<not> fst (add k rs s) \<or> j \<noteq> k \<Longrightarrow> stored (snd (add k rs s)) j = stored s j"
begin

lemma set_after:
  "wf s \<Longrightarrow>
   set (stored (snd (add k rs s)) j)
     = set (stored s j) \<union> (if fst (add k rs s) \<and> j = k then set rs else {})"
  using add_stored [of s k rs] add_keeps [of k rs s j] by auto

lemma stored_eqI: "wf s \<Longrightarrow> wf t \<Longrightarrow> set (stored s j) = set (stored t j) \<Longrightarrow> stored s j = stored t j"
  using ascending_unique [OF stored_ascending stored_ascending] by blast

lemma grows: "wf s \<Longrightarrow> set (stored s j) \<subseteq> set (stored (snd (add k rs s)) j)"
  by (auto simp: set_after)

lemma retry:
  assumes "wf s" "fst (add k rs s)"
  shows "fst (add k rs (snd (add k rs s)))"
    and "stored (snd (add k rs (snd (add k rs s)))) j = stored (snd (add k rs s)) j"
proof -
  note w = assms(1) add_wf [OF assms(1), of k rs]
  show again: "fst (add k rs (snd (add k rs s)))"
    using assms(2) by (simp add: add_accepts w add_stored [OF assms] Un_assoc)
  show "stored (snd (add k rs (snd (add k rs s)))) j = stored (snd (add k rs s)) j"
    by (rule stored_eqI) (auto simp: w add_wf set_after assms(2) again)
qed

lemma commute:
  assumes "wf s" "fst (add k rs s)" "fst (add j qs (snd (add k rs s)))"
  shows "fst (add j qs s)" "fst (add k rs (snd (add j qs s)))"
    and "stored (snd (add k rs (snd (add j qs s)))) i = stored (snd (add j qs (snd (add k rs s)))) i"
proof -
  note w = assms(1) add_wf [OF assms(1), of k rs] add_wf [OF assms(1), of j qs]
  show first: "fst (add j qs s)"
    using assms(3) grows [OF assms(1), of j k rs]
    by (auto simp: add_accepts w compatible_def elim!: inj_on_subset)
  have "compatible seq (set (stored (snd (add j qs s)) k) \<union> set rs)"
    using assms(2,3) first by (auto simp: add_accepts w set_after Un_ac)
  then show second: "fst (add k rs (snd (add j qs s)))"
    by (simp add: add_accepts w)
  show "stored (snd (add k rs (snd (add j qs s)))) i = stored (snd (add j qs (snd (add k rs s)))) i"
    by (rule stored_eqI) (auto simp: w add_wf set_after assms first second)
qed

lemma split_batch:
  assumes "wf s"
  shows "fst (add k (rs @ qs) s) \<longleftrightarrow> fst (add k rs s) \<and> fst (add k qs (snd (add k rs s)))"
    and "fst (add k (rs @ qs) s) \<Longrightarrow>
      stored (snd (add k (rs @ qs) s)) j = stored (snd (add k qs (snd (add k rs s)))) j"
proof -
  note w = assms add_wf [OF assms, of k rs]
  have "fst (add k (rs @ qs) s) \<Longrightarrow> fst (add k rs s)"
    by (auto simp: add_accepts w compatible_def elim!: inj_on_subset)
  then show both: "fst (add k (rs @ qs) s) \<longleftrightarrow> fst (add k rs s) \<and> fst (add k qs (snd (add k rs s)))"
    using add_stored [OF assms, of k rs] by (auto simp: add_accepts w Un_assoc)
  show "stored (snd (add k (rs @ qs) s)) j = stored (snd (add k qs (snd (add k rs s)))) j"
    if "fst (add k (rs @ qs) s)"
    by (rule stored_eqI) (use that both in \<open>auto simp: w add_wf set_after\<close>)
qed

end

section \<open>The archive\<close>

definition archive_inv :: "'e archive_inner \<Rightarrow> bool" where
  "archive_inv a \<longleftrightarrow>
     logs_ascending asr_sequence (ai_raw a)
     \<and> logs_ascending dm_sequence (ai_display a)
     \<and> (\<forall>scope s. latest_snapshot scope a = Some s \<longrightarrow> snapshot_validate s Display scope = Ok ())"

definition raw_stored :: "'e archive_inner \<Rightarrow> session_id \<times> run_id \<Rightarrow> 'e agent_stream_record list" where
  "raw_stored a k = bt_entry (ai_raw a) k"

definition raw_add ::
    "session_id \<times> run_id \<Rightarrow> 'e agent_stream_record list \<Rightarrow> 'e archive_inner \<Rightarrow> bool \<times> 'e archive_inner" where
  "raw_add k rs a = map_prod is_ok id (append_raw_records (fst k) (snd k) rs a)"

definition display_stored :: "'e archive_inner \<Rightarrow> string \<Rightarrow> display_message list" where
  "display_stored a scope = bt_entry (ai_display a) scope"

definition display_add ::
    "string \<Rightarrow> display_message list \<Rightarrow> 'e archive_inner \<Rightarrow> bool \<times> 'e archive_inner" where
  "display_add scope ms a = map_prod is_ok id (append_display_messages scope ms a)"

lemma raw_add_batch:
  "fst (raw_add k rs a) \<longleftrightarrow> fst (append_batch asr_sequence k rs (ai_raw a)) = None"
  "snd (raw_add k rs a) = a\<lparr>ai_raw := snd (append_batch asr_sequence k rs (ai_raw a))\<rparr>"
  by (auto simp: raw_add_def append_raw_records_def split: prod.splits option.splits)

lemma display_add_batch:
  "fst (display_add k rs a) \<longleftrightarrow> fst (append_batch dm_sequence k rs (ai_display a)) = None"
  "snd (display_add k rs a) = a\<lparr>ai_display := snd (append_batch dm_sequence k rs (ai_display a))\<rparr>"
  by (auto simp: display_add_def append_display_messages_def split: prod.splits option.splits)

interpretation raw_log: sequenced_log asr_sequence archive_inv raw_stored raw_add
  by unfold_locales
    (auto simp: raw_add_batch raw_stored_def archive_inv_def latest_snapshot_def append_batch_accepts
      append_batch_ascending append_batch_set append_batch_keeps logs_ascending_def [THEN iffD1])

interpretation display_log: sequenced_log dm_sequence archive_inv display_stored display_add
  by unfold_locales
    (auto simp: display_add_batch display_stored_def archive_inv_def latest_snapshot_def append_batch_accepts
      append_batch_ascending append_batch_set append_batch_keeps logs_ascending_def [THEN iffD1])

section \<open>Reachable archives and reading\<close>

inductive archive_reachable :: "'e archive_inner \<Rightarrow> bool" where
  start: "archive_reachable archive_new"
| raw: "archive_reachable a \<Longrightarrow> archive_reachable (snd (append_raw_records sid rid rs a))"
| display: "archive_reachable a \<Longrightarrow> archive_reachable (snd (append_display_messages scope ms a))"
| snapshot: "archive_reachable a \<Longrightarrow> archive_reachable (snd (append_snapshot scope s a))"

lemma append_raw_add: "snd (append_raw_records sid rid rs a) = snd (raw_add (sid, rid) rs a)"
  "is_ok (fst (append_raw_records sid rid rs a)) \<longleftrightarrow> fst (raw_add (sid, rid) rs a)"
  by (simp_all add: raw_add_def)

lemma append_display_add: "snd (append_display_messages scope ms a) = snd (display_add scope ms a)"
  "is_ok (fst (append_display_messages scope ms a)) \<longleftrightarrow> fst (display_add scope ms a)"
  by (simp_all add: display_add_def)

lemma append_snapshot_inv: "archive_inv a \<Longrightarrow> archive_inv (snd (append_snapshot scope s a))"
  by (auto simp: append_snapshot_def archive_inv_def latest_snapshot_def split: result.split)

lemma archive_new_inv: "archive_inv archive_new"
  by (simp add: archive_inv_def archive_new_def latest_snapshot_def)

lemma archive_reachable_inv: "archive_reachable a \<Longrightarrow> archive_inv a"
  by (induction rule: archive_reachable.induct)
    (simp_all add: archive_new_inv append_raw_add append_display_add raw_log.add_wf display_log.add_wf
      append_snapshot_inv)

lemma replay_from_start:
  "replay_raw_after sid rid None a = Ok (raw_stored a (sid, rid))"
  "replay_display_after scope None a = Ok (display_stored a scope)"
  by (simp_all add: replay_raw_after_def replay_display_after_def cursor_check_def cursor_start_def
      raw_stored_def display_stored_def)

lemma after_cursor_iff:
  fixes n m :: u64
  assumes "n \<noteq> - 1"
  shows "u64_saturating_add n 1 \<le> m \<longleftrightarrow> n < m"
proof -
  have "n < u64_saturating_add n 1"
    using assms by (rule u64_saturating_add_one_strict)
  then have "unat (u64_saturating_add n 1) = unat n + 1"
    by (simp add: word_less_nat_alt unat_u64_saturating_add)
  then show ?thesis
    by (auto simp: word_le_nat_alt word_less_nat_alt)
qed

lemma sorted_partition:
  "sorted (map seq log) \<Longrightarrow>
   log = filter (\<lambda>r. seq r \<le> n) log @ filter (\<lambda>r. n < seq r) log"
  for seq :: "'r \<Rightarrow> u64"
proof (induction log)
  case (Cons r log)
  have "filter (\<lambda>x. seq x \<le> n) log = []" "filter (\<lambda>x. n < seq x) log = log" if "n < seq r"
    using Cons.prems that by (force simp: filter_empty_conv filter_id_conv)+
  then show ?case
    using Cons by auto
qed simp

lemma replay_display_resumes:
  assumes "archive_inv a" "cur_sequence c \<noteq> - 1" "replay_display_after scope (Some c) a = Ok rest"
  shows "display_stored a scope
           = filter (\<lambda>m. dm_sequence m \<le> cur_sequence c) (display_stored a scope) @ rest"
proof -
  have "rest = filter (\<lambda>m. cur_sequence c < dm_sequence m) (display_stored a scope)"
    using assms(3) by (cases "cursor_check Display scope (Some c)")
      (auto simp: replay_display_after_def cursor_start_def display_stored_def after_cursor_iff [OF assms(2)])
  then show ?thesis
    using sorted_partition [of dm_sequence "display_stored a scope" "cur_sequence c"]
      display_log.stored_ascending [OF assms(1)] by (simp add: ascending_def)
qed

lemma replay_raw_resumes:
  assumes "archive_inv a" "cur_sequence c \<noteq> - 1" "replay_raw_after sid rid (Some c) a = Ok rest"
  shows "raw_stored a (sid, rid)
           = filter (\<lambda>r. asr_sequence r \<le> cur_sequence c) (raw_stored a (sid, rid)) @ rest"
proof -
  have "rest = filter (\<lambda>r. cur_sequence c < asr_sequence r) (raw_stored a (sid, rid))"
    using assms(3) by (cases "cursor_check RawRuntime (replay_scope_run rid) (Some c)")
      (auto simp: replay_raw_after_def cursor_start_def raw_stored_def after_cursor_iff [OF assms(2)])
  then show ?thesis
    using sorted_partition [of asr_sequence "raw_stored a (sid, rid)" "cur_sequence c"]
      raw_log.stored_ascending [OF assms(1)] by (simp add: ascending_def)
qed

text \<open>The cursor range spans the stored messages.\<close>

lemma cursor_range_spans:
  assumes "archive_inv a" "cursor_range scope a = Some (lo, hi)" "m \<in> set (display_stored a scope)"
  shows "cur_sequence lo \<le> dm_sequence m" "dm_sequence m \<le> cur_sequence hi"
proof -
  obtain log where log: "display_stored a scope = log" "log \<noteq> []"
      "cur_sequence lo = dm_sequence (hd log)" "cur_sequence hi = dm_sequence (last log)"
    using assms(2) by (auto simp: cursor_range_def display_stored_def bt_entry_def cursor_display_def
        cursor_for_family_def split: option.splits if_splits)
  have sorted: "sorted (map dm_sequence log)"
    using display_log.stored_ascending [OF assms(1), of scope] log(1) by (simp add: ascending_def)
  obtain i where i: "i < length log" "m = log ! i"
    using assms(3) log(1) by (metis in_set_conv_nth)
  show "cur_sequence lo \<le> dm_sequence m" "dm_sequence m \<le> cur_sequence hi"
    using sorted_nth_mono [OF sorted, of 0 i] sorted_nth_mono [OF sorted, of i "length log - 1"] i log
    by (simp_all add: hd_conv_nth last_conv_nth)
qed

lemma cursor_range_None: "cursor_range scope a = None \<longleftrightarrow> display_stored a scope = []"
  by (auto simp: cursor_range_def display_stored_def bt_entry_def split: option.split)

end
