(* ===== verification/Approvals.thy ===== *)
theory Approvals
  imports Session_Records
begin

text \<open>
  Human decisions (\<open>starweaver-session/src/approval.rs\<close>): approval prompts and deferred tools, how
  they are derived from the metadata of a tool return, the decisions and results that settle them,
  and the transitions the store accepts from a stored record to a resolved one
  (\<open>validate_approval_transition\<close>, \<open>validate_deferred_transition\<close> of \<open>store/memory.rs\<close>).
\<close>

section \<open>Records\<close>

datatype approval_status = ApPending | ApApproved | ApDenied | ApExpired | ApCancelled

record approval_decision =
  ad_status :: approval_status
  ad_decided_by :: "string option"
  ad_decided_at :: datetime
  ad_reason :: "string option"
  ad_metadata :: metadata

record approval_record =
  ap_approval_id :: string
  ap_revision :: u64
  ap_session_id :: session_id
  ap_run_id :: run_id
  ap_action_id :: string
  ap_action_name :: string
  ap_request :: json
  ap_reviewed_arguments :: "json option"
  ap_status :: approval_status
  ap_decision :: "approval_decision option"
  ap_created_at :: datetime
  ap_updated_at :: datetime
  ap_trace_context :: json
  ap_metadata :: metadata

record deferred_tool_record =
  dt_deferred_id :: string
  dt_revision :: u64
  dt_session_id :: session_id
  dt_run_id :: run_id
  dt_tool_call_id :: string
  dt_tool_name :: string
  dt_request :: json
  dt_status :: execution_status
  dt_response :: json
  dt_created_at :: datetime
  dt_updated_at :: datetime
  dt_trace_context :: json
  dt_metadata :: metadata

text \<open>The default trace context is an argument, as it is for run records.\<close>

definition approval_record_new ::
    "datetime \<Rightarrow> json \<Rightarrow> string \<Rightarrow> session_id \<Rightarrow> run_id \<Rightarrow> string \<Rightarrow> string \<Rightarrow> approval_record" where
  "approval_record_new now default_trace approval_id sid rid action_id action_name =
     \<lparr>ap_approval_id = approval_id, ap_revision = 1, ap_session_id = sid, ap_run_id = rid,
      ap_action_id = action_id, ap_action_name = action_name, ap_request = JNull,
      ap_reviewed_arguments = None, ap_status = ApPending, ap_decision = None,
      ap_created_at = now, ap_updated_at = now, ap_trace_context = default_trace,
      ap_metadata = []\<rparr>"

definition deferred_tool_record_new ::
    "datetime \<Rightarrow> json \<Rightarrow> string \<Rightarrow> session_id \<Rightarrow> run_id \<Rightarrow> string \<Rightarrow> string \<Rightarrow> deferred_tool_record" where
  "deferred_tool_record_new now default_trace deferred_id sid rid tool_call_id tool_name =
     \<lparr>dt_deferred_id = deferred_id, dt_revision = 1, dt_session_id = sid, dt_run_id = rid,
      dt_tool_call_id = tool_call_id, dt_tool_name = tool_name, dt_request = JNull,
      dt_status = ExPending, dt_response = JNull, dt_created_at = now, dt_updated_at = now,
      dt_trace_context = default_trace, dt_metadata = []\<rparr>"

section \<open>Records from a tool return\<close>

record tool_return_record_input =
  tri_session_id :: session_id
  tri_run_id :: run_id
  tri_tool_call_id :: string
  tri_tool_name :: string
  tri_metadata :: metadata
  tri_trace_context :: "json option"
  tri_policy :: "json option"

definition tool_return_input_new ::
    "session_id \<Rightarrow> run_id \<Rightarrow> string \<Rightarrow> string \<Rightarrow> metadata \<Rightarrow> tool_return_record_input" where
  "tool_return_input_new sid rid call_id name metadata =
     \<lparr>tri_session_id = sid, tri_run_id = rid, tri_tool_call_id = call_id, tri_tool_name = name,
      tri_metadata = metadata, tri_trace_context = None, tri_policy = None\<rparr>"

definition input_control_flow :: "tool_return_record_input \<Rightarrow> string option" where
  "input_control_flow input =
     (case map_of (tri_metadata input) ''control_flow'' of Some (JString f) \<Rightarrow> Some f | _ \<Rightarrow> None)"

definition input_approval_id :: "tool_return_record_input \<Rightarrow> string" where
  "input_approval_id input = ''approval_'' @ tri_run_id input @ ''_'' @ tri_tool_call_id input"

definition input_deferred_id :: "tool_return_record_input \<Rightarrow> string" where
  "input_deferred_id input = ''deferred_'' @ tri_run_id input @ ''_'' @ tri_tool_call_id input"

definition metadata_or_null :: "metadata \<Rightarrow> string \<Rightarrow> json" where
  "metadata_or_null m k = (case map_of m k of None \<Rightarrow> JNull | Some v \<Rightarrow> v)"

definition approval_from_tool_return ::
    "datetime \<Rightarrow> json \<Rightarrow> tool_return_record_input \<Rightarrow> approval_record option" where
  "approval_from_tool_return now default_trace input =
     (if input_control_flow input \<noteq> Some ''approval_required'' then None
      else
        let r0 = approval_record_new now default_trace (input_approval_id input)
                   (tri_session_id input) (tri_run_id input) (tri_tool_call_id input)
                   (tri_tool_name input);
            r1 = r0\<lparr>ap_request := metadata_or_null (tri_metadata input) ''approval'',
                    ap_reviewed_arguments :=
                      map_of (tri_metadata input) ''starweaver.approval_tool_arguments''\<rparr>;
            r2 = (case tri_trace_context input of
                    None \<Rightarrow> r1 | Some t \<Rightarrow> r1\<lparr>ap_trace_context := t\<rparr>)
        in Some (case tri_policy input of
                   None \<Rightarrow> r2
                 | Some p \<Rightarrow> r2\<lparr>ap_metadata := bt_insert ''policy'' p (ap_metadata r2)\<rparr>))"

definition deferred_from_tool_return ::
    "datetime \<Rightarrow> json \<Rightarrow> tool_return_record_input \<Rightarrow> deferred_tool_record option" where
  "deferred_from_tool_return now default_trace input =
     (if input_control_flow input \<noteq> Some ''call_deferred'' then None
      else
        let r0 = deferred_tool_record_new now default_trace (input_deferred_id input)
                   (tri_session_id input) (tri_run_id input) (tri_tool_call_id input)
                   (tri_tool_name input);
            r1 = r0\<lparr>dt_request := metadata_or_null (tri_metadata input) ''deferred'',
                    dt_status := ExWaiting\<rparr>;
            r2 = (case tri_trace_context input of
                    None \<Rightarrow> r1 | Some t \<Rightarrow> r1\<lparr>dt_trace_context := t\<rparr>)
        in Some (case tri_policy input of
                   None \<Rightarrow> r2
                 | Some p \<Rightarrow> r2\<lparr>dt_metadata := bt_insert ''policy'' p (dt_metadata r2)\<rparr>))"

section \<open>Decisions and results\<close>

datatype tool_approval_decision =
    DecApproved (dec_decided_by: "string option") (dec_reason: "string option")
      (dec_override: "json option") (dec_metadata: metadata)
  | DecDenied (dec_decided_by: "string option") (dec_reason: "string option")
      (dec_metadata: metadata)

definition decision_approved :: tool_approval_decision where
  "decision_approved = DecApproved None None None []"

definition decision_denied :: "string \<Rightarrow> tool_approval_decision" where
  "decision_denied reason = DecDenied None (Some reason) []"

fun with_override_arguments :: "json \<Rightarrow> tool_approval_decision \<Rightarrow> tool_approval_decision" where
  "with_override_arguments args (DecApproved who reason ov metadata) =
     DecApproved who reason (Some args) metadata"
| "with_override_arguments args (DecDenied who reason metadata) = DecDenied who reason metadata"

fun into_approval_decision :: "datetime \<Rightarrow> tool_approval_decision \<Rightarrow> approval_decision" where
  "into_approval_decision now (DecApproved who reason ov metadata) =
     \<lparr>ad_status = ApApproved, ad_decided_by = who, ad_decided_at = now, ad_reason = reason,
      ad_metadata = (case ov of
                       None \<Rightarrow> metadata
                     | Some args \<Rightarrow> bt_insert ''override_arguments'' args metadata)\<rparr>"
| "into_approval_decision now (DecDenied who reason metadata) =
     \<lparr>ad_status = ApDenied, ad_decided_by = who, ad_decided_at = now, ad_reason = reason,
      ad_metadata = metadata\<rparr>"

record deferred_tool_request =
  dq_deferred_id :: string
  dq_session_id :: session_id
  dq_run_id :: run_id
  dq_tool_call_id :: string
  dq_tool_name :: string
  dq_arguments :: json
  dq_trace_context :: json
  dq_metadata :: metadata

definition request_from_record :: "deferred_tool_record \<Rightarrow> deferred_tool_request" where
  "request_from_record r =
     \<lparr>dq_deferred_id = dt_deferred_id r, dq_session_id = dt_session_id r, dq_run_id = dt_run_id r,
      dq_tool_call_id = dt_tool_call_id r, dq_tool_name = dt_tool_name r,
      dq_arguments = dt_request r, dq_trace_context = dt_trace_context r,
      dq_metadata = dt_metadata r\<rparr>"

definition request_into_record :: "datetime \<Rightarrow> json \<Rightarrow> deferred_tool_request \<Rightarrow> deferred_tool_record" where
  "request_into_record now default_trace q =
     (deferred_tool_record_new now default_trace (dq_deferred_id q) (dq_session_id q) (dq_run_id q)
        (dq_tool_call_id q) (dq_tool_name q))
       \<lparr>dt_request := dq_arguments q, dt_trace_context := dq_trace_context q,
        dt_metadata := dq_metadata q\<rparr>"

definition requests_from_records :: "deferred_tool_record list \<Rightarrow> deferred_tool_request list" where
  "requests_from_records rs = map request_from_record rs"

record deferred_tool_result =
  dres_deferred_id :: string
  dres_status :: execution_status
  dres_response :: json
  dres_metadata :: metadata

definition deferred_result :: "execution_status \<Rightarrow> string \<Rightarrow> json \<Rightarrow> deferred_tool_result" where
  "deferred_result status i response =
     \<lparr>dres_deferred_id = i, dres_status = status, dres_response = response, dres_metadata = []\<rparr>"

definition result_completed :: "string \<Rightarrow> json \<Rightarrow> deferred_tool_result" where
  "result_completed = deferred_result ExCompleted"

definition result_failed :: "string \<Rightarrow> json \<Rightarrow> deferred_tool_result" where
  "result_failed = deferred_result ExFailed"

definition result_cancelled :: "string \<Rightarrow> json \<Rightarrow> deferred_tool_result" where
  "result_cancelled = deferred_result ExCancelled"

definition apply_to_record ::
    "datetime \<Rightarrow> deferred_tool_result \<Rightarrow> deferred_tool_record \<Rightarrow> deferred_tool_record" where
  "apply_to_record now res r =
     r\<lparr>dt_status := dres_status res, dt_response := dres_response res, dt_updated_at := now,
       dt_metadata := foldl (\<lambda>m kv. bt_insert (fst kv) (snd kv) m) (dt_metadata r) (dres_metadata res)\<rparr>"

section \<open>Transitions of stored records\<close>

definition validate_approval_transition ::
    "approval_record \<Rightarrow> approval_record \<Rightarrow> unit store_result" where
  "validate_approval_transition existing resolved =
     (if existing = resolved then Ok ()
      else
        let same_request =
              ap_approval_id existing = ap_approval_id resolved
              \<and> ap_session_id existing = ap_session_id resolved
              \<and> ap_run_id existing = ap_run_id resolved
              \<and> ap_action_id existing = ap_action_id resolved
              \<and> ap_action_name existing = ap_action_name resolved
              \<and> ap_request existing = ap_request resolved
              \<and> ap_reviewed_arguments existing = ap_reviewed_arguments resolved
              \<and> ap_created_at existing = ap_created_at resolved
              \<and> ap_trace_context existing = ap_trace_context resolved
              \<and> ap_metadata existing = ap_metadata resolved
        in if ap_status existing \<noteq> ApPending \<or> ap_status resolved = ApPending
              \<or> ap_decision resolved = None \<or> \<not> same_request
           then Err (StoreFailed (''approval transition conflict for '' @ ap_approval_id resolved))
           else Ok ())"

definition validate_deferred_transition ::
    "deferred_tool_record \<Rightarrow> deferred_tool_record \<Rightarrow> unit store_result" where
  "validate_deferred_transition existing resolved =
     (if existing = resolved then Ok ()
      else
        let same_request =
              dt_deferred_id existing = dt_deferred_id resolved
              \<and> dt_session_id existing = dt_session_id resolved
              \<and> dt_run_id existing = dt_run_id resolved
              \<and> dt_tool_call_id existing = dt_tool_call_id resolved
              \<and> dt_tool_name existing = dt_tool_name resolved
              \<and> dt_request existing = dt_request resolved
              \<and> dt_created_at existing = dt_created_at resolved
              \<and> dt_trace_context existing = dt_trace_context resolved
        in if dt_status existing \<notin> {ExPending, ExWaiting}
              \<or> dt_status resolved \<in> {ExPending, ExRunning, ExWaiting} \<or> \<not> same_request
           then Err (StoreFailed (''deferred tool transition conflict for '' @ dt_deferred_id resolved))
           else Ok ())"

section \<open>What the records promise\<close>

text \<open>A tool return gives at most one of the two records, and never one that is already decided.\<close>

lemma tool_return_exclusive:
  "approval_from_tool_return now tr input = None \<or> deferred_from_tool_return now' tr' input = None"
  by (simp add: approval_from_tool_return_def deferred_from_tool_return_def)

lemma approval_from_return_pending:
  assumes "approval_from_tool_return now tr input = Some r"
  shows "ap_status r = ApPending \<and> ap_decision r = None \<and> ap_revision r = 1
    \<and> ap_session_id r = tri_session_id input \<and> ap_run_id r = tri_run_id input
    \<and> ap_action_id r = tri_tool_call_id input
    \<and> ap_approval_id r = ''approval_'' @ tri_run_id input @ ''_'' @ tri_tool_call_id input"
  using assms by (auto simp: approval_from_tool_return_def approval_record_new_def Let_def
      input_approval_id_def split: if_splits option.splits)

lemma deferred_from_return_waiting:
  assumes "deferred_from_tool_return now tr input = Some r"
  shows "dt_status r = ExWaiting \<and> dt_response r = JNull \<and> dt_revision r = 1
    \<and> dt_session_id r = tri_session_id input \<and> dt_run_id r = tri_run_id input
    \<and> dt_deferred_id r = ''deferred_'' @ tri_run_id input @ ''_'' @ tri_tool_call_id input"
  using assms by (auto simp: deferred_from_tool_return_def deferred_tool_record_new_def Let_def
      input_deferred_id_def split: if_splits option.splits)

text \<open>Within one run, the id of a record names its tool call.\<close>

lemma record_ids_inject:
  "tri_run_id a = tri_run_id b \<Longrightarrow>
   input_approval_id a = input_approval_id b \<longleftrightarrow> tri_tool_call_id a = tri_tool_call_id b"
  "tri_run_id a = tri_run_id b \<Longrightarrow>
   input_deferred_id a = input_deferred_id b \<longleftrightarrow> tri_tool_call_id a = tri_tool_call_id b"
  by (simp_all add: input_approval_id_def input_deferred_id_def)

lemma request_roundtrip: "request_from_record (request_into_record now tr q) = q"
  by (simp add: request_from_record_def request_into_record_def deferred_tool_record_new_def)

text \<open>A settled record accepts only itself, so a decision is final.\<close>

lemma decided_is_final:
  "ap_status existing \<noteq> ApPending \<Longrightarrow>
   validate_approval_transition existing resolved = Ok () \<longleftrightarrow> resolved = existing"
  by (auto simp: validate_approval_transition_def Let_def)

lemma settled_is_final:
  "dt_status existing \<notin> {ExPending, ExWaiting} \<Longrightarrow>
   validate_deferred_transition existing resolved = Ok () \<longleftrightarrow> resolved = existing"
  by (auto simp: validate_deferred_transition_def Let_def)

text \<open>Deciding a pending prompt and completing a waiting tool are accepted transitions.\<close>

lemma decision_is_accepted:
  assumes "ap_status r = ApPending"
  shows "validate_approval_transition r
    (r\<lparr>ap_status := ad_status (into_approval_decision now d),
       ap_decision := Some (into_approval_decision now d), ap_updated_at := now\<rparr>) = Ok ()"
  using assms by (cases d) (auto simp: validate_approval_transition_def Let_def)

lemma result_is_accepted:
  assumes "dt_status r \<in> {ExPending, ExWaiting}"
    and "dres_status res \<in> {ExCompleted, ExFailed, ExCancelled}"
  shows "validate_deferred_transition r (apply_to_record now res r) = Ok ()"
  using assms by (auto simp: validate_deferred_transition_def apply_to_record_def Let_def)

end
