(* ===== verification/Usage.thy ===== *)
theory Usage
  imports Prelude
begin

text \<open>
  Usage accounting (\<open>starweaver-usage/src/lib.rs\<close>, \<open>pricing.rs\<close>, \<open>pricing/profile.rs\<close>) and the usage
  ledger of a run (\<open>add_usage\<close>, \<open>update_usage_snapshot_entry\<close>,
  \<open>update_external_usage_snapshot_entry\<close> and \<open>build_usage_snapshot\<close> of
  \<open>starweaver-context/src/agent_context.rs\<close>). Counters are \<open>u64\<close> and saturate; the \<open>u128\<close>
  intermediates of the cost are natural numbers with the saturation written out.
\<close>

section \<open>Counters\<close>

record usage =
  us_requests :: u64
  us_input_tokens :: u64
  us_cache_write_tokens :: u64
  us_cache_write_1h_tokens :: u64
  us_cache_read_tokens :: u64
  us_output_tokens :: u64
  us_total_tokens :: u64
  us_tool_calls :: u64

definition usage_default :: usage where
  "usage_default =
     \<lparr>us_requests = 0, us_input_tokens = 0, us_cache_write_tokens = 0, us_cache_write_1h_tokens = 0,
      us_cache_read_tokens = 0, us_output_tokens = 0, us_total_tokens = 0, us_tool_calls = 0\<rparr>"

definition effective_cache_write_tokens :: "usage \<Rightarrow> u64" where
  "effective_cache_write_tokens u =
     (let reported = (if us_cache_write_tokens u > us_cache_write_1h_tokens u
                      then us_cache_write_tokens u else us_cache_write_1h_tokens u)
      in if reported < us_input_tokens u then reported else us_input_tokens u)"

definition effective_cache_write_1h_tokens :: "usage \<Rightarrow> u64" where
  "effective_cache_write_1h_tokens u =
     (let w = effective_cache_write_tokens u
      in if us_cache_write_1h_tokens u < w then us_cache_write_1h_tokens u else w)"

definition effective_cache_read_tokens :: "usage \<Rightarrow> u64" where
  "effective_cache_read_tokens u =
     (let remaining = u64_saturating_sub (us_input_tokens u) (effective_cache_write_tokens u)
      in if us_cache_read_tokens u < remaining then us_cache_read_tokens u else remaining)"

definition effective_standard_input_tokens :: "usage \<Rightarrow> u64" where
  "effective_standard_input_tokens u =
     u64_saturating_sub (u64_saturating_sub (us_input_tokens u) (effective_cache_write_tokens u))
       (effective_cache_read_tokens u)"

definition usage_add :: "usage \<Rightarrow> usage \<Rightarrow> usage" where
  "usage_add a b =
     \<lparr>us_requests = u64_saturating_add (us_requests a) (us_requests b),
      us_input_tokens = u64_saturating_add (us_input_tokens a) (us_input_tokens b),
      us_cache_write_tokens = u64_saturating_add (us_cache_write_tokens a) (us_cache_write_tokens b),
      us_cache_write_1h_tokens =
        u64_saturating_add (us_cache_write_1h_tokens a) (us_cache_write_1h_tokens b),
      us_cache_read_tokens = u64_saturating_add (us_cache_read_tokens a) (us_cache_read_tokens b),
      us_output_tokens = u64_saturating_add (us_output_tokens a) (us_output_tokens b),
      us_total_tokens = u64_saturating_add (us_total_tokens a) (us_total_tokens b),
      us_tool_calls = u64_saturating_add (us_tool_calls a) (us_tool_calls b)\<rparr>"

definition usage_is_empty :: "usage \<Rightarrow> bool" where
  "usage_is_empty u \<longleftrightarrow>
     us_requests u = 0 \<and> us_input_tokens u = 0 \<and> us_cache_write_tokens u = 0
     \<and> us_cache_write_1h_tokens u = 0 \<and> us_cache_read_tokens u = 0 \<and> us_output_tokens u = 0
     \<and> us_total_tokens u = 0 \<and> us_tool_calls u = 0"

definition with_additional_tool_calls :: "usage \<Rightarrow> u64 \<Rightarrow> usage" where
  "with_additional_tool_calls u n = u\<lparr>us_tool_calls := u64_saturating_add (us_tool_calls u) n\<rparr>"

record pricing_estimate =
  pe_amount_micros_usd :: u64

definition from_micros_usd :: "u64 \<Rightarrow> pricing_estimate" where
  "from_micros_usd n = \<lparr>pe_amount_micros_usd = n\<rparr>"

definition estimate_add :: "pricing_estimate \<Rightarrow> pricing_estimate \<Rightarrow> pricing_estimate" where
  "estimate_add a b =
     \<lparr>pe_amount_micros_usd = u64_saturating_add (pe_amount_micros_usd a) (pe_amount_micros_usd b)\<rparr>"

definition estimate_is_zero :: "pricing_estimate \<Rightarrow> bool" where
  "estimate_is_zero e \<longleftrightarrow> pe_amount_micros_usd e = 0"

definition add_optional_pricing ::
    "pricing_estimate option \<Rightarrow> pricing_estimate option \<Rightarrow> pricing_estimate option" where
  "add_optional_pricing acc estimate =
     (case estimate of
        None \<Rightarrow> acc
      | Some e \<Rightarrow> (case acc of Some t \<Rightarrow> Some (estimate_add t e) | None \<Rightarrow> Some e))"

section \<open>Cost\<close>

definition u128_saturate :: "nat \<Rightarrow> nat" where
  "u128_saturate n = min n (2 ^ 128 - 1)"

definition micros_from_weighted_tokens :: "nat \<Rightarrow> u64" where
  "micros_from_weighted_tokens weighted =
     (let cost = u128_saturate (weighted + 999999) div 1000000
      in if cost > 2 ^ 64 - 1 then - 1 else of_nat cost)"

definition cost_for_tokens :: "u64 \<Rightarrow> u64 \<Rightarrow> u64" where
  "cost_for_tokens tokens rate =
     micros_from_weighted_tokens (u128_saturate (unat tokens * unat rate))"

definition u64_saturating_mul :: "u64 \<Rightarrow> u64 \<Rightarrow> u64" where
  "u64_saturating_mul a b = (if unat a * unat b < 2 ^ 64 then a * b else - 1)"

record cost_budget =
  cb_input_micros :: u64
  cb_output_micros :: u64
  cb_request_micros :: u64
  cb_total_cost_limit :: "u64 option"

definition cost_budget_new :: cost_budget where
  "cost_budget_new =
     \<lparr>cb_input_micros = 0, cb_output_micros = 0, cb_request_micros = 0, cb_total_cost_limit = None\<rparr>"

definition with_input_micros :: "cost_budget \<Rightarrow> u64 \<Rightarrow> cost_budget" where
  "with_input_micros b n = b\<lparr>cb_input_micros := n\<rparr>"

definition with_output_micros :: "cost_budget \<Rightarrow> u64 \<Rightarrow> cost_budget" where
  "with_output_micros b n = b\<lparr>cb_output_micros := n\<rparr>"

definition with_request_micros :: "cost_budget \<Rightarrow> u64 \<Rightarrow> cost_budget" where
  "with_request_micros b n = b\<lparr>cb_request_micros := n\<rparr>"

definition with_total_cost_limit :: "cost_budget \<Rightarrow> u64 \<Rightarrow> cost_budget" where
  "with_total_cost_limit b n = b\<lparr>cb_total_cost_limit := Some n\<rparr>"

definition budget_estimate_micros :: "cost_budget \<Rightarrow> usage \<Rightarrow> u64" where
  "budget_estimate_micros b u =
     u64_saturating_add
       (u64_saturating_add (u64_saturating_mul (us_requests u) (cb_request_micros b))
         (cost_for_tokens (us_input_tokens u) (cb_input_micros b)))
       (cost_for_tokens (us_output_tokens u) (cb_output_micros b))"

definition budget_estimate_pricing :: "cost_budget \<Rightarrow> usage \<Rightarrow> pricing_estimate" where
  "budget_estimate_pricing b u = from_micros_usd (budget_estimate_micros b u)"

datatype usage_token_kind = InputTokens | OutputTokens | TotalTokens

datatype usage_limit_error =
    NextRequest u64 u64
  | TokenLimit usage_token_kind u64 u64
  | CostLimit u64 u64
  | ToolCallsLimit u64 u64

definition budget_check_usage :: "cost_budget \<Rightarrow> usage \<Rightarrow> (unit, usage_limit_error) result" where
  "budget_check_usage b u =
     (case cb_total_cost_limit b of
        None \<Rightarrow> Ok ()
      | Some limit \<Rightarrow>
          let actual = budget_estimate_micros b u
          in if actual > limit then Err (CostLimit limit actual) else Ok ())"

section \<open>Limits\<close>

record usage_limits =
  ul_request_limit :: "u64 option"
  ul_input_tokens_limit :: "u64 option"
  ul_output_tokens_limit :: "u64 option"
  ul_total_tokens_limit :: "u64 option"
  ul_tool_calls_limit :: "u64 option"
  ul_cost_budget :: "cost_budget option"

definition usage_limits_new :: usage_limits where
  "usage_limits_new =
     \<lparr>ul_request_limit = None, ul_input_tokens_limit = None, ul_output_tokens_limit = None,
      ul_total_tokens_limit = None, ul_tool_calls_limit = None, ul_cost_budget = None\<rparr>"

definition with_request_limit :: "usage_limits \<Rightarrow> u64 \<Rightarrow> usage_limits" where
  "with_request_limit l n = l\<lparr>ul_request_limit := Some n\<rparr>"

definition with_input_tokens_limit :: "usage_limits \<Rightarrow> u64 \<Rightarrow> usage_limits" where
  "with_input_tokens_limit l n = l\<lparr>ul_input_tokens_limit := Some n\<rparr>"

definition with_output_tokens_limit :: "usage_limits \<Rightarrow> u64 \<Rightarrow> usage_limits" where
  "with_output_tokens_limit l n = l\<lparr>ul_output_tokens_limit := Some n\<rparr>"

definition with_total_tokens_limit :: "usage_limits \<Rightarrow> u64 \<Rightarrow> usage_limits" where
  "with_total_tokens_limit l n = l\<lparr>ul_total_tokens_limit := Some n\<rparr>"

definition with_tool_calls_limit :: "usage_limits \<Rightarrow> u64 \<Rightarrow> usage_limits" where
  "with_tool_calls_limit l n = l\<lparr>ul_tool_calls_limit := Some n\<rparr>"

definition with_cost_budget :: "usage_limits \<Rightarrow> cost_budget \<Rightarrow> usage_limits" where
  "with_cost_budget l b = l\<lparr>ul_cost_budget := Some b\<rparr>"

definition limits_estimate_cost_micros :: "usage_limits \<Rightarrow> usage \<Rightarrow> u64 option" where
  "limits_estimate_cost_micros l u = map_option (\<lambda>b. budget_estimate_micros b u) (ul_cost_budget l)"

definition limits_estimate_pricing :: "usage_limits \<Rightarrow> usage \<Rightarrow> pricing_estimate option" where
  "limits_estimate_pricing l u = map_option (\<lambda>b. budget_estimate_pricing b u) (ul_cost_budget l)"

definition check_before_request :: "usage_limits \<Rightarrow> usage \<Rightarrow> (unit, usage_limit_error) result" where
  "check_before_request l current =
     (case ul_request_limit l of
        None \<Rightarrow> Ok ()
      | Some limit \<Rightarrow>
          let next_requests = u64_saturating_add (us_requests current) 1
          in if next_requests > limit then Err (NextRequest limit next_requests) else Ok ())"

definition check_tool_calls :: "usage_limits \<Rightarrow> usage \<Rightarrow> (unit, usage_limit_error) result" where
  "check_tool_calls l projected =
     (case ul_tool_calls_limit l of
        Some limit \<Rightarrow>
          if us_tool_calls projected > limit then Err (ToolCallsLimit limit (us_tool_calls projected))
          else Ok ()
      | None \<Rightarrow> Ok ())"

definition check_limit :: "usage_token_kind \<Rightarrow> u64 option \<Rightarrow> u64 \<Rightarrow> (unit, usage_limit_error) result" where
  "check_limit kind limit actual =
     (case limit of
        Some n \<Rightarrow> if actual > n then Err (TokenLimit kind n actual) else Ok ()
      | None \<Rightarrow> Ok ())"

definition check_usage :: "usage_limits \<Rightarrow> usage \<Rightarrow> (unit, usage_limit_error) result" where
  "check_usage l u =
     (case check_limit InputTokens (ul_input_tokens_limit l) (us_input_tokens u) of
        Err e \<Rightarrow> Err e | Panic \<Rightarrow> Panic
      | Ok _ \<Rightarrow>
     (case check_limit OutputTokens (ul_output_tokens_limit l) (us_output_tokens u) of
        Err e \<Rightarrow> Err e | Panic \<Rightarrow> Panic
      | Ok _ \<Rightarrow>
     (case check_limit TotalTokens (ul_total_tokens_limit l) (us_total_tokens u) of
        Err e \<Rightarrow> Err e | Panic \<Rightarrow> Panic
      | Ok _ \<Rightarrow>
     (case ul_cost_budget l of None \<Rightarrow> Ok () | Some b \<Rightarrow> budget_check_usage b u))))"

section \<open>Model prices\<close>

record model_pricing =
  mp_input_micros :: u64
  mp_output_micros :: u64

definition model_pricing_new :: "u64 \<Rightarrow> u64 \<Rightarrow> model_pricing" where
  "model_pricing_new i out = \<lparr>mp_input_micros = i, mp_output_micros = out\<rparr>"

definition model_pricing_estimate :: "model_pricing \<Rightarrow> usage \<Rightarrow> pricing_estimate" where
  "model_pricing_estimate p u =
     from_micros_usd
       (u64_saturating_add (cost_for_tokens (us_input_tokens u) (mp_input_micros p))
         (cost_for_tokens (us_output_tokens u) (mp_output_micros p)))"

record model_pricing_details =
  mpd_input_micros :: u64
  mpd_output_micros :: u64
  mpd_cache_write_micros :: "u64 option"
  mpd_cache_write_1h_micros :: "u64 option"
  mpd_cache_read_micros :: "u64 option"

definition details_new :: "u64 \<Rightarrow> u64 \<Rightarrow> model_pricing_details" where
  "details_new i out =
     \<lparr>mpd_input_micros = i, mpd_output_micros = out, mpd_cache_write_micros = None,
      mpd_cache_write_1h_micros = None, mpd_cache_read_micros = None\<rparr>"

definition details_default :: model_pricing_details where
  "details_default = details_new 0 0"

definition details_standard_pricing :: "model_pricing_details \<Rightarrow> model_pricing" where
  "details_standard_pricing d = model_pricing_new (mpd_input_micros d) (mpd_output_micros d)"

definition with_cache_write_micros :: "model_pricing_details \<Rightarrow> u64 \<Rightarrow> model_pricing_details" where
  "with_cache_write_micros d n = d\<lparr>mpd_cache_write_micros := Some n\<rparr>"

definition with_cache_write_1h_micros :: "model_pricing_details \<Rightarrow> u64 \<Rightarrow> model_pricing_details" where
  "with_cache_write_1h_micros d n = d\<lparr>mpd_cache_write_1h_micros := Some n\<rparr>"

definition with_cache_read_micros :: "model_pricing_details \<Rightarrow> u64 \<Rightarrow> model_pricing_details" where
  "with_cache_read_micros d n = d\<lparr>mpd_cache_read_micros := Some n\<rparr>"

definition details_estimate_micros :: "model_pricing_details \<Rightarrow> usage \<Rightarrow> u64" where
  "details_estimate_micros d u =
     (let write_rate = (case mpd_cache_write_micros d of Some r \<Rightarrow> r | None \<Rightarrow> mpd_input_micros d);
          write_1h_rate = (case mpd_cache_write_1h_micros d of Some r \<Rightarrow> r | None \<Rightarrow> write_rate);
          read_rate = (case mpd_cache_read_micros d of Some r \<Rightarrow> r | None \<Rightarrow> mpd_input_micros d);
          write_tokens = effective_cache_write_tokens u;
          write_1h_tokens = effective_cache_write_1h_tokens u;
          read_tokens = effective_cache_read_tokens u;
          default_write_tokens = u64_saturating_sub write_tokens write_1h_tokens;
          standard_tokens = effective_standard_input_tokens u;
          w1 = u128_saturate (unat standard_tokens * unat (mpd_input_micros d));
          w2 = u128_saturate (w1 + u128_saturate (unat default_write_tokens * unat write_rate));
          w3 = u128_saturate (w2 + u128_saturate (unat write_1h_tokens * unat write_1h_rate));
          weighted = u128_saturate (w3 + u128_saturate (unat read_tokens * unat read_rate))
      in u64_saturating_add (micros_from_weighted_tokens weighted)
           (cost_for_tokens (us_output_tokens u) (mpd_output_micros d)))"

definition details_estimate :: "model_pricing_details \<Rightarrow> usage \<Rightarrow> pricing_estimate" where
  "details_estimate d u = from_micros_usd (details_estimate_micros d u)"

record model_pricing_tier =
  mpt_max_input_tokens :: "u64 option"
  mpt_pricing :: model_pricing_details

definition tier_new :: "u64 option \<Rightarrow> model_pricing_details \<Rightarrow> model_pricing_tier" where
  "tier_new limit p = \<lparr>mpt_max_input_tokens = limit, mpt_pricing = p\<rparr>"

definition tier_matches :: "model_pricing_tier \<Rightarrow> u64 \<Rightarrow> bool" where
  "tier_matches t n = (case mpt_max_input_tokens t of Some m \<Rightarrow> n \<le> m | None \<Rightarrow> True)"

datatype model_pricing_profile = Single model_pricing_details | Tiered "model_pricing_tier list"

fun profile_default_details :: "model_pricing_profile \<Rightarrow> model_pricing_details" where
  "profile_default_details (Single p) = p"
| "profile_default_details (Tiered []) = details_default"
| "profile_default_details (Tiered (t # ts)) = mpt_pricing t"

fun profile_is_tiered :: "model_pricing_profile \<Rightarrow> bool" where
  "profile_is_tiered (Single p) = False"
| "profile_is_tiered (Tiered ts) = True"

fun profile_tiers :: "model_pricing_profile \<Rightarrow> model_pricing_tier list option" where
  "profile_tiers (Single p) = None"
| "profile_tiers (Tiered ts) = Some ts"

definition profile_standard_pricing :: "model_pricing_profile \<Rightarrow> model_pricing" where
  "profile_standard_pricing p = details_standard_pricing (profile_default_details p)"

fun select_tier :: "model_pricing_details \<Rightarrow> u64 \<Rightarrow> model_pricing_tier list \<Rightarrow> model_pricing_details" where
  "select_tier fallback n [] = fallback"
| "select_tier fallback n (t # ts) =
     (if tier_matches t n then mpt_pricing t else select_tier (mpt_pricing t) n ts)"

fun details_for_input_tokens :: "model_pricing_profile \<Rightarrow> u64 \<Rightarrow> model_pricing_details" where
  "details_for_input_tokens (Single p) n = p"
| "details_for_input_tokens (Tiered ts) n = select_tier details_default n ts"

definition details_for_usage :: "model_pricing_profile \<Rightarrow> usage \<Rightarrow> model_pricing_details" where
  "details_for_usage p u = details_for_input_tokens p (us_input_tokens u)"

definition profile_estimate_micros :: "model_pricing_profile \<Rightarrow> usage \<Rightarrow> u64" where
  "profile_estimate_micros p u = details_estimate_micros (details_for_usage p u) u"

definition profile_estimate :: "model_pricing_profile \<Rightarrow> usage \<Rightarrow> pricing_estimate" where
  "profile_estimate p u = from_micros_usd (profile_estimate_micros p u)"

section \<open>The ledger of a run\<close>

record usage_snapshot_entry =
  use_agent_id :: string
  use_agent_name :: string
  use_model_id :: string
  use_usage :: usage
  use_estimate_pricing :: "pricing_estimate option"
  use_usage_id :: "string option"
  use_source :: string

record usage_agent_total =
  uat_agent_name :: string
  uat_model_id :: string
  uat_usage :: usage
  uat_estimate_pricing :: "pricing_estimate option"
  uat_usage_id :: "string option"
  uat_source :: string

record usage_snapshot =
  uss_run_id :: string
  uss_latest_usage :: "usage option"
  uss_total_usage :: usage
  uss_estimate_pricing :: "pricing_estimate option"
  uss_entries :: "usage_snapshot_entry list"
  uss_agent_usages :: "(string, usage_agent_total) btmap"
  uss_model_usages :: "(string, usage) btmap"
  uss_model_estimate_pricing :: "(string, pricing_estimate) btmap"

text \<open>The fields of \<open>AgentContext\<close> the ledger reads and writes.\<close>

record usage_ledger =
  led_parent_run_id :: "string option"
  led_run_id :: "string option"
  led_usage :: usage
  led_entries :: "(string, usage_snapshot_entry) btmap"

definition add_usage :: "usage \<Rightarrow> usage_ledger \<Rightarrow> usage_ledger" where
  "add_usage u l = l\<lparr>led_usage := usage_add (led_usage l) u\<rparr>"

definition agent_total_step :: "usage_snapshot_entry \<Rightarrow> (string, usage_agent_total) btmap \<Rightarrow> (string, usage_agent_total) btmap" where
  "agent_total_step e m =
     (case map_of m (use_agent_id e) of
        Some t \<Rightarrow>
          bt_insert (use_agent_id e)
            \<lparr>uat_agent_name = uat_agent_name t,
             uat_model_id = (if uat_model_id t \<noteq> use_model_id e then ''multiple'' else uat_model_id t),
             uat_usage = usage_add (uat_usage t) (use_usage e),
             uat_estimate_pricing =
               add_optional_pricing (uat_estimate_pricing t) (use_estimate_pricing e),
             uat_usage_id = (if uat_usage_id t \<noteq> use_usage_id e then None else uat_usage_id t),
             uat_source = uat_source t\<rparr> m
      | None \<Rightarrow>
          bt_insert (use_agent_id e)
            \<lparr>uat_agent_name = use_agent_name e, uat_model_id = use_model_id e,
             uat_usage = use_usage e, uat_estimate_pricing = use_estimate_pricing e,
             uat_usage_id = use_usage_id e, uat_source = use_source e\<rparr> m)"

text \<open>\<open>entry(key).or_default().add_assign(value)\<close>.\<close>

definition bt_accumulate :: "('v \<Rightarrow> 'v \<Rightarrow> 'v) \<Rightarrow> 'v \<Rightarrow> 'k::linorder \<Rightarrow> 'v \<Rightarrow> ('k, 'v) btmap \<Rightarrow> ('k, 'v) btmap" where
  "bt_accumulate add zero k x m =
     bt_insert k (add (case map_of m k of None \<Rightarrow> zero | Some v \<Rightarrow> v) x) m"

definition snapshot_step :: "usage_snapshot_entry \<Rightarrow> usage_snapshot \<Rightarrow> usage_snapshot" where
  "snapshot_step e s =
     s\<lparr>uss_total_usage := usage_add (uss_total_usage s) (use_usage e),
       uss_estimate_pricing := add_optional_pricing (uss_estimate_pricing s) (use_estimate_pricing e),
       uss_model_estimate_pricing :=
         (case use_estimate_pricing e of
            Some p \<Rightarrow> bt_accumulate estimate_add (from_micros_usd 0) (use_model_id e) p
                        (uss_model_estimate_pricing s)
          | None \<Rightarrow> uss_model_estimate_pricing s),
       uss_agent_usages := agent_total_step e (uss_agent_usages s),
       uss_model_usages :=
         bt_accumulate usage_add usage_default (use_model_id e) (use_usage e) (uss_model_usages s)\<rparr>"

definition build_usage_snapshot :: "usage_ledger \<Rightarrow> usage_snapshot" where
  "build_usage_snapshot l =
     (let entries = sort_key use_agent_id (bt_values (led_entries l));
          start = \<lparr>uss_run_id = (case led_parent_run_id l of
                                  Some r \<Rightarrow> r
                                | None \<Rightarrow> (case led_run_id l of Some r \<Rightarrow> r | None \<Rightarrow> [])),
                   uss_latest_usage = None, uss_total_usage = usage_default,
                   uss_estimate_pricing = None, uss_entries = entries, uss_agent_usages = [],
                   uss_model_usages = [], uss_model_estimate_pricing = []\<rparr>
      in fold snapshot_step entries start)"

definition update_usage_snapshot_entry ::
    "string \<Rightarrow> string \<Rightarrow> string \<Rightarrow> usage \<Rightarrow> pricing_estimate option \<Rightarrow> string option \<Rightarrow> string
     \<Rightarrow> string option \<Rightarrow> usage_ledger \<Rightarrow> usage_snapshot \<times> usage_ledger" where
  "update_usage_snapshot_entry agent_id agent_name model_id u estimate usage_id source ledger_key l =
     (let entry = \<lparr>use_agent_id = agent_id, use_agent_name = agent_name, use_model_id = model_id,
                   use_usage = u, use_estimate_pricing = estimate, use_usage_id = usage_id,
                   use_source = source\<rparr>;
          l1 = l\<lparr>led_entries :=
                  bt_insert (case ledger_key of Some k \<Rightarrow> k | None \<Rightarrow> agent_id) entry (led_entries l)\<rparr>
      in (build_usage_snapshot l1, l1))"

definition update_external_usage_snapshot_entry ::
    "string \<Rightarrow> string \<Rightarrow> string \<Rightarrow> usage \<Rightarrow> pricing_estimate option \<Rightarrow> string option
     \<Rightarrow> usage_ledger \<Rightarrow> usage_snapshot \<times> usage_ledger" where
  "update_external_usage_snapshot_entry source_id source_name model_id u estimate usage_id l =
     update_usage_snapshot_entry source_id source_name model_id u estimate usage_id ''external''
       (Some (case usage_id of
                None \<Rightarrow> ''external:'' @ source_id
              | Some i \<Rightarrow> ''external:'' @ source_id @ '':'' @ i)) l"

section \<open>The four input classes share out the input exactly\<close>

lemma unat_u64_saturating_sub: "unat (u64_saturating_sub a b) = unat a - unat b"
  by (simp add: u64_saturating_sub_def unat_sub word_le_nat_alt not_le)

lemma effective_split:
  "unat (effective_standard_input_tokens u)
     + unat (u64_saturating_sub (effective_cache_write_tokens u) (effective_cache_write_1h_tokens u))
     + unat (effective_cache_write_1h_tokens u) + unat (effective_cache_read_tokens u)
   = unat (us_input_tokens u)"
  by (auto simp: effective_standard_input_tokens_def effective_cache_read_tokens_def
      effective_cache_write_1h_tokens_def effective_cache_write_tokens_def Let_def
      unat_u64_saturating_sub word_less_nat_alt)

lemma effective_capped:
  "effective_cache_write_tokens u \<le> max (us_cache_write_tokens u) (us_cache_write_1h_tokens u)"
  "effective_cache_write_1h_tokens u \<le> us_cache_write_1h_tokens u"
  "effective_cache_read_tokens u \<le> us_cache_read_tokens u"
  by (auto simp: effective_cache_read_tokens_def effective_cache_write_1h_tokens_def
      effective_cache_write_tokens_def Let_def max_def)

lemma effective_consistent:
  assumes "us_cache_write_1h_tokens u \<le> us_cache_write_tokens u"
    and "unat (us_cache_write_tokens u) + unat (us_cache_read_tokens u) \<le> unat (us_input_tokens u)"
  shows "effective_cache_write_tokens u = us_cache_write_tokens u
    \<and> effective_cache_write_1h_tokens u = us_cache_write_1h_tokens u
    \<and> effective_cache_read_tokens u = us_cache_read_tokens u"
proof -
  have w: "effective_cache_write_tokens u = us_cache_write_tokens u"
    using assms by (auto simp: effective_cache_write_tokens_def Let_def word_le_nat_alt word_less_nat_alt
        word_unat_eq_iff)
  show ?thesis
    using assms unfolding effective_cache_read_tokens_def effective_cache_write_1h_tokens_def w Let_def
    by (auto simp: word_le_nat_alt word_less_nat_alt word_unat_eq_iff unat_u64_saturating_sub)
qed

section \<open>The estimate is the exact cost, rounded up and saturated\<close>

definition u64_clip :: "nat \<Rightarrow> nat" where
  "u64_clip n = min n (2 ^ 64 - 1)"

definition ceil_micros :: "nat \<Rightarrow> nat" where
  "ceil_micros weighted = (weighted + 999999) div 1000000"

lemma micros_from_weighted:
  assumes "weighted < 2 ^ 128 - 999999"
  shows "unat (micros_from_weighted_tokens weighted) = u64_clip (ceil_micros weighted)"
proof -
  have "u128_saturate (weighted + 999999) = weighted + 999999"
    using assms by (simp add: u128_saturate_def)
  then show ?thesis
    by (simp add: micros_from_weighted_tokens_def u64_clip_def ceil_micros_def Let_def
        unat_u64_minus_one unat_of_nat take_bit_nat_eq_self)
qed

lemma u64_product_bound: "unat (a::u64) * unat (b::u64) \<le> (2 ^ 64 - 1) * (2 ^ 64 - 1)"
  using u64_unat_bound [of a] u64_unat_bound [of b] by (intro mult_le_mono) simp_all

lemma cost_for_tokens_exact:
  "unat (cost_for_tokens t r) = u64_clip (ceil_micros (unat t * unat r))"
proof -
  have "unat t * unat r < 2 ^ 128 - 999999" using u64_product_bound [of t r] by simp
  then show ?thesis
    using micros_from_weighted by (simp add: cost_for_tokens_def u128_saturate_def)
qed

text \<open>The weighted input cost in unbounded arithmetic, with the fallback rates of the price record.\<close>

definition weighted_input :: "model_pricing_details \<Rightarrow> usage \<Rightarrow> nat" where
  "weighted_input d u =
     (let write_rate = (case mpd_cache_write_micros d of Some r \<Rightarrow> r | None \<Rightarrow> mpd_input_micros d);
          write_1h_rate = (case mpd_cache_write_1h_micros d of Some r \<Rightarrow> r | None \<Rightarrow> write_rate);
          read_rate = (case mpd_cache_read_micros d of Some r \<Rightarrow> r | None \<Rightarrow> mpd_input_micros d);
          write = unat (effective_cache_write_tokens u);
          write_1h = unat (effective_cache_write_1h_tokens u)
      in unat (effective_standard_input_tokens u) * unat (mpd_input_micros d)
         + (write - write_1h) * unat write_rate + write_1h * unat write_1h_rate
         + unat (effective_cache_read_tokens u) * unat read_rate)"

lemma shared_out_bound:
  fixes a b c d r1 r2 r3 r4 M N :: nat
  assumes "a + b + c + d \<le> N" and "r1 \<le> M" "r2 \<le> M" "r3 \<le> M" "r4 \<le> M"
  shows "a * r1 + b * r2 + c * r3 + d * r4 \<le> N * M"
proof -
  have "a * r1 + b * r2 + c * r3 + d * r4 \<le> a * M + b * M + c * M + d * M"
    using assms(2-5) by (intro add_mono mult_le_mono2) simp_all
  also have "\<dots> = (a + b + c + d) * M" by (simp add: algebra_simps)
  also have "\<dots> \<le> N * M" using assms(1) by (rule mult_le_mono1)
  finally show ?thesis .
qed

lemma u64_le_max: "unat (a::u64) \<le> 2 ^ 64 - 1"
  using u64_unat_bound [of a] by simp

lemma weighted_input_bound: "weighted_input d u \<le> (2 ^ 64 - 1) * (2 ^ 64 - 1)"
  unfolding weighted_input_def Let_def unat_u64_saturating_sub [symmetric]
  using effective_split [of u] u64_le_max [of "us_input_tokens u"]
  by (intro shared_out_bound u64_le_max) simp

lemma details_estimate_exact:
  "unat (details_estimate_micros d u) =
     u64_clip (ceil_micros (weighted_input d u)
       + ceil_micros (unat (us_output_tokens u) * unat (mpd_output_micros d)))"
proof -
  have sat: "n \<le> (2 ^ 64 - 1) * (2 ^ 64 - 1) \<Longrightarrow> u128_saturate n = n" for n
    by (simp add: u128_saturate_def)
  have small: "weighted_input d u < 2 ^ 128 - 999999" using weighted_input_bound [of d u] by simp
  have "details_estimate_micros d u =
      u64_saturating_add (micros_from_weighted_tokens (weighted_input d u))
        (cost_for_tokens (us_output_tokens u) (mpd_output_micros d))"
    using weighted_input_bound [of d u]
    by (simp add: details_estimate_micros_def weighted_input_def Let_def sat unat_u64_saturating_sub)
  then show ?thesis
    by (simp add: unat_u64_saturating_add micros_from_weighted [OF small] cost_for_tokens_exact
        u64_clip_def)
qed

lemma unat_u64_saturating_mul: "unat (u64_saturating_mul a b) = u64_clip (unat a * unat b)"
  by (auto simp: u64_saturating_mul_def u64_clip_def unat_word_ariths unat_u64_minus_one)

lemma budget_estimate_exact:
  "unat (budget_estimate_micros b u) =
     u64_clip (unat (us_requests u) * unat (cb_request_micros b)
       + ceil_micros (unat (us_input_tokens u) * unat (cb_input_micros b))
       + ceil_micros (unat (us_output_tokens u) * unat (cb_output_micros b)))"
  by (simp add: budget_estimate_micros_def unat_u64_saturating_add unat_u64_saturating_mul
      cost_for_tokens_exact u64_clip_def)

section \<open>Limits\<close>

definition within :: "u64 option \<Rightarrow> nat \<Rightarrow> bool" where
  "within limit n \<longleftrightarrow> (case limit of None \<Rightarrow> True | Some m \<Rightarrow> n \<le> unat m)"

lemma check_limit_Ok: "check_limit k l n = Ok () \<longleftrightarrow> within l (unat n)"
  by (auto simp: check_limit_def within_def word_less_nat_alt not_less split: option.splits)

lemma check_limit_no_panic: "check_limit k l n \<noteq> Panic"
  by (simp add: check_limit_def split: option.splits)

lemma check_usage_Ok:
  "check_usage l u = Ok () \<longleftrightarrow>
     within (ul_input_tokens_limit l) (unat (us_input_tokens u))
     \<and> within (ul_output_tokens_limit l) (unat (us_output_tokens u))
     \<and> within (ul_total_tokens_limit l) (unat (us_total_tokens u))
     \<and> (\<forall>b. ul_cost_budget l = Some b \<longrightarrow>
          within (cb_total_cost_limit b) (unat (budget_estimate_micros b u)))"
proof -
  have budget: "budget_check_usage b u = Ok () \<longleftrightarrow>
      within (cb_total_cost_limit b) (unat (budget_estimate_micros b u))" for b
    by (auto simp: budget_check_usage_def within_def Let_def word_less_nat_alt not_less split: option.splits)
  have seq: "(case r of Err e \<Rightarrow> Err e | Panic \<Rightarrow> Panic | Ok _ \<Rightarrow> k) = Ok () \<longleftrightarrow> r = Ok () \<and> k = Ok ()"
    for r k :: "(unit, usage_limit_error) result"
    by (cases r) simp_all
  have "(case ul_cost_budget l of None \<Rightarrow> Ok () | Some b \<Rightarrow> budget_check_usage b u) = Ok () \<longleftrightarrow>
      (\<forall>b. ul_cost_budget l = Some b \<longrightarrow> within (cb_total_cost_limit b) (unat (budget_estimate_micros b u)))"
    by (cases "ul_cost_budget l") (simp_all add: budget)
  then show ?thesis unfolding check_usage_def seq check_limit_Ok by blast
qed

text \<open>A run that asks before each request never makes more than the limit.\<close>

lemma check_before_request_bound:
  assumes "ul_request_limit l = Some m" and "check_before_request l u = Ok ()" and "unat m < 2 ^ 64 - 1"
  shows "unat (us_requests (usage_add u (usage_default\<lparr>us_requests := 1\<rparr>))) \<le> unat m"
  using assms
  by (auto simp: check_before_request_def Let_def usage_add_def usage_default_def not_less
      word_le_nat_alt split: if_splits)

section \<open>Tiers\<close>

definition tiers_ascending :: "model_pricing_tier list \<Rightarrow> bool" where
  "tiers_ascending ts \<longleftrightarrow>
     ts \<noteq> [] \<and> mpt_max_input_tokens (last ts) = None
     \<and> (\<forall>t \<in> set (butlast ts). mpt_max_input_tokens t \<noteq> None)
     \<and> sorted_wrt (<) (map (the \<circ> mpt_max_input_tokens) (butlast ts))"

text \<open>The tier a request falls in is the first one whose range holds its input.\<close>

lemma select_tier_find:
  "select_tier d n ts =
     (case find (\<lambda>t. tier_matches t n) ts of
        Some t \<Rightarrow> mpt_pricing t
      | None \<Rightarrow> if ts = [] then d else mpt_pricing (last ts))"
  by (induction d n ts rule: select_tier.induct) (auto split: option.splits)

lemma select_tier_range:
  assumes "tiers_ascending ts"
  shows "\<exists>i < length ts. select_tier d n ts = mpt_pricing (ts ! i) \<and> tier_matches (ts ! i) n
    \<and> (\<forall>j < i. \<exists>m. mpt_max_input_tokens (ts ! j) = Some m \<and> m < n)"
proof -
  have "tier_matches (last ts) n" using assms by (simp add: tiers_ascending_def tier_matches_def)
  moreover have "last ts \<in> set ts" using assms by (simp add: tiers_ascending_def)
  ultimately obtain t where t: "find (\<lambda>t. tier_matches t n) ts = Some t"
    by (cases "find (\<lambda>t. tier_matches t n) ts") (auto simp: find_None_iff)
  then obtain i where i: "i < length ts" "tier_matches (ts ! i) n" "t = ts ! i"
    and first: "\<forall>j < i. \<not> tier_matches (ts ! j) n"
    by (auto simp: find_Some_iff)
  have "\<exists>m. mpt_max_input_tokens (ts ! j) = Some m \<and> m < n" if "j < i" for j
    using first that by (auto simp: tier_matches_def not_le split: option.splits)
  with t i show ?thesis by (auto simp: select_tier_find)
qed

section \<open>The ledger adds up\<close>

definition total_by :: "('a \<Rightarrow> 'a \<Rightarrow> 'a) \<Rightarrow> 'a \<Rightarrow> 'a list \<Rightarrow> 'a" where
  "total_by add zero xs = foldr add xs zero"

text \<open>
  What the ledger relies on: adding up does not depend on the order, so a total may be taken over
  the entries or over any grouping of them.
\<close>

locale accumulation = comm_monoid add zero
  for add :: "'a \<Rightarrow> 'a \<Rightarrow> 'a" and zero :: 'a
begin

lemma total_simps [simp]:
  "total_by add zero [] = zero"
  "total_by add zero (x # xs) = add x (total_by add zero xs)"
  by (simp_all add: total_by_def)

lemma total_append [simp]:
  "total_by add zero (xs @ ys) = add (total_by add zero xs) (total_by add zero ys)"
  by (induction xs) (simp_all add: assoc)

lemma total_fold: "fold (\<lambda>x acc. add acc x) xs a = add a (total_by add zero xs)"
  by (induction xs arbitrary: a) (simp_all add: assoc)

lemma total_sort: "total_by add zero (map f (sort_key k xs)) = total_by add zero (map f xs)"
proof -
  have ins: "total_by add zero (map f (insort_key k x ys)) = add (f x) (total_by add zero (map f ys))"
    for x ys
    by (induction ys) (simp_all add: left_commute)
  show ?thesis by (induction xs) (simp_all add: ins)
qed

lemma total_bt_insert:
  assumes "bt_wf m" and "g w = add (case map_of m k of None \<Rightarrow> zero | Some v \<Rightarrow> g v) x"
  shows "total_by add zero (map g (bt_values (bt_insert k w m))) =
    add (total_by add zero (map g (bt_values m))) x"
  using assms
proof (induction m)
  case (Cons e m)
  obtain j v where e: "e = (j, v)" by (cases e)
  have wf: "bt_wf m" and gt: "\<forall>i \<in> fst ` set m. j < i" using Cons.prems(1) e by (auto simp: bt_wf_def)
  have none: "map_of (e # m) k = None" if "k < j"
    using that gt e by (auto simp: map_of_eq_None_iff)
  show ?case
  proof (cases "k < j")
    case True
    with Cons.prems(2) none e show ?thesis by (simp add: bt_values_def commute left_commute)
  next
    case False
    show ?thesis
    proof (cases "k = j")
      case True
      with Cons.prems(2) e show ?thesis by (simp add: bt_values_def assoc commute left_commute)
    next
      case neq: False
      with False Cons.prems(2) e Cons.IH [OF wf] show ?thesis by (simp add: bt_values_def assoc)
    qed
  qed
qed (simp add: bt_values_def commute)

end

lemma u64_saturating_add_monoid:
  "u64_saturating_add (u64_saturating_add a b) c = u64_saturating_add a (u64_saturating_add b c)"
  "u64_saturating_add a b = u64_saturating_add b a"
  "u64_saturating_add a 0 = a"
  using u64_le_max [of a] by (simp_all add: word_unat_eq_iff unat_u64_saturating_add add.commute)

interpretation usage_sum: accumulation usage_add usage_default
proof unfold_locales
  fix a b c :: usage
  show "usage_add (usage_add a b) c = usage_add a (usage_add b c)"
    by (simp add: usage_add_def u64_saturating_add_monoid(1))
  show "usage_add a b = usage_add b a"
    by (simp add: usage_add_def u64_saturating_add_monoid(2))
  show "usage_add a usage_default = a"
    by (cases a) (simp add: usage_add_def usage_default_def u64_saturating_add_monoid(3))
qed

interpretation price_sum: accumulation estimate_add "from_micros_usd 0"
proof unfold_locales
  fix a b c :: pricing_estimate
  show "estimate_add (estimate_add a b) c = estimate_add a (estimate_add b c)"
    by (simp add: estimate_add_def u64_saturating_add_monoid(1))
  show "estimate_add a b = estimate_add b a"
    by (simp add: estimate_add_def u64_saturating_add_monoid(2))
  show "estimate_add a (from_micros_usd 0) = a"
    by (cases a) (simp add: estimate_add_def from_micros_usd_def u64_saturating_add_monoid(3))
qed

abbreviation usage_total :: "usage list \<Rightarrow> usage" where
  "usage_total \<equiv> total_by usage_add usage_default"

abbreviation price_total :: "pricing_estimate list \<Rightarrow> pricing_estimate" where
  "price_total \<equiv> total_by estimate_add (from_micros_usd 0)"

lemma usage_total_counter:
  assumes "f \<in> {us_requests, us_input_tokens, us_cache_write_tokens, us_cache_write_1h_tokens,
    us_cache_read_tokens, us_output_tokens, us_total_tokens, us_tool_calls}"
  shows "unat (f (usage_total us)) = u64_clip (sum_list (map (unat \<circ> f) us))"
proof (induction us)
  case Nil
  have "f usage_default = 0" using assms by (auto simp: usage_default_def)
  then show ?case by (simp add: u64_clip_def)
next
  case (Cons u us)
  have "f (usage_add u (usage_total us)) = u64_saturating_add (f u) (f (usage_total us))"
    using assms by (auto simp: usage_add_def)
  with Cons.IH show ?case by (simp add: unat_u64_saturating_add u64_clip_def)
qed

definition snapshot_adds_up :: "usage_snapshot_entry list \<Rightarrow> usage_snapshot \<Rightarrow> bool" where
  "snapshot_adds_up es s \<longleftrightarrow>
     uss_total_usage s = usage_total (map use_usage es)
     \<and> usage_total (bt_values (uss_model_usages s)) = uss_total_usage s
     \<and> usage_total (map uat_usage (bt_values (uss_agent_usages s))) = uss_total_usage s
     \<and> price_total (bt_values (uss_model_estimate_pricing s)) =
         (case uss_estimate_pricing s of None \<Rightarrow> from_micros_usd 0 | Some p \<Rightarrow> p)
     \<and> uss_estimate_pricing s =
         (if \<forall>e \<in> set es. use_estimate_pricing e = None then None
          else Some (price_total (List.map_filter use_estimate_pricing es)))"

definition snapshot_wf :: "usage_snapshot \<Rightarrow> bool" where
  "snapshot_wf s \<longleftrightarrow> bt_wf (uss_model_usages s) \<and> bt_wf (uss_agent_usages s)
     \<and> bt_wf (uss_model_estimate_pricing s)"

lemma bt_accumulate_wf: "bt_wf m \<Longrightarrow> bt_wf (bt_accumulate add zero k x m)"
  by (simp add: bt_accumulate_def)

lemma agent_total_step_ok:
  assumes "bt_wf m"
  shows "bt_wf (agent_total_step e m)"
    and "usage_total (map uat_usage (bt_values (agent_total_step e m))) =
      usage_add (usage_total (map uat_usage (bt_values m))) (use_usage e)"
proof -
  obtain w where w: "agent_total_step e m = bt_insert (use_agent_id e) w m"
    and u: "uat_usage w = usage_add (case map_of m (use_agent_id e) of
        None \<Rightarrow> usage_default | Some t \<Rightarrow> uat_usage t) (use_usage e)"
    by (cases "map_of m (use_agent_id e)") (auto simp: agent_total_step_def)
  show "bt_wf (agent_total_step e m)" using assms by (simp add: w)
  show "usage_total (map uat_usage (bt_values (agent_total_step e m))) =
      usage_add (usage_total (map uat_usage (bt_values m))) (use_usage e)"
    unfolding w by (rule usage_sum.total_bt_insert [OF assms u])
qed

lemma snapshot_step_ok:
  assumes "snapshot_wf s" and "snapshot_adds_up es s"
  shows "snapshot_wf (snapshot_step e s) \<and> snapshot_adds_up (es @ [e]) (snapshot_step e s)"
proof -
  have wf: "bt_wf (uss_model_usages s)" "bt_wf (uss_agent_usages s)" "bt_wf (uss_model_estimate_pricing s)"
    using assms(1) by (simp_all add: snapshot_wf_def)
  have up: "uss_total_usage s = usage_total (map use_usage es)"
    "usage_total (bt_values (uss_model_usages s)) = uss_total_usage s"
    "usage_total (map uat_usage (bt_values (uss_agent_usages s))) = uss_total_usage s"
    "price_total (bt_values (uss_model_estimate_pricing s)) =
       (case uss_estimate_pricing s of None \<Rightarrow> from_micros_usd 0 | Some p \<Rightarrow> p)"
    "uss_estimate_pricing s =
       (if \<forall>e \<in> set es. use_estimate_pricing e = None then None
        else Some (price_total (List.map_filter use_estimate_pricing es)))"
    using assms(2) by (simp_all add: snapshot_adds_up_def)
  have model: "usage_total (bt_values (bt_accumulate usage_add usage_default k u (uss_model_usages s))) =
      usage_add (uss_total_usage s) u" for k u
    using usage_sum.total_bt_insert [OF wf(1), of "\<lambda>x. x" _ k u] up(2)
    by (simp add: bt_accumulate_def)
  have price: "price_total (bt_values (bt_accumulate estimate_add (from_micros_usd 0) k p
        (uss_model_estimate_pricing s))) =
      estimate_add (price_total (bt_values (uss_model_estimate_pricing s))) p" for k p
    using price_sum.total_bt_insert [OF wf(3), of "\<lambda>x. x" _ k p] by (simp add: bt_accumulate_def)
  have none: "List.map_filter use_estimate_pricing es = []" if "\<forall>e \<in> set es. use_estimate_pricing e = None"
    using that by (simp add: map_filter_def)
  have "snapshot_wf (snapshot_step e s)"
    using wf by (simp add: agent_total_step_ok(1) bt_accumulate_wf snapshot_wf_def snapshot_step_def
        split: option.splits)
  moreover have "snapshot_adds_up (es @ [e]) (snapshot_step e s)"
    using up(1,3,4,5) model price agent_total_step_ok(2) [OF wf(2), of e] none
    by (cases "use_estimate_pricing e"; cases "uss_estimate_pricing s")
      (auto simp: snapshot_adds_up_def snapshot_step_def add_optional_pricing_def map_filter_def
        split: if_splits)
  ultimately show ?thesis ..
qed

lemma snapshot_fold_ok:
  "snapshot_wf s \<Longrightarrow> snapshot_adds_up es s \<Longrightarrow>
     snapshot_wf (fold snapshot_step es' s) \<and> snapshot_adds_up (es @ es') (fold snapshot_step es' s)"
proof (induction es' arbitrary: es s)
  case (Cons e es')
  show ?case
    using Cons.IH [of "snapshot_step e s" "es @ [e]"] snapshot_step_ok [OF Cons.prems] by simp
qed simp

lemma uss_entries_fold [simp]: "uss_entries (fold snapshot_step es s) = uss_entries s"
  by (induction es arbitrary: s) (simp_all add: snapshot_step_def)

lemma uss_entries_build:
  "uss_entries (build_usage_snapshot l) = sort_key use_agent_id (bt_values (led_entries l))"
  by (simp add: build_usage_snapshot_def Let_def)

lemma build_usage_snapshot_ok:
  "snapshot_adds_up (uss_entries (build_usage_snapshot l)) (build_usage_snapshot l)
   \<and> snapshot_wf (build_usage_snapshot l)"
proof -
  define start where "start = \<lparr>uss_run_id = (case led_parent_run_id l of
        Some r \<Rightarrow> r | None \<Rightarrow> (case led_run_id l of Some r \<Rightarrow> r | None \<Rightarrow> [])),
      uss_latest_usage = None, uss_total_usage = usage_default, uss_estimate_pricing = None,
      uss_entries = sort_key use_agent_id (bt_values (led_entries l)), uss_agent_usages = [],
      uss_model_usages = [], uss_model_estimate_pricing = []\<rparr>"
  have "snapshot_wf start" "snapshot_adds_up [] start"
    by (simp_all add: start_def snapshot_wf_def snapshot_adds_up_def bt_values_def)
  moreover have "build_usage_snapshot l = fold snapshot_step (uss_entries start) start"
    by (simp add: build_usage_snapshot_def start_def Let_def)
  ultimately show ?thesis using snapshot_fold_ok [of start "[]"] by simp
qed

text \<open>A snapshot reports every counter of the ledger, whatever the grouping.\<close>

lemma snapshot_totals:
  "uss_total_usage (build_usage_snapshot l) = usage_total (map use_usage (bt_values (led_entries l)))"
  using build_usage_snapshot_ok [of l] usage_sum.total_sort [of use_usage use_agent_id]
  by (simp add: snapshot_adds_up_def uss_entries_build)

lemma update_replaces_entry:
  assumes "bt_wf (led_entries l)"
    and "update_usage_snapshot_entry a n m u p i src (Some k) l = (s1, l1)"
    and "update_usage_snapshot_entry a n m u' p' i src (Some k) l1 = (s2, l2)"
  shows "update_usage_snapshot_entry a n m u' p' i src (Some k) l = (s2, l2)"
proof -
  have "bt_insert k e' (bt_insert k e m) = bt_insert k e' m"
    if "bt_wf m" for e e' :: usage_snapshot_entry and m
    using that by (induction m) (auto simp: bt_wf_def)
  with assms show ?thesis by (auto simp: update_usage_snapshot_entry_def Let_def)
qed

section \<open>Each group of the snapshot is the sum of its own entries\<close>

text \<open>What a group of entries amounts to; nothing at all when there is nothing to report.\<close>

definition entries_usage :: "usage_snapshot_entry list \<Rightarrow> usage option" where
  "entries_usage es = (if es = [] then None else Some (usage_total (map use_usage es)))"

definition entries_estimate :: "usage_snapshot_entry list \<Rightarrow> pricing_estimate option" where
  "entries_estimate es =
     (if list_all (\<lambda>e. use_estimate_pricing e = None) es then None
      else Some (price_total (List.map_filter use_estimate_pricing es)))"

lemma entries_usage_snoc:
  "entries_usage (es @ [e]) = Some (usage_add (case entries_usage es of None \<Rightarrow> usage_default | Some v \<Rightarrow> v) (use_usage e))"
  by (simp add: entries_usage_def)

lemma entries_estimate_snoc:
  "entries_estimate (es @ [e]) = add_optional_pricing (entries_estimate es) (use_estimate_pricing e)"
proof -
  have "List.map_filter use_estimate_pricing es = []" if "list_all (\<lambda>e. use_estimate_pricing e = None) es"
    using that by (simp add: map_filter_def list_all_iff)
  then show ?thesis
    by (auto simp: entries_estimate_def add_optional_pricing_def map_filter_def split: option.split)
qed

lemma entries_empty [simp]: "entries_usage [] = None" "entries_estimate [] = None"
  by (simp_all add: entries_usage_def entries_estimate_def)

lemma entries_usage_sort: "entries_usage (sort_key k es) = entries_usage es"
proof -
  have "sort_key k es = [] \<longleftrightarrow> es = []" by (metis length_0_conv length_sort)
  then show ?thesis by (simp add: entries_usage_def usage_sum.total_sort)
qed

lemma entries_estimate_sort: "entries_estimate (sort_key k es) = entries_estimate es"
proof -
  define price where "price e = (case use_estimate_pricing e of None \<Rightarrow> from_micros_usd 0 | Some p \<Rightarrow> p)"
    for e :: usage_snapshot_entry
  have total: "price_total (List.map_filter use_estimate_pricing es) = price_total (map price es)" for es
  proof (induction es)
    case (Cons e es)
    then show ?case
      by (cases "use_estimate_pricing e") (simp_all add: price_def map_filter_def price_sum.left_neutral)
  qed (simp add: map_filter_def)
  show ?thesis
    unfolding entries_estimate_def total by (simp add: list_all_iff price_sum.total_sort)
qed

definition snapshot_grouped :: "usage_snapshot_entry list \<Rightarrow> usage_snapshot \<Rightarrow> bool" where
  "snapshot_grouped es s \<longleftrightarrow>
     (\<forall>k. map_of (uss_model_usages s) k = entries_usage (filter (\<lambda>e. use_model_id e = k) es)
        \<and> map_of (uss_model_estimate_pricing s) k = entries_estimate (filter (\<lambda>e. use_model_id e = k) es))
     \<and> (\<forall>a. map_option uat_usage (map_of (uss_agent_usages s) a)
             = entries_usage (filter (\<lambda>e. use_agent_id e = a) es)
        \<and> Option.bind (map_of (uss_agent_usages s) a) uat_estimate_pricing
             = entries_estimate (filter (\<lambda>e. use_agent_id e = a) es))"

lemma agent_total_step_grouped:
  "map_option uat_usage (map_of (agent_total_step e m) a) =
     (if a = use_agent_id e
      then Some (usage_add (case map_option uat_usage (map_of m a) of None \<Rightarrow> usage_default | Some v \<Rightarrow> v)
             (use_usage e))
      else map_option uat_usage (map_of m a))"
  "Option.bind (map_of (agent_total_step e m) a) uat_estimate_pricing =
     (if a = use_agent_id e
      then add_optional_pricing (Option.bind (map_of m a) uat_estimate_pricing) (use_estimate_pricing e)
      else Option.bind (map_of m a) uat_estimate_pricing)"
  by (auto simp: agent_total_step_def add_optional_pricing_def split: option.split)

lemma snapshot_step_grouped:
  assumes "snapshot_grouped es s"
  shows "snapshot_grouped (es @ [e]) (snapshot_step e s)"
proof -
  have model: "map_of (uss_model_usages s) k = entries_usage (filter (\<lambda>e. use_model_id e = k) es)"
    "map_of (uss_model_estimate_pricing s) k = entries_estimate (filter (\<lambda>e. use_model_id e = k) es)" for k
    using assms by (simp_all add: snapshot_grouped_def)
  have agent: "map_option uat_usage (map_of (uss_agent_usages s) a)
      = entries_usage (filter (\<lambda>e. use_agent_id e = a) es)"
    "Option.bind (map_of (uss_agent_usages s) a) uat_estimate_pricing
      = entries_estimate (filter (\<lambda>e. use_agent_id e = a) es)" for a
    using assms by (simp_all add: snapshot_grouped_def)
  have "map_of (uss_model_usages (snapshot_step e s)) k
      = entries_usage (filter (\<lambda>e. use_model_id e = k) (es @ [e]))" for k
    by (simp add: snapshot_step_def bt_accumulate_def model entries_usage_snoc)
  moreover have "map_of (uss_model_estimate_pricing (snapshot_step e s)) k
      = entries_estimate (filter (\<lambda>e. use_model_id e = k) (es @ [e]))" for k
    by (cases "use_estimate_pricing e")
       (auto simp: snapshot_step_def bt_accumulate_def model entries_estimate_snoc add_optional_pricing_def
          price_sum.left_neutral split: option.split)
  moreover have "uss_agent_usages (snapshot_step e s) = agent_total_step e (uss_agent_usages s)"
    by (simp add: snapshot_step_def)
  ultimately show ?thesis
    by (simp add: snapshot_grouped_def agent_total_step_grouped agent entries_usage_snoc entries_estimate_snoc)
qed

lemma snapshot_fold_grouped:
  "snapshot_grouped es s \<Longrightarrow> snapshot_grouped (es @ es') (fold snapshot_step es' s)"
proof (induction es' arbitrary: es s)
  case (Cons e es')
  show ?case using Cons.IH [OF snapshot_step_grouped [OF Cons.prems, of e]] by simp
qed simp

lemma build_usage_snapshot_grouped: "snapshot_grouped (bt_values (led_entries l)) (build_usage_snapshot l)"
proof -
  let ?es = "sort_key use_agent_id (bt_values (led_entries l))"
  have "snapshot_grouped ?es (build_usage_snapshot l)"
    unfolding build_usage_snapshot_def Let_def
    by (rule snapshot_fold_grouped [of "[]", simplified]) (simp add: snapshot_grouped_def)
  then show ?thesis
    by (simp add: snapshot_grouped_def filter_sort entries_usage_sort entries_estimate_sort)
qed

lemma snapshot_estimate: "uss_estimate_pricing (build_usage_snapshot l) = entries_estimate (bt_values (led_entries l))"
proof -
  have "uss_estimate_pricing (build_usage_snapshot l)
      = entries_estimate (sort_key use_agent_id (bt_values (led_entries l)))"
    using build_usage_snapshot_ok [of l]
    by (simp add: snapshot_adds_up_def uss_entries_build entries_estimate_def list_all_iff)
  then show ?thesis by (simp add: entries_estimate_sort)
qed

end
