(* ===== verification/Run_Evidence.thy ===== *)
theory Run_Evidence
  imports Store_Machine Stream_Archive Approvals Usage
begin

text \<open>
  The run evidence the in-memory store keeps beside its records: checkpoints
  (\<open>store/memory/checkpoints.rs\<close>), runtime streams and cursors (\<open>streams.rs\<close>), approvals and
  deferred tools (\<open>approvals.rs\<close>), compact traces (\<open>traces.rs\<close>), and from \<open>memory.rs\<close> the
  checkpoint commits with and without a lease and the fenced append of replay events.

  The state pairs the store of the record operations with the evidence tables of \<open>StoreInner\<close>;
  no record operation touches those tables. The steps of the store and of the evidence operations
  together keep the invariant of both. The run state inside a checkpoint beyond its parent ids and
  the event inside a stream record are type variables: they are compared for equality only.
\<close>

section \<open>State\<close>

record agent_resume_cursor =
  arc_model_request_attempt :: u64
  arc_tool_call_batch_id :: "string option"
  arc_output_validation_attempt :: u64
  arc_stream_cursor :: "u64 option"
  arc_message_cursor :: u64

record agent_resume_evidence =
  are_node :: agent_execution_node
  are_status :: run_lifecycle
  are_run_step :: u64
  are_cursor :: agent_resume_cursor
  are_usage :: usage
  are_context_revision :: "string option"
  are_environment_ref :: "string option"
  are_pending_approval_count :: u64
  are_deferred_tool_count :: u64
  are_trace_context :: json
  are_metadata :: metadata

record 'c agent_run_state =
  agrs_parent_run_id :: "run_id option"
  agrs_parent_task_id :: "string option"
  agrs_rest :: 'c

record 'c agent_checkpoint =
  cp_checkpoint_id :: string
  cp_run_id :: run_id
  cp_conversation_id :: string
  cp_node :: agent_execution_node
  cp_run_step :: u64
  cp_resume :: agent_resume_evidence
  cp_state :: "'c agent_run_state"
  cp_metadata :: metadata

record ('c, 'e) evidence_state =
  es_store :: store_inner
  es_checkpoints :: "(run_key_t, 'c agent_checkpoint list) btmap"
  es_streams :: "(run_key_t, 'e agent_stream_record list) btmap"
  es_replay_events :: "(string \<times> u64, replay_event) btmap"
  es_approvals :: "(run_key_t, approval_record list) btmap"
  es_deferred_tools :: "(run_key_t, deferred_tool_record list) btmap"

definition evidence_new :: "('c, 'e) evidence_state" where
  "evidence_new =
     \<lparr>es_store = store_new, es_checkpoints = [], es_streams = [], es_replay_events = [],
      es_approvals = [], es_deferred_tools = []\<rparr>"

type_synonym ('a, 'c, 'e) evidence_op =
  "('c, 'e) evidence_state \<Rightarrow> 'a store_result \<times> ('c, 'e) evidence_state"

definition put_run :: "run_key_t \<Rightarrow> run_record \<Rightarrow> ('c, 'e) evidence_state \<Rightarrow> ('c, 'e) evidence_state" where
  "put_run key run es =
     es\<lparr>es_store := (es_store es)\<lparr>si_runs := bt_insert key run (si_runs (es_store es))\<rparr>\<rparr>"

text \<open>The clone that is assigned back only on success.\<close>

definition staged_evidence :: "('a, 'c, 'e) evidence_op \<Rightarrow> ('a, 'c, 'e) evidence_op" where
  "staged_evidence f es =
     (case f es of
        (Ok x, es') \<Rightarrow> (Ok x, es')
      | (r, _) \<Rightarrow> (r, es))"

section \<open>Checkpoints\<close>

definition checkpoint_conflict :: "session_id \<Rightarrow> 'c agent_checkpoint \<Rightarrow> store_error" where
  "checkpoint_conflict sid cp =
     StoreFailed (''checkpoint conflict for session '' @ sid @ '' run '' @ cp_run_id cp
       @ '' checkpoint '' @ cp_checkpoint_id cp)"

definition checkpoint_ref_of :: "datetime \<Rightarrow> 'c agent_checkpoint \<Rightarrow> checkpoint_ref" where
  "checkpoint_ref_of now cp =
     \<lparr>cr_checkpoint_id = cp_checkpoint_id cp, cr_run_id = cp_run_id cp,
      cr_sequence = cp_run_step cp, cr_node = node_debug (cp_node cp), cr_storage_ref = None,
      cr_stream_cursor = arc_stream_cursor (are_cursor (cp_resume cp)),
      cr_created_at = now, cr_metadata = cp_metadata cp\<rparr>"

text \<open>The run write: the revision is advanced after the in-place update, which stays when it fails.\<close>

definition note_run ::
    "datetime \<Rightarrow> bool \<Rightarrow> run_key_t \<Rightarrow> run_record \<Rightarrow> (unit, 'c, 'e) evidence_op" where
  "note_run now advance key run es =
     (if advance then
        (case advance_run_revision run of
           Err e \<Rightarrow> (Err e, put_run key run es)
         | Panic \<Rightarrow> (Panic, put_run key run es)
         | Ok r \<Rightarrow> (Ok (), put_run key (r\<lparr>rr_updated_at := now\<rparr>) es))
      else (Ok (), put_run key (run\<lparr>rr_updated_at := now\<rparr>) es))"

definition append_checkpoint_record_with_revision ::
    "datetime \<Rightarrow> datetime \<Rightarrow> session_id \<Rightarrow> 'c agent_checkpoint \<Rightarrow> bool \<Rightarrow> (unit, 'c, 'e) evidence_op" where
  "append_checkpoint_record_with_revision now1 now2 sid cp advance es =
     (let key = run_key sid (cp_run_id cp) in
      case map_of (si_runs (es_store es)) key of
        None \<Rightarrow> (Err (NotFound (run_key_label sid (cp_run_id cp))), es)
      | Some run \<Rightarrow>
          let checkpoints = bt_entry (es_checkpoints es) key in
          (case find (\<lambda>x. cp_checkpoint_id x = cp_checkpoint_id cp) checkpoints of
             Some existing \<Rightarrow>
               (if existing = cp then Ok () else Err (checkpoint_conflict sid cp),
                es\<lparr>es_checkpoints := bt_insert key checkpoints (es_checkpoints es)\<rparr>)
           | None \<Rightarrow>
               note_run now2 advance key
                 (run\<lparr>rr_latest_checkpoint := Some (checkpoint_ref_of now1 cp)\<rparr>)
                 (es\<lparr>es_checkpoints := bt_insert key (checkpoints @ [cp]) (es_checkpoints es)\<rparr>)))"

definition append_checkpoint_record ::
    "datetime \<Rightarrow> datetime \<Rightarrow> session_id \<Rightarrow> 'c agent_checkpoint \<Rightarrow> (unit, 'c, 'e) evidence_op" where
  "append_checkpoint_record now1 now2 sid cp =
     append_checkpoint_record_with_revision now1 now2 sid cp True"

definition load_checkpoint_records ::
    "session_id \<Rightarrow> run_id \<Rightarrow> ('c, 'e) evidence_state \<Rightarrow> 'c agent_checkpoint list" where
  "load_checkpoint_records sid rid es = bt_entry (es_checkpoints es) (run_key sid rid)"

definition latest_checkpoint ::
    "session_id \<Rightarrow> run_id \<Rightarrow> ('c, 'e) evidence_state \<Rightarrow> 'c agent_checkpoint option" where
  "latest_checkpoint sid rid es =
     (let cps = load_checkpoint_records sid rid es in if cps = [] then None else Some (last cps))"

fun checkpoint_run_status :: "run_lifecycle \<Rightarrow> run_status" where
  "checkpoint_run_status Starting = StRunning"
| "checkpoint_run_status Running = StRunning"
| "checkpoint_run_status Waiting = StWaiting"
| "checkpoint_run_status Completed = StCompleted"
| "checkpoint_run_status Failed = StFailed"
| "checkpoint_run_status Cancelled = StCancelled"

fun checkpoint_terminal_error :: "run_lifecycle \<Rightarrow> run_terminal_error option" where
  "checkpoint_terminal_error Failed =
     Some (run_terminal_error_new ''checkpoint_run_failed'' ''run failed while checkpointing'')"
| "checkpoint_terminal_error Cancelled =
     Some (run_terminal_error_new ''checkpoint_run_cancelled''
       ''run was cancelled while checkpointing'')"
| "checkpoint_terminal_error _ = None"

text \<open>The defaults of a session state and of a trace context are arguments.\<close>

record evidence_env =
  ev_default_state :: json
  ev_default_trace :: json

definition checkpoint_run ::
    "evidence_env \<Rightarrow> datetime \<Rightarrow> session_id \<Rightarrow> 'c agent_checkpoint \<Rightarrow> run_record" where
  "checkpoint_run env now sid cp =
     (run_record_new now (ev_default_trace env) sid (cp_run_id cp) (cp_conversation_id cp))
       \<lparr>rr_status := checkpoint_run_status (are_status (cp_resume cp)),
        rr_terminal_error := checkpoint_terminal_error (are_status (cp_resume cp)),
        rr_trace_context := are_trace_context (cp_resume cp),
        rr_parent_run_id := agrs_parent_run_id (cp_state cp),
        rr_parent_task_id := agrs_parent_task_id (cp_state cp)\<rparr>"

text \<open>
  The part the two commits share. It reads the clock once for each record it creates; the readings
  are one argument here.
\<close>

definition ensure_checkpoint_session :: "evidence_env \<Rightarrow> datetime \<Rightarrow> session_id \<Rightarrow> unit store_op" where
  "ensure_checkpoint_session env now sid s =
     (if is_ok (load_session_record sid s) then (Ok (), s)
      else save_session_record now
             (session_record_new now (ev_default_state env) (ev_default_trace env) sid) s)"

definition ensure_checkpoint_run ::
    "evidence_env \<Rightarrow> datetime \<Rightarrow> session_id \<Rightarrow> 'c agent_checkpoint \<Rightarrow> bool store_op" where
  "ensure_checkpoint_run env now sid cp s =
     (if is_ok (load_run_record sid (cp_run_id cp) s) then (Ok False, s)
      else (case append_run_record now (checkpoint_run env now sid cp) s of
              (r, s') \<Rightarrow> (result_map (\<lambda>_. True) r, s')))"

definition commit_checkpoint_body ::
    "evidence_env \<Rightarrow> datetime \<Rightarrow> session_id \<Rightarrow> 'c agent_checkpoint \<Rightarrow> (unit, 'c, 'e) evidence_op" where
  "commit_checkpoint_body env now sid cp es =
     (case op_bind (ensure_checkpoint_session env now sid)
             (\<lambda>_. ensure_checkpoint_run env now sid cp) (es_store es) of
        (Err e, s) \<Rightarrow> (Err e, es\<lparr>es_store := s\<rparr>)
      | (Panic, s) \<Rightarrow> (Panic, es\<lparr>es_store := s\<rparr>)
      | (Ok created_run, s) \<Rightarrow>
          append_checkpoint_record_with_revision now now sid cp (\<not> created_run)
            (es\<lparr>es_store := s\<rparr>))"

definition commit_checkpoint ::
    "evidence_env \<Rightarrow> datetime \<Rightarrow> session_id \<Rightarrow> 'c agent_checkpoint \<Rightarrow> (unit, 'c, 'e) evidence_op" where
  "commit_checkpoint env now sid cp = staged_evidence (commit_checkpoint_body env now sid cp)"

definition commit_checkpoint_fenced ::
    "evidence_env \<Rightarrow> datetime \<Rightarrow> run_admission_lease \<Rightarrow> 'c agent_checkpoint \<Rightarrow> (unit, 'c, 'e) evidence_op" where
  "commit_checkpoint_fenced env now lease cp es =
     (let sid = rt_session_id (lease_target lease) in
      if rt_run_id (lease_target lease) \<noteq> cp_run_id cp
      then (Err (Conflict ''checkpoint does not match admission target''), es)
      else case find (\<lambda>x. cp_checkpoint_id x = cp_checkpoint_id cp)
                  (bt_entry (es_checkpoints es) (run_key sid (cp_run_id cp))) of
          Some existing \<Rightarrow>
            (if existing = cp then Ok () else Err (checkpoint_conflict sid cp), es)
        | None \<Rightarrow>
            (case ensure_active_admission_locked (es_store es) lease now of
               Err e \<Rightarrow> (Err e, es)
             | Panic \<Rightarrow> (Panic, es)
             | Ok _ \<Rightarrow> commit_checkpoint env now sid cp es))"

section \<open>Streams and cursors\<close>

definition replace_cursor :: "stream_cursor_ref \<Rightarrow> stream_cursor_ref list \<Rightarrow> stream_cursor_ref list" where
  "replace_cursor c cs = filter (\<lambda>x. \<not> same_stream x c) cs @ [c]"

definition append_stream_record_batch_with_revision ::
    "datetime \<Rightarrow> datetime \<Rightarrow> session_id \<Rightarrow> run_id \<Rightarrow> 'e agent_stream_record list \<Rightarrow> bool
     \<Rightarrow> (unit, 'c, 'e) evidence_op" where
  "append_stream_record_batch_with_revision now1 now2 sid rid records advance es =
     (let key = run_key sid rid in
      case map_of (si_runs (es_store es)) key of
        None \<Rightarrow> (Err (NotFound (run_key_label sid rid)), es)
      | Some run \<Rightarrow>
          (case append_batch asr_sequence key records (es_streams es) of
             (Some n, streams) \<Rightarrow>
               (Err (StoreFailed (''stream record conflict for session '' @ sid @ '' run '' @ rid
                  @ '' at sequence '' @ u64_to_string n)), es\<lparr>es_streams := streams\<rparr>)
           | (None, streams) \<Rightarrow>
               let log = bt_entry (es_streams es) key;
                   inserted_any = (batch_insert asr_sequence log records \<noteq> log);
                   stream = bt_entry streams key;
                   run1 = (if stream = [] then run
                           else run\<lparr>rr_stream_cursors := replace_cursor
                                  (stream_cursor_ref_new now1 (cursor_raw_runtime (replay_scope_run rid)
                                     (asr_sequence (last stream)))) (rr_stream_cursors run)\<rparr>);
                   es1 = es\<lparr>es_streams := streams\<rparr>
               in if inserted_any then note_run now2 advance key run1 es1
                  else (Ok (), put_run key run1 es1)))"

definition append_stream_record_batch ::
    "datetime \<Rightarrow> datetime \<Rightarrow> session_id \<Rightarrow> run_id \<Rightarrow> 'e agent_stream_record list \<Rightarrow> (unit, 'c, 'e) evidence_op" where
  "append_stream_record_batch now1 now2 sid rid records =
     append_stream_record_batch_with_revision now1 now2 sid rid records True"

definition replay_stream_record_batch ::
    "session_id \<Rightarrow> run_id \<Rightarrow> ('c, 'e) evidence_state \<Rightarrow> 'e agent_stream_record list" where
  "replay_stream_record_batch sid rid es = bt_entry (es_streams es) (run_key sid rid)"

definition replay_stream_records_after ::
    "session_id \<Rightarrow> run_id \<Rightarrow> u64 option \<Rightarrow> ('c, 'e) evidence_state \<Rightarrow> 'e agent_stream_record list" where
  "replay_stream_records_after sid rid after_sequence es =
     filter (\<lambda>r. case after_sequence of None \<Rightarrow> True | Some n \<Rightarrow> n < asr_sequence r)
       (replay_stream_record_batch sid rid es)"

fun cursor_error_text :: "stream_cursor_ref_error \<Rightarrow> string" where
  "cursor_error_text (WrongScope ex ac) = ''expected cursor scope '' @ ex @ '', received '' @ ac"
| "cursor_error_text (SequenceRegression family scope current proposed) =
     cursor_family_as_str family @ '' cursor for '' @ scope @ '' regressed from ''
       @ u64_to_string current @ '' to '' @ u64_to_string proposed"

fun check_progression ::
    "stream_cursor_ref \<Rightarrow> stream_cursor_ref list \<Rightarrow> unit store_result" where
  "check_progression cursor [] = Ok ()"
| "check_progression cursor (x # xs) =
     (case cursor_validate_progression cursor x of
        Ok _ \<Rightarrow> check_progression cursor xs
      | Err e \<Rightarrow> Err (StoreFailed (cursor_error_text e))
      | Panic \<Rightarrow> Panic)"

definition save_stream_cursor_ref_with_revision ::
    "datetime \<Rightarrow> session_id \<Rightarrow> run_id \<Rightarrow> stream_cursor_ref \<Rightarrow> bool \<Rightarrow> (unit, 'c, 'e) evidence_op" where
  "save_stream_cursor_ref_with_revision now sid rid cursor advance es =
     (case cursor_validate_for_run cursor rid of
        Err e \<Rightarrow> (Err (StoreFailed (cursor_error_text e)), es)
      | Panic \<Rightarrow> (Panic, es)
      | Ok _ \<Rightarrow>
          (case map_of (si_runs (es_store es)) (run_key sid rid) of
             None \<Rightarrow> (Err (NotFound (run_key_label sid rid)), es)
           | Some run \<Rightarrow>
               (case check_progression cursor
                       (rr_stream_cursors run
                        @ (case map_of (si_sessions (es_store es)) sid of
                             None \<Rightarrow> [] | Some session \<Rightarrow> sr_stream_cursors session)) of
                  Err e \<Rightarrow> (Err e, es)
                | Panic \<Rightarrow> (Panic, es)
                | Ok _ \<Rightarrow>
                    if cursor \<in> set (rr_stream_cursors run) then (Ok (), es)
                    else
                      (case note_run now advance (run_key sid rid)
                              (run\<lparr>rr_stream_cursors := replace_cursor cursor (rr_stream_cursors run)\<rparr>) es of
                         (Ok _, es1) \<Rightarrow>
                           (Ok (), es1\<lparr>es_store := session_modify sid
                              (\<lambda>session. session\<lparr>sr_stream_cursors :=
                                   replace_cursor cursor (sr_stream_cursors session),
                                 sr_updated_at := now\<rparr>) (es_store es1)\<rparr>)
                       | (Err e, es1) \<Rightarrow> (Err e, es1)
                       | (Panic, es1) \<Rightarrow> (Panic, es1)))))"

definition save_stream_cursor_ref ::
    "datetime \<Rightarrow> session_id \<Rightarrow> run_id \<Rightarrow> stream_cursor_ref \<Rightarrow> (unit, 'c, 'e) evidence_op" where
  "save_stream_cursor_ref now sid rid cursor =
     save_stream_cursor_ref_with_revision now sid rid cursor True"

section \<open>Replay events under a lease\<close>

text \<open>The sequence has to fit \<open>i64\<close>.\<close>

fun check_replay_events :: "run_admission_lease \<Rightarrow> replay_event list \<Rightarrow> unit store_result" where
  "check_replay_events lease [] = Ok ()"
| "check_replay_events lease (e # es) =
     (if re_scope e \<noteq> replay_scope_run (rt_run_id (lease_target lease))
      then Err (Conflict (''replay event scope '' @ re_scope e @ '' does not match admission run ''
             @ rt_run_id (lease_target lease)))
      else if 9223372036854775807 < re_sequence e
      then Err (StoreFailed
             ''invalid replay event sequence: out of range integral type conversion attempted'')
      else check_replay_events lease es)"

fun insert_replay_events ::
    "string \<Rightarrow> replay_event list \<Rightarrow> (string \<times> u64, replay_event) btmap
     \<Rightarrow> ((string \<times> u64, replay_event) btmap, store_error) result" where
  "insert_replay_events scope [] m = Ok m"
| "insert_replay_events scope (e # es) m =
     (case map_of m (scope, re_sequence e) of
        Some persisted \<Rightarrow>
          if persisted \<noteq> e
          then Err (StoreFailed (''replay event conflict for scope '' @ scope @ '' at sequence ''
                 @ u64_to_string (re_sequence e)))
          else insert_replay_events scope es m
      | None \<Rightarrow> insert_replay_events scope es (bt_insert (scope, re_sequence e) e m))"

definition append_replay_events_fenced ::
    "datetime \<Rightarrow> run_admission_lease \<Rightarrow> replay_event list \<Rightarrow> (unit, 'c, 'e) evidence_op" where
  "append_replay_events_fenced now lease events es =
     (case check_replay_events lease events of
        Err e \<Rightarrow> (Err e, es)
      | Panic \<Rightarrow> (Panic, es)
      | Ok _ \<Rightarrow>
          (case ensure_active_admission_locked (es_store es) lease now of
             Err e \<Rightarrow> (Err e, es)
           | Panic \<Rightarrow> (Panic, es)
           | Ok _ \<Rightarrow>
               (case insert_replay_events (replay_scope_run (rt_run_id (lease_target lease))) events
                       (es_replay_events es) of
                  Err e \<Rightarrow> (Err e, es)
                | Panic \<Rightarrow> (Panic, es)
                | Ok m \<Rightarrow> (Ok (), es\<lparr>es_replay_events := m\<rparr>))))"

section \<open>Approvals and deferred tools\<close>

definition append_approval_record :: "approval_record \<Rightarrow> (unit, 'c, 'e) evidence_op" where
  "append_approval_record a es =
     (let key = run_key (ap_session_id a) (ap_run_id a) in
      if \<not> bt_contains (si_runs (es_store es)) key
      then (Err (NotFound (run_key_label (ap_session_id a) (ap_run_id a))), es)
      else (Ok (), es\<lparr>es_approvals := bt_insert key
              (filter (\<lambda>x. ap_approval_id x \<noteq> ap_approval_id a) (bt_entry (es_approvals es) key) @ [a])
              (es_approvals es)\<rparr>))"

definition load_approval_records ::
    "session_id \<Rightarrow> run_id \<Rightarrow> ('c, 'e) evidence_state \<Rightarrow> approval_record list" where
  "load_approval_records sid rid es = bt_entry (es_approvals es) (run_key sid rid)"

definition append_deferred_tool_record :: "deferred_tool_record \<Rightarrow> (unit, 'c, 'e) evidence_op" where
  "append_deferred_tool_record d es =
     (let key = run_key (dt_session_id d) (dt_run_id d) in
      if \<not> bt_contains (si_runs (es_store es)) key
      then (Err (NotFound (run_key_label (dt_session_id d) (dt_run_id d))), es)
      else (Ok (), es\<lparr>es_deferred_tools := bt_insert key
              (filter (\<lambda>x. dt_deferred_id x \<noteq> dt_deferred_id d) (bt_entry (es_deferred_tools es) key) @ [d])
              (es_deferred_tools es)\<rparr>))"

definition load_deferred_tool_records ::
    "session_id \<Rightarrow> run_id \<Rightarrow> ('c, 'e) evidence_state \<Rightarrow> deferred_tool_record list" where
  "load_deferred_tool_records sid rid es = bt_entry (es_deferred_tools es) (run_key sid rid)"

section \<open>Compact traces\<close>

record compact_run_trace =
  crt_session_id :: "session_id option"
  crt_run_id :: "run_id option"
  crt_status :: run_status
  crt_parent_run_id :: "run_id option"
  crt_parent_task_id :: "string option"
  crt_checkpoints :: "string list"
  crt_approvals :: nat
  crt_deferred_tools :: nat
  crt_latest_checkpoint :: "string option"
  crt_stream_cursor :: "u64 option"
  crt_stream_cursors :: "stream_cursor_ref list"
  crt_output_preview :: "string option"
  crt_trace_context :: json
  crt_updated_at :: "datetime option"
  crt_metadata :: metadata

record compact_session_trace =
  cst_session_id :: session_id
  cst_title :: "string option"
  cst_workspace :: "string option"
  cst_profile :: "string option"
  cst_status :: session_status
  cst_runs :: nat
  cst_latest_run_id :: "run_id option"
  cst_last_output_preview :: "string option"
  cst_stream_cursors :: "stream_cursor_ref list"
  cst_trace_context :: json
  cst_created_at :: datetime
  cst_updated_at :: datetime
  cst_metadata :: metadata

definition last_option :: "'a list \<Rightarrow> 'a option" where
  "last_option xs = (if xs = [] then None else Some (last xs))"

definition compact_run_trace_projection ::
    "session_id \<Rightarrow> run_id \<Rightarrow> ('c, 'e) evidence_state \<Rightarrow> compact_run_trace store_result" where
  "compact_run_trace_projection sid rid es =
     (let key = run_key sid rid in
      case map_of (si_runs (es_store es)) key of
        None \<Rightarrow> Err (NotFound (run_key_label sid rid))
      | Some run \<Rightarrow>
          let checkpoints = bt_entry (es_checkpoints es) key in
          Ok \<lparr>crt_session_id = Some sid, crt_run_id = Some rid, crt_status = rr_status run,
              crt_parent_run_id = rr_parent_run_id run, crt_parent_task_id = rr_parent_task_id run,
              crt_checkpoints = map cp_checkpoint_id checkpoints,
              crt_approvals =
                length (filter (\<lambda>a. ap_status a = ApPending) (bt_entry (es_approvals es) key)),
              crt_deferred_tools = length (bt_entry (es_deferred_tools es) key),
              crt_latest_checkpoint = map_option cp_checkpoint_id (last_option checkpoints),
              crt_stream_cursor = map_option asr_sequence (last_option (bt_entry (es_streams es) key)),
              crt_stream_cursors = rr_stream_cursors run, crt_output_preview = rr_output_preview run,
              crt_trace_context = rr_trace_context run, crt_updated_at = Some (rr_updated_at run),
              crt_metadata = rr_metadata run\<rparr>)"

definition compact_session_trace_projection ::
    "session_id \<Rightarrow> ('c, 'e) evidence_state \<Rightarrow> compact_session_trace store_result" where
  "compact_session_trace_projection sid es =
     (case map_of (si_sessions (es_store es)) sid of
        None \<Rightarrow> Err (NotFound sid)
      | Some session \<Rightarrow>
          let runs = sort_key rr_created_at
                (map snd (filter (\<lambda>(k, _). fst k = sid) (si_runs (es_store es))));
              latest_run = last_option runs
          in Ok \<lparr>cst_session_id = sr_session_id session, cst_title = sr_title session,
                 cst_workspace = map_option workspace_display_value (sr_workspace session),
                 cst_profile = sr_profile session, cst_status = sr_status session,
                 cst_runs = length runs, cst_latest_run_id = map_option rr_run_id latest_run,
                 cst_last_output_preview = Option.bind latest_run rr_output_preview,
                 cst_stream_cursors = sr_stream_cursors session,
                 cst_trace_context = sr_trace_context session,
                 cst_created_at = sr_created_at session, cst_updated_at = sr_updated_at session,
                 cst_metadata = sr_metadata session\<rparr>)"

section \<open>The store under the evidence\<close>

text \<open>Writing back a run under its identity, and changing a session's cursors, keep the store invariant.\<close>

lemma put_run_store_inv:
  assumes inv: "store_inv s" and run: "map_of (si_runs s) key = Some run" and same: "same_run run run'"
  shows "store_inv (s\<lparr>si_runs := bt_insert key run' (si_runs s)\<rparr>)"
proof -
  let ?s = "s\<lparr>si_runs := bt_insert key run' (si_runs s)\<rparr>"
  have "record_inv ?s"
    using store_invD(1) [OF inv] runs_ok_update [OF _ run same] index_ok_update [OF _ run same]
    by (simp add: record_inv_def)
  then have "core_inv ?s"
    by (rule core_inv_records [OF store_invD(7) [OF inv]])
      (simp_all add: records_only_def beside_records_def has_run_def)
  moreover have "background_inv ?s"
    using background_inv_hist [of ?s s] store_invD(6) [OF inv] by (simp add: hist_def)
  ultimately show ?thesis
    by (simp add: store_inv_def)
qed

lemma session_modify_store_inv:
  assumes inv: "store_inv s" and f: "\<And>r. sr_session_id (f r) = sr_session_id r"
  shows "store_inv (session_modify sid f s)"
proof (cases "map_of (si_sessions s) sid")
  case None
  then show ?thesis
    using inv by (simp add: session_modify_def)
next
  case (Some r)
  let ?s = "s\<lparr>si_sessions := bt_insert sid (f r) (si_sessions s)\<rparr>"
  have "core_inv ?s"
    using core_inv_sessions(2) [OF store_invD(7) [OF inv], of "f r" sid]
      core_inv_session_id [OF store_invD(7) [OF inv] Some] f by simp
  moreover have "background_inv ?s"
    using background_inv_hist [of ?s s] store_invD(6) [OF inv] by (simp add: hist_def)
  ultimately show ?thesis
    using Some by (simp add: store_inv_def session_modify_def)
qed

lemma advance_same_run: "advance_run_revision r = Ok r' \<Longrightarrow> same_run r r'"
  by (auto simp: advance_run_revision_def same_run_def split: option.splits)

lemma note_run_store_inv:
  assumes inv: "store_inv (es_store es)" and run: "map_of (si_runs (es_store es)) key = Some run"
    and same: "same_run run run'"
  shows "store_inv (es_store (snd (note_run now advance key run' es)))"
proof -
  have put: "store_inv (es_store (put_run key r es))" if "same_run run r" for r
    using put_run_store_inv [OF inv run that] by (simp add: put_run_def)
  have touch: "same_run run (r\<lparr>rr_updated_at := now\<rparr>)" if "same_run run' r" for r
    using same that by (simp add: same_run_def)
  show ?thesis
  proof (cases "advance_run_revision run'")
    case (Ok r)
    then show ?thesis
      using put [OF touch [OF advance_same_run [OF Ok]]] put [OF touch [of run']]
      by (simp add: note_run_def same_run_def)
  qed (use put [OF same] put [OF touch [of run']] in \<open>simp_all add: note_run_def same_run_def\<close>)
qed

lemma note_run_tables [simp]:
  "es_checkpoints (snd (note_run now advance key run es)) = es_checkpoints es"
  "es_streams (snd (note_run now advance key run es)) = es_streams es"
  "es_replay_events (snd (note_run now advance key run es)) = es_replay_events es"
  "es_approvals (snd (note_run now advance key run es)) = es_approvals es"
  "es_deferred_tools (snd (note_run now advance key run es)) = es_deferred_tools es"
  by (auto simp: note_run_def put_run_def split: result.split)

section \<open>The invariant of the evidence\<close>

definition checkpoints_ok :: "(run_key_t, 'c agent_checkpoint list) btmap \<Rightarrow> bool" where
  "checkpoints_ok m \<longleftrightarrow>
     (\<forall>k. distinct (map cp_checkpoint_id (bt_entry m k)) \<and> (\<forall>cp \<in> set (bt_entry m k). cp_run_id cp = snd k))"

definition replay_events_ok :: "(string \<times> u64, replay_event) btmap \<Rightarrow> bool" where
  "replay_events_ok m \<longleftrightarrow>
     (\<forall>k e. map_of m k = Some e
        \<longrightarrow> k = (re_scope e, re_sequence e) \<and> re_sequence e \<le> 9223372036854775807)"

definition decisions_ok ::
    "(run_key_t, approval_record list) btmap \<Rightarrow> (run_key_t, deferred_tool_record list) btmap \<Rightarrow> bool" where
  "decisions_ok am dm \<longleftrightarrow>
     (\<forall>k. distinct (map ap_approval_id (bt_entry am k))
          \<and> (\<forall>a \<in> set (bt_entry am k). k = (ap_session_id a, ap_run_id a)))
     \<and> (\<forall>k. distinct (map dt_deferred_id (bt_entry dm k))
          \<and> (\<forall>d \<in> set (bt_entry dm k). k = (dt_session_id d, dt_run_id d)))"

definition evidence_inv :: "('c, 'e) evidence_state \<Rightarrow> bool" where
  "evidence_inv es \<longleftrightarrow>
     store_inv (es_store es)
     \<and> logs_ascending asr_sequence (es_streams es)
     \<and> checkpoints_ok (es_checkpoints es)
     \<and> replay_events_ok (es_replay_events es)
     \<and> decisions_ok (es_approvals es) (es_deferred_tools es)"

lemma evidence_inv_new: "evidence_inv evidence_new"
  using store.init_inv
  by (simp add: evidence_inv_def evidence_new_def checkpoints_ok_def replay_events_ok_def
      decisions_ok_def bt_entry_def)

lemma checkpoints_ok_same:
  "checkpoints_ok m \<Longrightarrow> checkpoints_ok (bt_insert k (bt_entry m k) m)"
  by (auto simp: checkpoints_ok_def)

lemma checkpoints_ok_snoc:
  "checkpoints_ok m \<Longrightarrow> find (\<lambda>x. cp_checkpoint_id x = cp_checkpoint_id cp) (bt_entry m k) = None
     \<Longrightarrow> cp_run_id cp = snd k \<Longrightarrow> checkpoints_ok (bt_insert k (bt_entry m k @ [cp]) m)"
  by (auto simp: checkpoints_ok_def find_None_iff)

lemma append_checkpoint_inv:
  assumes "evidence_inv es"
  shows "evidence_inv (snd (append_checkpoint_record_with_revision t1 t2 sid cp adv es))"
proof (cases "map_of (si_runs (es_store es)) (run_key sid (cp_run_id cp))")
  case None
  then show ?thesis
    using assms by (simp add: append_checkpoint_record_with_revision_def Let_def)
next
  case (Some run)
  let ?key = "run_key sid (cp_run_id cp)" and ?cps = "es_checkpoints es"
  let ?es = "es\<lparr>es_checkpoints := bt_insert ?key (bt_entry ?cps ?key @ [cp]) ?cps\<rparr>"
  let ?run = "run\<lparr>rr_latest_checkpoint := Some (checkpoint_ref_of t1 cp)\<rparr>"
  have "store_inv (es_store (snd (note_run t2 adv ?key ?run ?es)))"
    by (rule note_run_store_inv [of _ _ run]) (use assms Some in \<open>simp_all add: evidence_inv_def same_run_def\<close>)
  then show ?thesis
    using assms Some checkpoints_ok_same [of ?cps ?key] checkpoints_ok_snoc [of ?cps cp ?key]
    by (auto simp: append_checkpoint_record_with_revision_def Let_def evidence_inv_def run_key_def
        split: option.split)
qed

lemma staged_evidence_inv:
  "evidence_inv es \<Longrightarrow> evidence_inv (snd (f es)) \<Longrightarrow> evidence_inv (snd (staged_evidence f es))"
  by (auto simp: staged_evidence_def split: prod.splits result.splits)

lemma evidence_store_update:
  "evidence_inv es \<Longrightarrow> store_inv s \<Longrightarrow> evidence_inv (es\<lparr>es_store := s\<rparr>)"
  by (simp add: evidence_inv_def)

lemma evidence_store: "evidence_inv es \<Longrightarrow> store_inv (es_store es)"
  by (simp add: evidence_inv_def)

lemma record_steps_inv:
  assumes "store_inv s"
  shows "store_inv (snd (save_session_record now r s))" "store_inv (snd (append_run_record now run s))"
  using store.step_inv [OF assms store_step.save_session] store.step_inv [OF assms store_step.append_run]
  by blast+

lemma commit_checkpoint_inv:
  assumes "evidence_inv es"
  shows "evidence_inv (snd (commit_checkpoint env now sid cp es))"
  unfolding commit_checkpoint_def
proof (rule staged_evidence_inv [OF assms])
  let ?prep = "op_bind (ensure_checkpoint_session env now sid) (\<lambda>_. ensure_checkpoint_run env now sid cp)"
  have "keeps store_inv ?prep"
    by (rule keeps_op_bind; rule keepsI)
      (simp_all add: ensure_checkpoint_session_def ensure_checkpoint_run_def split_beta record_steps_inv)
  then have "store_inv (snd (?prep (es_store es)))"
    using evidence_store [OF assms] by (rule keepsD)
  then have "evidence_inv (es\<lparr>es_store := snd (?prep (es_store es))\<rparr>)"
    by (rule evidence_store_update [OF assms])
  then show "evidence_inv (snd (commit_checkpoint_body env now sid cp es))"
    by (auto simp: commit_checkpoint_body_def append_checkpoint_inv split: prod.split result.split)
qed

lemma commit_checkpoint_fenced_inv:
  "evidence_inv es \<Longrightarrow> evidence_inv (snd (commit_checkpoint_fenced env now lease cp es))"
  by (simp add: commit_checkpoint_fenced_def Let_def commit_checkpoint_inv split: option.split result.split)

lemma replace_same_run: "same_run run (run\<lparr>rr_stream_cursors := cs\<rparr>)" "same_run run run"
  by (simp_all add: same_run_def)

lemma append_stream_inv:
  assumes "evidence_inv es"
  shows "evidence_inv (snd (append_stream_record_batch_with_revision t1 t2 sid rid rs adv es))"
proof (cases "map_of (si_runs (es_store es)) (run_key sid rid)")
  case None
  then show ?thesis
    using assms by (simp add: append_stream_record_batch_with_revision_def Let_def)
next
  case (Some run)
  let ?key = "run_key sid rid"
  obtain c m where m: "append_batch asr_sequence ?key rs (es_streams es) = (c, m)"
    by fastforce
  have logs: "logs_ascending asr_sequence m"
    using assms append_batch_ascending [of asr_sequence "es_streams es" ?key rs] m
    by (simp add: evidence_inv_def)
  let ?es = "es\<lparr>es_streams := m\<rparr>"
  have noted: "evidence_inv (snd (note_run t2 adv ?key run' ?es))"
    and put: "evidence_inv (put_run ?key run' ?es)" if "same_run run run'" for run'
    using assms logs that note_run_store_inv [of ?es ?key run run' t2 adv]
      put_run_store_inv [OF evidence_store [OF assms] Some that] Some
    by (simp_all add: evidence_inv_def put_run_def)
  show ?thesis
    using assms logs noted put Some m
    by (auto simp: append_stream_record_batch_with_revision_def Let_def replace_same_run
        evidence_inv_def split: option.split)
qed

lemma save_cursor_inv:
  assumes "evidence_inv es"
  shows "evidence_inv (snd (save_stream_cursor_ref_with_revision now sid rid c adv es))"
proof (cases "map_of (si_runs (es_store es)) (run_key sid rid)")
  case None
  then show ?thesis
    using assms by (simp add: save_stream_cursor_ref_with_revision_def split: result.split)
next
  case (Some run)
  let ?n = "note_run now adv (run_key sid rid)
    (run\<lparr>rr_stream_cursors := replace_cursor c (rr_stream_cursors run)\<rparr>) es"
  have "store_inv (es_store (snd ?n))"
    by (rule note_run_store_inv [OF evidence_store [OF assms] Some replace_same_run(1)])
  then have n: "evidence_inv (snd ?n)"
    using assms by (simp add: evidence_inv_def)
  obtain r es1 where r: "?n = (r, es1)"
    by fastforce
  have "evidence_inv (es1\<lparr>es_store := session_modify sid
      (\<lambda>session. session\<lparr>sr_stream_cursors := replace_cursor c (sr_stream_cursors session),
         sr_updated_at := now\<rparr>) (es_store es1)\<rparr>)"
    using n r by (intro evidence_store_update session_modify_store_inv evidence_store) simp_all
  then show ?thesis
    using assms n Some r by (simp add: save_stream_cursor_ref_with_revision_def split: result.split)
qed

lemma check_replay_events_Ok:
  "check_replay_events lease evs = Ok () \<longleftrightarrow>
     (\<forall>e \<in> set evs. re_scope e = replay_scope_run (rt_run_id (lease_target lease))
        \<and> re_sequence e \<le> 9223372036854775807)"
  by (induction evs) auto

lemma insert_replay_events_ok:
  assumes "insert_replay_events scope evs m = Ok m'" "replay_events_ok m"
    "\<forall>e \<in> set evs. re_scope e = scope \<and> re_sequence e \<le> 9223372036854775807"
  shows "replay_events_ok m' \<and> (\<forall>k e. map_of m k = Some e \<longrightarrow> map_of m' k = Some e)
    \<and> (\<forall>e \<in> set evs. map_of m' (scope, re_sequence e) = Some e)"
  using assms
proof (induction evs arbitrary: m)
  case (Cons e evs)
  show ?case
  proof (cases "map_of m (scope, re_sequence e)")
    case None
    define m1 where "m1 = bt_insert (scope, re_sequence e) e m"
    have m1: "replay_events_ok m1" "map_of m1 (scope, re_sequence e) = Some e"
      using Cons.prems(2,3) by (auto simp: replay_events_ok_def m1_def)
    have grow: "map_of m1 k = Some x" if "map_of m k = Some x" for k x
      using that None by (auto simp: m1_def)
    have "insert_replay_events scope evs m1 = Ok m'"
      using Cons.prems(1) None by (simp add: m1_def)
    from Cons.IH [OF this m1(1)] show ?thesis
      using Cons.prems(3) grow m1(2) by (simp add: split_paired_all)
  next
    case (Some p)
    then show ?thesis
      using Cons by (auto split: if_splits)
  qed
qed simp

lemma append_replay_events_inv:
  assumes "evidence_inv es"
  shows "evidence_inv (snd (append_replay_events_fenced now lease evs es))"
  using assms insert_replay_events_ok [where evs = evs and m = "es_replay_events es"
      and scope = "replay_scope_run (rt_run_id (lease_target lease))"] check_replay_events_Ok [of lease evs]
  by (auto simp: append_replay_events_fenced_def evidence_inv_def split: result.split)

lemma append_decision_inv:
  "evidence_inv es \<Longrightarrow> evidence_inv (snd (append_approval_record a es))"
  "evidence_inv es \<Longrightarrow> evidence_inv (snd (append_deferred_tool_record d es))"
  by (auto simp: append_approval_record_def append_deferred_tool_record_def Let_def evidence_inv_def
      decisions_ok_def run_key_def distinct_map_filter)

section \<open>The machine of records and evidence\<close>

inductive evidence_step ::
    "host_env \<Rightarrow> background_env \<Rightarrow> ('c, 'e) evidence_state \<Rightarrow> ('c, 'e) evidence_state \<Rightarrow> bool"
  for env benv where
  store: "store_step env benv (es_store es) s \<Longrightarrow> evidence_step env benv es (es\<lparr>es_store := s\<rparr>)"
| checkpoint: "evidence_step env benv es (snd (append_checkpoint_record t1 t2 sid cp es))"
| commit: "evidence_step env benv es (snd (commit_checkpoint eenv now sid cp es))"
| commit_fenced: "evidence_step env benv es (snd (commit_checkpoint_fenced eenv now lease cp es))"
| stream: "evidence_step env benv es (snd (append_stream_record_batch t1 t2 sid rid rs es))"
| cursor: "evidence_step env benv es (snd (save_stream_cursor_ref now sid rid c es))"
| replay: "evidence_step env benv es (snd (append_replay_events_fenced now lease evs es))"
| approval: "evidence_step env benv es (snd (append_approval_record a es))"
| deferred: "evidence_step env benv es (snd (append_deferred_tool_record d es))"

interpretation evidence: guarded_machine evidence_new "evidence_step env benv" evidence_inv for env benv
proof
  show "evidence_inv evidence_new"
    by (rule evidence_inv_new)
  show "evidence_inv es'" if "evidence_inv es" "evidence_step env benv es es'" for es es'
    using that(2)
  proof cases
    case (store s)
    then show ?thesis
      using evidence_store_update [OF that(1)] store.step_inv [OF evidence_store [OF that(1)]] by blast
  qed (simp_all add: that(1) append_checkpoint_record_def append_checkpoint_inv commit_checkpoint_inv
      commit_checkpoint_fenced_inv append_stream_record_batch_def append_stream_inv
      save_stream_cursor_ref_def save_cursor_inv append_replay_events_inv append_decision_inv)
qed

section \<open>Evidence only grows\<close>

definition evidence_extends :: "('c, 'e) evidence_state \<Rightarrow> ('c, 'e) evidence_state \<Rightarrow> bool" where
  "evidence_extends es es' \<longleftrightarrow>
     (\<forall>k. prefix (bt_entry (es_checkpoints es) k) (bt_entry (es_checkpoints es') k))
     \<and> (\<forall>k. set (bt_entry (es_streams es) k) \<subseteq> set (bt_entry (es_streams es') k))
     \<and> (\<forall>k e. map_of (es_replay_events es) k = Some e \<longrightarrow> map_of (es_replay_events es') k = Some e)"

lemma evidence_extends_refl: "evidence_extends es es"
  by (simp add: evidence_extends_def)

lemma evidence_extends_trans:
  "evidence_extends a b \<Longrightarrow> evidence_extends b c \<Longrightarrow> evidence_extends a c"
  unfolding evidence_extends_def by (meson prefix_order.trans subset_trans)

lemma extends_same_tables:
  "es_checkpoints es' = es_checkpoints es \<Longrightarrow> es_streams es' = es_streams es \<Longrightarrow>
   es_replay_events es' = es_replay_events es \<Longrightarrow> evidence_extends es es'"
  by (simp add: evidence_extends_def)

lemma put_run_tables [simp]:
  "es_checkpoints (put_run key run es) = es_checkpoints es"
  "es_streams (put_run key run es) = es_streams es"
  "es_replay_events (put_run key run es) = es_replay_events es"
  by (simp_all add: put_run_def)

lemma append_checkpoint_extends:
  "evidence_extends es (snd (append_checkpoint_record_with_revision t1 t2 sid cp adv es))"
  by (auto simp: append_checkpoint_record_with_revision_def Let_def evidence_extends_def
      split: option.split)

lemma staged_extends:
  "evidence_extends es (snd (f es)) \<Longrightarrow> evidence_extends es (snd (staged_evidence f es))"
  by (auto simp: staged_evidence_def evidence_extends_refl split: prod.splits result.splits)

lemma extends_store: "evidence_extends es (es\<lparr>es_store := s\<rparr>)"
  by (rule extends_same_tables) simp_all

lemma commit_checkpoint_extends: "evidence_extends es (snd (commit_checkpoint env now sid cp es))"
  unfolding commit_checkpoint_def
  by (rule staged_extends)
    (auto simp: commit_checkpoint_body_def extends_store
      intro: evidence_extends_trans [OF extends_store append_checkpoint_extends]
      split: prod.split result.split)

lemma commit_fenced_extends: "evidence_extends es (snd (commit_checkpoint_fenced env now lease cp es))"
  by (simp add: commit_checkpoint_fenced_def Let_def commit_checkpoint_extends evidence_extends_refl
      split: option.split result.split)

lemma append_batch_grows:
  assumes "logs_ascending seq m"
  shows "set (bt_entry m j) \<subseteq> set (bt_entry (snd (append_batch seq k rs m)) j)"
  using append_batch_set [OF assms, of k rs] append_batch_keeps [of seq k rs m j]
  by (cases "fst (append_batch seq k rs m) = None \<and> j = k") auto

lemma append_stream_extends:
  assumes "evidence_inv es"
  shows "evidence_extends es (snd (append_stream_record_batch_with_revision t1 t2 sid rid rs adv es))"
proof -
  obtain c m where m: "append_batch asr_sequence (run_key sid rid) rs (es_streams es) = (c, m)"
    by fastforce
  have "set (bt_entry (es_streams es) k) \<subseteq> set (bt_entry m k)" for k
    using append_batch_grows [of asr_sequence "es_streams es" k "run_key sid rid" rs] assms m
    by (simp add: evidence_inv_def)
  then show ?thesis
    using m by (simp add: append_stream_record_batch_with_revision_def Let_def evidence_extends_def
        split: option.split)
qed

lemma save_cursor_extends:
  "evidence_extends es (snd (save_stream_cursor_ref_with_revision now sid rid c adv es))"
proof (rule extends_same_tables)
  have "es_checkpoints es1 = es_checkpoints es \<and> es_streams es1 = es_streams es
      \<and> es_replay_events es1 = es_replay_events es"
    if "note_run now adv key run es = (r, es1)" for key run r and es1 :: "('a, 'b) evidence_state"
    using note_run_tables [of now adv key run es] that by simp
  then show "es_checkpoints (snd (save_stream_cursor_ref_with_revision now sid rid c adv es)) = es_checkpoints es"
    "es_streams (snd (save_stream_cursor_ref_with_revision now sid rid c adv es)) = es_streams es"
    "es_replay_events (snd (save_stream_cursor_ref_with_revision now sid rid c adv es)) = es_replay_events es"
    by (auto simp: save_stream_cursor_ref_with_revision_def split: result.split option.split prod.split)
qed

lemma append_replay_extends:
  assumes "evidence_inv es"
  shows "evidence_extends es (snd (append_replay_events_fenced now lease evs es))"
  using assms insert_replay_events_ok [where evs = evs and m = "es_replay_events es"
      and scope = "replay_scope_run (rt_run_id (lease_target lease))"] check_replay_events_Ok [of lease evs]
  by (auto simp: append_replay_events_fenced_def evidence_inv_def evidence_extends_def split: result.split)

lemma evidence_step_extends:
  assumes "evidence_inv es" "evidence_step env benv es es'"
  shows "evidence_extends es es'"
  using assms(2)
proof cases
  case (approval a)
  then show ?thesis
    by (auto simp: append_approval_record_def Let_def intro!: extends_same_tables)
next
  case (deferred d)
  then show ?thesis
    by (auto simp: append_deferred_tool_record_def Let_def intro!: extends_same_tables)
qed (simp_all add: assms(1) extends_store append_checkpoint_record_def append_checkpoint_extends
    commit_checkpoint_extends commit_fenced_extends append_stream_record_batch_def append_stream_extends
    save_stream_cursor_ref_def save_cursor_extends append_replay_extends)

lemma evidence_steps_extend:
  assumes "(evidence_step env benv)\<^sup>*\<^sup>* es es'" "evidence_inv es"
  shows "evidence_extends es es'"
  using assms(1)
proof (induction rule: rtranclp_induct)
  case base
  then show ?case
    by (rule evidence_extends_refl)
next
  case (step a b)
  then show ?case
    using evidence.steps_inv [OF step.hyps(1) assms(2)] evidence_step_extends evidence_extends_trans
    by blast
qed

section \<open>Checkpoints and streams as the caller sees them\<close>

text \<open>A stored checkpoint is found by its id, so a retry of its commit is answered without a write.\<close>

lemma find_in_set: "find P xs = Some x \<Longrightarrow> x \<in> set xs"
  by (auto simp: find_Some_iff)

lemma find_unique_id:
  "inj_on f (set xs) \<Longrightarrow> x \<in> set xs \<Longrightarrow> find (\<lambda>y. f y = f x) xs = Some x"
  by (induction xs) (auto simp: inj_on_def)

lemma find_checkpoint:
  assumes "checkpoints_ok m" "cp \<in> set (bt_entry m k)"
  shows "find (\<lambda>x. cp_checkpoint_id x = cp_checkpoint_id cp) (bt_entry m k) = Some cp"
proof -
  have "inj_on cp_checkpoint_id (set (bt_entry m k))"
    using assms(1) unfolding checkpoints_ok_def distinct_map by blast
  then show ?thesis
    using assms(2) find_unique_id [of cp_checkpoint_id "bt_entry m k" cp] by simp
qed

lemma commit_fenced_retry:
  assumes "evidence_inv es" "rt_run_id (lease_target lease) = cp_run_id cp"
    and "cp \<in> set (load_checkpoint_records (rt_session_id (lease_target lease)) (cp_run_id cp) es)"
  shows "commit_checkpoint_fenced env now lease cp es = (Ok (), es)"
proof -
  have "find (\<lambda>x. cp_checkpoint_id x = cp_checkpoint_id cp)
      (bt_entry (es_checkpoints es) (run_key (rt_session_id (lease_target lease)) (cp_run_id cp))) = Some cp"
    using assms by (intro find_checkpoint) (simp_all add: evidence_inv_def load_checkpoint_records_def)
  then show ?thesis
    using assms(2) by (simp add: commit_checkpoint_fenced_def)
qed

lemma commit_fenced_needs_lease:
  assumes "\<not> is_ok (ensure_active_admission_locked (es_store es) lease now)"
    and "cp \<notin> set (load_checkpoint_records (rt_session_id (lease_target lease)) (cp_run_id cp) es)"
  shows "\<exists>e. commit_checkpoint_fenced env now lease cp es = (Err e, es) \<or>
    commit_checkpoint_fenced env now lease cp es = (Panic, es)"
proof -
  have "existing \<noteq> cp" if "find (\<lambda>x. cp_checkpoint_id x = cp_checkpoint_id cp)
      (bt_entry (es_checkpoints es) (run_key (rt_session_id (lease_target lease)) (cp_run_id cp)))
      = Some existing" for existing
    using assms(2) find_in_set [OF that] by (auto simp: load_checkpoint_records_def)
  then show ?thesis
    using assms(1) by (auto simp: commit_checkpoint_fenced_def Let_def split: option.split result.split)
qed

lemma note_run_result:
  "note_run now advance key run es = (r, es') \<Longrightarrow>
   es_checkpoints es' = es_checkpoints es \<and> es_streams es' = es_streams es
     \<and> es_replay_events es' = es_replay_events es"
  by (metis note_run_tables(1-3) snd_conv)

lemma note_run_Ok:
  assumes "note_run now advance key run es = (Ok (), es')"
  shows "\<exists>r. map_of (si_runs (es_store es')) key = Some r
    \<and> rr_latest_checkpoint r = rr_latest_checkpoint run \<and> rr_stream_cursors r = rr_stream_cursors run"
  using assms by (auto simp: note_run_def put_run_def advance_run_revision_def
      split: if_splits result.splits option.splits)

text \<open>A new checkpoint is appended and the run refers to it.\<close>

lemma append_checkpoint_new:
  assumes "append_checkpoint_record_with_revision t1 t2 sid cp adv es = (Ok (), es')"
    and "cp \<notin> set (load_checkpoint_records sid (cp_run_id cp) es)"
  shows "load_checkpoint_records sid (cp_run_id cp) es' = load_checkpoint_records sid (cp_run_id cp) es @ [cp]"
    and "\<exists>r. map_of (si_runs (es_store es')) (run_key sid (cp_run_id cp)) = Some r
      \<and> rr_latest_checkpoint r = Some (checkpoint_ref_of t1 cp)"
proof -
  let ?key = "run_key sid (cp_run_id cp)"
  obtain run where run: "map_of (si_runs (es_store es)) ?key = Some run"
    using assms(1) by (cases "map_of (si_runs (es_store es)) ?key")
      (simp_all add: append_checkpoint_record_with_revision_def Let_def)
  have none: "find (\<lambda>x. cp_checkpoint_id x = cp_checkpoint_id cp) (bt_entry (es_checkpoints es) ?key) = None"
    using assms run by (auto simp: append_checkpoint_record_with_revision_def Let_def
        load_checkpoint_records_def dest: find_in_set split: option.splits if_splits)
  let ?es = "es\<lparr>es_checkpoints := bt_insert ?key (bt_entry (es_checkpoints es) ?key @ [cp]) (es_checkpoints es)\<rparr>"
  have noted: "note_run t2 adv ?key (run\<lparr>rr_latest_checkpoint := Some (checkpoint_ref_of t1 cp)\<rparr>) ?es
      = (Ok (), es')"
    using assms(1) run none by (simp add: append_checkpoint_record_with_revision_def Let_def)
  then show "load_checkpoint_records sid (cp_run_id cp) es' = load_checkpoint_records sid (cp_run_id cp) es @ [cp]"
    by (simp add: load_checkpoint_records_def note_run_result [OF noted])
  show "\<exists>r. map_of (si_runs (es_store es')) ?key = Some r
      \<and> rr_latest_checkpoint r = Some (checkpoint_ref_of t1 cp)"
    using note_run_Ok [OF noted] by auto
qed

text \<open>
  A stream append stores the union in ascending order. The run's cursor for the raw stream is set to
  the end of the stored log, also when a cursor saved by \<open>save_stream_cursor\<close> was further on.
\<close>

lemma same_stream_refl [simp]: "same_stream c c"
  by (simp add: same_stream_def)

lemma replace_cursor_only: "filter (\<lambda>x. same_stream x c) (replace_cursor c cs) = [c]"
  by (simp add: replace_cursor_def)

lemma append_stream_Ok:
  assumes inv: "evidence_inv es"
    and ok: "append_stream_record_batch t1 t2 sid rid rs es = (Ok (), es')"
  shows "set (replay_stream_record_batch sid rid es')
           = set (replay_stream_record_batch sid rid es) \<union> set rs"
    and "replay_stream_record_batch sid rid es' \<noteq> [] \<Longrightarrow>
      \<exists>run c. map_of (si_runs (es_store es')) (run_key sid rid) = Some run
        \<and> filter (\<lambda>x. same_stream x c) (rr_stream_cursors run) = [c]
        \<and> sc_position c = cursor_raw_runtime (replay_scope_run rid)
            (asr_sequence (last (replay_stream_record_batch sid rid es')))"
proof -
  let ?key = "run_key sid rid"
  obtain run where run: "map_of (si_runs (es_store es)) ?key = Some run"
    using ok by (cases "map_of (si_runs (es_store es)) ?key")
      (simp_all add: append_stream_record_batch_def append_stream_record_batch_with_revision_def Let_def)
  obtain m where m: "append_batch asr_sequence ?key rs (es_streams es) = (None, m)"
    using ok run by (cases "append_batch asr_sequence ?key rs (es_streams es)"; cases "fst (append_batch
        asr_sequence ?key rs (es_streams es))")
      (simp_all add: append_stream_record_batch_def append_stream_record_batch_with_revision_def Let_def)
  define c where "c = stream_cursor_ref_new t1
    (cursor_raw_runtime (replay_scope_run rid) (asr_sequence (last (bt_entry m ?key))))"
  define run1 where "run1 = (if bt_entry m ?key = [] then run
    else run\<lparr>rr_stream_cursors := replace_cursor c (rr_stream_cursors run)\<rparr>)"
  have cases: "note_run t2 True ?key run1 (es\<lparr>es_streams := m\<rparr>) = (Ok (), es')
      \<or> es' = put_run ?key run1 (es\<lparr>es_streams := m\<rparr>)"
    using ok run m by (auto simp: append_stream_record_batch_def append_stream_record_batch_with_revision_def
        Let_def run1_def c_def split: if_splits)
  have streams: "es_streams es' = m"
    using cases by (auto dest: note_run_result)
  have "logs_ascending asr_sequence (es_streams es)"
    using inv by (simp add: evidence_inv_def)
  then show "set (replay_stream_record_batch sid rid es')
      = set (replay_stream_record_batch sid rid es) \<union> set rs"
    using append_batch_set [of asr_sequence "es_streams es" ?key rs] m streams
    by (simp add: replay_stream_record_batch_def)
  obtain r where r: "map_of (si_runs (es_store es')) ?key = Some r" "rr_stream_cursors r = rr_stream_cursors run1"
    using cases note_run_Ok [of t2 True ?key run1 "es\<lparr>es_streams := m\<rparr>" es'] by (auto simp: put_run_def)
  show "\<exists>run c. map_of (si_runs (es_store es')) ?key = Some run
        \<and> filter (\<lambda>x. same_stream x c) (rr_stream_cursors run) = [c]
        \<and> sc_position c = cursor_raw_runtime (replay_scope_run rid)
            (asr_sequence (last (replay_stream_record_batch sid rid es')))"
    if "replay_stream_record_batch sid rid es' \<noteq> []"
    using that r streams
    by (auto simp: replay_stream_record_batch_def run1_def replace_cursor_only c_def stream_cursor_ref_new_def
        intro!: exI [of _ c])
qed

end
