(* ===== verification/Evidence_Scenario.thy ===== *)
theory Evidence_Scenario
  imports Scenario Run_Evidence
begin

text \<open>
  A run with a checkpoint and two stream records, computed by the operations of the model, at which
  the properties of the run evidence are applied. The last lemma is an execution in which appending
  to a stream moves the cursor of the run backwards.
\<close>

definition sample_cursor :: agent_resume_cursor where
  "sample_cursor =
     \<lparr>arc_model_request_attempt = 1, arc_tool_call_batch_id = None, arc_output_validation_attempt = 0,
      arc_stream_cursor = Some 1, arc_message_cursor = 2\<rparr>"

definition sample_resume :: agent_resume_evidence where
  "sample_resume =
     \<lparr>are_node = NodeModelResponse, are_status = Running, are_run_step = 1, are_cursor = sample_cursor,
      are_usage = usage_default, are_context_revision = None, are_environment_ref = None,
      are_pending_approval_count = 0, are_deferred_tool_count = 0, are_trace_context = JNull,
      are_metadata = []\<rparr>"

definition sample_checkpoint :: "string \<Rightarrow> unit agent_checkpoint" where
  "sample_checkpoint i =
     \<lparr>cp_checkpoint_id = i, cp_run_id = ''r1'', cp_conversation_id = ''c'', cp_node = NodeModelResponse,
      cp_run_step = 1, cp_resume = sample_resume,
      cp_state = \<lparr>agrs_parent_run_id = None, agrs_parent_task_id = None, agrs_rest = ()\<rparr>,
      cp_metadata = []\<rparr>"

definition sample_record :: "u64 \<Rightarrow> unit agent_stream_record" where
  "sample_record n = \<lparr>asr_sequence = n, asr_source = None, asr_event = ()\<rparr>"

definition sample_eenv :: evidence_env where
  "sample_eenv = \<lparr>ev_default_state = JNull, ev_default_trace = JNull\<rparr>"

definition e_committed :: "(unit, unit) evidence_state" where
  "e_committed = snd (commit_checkpoint sample_eenv 5 ''s'' (sample_checkpoint ''k1'') evidence_new)"

definition e_streamed :: "(unit, unit) evidence_state" where
  "e_streamed = snd (append_stream_record_batch 6 6 ''s'' ''r1'' [sample_record 2, sample_record 1] e_committed)"

definition e_saved :: "(unit, unit) evidence_state" where
  "e_saved = snd (save_stream_cursor_ref 7 ''s'' ''r1''
     (stream_cursor_ref_new 7 (cursor_raw_runtime (replay_scope_run ''r1'') 9)) e_streamed)"

definition e_appended :: "(unit, unit) evidence_state" where
  "e_appended = snd (append_stream_record_batch 8 8 ''s'' ''r1'' [sample_record 3] e_saved)"

lemma reach_checkpointed: "(evidence_step sample_env sample_benv)\<^sup>*\<^sup>* evidence_new e_committed"
  unfolding e_committed_def by (rule r_into_rtranclp) (rule evidence_step.commit)

lemma steps_committed_streamed: "(evidence_step sample_env sample_benv)\<^sup>*\<^sup>* e_committed e_streamed"
  unfolding e_streamed_def by (rule r_into_rtranclp) (rule evidence_step.stream)

lemma committed_checkpoints: "load_checkpoint_records ''s'' ''r1'' e_committed = [sample_checkpoint ''k1'']"
  by code_simp

lemma streamed_records: "map asr_sequence (replay_stream_record_batch ''s'' ''r1'' e_streamed) = [1, 2]"
  by code_simp

lemma streamed_no_lease:
  "\<not> is_ok (ensure_active_admission_locked (es_store e_streamed) lease_a now)"
proof -
  have "si_run_admissions (es_store e_streamed) = []"
    by code_simp
  then show ?thesis
    by (simp add: ensure_active_admission_locked_def Let_def)
qed

text \<open>
  \<open>save_stream_cursor\<close> refuses a cursor behind the stored one; \<open>append_stream_records\<close> writes one
  without that check.
\<close>

definition raw_positions :: "(unit, unit) evidence_state \<Rightarrow> u64 list" where
  "raw_positions es =
     (case map_of (si_runs (es_store es)) (run_key ''s'' ''r1'') of
        None \<Rightarrow> []
      | Some run \<Rightarrow> map (cur_sequence \<circ> sc_position) (rr_stream_cursors run))"

lemma append_moves_cursor_back: "raw_positions e_saved = [9]" "raw_positions e_appended = [3]"
  by code_simp+

end
