(* ===== verification/Store_Traces.thy ===== *)
theory Store_Traces
  imports Store_Machine
begin

text \<open>
  What the operations of the store do to the records of single commands over whole executions: a
  started continuation effect is not forgotten, a control intent moves forward only, and the
  receipt of a session command keeps its fingerprint. Each is a fact about one step, for every
  rule of the transition system, and is lifted to executions by induction.
\<close>

section \<open>Tables that an operation leaves alone\<close>

text \<open>The session operations write sessions, their receipts and the outbox only.\<close>

definition work :: "store_inner \<Rightarrow> (run_key_t, run_record) btmap
    \<times> (run_key_t, hitl_resume_claim) btmap
    \<times> (managed_run_target \<times> string, durable_run_control_intent) btmap" where
  "work s = (si_runs s, si_hitl_resume_claims s, si_run_control_intents s)"

lemma work_updates [simp]:
  "work (s\<lparr>si_sessions := a\<rparr>) = work s" "work (s\<lparr>si_session_idempotency := d\<rparr>) = work s"
  "work (s\<lparr>si_run_admissions := e\<rparr>) = work s" "work (session_modify sid f s) = work s"
  by (simp_all add: work_def)

lemma work_outbox_only: "outbox_only s s' \<Longrightarrow> work s' = work s"
  by (simp add: work_def outbox_onlyD)

lemma work_enqueue: "keeps (\<lambda>s. work s = W) (enqueue_host_event_publications_locked env pubs)"
  by (simp add: keeps_def work_outbox_only [OF enqueue_outbox_only])

lemma keeps_work: "keeps (\<lambda>s. work s = work s0) f \<Longrightarrow> work (snd (f s0)) = work s0"
  by (simp add: keeps_def)

lemma work_session_fresh:
  "work (snd (create_session_fresh r key fp time s)) = work s"
  "work (snd (update_session_fresh cmd session fp time s)) = work s"
  "work (snd (tombstone_staged now t sid fid pubs session s)) = work s"
  by (auto simp: create_session_fresh_def update_session_fresh_def tombstone_staged_def Let_def work_def
      split: result.split session_deletion_fence.split)

lemma work_record_ops:
  "work (snd (save_session_record now r s)) = work s"
  "work (snd (set_session_status now sid sst s)) = work s"
  "work (snd (save_context_state_snapshot now sid state s)) = work s"
  "work (snd (save_environment_state_ref now sid est s)) = work s"
  by (auto simp: save_session_record_def set_session_status_def save_context_state_snapshot_def
      save_environment_state_ref_def session_touch_def Let_def work_def split: option.split)

lemma work_session_ops:
  "work (snd (create_session_idempotent now r key fp s)) = work s"
  "work (snd (update_managed_session now cmd fp s)) = work s"
  "work (snd (acquire_session_deletion_fence now t1 t2 sid ex fid who key fp s)) = work s"
  "work (snd (tombstone_session now t1 t2 sid fid s)) = work s"
proof -
  show "work (snd (create_session_idempotent now r key fp s)) = work s"
    by (auto simp: create_session_idempotent_def work_session_fresh split: option.split)
  show "work (snd (update_managed_session now cmd fp s)) = work s"
    by (auto simp: update_managed_session_def work_session_fresh split: option.split)
  show "work (snd (acquire_session_deletion_fence now t1 t2 sid ex fid who key fp s)) = work s"
    by (auto simp: acquire_session_deletion_fence_def Let_def work_def split: option.split)
  show "work (snd (tombstone_session now t1 t2 sid fid s)) = work s"
    by (auto simp: tombstone_session_def Let_def split: option.split result.split session_deletion_fence.split)
qed

lemma work_event_ops:
  "work (snd (create_session_idempotent_with_host_events env now r key fp pubs s)) = work s"
  "work (snd (update_managed_session_with_host_events env now cmd fp pubs s)) = work s"
  "work (snd (enqueue_host_event_publication_batch env pubs s)) = work s"
proof -
  have enq: "keeps (\<lambda>s. work s = W) (op_bind (enqueue_host_event_publications_locked env pubs)
      (\<lambda>_. op_lift (Ok r)))" for W and r :: session_record
    by (simp add: keeps_op_bind work_enqueue)
  show "work (snd (create_session_idempotent_with_host_events env now r key fp pubs s)) = work s"
    unfolding create_session_idempotent_with_host_events_def
    by (rule keeps_work, rule keeps_staged_core_inv, rule keeps_op_bind [OF _ enq])
       (auto simp: keeps_def work_session_fresh split: option.split)
  show "work (snd (update_managed_session_with_host_events env now cmd fp pubs s)) = work s"
    unfolding update_managed_session_with_host_events_def
    by (rule keeps_work, rule keeps_staged_core_inv, rule keeps_op_bind [OF _ enq])
       (auto simp: keeps_def work_session_fresh split: option.split)
  show "work (snd (enqueue_host_event_publication_batch env pubs s)) = work s"
    unfolding enqueue_host_event_publication_batch_def
    by (rule keeps_work, rule keeps_staged_core_inv, rule work_enqueue)
qed

text \<open>The tombstone in its transactional form, opened once for all tables.\<close>

lemma tombstone_events_cases:
  assumes "tombstone_session_idempotent_with_host_events env now t1 sid fid key fp pubs s = (x, s')"
  obtains (failed) "s' = s"
  | (committed) session r0 result s1 where
      "map_of (si_sessions s) sid = Some session"
      "map_of (si_session_idempotency s) (sr_namespace_id session, key) = Some (fp, r0)"
      "tombstone_staged now t1 sid fid pubs session s = (Ok (), s1)"
      "map_of (si_sessions s1) sid = Some result"
      "outbox_only (s1\<lparr>si_session_idempotency :=
         bt_insert (sr_namespace_id session, key) (fp, result) (si_session_idempotency s1)\<rparr>) s'"
proof (cases "is_ok x")
  case True
  then obtain r where Ok: "x = Ok r" by (cases x) auto
  with assms obtain session r0 result s1 where *:
      "map_of (si_sessions s) sid = Some session"
      "map_of (si_session_idempotency s) (sr_namespace_id session, key) = Some (fp, r0)"
      "tombstone_staged now t1 sid fid pubs session s = (Ok (), s1)"
      "map_of (si_sessions s1) sid = Some result"
      "op_bind (enqueue_host_event_publications_locked env pubs) (\<lambda>_. op_lift (Ok result))
        (s1\<lparr>si_session_idempotency :=
         bt_insert (sr_namespace_id session, key) (fp, result) (si_session_idempotency s1)\<rparr>) = (Ok r, s')"
    by (auto simp: tombstone_session_idempotent_with_host_events_def staged_Ok op_bind_Ok Let_def
        split: option.splits if_splits)
  from *(5) obtain y where "enqueue_host_event_publications_locked env pubs
      (s1\<lparr>si_session_idempotency :=
         bt_insert (sr_namespace_id session, key) (fp, result) (si_session_idempotency s1)\<rparr>) = (y, s')"
    by (auto simp: op_bind_Ok)
  with enqueue_outbox_only have "outbox_only (s1\<lparr>si_session_idempotency :=
         bt_insert (sr_namespace_id session, key) (fp, result) (si_session_idempotency s1)\<rparr>) s'"
    by (metis snd_conv)
  with *(1-4) show ?thesis by (rule committed)
next
  case False
  with assms have "s' = s"
    unfolding tombstone_session_idempotent_with_host_events_def by (intro staged_not_Ok)
  then show ?thesis by (rule failed)
qed

lemma work_tombstone_events:
  "work (snd (tombstone_session_idempotent_with_host_events env now t1 sid fid key fp pubs s)) = work s"
proof (cases "tombstone_session_idempotent_with_host_events env now t1 sid fid key fp pubs s")
  case (Pair x s')
  then have "work s' = work s"
  proof (cases rule: tombstone_events_cases)
    case (committed session r0 result s1)
    have "work s1 = work s" using work_session_fresh(3) committed(3) by (metis snd_conv)
    with work_outbox_only [OF committed(5)] show ?thesis by simp
  qed simp
  with Pair show ?thesis by simp
qed

lemma work_lease_ops:
  "work (snd (heartbeat_run_admission t1 t2 lease e s)) = work s"
  "work (snd (release_run_admission now lease s)) = work s"
  "work (snd (materialize_host_event_publication_batch limit s)) = work s"
  by (simp_all add: heartbeat_run_admission_def release_run_admission_def Let_def
      work_outbox_only [OF materialize_batch_outbox_only] split: option.split)

lemma work_background_op:
  "background_operation f \<Longrightarrow> background_inv s \<Longrightarrow> work (snd (f s)) = work s"
  by (simp add: work_def background_onlyD [OF background_operation.frame])

lemmas work_background_ops =
  work_background_op [OF bg_accept.background_operation_axioms]
  work_background_op [OF bg_update.background_operation_axioms]
  work_background_op [OF bg_heartbeat.background_operation_axioms]
  work_background_op [OF bg_commit.background_operation_axioms]
  work_background_op [OF bg_expire.background_operation_axioms]
  work_background_op [OF bg_claim.background_operation_axioms]
  work_background_op [OF bg_acknowledge.background_operation_axioms]
  work_background_op [OF bg_release.background_operation_axioms]
  work_background_op [OF bg_reconcile.background_operation_axioms]

lemmas work_ops = work_record_ops work_session_ops work_event_ops work_tombstone_events work_lease_ops

text \<open>A continuation is an acquisition followed by a write of the background tables.\<close>

lemma continuation_is_acquisition:
  "snd (acquire_background_subagent_continuation benv now t1 t2 req s) = s
   \<or> background_only (snd (acquire_run_admission t1 (acr_admission req) s))
       (snd (acquire_background_subagent_continuation benv now t1 t2 req s))"
proof (cases "acquire_background_subagent_continuation benv now t1 t2 req s")
  case (Pair x s')
  then show ?thesis
  proof (cases rule: acquire_continuation_cases)
    case (admitted r adm s1)
    have "snd (acquire_run_admission t1 (acr_admission req) s) = s1"
      using admitted(4) by (simp add: acquire_run_admission_def staged_def)
    moreover have "background_only s1 s'" by (simp add: admitted(7))
    ultimately show ?thesis by (simp add: Pair)
  qed (simp_all add: Pair)
qed

section \<open>A started effect is not forgotten\<close>

text \<open>The run carries the marker of an effect whose outcome is unknown.\<close>

definition effect_marked :: "run_key_t \<Rightarrow> store_inner \<Rightarrow> bool" where
  "effect_marked k s \<longleftrightarrow>
     (\<exists>r. map_of (si_runs s) k = Some r
        \<and> continuation_effect_from_metadata (rr_metadata r) = Ok (Some continuation_effect_indeterminate))"

text \<open>A started claim is still there, or it has been consumed by marking its source.\<close>

definition effect_recorded :: "run_key_t \<Rightarrow> hitl_resume_claim \<Rightarrow> store_inner \<Rightarrow> bool" where
  "effect_recorded k c s \<longleftrightarrow>
     claim_state c = Started
     \<and> (map_of (si_hitl_resume_claims s) k = Some c
        \<or> map_of (si_hitl_resume_claims s) k = None \<and> effect_marked k s)"

lemma effect_recorded_work: "work s' = work s \<Longrightarrow> effect_recorded k c s' = effect_recorded k c s"
  by (simp add: work_def effect_recorded_def effect_marked_def)

lemma effect_recorded_updates [simp]:
  "effect_recorded k c (s\<lparr>si_run_admissions := e\<rparr>) = effect_recorded k c s"
  "effect_recorded k c (session_modify sid f s) = effect_recorded k c s"
  by (rule effect_recorded_work, simp)+

lemma effect_recorded_update:
  assumes "si_hitl_resume_claims s' = si_hitl_resume_claims s"
    and "\<And>r. map_of (si_runs s) k = Some r \<Longrightarrow>
      \<exists>r'. map_of (si_runs s') k = Some r' \<and> (rr_metadata r' = rr_metadata r
        \<or> rr_metadata r' = continuation_effect_insert_into continuation_effect_indeterminate (rr_metadata r))"
    and "effect_recorded k c s"
  shows "effect_recorded k c s'"
  using assms unfolding effect_recorded_def effect_marked_def
  by (metis continuation_effect_roundtrip)

lemma apply_run_status_recorded: "keeps (effect_recorded k c) (apply_run_status_locked sid rid st pv er t)"
  by (rule keepsI, rule effect_recorded_update)
     (auto simp: apply_run_status_locked_def Let_def advance_run_revision_Ok split: option.split result.split)

lemma cancel_admitted_recorded: "keeps (effect_recorded k c) (cancel_admitted_run lease t eff)"
  by (rule keepsI, rule effect_recorded_update)
     (auto simp: cancel_admitted_run_def Let_def advance_run_revision_Ok interrupt_expired_run_def
        split: option.split result.split)

lemma terminalize_recorded: "keeps (effect_recorded k c) (terminalize_started_hitl_source_locked r t)"
proof (rule keepsI)
  fix s
  assume rec: "effect_recorded k c s"
  have "effect_recorded k c (snd (settle_source_claim key source claim t s))"
    if claim: "map_of (si_hitl_resume_claims s) key = Some claim"
      and source: "map_of (si_runs s) key = Some source" for key source claim
  proof (cases "claim_state claim = Started")
    case True
    then show ?thesis
      using rec claim source
      by (cases "key = k")
         (auto simp: settle_source_claim_def mark_source_indeterminate_def op_bind_def Let_def
            effect_recorded_def effect_marked_def advance_run_revision_Ok continuation_effect_roundtrip
            interrupt_expired_run_def split: result.split)
  next
    case False
    with rec claim show ?thesis
      by (cases "key = k")
         (auto simp: settle_source_claim_def op_bind_def op_lift_def Let_def effect_recorded_def effect_marked_def)
  qed
  with rec show "effect_recorded k c (snd (terminalize_started_hitl_source_locked r t s))"
    by (simp add: terminalize_started_hitl_source_locked_def Let_def split: option.split)
qed

interpretation effect_cleanup: lease_cleanup "effect_recorded k c" for k c
proof
  show "keeps (effect_recorded k c) (publish_authoritative env i runs)" for env i runs
    by (rule keepsI) (simp add: effect_recorded_work [OF work_outbox_only [OF publish_outbox_only]])
  show "keeps (effect_recorded k c) (reconcile_run_control_intents_locked lease t)" for lease t
    by (rule keepsI) (simp add: effect_recorded_def effect_marked_def control_onlyD [OF reconcile_control_only])
qed (simp_all add: apply_run_status_recorded cancel_admitted_recorded terminalize_recorded)

lemma acquire_recorded: "keeps (effect_recorded k c) (acquire_run_admission now req)"
  unfolding acquire_run_admission_def
proof (rule keeps_stagedI)
  fix s x s'
  assume rec: "effect_recorded k c s" and "acquire_run_admission_locked now req s = (Ok x, s')"
  from this(2) show "effect_recorded k c s'"
  proof (cases rule: acquire_locked_Ok_cases)
    case (fresh s1 key run s2)
    have rec1: "effect_recorded k c s1" using rec fresh(2) by (rule effect_cleanup.keeps_displace)
    have "si_runs s2 = si_runs s1"
      using admit_claim_eq [OF fresh(6)] by auto
    moreover have "map_of (si_hitl_resume_claims s2) k = map_of (si_hitl_resume_claims s1) k"
      if "effect_recorded k c s1"
      using fresh(4,6) that
      by (auto simp: preflight_claim_key_def admit_claim_def effect_recorded_def Let_def run_key_def
          split: option.splits if_splits)
    ultimately have rec2: "effect_recorded k c s2"
      using rec1 by (simp add: effect_recorded_def effect_marked_def)
    have new: "map_of (si_runs s2) (run_key (rr_session_id run) (rr_run_id run)) = None"
      using fresh(5) \<open>si_runs s2 = si_runs s1\<close>
      by (auto simp: prepare_admitted_run_def prepare_new_run_record_def bt_contains_def Let_def
          split: result.splits if_splits option.splits)
    show ?thesis
      using rec2
    proof (rule effect_recorded_update [rotated 2])
      show "si_hitl_resume_claims s' = si_hitl_resume_claims s2"
        using fresh(7) by (auto simp: commit_admission_def insert_prepared_run_record_def Let_def split: option.splits)
      fix r
      assume "map_of (si_runs s2) k = Some r"
      with new fresh(7) show "\<exists>r'. map_of (si_runs s') k = Some r' \<and> (rr_metadata r' = rr_metadata r
          \<or> rr_metadata r' = continuation_effect_insert_into continuation_effect_indeterminate (rr_metadata r))"
        by (auto simp: commit_admission_def insert_prepared_run_record_def Let_def split: option.splits)
    qed
  qed (use rec in simp)
qed

lemma continuation_recorded:
  "effect_recorded k c s \<Longrightarrow>
     effect_recorded k c (snd (acquire_background_subagent_continuation benv now t1 t2 req s))"
  using continuation_is_acquisition [of benv now t1 t2 req s]
    keepsD [OF acquire_recorded, of k c s t1 "acr_admission req"]
  by (auto simp: effect_recorded_def effect_marked_def background_onlyD)

lemma claims_run_ops:
  "si_hitl_resume_claims (snd (append_run_record now run s)) = si_hitl_resume_claims s"
  "si_hitl_resume_claims (snd (set_run_status now sid rid st pv er s)) = si_hitl_resume_claims s"
  "si_hitl_resume_claims (snd (set_legacy_run_status now sid rid st pv s)) = si_hitl_resume_claims s"
  "si_hitl_resume_claims (snd (update_run_status_fenced t1 t2 lease st pv s)) = si_hitl_resume_claims s"
  by (auto simp: append_run_record_def set_run_status_def set_legacy_run_status_def update_run_record_def
      insert_prepared_run_record_def update_run_status_fenced_def op_bind_def op_lift_def Let_def
      split: option.split result.split)

lemma step_effect:
  assumes inv: "store_inv s" and step: "store_step env benv s s'"
    and c: "map_of (si_hitl_resume_claims s) k = Some c" "claim_state c = Started"
  shows "effect_recorded k c s'"
proof -
  have rec: "effect_recorded k c s" using c by (simp add: effect_recorded_def)
  have same: "effect_recorded k c u" if "si_hitl_resume_claims u = si_hitl_resume_claims s" for u
    using c that by (simp add: effect_recorded_def)
  have kept: "effect_recorded k c u" if "map_of (si_hitl_resume_claims u) k = Some c" for u
    using c(2) that by (simp add: effect_recorded_def)
  have frame: "effect_recorded k c u" if "work u = work s" for u
    using rec effect_recorded_work [OF that] by simp
  from step show ?thesis
    by cases (simp_all only: work_ops [THEN frame] work_background_ops [OF store_invD(6) [OF inv], THEN frame]
        claims_run_ops [THEN same] control_ops_control_only [THEN control_onlyD(4), THEN same]
        keepsD [OF acquire_recorded rec] keepsD [OF effect_cleanup.keeps_finalize rec]
        keepsD [OF effect_cleanup.keeps_reconcile_expired rec] continuation_recorded [OF rec]
        claiming.started_is_kept [OF c, THEN kept] starting.started_is_kept [OF c, THEN kept]
        aborting.started_is_kept [OF c, THEN kept] marking.started_is_kept [OF c, THEN kept]
        releasing.started_is_kept [OF c, THEN kept])
qed

text \<open>
  Over an execution a started claim stays as it is until one of its steps consumes it, and the
  state after that step shows the marker on the source.
\<close>

lemma steps_effect:
  assumes "(store_step env benv)\<^sup>*\<^sup>* s s'" and inv: "store_inv s"
    and c: "map_of (si_hitl_resume_claims s) k = Some c" "claim_state c = Started"
  shows "map_of (si_hitl_resume_claims s') k = Some c
    \<or> (\<exists>u. (store_step env benv)\<^sup>*\<^sup>* s u \<and> (store_step env benv)\<^sup>*\<^sup>* u s'
         \<and> map_of (si_hitl_resume_claims u) k = None \<and> effect_marked k u)"
  using assms(1)
proof (induction rule: rtranclp_induct)
  case base
  show ?case using c(1) by simp
next
  case (step t u)
  from step.IH show ?case
  proof
    assume t: "map_of (si_hitl_resume_claims t) k = Some c"
    have "store_inv t" using step.hyps(1) inv by (rule store.steps_inv)
    then have "effect_recorded k c u" using step.hyps(2) t c(2) by (rule step_effect)
    moreover have "(store_step env benv)\<^sup>*\<^sup>* s u" using step.hyps by (rule rtranclp.rtrancl_into_rtrancl)
    ultimately show ?thesis unfolding effect_recorded_def by blast
  next
    assume "\<exists>u. (store_step env benv)\<^sup>*\<^sup>* s u \<and> (store_step env benv)\<^sup>*\<^sup>* u t
         \<and> map_of (si_hitl_resume_claims u) k = None \<and> effect_marked k u"
    then show ?thesis using step.hyps(2) by (meson rtranclp.rtrancl_into_rtrancl)
  qed
qed

section \<open>Control intents move forward\<close>

text \<open>
  What one step may do to a stored intent: nothing, reconcile it, or advance it for the holder of
  the live lease of its own admission.
\<close>

definition intent_settles :: "durable_run_control_intent \<Rightarrow> durable_run_control_intent \<Rightarrow> bool" where
  "intent_settles i i' \<longleftrightarrow> i' = i \<or> (\<exists>t. intent_advance i CtlReconciled t = Ok i')"

definition intent_step :: "store_inner \<Rightarrow> durable_run_control_intent \<Rightarrow> durable_run_control_intent \<Rightarrow> bool" where
  "intent_step s i i' \<longleftrightarrow>
     intent_settles i i'
     \<or> (\<exists>nxt t lease now. intent_advance i nxt t = Ok i'
          \<and> ensure_active_admission_locked s lease now = Ok ()
          \<and> in_target i = lease_target lease
          \<and> in_admission_id i = lease_admission_id lease
          \<and> in_host_instance_id i = lease_host_instance_id lease
          \<and> in_fencing_generation i = lease_fencing_generation lease)"

text \<open>The identity of an intent and the order of its states, over any number of steps.\<close>

definition intent_kept :: "durable_run_control_intent \<Rightarrow> durable_run_control_intent \<Rightarrow> bool" where
  "intent_kept i i' \<longleftrightarrow>
     in_target i' = in_target i \<and> in_operation_id i' = in_operation_id i
     \<and> in_admission_id i' = in_admission_id i \<and> in_effect i' = in_effect i
     \<and> in_fencing_generation i' = in_fencing_generation i
     \<and> in_host_instance_id i' = in_host_instance_id i
     \<and> in_authority_binding i' = in_authority_binding i
     \<and> in_idempotency_key i' = in_idempotency_key i
     \<and> in_command_fingerprint i' = in_command_fingerprint i
     \<and> cr_receipt_id (in_receipt i') = cr_receipt_id (in_receipt i)
     \<and> (in_status i' = in_status i \<or> control_rank (in_status i) < control_rank (in_status i'))"

lemma intent_settles_refl [simp]: "intent_settles i i"
  by (simp add: intent_settles_def)

lemma intent_settles_trans: "intent_settles a b \<Longrightarrow> intent_settles b c \<Longrightarrow> intent_settles a c"
proof -
  assume ab: "intent_settles a b" and bc: "intent_settles b c"
  have "c = b" if "in_status b = CtlReconciled"
    using bc that by (auto simp: intent_settles_def intent_advance_def)
  with ab bc show ?thesis
    using intent_advance_status [of a CtlReconciled _ b] unfolding intent_settles_def by metis
qed

lemma intent_kept_refl [simp]: "intent_kept i i"
  by (simp add: intent_kept_def)

lemma intent_kept_trans: "intent_kept a b \<Longrightarrow> intent_kept b c \<Longrightarrow> intent_kept a c"
  by (auto simp: intent_kept_def)

lemma intent_advance_kept: "intent_advance i nxt t = Ok i' \<Longrightarrow> intent_kept i i'"
proof -
  assume adv: "intent_advance i nxt t = Ok i'"
  have "in_status i' = in_status i \<or> control_rank (in_status i) < control_rank (in_status i')"
    using intent_advance_status [OF adv] control.step_rank [of "in_status i" nxt] by metis
  with intent_advance_frame [OF adv] show ?thesis unfolding intent_kept_def by blast
qed

lemma intent_step_kept: "intent_step s i i' \<Longrightarrow> intent_kept i i'"
  by (auto simp: intent_step_def intent_settles_def dest: intent_advance_kept)

definition intent_settled ::
    "managed_run_target \<times> string \<Rightarrow> durable_run_control_intent \<Rightarrow> store_inner \<Rightarrow> bool" where
  "intent_settled k i s \<longleftrightarrow> (\<exists>i'. map_of (si_run_control_intents s) k = Some i' \<and> intent_settles i i')"

lemma reconcile_keys_settled: "keeps (intent_settled k i) (reconcile_control_keys t ks)"
proof (rule keepsI)
  show "intent_settled k i s \<Longrightarrow> intent_settled k i (snd (reconcile_control_keys t ks s))" for s
  proof (induction t ks s rule: reconcile_control_keys.induct)
    case (2 t key ks s)
    show ?case
    proof (cases "map_of (si_run_control_intents s) key")
      case (Some j)
      obtain j' where j': "intent_advance j CtlReconciled t = Ok j'"
        using intent_advance_reconciled_ok by blast
      then have "intent_settles j j'" by (auto simp: intent_settles_def)
      with "2.prems" Some have "intent_settled k i (store_intent key j' s)"
        by (auto simp: intent_settled_def store_intent_def intro: intent_settles_trans)
      with "2.IH" [OF Some j'] Some j' show ?thesis by (simp add: store_intent_def)
    qed (use "2.prems" in simp)
  qed simp
qed

interpretation intent_cleanup: lease_cleanup "intent_settled k i" for k i
proof
  show "keeps (intent_settled k i) (terminalize_started_hitl_source_locked r t)" for r t
    by (rule keepsI) (simp add: intent_settled_def records_onlyD [OF terminalize_records_only])
  show "keeps (intent_settled k i) (cancel_admitted_run lease t eff)" for lease t eff
    by (rule keepsI) (simp add: intent_settled_def records_onlyD [OF cancel_admitted_records_only])
  show "keeps (intent_settled k i) (publish_authoritative env n runs)" for env n runs
    by (rule keepsI) (simp add: intent_settled_def outbox_onlyD [OF publish_outbox_only])
  show "keeps (intent_settled k i) (reconcile_run_control_intents_locked lease t)" for lease t
    using reconcile_keys_settled by (simp add: reconcile_run_control_intents_locked_def keeps_def)
  show "keeps (intent_settled k i) (apply_run_status_locked sid rid st pv er t)" for sid rid st pv er t
    by (rule keepsI) (simp add: intent_settled_def records_onlyD [OF apply_run_status_records_only])
qed (simp_all add: intent_settled_def)

lemma acquire_settled: "keeps (intent_settled k i) (acquire_run_admission now req)"
  unfolding acquire_run_admission_def
proof (rule keeps_stagedI)
  fix s x s'
  assume old: "intent_settled k i s" and "acquire_run_admission_locked now req s = (Ok x, s')"
  from this(2) show "intent_settled k i s'"
  proof (cases rule: acquire_locked_Ok_cases)
    case (fresh s1 key run s2)
    have "intent_settled k i s1" using old fresh(2) by (rule intent_cleanup.keeps_displace)
    with fresh(6,7) show ?thesis
      by (auto simp: admit_claim_def commit_admission_def intent_settled_def Let_def
          insert_prepared_run_record_def split: option.splits)
  qed (use old in simp)
qed

lemma continuation_settled:
  "intent_settled k i s \<Longrightarrow>
     intent_settled k i (snd (acquire_background_subagent_continuation benv now t1 t2 req s))"
  using continuation_is_acquisition [of benv now t1 t2 req s]
    keepsD [OF acquire_settled, of k i s t1 "acr_admission req"]
  by (auto simp: intent_settled_def background_onlyD)

lemma intents_run_ops:
  "si_run_control_intents (snd (append_run_record now run s)) = si_run_control_intents s"
  "si_run_control_intents (snd (set_run_status now sid rid st pv er s)) = si_run_control_intents s"
  "si_run_control_intents (snd (set_legacy_run_status now sid rid st pv s)) = si_run_control_intents s"
  "si_run_control_intents (snd (update_run_status_fenced t1 t2 lease st pv s)) = si_run_control_intents s"
  by (auto simp: append_run_record_def set_run_status_def set_legacy_run_status_def update_run_record_def
      insert_prepared_run_record_def update_run_status_fenced_def op_bind_def op_lift_def Let_def
      records_onlyD [OF apply_run_status_records_only] split: option.split result.split)

lemma intents_claim_ops:
  "si_run_control_intents (snd (claim_hitl_resume c s)) = si_run_control_intents s"
  "si_run_control_intents (snd (start_hitl_resume_effect now lease src cid s)) = si_run_control_intents s"
  "si_run_control_intents (snd (mark_hitl_resume_started sid rid cid s)) = si_run_control_intents s"
  "si_run_control_intents (snd (release_hitl_resume_claim sid rid cid s)) = si_run_control_intents s"
  "si_run_control_intents (snd (abort_admitted_hitl_resume t1 t2 lease src cid pvw s)) = si_run_control_intents s"
proof -
  have claims: "si_run_control_intents x = si_run_control_intents s"
    if "\<exists>c. x = s\<lparr>si_hitl_resume_claims := c\<rparr>" for x
    using that by auto
  show "si_run_control_intents (snd (claim_hitl_resume c s)) = si_run_control_intents s"
    by (rule claims) (rule claim_ops_claims_only)
  show "si_run_control_intents (snd (start_hitl_resume_effect now lease src cid s)) = si_run_control_intents s"
    by (rule claims) (rule claim_ops_claims_only)
  show "si_run_control_intents (snd (mark_hitl_resume_started sid rid cid s)) = si_run_control_intents s"
    by (rule claims) (rule claim_ops_claims_only)
  show "si_run_control_intents (snd (release_hitl_resume_claim sid rid cid s)) = si_run_control_intents s"
    by (rule claims) (rule claim_ops_claims_only)
  show "si_run_control_intents (snd (abort_admitted_hitl_resume t1 t2 lease src cid pvw s)) = si_run_control_intents s"
    using abort_state [of t1 t2 lease src cid pvw s]
    by (auto simp: records_onlyD [OF apply_run_status_records_only])
qed

text \<open>An operation steps an intent when the intent is still stored and has made one of these moves.\<close>

definition intent_steps :: "store_inner \<Rightarrow> managed_run_target \<times> string \<Rightarrow> durable_run_control_intent \<Rightarrow> store_inner \<Rightarrow> bool" where
  "intent_steps s k i s' \<longleftrightarrow> (\<exists>i'. map_of (si_run_control_intents s') k = Some i' \<and> intent_step s i i')"

lemma intent_settled_steps: "intent_settled k i s' \<Longrightarrow> intent_steps s k i s'"
  by (auto simp: intent_settled_def intent_steps_def intent_step_def)

lemma control_ops_steps:
  assumes inv: "control_inv s" and i: "map_of (si_run_control_intents s) k = Some i"
  shows "intent_steps s k i (snd (admit_run_control now req s))"
    and "intent_steps s k i (snd (advance_run_control_intent now lease op ex nxt t s))"
    and "intent_steps s k i (snd (reconcile_run_control_intent target op t s))"
    and "intent_steps s k i (snd (reserve_control_receipt r s))"
    and "intent_steps s k i (snd (update_control_receipt_state rid st s))"
proof -
  have same: "intent_steps s k i u" if "map_of (si_run_control_intents u) k = Some i" for u
    using that by (simp add: intent_settled_steps intent_settled_def)
  show "intent_steps s k i (snd (admit_run_control now req s))"
    using i by (intro same) (auto simp: admit_run_control_def admit_new_control_def Let_def
        split: option.split result.split)
  show "intent_steps s k i (snd (reserve_control_receipt r s))"
    "intent_steps s k i (snd (update_control_receipt_state rid st s))"
    using i by (auto intro!: same simp: reserve_control_receipt_def update_control_receipt_state_def Let_def
        split: option.split)
  show "intent_steps s k i (snd (reconcile_run_control_intent target op t s))"
    using i by (auto simp: reconcile_run_control_intent_def intent_steps_def intent_step_def
        intent_settles_def store_intent_def split: option.split result.split)
  have k: "k = (in_target i, in_operation_id i)"
    using inv i unfolding control_inv_def by (rule intents_ok_lookup(1))
  show "intent_steps s k i (snd (advance_run_control_intent now lease op ex nxt t s))"
  proof (cases "snd (advance_run_control_intent now lease op ex nxt t s) = s")
    case False
    then obtain j j' where j: "ensure_active_admission_locked s lease now = Ok ()"
        "map_of (si_run_control_intents s) (lease_target lease, op) = Some j"
        "in_admission_id j = lease_admission_id lease" "in_host_instance_id j = lease_host_instance_id lease"
        "in_fencing_generation j = lease_fencing_generation lease" "intent_advance j nxt t = Ok j'"
        "snd (advance_run_control_intent now lease op ex nxt t s) = store_intent (lease_target lease, op) j' s"
      by (auto simp: advance_run_control_intent_def Let_def split: option.splits result.splits if_splits)
    show ?thesis
    proof (cases "k = (lease_target lease, op)")
      case True
      with j i k have "intent_step s i j'"
        unfolding intent_step_def by (intro disjI2 exI [of _ nxt] exI [of _ t] exI [of _ lease] exI [of _ now]) simp
      with True j show ?thesis by (simp add: intent_steps_def store_intent_def)
    next
      case other: False
      with i j(7) show ?thesis by (intro same) (simp add: store_intent_def)
    qed
  qed (simp add: same [OF i])
qed

lemma step_intent:
  assumes inv: "store_inv s" and step: "store_step env benv s s'"
    and i: "map_of (si_run_control_intents s) k = Some i"
  shows "intent_steps s k i s'"
proof -
  have old: "intent_settled k i s" using i by (simp add: intent_settled_def)
  have same: "intent_steps s k i u" if "si_run_control_intents u = si_run_control_intents s" for u
    using i that by (simp add: intent_settled_steps intent_settled_def)
  have frame: "intent_steps s k i u" if "work u = work s" for u
    by (rule same) (use that in \<open>simp add: work_def\<close>)
  from step show ?thesis
    by cases (simp_all only: work_ops [THEN frame] work_background_ops [OF store_invD(6) [OF inv], THEN frame]
        intents_run_ops [THEN same] intents_claim_ops [THEN same] control_ops_steps [OF store_invD(4) [OF inv] i]
        keepsD [OF acquire_settled old, THEN intent_settled_steps]
        keepsD [OF intent_cleanup.keeps_finalize old, THEN intent_settled_steps]
        keepsD [OF intent_cleanup.keeps_reconcile_expired old, THEN intent_settled_steps]
        continuation_settled [OF old, THEN intent_settled_steps])
qed

lemma steps_intent:
  assumes "(store_step env benv)\<^sup>*\<^sup>* s s'" and inv: "store_inv s"
    and i: "map_of (si_run_control_intents s) k = Some i"
  shows "\<exists>i'. map_of (si_run_control_intents s') k = Some i' \<and> intent_kept i i'"
  using assms(1)
proof (induction rule: rtranclp_induct)
  case base
  show ?case using i by simp
next
  case (step t u)
  then obtain j where j: "map_of (si_run_control_intents t) k = Some j" "intent_kept i j" by blast
  have "store_inv t" using step.hyps(1) inv by (rule store.steps_inv)
  from step_intent [OF this step.hyps(2) j(1)] j(2) show ?case
    unfolding intent_steps_def by (blast dest: intent_step_kept intro: intent_kept_trans)
qed

section \<open>Receipts of session commands\<close>

text \<open>
  A receipt keeps its key and fingerprint. Its result is the one of the command, until the deletion
  that the command fenced is committed; from then on it is the deleted session.
\<close>

definition session_deleted :: "session_record \<Rightarrow> bool" where
  "session_deleted r \<longleftrightarrow> (\<exists>f t. sr_deletion_fence r = Deleted f t)"

definition receipt_kept :: "string \<times> string \<Rightarrow> string \<Rightarrow> session_record \<Rightarrow> store_inner \<Rightarrow> bool" where
  "receipt_kept k fp r s \<longleftrightarrow>
     (\<exists>r'. map_of (si_session_idempotency s) k = Some (fp, r') \<and> (r' = r \<or> session_deleted r'))"

lemma receipt_kept_frame:
  "si_session_idempotency s' = si_session_idempotency s \<Longrightarrow> receipt_kept k fp r s \<Longrightarrow> receipt_kept k fp r s'"
  by (simp add: receipt_kept_def)

lemma receipt_kept_ledgers: "ledgers s' = ledgers s \<Longrightarrow> receipt_kept k fp r s \<Longrightarrow> receipt_kept k fp r s'"
  by (simp add: receipt_kept_def ledgers_def)

lemma receipts_record_ops:
  "si_session_idempotency (snd (append_run_record now run s)) = si_session_idempotency s"
  "si_session_idempotency (snd (set_run_status now sid rid st pv er s)) = si_session_idempotency s"
  "si_session_idempotency (snd (set_legacy_run_status now sid rid st pv s)) = si_session_idempotency s"
  "si_session_idempotency (snd (save_session_record now r s)) = si_session_idempotency s"
  "si_session_idempotency (snd (set_session_status now sid sst s)) = si_session_idempotency s"
  "si_session_idempotency (snd (save_context_state_snapshot now sid state s)) = si_session_idempotency s"
  "si_session_idempotency (snd (save_environment_state_ref now sid est s)) = si_session_idempotency s"
  by (auto simp: append_run_record_def set_run_status_def set_legacy_run_status_def
      update_run_record_def save_session_record_def set_session_status_def
      save_context_state_snapshot_def save_environment_state_ref_def session_touch_def Let_def
      insert_prepared_run_record_def split: option.split result.split)

lemma receipts_lease_ops:
  "si_session_idempotency (snd (heartbeat_run_admission t1 t2 lease e s)) = si_session_idempotency s"
  "si_session_idempotency (snd (release_run_admission now lease s)) = si_session_idempotency s"
  "si_session_idempotency (snd (update_run_status_fenced t1 t2 lease st pv s)) = si_session_idempotency s"
  by (simp_all add: heartbeat_run_admission_def release_run_admission_def update_run_status_fenced_def Let_def
      op_bind_def op_lift_def records_onlyD [OF apply_run_status_records_only] split: option.split result.split)

lemma receipts_claim_ops:
  "si_session_idempotency (snd (claim_hitl_resume c s)) = si_session_idempotency s"
  "si_session_idempotency (snd (start_hitl_resume_effect now lease src cid s)) = si_session_idempotency s"
  "si_session_idempotency (snd (mark_hitl_resume_started sid rid cid s)) = si_session_idempotency s"
  "si_session_idempotency (snd (release_hitl_resume_claim sid rid cid s)) = si_session_idempotency s"
  by (simp_all add: claim_hitl_resume_def start_hitl_resume_effect_def mark_hitl_resume_started_def
      release_hitl_resume_claim_def Let_def split: option.split result.split)

lemma receipts_abort:
  "si_session_idempotency (snd (abort_admitted_hitl_resume t1 t2 lease src cid pvw s)) = si_session_idempotency s"
  using abort_state [of t1 t2 lease src cid pvw s] by (auto simp: records_onlyD [OF apply_run_status_records_only])

lemma receipts_outbox_ops:
  "si_session_idempotency (snd (enqueue_host_event_publication_batch env pubs s)) = si_session_idempotency s"
  "si_session_idempotency (snd (materialize_host_event_publication_batch limit s)) = si_session_idempotency s"
  "si_session_idempotency (snd (tombstone_session now t1 t2 sid fid s)) = si_session_idempotency s"
proof -
  show "si_session_idempotency (snd (enqueue_host_event_publication_batch env pubs s)) = si_session_idempotency s"
    using outbox_onlyD [OF enqueue_outbox_only [of s env pubs]]
    by (auto simp: enqueue_host_event_publication_batch_def staged_def split: prod.split result.split)
  show "si_session_idempotency (snd (materialize_host_event_publication_batch limit s)) = si_session_idempotency s"
    by (simp add: outbox_onlyD [OF materialize_batch_outbox_only])
  show "si_session_idempotency (snd (tombstone_session now t1 t2 sid fid s)) = si_session_idempotency s"
    by (auto simp: tombstone_session_def Let_def split: option.split result.split session_deletion_fence.split)
qed

lemma receipts_background_op:
  "background_operation f \<Longrightarrow> background_inv s \<Longrightarrow>
     si_session_idempotency (snd (f s)) = si_session_idempotency s"
  by (simp add: background_onlyD [OF background_operation.frame])

lemmas receipts_background_ops =
  receipts_background_op [OF bg_accept.background_operation_axioms]
  receipts_background_op [OF bg_update.background_operation_axioms]
  receipts_background_op [OF bg_heartbeat.background_operation_axioms]
  receipts_background_op [OF bg_commit.background_operation_axioms]
  receipts_background_op [OF bg_expire.background_operation_axioms]
  receipts_background_op [OF bg_claim.background_operation_axioms]
  receipts_background_op [OF bg_acknowledge.background_operation_axioms]
  receipts_background_op [OF bg_release.background_operation_axioms]
  receipts_background_op [OF bg_reconcile.background_operation_axioms]

lemma acquire_receipts:
  "si_session_idempotency (snd (acquire_run_admission now req s)) = si_session_idempotency s"
proof -
  have "keeps (\<lambda>u. si_session_idempotency u = D) (acquire_run_admission now req)" for D
    unfolding acquire_run_admission_def
  proof (rule keeps_stagedI)
    fix s x s'
    assume D: "si_session_idempotency s = D" and "acquire_run_admission_locked now req s = (Ok x, s')"
    from this(2) show "si_session_idempotency s' = D"
    proof (cases rule: acquire_locked_Ok_cases)
      case (fresh s1 key run s2)
      have "ledgers s1 = ledgers s" using ledger_cleanup.keeps_displace [OF refl fresh(2)] by simp
      moreover obtain c where "s2 = s1\<lparr>si_hitl_resume_claims := c\<rparr>"
        using admit_claim_eq [OF fresh(6)] by blast
      ultimately show ?thesis
        using fresh(7) D by (auto simp: commit_admission_def ledgers_def insert_prepared_run_record_def Let_def
            split: option.splits)
    qed (use D in simp)
  qed
  from keepsD [OF this, of s "si_session_idempotency s"] show ?thesis by simp
qed

lemma continuation_receipts:
  "si_session_idempotency (snd (acquire_background_subagent_continuation benv now t1 t2 req s))
     = si_session_idempotency s"
  using continuation_is_acquisition [of benv now t1 t2 req s] acquire_receipts [of t1 "acr_admission req" s]
  by (auto simp: background_onlyD)

lemma enqueue_receipts: "keeps (receipt_kept k fp r) (op_bind (enqueue_host_event_publications_locked env pubs)
    (\<lambda>_. op_lift (Ok x)))"
proof (rule keeps_op_bind)
  show "keeps (receipt_kept k fp r) (enqueue_host_event_publications_locked env pubs)"
    by (rule keepsI) (simp add: receipt_kept_def outbox_onlyD [OF enqueue_outbox_only])
qed simp

lemma session_command_receipts:
  "keeps (receipt_kept k fp r) (create_session_idempotent now session key f)"
  "keeps (receipt_kept k fp r) (create_session_idempotent_with_host_events env now session key f pubs)"
  "keeps (receipt_kept k fp r) (update_managed_session now cmd f)"
  "keeps (receipt_kept k fp r) (update_managed_session_with_host_events env now cmd f pubs)"
  "keeps (receipt_kept k fp r) (acquire_session_deletion_fence now t1 t2 sid ex fid who key f)"
proof -
  have create: "receipt_kept k fp r (snd (create_session_fresh session key f time s))"
    if "receipt_kept k fp r s" "map_of (si_session_idempotency s) (sr_namespace_id session, key) = None" for time s
    using that by (auto simp: create_session_fresh_def receipt_kept_def Let_def split: result.split)
  have update: "receipt_kept k fp r (snd (update_session_fresh cmd x f time s))"
    if "receipt_kept k fp r s"
      "map_of (si_session_idempotency s) (sr_namespace_id x, upd_idempotency_key cmd) = None" for time s x
    using that by (auto simp: update_session_fresh_def receipt_kept_def Let_def split: result.split)
  show "keeps (receipt_kept k fp r) (create_session_idempotent now session key f)"
    by (rule keepsI) (simp add: create_session_idempotent_def create split: option.split)
  show "keeps (receipt_kept k fp r) (update_managed_session now cmd f)"
    by (rule keepsI) (simp add: update_managed_session_def update split: option.split)
  show "keeps (receipt_kept k fp r) (create_session_idempotent_with_host_events env now session key f pubs)"
    unfolding create_session_idempotent_with_host_events_def
    by (rule keeps_staged_core_inv, rule keeps_op_bind [OF _ enqueue_receipts], rule keepsI)
       (simp add: create split: option.split)
  show "keeps (receipt_kept k fp r) (update_managed_session_with_host_events env now cmd f pubs)"
    unfolding update_managed_session_with_host_events_def
    by (rule keeps_staged_core_inv, rule keeps_op_bind [OF _ enqueue_receipts], rule keepsI)
       (simp add: update split: option.split)
  show "keeps (receipt_kept k fp r) (acquire_session_deletion_fence now t1 t2 sid ex fid who key f)"
    by (rule keepsI) (auto simp: acquire_session_deletion_fence_def receipt_kept_def Let_def split: option.split)
qed

lemma tombstone_staged_deleted:
  assumes "tombstone_staged now t sid fid pubs session s = (Ok (), s')"
    and "map_of (si_sessions s) sid = Some session" and "map_of (si_sessions s') sid = Some result"
  shows "session_deleted result \<and> si_session_idempotency s' = si_session_idempotency s"
  using assms
  by (auto simp: tombstone_staged_def session_deleted_def already_deleted_def tombstoned_def
      split: if_splits result.splits session_deletion_fence.splits)

lemma tombstone_events_receipts:
  "keeps (receipt_kept k fp r) (tombstone_session_idempotent_with_host_events env now t1 sid fid key f pubs)"
proof (rule keepsI)
  fix s
  assume old: "receipt_kept k fp r s"
  obtain x s' where op: "tombstone_session_idempotent_with_host_events env now t1 sid fid key f pubs s = (x, s')"
    by (cases "tombstone_session_idempotent_with_host_events env now t1 sid fid key f pubs s")
  then have "receipt_kept k fp r s'"
  proof (cases rule: tombstone_events_cases)
    case (committed session r0 result s1)
    from tombstone_staged_deleted [OF committed(3,1,4)] old committed(2) show ?thesis
      by (auto simp: receipt_kept_def outbox_onlyD [OF committed(5)])
  qed (use old in simp)
  with op show "receipt_kept k fp r
      (snd (tombstone_session_idempotent_with_host_events env now t1 sid fid key f pubs s))" by simp
qed

lemma step_receipt:
  assumes inv: "store_inv s" and step: "store_step env benv s s'" and old: "receipt_kept k fp r s"
  shows "receipt_kept k fp r s'"
proof -
  have same: "receipt_kept k fp r u" if "si_session_idempotency u = si_session_idempotency s" for u
    using that old by (rule receipt_kept_frame)
  have fin: "receipt_kept k fp r (snd (finalize_run_admission env t0 t1 t2 lease terminal s))" for t0 t1 t2 lease terminal
    using keepsD [OF ledger_cleanup.keeps_finalize, of s "ledgers s"] receipt_kept_ledgers [OF _ old] by blast
  have expd: "receipt_kept k fp r (snd (reconcile_expired_run_admissions env ns now s))" for ns now
    using keepsD [OF ledger_cleanup.keeps_reconcile_expired, of s "ledgers s"] receipt_kept_ledgers [OF _ old] by blast
  from step show ?thesis
    by cases (simp_all only: receipts_record_ops [THEN same] receipts_lease_ops [THEN same]
        receipts_claim_ops [THEN same] receipts_abort [THEN same] receipts_outbox_ops [THEN same]
        receipts_background_ops [OF store_invD(6) [OF inv], THEN same] acquire_receipts [THEN same]
        continuation_receipts [THEN same] control_ops_control_only [THEN control_onlyD(13), THEN same]
        keepsD [OF session_command_receipts(1) old] keepsD [OF session_command_receipts(2) old]
        keepsD [OF session_command_receipts(3) old] keepsD [OF session_command_receipts(4) old]
        keepsD [OF session_command_receipts(5) old] keepsD [OF tombstone_events_receipts old] fin expd)
qed

lemma steps_receipt:
  assumes "(store_step env benv)\<^sup>*\<^sup>* s s'" and inv: "store_inv s" and old: "receipt_kept k fp r s"
  shows "receipt_kept k fp r s'"
  using assms(1)
proof (induction rule: rtranclp_induct)
  case (step t u)
  have "store_inv t" using step.hyps(1) inv by (rule store.steps_inv)
  then show ?case using step.hyps(2) step.IH by (rule step_receipt)
qed (rule old)

text \<open>
  A session command that succeeded under an idempotency key of a namespace: a creation, an update
  or a deletion fence. The namespace of the latter two is the one of the stored session.
\<close>

inductive session_command ::
    "string \<Rightarrow> string \<Rightarrow> string \<Rightarrow> session_record \<Rightarrow> store_inner \<Rightarrow> store_inner \<Rightarrow> bool" where
  created: "create_session_idempotent now session key fp s = (Ok r, s') \<Longrightarrow>
      session_command (sr_namespace_id session) key fp r s s'"
| updated: "update_managed_session now cmd fp s = (Ok r, s') \<Longrightarrow>
      map_of (si_sessions s) (upd_session_id cmd) = Some session \<Longrightarrow>
      session_command (sr_namespace_id session) (upd_idempotency_key cmd) fp r s s'"
| fenced: "acquire_session_deletion_fence now t1 t2 sid ex fid who key fp s = (Ok r, s') \<Longrightarrow>
      map_of (si_sessions s) sid = Some session \<Longrightarrow>
      session_command (sr_namespace_id session) key fp r s s'"

text \<open>
  Every session command under the key is answered from the receipt: with the result for the
  fingerprint of the receipt, with a conflict for any other, and without a write.
\<close>

definition receipt_answers :: "string \<Rightarrow> string \<Rightarrow> string \<Rightarrow> session_record \<Rightarrow> store_inner \<Rightarrow> bool" where
  "receipt_answers ns key fp r s \<longleftrightarrow>
     (\<forall>now session fp'. sr_namespace_id session = ns \<longrightarrow>
        create_session_idempotent now session key fp' s
          = (if fp' = fp then Ok r else Err (IdempotencyConflict key), s))
     \<and> (\<forall>now cmd fp' session. map_of (si_sessions s) (upd_session_id cmd) = Some session
          \<and> sr_namespace_id session = ns \<and> upd_idempotency_key cmd = key \<longrightarrow>
        update_managed_session now cmd fp' s
          = (if fp' = fp then Ok r else Err (IdempotencyConflict key), s))
     \<and> (\<forall>now t1 t2 sid ex fid who fp' session. map_of (si_sessions s) sid = Some session
          \<and> sr_namespace_id session = ns \<longrightarrow>
        acquire_session_deletion_fence now t1 t2 sid ex fid who key fp' s
          = (if fp' = fp then Ok r else Err (IdempotencyConflict key), s))"

lemma receipt_answersI: "map_of (si_session_idempotency s) (ns, key) = Some (fp, r) \<Longrightarrow> receipt_answers ns key fp r s"
  by (auto simp: receipt_answers_def create_session_idempotent_def update_managed_session_def
      acquire_session_deletion_fence_def Let_def)

lemma session_command_receipt:
  assumes "session_command ns key fp r s s'"
  shows "map_of (si_session_idempotency s') (ns, key) = Some (fp, r)"
  using assms
proof cases
  case (created now session)
  then show ?thesis
    by (auto simp: create_session_idempotent_def create_session_fresh_def Let_def
        split: option.splits if_splits)
next
  case (updated now cmd session)
  then show ?thesis
    by (auto simp: update_managed_session_def update_session_fresh_def Let_def
        split: option.splits if_splits)
next
  case (fenced now t1 t2 sid ex fid who session)
  then show ?thesis
    by (auto simp: acquire_session_deletion_fence_def Let_def split: option.splits if_splits)
qed

lemma session_command_step:
  assumes "session_command ns key fp r s s'"
  shows "store_step env benv s s'"
  using assms
proof cases
  case (created now session)
  then show ?thesis using store_step.create_session [of env benv s now session key fp] by simp
next
  case (updated now cmd session)
  then show ?thesis using store_step.update_session [of env benv s now cmd fp] by simp
next
  case (fenced now t1 t2 sid ex fid who session)
  then show ?thesis using store_step.deletion_fence [of env benv s now t1 t2 sid ex fid who key fp] by simp
qed

lemma session_command_answered:
  assumes "store_inv s" and "session_command ns key fp r s s'" and "(store_step env benv)\<^sup>*\<^sup>* s' s2"
  shows "receipt_answers ns key fp r s'
    \<and> (\<exists>r'. receipt_answers ns key fp r' s2 \<and> (r' = r \<or> session_deleted r'))"
proof -
  have rec: "map_of (si_session_idempotency s') (ns, key) = Some (fp, r)"
    using assms(2) by (rule session_command_receipt)
  have "store_inv s'" using store.step_inv [OF assms(1) session_command_step [OF assms(2)]] .
  with assms(3) have "receipt_kept (ns, key) fp r s2"
    by (rule steps_receipt) (simp add: receipt_kept_def rec)
  with rec show ?thesis by (auto simp: receipt_kept_def intro: receipt_answersI)
qed

section \<open>Operations that need an owner\<close>

text \<open>
  A fenced operation that also fails when the session has no lease at all is refused to everyone
  but the current owner.
\<close>

definition superseded :: "run_admission_lease \<Rightarrow> store_inner \<Rightarrow> bool" where
  "superseded lease s \<longleftrightarrow>
     (\<forall>cur. map_of (si_run_admissions s) (lease_session_key lease) = Some cur \<longrightarrow> \<not> same_owner cur lease)"

locale owner_operation = fenced_operation +
  assumes needs_owner: "map_of (si_run_admissions s) (lease_session_key lease) = None \<Longrightarrow>
    \<not> is_ok (fst (f t lease s)) \<and> snd (f t lease s) = s"
begin

lemma superseded_refused: "superseded lease s \<Longrightarrow> refused (f t lease) s"
  using needs_owner [of s lease t] rejects [of s lease _ t]
  unfolding superseded_def refused_def by (cases "map_of (si_run_admissions s) (lease_session_key lease)") auto

end

lemma ensure_active_needs_owner:
  "map_of (si_run_admissions s) (lease_session_key lease) = None \<Longrightarrow>
     ensure_active_admission_locked s lease t = Err (StaleFence msg_no_active_owner_lease)"
  by (simp add: ensure_active_admission_locked_def lease_session_key_def Let_def)

interpretation heartbeat_owned: owner_operation "\<lambda>t lease. heartbeat_run_admission t t' lease e" for t' e
  by unfold_locales (simp_all add: heartbeat_run_admission_def)

interpretation status_owned: owner_operation "\<lambda>t lease. update_run_status_fenced t t' lease st pv" for t' st pv
  by unfold_locales
     (simp_all add: update_run_status_fenced_def op_bind_def op_lift_def ensure_active_needs_owner)

interpretation start_owned: owner_operation "\<lambda>t lease. start_hitl_resume_effect t lease src cid" for src cid
  by unfold_locales
     (simp_all add: start_hitl_resume_effect_def bound_claim_def Let_def ensure_active_needs_owner)

interpretation abort_owned: owner_operation "\<lambda>t lease. abort_admitted_hitl_resume t t' lease src cid pv"
  for t' src cid pv
  by unfold_locales
     (simp_all add: abort_admitted_hitl_resume_def bound_claim_def Let_def ensure_active_needs_owner)

interpretation advance_owned: owner_operation "\<lambda>t lease. advance_run_control_intent t lease op ex nxt occ"
  for op ex nxt occ
  by unfold_locales
     (simp_all add: advance_run_control_intent_def Let_def ensure_active_needs_owner)

text \<open>
  Release and finalization have an answer for a session without a lease. Neither writes for a
  superseded owner, and finalization only acknowledges a result that is already stored.
\<close>

lemma release_superseded:
  assumes "superseded lease s"
  shows "snd (release_run_admission t lease s) = s"
    and "map_of (si_run_admissions s) (lease_session_key lease) \<noteq> None \<Longrightarrow> refused (release_run_admission t lease) s"
proof -
  have "snd (release_run_admission t lease s) = s
    \<and> (map_of (si_run_admissions s) (lease_session_key lease) \<noteq> None \<longrightarrow> refused (release_run_admission t lease) s)"
  proof (cases "map_of (si_run_admissions s) (lease_session_key lease)")
    case None
    then show ?thesis by (simp add: release_run_admission_def)
  next
    case (Some cur)
    with assms have "\<not> same_owner cur lease" by (simp add: superseded_def)
    then show ?thesis
      using release.rejects [of s lease cur t] Some by (simp add: refused_def)
  qed
  then show "snd (release_run_admission t lease s) = s"
    "map_of (si_run_admissions s) (lease_session_key lease) \<noteq> None \<Longrightarrow> refused (release_run_admission t lease) s"
    by blast+
qed

lemma finalize_superseded:
  assumes "superseded lease s"
  shows "snd (finalize_run_admission env t t1 t2 lease terminal s) = s"
    and "fst (finalize_run_admission env t t1 t2 lease terminal s) = Ok run \<Longrightarrow>
      map_of (si_runs s) (lease_run_key lease) = Some run \<and> terminal_projection_matches terminal run"
proof -
  have "snd (finalize_run_admission env t t1 t2 lease terminal s) = s
    \<and> (fst (finalize_run_admission env t t1 t2 lease terminal s) = Ok run \<longrightarrow>
        map_of (si_runs s) (lease_run_key lease) = Some run \<and> terminal_projection_matches terminal run)"
  proof (cases "map_of (si_run_admissions s) (lease_session_key lease)")
    case None
    then show ?thesis by (simp add: finalize_run_admission_def bt_contains_def split: option.split)
  next
    case (Some cur)
    with assms have "\<not> same_owner cur lease" by (simp add: superseded_def)
    then show ?thesis
      using finalize.rejects [of s lease cur t env t1 t2 terminal] Some by auto
  qed
  then show "snd (finalize_run_admission env t t1 t2 lease terminal s) = s"
    "fst (finalize_run_admission env t t1 t2 lease terminal s) = Ok run \<Longrightarrow>
      map_of (si_runs s) (lease_run_key lease) = Some run \<and> terminal_projection_matches terminal run"
    by blast+
qed

lemma outlived_superseded:
  assumes "store_inv s" and "acquire_run_admission now req s = (Ok rc, s1)"
    and "\<not> rar_idempotent_replay rc" and "(store_step env benv)\<^sup>*\<^sup>* s1 s2"
    and "lease_session_key old = acquire_target req"
    and "map_of (si_admission_generations s) (acquire_target req) = Some g" and "g \<noteq> - 1"
    and "lease_fencing_generation old \<le> g"
  shows "superseded old s2"
  using generation_outlived [OF assms(1-4,6,7)] assms(5,8) by (auto simp: superseded_def same_owner_def)

section \<open>Recovery of a lost continuation\<close>

text \<open>
  The store after the recovery of an expired lease whose run had started an effect of a waiting
  source: both runs are cancelled, the source with the marker, and claim, lease and active slot
  are gone.
\<close>

definition continuation_recovered ::
    "managed_session_target \<Rightarrow> run_admission_lease \<Rightarrow> run_key_t \<Rightarrow> run_record \<Rightarrow> store_inner \<Rightarrow> bool" where
  "continuation_recovered target lease key source s' \<longleftrightarrow>
     (\<exists>r. map_of (si_runs s') key = Some r \<and> rr_status r = StCancelled
        \<and> unat (rr_revision r) = Suc (unat (rr_revision source))
        \<and> continuation_effect_from_metadata (rr_metadata r) = Ok (Some continuation_effect_indeterminate))
     \<and> (\<exists>r. map_of (si_runs s') (lease_run_key lease) = Some r \<and> rr_status r = StCancelled
        \<and> continuation_effect_from_metadata (rr_metadata r) = Ok (Some continuation_effect_indeterminate))
     \<and> map_of (si_hitl_resume_claims s') key = None
     \<and> map_of (si_run_admissions s') target = None
     \<and> (\<forall>session. map_of (si_sessions s') (rt_session_id (lease_target lease)) = Some session
          \<longrightarrow> sr_active_run_id session \<noteq> Some (rt_run_id (lease_target lease)))"

lemma cancel_admitted_Ok:
  assumes "cancel_admitted_run lease now eff s = (Ok run, s')"
  shows "s' = s\<lparr>si_runs := bt_insert (lease_run_key lease) run (si_runs s)\<rparr> \<and> rr_status run = StCancelled
    \<and> (eff \<longrightarrow> continuation_effect_from_metadata (rr_metadata run)
          = Ok (Some continuation_effect_indeterminate))"
  using assms
  by (auto simp: cancel_admitted_run_def Let_def advance_run_revision_Ok interrupt_expired_run_def
      continuation_effect_roundtrip split: option.splits result.splits if_splits)

lemma note_expired_slot: "sr_active_run_id (note_expired rid now r) \<noteq> Some rid"
  by (simp add: note_expired_def clear_active_run_def Let_def)

lemma session_modify_slot:
  "map_of (si_sessions (session_modify sid (note_expired rid now) s)) sid = Some session \<Longrightarrow>
     sr_active_run_id session \<noteq> Some rid"
  by (auto simp: session_modify_def note_expired_slot split: option.splits)

lemma recovered_continuation:
  assumes ok: "reconcile_expired_one env now (target, lease) s = (Ok (), s')"
    and rep: "map_of (si_runs s) (lease_run_key lease) = Some rep" "run_status_is_active (rr_status rep)"
      "rr_restore_from_run_id rep = Some src"
    and key: "key = run_key (rr_session_id rep) src" "key \<noteq> lease_run_key lease"
    and source: "map_of (si_runs s) key = Some source" "rr_status source = StWaiting"
    and claim: "map_of (si_hitl_resume_claims s) key = Some claim" "claim_state claim = Started"
  shows "continuation_recovered target lease key source s'"
proof -
  let ?sid = "rt_session_id (lease_target lease)" and ?rid = "rt_run_id (lease_target lease)"
  from ok rep obtain eff s1 run s2 s3 s4 where
    t: "terminalize_started_hitl_source_locked rep now s = (Ok eff, s1)"
    and c: "cancel_admitted_run lease now eff s1 = (Ok run, s2)"
    and p: "publish_authoritative env (expired_identity lease) (interrupted_source lease rep eff s1 @ [run]) s2
      = (Ok (), s3)"
    and r: "reconcile_run_control_intents_locked lease now (session_modify ?sid (note_expired ?rid now) s3) = (Ok (), s4)"
    and s': "s' = s4\<lparr>si_run_admissions := bt_remove target (si_run_admissions s4)\<rparr>"
    by (auto simp: reconcile_expired_one_def expire_if_active_def expire_admitted_run_def op_bind_Ok)
  have settled: "source_settled key source claim s eff s1"
    using terminalize_spec [OF t rep(3)] source claim(1) by (auto simp: key(1) run_key_def)
  with claim(2) have eff: "eff" by (simp add: source_settled_def)
  note C = cancel_admitted_Ok [OF c]
  have o23: "outbox_only s2 s3" using p publish_outbox_only by (metis snd_conv)
  have c34: "control_only (session_modify ?sid (note_expired ?rid now) s3) s4"
    using r reconcile_control_only by (metis snd_conv)
  have runs: "si_runs s' = bt_insert (lease_run_key lease) run (si_runs s1)"
    using C by (simp add: s' control_onlyD [OF c34] outbox_onlyD [OF o23])
  have claims: "si_hitl_resume_claims s' = bt_remove key (si_hitl_resume_claims s)"
    using C settled by (simp add: s' control_onlyD [OF c34] outbox_onlyD [OF o23] source_settled_def)
  have slot: "sr_active_run_id session \<noteq> Some ?rid" if "map_of (si_sessions s') ?sid = Some session" for session
    using that by (intro session_modify_slot [of ?sid ?rid now s3]) (simp add: s' control_onlyD [OF c34])
  show ?thesis
    using settled eff C key(2) slot
    by (auto simp: continuation_recovered_def runs claims source_settled_def) (simp add: s')
qed

lemma unmatched_claim_fails:
  assumes rep: "map_of (si_runs s) (lease_run_key lease) = Some rep" "run_status_is_active (rr_status rep)"
      "rr_restore_from_run_id rep = Some src"
    and source: "map_of (si_runs s) (run_key (rr_session_id rep) src) = Some source" "rr_status source = StWaiting"
    and bad: "\<And>claim. map_of (si_hitl_resume_claims s) (run_key (rr_session_id rep) src) = Some claim \<Longrightarrow>
      claim_session_id claim \<noteq> rr_session_id rep \<or> claim_run_id claim \<noteq> src \<or> claim_state claim = Preflight"
  shows "reconcile_expired_one env now (target, lease) s = (fst (reconcile_expired_one env now (target, lease) s), s)
    \<and> \<not> is_ok (fst (reconcile_expired_one env now (target, lease) s))"
proof -
  have "\<exists>e. terminalize_started_hitl_source_locked rep now s = (Err e, s)"
    using rep(3) source bad
    by (auto simp: terminalize_started_hitl_source_locked_def Let_def split: option.split)
  then obtain e where "terminalize_started_hitl_source_locked rep now s = (Err e, s)" ..
  with rep show ?thesis
    by (simp add: reconcile_expired_one_def expire_if_active_def expire_admitted_run_def op_bind_def)
qed

end
