(* ===== verification/Logical_Path.thy ===== *)
theory Logical_Path
  imports Prelude
begin

text \<open>
  Logical paths of environment providers (\<open>starweaver-environment/src/path.rs\<close>, with
  \<open>error.rs\<close>): joining and splitting, the normalisation that requests go through, scratch
  file names, containment of provider-visible paths, and the matching of path patterns.

  \<open>Path::components\<close> and \<open>is_absolute\<close> of the standard library are those of Unix hosts; the
  Windows branches of the sources are not modelled. The glob and regular expression compilers
  (\<open>globset\<close>, \<open>grep_regex\<close>) are parameters.
\<close>

section \<open>Strings and separators\<close>

abbreviation slash :: char where "slash \<equiv> CHR ''/''"
abbreviation backslash :: char where "backslash \<equiv> CHR 0x5C"

definition forward_slashes :: "string \<Rightarrow> string" where
  "forward_slashes s = map (\<lambda>c. if c = backslash then slash else c) s"

definition str_strip_prefix :: "string \<Rightarrow> string \<Rightarrow> string option" where
  "str_strip_prefix p s = (if prefix p s then Some (drop (length p) s) else None)"

definition trim_start_char :: "char \<Rightarrow> string \<Rightarrow> string" where
  "trim_start_char c s = dropWhile (\<lambda>x. x = c) s"

definition trim_end_char :: "char \<Rightarrow> string \<Rightarrow> string" where
  "trim_end_char c s = rev (dropWhile (\<lambda>x. x = c) (rev s))"

fun split_char :: "char \<Rightarrow> string \<Rightarrow> string list" where
  "split_char c [] = [[]]"
| "split_char c (x # s) =
     (if x = c then [] # split_char c s
      else case split_char c s of [] \<Rightarrow> [[x]] | w # ws \<Rightarrow> (x # w) # ws)"

definition rsplit_once :: "char \<Rightarrow> string \<Rightarrow> (string \<times> string) option" where
  "rsplit_once c s =
     (if c \<in> set s
      then let tail = takeWhile (\<lambda>x. x \<noteq> c) (rev s)
           in Some (rev (drop (Suc (length tail)) (rev s)), rev tail)
      else None)"

definition ascii_lower :: "char \<Rightarrow> char" where
  "ascii_lower c =
     (let n = of_char c :: nat in if 65 \<le> n \<and> n \<le> 90 then char_of (n + 32) else c)"

definition is_ascii_alphabetic :: "char \<Rightarrow> bool" where
  "is_ascii_alphabetic c \<longleftrightarrow>
     (let n = of_char c :: nat in (65 \<le> n \<and> n \<le> 90) \<or> (97 \<le> n \<and> n \<le> 122))"

definition eq_ignore_ascii_case :: "string \<Rightarrow> string \<Rightarrow> bool" where
  "eq_ignore_ascii_case a b \<longleftrightarrow> map ascii_lower a = map ascii_lower b"

section \<open>Errors\<close>

datatype environment_error =
    EnvAccessDenied string
  | EnvNotFound string
  | EnvInvalidRequest string
  | EnvUnsupported string
  | EnvProvider string

type_synonym 'a env_result = "('a, environment_error) result"

section \<open>Joining and splitting\<close>

definition default_scratch_dir :: string where
  "default_scratch_dir = ''.starweaver/scratch''"

definition default_visible_dot_dir_names :: "string list" where
  "default_visible_dot_dir_names = [''.agents'']"

definition join_logical_path :: "string \<Rightarrow> string \<Rightarrow> string" where
  "join_logical_path root child =
     (if root = [] \<or> root = ''.'' then child
      else trim_end_char slash root @ ''/'' @ child)"

definition parent_path :: "string \<Rightarrow> string option" where
  "parent_path path = map_option fst (rsplit_once slash path)"

definition normalize_str_path :: "string \<Rightarrow> string" where
  "normalize_str_path path =
     (let normalized = forward_slashes path;
          stripped = (case str_strip_prefix ''./'' normalized of Some s \<Rightarrow> s | None \<Rightarrow> normalized)
      in trim_start_char slash stripped)"

lemma rsplit_once_shorter:
  "rsplit_once c s = Some (a, b) \<Longrightarrow> length a < length s"
  by (auto simp: rsplit_once_def Let_def split: if_splits)
    (metis Suc_le_eq diff_less length_greater_0_conv length_pos_if_in_set zero_less_Suc)

lemma parent_path_shorter: "parent_path p = Some q \<Longrightarrow> length q < length p"
  by (auto simp: parent_path_def dest: rsplit_once_shorter)

function ancestors_loop :: "string \<Rightarrow> string list \<Rightarrow> string list" where
  "ancestors_loop current ancestors =
     (case parent_path current of
        None \<Rightarrow> ancestors
      | Some parent \<Rightarrow>
          if parent = [] then ancestors else ancestors_loop parent (ancestors @ [parent]))"
  by pat_completeness auto
termination
  by (relation "measure (\<lambda>(c, _). length c)") (auto dest: parent_path_shorter)

declare ancestors_loop.simps [simp del]

definition logical_ancestors :: "string \<Rightarrow> string list" where
  "logical_ancestors path = ancestors_loop (normalize_str_path path) []"

definition replace_logical_prefix :: "string \<Rightarrow> string \<Rightarrow> string \<Rightarrow> string" where
  "replace_logical_prefix path src dst =
     (if path = src then dst
      else
        case Option.bind (str_strip_prefix src path) (str_strip_prefix ''/'') of
          None \<Rightarrow> path
        | Some rest \<Rightarrow> join_logical_path dst rest)"

definition path_contains :: "string \<Rightarrow> string \<Rightarrow> bool" where
  "path_contains pre path \<longleftrightarrow> pre = [] \<or> path = pre \<or> prefix (pre @ ''/'') path"

definition strip_path_prefix :: "string \<Rightarrow> string \<Rightarrow> string" where
  "strip_path_prefix pre path =
     (if pre = [] then path
      else case Option.bind (str_strip_prefix pre path) (str_strip_prefix ''/'') of
             Some s \<Rightarrow> s | None \<Rightarrow> path)"

definition include_path :: "string \<Rightarrow> bool \<Rightarrow> bool" where
  "include_path path include_hidden \<longleftrightarrow>
     include_hidden
     \<or> (\<forall>(index, segment) \<in> set (enumerate 0 (split_char slash (normalize_str_path path))).
          \<not> prefix ''.'' segment \<or> length segment \<le> 1
          \<or> (index = 0 \<and> segment \<in> set default_visible_dot_dir_names))"

section \<open>Requested paths\<close>

text \<open>The components of a path in the reading of \<open>std::path\<close>.\<close>

datatype path_component = RootDir | CurDir | ParentDir | Normal string

definition segment_components :: "string list \<Rightarrow> path_component list" where
  "segment_components segs =
     map (\<lambda>s. if s = ''..'' then ParentDir else Normal s)
       (filter (\<lambda>s. s \<noteq> [] \<and> s \<noteq> ''.'') segs)"

definition path_components :: "string \<Rightarrow> path_component list" where
  "path_components path =
     (let segs = split_char slash path in
      (if prefix ''/'' path then [RootDir] else if hd segs = ''.'' then [CurDir] else [])
      @ segment_components segs)"

definition normalize_requested_path :: "string \<Rightarrow> string env_result" where
  "normalize_requested_path path =
     (let normalized_separators = forward_slashes path in
      if \<exists>c \<in> set (path_components normalized_separators). c = RootDir \<or> c = ParentDir
      then Err (EnvInvalidRequest path)
      else Ok (normalize_str_path normalized_separators))"

definition path_is_absolute :: "string \<Rightarrow> bool" where
  "path_is_absolute path \<longleftrightarrow> prefix ''/'' path"

definition absolute_request_path :: "string \<Rightarrow> string env_result" where
  "absolute_request_path path =
     (if \<not> path_is_absolute path
         \<or> (\<exists>c \<in> set (path_components path). c = ParentDir \<or> c = CurDir)
      then Err (EnvInvalidRequest path) else Ok path)"

section \<open>Scratch files\<close>

definition is_scratch_path :: "string \<Rightarrow> bool" where
  "is_scratch_path path \<longleftrightarrow>
     (let normalized = normalize_str_path path in
      normalized = default_scratch_dir \<or> prefix (default_scratch_dir @ ''/'') normalized)"

definition msg_scratch_empty :: string where
  "msg_scratch_empty = ''scratch filename must be non-empty''"

definition msg_scratch_relative :: string where
  "msg_scratch_relative = ''scratch filename must be relative to the provider scratch directory''"

definition msg_scratch_segment :: string where
  "msg_scratch_segment = ''scratch namespace must be a single path segment''"

definition normalize_scratch_filename :: "string \<Rightarrow> string env_result" where
  "normalize_scratch_filename filename =
     (case normalize_requested_path filename of
        Ok normalized \<Rightarrow>
          if normalized = [] then Err (EnvInvalidRequest msg_scratch_empty)
          else if is_scratch_path normalized then Err (EnvInvalidRequest msg_scratch_relative)
          else Ok normalized
      | Err e \<Rightarrow> Err e
      | Panic \<Rightarrow> Panic)"

definition normalize_scratch_namespace :: "string \<Rightarrow> string env_result" where
  "normalize_scratch_namespace namespace =
     (case normalize_scratch_filename namespace of
        Ok normalized \<Rightarrow>
          if slash \<in> set normalized then Err (EnvInvalidRequest msg_scratch_segment)
          else Ok normalized
      | Err e \<Rightarrow> Err e
      | Panic \<Rightarrow> Panic)"

section \<open>Provider-visible paths\<close>

record shell_review_context =
  src_default_cwd :: "string option"
  src_allowed_paths :: "string list"
  src_shell_platform :: "string option"
  src_shell_executable :: "string option"

definition is_provider_visible_absolute_path :: "string \<Rightarrow> bool" where
  "is_provider_visible_absolute_path path \<longleftrightarrow>
     (let normalized = forward_slashes path in
      path_is_absolute path \<or> prefix ''/'' normalized
      \<or> (case normalized of
           drive # c1 # c2 # _ \<Rightarrow> c1 = CHR '':'' \<and> c2 = slash \<and> is_ascii_alphabetic drive
         | _ \<Rightarrow> False))"

function pop_trailing_slashes :: "string \<Rightarrow> string" where
  "pop_trailing_slashes s =
     (if 1 < length s \<and> last s = slash then pop_trailing_slashes (butlast s) else s)"
  by pat_completeness auto
termination by (relation "measure length") auto

declare pop_trailing_slashes.simps [simp del]

definition normalize_provider_visible_path :: "string \<Rightarrow> string" where
  "normalize_provider_visible_path path = pop_trailing_slashes (forward_slashes path)"

definition is_windows_platform :: "string option \<Rightarrow> bool" where
  "is_windows_platform platform \<longleftrightarrow>
     (case platform of None \<Rightarrow> False | Some p \<Rightarrow> eq_ignore_ascii_case p ''windows'')"

definition visible_contains_for_platform :: "string \<Rightarrow> string \<Rightarrow> string option \<Rightarrow> bool" where
  "visible_contains_for_platform root child shell_platform \<longleftrightarrow>
     is_provider_visible_absolute_path root
     \<and> (let fold_case = (if is_windows_platform shell_platform then map ascii_lower else id);
            normalized_root = fold_case (normalize_provider_visible_path root);
            normalized_child = fold_case (normalize_provider_visible_path child)
        in if normalized_root = ''/'' then prefix ''/'' normalized_child
           else normalized_child = normalized_root \<or> prefix (normalized_root @ ''/'') normalized_child)"

definition provider_visible_path_contains :: "string \<Rightarrow> string \<Rightarrow> bool" where
  "provider_visible_path_contains root child = visible_contains_for_platform root child None"

definition path_allowed_by_context :: "shell_review_context \<Rightarrow> string \<Rightarrow> bool" where
  "path_allowed_by_context context path \<longleftrightarrow>
     is_provider_visible_absolute_path path
     \<and> (let contains = (\<lambda>root.
              if is_windows_platform (src_shell_platform context)
              then visible_contains_for_platform root path (src_shell_platform context)
              else provider_visible_path_contains root path)
        in (case src_default_cwd context of None \<Rightarrow> False | Some cwd \<Rightarrow> contains cwd)
           \<or> (\<exists>p \<in> set (src_allowed_paths context). contains p))"

definition push_unique_candidate :: "string list \<Rightarrow> string \<Rightarrow> string list" where
  "push_unique_candidate candidates candidate =
     (if candidate \<noteq> [] \<and> candidate \<notin> set candidates then candidates @ [candidate] else candidates)"

definition path_match_candidates :: "string \<Rightarrow> string list" where
  "path_match_candidates path =
     push_unique_candidate (push_unique_candidate [] (forward_slashes path)) (normalize_str_path path)"

definition push_context_path_candidates ::
    "string list \<Rightarrow> shell_review_context \<Rightarrow> string \<Rightarrow> string list" where
  "push_context_path_candidates candidates context path =
     (let normalized_path = forward_slashes path in
      if is_provider_visible_absolute_path normalized_path
      then push_unique_candidate candidates (normalize_provider_visible_path normalized_path)
      else case src_default_cwd context of
             None \<Rightarrow> candidates
           | Some default_cwd \<Rightarrow>
               if \<not> is_provider_visible_absolute_path default_cwd then candidates
               else
                 let p = normalize_str_path normalized_path;
                     cwd = normalize_provider_visible_path default_cwd;
                     candidate =
                       (if p = [] \<or> p = ''.'' then cwd
                        else if cwd = ''/'' then ''/'' @ p
                        else trim_end_char slash cwd @ ''/'' @ p)
                 in push_unique_candidate candidates candidate)"

section \<open>Path patterns\<close>

record path_glob =
  pg_matcher :: "string \<Rightarrow> bool"
  pg_recursive_prefix_matcher :: "(string \<Rightarrow> bool) option"
  pg_pattern :: string
  pg_anchored :: bool

type_synonym glob_builder = "string \<Rightarrow> (string \<Rightarrow> bool, string) result"

definition compile_glob :: "glob_builder \<Rightarrow> string \<Rightarrow> (string \<Rightarrow> bool) env_result" where
  "compile_glob build pattern =
     (case build pattern of Ok m \<Rightarrow> Ok m | Err e \<Rightarrow> Err (EnvInvalidRequest e) | Panic \<Rightarrow> Panic)"

definition glob_pattern_of :: "string \<Rightarrow> string \<times> bool" where
  "glob_pattern_of pattern =
     (let n1 = forward_slashes pattern;
          n2 = (if n1 = [] then ''**/*'' else n1);
          n3 = (case str_strip_prefix ''./'' n2 of Some s \<Rightarrow> s | None \<Rightarrow> n2);
          anchored = prefix ''/'' n3;
          stripped = trim_start_char slash n3
      in (if anchored then (if stripped = [] then ''*'' else stripped) else n3, anchored))"

definition path_glob_new :: "glob_builder \<Rightarrow> string \<Rightarrow> path_glob env_result" where
  "path_glob_new build pattern =
     (let (glob_pattern, anchored) = glob_pattern_of pattern in
      case compile_glob build glob_pattern of
        Err e \<Rightarrow> Err e
      | Panic \<Rightarrow> Panic
      | Ok matcher \<Rightarrow>
          (case str_strip_prefix ''**/'' glob_pattern of
             None \<Rightarrow>
               Ok \<lparr>pg_matcher = matcher, pg_recursive_prefix_matcher = None,
                   pg_pattern = glob_pattern, pg_anchored = anchored\<rparr>
           | Some rest \<Rightarrow>
               (case compile_glob build rest of
                  Err e \<Rightarrow> Err e
                | Panic \<Rightarrow> Panic
                | Ok m \<Rightarrow>
                    Ok \<lparr>pg_matcher = matcher, pg_recursive_prefix_matcher = Some m,
                        pg_pattern = glob_pattern, pg_anchored = anchored\<rparr>)))"

definition path_glob_is_match :: "path_glob \<Rightarrow> string \<Rightarrow> bool" where
  "path_glob_is_match g path =
     (let normalized = normalize_str_path path in
      if pg_anchored g \<and> slash \<notin> set (pg_pattern g) \<and> slash \<in> set normalized then False
      else if pg_pattern g = ''**'' \<or> pg_pattern g = ''**/*'' then True
      else if pg_matcher g normalized then True
      else if (case pg_recursive_prefix_matcher g of None \<Rightarrow> False | Some m \<Rightarrow> m normalized) then True
      else if \<not> pg_anchored g \<and> slash \<notin> set (pg_pattern g)
      then pg_matcher g (last (split_char slash normalized))
      else False)"

definition matches_path_pattern ::
    "glob_builder \<Rightarrow> (string \<Rightarrow> (string \<Rightarrow> (bool, string) result, string) result)
     \<Rightarrow> string \<Rightarrow> string \<Rightarrow> bool env_result" where
  "matches_path_pattern build regex_new path pattern =
     (let pattern = trim pattern in
      case str_strip_prefix ''re:'' pattern of
        Some regex \<Rightarrow>
          (case regex_new regex of
             Err e \<Rightarrow> Err (EnvInvalidRequest e)
           | Panic \<Rightarrow> Panic
           | Ok m \<Rightarrow>
               (case m path of
                  Ok b \<Rightarrow> Ok b | Err e \<Rightarrow> Err (EnvProvider e) | Panic \<Rightarrow> Panic))
      | None \<Rightarrow> result_map (\<lambda>g. path_glob_is_match g path) (path_glob_new build pattern))"

section \<open>Segments\<close>

lemma split_char_nonempty [simp]: "split_char c s \<noteq> []"
  by (induction s) (auto split: list.splits)

lemma split_char_append: "split_char c (a @ c # b) = split_char c a @ split_char c b"
proof (induction a)
  case (Cons x a)
  then show ?case by (cases "split_char c a") auto
qed simp

lemma split_char_single: "c \<notin> set a \<Longrightarrow> split_char c a = [a]"
  by (induction a) auto

lemma split_char_no_sep: "w \<in> set (split_char c s) \<Longrightarrow> c \<notin> set w"
  by (induction s arbitrary: w) (auto split: if_splits list.splits)

lemma split_char_dropWhile: "set (split_char c (dropWhile (\<lambda>x. x = c) s)) \<subseteq> set (split_char c s)"
  by (induction s) auto

lemma str_strip_prefix_Some [simp]: "str_strip_prefix p s = Some r \<longleftrightarrow> s = p @ r"
  by (auto simp: str_strip_prefix_def prefix_def)

lemma str_strip_prefix_None [simp]: "str_strip_prefix p s = None \<longleftrightarrow> \<not> prefix p s"
  by (simp add: str_strip_prefix_def)

lemma forward_slashes_simps [simp]:
  "forward_slashes [] = []"
  "forward_slashes (a @ b) = forward_slashes a @ forward_slashes b"
  "forward_slashes (c # s) = (if c = backslash then slash else c) # forward_slashes s"
  "backslash \<notin> set (forward_slashes s)"
  "length (forward_slashes s) = length s"
  by (auto simp: forward_slashes_def)

lemma forward_slashes_id: "backslash \<notin> set s \<Longrightarrow> forward_slashes s = s"
  by (induction s) auto

lemma forward_slashes_idem [simp]: "forward_slashes (forward_slashes s) = forward_slashes s"
  by (simp add: forward_slashes_id)

lemma trim_start_char_head: "\<not> prefix [c] (trim_start_char c s)"
  by (induction s) (auto simp: trim_start_char_def)

lemma trim_start_char_id: "\<not> prefix [c] s \<Longrightarrow> trim_start_char c s = s"
  by (cases s) (auto simp: trim_start_char_def)

lemma trim_end_char_snoc [simp]:
  "trim_end_char c [] = []"
  "trim_end_char c (s @ [x]) = (if x = c then trim_end_char c s else s @ [x])"
  by (simp_all add: trim_end_char_def)

lemma trim_end_char_split:
  "\<exists>n. s = trim_end_char c s @ replicate n c"
proof (induction s rule: rev_induct)
  case (snoc x s)
  then obtain n where n: "s = trim_end_char c s @ replicate n c" ..
  show ?case
  proof (cases "x = c")
    case True
    have "s @ [c] = trim_end_char c s @ replicate (Suc n) c"
      by (subst n) (simp add: replicate_append_same)
    moreover have "trim_end_char c (s @ [x]) = trim_end_char c s" using True by simp
    ultimately show ?thesis using True by metis
  qed (simp add: exI [of _ 0])
qed simp

lemma trim_end_char_last: "trim_end_char c s = [] \<or> last (trim_end_char c s) \<noteq> c"
  by (induction s rule: rev_induct) auto

lemma trim_end_char_id: "s = [] \<or> last s \<noteq> c \<Longrightarrow> trim_end_char c s = s"
  by (cases s rule: rev_cases) auto

section \<open>Requested paths stay below their root\<close>

text \<open>
  The reading a file system gives to a path: a walk from a directory, where \<open>..\<close> leaves it. The walk
  fails when it would leave the topmost directory.
\<close>

fun resolve :: "string list \<Rightarrow> string list \<Rightarrow> string list option" where
  "resolve dir [] = Some dir"
| "resolve dir (seg # segs) =
     (if seg = [] \<or> seg = ''.'' then resolve dir segs
      else if seg = ''..'' then (if dir = [] then None else resolve (butlast dir) segs)
      else resolve (dir @ [seg]) segs)"

lemma resolve_below:
  "''..'' \<notin> set segs \<Longrightarrow>
     resolve dir segs = Some (dir @ filter (\<lambda>s. s \<noteq> [] \<and> s \<noteq> ''.'') segs)"
  by (induction segs arbitrary: dir) auto

lemma path_components_reject:
  "(\<exists>c \<in> set (path_components p). c = RootDir \<or> c = ParentDir) \<longleftrightarrow>
     prefix ''/'' p \<or> ''..'' \<in> set (split_char slash p)"
  by (auto simp: path_components_def segment_components_def Let_def)

lemma normalize_requested_path_Ok_iff:
  "normalize_requested_path p = Ok q \<longleftrightarrow>
     \<not> prefix ''/'' (forward_slashes p) \<and> ''..'' \<notin> set (split_char slash (forward_slashes p))
     \<and> q = normalize_str_path p"
  unfolding normalize_requested_path_def Let_def path_components_reject
  by (auto simp: normalize_str_path_def)

lemma normalize_requested_path_total:
  "normalize_requested_path p =
     (if prefix ''/'' (forward_slashes p) \<or> ''..'' \<in> set (split_char slash (forward_slashes p))
      then Err (EnvInvalidRequest p) else Ok (normalize_str_path p))"
  unfolding normalize_requested_path_def Let_def path_components_reject
  by (auto simp: normalize_str_path_def)

lemma normalize_str_path_cases:
  obtains r where "forward_slashes p = ''./'' @ r" "normalize_str_path p = trim_start_char slash r"
  | "\<not> prefix ''./'' (forward_slashes p)"
      "normalize_str_path p = trim_start_char slash (forward_slashes p)"
  by (cases "prefix ''./'' (forward_slashes p)")
    (auto simp: normalize_str_path_def Let_def str_strip_prefix_def elim!: prefixE)

lemma normalize_str_path_relative: "\<not> prefix ''/'' (normalize_str_path p)"
  by (simp add: normalize_str_path_def Let_def trim_start_char_head)

lemma set_trim_start_char: "set (trim_start_char c s) \<subseteq> set s"
  by (auto simp: trim_start_char_def dest: set_dropWhileD)

lemma normalize_str_path_no_backslash: "backslash \<notin> set (normalize_str_path p)"
proof (cases p rule: normalize_str_path_cases)
  case (1 r)
  have "backslash \<notin> set (''./'' @ r)"
    unfolding 1(1) [symmetric] by simp
  then show ?thesis using 1(2) set_trim_start_char [of slash r] by auto
next
  case 2
  then show ?thesis using set_trim_start_char [of slash "forward_slashes p"] by auto
qed

lemma normalize_str_path_segments:
  "set (split_char slash (normalize_str_path p)) \<subseteq> set (split_char slash (forward_slashes p))"
proof (cases p rule: normalize_str_path_cases)
  case (1 r)
  then have "split_char slash (forward_slashes p) = [''.''] @ split_char slash r"
    using split_char_append [of slash "''.''" r] by simp
  with 1(2) show ?thesis
    using split_char_dropWhile [of slash r] by (auto simp: trim_start_char_def)
next
  case 2
  then show ?thesis using split_char_dropWhile by (auto simp: trim_start_char_def)
qed

lemma requested_path_resolves:
  assumes "normalize_requested_path p = Ok q"
  shows "resolve dir (split_char slash q) =
     Some (dir @ filter (\<lambda>s. s \<noteq> [] \<and> s \<noteq> ''.'') (split_char slash q))"
proof -
  have "''..'' \<notin> set (split_char slash q)"
    using assms normalize_str_path_segments [of p]
    by (auto simp: normalize_requested_path_Ok_iff)
  then show ?thesis by (rule resolve_below)
qed

text \<open>The names of a path: its segments without the empty ones and the dots.\<close>

definition path_names :: "string \<Rightarrow> string list" where
  "path_names p = filter (\<lambda>s. s \<noteq> [] \<and> s \<noteq> ''.'') (split_char slash p)"

lemma path_names_trim: "path_names (trim_start_char slash s) = path_names s"
proof (induction s)
  case (Cons c s)
  have "split_char slash (slash # s) = [] # split_char slash s"
    using split_char_append [of slash "[]" s] by simp
  with Cons show ?case by (cases "c = slash") (simp_all add: path_names_def trim_start_char_def)
qed (simp add: trim_start_char_def)

lemma normalize_str_path_names: "path_names (normalize_str_path p) = path_names (forward_slashes p)"
proof (cases p rule: normalize_str_path_cases)
  case (1 r)
  then have "split_char slash (forward_slashes p) = [''.''] @ split_char slash r"
    using split_char_append [of slash "''.''" r] by simp
  then have "path_names (forward_slashes p) = path_names r" by (simp add: path_names_def)
  with 1(2) show ?thesis by (simp add: path_names_trim)
qed (simp add: path_names_trim)

lemma requested_path_spec:
  "if prefix ''/'' (forward_slashes p) \<or> ''..'' \<in> set (split_char slash (forward_slashes p))
   then normalize_requested_path p = Err (EnvInvalidRequest p)
   else \<exists>q. normalize_requested_path p = Ok q \<and> \<not> prefix ''/'' q \<and> backslash \<notin> set q
     \<and> resolve dir (split_char slash q) = Some (dir @ path_names (forward_slashes p))
     \<and> resolve dir (split_char slash (forward_slashes p)) = resolve dir (split_char slash q)"
proof (cases "prefix ''/'' (forward_slashes p) \<or> ''..'' \<in> set (split_char slash (forward_slashes p))")
  case False
  then have ok: "normalize_requested_path p = Ok (normalize_str_path p)"
    by (simp add: normalize_requested_path_total)
  have "resolve dir (split_char slash (normalize_str_path p)) = Some (dir @ path_names (forward_slashes p))"
    using requested_path_resolves [OF ok, of dir] normalize_str_path_names [of p]
    by (simp add: path_names_def)
  moreover have "resolve dir (split_char slash (forward_slashes p)) = Some (dir @ path_names (forward_slashes p))"
    using resolve_below False by (simp add: path_names_def)
  ultimately show ?thesis
    using False ok normalize_str_path_relative [of p] normalize_str_path_no_backslash [of p] by simp
qed (simp add: normalize_requested_path_total)

section \<open>Containment, joining and stripping\<close>

lemma parent_path_Some_iff:
  "parent_path p = Some q \<longleftrightarrow> (\<exists>r. p = q @ ''/'' @ r \<and> slash \<notin> set r)"
proof
  assume "parent_path p = Some q"
  then have sl: "slash \<in> set p"
    and q: "q = rev (drop (Suc (length (takeWhile (\<lambda>x. x \<noteq> slash) (rev p)))) (rev p))"
    by (auto simp: parent_path_def rsplit_once_def Let_def split: if_splits)
  from sl obtain a b where "rev p = a @ slash # b" "slash \<notin> set a"
    by (metis in_set_conv_decomp_first set_rev)
  moreover from this have "takeWhile (\<lambda>x. x \<noteq> slash) (rev p) = a"
    by (auto simp: takeWhile_append)
  ultimately have "q = rev b" "p = rev b @ ''/'' @ rev a" "slash \<notin> set (rev a)"
    using q by (simp_all, metis rev_append rev_rev_ident append.assoc rev.simps(2) append_Cons append_Nil)
  then show "\<exists>r. p = q @ ''/'' @ r \<and> slash \<notin> set r" by blast
next
  assume "\<exists>r. p = q @ ''/'' @ r \<and> slash \<notin> set r"
  then obtain r where r: "p = q @ ''/'' @ r" "slash \<notin> set r" by blast
  have "takeWhile (\<lambda>x. x \<noteq> slash) (rev r @ slash # rev q) = rev r"
    using r(2) by (auto simp: takeWhile_append)
  then show "parent_path p = Some q"
    by (simp add: parent_path_def rsplit_once_def Let_def r)
qed

lemma ancestors_loop_acc: "ancestors_loop p acc = acc @ ancestors_loop p []"
proof (induction "length p" arbitrary: p acc rule: less_induct)
  case less
  show ?case
  proof (cases "parent_path p")
    case (Some q)
    then have "ancestors_loop q a = a @ ancestors_loop q []" for a
      using less parent_path_shorter by blast
    from this [of "acc @ [q]"] this [of "[q]"] Some show ?thesis
      by (simp add: ancestors_loop.simps [of p])
  qed (simp add: ancestors_loop.simps [of p])
qed

text \<open>The ancestors of a path are its non-empty prefixes that end right before a separator.\<close>

lemma ancestors_loop_spec:
  "set (ancestors_loop p []) = {q. q \<noteq> [] \<and> prefix (q @ ''/'') p \<and> \<not> prefix ''/'' p}"
  if "\<not> prefix ''/'' p"
  using that
proof (induction "length p" arbitrary: p rule: less_induct)
  case less
  show ?case
  proof (cases "parent_path p")
    case None
    then have "slash \<notin> set p" by (auto simp: parent_path_def rsplit_once_def Let_def split: if_splits)
    then have "\<not> prefix (q @ ''/'') p" for q by (auto simp: prefix_def)
    then show ?thesis using None by (simp add: ancestors_loop.simps [of p])
  next
    case (Some q)
    then obtain r where p: "p = q @ ''/'' @ r" and r: "slash \<notin> set r"
      by (auto simp: parent_path_Some_iff)
    have q: "q \<noteq> []" using less.prems p by auto
    have rel: "\<not> prefix ''/'' q" using less.prems p q by (cases q) auto
    have loop: "ancestors_loop p [] = q # ancestors_loop q []"
      using Some q by (simp add: ancestors_loop.simps [of p] ancestors_loop_acc [of q "[q]"])
    have "prefix (x @ ''/'') p \<longleftrightarrow> x = q \<or> prefix (x @ ''/'') q" for x
    proof
      assume "prefix (x @ ''/'') p"
      then obtain t where t: "q @ ''/'' @ r = x @ ''/'' @ t" using p by (auto simp: prefix_def)
      show "x = q \<or> prefix (x @ ''/'') q"
        using t r by (auto simp: append_eq_append_conv2 Cons_eq_append_conv append_eq_Cons_conv prefix_def)
    qed (auto simp: p prefix_def)
    then show ?thesis
      using less.hyps [of q] rel parent_path_shorter [OF Some] less.prems q by (auto simp: loop)
  qed
qed

lemma logical_ancestors_spec:
  "set (logical_ancestors p) = {q. q \<noteq> [] \<and> prefix (q @ ''/'') (normalize_str_path p)}"
  using ancestors_loop_spec [OF normalize_str_path_relative [of p]] normalize_str_path_relative [of p]
  by (simp add: logical_ancestors_def)

lemma strip_path_prefix_below:
  "pre \<noteq> [] \<Longrightarrow> strip_path_prefix pre (pre @ ''/'' @ rest) = rest"
  by (simp add: strip_path_prefix_def str_strip_prefix_def)

lemma join_strip:
  assumes "path_contains pre path" and "path \<noteq> pre"
    and "pre \<noteq> [] \<Longrightarrow> last pre \<noteq> slash" and "pre \<noteq> ''.''"
  shows "join_logical_path pre (strip_path_prefix pre path) = path"
proof (cases "pre = []")
  case False
  then obtain rest where "path = pre @ ''/'' @ rest"
    using assms(1,2) by (auto simp: path_contains_def prefix_def)
  then show ?thesis
    using assms(3,4) False strip_path_prefix_below [OF False, of rest]
    by (simp add: join_logical_path_def trim_end_char_id)
qed (simp add: join_logical_path_def strip_path_prefix_def)

lemma strip_join:
  assumes "pre \<noteq> ''.''" and "pre \<noteq> [] \<Longrightarrow> last pre \<noteq> slash"
  shows "strip_path_prefix pre (join_logical_path pre child) = child"
    and "path_contains pre (join_logical_path pre child)"
  using assms
  by (cases "pre = []";
      simp add: join_logical_path_def strip_path_prefix_def str_strip_prefix_def trim_end_char_id
        path_contains_def)+

lemma replace_logical_prefix_below:
  "replace_logical_prefix (src @ ''/'' @ rest) src dst = join_logical_path dst rest"
  by (simp add: replace_logical_prefix_def str_strip_prefix_def)

lemma replace_logical_prefix_self: "replace_logical_prefix src src dst = dst"
  by (simp add: replace_logical_prefix_def)

section \<open>Scratch paths\<close>

lemma normalize_str_path_plain:
  assumes "backslash \<notin> set p" and "\<not> prefix ''./'' p" and "\<not> prefix ''/'' p"
  shows "normalize_str_path p = p"
  using assms
  by (simp add: normalize_str_path_def Let_def forward_slashes_id str_strip_prefix_def
      trim_start_char_id)

lemma normalize_under_scratch:
  "normalize_str_path (default_scratch_dir @ ''/'' @ rest) = default_scratch_dir @ ''/'' @ forward_slashes rest"
  by (simp add: normalize_str_path_def Let_def default_scratch_dir_def str_strip_prefix_def
      trim_start_char_def)

lemma scratch_dir_below: "is_scratch_path (default_scratch_dir @ ''/'' @ rest)"
  unfolding is_scratch_path_def normalize_under_scratch by (simp add: Let_def)

lemma join_scratch: "join_logical_path default_scratch_dir rest = default_scratch_dir @ ''/'' @ rest"
  by (simp add: join_logical_path_def default_scratch_dir_def trim_end_char_def)

lemma normalize_scratch_filename_Ok:
  assumes "normalize_scratch_filename f = Ok q"
  shows "q = normalize_str_path f" and "q \<noteq> []" and "\<not> is_scratch_path q"
    and "normalize_requested_path f = Ok q"
  using assms
  by (auto simp: normalize_scratch_filename_def normalize_requested_path_Ok_iff
      split: result.splits if_splits)

lemma normalize_scratch_namespace_Ok:
  assumes "normalize_scratch_namespace f = Ok q"
  shows "normalize_scratch_filename f = Ok q" and "slash \<notin> set q"
  using assms by (auto simp: normalize_scratch_namespace_def split: result.splits if_splits)

end
