(* ===== verification/Virtual_Environment.thy ===== *)
theory Virtual_Environment
  imports Logical_Path
begin

text \<open>
  Access policies (\<open>starweaver-environment/src/policy.rs\<close>) and the in-memory environment provider
  (\<open>virtual_provider.rs\<close>, \<open>virtual_provider/store.rs\<close>, \<open>impls.rs\<close>, \<open>process.rs\<close>): text and
  binary files, explicit directories, deterministic shell output and background processes.

  An operation returns its result and the state it leaves, because an operation that fails may
  have changed the state. The mutexes are the atomicity of an operation; they are never poisoned, because no holder panics.
  The text of a UTF-8 decoding error and the debug formatting of a string are parameters.
\<close>

section \<open>Policies\<close>

record file_policy =
  fp_allow_read :: bool
  fp_allow_write :: bool
  fp_allowed_prefixes :: "string list"

definition file_policy_read_only :: file_policy where
  "file_policy_read_only =
     \<lparr>fp_allow_read = True, fp_allow_write = False, fp_allowed_prefixes = []\<rparr>"

definition file_policy_read_write :: file_policy where
  "file_policy_read_write =
     \<lparr>fp_allow_read = True, fp_allow_write = True, fp_allowed_prefixes = []\<rparr>"

definition file_permits :: "file_policy \<Rightarrow> string \<Rightarrow> bool \<Rightarrow> bool" where
  "file_permits p path write =
     (if write \<and> \<not> fp_allow_write p then False
      else if \<not> write \<and> \<not> fp_allow_read p then False
      else fp_allowed_prefixes p = []
        \<or> (\<exists>pre \<in> set (fp_allowed_prefixes p). path = pre \<or> prefix (pre @ ''/'') path))"

record shell_policy =
  sp_allow_execute :: bool
  sp_allowed_programs :: "string list"

definition shell_policy_allow_all :: shell_policy where
  "shell_policy_allow_all = \<lparr>sp_allow_execute = True, sp_allowed_programs = []\<rparr>"

definition permits_shell :: "shell_policy \<Rightarrow> bool" where
  "permits_shell p \<longleftrightarrow> sp_allow_execute p \<and> sp_allowed_programs p = []"

definition permits_program :: "shell_policy \<Rightarrow> string \<Rightarrow> bool" where
  "permits_program p program \<longleftrightarrow>
     sp_allow_execute p
     \<and> (sp_allowed_programs p = [] \<or> program \<in> set (sp_allowed_programs p))"

definition permits_environment_overrides :: "shell_policy \<Rightarrow> bool" where
  "permits_environment_overrides p \<longleftrightarrow> sp_allowed_programs p = []"

record environment_policy =
  ep_files :: file_policy
  ep_shell :: shell_policy

section \<open>Requests and results\<close>

record resource_ref =
  rr_id :: string
  rr_uri :: string
  rr_metadata :: metadata

record shell_command =
  sc_command :: string
  sc_timeout_seconds :: "u64 option"
  sc_cwd :: "string option"
  sc_environment :: "(string, string) btmap"

record program_command =
  pc_program :: string
  pc_arguments :: "string list"
  pc_timeout_seconds :: "u64 option"
  pc_cwd :: "string option"
  pc_environment :: "(string, string) btmap"

record shell_output =
  so_status :: int
  so_stdout :: string
  so_stderr :: string
  so_metadata :: metadata

datatype shell_process_status = ProcRunning | ProcCompleted | ProcFailed | ProcKilled

record shell_process_snapshot =
  ps_process_id :: string
  ps_command :: string
  ps_status :: shell_process_status
  ps_stdout :: string
  ps_stderr :: string
  ps_return_code :: "int option"
  ps_metadata :: metadata

record file_stat =
  fs_size :: nat
  fs_is_file :: bool
  fs_is_dir :: bool
  fs_modified_unix_seconds :: "u64 option"

record file_list_options =
  fl_ignore_patterns :: "string list"
  fl_max_entries :: nat

record file_list_result =
  fr_entries :: "string list"
  fr_truncated :: bool
  fr_total_entries :: nat

record file_glob_options =
  fg_include_hidden :: bool
  fg_include_ignored :: bool
  fg_max_results :: nat

record environment_state =
  es_provider_id :: string
  es_files :: "(string, string) btmap"
  es_resources :: "resource_ref list"
  es_processes :: "shell_process_snapshot list"
  es_metadata :: metadata

definition intercalate :: "string \<Rightarrow> string list \<Rightarrow> string" where
  "intercalate sep parts =
     (case parts of [] \<Rightarrow> [] | p # ps \<Rightarrow> p @ concat (map (\<lambda>q. sep @ q) ps))"

definition display_command :: "(string \<Rightarrow> string) \<Rightarrow> program_command \<Rightarrow> string" where
  "display_command debug_str c = intercalate '' '' (map debug_str (pc_program c # pc_arguments c))"

definition process_metadata ::
    "u64 option \<Rightarrow> string option \<Rightarrow> (string, string) btmap \<Rightarrow> string \<Rightarrow> metadata" where
  "process_metadata timeout_seconds cwd environment execution_mode =
     (let m1 = (case timeout_seconds of
                  None \<Rightarrow> []
                | Some t \<Rightarrow> bt_insert ''timeout_seconds'' (JNumber (u64_to_string t)) []);
          m2 = (case cwd of None \<Rightarrow> m1 | Some d \<Rightarrow> bt_insert ''cwd'' (JString d) m1);
          m3 = (if environment = [] then m2
                else bt_insert ''environment_variables''
                       (JArray (map (\<lambda>e. JString (fst e)) environment)) m2);
          m4 = bt_insert ''execution_mode'' (JString execution_mode) m3
      in bt_insert ''process_isolation'' (JString ''unix_process_group'') m4)"

definition shell_process_metadata :: "shell_command \<Rightarrow> metadata" where
  "shell_process_metadata c =
     process_metadata (sc_timeout_seconds c) (sc_cwd c) (sc_environment c) ''shell''"

definition program_process_metadata :: "program_command \<Rightarrow> metadata" where
  "program_process_metadata c =
     process_metadata (pc_timeout_seconds c) (pc_cwd c) (pc_environment c) ''program''"

definition list_ignore_match :: "string list \<Rightarrow> string \<Rightarrow> bool" where
  "list_ignore_match patterns entry \<longleftrightarrow>
     (\<exists>pat \<in> set patterns.
        entry = pat \<or> suffix pat entry \<or> sublist pat entry
        \<or> (pat \<noteq> [] \<and> last pat = slash \<and> prefix (butlast pat) entry))"

text \<open>\<open>String::from_utf8\<close>: the well-formed byte sequences of the Unicode standard.\<close>

definition byte_in :: "nat \<Rightarrow> nat \<Rightarrow> char \<Rightarrow> bool" where
  "byte_in lo hi c \<longleftrightarrow> lo \<le> (of_char c :: nat) \<and> (of_char c :: nat) \<le> hi"

definition utf8_step :: "string \<Rightarrow> string option" where
  "utf8_step s =
     (case s of
        [] \<Rightarrow> None
      | a # s1 \<Rightarrow>
          if byte_in 0 127 a then Some s1
          else case s1 of
            [] \<Rightarrow> None
          | b # s2 \<Rightarrow>
              if byte_in 194 223 a then (if byte_in 128 191 b then Some s2 else None)
              else case s2 of
                [] \<Rightarrow> None
              | c # s3 \<Rightarrow>
                  if (byte_in 224 224 a \<and> byte_in 160 191 b \<or> byte_in 225 236 a \<and> byte_in 128 191 b
                      \<or> byte_in 237 237 a \<and> byte_in 128 159 b \<or> byte_in 238 239 a \<and> byte_in 128 191 b)
                     \<and> byte_in 128 191 c
                  then Some s3
                  else case s3 of
                    [] \<Rightarrow> None
                  | d # s4 \<Rightarrow>
                      if (byte_in 240 240 a \<and> byte_in 144 191 b \<or> byte_in 241 243 a \<and> byte_in 128 191 b
                          \<or> byte_in 244 244 a \<and> byte_in 128 143 b)
                         \<and> byte_in 128 191 c \<and> byte_in 128 191 d
                      then Some s4 else None)"

lemma utf8_step_shorter: "utf8_step s = Some r \<Longrightarrow> length r < length s"
  by (auto simp: utf8_step_def split: list.splits if_splits)

function utf8_valid :: "string \<Rightarrow> bool" where
  "utf8_valid s =
     (s = [] \<or> (case utf8_step s of None \<Rightarrow> False | Some r \<Rightarrow> utf8_valid r))"
  by pat_completeness auto
termination
  by (relation "measure length") (auto dest: utf8_step_shorter)

declare utf8_valid.simps [simp del]

section \<open>The provider\<close>

record virtual_env =
  ve_id :: string
  ve_policy :: environment_policy
  ve_scratch_namespace :: "string option"
  ve_files :: "(string, string) btmap"
  ve_binary_files :: "(string, string) btmap"
  ve_directories :: "string btset"
  ve_shell_outputs :: "(string, shell_output) btmap"
  ve_processes :: "(string, shell_process_snapshot) btmap"
  ve_resources :: "resource_ref list"

definition virtual_new :: "string \<Rightarrow> virtual_env" where
  "virtual_new i =
     \<lparr>ve_id = i,
      ve_policy = \<lparr>ep_files = file_policy_read_write, ep_shell = shell_policy_allow_all\<rparr>,
      ve_scratch_namespace = None, ve_files = [], ve_binary_files = [], ve_directories = [],
      ve_shell_outputs = [], ve_processes = [], ve_resources = []\<rparr>"

definition extend_map :: "(string, 'v) btmap \<Rightarrow> (string \<times> 'v) list \<Rightarrow> (string, 'v) btmap" where
  "extend_map m es = foldl (\<lambda>m e. bt_insert (fst e) (snd e) m) m es"

definition insert_directory_ancestors :: "string \<Rightarrow> virtual_env \<Rightarrow> virtual_env" where
  "insert_directory_ancestors path v =
     v\<lparr>ve_directories := foldl (\<lambda>d a. bt_insert a () d) (ve_directories v) (logical_ancestors path)\<rparr>"

definition virtual_from_state :: "environment_state \<Rightarrow> virtual_env" where
  "virtual_from_state st =
     (let v = virtual_new (es_provider_id st);
          paths = map fst (es_files st);
          v1 = v\<lparr>ve_files := extend_map (ve_files v) (es_files st),
                 ve_resources := ve_resources v @ es_resources st,
                 ve_processes := extend_map (ve_processes v)
                   (map (\<lambda>p. (ps_process_id p, p)) (es_processes st))\<rparr>
      in foldl (\<lambda>v p. insert_directory_ancestors p v) v1 paths)"

definition with_policy :: "environment_policy \<Rightarrow> virtual_env \<Rightarrow> virtual_env" where
  "with_policy p v = v\<lparr>ve_policy := p\<rparr>"

definition with_scratch_namespace :: "string \<Rightarrow> virtual_env \<Rightarrow> virtual_env env_result" where
  "with_scratch_namespace ns v =
     result_map (\<lambda>n. v\<lparr>ve_scratch_namespace := Some n\<rparr>) (normalize_scratch_namespace ns)"

definition with_file :: "string \<Rightarrow> string \<Rightarrow> virtual_env \<Rightarrow> virtual_env" where
  "with_file path content v =
     v\<lparr>ve_files := bt_insert path content (ve_files v),
       ve_binary_files := bt_remove path (ve_binary_files v)\<rparr>"

definition with_bytes :: "string \<Rightarrow> string \<Rightarrow> virtual_env \<Rightarrow> virtual_env" where
  "with_bytes path content v =
     v\<lparr>ve_binary_files := bt_insert path content (ve_binary_files v),
       ve_files := bt_remove path (ve_files v)\<rparr>"

definition with_shell_output :: "string \<Rightarrow> shell_output \<Rightarrow> virtual_env \<Rightarrow> virtual_env" where
  "with_shell_output command out v =
     v\<lparr>ve_shell_outputs := bt_insert command out (ve_shell_outputs v)\<rparr>"

definition with_process :: "shell_process_snapshot \<Rightarrow> virtual_env \<Rightarrow> virtual_env" where
  "with_process p v = v\<lparr>ve_processes := bt_insert (ps_process_id p) p (ve_processes v)\<rparr>"

definition with_resource :: "resource_ref \<Rightarrow> virtual_env \<Rightarrow> virtual_env" where
  "with_resource r v = v\<lparr>ve_resources := ve_resources v @ [r]\<rparr>"

section \<open>Store helpers\<close>

definition check_file :: "virtual_env \<Rightarrow> string \<Rightarrow> bool \<Rightarrow> unit env_result" where
  "check_file v path write =
     (if is_scratch_path path \<or> file_permits (ep_files (ve_policy v)) path write
      then Ok () else Err (EnvAccessDenied path))"

definition key_set :: "string list \<Rightarrow> string btset \<Rightarrow> string btset" where
  "key_set keys s = foldl (\<lambda>s k. bt_insert k () s) s keys"

definition all_file_keys :: "virtual_env \<Rightarrow> string list" where
  "all_file_keys v =
     map fst (key_set (map fst (ve_binary_files v)) (key_set (map fst (ve_files v)) []))"

definition all_dir_keys :: "virtual_env \<Rightarrow> string list" where
  "all_dir_keys v = map fst (ve_directories v)"

definition scratch_file_path :: "virtual_env \<Rightarrow> string \<Rightarrow> string env_result" where
  "scratch_file_path v filename =
     (case normalize_scratch_filename filename of
        Ok f \<Rightarrow>
          let relative = (case ve_scratch_namespace v of
                            None \<Rightarrow> f | Some namespace \<Rightarrow> join_logical_path namespace f)
          in Ok (join_logical_path default_scratch_dir relative)
      | Err e \<Rightarrow> Err e
      | Panic \<Rightarrow> Panic)"

definition path_exists_unchecked :: "virtual_env \<Rightarrow> string \<Rightarrow> bool" where
  "path_exists_unchecked v path \<longleftrightarrow>
     bt_contains (ve_files v) path \<or> bt_contains (ve_binary_files v) path
     \<or> bt_contains (ve_directories v) path
     \<or> (let pre = (if path = [] then [] else trim_end_char slash path @ ''/'') in
        (\<exists>entry \<in> set (all_file_keys v). prefix pre entry)
        \<or> (\<exists>entry \<in> set (all_dir_keys v). prefix pre entry))"

definition msg_same_destination :: string where
  "msg_same_destination = ''source and destination must differ''"

definition ensure_virtual_destination :: "virtual_env \<Rightarrow> string \<Rightarrow> string \<Rightarrow> bool \<Rightarrow> unit env_result" where
  "ensure_virtual_destination v src dst overwrite =
     (if src = dst then Err (EnvInvalidRequest msg_same_destination)
      else if path_exists_unchecked v dst \<and> \<not> overwrite
      then Err (EnvInvalidRequest (''destination already exists: '' @ dst))
      else Ok ())"

section \<open>Files\<close>

definition ve_read_text :: "(string \<Rightarrow> string) \<Rightarrow> virtual_env \<Rightarrow> string \<Rightarrow> string env_result" where
  "ve_read_text utf8_error v path =
     (case check_file v path False of
        Err e \<Rightarrow> Err e
      | Panic \<Rightarrow> Panic
      | Ok _ \<Rightarrow>
          (case map_of (ve_files v) path of
             Some content \<Rightarrow> Ok content
           | None \<Rightarrow>
               (case map_of (ve_binary_files v) path of
                  None \<Rightarrow> Err (EnvNotFound path)
                | Some bytes \<Rightarrow>
                    if utf8_valid bytes then Ok bytes else Err (EnvProvider (utf8_error bytes)))))"

definition ve_read_bytes :: "virtual_env \<Rightarrow> string \<Rightarrow> u64 \<Rightarrow> u64 option \<Rightarrow> string env_result" where
  "ve_read_bytes v path offset len =
     (case check_file v path False of
        Err e \<Rightarrow> Err e
      | Panic \<Rightarrow> Panic
      | Ok _ \<Rightarrow>
          (case (case map_of (ve_files v) path of
                   Some content \<Rightarrow> Some content | None \<Rightarrow> map_of (ve_binary_files v) path) of
             None \<Rightarrow> Err (EnvNotFound path)
           | Some bytes \<Rightarrow>
               if length bytes \<le> unat offset then Ok []
               else
                 let stop = (case len of
                              None \<Rightarrow> length bytes
                            | Some n \<Rightarrow> min (unat (u64_saturating_add offset n)) (length bytes))
                 in Ok (take (stop - unat offset) (drop (unat offset) bytes))))"

definition ve_write_text :: "virtual_env \<Rightarrow> string \<Rightarrow> string \<Rightarrow> unit env_result \<times> virtual_env" where
  "ve_write_text v path content =
     (case check_file v path True of
        Ok _ \<Rightarrow>
          (Ok (), v\<lparr>ve_files := bt_insert path content (ve_files v),
                    ve_binary_files := bt_remove path (ve_binary_files v)\<rparr>)
      | Err e \<Rightarrow> (Err e, v)
      | Panic \<Rightarrow> (Panic, v))"

definition ve_create_dir :: "virtual_env \<Rightarrow> string \<Rightarrow> bool \<Rightarrow> unit env_result \<times> virtual_env" where
  "ve_create_dir v path parents =
     (case normalize_requested_path path of
        Err e \<Rightarrow> (Err e, v)
      | Panic \<Rightarrow> (Panic, v)
      | Ok normalized \<Rightarrow>
          (case check_file v normalized True of
             Err e \<Rightarrow> (Err e, v)
           | Panic \<Rightarrow> (Panic, v)
           | Ok _ \<Rightarrow>
               if normalized = [] \<or> normalized = ''.'' then (Ok (), v)
               else if bt_contains (ve_files v) normalized \<or> bt_contains (ve_binary_files v) normalized
               then (Err (EnvInvalidRequest (''path already exists as a file: '' @ normalized)), v)
               else if parents
               then (Ok (), (insert_directory_ancestors normalized v)
                       \<lparr>ve_directories := bt_insert normalized ()
                          (ve_directories (insert_directory_ancestors normalized v))\<rparr>)
               else
                 (case parent_path normalized of
                    Some parent \<Rightarrow>
                      if parent \<noteq> [] \<and> \<not> path_exists_unchecked v parent
                      then (Err (EnvNotFound parent), v)
                      else (Ok (), v\<lparr>ve_directories := bt_insert normalized () (ve_directories v)\<rparr>)
                  | None \<Rightarrow>
                      (Ok (), v\<lparr>ve_directories := bt_insert normalized () (ve_directories v)\<rparr>))))"

definition retain_outside :: "string \<Rightarrow> string \<Rightarrow> (string \<times> 'v) list \<Rightarrow> (string \<times> 'v) list" where
  "retain_outside p pre m = filter (\<lambda>e. fst e \<noteq> p \<and> \<not> prefix pre (fst e)) m"

definition ve_delete_path :: "virtual_env \<Rightarrow> string \<Rightarrow> bool \<Rightarrow> unit env_result \<times> virtual_env" where
  "ve_delete_path v path recursive =
     (case normalize_requested_path path of
        Err e \<Rightarrow> (Err e, v)
      | Panic \<Rightarrow> (Panic, v)
      | Ok normalized \<Rightarrow>
          (case check_file v normalized True of
             Err e \<Rightarrow> (Err e, v)
           | Panic \<Rightarrow> (Panic, v)
           | Ok _ \<Rightarrow>
               if bt_contains (ve_files v) normalized
               then (Ok (), v\<lparr>ve_files := bt_remove normalized (ve_files v)\<rparr>)
               else if bt_contains (ve_binary_files v) normalized
               then (Ok (), v\<lparr>ve_binary_files := bt_remove normalized (ve_binary_files v)\<rparr>)
               else
                 let pre = trim_end_char slash normalized @ ''/'';
                     file_children = filter (prefix pre) (all_file_keys v);
                     dir_children = filter (prefix pre) (all_dir_keys v);
                     explicit_dir = bt_contains (ve_directories v) normalized
                 in if \<not> explicit_dir \<and> file_children = [] \<and> dir_children = []
                    then (Err (EnvNotFound path), v)
                    else if \<not> recursive \<and> (file_children \<noteq> [] \<or> dir_children \<noteq> [])
                    then (Err (EnvInvalidRequest (''directory is not empty: '' @ normalized)), v)
                    else (Ok (), v\<lparr>ve_files := retain_outside normalized pre (ve_files v),
                                   ve_binary_files := retain_outside normalized pre (ve_binary_files v),
                                   ve_directories := retain_outside normalized pre (ve_directories v)\<rparr>)))"

text \<open>The part of \<open>copy_path\<close> after the destination has been cleared.\<close>

definition copy_content :: "virtual_env \<Rightarrow> string \<Rightarrow> string \<Rightarrow> unit env_result \<times> virtual_env" where
  "copy_content v src dst =
     (case map_of (ve_files v) src of
        Some content \<Rightarrow>
          (Ok (), v\<lparr>ve_files := bt_insert dst content (ve_files v),
                    ve_binary_files := bt_remove dst (ve_binary_files v)\<rparr>)
      | None \<Rightarrow>
          (case map_of (ve_binary_files v) src of
             Some content \<Rightarrow>
               (Ok (), v\<lparr>ve_binary_files := bt_insert dst content (ve_binary_files v),
                         ve_files := bt_remove dst (ve_files v)\<rparr>)
           | None \<Rightarrow>
               let pre = trim_end_char slash src @ ''/'';
                   text_entries = filter (\<lambda>e. prefix pre (fst e)) (ve_files v);
                   binary_entries = filter (\<lambda>e. prefix pre (fst e)) (ve_binary_files v);
                   dir_entries = filter (\<lambda>p. p = src \<or> prefix pre p) (all_dir_keys v)
               in if text_entries = [] \<and> binary_entries = [] \<and> dir_entries = []
                  then (Err (EnvNotFound src), v)
                  else
                    (Ok (), v\<lparr>ve_directories :=
                                foldl (\<lambda>d p. bt_insert (replace_logical_prefix p src dst) () d)
                                  (ve_directories v) dir_entries,
                              ve_files :=
                                foldl (\<lambda>m e. bt_insert (replace_logical_prefix (fst e) src dst) (snd e) m)
                                  (ve_files v) text_entries,
                              ve_binary_files :=
                                foldl (\<lambda>m e. bt_insert (replace_logical_prefix (fst e) src dst) (snd e) m)
                                  (ve_binary_files v) binary_entries\<rparr>)))"

text \<open>The guards that \<open>copy_path\<close> and \<open>move_path\<close> share: both paths, the two checks, the destination.\<close>

definition transfer_guard ::
    "virtual_env \<Rightarrow> string \<Rightarrow> string \<Rightarrow> bool \<Rightarrow> bool \<Rightarrow> (string \<times> string) env_result" where
  "transfer_guard v src dst src_write overwrite =
     (case normalize_requested_path src of
        Err e \<Rightarrow> Err e
      | Panic \<Rightarrow> Panic
      | Ok s \<Rightarrow>
          (case normalize_requested_path dst of
             Err e \<Rightarrow> Err e
           | Panic \<Rightarrow> Panic
           | Ok d \<Rightarrow>
               (case check_file v s src_write of
                  Err e \<Rightarrow> Err e
                | Panic \<Rightarrow> Panic
                | Ok _ \<Rightarrow>
                    (case check_file v d True of
                       Err e \<Rightarrow> Err e
                     | Panic \<Rightarrow> Panic
                     | Ok _ \<Rightarrow> result_map (\<lambda>_. (s, d)) (ensure_virtual_destination v s d overwrite)))))"

definition ve_copy_path :: "virtual_env \<Rightarrow> string \<Rightarrow> string \<Rightarrow> bool \<Rightarrow> unit env_result \<times> virtual_env" where
  "ve_copy_path v src dst overwrite =
     (case transfer_guard v src dst False overwrite of
        Err e \<Rightarrow> (Err e, v)
      | Panic \<Rightarrow> (Panic, v)
      | Ok (s, d) \<Rightarrow>
          if overwrite \<and> path_exists_unchecked v d
          then (case ve_delete_path v d True of
                  (Ok _, v1) \<Rightarrow> copy_content v1 s d
                | (Err e, v1) \<Rightarrow> (Err e, v1)
                | (Panic, v1) \<Rightarrow> (Panic, v1))
          else copy_content v s d)"

definition ve_move_path :: "virtual_env \<Rightarrow> string \<Rightarrow> string \<Rightarrow> bool \<Rightarrow> unit env_result \<times> virtual_env" where
  "ve_move_path v src dst overwrite =
     (case transfer_guard v src dst True overwrite of
        Err e \<Rightarrow> (Err e, v)
      | Panic \<Rightarrow> (Panic, v)
      | Ok (s, d) \<Rightarrow>
          (case ve_copy_path v s d overwrite of
             (Ok _, v1) \<Rightarrow> ve_delete_path v1 s True
           | (Err e, v1) \<Rightarrow> (Err e, v1)
           | (Panic, v1) \<Rightarrow> (Panic, v1)))"

definition ve_write_scratch_file ::
    "virtual_env \<Rightarrow> string \<Rightarrow> string \<Rightarrow> string env_result \<times> virtual_env" where
  "ve_write_scratch_file v filename content =
     (case scratch_file_path v filename of
        Err e \<Rightarrow> (Err e, v)
      | Panic \<Rightarrow> (Panic, v)
      | Ok normalized \<Rightarrow>
          (Ok normalized,
           v\<lparr>ve_binary_files := bt_insert normalized content (ve_binary_files v),
             ve_files := bt_remove normalized (ve_files v)\<rparr>))"

definition dir_stat :: file_stat where
  "dir_stat = \<lparr>fs_size = 0, fs_is_file = False, fs_is_dir = True, fs_modified_unix_seconds = None\<rparr>"

definition regular_stat :: "string \<Rightarrow> file_stat" where
  "regular_stat content =
     \<lparr>fs_size = length content, fs_is_file = True, fs_is_dir = False, fs_modified_unix_seconds = None\<rparr>"

definition ve_stat :: "virtual_env \<Rightarrow> string \<Rightarrow> file_stat env_result" where
  "ve_stat v path =
     (case check_file v path False of
        Err e \<Rightarrow> Err e
      | Panic \<Rightarrow> Panic
      | Ok _ \<Rightarrow>
          (case map_of (ve_files v) path of
             Some content \<Rightarrow> Ok (regular_stat content)
           | None \<Rightarrow>
               (case map_of (ve_binary_files v) path of
                  Some content \<Rightarrow> Ok (regular_stat content)
                | None \<Rightarrow>
                    if bt_contains (ve_directories v) path then Ok dir_stat
                    else
                      let pre = (if path = [] then [] else trim_end_char slash path @ ''/'')
                      in if (\<exists>e \<in> set (all_file_keys v). prefix pre e)
                            \<or> (\<exists>e \<in> set (all_dir_keys v). prefix pre e)
                         then Ok dir_stat else Err (EnvNotFound path))))"

section \<open>Listings\<close>

definition list_prefix :: "string \<Rightarrow> string" where
  "list_prefix normalized =
     (if normalized = [] \<or> normalized = ''.'' then [] else trim_end_char slash normalized @ ''/'')"

definition candidate_keys :: "virtual_env \<Rightarrow> string list" where
  "candidate_keys v = map fst (ve_files v) @ map fst (ve_binary_files v) @ map fst (ve_directories v)"

definition ve_list :: "virtual_env \<Rightarrow> string \<Rightarrow> string list env_result" where
  "ve_list v path =
     (case normalize_requested_path path of
        Err e \<Rightarrow> Err e
      | Panic \<Rightarrow> Panic
      | Ok normalized \<Rightarrow>
          (case check_file v normalized False of
             Err e \<Rightarrow> Err e
           | Panic \<Rightarrow> Panic
           | Ok _ \<Rightarrow>
               Ok (map fst (key_set (filter (prefix (list_prefix normalized)) (candidate_keys v)) []))))"

definition list_entry_matches :: "string \<Rightarrow> string list \<Rightarrow> string \<Rightarrow> string option" where
  "list_entry_matches pre ignore_patterns entry =
     (if prefix pre entry \<and> \<not> list_ignore_match ignore_patterns entry then Some entry else None)"

text \<open>A \<open>BinaryHeap\<close> of strings is its entries in ascending order: the greatest is the last.\<close>

fun collect_limited_list_entries ::
    "string list \<Rightarrow> string \<Rightarrow> string list \<Rightarrow> nat \<Rightarrow> string list \<times> nat \<Rightarrow> string list \<times> nat" where
  "collect_limited_list_entries [] pre ign maxn acc = acc"
| "collect_limited_list_entries (c # cs) pre ign maxn (entries, tot) =
     (case list_entry_matches pre ign c of
        None \<Rightarrow> collect_limited_list_entries cs pre ign maxn (entries, tot)
      | Some e \<Rightarrow>
          collect_limited_list_entries cs pre ign maxn
            (if length entries < maxn then insort e entries
             else if entries \<noteq> [] \<and> e < last entries then insort e (butlast entries)
             else entries,
             tot + 1))"

definition ve_list_with_options ::
    "virtual_env \<Rightarrow> string \<Rightarrow> file_list_options \<Rightarrow> file_list_result env_result" where
  "ve_list_with_options v path options =
     (case normalize_requested_path path of
        Err e \<Rightarrow> Err e
      | Panic \<Rightarrow> Panic
      | Ok normalized \<Rightarrow>
          (case check_file v normalized False of
             Err e \<Rightarrow> Err e
           | Panic \<Rightarrow> Panic
           | Ok _ \<Rightarrow>
               let pre = list_prefix normalized; ign = fl_ignore_patterns options in
               if fl_max_entries options = 0
               then
                 let entries = map fst (key_set
                       (List.map_filter (list_entry_matches pre ign) (candidate_keys v)) [])
                 in Ok \<lparr>fr_entries = entries, fr_truncated = False, fr_total_entries = length entries\<rparr>
               else
                 let n = fl_max_entries options;
                     a1 = collect_limited_list_entries (map fst (ve_files v)) pre ign n ([], 0);
                     a2 = collect_limited_list_entries (map fst (ve_binary_files v)) pre ign n a1;
                     (entries, tot) =
                       collect_limited_list_entries (map fst (ve_directories v)) pre ign n a2
                 in Ok \<lparr>fr_entries = entries, fr_truncated = length entries < tot,
                        fr_total_entries = tot\<rparr>))"

text \<open>The loop of \<open>glob\<close>, which stops at the limit.\<close>

fun glob_loop ::
    "(string \<Rightarrow> bool) \<Rightarrow> nat \<Rightarrow> string list \<Rightarrow> string list \<Rightarrow> string list" where
  "glob_loop p maxn found [] = found"
| "glob_loop p maxn found (e # es) =
     (if p e
      then (if 0 < maxn \<and> maxn \<le> length (found @ [e]) then found @ [e]
            else glob_loop p maxn (found @ [e]) es)
      else glob_loop p maxn found es)"

definition glob_directories :: "virtual_env \<Rightarrow> string btset" where
  "glob_directories v =
     key_set (all_dir_keys v) (key_set (concat (map logical_ancestors (all_file_keys v))) [])"

definition glob_entries :: "virtual_env \<Rightarrow> string list" where
  "glob_entries v =
     map fst (key_set (all_dir_keys v)
       (key_set (concat (map (\<lambda>f. logical_ancestors f @ [f]) (all_file_keys v))) []))"

definition ve_glob ::
    "glob_builder \<Rightarrow> virtual_env \<Rightarrow> string \<Rightarrow> string \<Rightarrow> file_glob_options \<Rightarrow> string list env_result" where
  "ve_glob build v path pattern options =
     (case check_file v path False of
        Err e \<Rightarrow> Err e
      | Panic \<Rightarrow> Panic
      | Ok _ \<Rightarrow>
          let pre = trim_end_char slash (trim_start_char slash path) in
          (case path_glob_new build pattern of
             Err e \<Rightarrow> Err e
           | Panic \<Rightarrow> Panic
           | Ok g \<Rightarrow>
               Ok (glob_loop
                    (\<lambda>entry.
                       let relative = strip_path_prefix pre entry in
                       \<not> (pre \<noteq> [] \<and> entry = pre)
                       \<and> path_contains pre entry
                       \<and> include_path relative (fg_include_hidden options)
                       \<and> (fg_include_hidden options \<or> relative \<noteq> ''.agents''
                          \<or> bt_contains (glob_directories v) entry)
                       \<and> path_glob_is_match g relative)
                    (fg_max_results options) [] (glob_entries v))))"

section \<open>Commands and processes\<close>

definition msg_environment_overrides :: string where
  "msg_environment_overrides =
     ''environment overrides are not allowed for allowlisted direct programs''"

definition ve_run_shell :: "virtual_env \<Rightarrow> shell_command \<Rightarrow> shell_output env_result" where
  "ve_run_shell v command =
     (if \<not> permits_shell (ep_shell (ve_policy v)) then Err (EnvAccessDenied (sc_command command))
      else case map_of (ve_shell_outputs v) (sc_command command) of
             Some out \<Rightarrow> Ok out | None \<Rightarrow> Err (EnvNotFound (sc_command command)))"

definition ve_run_program ::
    "(string \<Rightarrow> string) \<Rightarrow> virtual_env \<Rightarrow> program_command \<Rightarrow> shell_output env_result" where
  "ve_run_program debug_str v command =
     (let display = display_command debug_str command in
      if \<not> permits_program (ep_shell (ve_policy v)) (pc_program command)
      then Err (EnvAccessDenied display)
      else if pc_environment command \<noteq> [] \<and> \<not> permits_environment_overrides (ep_shell (ve_policy v))
      then Err (EnvInvalidRequest msg_environment_overrides)
      else case map_of (ve_shell_outputs v) display of
             Some out \<Rightarrow> Ok out | None \<Rightarrow> Err (EnvNotFound display))"

definition insert_virtual_process ::
    "virtual_env \<Rightarrow> string \<Rightarrow> metadata \<Rightarrow> shell_process_snapshot env_result \<times> virtual_env" where
  "insert_virtual_process v command metadata =
     (let process_id = ''process_'' @ nat_to_string (length (ve_processes v) + 1);
          snapshot = \<lparr>ps_process_id = process_id, ps_command = command, ps_status = ProcRunning,
                      ps_stdout = [], ps_stderr = [], ps_return_code = None, ps_metadata = metadata\<rparr>
      in (Ok snapshot, v\<lparr>ve_processes := bt_insert process_id snapshot (ve_processes v)\<rparr>))"

definition ve_start_process ::
    "virtual_env \<Rightarrow> shell_command \<Rightarrow> shell_process_snapshot env_result \<times> virtual_env" where
  "ve_start_process v command =
     (if \<not> permits_shell (ep_shell (ve_policy v)) then (Err (EnvAccessDenied (sc_command command)), v)
      else insert_virtual_process v (sc_command command) (shell_process_metadata command))"

definition ve_start_program ::
    "(string \<Rightarrow> string) \<Rightarrow> virtual_env \<Rightarrow> program_command \<Rightarrow> shell_process_snapshot env_result \<times> virtual_env" where
  "ve_start_program debug_str v command =
     (if \<not> permits_program (ep_shell (ve_policy v)) (pc_program command)
      then (Err (EnvAccessDenied (display_command debug_str command)), v)
      else if pc_environment command \<noteq> [] \<and> \<not> permits_environment_overrides (ep_shell (ve_policy v))
      then (Err (EnvInvalidRequest msg_environment_overrides), v)
      else insert_virtual_process v (display_command debug_str command) (program_process_metadata command))"

definition ve_wait_process :: "virtual_env \<Rightarrow> string \<Rightarrow> shell_process_snapshot env_result" where
  "ve_wait_process v process_id =
     (case map_of (ve_processes v) process_id of
        Some p \<Rightarrow> Ok p | None \<Rightarrow> Err (EnvNotFound process_id))"

definition ve_list_processes :: "virtual_env \<Rightarrow> shell_process_snapshot list env_result" where
  "ve_list_processes v = Ok (bt_values (ve_processes v))"

definition modify_process ::
    "(shell_process_snapshot \<Rightarrow> shell_process_snapshot) \<Rightarrow> virtual_env \<Rightarrow> string
     \<Rightarrow> shell_process_snapshot env_result \<times> virtual_env" where
  "modify_process f v process_id =
     (case map_of (ve_processes v) process_id of
        None \<Rightarrow> (Err (EnvNotFound process_id), v)
      | Some p \<Rightarrow> (Ok (f p), v\<lparr>ve_processes := bt_insert process_id (f p) (ve_processes v)\<rparr>))"

definition ve_input_process ::
    "virtual_env \<Rightarrow> string \<Rightarrow> string \<Rightarrow> bool \<Rightarrow> shell_process_snapshot env_result \<times> virtual_env" where
  "ve_input_process v process_id text close_stdin =
     modify_process
       (\<lambda>p. p\<lparr>ps_metadata := bt_insert ''close_stdin'' (JBool close_stdin)
                (bt_insert ''last_input'' (JString text) (ps_metadata p))\<rparr>) v process_id"

definition int_to_string :: "int \<Rightarrow> string" where
  "int_to_string i = (if i < 0 then ''-'' @ nat_to_string (nat (- i)) else nat_to_string (nat i))"

definition ve_signal_process ::
    "virtual_env \<Rightarrow> string \<Rightarrow> int \<Rightarrow> shell_process_snapshot env_result \<times> virtual_env" where
  "ve_signal_process v process_id signal =
     modify_process
       (\<lambda>p. p\<lparr>ps_metadata := bt_insert ''last_signal'' (JNumber (int_to_string signal)) (ps_metadata p)\<rparr>)
       v process_id"

definition ve_kill_process ::
    "virtual_env \<Rightarrow> string \<Rightarrow> shell_process_snapshot env_result \<times> virtual_env" where
  "ve_kill_process v process_id = modify_process (\<lambda>p. p\<lparr>ps_status := ProcKilled\<rparr>) v process_id"

definition ve_export_state :: "virtual_env \<Rightarrow> environment_state" where
  "ve_export_state v =
     \<lparr>es_provider_id = ve_id v, es_files = ve_files v, es_resources = ve_resources v,
      es_processes = bt_values (ve_processes v),
      es_metadata = [(''provider_kind'', JString ''virtual'')]\<rparr>"

end
