(* ===== verification/Virtual_Files.thy ===== *)
theory Virtual_Files
  imports Virtual_Environment "HOL-Library.Multiset"
begin

text \<open>
  What the operations of the virtual provider do to its files: the store stays well formed, a
  policy confines every change to the paths it permits (and to the scratch directory), copying and
  moving a tree relocate exactly its entries, and a bounded listing is the head of the full one.
\<close>

section \<open>Vocabulary\<close>

definition ve_wf :: "virtual_env \<Rightarrow> bool" where
  "ve_wf v \<longleftrightarrow> bt_wf (ve_files v) \<and> bt_wf (ve_binary_files v) \<and> bt_wf (ve_directories v)"

definition file_at :: "virtual_env \<Rightarrow> string \<Rightarrow> string option \<times> string option" where
  "file_at v p = (map_of (ve_files v) p, map_of (ve_binary_files v) p)"

definition dir_at :: "virtual_env \<Rightarrow> string \<Rightarrow> bool" where
  "dir_at v p \<longleftrightarrow> bt_contains (ve_directories v) p"

datatype env_op =
    WriteText string string
  | CreateDir string bool
  | DeletePath string bool
  | CopyPath string string bool
  | MovePath string string bool
  | WriteScratchFile string string
  | StartProcess shell_command
  | KillProcess string

fun ve_exec :: "env_op \<Rightarrow> virtual_env \<Rightarrow> virtual_env" where
  "ve_exec (WriteText p c) v = snd (ve_write_text v p c)"
| "ve_exec (CreateDir p parents) v = snd (ve_create_dir v p parents)"
| "ve_exec (DeletePath p recursive) v = snd (ve_delete_path v p recursive)"
| "ve_exec (CopyPath s d overwrite) v = snd (ve_copy_path v s d overwrite)"
| "ve_exec (MovePath s d overwrite) v = snd (ve_move_path v s d overwrite)"
| "ve_exec (WriteScratchFile f c) v = snd (ve_write_scratch_file v f c)"
| "ve_exec (StartProcess c) v = snd (ve_start_process v c)"
| "ve_exec (KillProcess i) v = snd (ve_kill_process v i)"

definition ve_run :: "env_op list \<Rightarrow> virtual_env \<Rightarrow> virtual_env" where
  "ve_run ops v = foldl (\<lambda>v op. ve_exec op v) v ops"

section \<open>Ordered maps under bulk changes\<close>

lemma bt_wf_retain [simp]: "bt_wf m \<Longrightarrow> bt_wf (retain_outside p pre m)"
  by (induction m) (auto simp: bt_wf_def retain_outside_def)

lemma map_of_retain [simp]:
  "map_of (retain_outside p pre m) k = (if k \<noteq> p \<and> \<not> prefix pre k then map_of m k else None)"
  by (induction m) (auto simp: retain_outside_def)

lemma bt_wf_fold_insert:
  "bt_wf m \<Longrightarrow> bt_wf (foldl (\<lambda>m e. bt_insert (f e) (g e) m) m es)"
  by (induction es arbitrary: m) auto

lemma bt_contains_fold_insert:
  "bt_contains (foldl (\<lambda>m e. bt_insert (f e) (g e) m) m es) k \<longleftrightarrow> bt_contains m k \<or> k \<in> f ` set es"
  by (induction es arbitrary: m) auto

lemma map_of_fold_insert:
  "map_of (foldl (\<lambda>m e. bt_insert (f e) (g e) m) m es) =
     map_of m ++ map_of (rev (map (\<lambda>e. (f e, g e)) es))"
  by (induction es arbitrary: m) (auto simp: map_add_def fun_eq_iff split: option.splits)

lemma map_of_fold_insert_fixed:
  assumes "\<And>e. e \<in> set es \<Longrightarrow> f e = k \<Longrightarrow> map_of m k = Some (g e)"
  shows "map_of (foldl (\<lambda>m e. bt_insert (f e) (g e) m) m es) k = map_of m k"
proof (cases "map_of (rev (map (\<lambda>e. (f e, g e)) es)) k")
  case (Some w)
  then obtain e where "e \<in> set es" "f e = k" "g e = w"
    by (auto dest!: map_of_SomeD)
  with assms Some show ?thesis by (auto simp: map_of_fold_insert)
qed (simp add: map_of_fold_insert map_add_def)

section \<open>Elimination of the operations\<close>

lemma check_file_Ok_iff:
  "check_file v p w = Ok u \<longleftrightarrow> is_scratch_path p \<or> file_permits (ep_files (ve_policy v)) p w"
  by (auto simp: check_file_def)

definition writable :: "virtual_env \<Rightarrow> string \<Rightarrow> bool" where
  "writable v p \<longleftrightarrow> is_scratch_path p \<or> file_permits (ep_files (ve_policy v)) p True"

lemma ve_delete_path_cases:
  obtains (failed) e where "ve_delete_path v path recursive = (Err e, v)"
  | (text_file) n where "normalize_requested_path path = Ok n" "writable v n"
      "ve_delete_path v path recursive = (Ok (), v\<lparr>ve_files := bt_remove n (ve_files v)\<rparr>)"
  | (binary_file) n where "normalize_requested_path path = Ok n" "writable v n"
      "ve_delete_path v path recursive = (Ok (), v\<lparr>ve_binary_files := bt_remove n (ve_binary_files v)\<rparr>)"
  | (tree) n pre where "normalize_requested_path path = Ok n" "writable v n"
      "pre = trim_end_char slash n @ ''/''"
      "ve_delete_path v path recursive =
        (Ok (), v\<lparr>ve_files := retain_outside n pre (ve_files v),
                  ve_binary_files := retain_outside n pre (ve_binary_files v),
                  ve_directories := retain_outside n pre (ve_directories v)\<rparr>)"
proof -
  consider e where "normalize_requested_path path = Err e"
    | n where "normalize_requested_path path = Ok n" "\<not> writable v n"
    | n where "normalize_requested_path path = Ok n" "writable v n"
    by (cases "normalize_requested_path path")
      (auto simp: normalize_requested_path_total split: if_splits)
  then show ?thesis
  proof cases
    case 1
    then show ?thesis by (intro failed) (simp add: ve_delete_path_def)
  next
    case 2
    then show ?thesis by (intro failed) (simp add: ve_delete_path_def check_file_def writable_def)
  next
    case (3 n)
    note del = ve_delete_path_def [of v path recursive]
    have ok: "check_file v n True = Ok ()" using 3 by (simp add: check_file_def writable_def)
    define pre where "pre = trim_end_char slash n @ ''/''"
    show ?thesis
    proof (cases "bt_contains (ve_files v) n")
      case True
      then show ?thesis by (intro text_file [OF 3]) (simp add: del 3 ok)
    next
      case no_text: False
      show ?thesis
      proof (cases "bt_contains (ve_binary_files v) n")
        case True
        then show ?thesis using no_text by (intro binary_file [OF 3]) (simp add: del 3 ok)
      next
        case False
        show ?thesis
        proof (cases "fst (ve_delete_path v path recursive) = Ok ()")
          case True
          then show ?thesis using no_text False
            by (intro tree [OF 3 pre_def]) (auto simp: del 3 ok pre_def Let_def split: if_splits)
        next
          case err: False
          then have "\<exists>e. ve_delete_path v path recursive = (Err e, v)"
            using no_text False by (auto simp: del 3 ok Let_def split: if_splits)
          then show ?thesis using failed by blast
        qed
      qed
    qed
  qed
qed

lemma copy_content_cases:
  obtains (missing) e where "copy_content v src dst = (Err e, v)"
  | (text_file) c where "map_of (ve_files v) src = Some c"
      "copy_content v src dst =
        (Ok (), v\<lparr>ve_files := bt_insert dst c (ve_files v),
                  ve_binary_files := bt_remove dst (ve_binary_files v)\<rparr>)"
  | (binary_file) c where "map_of (ve_files v) src = None" "map_of (ve_binary_files v) src = Some c"
      "copy_content v src dst =
        (Ok (), v\<lparr>ve_binary_files := bt_insert dst c (ve_binary_files v),
                  ve_files := bt_remove dst (ve_files v)\<rparr>)"
  | (tree) pre where "map_of (ve_files v) src = None" "map_of (ve_binary_files v) src = None"
      "pre = trim_end_char slash src @ ''/''"
      "copy_content v src dst =
        (Ok (), v\<lparr>ve_directories :=
                    foldl (\<lambda>d p. bt_insert (replace_logical_prefix p src dst) () d)
                      (ve_directories v) (filter (\<lambda>p. p = src \<or> prefix pre p) (all_dir_keys v)),
                  ve_files :=
                    foldl (\<lambda>m e. bt_insert (replace_logical_prefix (fst e) src dst) (snd e) m)
                      (ve_files v) (filter (\<lambda>e. prefix pre (fst e)) (ve_files v)),
                  ve_binary_files :=
                    foldl (\<lambda>m e. bt_insert (replace_logical_prefix (fst e) src dst) (snd e) m)
                      (ve_binary_files v) (filter (\<lambda>e. prefix pre (fst e)) (ve_binary_files v))\<rparr>)"
proof (cases "map_of (ve_files v) src")
  case (Some c)
  then show ?thesis by (intro text_file) (simp_all add: copy_content_def)
next
  case no_text: None
  show ?thesis
  proof (cases "map_of (ve_binary_files v) src")
    case (Some c)
    then show ?thesis using no_text by (intro binary_file) (simp_all add: copy_content_def)
  next
    case None
    show ?thesis
    proof (cases "fst (copy_content v src dst) = Ok ()")
      case True
      then show ?thesis using no_text None
        by (intro tree [OF no_text None refl]) (simp add: copy_content_def Let_def split: if_splits)
    next
      case False
      then have "\<exists>e. copy_content v src dst = (Err e, v)"
        using no_text None by (simp add: copy_content_def Let_def split: if_splits)
      then show ?thesis using missing by blast
    qed
  qed
qed

lemma transfer_guard_Ok:
  assumes "transfer_guard v src dst w ov = Ok (s, d)"
  shows "normalize_requested_path src = Ok s" and "normalize_requested_path dst = Ok d"
    and "check_file v s w = Ok ()" and "writable v d" and "s \<noteq> d"
    and "ov \<or> \<not> path_exists_unchecked v d"
  using assms
  by (auto simp: transfer_guard_def ensure_virtual_destination_def check_file_Ok_iff writable_def
      split: result.splits if_splits)

lemma transfer_guard_no_panic: "transfer_guard v src dst w ov \<noteq> Panic"
  by (auto simp: transfer_guard_def normalize_requested_path_total check_file_def
      ensure_virtual_destination_def split: result.splits if_splits)

lemma ve_delete_path_no_panic: "fst (ve_delete_path v p r) \<noteq> Panic"
  by (cases rule: ve_delete_path_cases [of v p r]) simp_all

lemma copy_content_no_panic: "fst (copy_content v s d) \<noteq> Panic"
  by (cases rule: copy_content_cases [of v s d]) simp_all

lemma ve_copy_path_cases:
  obtains (failed) e where "ve_copy_path v src dst ov = (Err e, v)"
  | (fresh) s d where "transfer_guard v src dst False ov = Ok (s, d)"
      "ve_copy_path v src dst ov = copy_content v s d"
  | (undeleted) s d e v1 where "transfer_guard v src dst False ov = Ok (s, d)"
      "ve_delete_path v d True = (Err e, v1)" "ve_copy_path v src dst ov = (Err e, v1)"
  | (replaced) s d v1 where "transfer_guard v src dst False ov = Ok (s, d)"
      "ve_delete_path v d True = (Ok (), v1)" "ve_copy_path v src dst ov = copy_content v1 s d"
proof (cases "transfer_guard v src dst False ov")
  case (Ok sd)
  obtain s d where sd: "sd = (s, d)" by (cases sd)
  show ?thesis
  proof (cases "ov \<and> path_exists_unchecked v d")
    case True
    obtain r v1 where del: "ve_delete_path v d True = (r, v1)" by (cases "ve_delete_path v d True")
    show ?thesis
    proof (cases r)
      case (Ok u)
      with del True sd \<open>transfer_guard v src dst False ov = Ok sd\<close> show ?thesis
        by (intro replaced [of s d v1]) (simp_all add: ve_copy_path_def)
    next
      case (Err e)
      with del True sd \<open>transfer_guard v src dst False ov = Ok sd\<close> show ?thesis
        by (intro undeleted [of s d e v1]) (simp_all add: ve_copy_path_def)
    next
      case Panic
      then show ?thesis using ve_delete_path_no_panic [of v d True] del by simp
    qed
  next
    case False
    with Ok sd show ?thesis by (intro fresh [of s d]) (auto simp: ve_copy_path_def)
  qed
next
  case (Err e)
  then show ?thesis by (intro failed) (simp add: ve_copy_path_def)
qed (simp add: transfer_guard_no_panic)

lemma ve_move_path_cases:
  obtains (failed) e where "ve_move_path v src dst ov = (Err e, v)"
  | (uncopied) s d e v1 where "transfer_guard v src dst True ov = Ok (s, d)"
      "ve_copy_path v s d ov = (Err e, v1)" "ve_move_path v src dst ov = (Err e, v1)"
  | (copied) s d v1 where "transfer_guard v src dst True ov = Ok (s, d)"
      "ve_copy_path v s d ov = (Ok (), v1)" "ve_move_path v src dst ov = ve_delete_path v1 s True"
proof (cases "transfer_guard v src dst True ov")
  case (Ok sd)
  obtain s d where sd: "sd = (s, d)" by (cases sd)
  obtain r v1 where copy: "ve_copy_path v s d ov = (r, v1)" by (cases "ve_copy_path v s d ov")
  have "r \<noteq> Panic"
    using copy copy_content_no_panic
    by (cases rule: ve_copy_path_cases [of v s d ov]) (auto simp: prod_eq_iff)
  then show ?thesis
  proof (cases r)
    case (Ok u)
    with copy sd \<open>transfer_guard v src dst True ov = Ok sd\<close> show ?thesis
      by (intro copied [of s d v1]) (simp_all add: ve_move_path_def)
  next
    case (Err e)
    with copy sd \<open>transfer_guard v src dst True ov = Ok sd\<close> show ?thesis
      by (intro uncopied [of s d e v1]) (simp_all add: ve_move_path_def)
  qed simp
next
  case (Err e)
  then show ?thesis by (intro failed) (simp add: ve_move_path_def)
qed (simp add: transfer_guard_no_panic)

section \<open>The store stays well formed\<close>

lemma ve_wf_new: "ve_wf (virtual_new i)"
  by (simp add: ve_wf_def virtual_new_def)

lemma ve_wf_delete: "ve_wf v \<Longrightarrow> ve_wf (snd (ve_delete_path v p r))"
  by (cases rule: ve_delete_path_cases [of v p r]) (simp_all add: ve_wf_def)

lemma ve_wf_copy_content: "ve_wf v \<Longrightarrow> ve_wf (snd (copy_content v s d))"
  by (cases rule: copy_content_cases [of v s d]) (simp_all add: ve_wf_def bt_wf_fold_insert)

lemma ve_wf_copy: "ve_wf v \<Longrightarrow> ve_wf (snd (ve_copy_path v s d ov))"
  using ve_wf_delete [of v _ True] ve_wf_copy_content
  by (cases rule: ve_copy_path_cases [of v s d ov]) (metis snd_conv)+

lemma ve_wf_move: "ve_wf v \<Longrightarrow> ve_wf (snd (ve_move_path v s d ov))"
  using ve_wf_copy [of v _ _ ov] ve_wf_delete
  by (cases rule: ve_move_path_cases [of v s d ov]) (metis snd_conv)+

lemma ve_wf_exec: "ve_wf v \<Longrightarrow> ve_wf (ve_exec op v)"
proof (cases op)
  case (CreateDir p parents)
  assume "ve_wf v"
  with CreateDir show ?thesis
    by (auto simp: ve_create_dir_def insert_directory_ancestors_def ve_wf_def bt_wf_fold_insert
        split: result.splits option.splits)
qed (auto simp: ve_wf_delete ve_wf_copy ve_wf_move ve_write_text_def ve_write_scratch_file_def
    ve_start_process_def insert_virtual_process_def ve_kill_process_def modify_process_def Let_def
    split: result.splits option.splits, auto simp: ve_wf_def)

lemma ve_policy_delete [simp]: "ve_policy (snd (ve_delete_path v p r)) = ve_policy v"
  by (cases rule: ve_delete_path_cases [of v p r]) simp_all

lemma ve_policy_copy_content [simp]: "ve_policy (snd (copy_content v s d)) = ve_policy v"
  by (cases rule: copy_content_cases [of v s d]) simp_all

lemma ve_policy_copy [simp]: "ve_policy (snd (ve_copy_path v s d ov)) = ve_policy v"
  using ve_policy_delete [of v _ True] ve_policy_copy_content
  by (cases rule: ve_copy_path_cases [of v s d ov]) (metis snd_conv)+

lemma ve_policy_move [simp]: "ve_policy (snd (ve_move_path v s d ov)) = ve_policy v"
  using ve_policy_copy [of v _ _ ov] ve_policy_delete
  by (cases rule: ve_move_path_cases [of v s d ov]) (metis snd_conv)+

lemma ve_policy_exec: "ve_policy (ve_exec op v) = ve_policy v"
  by (cases op)
    (auto simp: ve_create_dir_def insert_directory_ancestors_def ve_write_text_def
      ve_write_scratch_file_def ve_start_process_def insert_virtual_process_def ve_kill_process_def
      modify_process_def Let_def split: result.splits option.splits)

section \<open>A policy confines every change\<close>

text \<open>
  The permitted prefixes are read as directory names: none is empty, the root, or written with a
  trailing separator.
\<close>

definition policy_ok :: "file_policy \<Rightarrow> bool" where
  "policy_ok p \<longleftrightarrow>
     (\<forall>pre \<in> set (fp_allowed_prefixes p). pre \<noteq> [] \<and> pre \<noteq> ''.'' \<and> last pre \<noteq> slash)"

lemma trim_end_prefix:
  assumes "pre \<noteq> []" and "last pre \<noteq> c" and "prefix pre d"
  obtains y where "trim_end_char c d = pre @ y" and "prefix (pre @ y) d"
proof -
  obtain n where n: "d = trim_end_char c d @ replicate n c" using trim_end_char_split by blast
  have "prefix pre (trim_end_char c d)"
  proof (rule ccontr)
    assume no: "\<not> prefix pre (trim_end_char c d)"
    have "prefix (trim_end_char c d) d" by (subst (2) n) simp
    with assms(3) no have "strict_prefix (trim_end_char c d) pre"
      by (metis prefix_same_cases strict_prefix_def)
    then obtain z where z: "pre = trim_end_char c d @ z" "z \<noteq> []"
      by (auto simp: strict_prefix_def prefix_def)
    then have "prefix z (replicate n c)"
      using assms(3) n by (metis same_prefix_prefix)
    then have "last z \<in> {c}"
      using z(2) by (metis in_set_replicate last_in_set set_mono_prefix singletonI subset_code(1))
    with z assms(2) show False by simp
  qed
  then show thesis using that n by (metis prefixE prefixI)
qed

lemma path_under_trim:
  assumes "pre \<noteq> []" and "last pre \<noteq> slash" and "d = pre \<or> prefix (pre @ ''/'') d"
  shows "prefix (pre @ ''/'') (trim_end_char slash d @ ''/'' @ r)"
proof -
  have "prefix pre d" using assms(3) by (auto simp: prefix_def)
  from trim_end_prefix [OF assms(1,2) this] obtain y where
    y: "trim_end_char slash d = pre @ y" "prefix (pre @ y) d" .
  have "y = [] \<or> prefix ''/'' y"
    using y(2) assms(3) by (cases y) (auto simp: prefix_def)
  then show ?thesis using y(1) by (auto simp: prefix_def)
qed

lemma trim_start_char_replicate: "\<exists>n. s = replicate n c @ trim_start_char c s"
proof (induction s)
  case (Cons x s)
  then obtain n where n: "s = replicate n c @ trim_start_char c s" ..
  show ?case
  proof (cases "x = c")
    case True
    then have "x # s = replicate (Suc n) c @ trim_start_char c (x # s)"
      using n by (simp add: trim_start_char_def)
    then show ?thesis ..
  qed (simp add: trim_start_char_def exI [of _ 0])
qed (simp add: trim_start_char_def)

lemma normalize_lead:
  assumes "lead = ''./'' @ replicate n slash \<or> lead = replicate n slash"
  shows "normalize_str_path (lead @ default_scratch_dir @ t) = default_scratch_dir @ forward_slashes t"
proof -
  have fwd: "forward_slashes (replicate n slash) = replicate n slash"
    "forward_slashes default_scratch_dir = default_scratch_dir"
    by (simp_all add: forward_slashes_def default_scratch_dir_def)
  have trim: "trim_start_char slash (replicate n slash @ default_scratch_dir @ u) = default_scratch_dir @ u" for u
    by (induction n) (simp_all add: trim_start_char_def default_scratch_dir_def)
  have "\<not> prefix ''./'' (replicate n slash @ default_scratch_dir @ u)" for u
    by (cases n) (simp_all add: default_scratch_dir_def)
  then show ?thesis
    using assms by (auto simp: normalize_str_path_def Let_def str_strip_prefix_def fwd trim)
qed

lemma scratch_lead:
  assumes "backslash \<notin> set d" and "is_scratch_path d"
  obtains lead n y where "lead = ''./'' @ replicate n slash \<or> lead = replicate n slash"
    "d = lead @ default_scratch_dir @ y" "y = [] \<or> prefix ''/'' y"
proof -
  obtain y where y: "normalize_str_path d = default_scratch_dir @ y" "y = [] \<or> prefix ''/'' y"
    using assms(2) by (auto simp: is_scratch_path_def Let_def prefix_def)
  have fwd: "forward_slashes d = d" using assms(1) by (rule forward_slashes_id)
  show thesis
  proof (cases d rule: normalize_str_path_cases)
    case (1 r)
    obtain n where "r = replicate n slash @ default_scratch_dir @ y"
      using trim_start_char_replicate [of r slash] 1(2) y(1) by auto
    then show thesis using that [of "''./'' @ replicate n slash" n y] 1(1) fwd y(2) by simp
  next
    case 2
    obtain n where "d = replicate n slash @ default_scratch_dir @ y"
      using trim_start_char_replicate [of d slash] 2(2) fwd y(1) by auto
    then show thesis using that [of "replicate n slash" n y] y(2) by simp
  qed
qed

lemma scratch_below:
  assumes "backslash \<notin> set d" and "is_scratch_path d"
  shows "is_scratch_path (trim_end_char slash d @ ''/'' @ r)"
proof -
  obtain lead n y where lead: "lead = ''./'' @ replicate n slash \<or> lead = replicate n slash"
    and d: "d = lead @ default_scratch_dir @ y" and y: "y = [] \<or> prefix ''/'' y"
    using scratch_lead [OF assms] by blast
  let ?pre = "lead @ default_scratch_dir"
  have pre: "?pre \<noteq> []" "last ?pre \<noteq> slash" by (simp_all add: default_scratch_dir_def)
  have "prefix (?pre @ ''/'') (trim_end_char slash d @ ''/'' @ r)"
    using y by (intro path_under_trim [OF pre]) (auto simp: d prefix_def)
  then obtain t where "trim_end_char slash d @ ''/'' @ r = lead @ default_scratch_dir @ ''/'' @ t"
    by (auto simp: prefix_def)
  then have "normalize_str_path (trim_end_char slash d @ ''/'' @ r) =
      default_scratch_dir @ ''/'' @ forward_slashes t"
    using normalize_lead [OF lead, of "''/'' @ t"] by simp
  then show ?thesis by (simp add: is_scratch_path_def Let_def)
qed

lemma not_scratch_short: "\<not> is_scratch_path []" "\<not> is_scratch_path ''.''"
  by (simp_all add: is_scratch_path_def normalize_str_path_def default_scratch_dir_def Let_def
      str_strip_prefix_def trim_start_char_def)

lemma writable_below:
  assumes "policy_ok (ep_files (ve_policy v))" and "writable v d" and "backslash \<notin> set d"
  shows "writable v (trim_end_char slash d @ ''/'' @ r)" and "writable v (join_logical_path d r)"
proof -
  let ?pol = "ep_files (ve_policy v)"
  have all: "writable v q" if "fp_allowed_prefixes ?pol = []" "\<not> is_scratch_path d" for q
    using assms(2) that by (auto simp: writable_def file_permits_def split: if_splits)
  have main: "writable v (trim_end_char slash d @ ''/'' @ r)"
    if ne: "fp_allowed_prefixes ?pol \<noteq> [] \<or> is_scratch_path d"
  proof (cases "is_scratch_path d")
    case True
    then show ?thesis using scratch_below [OF assms(3)] by (simp add: writable_def)
  next
    case False
    then obtain pre where "pre \<in> set (fp_allowed_prefixes ?pol)"
      "d = pre \<or> prefix (pre @ ''/'') d" and w: "fp_allow_write ?pol"
      using assms(2) ne by (auto simp: writable_def file_permits_def split: if_splits)
    moreover from this have "prefix (pre @ ''/'') (trim_end_char slash d @ ''/'' @ r)"
      using assms(1) by (intro path_under_trim) (auto simp: policy_ok_def)
    ultimately show ?thesis by (auto simp: writable_def file_permits_def)
  qed
  show "writable v (trim_end_char slash d @ ''/'' @ r)" using main all by blast
  moreover have "writable v r" if "d = [] \<or> d = ''.''"
  proof -
    have "\<not> is_scratch_path d" using that not_scratch_short by auto
    moreover from this have "fp_allowed_prefixes ?pol = []"
      using assms(1,2) that
      by (auto simp: writable_def file_permits_def policy_ok_def prefix_def Cons_eq_append_conv split: if_splits)
    ultimately show ?thesis using all by blast
  qed
  ultimately show "writable v (join_logical_path d r)" by (simp add: join_logical_path_def)
qed

lemma replace_logical_prefix_cases:
  "replace_logical_prefix k s d = d \<or> (\<exists>r. replace_logical_prefix k s d = join_logical_path d r)
     \<or> replace_logical_prefix k s d = k"
  by (auto simp: replace_logical_prefix_def split: option.splits)

lemma requested_no_backslash: "normalize_requested_path p = Ok q \<Longrightarrow> backslash \<notin> set q"
  by (simp add: normalize_requested_path_Ok_iff normalize_str_path_no_backslash)

definition kept :: "virtual_env \<Rightarrow> virtual_env \<Rightarrow> string \<Rightarrow> bool" where
  "kept v v' p \<longleftrightarrow> file_at v' p = file_at v p \<and> (dir_at v p \<longrightarrow> dir_at v' p)"

lemma kept_refl [simp]: "kept v v p"
  by (simp add: kept_def)

lemma kept_trans: "kept v v1 p \<Longrightarrow> kept v1 v2 p \<Longrightarrow> kept v v2 p"
  by (simp add: kept_def)

lemma delete_confined:
  assumes "policy_ok (ep_files (ve_policy v))" and "\<not> writable v p"
  shows "kept v (snd (ve_delete_path v path recursive)) p"
proof (cases rule: ve_delete_path_cases [of v path recursive])
  case (tree n pre)
  have "p \<noteq> n" "\<not> prefix pre p"
    using assms(2) tree(1-3) writable_below(1) [OF assms(1) tree(2) requested_no_backslash [OF tree(1)]]
    by (auto simp: prefix_def)
  then show ?thesis by (simp add: tree kept_def file_at_def dir_at_def bt_contains_def)
qed (use assms(2) in \<open>auto simp: kept_def file_at_def dir_at_def\<close>)

lemma copy_content_confined:
  assumes "policy_ok (ep_files (ve_policy v))" and "\<not> writable v p" and "ve_wf v"
    and "writable v d" and "backslash \<notin> set d"
  shows "kept v (snd (copy_content v s d)) p"
proof (cases rule: copy_content_cases [of v s d])
  case (tree pre)
  have same: "replace_logical_prefix k s d = p \<Longrightarrow> k = p" for k
    using replace_logical_prefix_cases [of k s d] writable_below(2) [OF assms(1,4,5)] assms(2,4) by metis
  have "map_of (foldl (\<lambda>m e. bt_insert (replace_logical_prefix (fst e) s d) (snd e) m) m
      (filter (\<lambda>e. prefix pre (fst e)) m)) p = map_of m p" if wf: "bt_wf m" for m :: "(string, string) btmap"
  proof (rule map_of_fold_insert_fixed)
    fix e
    assume "e \<in> set (filter (\<lambda>e. prefix pre (fst e)) m)" "replace_logical_prefix (fst e) s d = p"
    then have "e \<in> set m" "fst e = p" using same [of "fst e"] by simp_all
    then show "map_of m p = Some (snd e)" using wf by (metis bt_wf_map_of_iff prod.collapse)
  qed
  then show ?thesis
    using assms(3) by (auto simp: tree kept_def file_at_def dir_at_def ve_wf_def bt_contains_fold_insert)
qed (use assms(2,4) in \<open>auto simp: kept_def file_at_def dir_at_def\<close>)

lemma copy_confined:
  assumes "policy_ok (ep_files (ve_policy v))" and "\<not> writable v p" and "ve_wf v"
  shows "kept v (snd (ve_copy_path v src dst ov)) p"
proof (cases rule: ve_copy_path_cases [of v src dst ov])
  case (fresh s d)
  then show ?thesis
    using copy_content_confined [OF assms] transfer_guard_Ok(2,4) [OF fresh(1)] requested_no_backslash
    by simp
next
  case (undeleted s d e v1)
  then show ?thesis using delete_confined [OF assms(1,2), of d True] by simp
next
  case (replaced s d v1)
  have v1: "v1 = snd (ve_delete_path v d True)" using replaced(2) by simp
  then have pol: "ve_policy v1 = ve_policy v" by simp
  have "kept v1 (snd (copy_content v1 s d)) p"
    using assms(1,2) transfer_guard_Ok(2,4) [OF replaced(1)] requested_no_backslash
      ve_wf_delete [OF assms(3), of d True]
    by (intro copy_content_confined) (auto simp: pol writable_def v1 [symmetric])
  then show ?thesis
    using delete_confined [OF assms(1,2), of d True] kept_trans by (auto simp: replaced(3) v1 [symmetric])
qed simp

lemma move_confined:
  assumes "policy_ok (ep_files (ve_policy v))" and "\<not> writable v p" and "ve_wf v"
  shows "kept v (snd (ve_move_path v src dst ov)) p"
proof (cases rule: ve_move_path_cases [of v src dst ov])
  case (uncopied s d e v1)
  then show ?thesis using copy_confined [OF assms, of s d ov] by simp
next
  case (copied s d v1)
  have v1: "v1 = snd (ve_copy_path v s d ov)" using copied(2) by simp
  have "kept v1 (snd (ve_delete_path v1 s True)) p"
    by (rule delete_confined) (use assms v1 in \<open>simp_all add: writable_def\<close>)
  then show ?thesis
    using copy_confined [OF assms, of s d ov] kept_trans by (auto simp: copied(3) v1 [symmetric])
qed simp

lemma kept_dirs:
  "(\<And>k. bt_contains (ve_directories v) k \<Longrightarrow> bt_contains D k) \<Longrightarrow> kept v (v\<lparr>ve_directories := D\<rparr>) p"
  by (simp add: kept_def file_at_def dir_at_def)

lemma create_dir_confined: "kept v (snd (ve_create_dir v path parents)) p"
  unfolding ve_create_dir_def
  by (auto simp: insert_directory_ancestors_def bt_contains_fold_insert intro!: kept_dirs
      split: result.split option.split)

lemma scratch_file_path_scratch:
  assumes "scratch_file_path v f = Ok q"
  shows "is_scratch_path q"
proof -
  obtain rest where "q = default_scratch_dir @ ''/'' @ rest"
    using assms by (auto simp: scratch_file_path_def Let_def join_scratch split: result.splits)
  then show ?thesis by (simp only: scratch_dir_below)
qed

lemma exec_confined:
  assumes "policy_ok (ep_files (ve_policy v))" and "\<not> writable v p" and "ve_wf v"
  shows "kept v (ve_exec op v) p"
proof (cases op)
  case (WriteText q c)
  then show ?thesis
    using assms(2)
    by (auto simp: ve_write_text_def kept_def file_at_def dir_at_def check_file_Ok_iff writable_def
        split: result.splits)
next
  case (WriteScratchFile f c)
  then show ?thesis
    using assms(2) scratch_file_path_scratch [of v f]
    by (auto simp: ve_write_scratch_file_def kept_def file_at_def dir_at_def writable_def
        split: result.splits)
qed (auto simp: create_dir_confined delete_confined copy_confined move_confined assms
    ve_start_process_def insert_virtual_process_def ve_kill_process_def modify_process_def Let_def
    split: option.splits, auto simp: kept_def file_at_def dir_at_def)

text \<open>
  The interface the confinement of a session rests on: steps that keep a state in order, leave the
  set of writable paths alone and touch nothing outside it. It is what any provider under a policy promises.
\<close>

locale confined_steps =
  fixes step :: "'op \<Rightarrow> 's \<Rightarrow> 's" and in_order :: "'s \<Rightarrow> bool"
    and may_write :: "'s \<Rightarrow> 'p \<Rightarrow> bool" and same_at :: "'s \<Rightarrow> 's \<Rightarrow> 'p \<Rightarrow> bool"
  assumes step_in_order: "in_order s \<Longrightarrow> in_order (step op s)"
    and step_may_write: "may_write (step op s) p = may_write s p"
    and step_same_at: "in_order s \<Longrightarrow> \<not> may_write s p \<Longrightarrow> same_at s (step op s) p"
    and same_at_refl: "same_at s s p"
    and same_at_trans: "same_at s t p \<Longrightarrow> same_at t u p \<Longrightarrow> same_at s u p"
begin

lemma run_same_at:
  assumes "in_order s" and "\<not> may_write s p"
  shows "in_order (foldl (\<lambda>s op. step op s) s ops) \<and> same_at s (foldl (\<lambda>s op. step op s) s ops) p"
  using assms
proof (induction ops arbitrary: s)
  case (Cons op ops)
  then have "in_order (step op s)" "\<not> may_write (step op s) p" "same_at s (step op s) p"
    by (simp_all add: step_in_order step_may_write step_same_at)
  with Cons.IH [of "step op s"] show ?case by (auto intro: same_at_trans)
qed (simp add: same_at_refl)

end

interpretation env: confined_steps ve_exec
    "\<lambda>v. ve_wf v \<and> policy_ok (ep_files (ve_policy v))" writable kept
  by unfold_locales
    (auto simp: ve_wf_exec ve_policy_exec writable_def exec_confined intro: kept_trans)

lemma run_confined:
  assumes "policy_ok (ep_files (ve_policy v))" and "\<not> writable v p" and "ve_wf v"
  shows "ve_wf (ve_run ops v) \<and> kept v (ve_run ops v) p"
  using env.run_same_at [of v p ops] assms by (simp add: ve_run_def)

section \<open>Copying and moving a tree\<close>

definition plain_path :: "string \<Rightarrow> bool" where
  "plain_path p \<longleftrightarrow> p \<noteq> [] \<and> p \<noteq> ''.'' \<and> last p \<noteq> slash \<and> \<not> prefix ''./'' p"

definition is_file :: "virtual_env \<Rightarrow> string \<Rightarrow> bool" where
  "is_file v p \<longleftrightarrow> file_at v p \<noteq> (None, None)"

definition below :: "string \<Rightarrow> string \<Rightarrow> bool" where
  "below p q \<longleftrightarrow> q = p \<or> prefix (p @ ''/'') q"

text \<open>What a copy of \<open>s\<close> has at the position \<open>r\<close> below its root: a file is copied alone, a directory with its tree.\<close>

definition copied_at :: "virtual_env \<Rightarrow> string \<Rightarrow> string \<Rightarrow> string option \<times> string option" where
  "copied_at v s r =
     (if is_file v s then (if r = [] then file_at v s else (None, None))
      else if r = [] then (None, None) else file_at v (s @ r))"

lemma plain_join: "plain_path d \<Longrightarrow> join_logical_path d r = d @ ''/'' @ r"
  by (simp add: plain_path_def join_logical_path_def trim_end_char_id)

lemma plain_trim: "plain_path d \<Longrightarrow> trim_end_char slash d = d"
  by (simp add: plain_path_def trim_end_char_id)

lemma map_of_copy_subtree:
  fixes m :: "(string, 'v) btmap"
  assumes wf: "bt_wf m" and plain: "plain_path s" "plain_path d"
    and fresh: "\<forall>k. below d k \<longrightarrow> map_of m k = None"
    and m': "m' = foldl (\<lambda>m e. bt_insert (replace_logical_prefix (fst e) s d) (snd e) m) m
      (filter (\<lambda>e. prefix (s @ ''/'') (fst e)) m)"
  shows "map_of m' (d @ ''/'' @ r) = map_of m (s @ ''/'' @ r)"
    and "\<not> prefix (d @ ''/'') k \<Longrightarrow> map_of m' k = map_of m k"
proof -
  define es where "es = filter (\<lambda>e. prefix (s @ ''/'') (fst e)) m"
  define g where "g e = (replace_logical_prefix (fst e) s d, snd e)" for e :: "string \<times> 'v"
  have g: "g (s @ slash # t, w) = (d @ slash # t, w)" for t w
    using replace_logical_prefix_below [of s t d] plain_join [OF plain(2), of t] by (simp add: g_def)
  have in_es: "e \<in> set es \<longleftrightarrow> (\<exists>t w. e = (s @ ''/'' @ t, w) \<and> map_of m (s @ ''/'' @ t) = Some w)" for e
    using wf by (cases e) (auto simp: es_def bt_wf_map_of_iff prefix_def)
  have "inj_on (fst \<circ> g) (set es)"
    using in_es by (auto simp: inj_on_def g)
  moreover have "distinct es" using bt_wf_distinct [OF wf] by (simp add: es_def distinct_map)
  ultimately have dist: "distinct (map fst (rev (map g es)))"
    by (simp add: distinct_map rev_map [symmetric])
  have look: "map_of (rev (map g es)) k = Some w \<longleftrightarrow>
      (\<exists>t. k = d @ ''/'' @ t \<and> map_of m (s @ ''/'' @ t) = Some w)" for k w
  proof -
    have "map_of (rev (map g es)) k = Some w \<longleftrightarrow> (\<exists>e. e \<in> set es \<and> g e = (k, w))"
      unfolding map_of_eq_Some_iff [OF dist]
      by (simp only: set_rev set_map image_iff Bex_def eq_commute [of "(k, w)"])
    also have "\<dots> \<longleftrightarrow> (\<exists>t w'. map_of m (s @ slash # t) = Some w' \<and> g (s @ slash # t, w') = (k, w))"
      unfolding in_es by auto
    finally show ?thesis by (auto simp: g)
  qed
  have m'_eq: "map_of m' k = (case map_of (rev (map g es)) k of Some w \<Rightarrow> Some w | None \<Rightarrow> map_of m k)" for k
    unfolding m' es_def [symmetric] map_of_fold_insert g_def [symmetric] by (simp add: map_add_def)
  show "map_of m' (d @ ''/'' @ r) = map_of m (s @ ''/'' @ r)"
  proof (cases "map_of m (s @ ''/'' @ r)")
    case None
    then have "map_of (rev (map g es)) (d @ ''/'' @ r) = None"
      using look [of "d @ ''/'' @ r"] by (cases "map_of (rev (map g es)) (d @ ''/'' @ r)") auto
    then show ?thesis using None fresh by (simp add: m'_eq below_def)
  next
    case (Some w)
    then have "map_of (rev (map g es)) (d @ ''/'' @ r) = Some w" by (simp add: look)
    then show ?thesis using Some by (simp add: m'_eq)
  qed
  show "map_of m' k = map_of m k" if "\<not> prefix (d @ ''/'') k"
  proof -
    have "map_of (rev (map g es)) k = None"
      using look [of k] that by (cases "map_of (rev (map g es)) k") (auto simp: prefix_def)
    then show ?thesis by (simp add: m'_eq)
  qed
qed

lemma set_key_set: "fst ` set (key_set ks s) = set ks \<union> bt_keys s"
proof -
  have "bt_contains (key_set ks s) k \<longleftrightarrow> bt_contains s k \<or> k \<in> set ks" for k
    using bt_contains_fold_insert [of "\<lambda>k. k" "\<lambda>_. ()" s ks k] by (simp add: key_set_def)
  then show ?thesis by (auto simp: bt_contains_keys bt_keys_def)
qed

lemma set_all_file_keys: "set (all_file_keys v) = bt_keys (ve_files v) \<union> bt_keys (ve_binary_files v)"
  by (auto simp: all_file_keys_def set_key_set bt_keys_def)

lemma set_all_dir_keys: "set (all_dir_keys v) = bt_keys (ve_directories v)"
  by (simp add: all_dir_keys_def bt_keys_def)

lemma is_file_keys: "is_file v k \<longleftrightarrow> k \<in> bt_keys (ve_files v) \<union> bt_keys (ve_binary_files v)"
  by (auto simp: is_file_def file_at_def map_of_None_keys)

lemma absent_below:
  assumes "\<not> path_exists_unchecked v d" and "plain_path d" and "below d k"
  shows "map_of (ve_files v) k = None" and "map_of (ve_binary_files v) k = None" and "\<not> dir_at v k"
proof -
  have "d \<noteq> []" "trim_end_char slash d = d" using assms(2) by (simp_all add: plain_path_def plain_trim)
  then show "map_of (ve_files v) k = None" "map_of (ve_binary_files v) k = None" "\<not> dir_at v k"
    using assms(1,3) unfolding path_exists_unchecked_def Let_def set_all_file_keys set_all_dir_keys
    by (auto simp: below_def map_of_None_keys bt_contains_keys dir_at_def)
qed

definition one_kind :: "virtual_env \<Rightarrow> bool" where
  "one_kind v \<longleftrightarrow> bt_keys (ve_files v) \<inter> bt_keys (ve_binary_files v) = {}"

lemma one_kindD: "one_kind v \<Longrightarrow> map_of (ve_files v) p = Some c \<Longrightarrow> map_of (ve_binary_files v) p = None"
  by (auto simp: one_kind_def map_of_None_keys bt_keys_def dest!: map_of_SomeD)
    (metis disjoint_iff fst_conv image_eqI)

lemma copy_content_Ok:
  assumes "path_exists_unchecked v s" and "plain_path s"
  shows "fst (copy_content v s d) = Ok ()"
proof (cases "is_file v s")
  case True
  then show ?thesis
    by (cases rule: copy_content_cases [of v s d])
      (auto simp: copy_content_def is_file_def file_at_def split: option.splits)
next
  case False
  have s: "s \<noteq> []" "trim_end_char slash s = s" using assms(2) by (simp_all add: plain_path_def plain_trim)
  have none: "map_of (ve_files v) s = None" "map_of (ve_binary_files v) s = None"
    using False by (auto simp: is_file_def file_at_def)
  let ?pre = "s @ ''/''"
  have "s \<in> set (all_dir_keys v) \<or> (\<exists>k \<in> set (all_file_keys v). prefix ?pre k)
      \<or> (\<exists>k \<in> set (all_dir_keys v). prefix ?pre k)"
    using assms(1) none s unfolding path_exists_unchecked_def Let_def
    by (simp add: bt_contains_keys set_all_dir_keys map_of_None_keys)
  then have "\<not> (filter (\<lambda>e. prefix ?pre (fst e)) (ve_files v) = []
      \<and> filter (\<lambda>e. prefix ?pre (fst e)) (ve_binary_files v) = []
      \<and> filter (\<lambda>p. p = s \<or> prefix ?pre p) (all_dir_keys v) = [])"
    by (auto simp: set_all_file_keys bt_keys_def filter_empty_conv)
  then show ?thesis using none s by (simp add: copy_content_def Let_def)
qed

lemma copied_beside:
  assumes r: "r = [] \<or> prefix ''/'' r" and "is_file v s" and "file_at v' d = file_at v s"
    and "\<And>k. k \<noteq> d \<Longrightarrow> file_at v' k = file_at v k"
    and fresh: "\<And>k. below d k \<Longrightarrow> file_at v k = (None, None)"
  shows "file_at v' (d @ r) = copied_at v s r"
proof (cases "r = []")
  case False
  then have "below d (d @ r)" using r by (auto simp: below_def)
  then show ?thesis using False assms by (simp add: copied_at_def)
qed (use assms in \<open>simp add: copied_at_def\<close>)

lemma copy_content_relocates:
  assumes wf: "ve_wf v" and kinds: "one_kind v" and plain: "plain_path s" "plain_path d"
    and absent: "\<not> path_exists_unchecked v d"
    and copy: "copy_content v s d = (Ok (), v')"
  shows "(r = [] \<or> prefix ''/'' r \<longrightarrow> file_at v' (d @ r) = copied_at v s r)
    \<and> (\<not> below d p \<longrightarrow> file_at v' p = file_at v p)"
proof -
  have fresh: "file_at v k = (None, None)" if "below d k" for k
    using absent_below [OF absent plain(2) that] by (simp add: file_at_def)
  show ?thesis
  proof (cases rule: copy_content_cases [of v s d])
    case (missing e)
    then show ?thesis using copy by simp
  next
    case (text_file c)
    have one: "file_at v' k = (if k = d then file_at v s else file_at v k)" for k
      using text_file copy one_kindD [OF kinds text_file(1)] by (auto simp: file_at_def)
    have "is_file v s" using text_file by (simp add: is_file_def file_at_def)
    then show ?thesis
      using copied_beside [of r v s v' d] fresh by (simp add: one below_def)
  next
    case (binary_file c)
    have one: "file_at v' k = (if k = d then file_at v s else file_at v k)" for k
      using binary_file copy by (auto simp: file_at_def)
    have "is_file v s" using binary_file by (simp add: is_file_def file_at_def)
    then show ?thesis
      using copied_beside [of r v s v' d] fresh by (simp add: one below_def)
  next
    case (tree pre)
    have pre: "pre = s @ ''/''" using tree(3) plain(1) by (simp add: plain_trim)
    have v': "ve_files v' = foldl (\<lambda>m e. bt_insert (replace_logical_prefix (fst e) s d) (snd e) m)
          (ve_files v) (filter (\<lambda>e. prefix (s @ ''/'') (fst e)) (ve_files v))"
      "ve_binary_files v' = foldl (\<lambda>m e. bt_insert (replace_logical_prefix (fst e) s d) (snd e) m)
          (ve_binary_files v) (filter (\<lambda>e. prefix (s @ ''/'') (fst e)) (ve_binary_files v))"
      using tree(4) copy by (auto simp: pre)
    have wfs: "bt_wf (ve_files v)" "bt_wf (ve_binary_files v)" using wf by (simp_all add: ve_wf_def)
    have none: "\<forall>k. below d k \<longrightarrow> map_of (ve_files v) k = None"
      "\<forall>k. below d k \<longrightarrow> map_of (ve_binary_files v) k = None"
      using absent_below [OF absent plain(2)] by blast+
    note F = map_of_copy_subtree [OF wfs(1) plain none(1) v'(1)]
    note B = map_of_copy_subtree [OF wfs(2) plain none(2) v'(2)]
    have inside: "file_at v' (d @ ''/'' @ t) = file_at v (s @ ''/'' @ t)" for t
      using F(1) [of t] B(1) [of t] by (simp add: file_at_def)
    have outside: "file_at v' k = file_at v k" if "\<not> prefix (d @ ''/'') k" for k
      unfolding file_at_def F(2) [OF that] B(2) [OF that] ..
    have "file_at v' (d @ r) = copied_at v s r" if r: "r = [] \<or> prefix ''/'' r"
    proof (cases "r = []")
      case True
      then show ?thesis
        using outside [of d] fresh [of d] tree(1,2)
        by (simp add: copied_at_def is_file_def file_at_def below_def)
    next
      case False
      with r obtain t where "r = ''/'' @ t" by (auto simp: prefix_def)
      then show ?thesis
        using inside [of t] tree(1,2) by (simp add: copied_at_def is_file_def file_at_def)
    qed
    then show ?thesis using outside by (auto simp: below_def)
  qed
qed

lemma copy_relocates:
  assumes wf: "ve_wf v" and kinds: "one_kind v"
    and guard: "transfer_guard v src dst False False = Ok (s, d)"
    and plain: "plain_path s" "plain_path d" and exists: "path_exists_unchecked v s"
  obtains v' where "ve_copy_path v src dst False = (Ok (), v')" "v' = snd (copy_content v s d)"
    "\<forall>r. r = [] \<or> prefix ''/'' r \<longrightarrow> file_at v' (d @ r) = copied_at v s r"
    "\<forall>p. \<not> below d p \<longrightarrow> file_at v' p = file_at v p"
proof -
  have absent: "\<not> path_exists_unchecked v d" using transfer_guard_Ok(6) [OF guard] by simp
  have copy: "ve_copy_path v src dst False = copy_content v s d"
    by (simp add: ve_copy_path_def guard)
  obtain v' where v': "copy_content v s d = (Ok (), v')"
    using copy_content_Ok [OF exists plain(1), of d] by (cases "copy_content v s d") auto
  show thesis
  proof (rule that [of v'])
    show "ve_copy_path v src dst False = (Ok (), v')" "v' = snd (copy_content v s d)"
      by (simp_all add: copy v')
  qed (use copy_content_relocates [OF wf kinds plain absent v'] in blast)+
qed

lemma below_between:
  assumes "below s k" and "prefix d k" and "prefix s d"
  shows "below s d"
proof -
  obtain z where z: "d = s @ z" using assms(3) by (auto simp: prefix_def)
  obtain u where u: "k = s @ u" "u = [] \<or> prefix ''/'' u"
    using assms(1) by (auto simp: below_def prefix_def)
  have "prefix z u" using assms(2) by (simp add: z u(1))
  then have "z = [] \<or> prefix ''/'' z" using u(2) by (cases z; cases u) auto
  then show ?thesis by (auto simp: below_def z)
qed

lemma below_prefix: "below s k \<Longrightarrow> prefix s k"
  by (auto simp: below_def prefix_def)

lemma below_common: "below s k \<Longrightarrow> below d k \<Longrightarrow> below s d \<or> below d s"
  using prefix_same_cases [of s k d] below_between [of s k d] below_between [of d k s]
    below_prefix [of s k] below_prefix [of d k] by blast

lemma below_trans: "below a b \<Longrightarrow> below b c \<Longrightarrow> below a c"
  unfolding below_def by (auto simp: prefix_def)

lemma path_exists_iff:
  assumes "plain_path s"
  shows "path_exists_unchecked v s \<longleftrightarrow> (\<exists>k. below s k \<and> (is_file v k \<or> dir_at v k))"
proof -
  have s: "s \<noteq> []" "trim_end_char slash s = s" using assms by (simp_all add: plain_path_def plain_trim)
  show ?thesis
    unfolding path_exists_unchecked_def Let_def set_all_file_keys set_all_dir_keys is_file_keys
      dir_at_def bt_contains_keys below_def
    using s by auto
qed

lemma requested_idem:
  assumes "normalize_requested_path p = Ok s" and "\<not> prefix ''./'' s"
  shows "normalize_requested_path s = Ok s"
proof -
  have s: "s = normalize_str_path p" "''..'' \<notin> set (split_char slash (forward_slashes p))"
    using assms(1) by (simp_all add: normalize_requested_path_Ok_iff)
  have "backslash \<notin> set s" "\<not> prefix ''/'' s"
    using normalize_str_path_no_backslash normalize_str_path_relative by (simp_all add: s(1))
  moreover have "''..'' \<notin> set (split_char slash s)"
    using s normalize_str_path_segments [of p] by auto
  ultimately show ?thesis
    using assms(2) by (simp add: normalize_requested_path_Ok_iff forward_slashes_id normalize_str_path_plain)
qed

lemma delete_removes:
  assumes req: "normalize_requested_path s = Ok s" and w: "writable v s" and plain: "plain_path s"
    and exists: "path_exists_unchecked v s"
    and kind: "map_of (ve_files v) s = None \<or> map_of (ve_binary_files v) s = None"
  obtains v' where "ve_delete_path v s True = (Ok (), v')"
    "\<forall>k. file_at v' k = (if (if is_file v s then k = s else below s k) then (None, None) else file_at v k)"
proof -
  have ok: "check_file v s True = Ok ()" using w by (simp add: check_file_def writable_def)
  note del = ve_delete_path_def [of v s True]
  show thesis
  proof (cases "is_file v s")
    case True
    show thesis
    proof (cases "map_of (ve_files v) s")
      case (Some c)
      then have "map_of (ve_binary_files v) s = None" using kind by simp
      then show thesis
        using that [of "v\<lparr>ve_files := bt_remove s (ve_files v)\<rparr>"] Some True
        by (simp add: del req ok bt_contains_def file_at_def)
    next
      case None
      then obtain c where "map_of (ve_binary_files v) s = Some c"
        using True by (auto simp: is_file_def file_at_def)
      then show thesis
        using that [of "v\<lparr>ve_binary_files := bt_remove s (ve_binary_files v)\<rparr>"] None True
        by (simp add: del req ok bt_contains_def file_at_def)
    qed
  next
    case False
    let ?pre = "s @ ''/''"
    have none: "map_of (ve_files v) s = None" "map_of (ve_binary_files v) s = None"
      using False by (auto simp: is_file_def file_at_def)
    obtain k where "below s k" "is_file v k \<or> dir_at v k"
      using exists path_exists_iff [OF plain] by blast
    then have some: "\<not> (\<not> bt_contains (ve_directories v) s
        \<and> filter (prefix ?pre) (all_file_keys v) = [] \<and> filter (prefix ?pre) (all_dir_keys v) = [])"
      using False
      by (auto simp: below_def filter_empty_conv set_all_file_keys set_all_dir_keys is_file_keys
          dir_at_def bt_contains_keys)
    show thesis
      using that [of "v\<lparr>ve_files := retain_outside s ?pre (ve_files v),
                        ve_binary_files := retain_outside s ?pre (ve_binary_files v),
                        ve_directories := retain_outside s ?pre (ve_directories v)\<rparr>"]
        False none some plain_trim [OF plain]
      by (simp add: del req ok Let_def bt_contains_def file_at_def below_def split: if_splits)
  qed
qed

lemma move_relocates:
  assumes wf: "ve_wf v" and kinds: "one_kind v"
    and guard: "transfer_guard v src dst True False = Ok (s, d)"
    and read: "check_file v s False = Ok ()"
    and plain: "plain_path s" "plain_path d" and exists: "path_exists_unchecked v s"
    and apart: "\<not> below s d"
  obtains v' where "ve_move_path v src dst False = (Ok (), v')"
    "\<forall>r. r = [] \<or> prefix ''/'' r \<longrightarrow> file_at v' (d @ r) = copied_at v s r"
    "\<forall>k. (if is_file v s then k = s else below s k) \<longrightarrow> file_at v' k = (None, None)"
    "\<forall>k. \<not> (if is_file v s then k = s else below s k) \<and> \<not> below d k \<longrightarrow> file_at v' k = file_at v k"
proof -
  note g = transfer_guard_Ok [OF guard]
  have absent: "\<not> path_exists_unchecked v d" using g(6) by simp
  have req: "normalize_requested_path s = Ok s" "normalize_requested_path d = Ok d"
    using g(1,2) plain requested_idem by (auto simp: plain_path_def)
  have guard': "transfer_guard v s d False False = Ok (s, d)"
    using g(4,5) read absent
    by (simp add: transfer_guard_def req ensure_virtual_destination_def check_file_def writable_def)
  obtain v1 where copy: "ve_copy_path v s d False = (Ok (), v1)" and v1: "v1 = snd (copy_content v s d)"
    and new: "\<forall>r. r = [] \<or> prefix ''/'' r \<longrightarrow> file_at v1 (d @ r) = copied_at v s r"
    and old: "\<forall>p. \<not> below d p \<longrightarrow> file_at v1 p = file_at v p"
    using copy_relocates [OF wf kinds guard' plain exists] by blast
  have "\<not> below d s"
    using absent exists path_exists_iff [OF plain(1)] path_exists_iff [OF plain(2)] below_trans by blast
  then have sep: "below s k \<Longrightarrow> \<not> below d k" for k using below_common apart by blast
  have s: "file_at v1 s = file_at v s" using old \<open>\<not> below d s\<close> by blast
  then have isf: "is_file v1 s = is_file v s" by (simp add: is_file_def)
  have dirs: "dir_at v k \<Longrightarrow> dir_at v1 k" for k
    unfolding v1
    by (cases rule: copy_content_cases [of v s d]) (auto simp: dir_at_def bt_contains_fold_insert)
  obtain k where "below s k" "is_file v k \<or> dir_at v k"
    using exists path_exists_iff [OF plain(1)] by blast
  then have ex1: "path_exists_unchecked v1 s"
    using path_exists_iff [OF plain(1), of v1] dirs old sep by (auto simp: is_file_def)
  have w1: "writable v1 s"
    using g(3) by (simp add: v1 writable_def check_file_Ok_iff)
  have kind1: "map_of (ve_files v1) s = None \<or> map_of (ve_binary_files v1) s = None"
    using s one_kindD [OF kinds, of s] by (cases "map_of (ve_files v) s") (auto simp: file_at_def)
  obtain v' where del: "ve_delete_path v1 s True = (Ok (), v')"
    and at: "\<forall>k. file_at v' k = (if (if is_file v1 s then k = s else below s k) then (None, None) else file_at v1 k)"
    using delete_removes [OF req(1) w1 plain(1) ex1 kind1] by blast
  have "ve_move_path v src dst False = (Ok (), v')"
    by (simp add: ve_move_path_def guard copy del)
  moreover have "file_at v' (d @ r) = copied_at v s r" if "r = [] \<or> prefix ''/'' r" for r
  proof -
    have "below d (d @ r)" using that by (auto simp: below_def)
    then have "\<not> below s (d @ r)" using sep by blast
    moreover have "below s s" by (simp add: below_def)
    ultimately show ?thesis using at new that by auto
  qed
  moreover have "file_at v' k = file_at v k"
    if "\<not> (if is_file v s then k = s else below s k)" "\<not> below d k" for k
    using at old that isf by simp
  ultimately show thesis using that [of v'] at isf by simp
qed

section \<open>Bounded listings\<close>

lemma sorted_unique: "mset xs = mset ys \<Longrightarrow> sorted xs \<Longrightarrow> sorted ys \<Longrightarrow> xs = ys"
  by (metis properties_for_sort)

lemma sorted_take_drop: "sorted xs \<Longrightarrow> x \<in> set (take n xs) \<Longrightarrow> y \<in> set (drop n xs) \<Longrightarrow> x \<le> y"
  by (metis append_take_drop_id sorted_append)

lemma sorted_take_le:
  assumes "sorted xs" and "m < length xs" and "x \<in> set (take (Suc m) xs)"
  shows "x \<le> xs ! m"
  using assms by (auto simp: in_set_conv_nth sorted_iff_nth_mono)

lemma sorted_drop_ge:
  assumes "sorted xs" and "m < length xs" and "x \<in> set (drop m xs)"
  shows "xs ! m \<le> x"
  using assms by (auto simp: in_set_conv_nth sorted_iff_nth_mono)

lemma take_insort_large:
  assumes "sorted xs" and "m < length xs" and "xs ! m \<le> e"
  shows "take (Suc m) (insort e xs) = take (Suc m) xs"
proof -
  have "insort e xs = take (Suc m) xs @ insort e (drop (Suc m) xs)"
  proof (rule sorted_unique)
    show "mset (insort e xs) = mset (take (Suc m) xs @ insort e (drop (Suc m) xs))"
      by simp (metis append_take_drop_id mset_append)
    show "sorted (take (Suc m) xs @ insort e (drop (Suc m) xs))"
      using assms sorted_take_le [OF assms(1,2)] sorted_take_drop [OF assms(1)]
      by (auto simp: sorted_append sorted_insort set_insort_key sorted_wrt_take sorted_wrt_drop
          intro: order_trans)
  qed (simp add: assms sorted_insort)
  then show ?thesis using assms(2) by simp
qed

lemma take_insort_small:
  assumes "sorted xs" and "m < length xs" and "e < xs ! m"
  shows "take (Suc m) (insort e xs) = insort e (take m xs)"
proof -
  have "insort e xs = insort e (take m xs) @ drop m xs"
  proof (rule sorted_unique)
    show "mset (insort e xs) = mset (insort e (take m xs) @ drop m xs)"
      by simp (metis append_take_drop_id mset_append)
    show "sorted (insort e (take m xs) @ drop m xs)"
      using assms sorted_drop_ge [OF assms(1,2)] sorted_take_drop [OF assms(1)]
      by (auto simp: sorted_append sorted_insort set_insort_key sorted_wrt_take sorted_wrt_drop
          intro: order_trans less_imp_le)
  qed (simp add: assms sorted_insort)
  then show ?thesis using assms(2) by simp
qed

lemma heap_step:
  fixes xs :: "string list"
  assumes "0 < n" and E: "E = take n (sort xs)"
  shows "take n (sort (xs @ [e])) =
    (if length E < n then insort e E
     else if E \<noteq> [] \<and> e < last E then insort e (butlast E) else E)"
proof -
  obtain m where n: "n = Suc m" using assms(1) by (cases n) auto
  have ins: "sort (xs @ [e]) = insort e (sort xs)"
    by (rule properties_for_sort) (simp_all add: sorted_insort)
  show ?thesis
  proof (cases "length (sort xs) < n")
    case True
    then show ?thesis by (simp add: ins E)
  next
    case False
    then have m: "m < length (sort xs)" by (simp add: n)
    then have last: "last E = sort xs ! m" and butlast: "butlast E = take m (sort xs)"
      by (simp_all add: E n take_Suc_conv_app_nth)
    have "length E = n" using m by (simp add: E n)
    then have len: "\<not> length E < n" "E \<noteq> []" using n by auto
    show ?thesis
    proof (cases "e < sort xs ! m")
      case True
      then show ?thesis
        using take_insort_small [OF sorted_sort m True] len by (simp add: ins last butlast n)
    next
      case False
      then have "take n (insort e (sort xs)) = E"
        using take_insort_large [OF sorted_sort m, of e] by (simp add: E n not_less)
      then show ?thesis using False len by (simp add: ins last)
    qed
  qed
qed

definition listed :: "string \<Rightarrow> string list \<Rightarrow> string list \<Rightarrow> string list" where
  "listed pre ign cs = filter (\<lambda>c. prefix pre c \<and> \<not> list_ignore_match ign c) cs"

lemma collect_limited_spec:
  assumes "0 < n"
  shows "collect_limited_list_entries cs pre ign n (take n (sort xs), k) =
    (take n (sort (xs @ listed pre ign cs)), k + length (listed pre ign cs))"
proof (induction cs arbitrary: xs k)
  case (Cons c cs)
  show ?case
  proof (cases "prefix pre c \<and> \<not> list_ignore_match ign c")
    case True
    have "collect_limited_list_entries (c # cs) pre ign n (take n (sort xs), k) =
        collect_limited_list_entries cs pre ign n (take n (sort (xs @ [c])), k + 1)"
      using True heap_step [OF assms refl, of xs c] by (simp add: list_entry_matches_def)
    then show ?thesis using True by (simp add: Cons.IH listed_def)
  next
    case False
    then have "list_entry_matches pre ign c = None" "listed pre ign (c # cs) = listed pre ign cs"
      by (auto simp: list_entry_matches_def listed_def)
    then show ?thesis by (simp add: Cons.IH)
  qed
qed (simp add: listed_def)

lemma listed_append: "listed pre ign (a @ b) = listed pre ign a @ listed pre ign b"
  by (simp add: listed_def)

lemma list_with_options_bounded:
  assumes "normalize_requested_path path = Ok q" and "check_file v q False = Ok ()"
    and "0 < fl_max_entries opts"
    and M: "M = listed (list_prefix q) (fl_ignore_patterns opts) (candidate_keys v)"
  shows "ve_list_with_options v path opts =
    Ok \<lparr>fr_entries = take (fl_max_entries opts) (sort M),
        fr_truncated = (fl_max_entries opts < length M), fr_total_entries = length M\<rparr>"
proof -
  define pre ign n where "pre = list_prefix q" and "ign = fl_ignore_patterns opts"
    and "n = fl_max_entries opts"
  have n: "0 < n" using assms(3) by (simp add: n_def)
  note step = collect_limited_spec [OF n, of _ pre ign]
  have "collect_limited_list_entries (map fst (ve_directories v)) pre ign n
      (collect_limited_list_entries (map fst (ve_binary_files v)) pre ign n
        (collect_limited_list_entries (map fst (ve_files v)) pre ign n ([], 0)))
      = (take n (sort M), length M)"
    using step [of "map fst (ve_files v)" "[]" 0]
    by (simp add: step M candidate_keys_def listed_append pre_def [symmetric] ign_def [symmetric])
  then show ?thesis
    using assms(1,2) n
    by (simp add: ve_list_with_options_def pre_def [symmetric] ign_def [symmetric] n_def [symmetric] Let_def
        min_less_iff_disj)
qed

lemma sorted_key_set: "bt_wf s \<Longrightarrow> bt_wf (key_set ks s)"
  using bt_wf_fold_insert [of s "\<lambda>k. k" "\<lambda>_. ()" ks] by (simp add: key_set_def)

lemma map_fst_key_set: "map fst (key_set ks []) = sorted_list_of_set (set ks)"
proof -
  have "sorted_wrt (<) (map fst (key_set ks []))"
    using sorted_key_set [of "[]" ks] by (simp add: bt_wf_def)
  moreover have "set (map fst (key_set ks [])) = set ks"
    using set_key_set [of ks "[]"] by simp
  ultimately show ?thesis by (metis List.finite_set sorted_list_of_set_unique strict_sorted_iff distinct_card)
qed

lemma map_filter_listed:
  "List.map_filter (list_entry_matches pre ign) cs = listed pre ign cs"
  by (induction cs) (simp_all add: List.map_filter_simps list_entry_matches_def listed_def)

lemma list_with_options_unbounded:
  assumes "normalize_requested_path path = Ok q" and "check_file v q False = Ok ()"
    and "fl_max_entries opts = 0"
    and M: "M = listed (list_prefix q) (fl_ignore_patterns opts) (candidate_keys v)"
  shows "ve_list_with_options v path opts =
    Ok \<lparr>fr_entries = sorted_list_of_set (set M), fr_truncated = False,
        fr_total_entries = card (set M)\<rparr>"
  using assms(1-3)
  by (simp add: ve_list_with_options_def Let_def map_filter_listed map_fst_key_set M)

section \<open>Reading\<close>

lemma read_after_write:
  assumes "fst (ve_write_text v p c) = Ok ()" and "check_file v p False = Ok ()"
  shows "ve_read_text err (snd (ve_write_text v p c)) p = Ok c"
    and "ve_stat (snd (ve_write_text v p c)) p = Ok (regular_stat c)"
  using assms
  by (auto simp: ve_write_text_def ve_read_text_def ve_stat_def check_file_def split: result.splits if_splits)

lemma read_bytes_window:
  assumes "check_file v p False = Ok ()"
    and "(case map_of (ve_files v) p of Some c \<Rightarrow> Some c | None \<Rightarrow> map_of (ve_binary_files v) p) = Some b"
    and "length b < 2 ^ 64"
  shows "ve_read_bytes v p off len =
    Ok (case len of None \<Rightarrow> drop (unat off) b | Some n \<Rightarrow> take (unat n) (drop (unat off) b))"
proof -
  have "min (unat (u64_saturating_add off n)) (length b) - unat off = min (unat n) (length b - unat off)" for n
    using assms(3) by (simp add: unat_u64_saturating_add)
  moreover have "take (min (unat n) (length b - unat off)) (drop (unat off) b) = take (unat n) (drop (unat off) b)" for n :: u64
    by (metis length_drop min.commute take_all_iff take_take min_def order_refl)
  ultimately show ?thesis
    using assms(1,2) by (simp add: ve_read_bytes_def Let_def split: option.split)
qed

section \<open>Processes\<close>

definition started_ids :: "nat \<Rightarrow> string set" where
  "started_ids n = {''process_'' @ nat_to_string i | i. 1 \<le> i \<and> i \<le> n}"

definition processes_numbered :: "virtual_env \<Rightarrow> bool" where
  "processes_numbered v \<longleftrightarrow>
     bt_wf (ve_processes v) \<and> bt_keys (ve_processes v) = started_ids (length (ve_processes v))"

lemma fresh_process_id: "''process_'' @ nat_to_string (Suc n) \<notin> started_ids n"
  by (auto simp: started_ids_def nat_to_string_inject)

lemma length_bt_insert_new: "k \<notin> bt_keys m \<Longrightarrow> length (bt_insert k v m) = Suc (length m)"
  by (induction k v m rule: bt_insert.induct) (auto simp: bt_keys_def)

lemma started_ids_Suc:
  "started_ids (Suc n) = insert (''process_'' @ nat_to_string (Suc n)) (started_ids n)"
  by (auto simp: started_ids_def le_Suc_eq)

lemma processes_numbered_insert:
  assumes "processes_numbered v"
  shows "processes_numbered (snd (insert_virtual_process v c m))"
    and "\<not> bt_contains (ve_processes v) (''process_'' @ nat_to_string (length (ve_processes v) + 1))"
  using assms fresh_process_id [of "length (ve_processes v)"]
  by (simp_all add: processes_numbered_def insert_virtual_process_def Let_def length_bt_insert_new
      started_ids_Suc bt_contains_keys)

section \<open>Export and restore\<close>

lemma extend_map_entries:
  assumes "bt_wf m"
  shows "extend_map [] m = m"
proof -
  have "extend_map acc es = acc @ es" if "sorted_wrt (<) (map fst (acc @ es))" for acc es :: "(string \<times> 'v) list"
    using that
  proof (induction es arbitrary: acc)
    case (Cons e es)
    have "\<forall>k \<in> fst ` set acc. k < fst e" using Cons.prems by (auto simp: sorted_wrt_append)
    then have "bt_insert (fst e) (snd e) acc = acc @ [e]" by (simp add: bt_insert_last)
    with Cons.IH [of "acc @ [e]"] Cons.prems show ?case by (simp add: extend_map_def)
  qed (simp add: extend_map_def)
  from this [of "[]" m] assms show ?thesis by (simp add: bt_wf_def)
qed

lemma ancestors_fold_fields:
  "ve_files (foldl (\<lambda>v p. insert_directory_ancestors p v) v ps) = ve_files v
   \<and> ve_resources (foldl (\<lambda>v p. insert_directory_ancestors p v) v ps) = ve_resources v
   \<and> ve_processes (foldl (\<lambda>v p. insert_directory_ancestors p v) v ps) = ve_processes v
   \<and> ve_id (foldl (\<lambda>v p. insert_directory_ancestors p v) v ps) = ve_id v"
  by (induction ps arbitrary: v) (simp_all add: insert_directory_ancestors_def)

lemma restore_export:
  assumes "bt_wf (ve_files v)" and "bt_wf (ve_processes v)"
    and "\<forall>(k, p) \<in> set (ve_processes v). ps_process_id p = k"
  shows "ve_export_state (virtual_from_state (ve_export_state v)) = ve_export_state v"
proof -
  have "map (\<lambda>p. (ps_process_id p, p)) (bt_values (ve_processes v)) = ve_processes v"
    using assms(3) by (auto simp: bt_values_def comp_def intro!: map_idI)
  then show ?thesis
    by (simp add: virtual_from_state_def ve_export_state_def Let_def ancestors_fold_fields
        virtual_new_def extend_map_entries [OF assms(1)] extend_map_entries [OF assms(2)])
qed

end
