(* ===== verification/Environment_Scenario.thy ===== *)
theory Environment_Scenario
  imports Virtual_Files
begin

text \<open>
  A concrete provider: a policy that permits one directory, a small tree, and the requests whose
  outcome the properties are checked on, with the requests on which moving and copying lose data.
\<close>

definition demo_policy :: environment_policy where
  "demo_policy =
     \<lparr>ep_files = \<lparr>fp_allow_read = True, fp_allow_write = True, fp_allowed_prefixes = [''work'']\<rparr>,
      ep_shell = shell_policy_allow_all\<rparr>"

definition demo_env :: virtual_env where
  "demo_env =
     with_policy demo_policy
       (with_bytes ''work/a/y'' ''bytes'' (with_file ''work/a/x'' ''text''
          (with_file ''work/b'' ''other'' (with_file ''secret'' ''hidden'' (virtual_new ''demo'')))))"

definition open_env :: virtual_env where
  "open_env = with_policy \<lparr>ep_files = file_policy_read_write, ep_shell = shell_policy_allow_all\<rparr> demo_env"

lemma demo_env_facts:
  "ve_wf demo_env" "one_kind demo_env" "policy_ok (ep_files (ve_policy demo_env))"
  "\<not> writable demo_env ''secret''"
  by code_simp+

lemma demo_transfer:
  "transfer_guard demo_env ''work/a'' ''work/c'' False False = Ok (''work/a'', ''work/c'')"
  "transfer_guard demo_env ''work/a'' ''work/c'' True False = Ok (''work/a'', ''work/c'')"
  "check_file demo_env ''work/a'' False = Ok ()"
  "plain_path ''work/a''" "plain_path ''work/c''" "path_exists_unchecked demo_env ''work/a''"
  "\<not> below ''work/a'' ''work/c''"
  by code_simp+

text \<open>
  A directory named with a trailing separator is not relocated by the copy, and then deleted: the
  move succeeds and its files are gone. So does a move of a directory into itself.
\<close>

lemma move_trailing_slash_loses_files:
  "ve_move_path demo_env ''work/a/'' ''work/c'' False =
     (Ok (), demo_env\<lparr>ve_files := [(''secret'', ''hidden''), (''work/b'', ''other'')],
                      ve_binary_files := []\<rparr>)"
  by code_simp

lemma move_into_itself_loses_files:
  "fst (ve_move_path demo_env ''work/a'' ''work/a/z'' False) = Ok ()
   \<and> ve_files (snd (ve_move_path demo_env ''work/a'' ''work/a/z'' False)) =
       [(''secret'', ''hidden''), (''work/b'', ''other'')]
   \<and> ve_binary_files (snd (ve_move_path demo_env ''work/a'' ''work/a/z'' False)) = []"
  by code_simp

text \<open>An overwriting copy clears its destination before it looks for its source.\<close>

lemma copy_of_missing_source_loses_destination:
  "fst (ve_copy_path demo_env ''work/none'' ''work/b'' True) = Err (EnvNotFound ''work/none'')
   \<and> file_at (snd (ve_copy_path demo_env ''work/none'' ''work/b'' True)) ''work/b'' = (None, None)"
  by code_simp

text \<open>The destination \<open>.\<close> never counts as existing: a copy to the root overwrites without being asked to.\<close>

lemma copy_to_root_overwrites:
  "fst (ve_copy_path open_env ''work'' ''.'' False) = Ok ()
   \<and> fst (ve_copy_path (with_file ''b'' ''precious'' open_env) ''work'' ''.'' False) = Ok ()
   \<and> file_at (snd (ve_copy_path (with_file ''b'' ''precious'' open_env) ''work'' ''.'' False)) ''b'' =
       (Some ''other'', None)"
  by code_simp

text \<open>The namespace \<open>.\<close> is accepted and separates nothing.\<close>

lemma dot_namespace_is_shared:
  "result_map (\<lambda>v. scratch_file_path v ''out.txt'') (with_scratch_namespace ''.'' demo_env) =
     Ok (scratch_file_path demo_env ''out.txt'')"
  by code_simp

end
