(* ===== verification/Pricing_Catalog.thy ===== *)
theory Pricing_Catalog
  imports Usage Logical_Path
begin

text \<open>
  The built-in price catalog (\<open>starweaver-usage/src/pricing/catalog.rs\<close>) and the lookups over it
  (\<open>pricing.rs\<close>): every row of the catalog, the tier tables, the alias lookup and the estimate for a
  model id. The rows are grouped by provider, in the order of the code.
\<close>

section \<open>Rates\<close>

definition cny_per_usd_millis :: u64 where
  "cny_per_usd_millis = 7200"

definition u128_to_u64 :: "nat \<Rightarrow> u64" where
  "u128_to_u64 n = (if n > 2 ^ 64 - 1 then - 1 else of_nat n)"

definition cny_millis_to_usd_micros :: "u64 \<Rightarrow> u64" where
  "cny_millis_to_usd_micros cny_millis =
     u128_to_u64 (u128_saturate (u128_saturate (unat cny_millis * 1000000) + unat (cny_per_usd_millis div 2))
       div unat cny_per_usd_millis)"

text \<open>
  The rates are constants of the program: the code evaluates \<open>scale_rate\<close> at compile time, with the
  denominators 1 and 100 only.
\<close>

definition scale_rate :: "u64 \<Rightarrow> u64 \<Rightarrow> u64 \<Rightarrow> u64" where
  "scale_rate rate numerator denominator =
     u128_to_u64 (u128_saturate (u128_saturate (unat rate * unat numerator) + unat (denominator - 1))
       div unat denominator)"

definition with_cache_read :: "model_pricing_details \<Rightarrow> u64 \<Rightarrow> model_pricing_details" where
  "with_cache_read p cache_read = with_cache_read_micros p cache_read"

definition with_cache :: "model_pricing_details \<Rightarrow> u64 \<Rightarrow> u64 \<Rightarrow> model_pricing_details" where
  "with_cache p cache_write cache_read =
     with_cache_read_micros (with_cache_write_micros p cache_write) cache_read"

definition anthropic_pricing :: "u64 \<Rightarrow> u64 \<Rightarrow> model_pricing_details" where
  "anthropic_pricing input_micros output_micros =
     with_cache_read_micros
       (with_cache_write_1h_micros
         (with_cache_write_micros (details_new input_micros output_micros)
           (scale_rate input_micros 125 100))
         (scale_rate input_micros 2 1))
       (scale_rate input_micros 10 100)"

definition openai_gpt56_pricing :: "u64 \<Rightarrow> u64 \<Rightarrow> model_pricing_details" where
  "openai_gpt56_pricing input_micros output_micros =
     with_cache (details_new input_micros output_micros) (scale_rate input_micros 125 100)
       (scale_rate input_micros 10 100)"

definition qwen_pricing :: "u64 \<Rightarrow> u64 \<Rightarrow> model_pricing_details" where
  "qwen_pricing input_cny_millis output_cny_millis =
     (let input = cny_millis_to_usd_micros input_cny_millis
      in with_cache_read_micros
           (with_cache_write_micros
             (details_new input (cny_millis_to_usd_micros output_cny_millis))
             (scale_rate input 125 100))
           (scale_rate input 10 100))"

definition qwen_tier :: "u64 option \<Rightarrow> u64 \<Rightarrow> u64 \<Rightarrow> model_pricing_tier" where
  "qwen_tier max_input input_cny_millis output_cny_millis =
     tier_new max_input (qwen_pricing input_cny_millis output_cny_millis)"

section \<open>Rows\<close>

record pricing_record =
  pr_aliases :: "string list"
  pr_profile :: model_pricing_profile

definition record_new :: "string list \<Rightarrow> model_pricing_details \<Rightarrow> pricing_record" where
  "record_new aliases pricing = \<lparr>pr_aliases = aliases, pr_profile = Single pricing\<rparr>"

definition record_tiered :: "string list \<Rightarrow> model_pricing_tier list \<Rightarrow> pricing_record" where
  "record_tiered aliases tiers = \<lparr>pr_aliases = aliases, pr_profile = Tiered tiers\<rparr>"

definition openai_gpt56_sol_tiers :: "model_pricing_tier list" where
  "openai_gpt56_sol_tiers =
     [tier_new (Some 272000) (openai_gpt56_pricing 5000000 30000000),
      tier_new None (openai_gpt56_pricing 10000000 45000000)]"

definition openai_gpt56_terra_tiers :: "model_pricing_tier list" where
  "openai_gpt56_terra_tiers =
     [tier_new (Some 272000) (openai_gpt56_pricing 2500000 15000000),
      tier_new None (openai_gpt56_pricing 5000000 22500000)]"

definition openai_gpt56_luna_tiers :: "model_pricing_tier list" where
  "openai_gpt56_luna_tiers =
     [tier_new (Some 272000) (openai_gpt56_pricing 1000000 6000000),
      tier_new None (openai_gpt56_pricing 2000000 9000000)]"

definition gemini_3_1_pro_preview_tiers :: "model_pricing_tier list" where
  "gemini_3_1_pro_preview_tiers =
     [tier_new (Some 200000) (with_cache_read (details_new 2000000 12000000) 200000),
      tier_new None (with_cache_read (details_new 4000000 18000000) 400000)]"

definition gemini_2_5_pro_tiers :: "model_pricing_tier list" where
  "gemini_2_5_pro_tiers =
     [tier_new (Some 200000) (with_cache_read (details_new 1250000 10000000) 125000),
      tier_new None (with_cache_read (details_new 2500000 15000000) 250000)]"

definition minimax_m3_standard_tiers :: "model_pricing_tier list" where
  "minimax_m3_standard_tiers =
     [tier_new (Some 512000) (with_cache_read (details_new 300000 1200000) 60000),
      tier_new None (with_cache_read (details_new 600000 2400000) 120000)]"

definition minimax_m3_priority_tiers :: "model_pricing_tier list" where
  "minimax_m3_priority_tiers =
     [tier_new (Some 512000) (with_cache_read (details_new 450000 1800000) 90000),
      tier_new None (with_cache_read (details_new 900000 3600000) 180000)]"

definition qwen3_max_tiers :: "model_pricing_tier list" where
  "qwen3_max_tiers =
     [qwen_tier (Some 32000) 2500 10000,
      qwen_tier (Some 128000) 4000 16000,
      qwen_tier None 7000 28000]"

definition qwen3_max_preview_tiers :: "model_pricing_tier list" where
  "qwen3_max_preview_tiers =
     [qwen_tier (Some 32000) 6000 24000,
      qwen_tier (Some 128000) 10000 40000,
      qwen_tier None 15000 60000]"

definition qwen3_7_plus_tiers :: "model_pricing_tier list" where
  "qwen3_7_plus_tiers =
     [qwen_tier (Some 256000) 2000 8000,
      qwen_tier None 6000 24000]"

definition qwen3_6_plus_tiers :: "model_pricing_tier list" where
  "qwen3_6_plus_tiers =
     [qwen_tier (Some 256000) 2000 12000,
      qwen_tier None 8000 48000]"

definition qwen3_5_plus_tiers :: "model_pricing_tier list" where
  "qwen3_5_plus_tiers =
     [qwen_tier (Some 128000) 800 4800,
      qwen_tier (Some 256000) 2000 12000,
      qwen_tier None 4000 24000]"

definition qwen_plus_tiers :: "model_pricing_tier list" where
  "qwen_plus_tiers =
     [qwen_tier (Some 128000) 800 2000,
      qwen_tier (Some 256000) 2400 20000,
      qwen_tier None 4800 48000]"

definition qwen3_6_flash_tiers :: "model_pricing_tier list" where
  "qwen3_6_flash_tiers =
     [qwen_tier (Some 256000) 1200 7200,
      qwen_tier None 4800 28800]"

definition qwen3_5_flash_tiers :: "model_pricing_tier list" where
  "qwen3_5_flash_tiers =
     [qwen_tier (Some 128000) 200 2000,
      qwen_tier (Some 256000) 800 8000,
      qwen_tier None 1200 12000]"

definition qwen_flash_tiers :: "model_pricing_tier list" where
  "qwen_flash_tiers =
     [qwen_tier (Some 128000) 150 1500,
      qwen_tier (Some 256000) 600 6000,
      qwen_tier None 1200 12000]"

definition grok_catalog :: "pricing_record list" where
  "grok_catalog =
     [record_new
        [''grok-4.5'', ''grok-4-5'', ''grok-4.5-latest'', ''grok-4-5-latest'',
          ''grok-build-latest'']
        (with_cache_read (details_new 2000000 6000000) 500000)]"

definition openai_catalog :: "pricing_record list" where
  "openai_catalog =
     [record_tiered
        [''gpt-5.6'', ''gpt-5-6'', ''gpt-5.6-sol'', ''gpt-5-6-sol'',
          ''gpt-5.6-sol-ultra'', ''gpt-5-6-sol-ultra'']
        (openai_gpt56_sol_tiers),
      record_tiered [''gpt-5.6-terra'', ''gpt-5-6-terra''] (openai_gpt56_terra_tiers),
      record_tiered [''gpt-5.6-luna'', ''gpt-5-6-luna''] (openai_gpt56_luna_tiers),
      record_new
        [''gpt-5.5'', ''gpt-5-5'', ''gpt-5.5-chat-latest'', ''gpt-5-5-chat-latest'']
        (with_cache_read (details_new 5000000 30000000) 500000),
      record_new [''gpt-5.5-pro'', ''gpt-5-5-pro''] (details_new 30000000 180000000),
      record_new [''gpt-5.4-pro'', ''gpt-5-4-pro''] (details_new 30000000 180000000),
      record_new
        [''gpt-5.4'', ''gpt-5-4'']
        (with_cache_read (details_new 2500000 15000000) 250000),
      record_new
        [''gpt-5.4-mini'', ''gpt-5-4-mini'']
        (with_cache_read (details_new 750000 4500000) 75000),
      record_new
        [''gpt-5.4-nano'', ''gpt-5-4-nano'']
        (with_cache_read (details_new 200000 1250000) 20000),
      record_new
        [''gpt-5'', ''gpt-5-chat-latest'']
        (with_cache_read (details_new 1250000 10000000) 125000),
      record_new
        [''gpt-5-mini'']
        (with_cache_read (details_new 250000 2000000) 25000),
      record_new
        [''gpt-5-nano'']
        (with_cache_read (details_new 50000 400000) 5000),
      record_new
        [''gpt-4.1'', ''gpt-4-1'', ''gpt-4.1-2025-04-14'', ''gpt-4-1-2025-04-14'']
        (with_cache_read (details_new 2000000 8000000) 500000),
      record_new
        [''gpt-4.1-mini'', ''gpt-4-1-mini'', ''gpt-4.1-mini-2025-04-14'',
          ''gpt-4-1-mini-2025-04-14'']
        (with_cache_read (details_new 400000 1600000) 100000),
      record_new
        [''gpt-4.1-nano'', ''gpt-4-1-nano'', ''gpt-4.1-nano-2025-04-14'',
          ''gpt-4-1-nano-2025-04-14'']
        (with_cache_read (details_new 100000 400000) 25000),
      record_new
        [''gpt-4o'', ''gpt-4o-2024-05-13'', ''gpt-4o-2024-08-06'',
          ''gpt-4o-2024-11-20'', ''chatgpt-4o-latest'']
        (with_cache_read (details_new 2500000 10000000) 1250000),
      record_new
        [''gpt-4o-mini'', ''gpt-4o-mini-2024-07-18'']
        (with_cache_read (details_new 150000 600000) 75000),
      record_new
        [''o3'', ''o3-2025-04-16'']
        (with_cache_read (details_new 2000000 8000000) 500000),
      record_new
        [''o4-mini'', ''o4-mini-2025-04-16'']
        (with_cache_read (details_new 1100000 4400000) 275000),
      record_new
        [''o3-mini'', ''o3-mini-2025-01-31'', ''o1-mini'', ''o1-mini-2024-09-12'']
        (with_cache_read (details_new 1100000 4400000) 550000),
      record_new
        [''o1'', ''o1-2024-12-17'', ''o1-preview'', ''o1-preview-2024-09-12'']
        (with_cache_read (details_new 15000000 60000000) 7500000),
      record_new [''o3-pro'', ''o3-pro-2025-06-10''] (details_new 20000000 80000000),
      record_new [''o1-pro'', ''o1-pro-2025-03-19''] (details_new 150000000 600000000)]"

definition anthropic_catalog :: "pricing_record list" where
  "anthropic_catalog =
     [record_new
        [''claude-opus-5'', ''claude-opus-4.8'', ''claude-opus-4-8'',
          ''claude-opus-4.7'', ''claude-opus-4-7'', ''claude-opus-4.6'',
          ''claude-opus-4-6'', ''claude-opus-4.5'', ''claude-opus-4-5'']
        (anthropic_pricing 5000000 25000000),
      record_new
        [''claude-opus-4.1'', ''claude-opus-4-1'', ''claude-opus-4-1-20250805'']
        (anthropic_pricing 15000000 75000000),
      record_new [''claude-opus-4'', ''claude-opus-4-20250514''] (anthropic_pricing 15000000 75000000),
      record_new
        [''claude-sonnet-4.6'', ''claude-sonnet-4-6'', ''claude-sonnet-4.5'',
          ''claude-sonnet-4-5'', ''claude-sonnet-4-5-20250929'',
          ''claude-sonnet-4'', ''claude-sonnet-4-20250514'', ''claude-3.7-sonnet'',
          ''claude-3-7-sonnet'', ''claude-3-7-sonnet-20250219'',
          ''claude-3.5-sonnet'', ''claude-3-5-sonnet'',
          ''claude-3-5-sonnet-latest'', ''claude-3-5-sonnet-20241022'',
          ''claude-3-5-sonnet-20240620'', ''claude-3-sonnet'',
          ''claude-3-sonnet-20240229'']
        (anthropic_pricing 3000000 15000000),
      record_new
        [''claude-haiku-4.5'', ''claude-haiku-4-5'', ''claude-haiku-4-5-20251001'']
        (anthropic_pricing 1000000 5000000),
      record_new
        [''claude-3.5-haiku'', ''claude-3-5-haiku'', ''claude-3-5-haiku-latest'',
          ''claude-3-5-haiku-20241022'']
        (anthropic_pricing 800000 4000000),
      record_new [''claude-3-opus'', ''claude-3-opus-20240229''] (anthropic_pricing 15000000 75000000),
      record_new [''claude-3-haiku'', ''claude-3-haiku-20240307''] (anthropic_pricing 250000 1250000)]"

definition gemini_catalog :: "pricing_record list" where
  "gemini_catalog =
     [record_new
        [''gemini-3.5-flash'', ''gemini-3-5-flash'']
        (with_cache_read (details_new 1500000 9000000) 150000),
      record_new [''gemini-3.5-live-translate-preview'', ''gemini-3-5-live-translate-preview''] (details_new 3500000 21000000),
      record_tiered
        [''gemini-3.1-pro-preview'', ''gemini-3-1-pro-preview'',
          ''gemini-3.1-pro-preview-customtools'',
          ''gemini-3-1-pro-preview-customtools'']
        (gemini_3_1_pro_preview_tiers),
      record_new
        [''gemini-3.1-flash-lite'', ''gemini-3-1-flash-lite'']
        (with_cache_read (details_new 250000 1500000) 25000),
      record_new [''gemini-3.1-flash-live-preview'', ''gemini-3-1-flash-live-preview''] (details_new 750000 4500000),
      record_new [''gemini-3.1-flash-image'', ''gemini-3-1-flash-image''] (details_new 500000 3000000),
      record_new [''gemini-3.1-flash-tts-preview'', ''gemini-3-1-flash-tts-preview''] (details_new 1000000 20000000),
      record_new
        [''gemini-3-flash-preview'', ''gemini-3.0-flash-preview'']
        (with_cache_read (details_new 500000 3000000) 50000),
      record_new [''gemini-3-pro-image''] (details_new 2000000 12000000),
      record_tiered
        [''gemini-2.5-pro'', ''gemini-2-5-pro'', ''gemini-2.5-pro-preview'']
        (gemini_2_5_pro_tiers),
      record_new
        [''gemini-2.5-flash'', ''gemini-2-5-flash'', ''gemini-2.5-flash-preview'']
        (with_cache_read (details_new 300000 2500000) 30000),
      record_new
        [''gemini-2.5-flash-lite'', ''gemini-2-5-flash-lite'',
          ''gemini-2.5-flash-lite-preview'']
        (with_cache_read (details_new 100000 400000) 10000),
      record_new
        [''gemini-2.0-flash'', ''gemini-2-0-flash'', ''gemini-2.0-flash-001'']
        (with_cache_read (details_new 100000 400000) 25000),
      record_new
        [''gemini-2.0-flash-lite'', ''gemini-2-0-flash-lite'',
          ''gemini-2.0-flash-lite-001'']
        (details_new 75000 300000),
      record_new
        [''gemini-1.5-flash'', ''gemini-1-5-flash'', ''gemini-1.5-flash-latest'']
        (details_new 75000 300000),
      record_new
        [''gemini-1.5-pro'', ''gemini-1-5-pro'', ''gemini-1.5-pro-latest'']
        (details_new 1250000 5000000)]"

definition glm_catalog :: "pricing_record list" where
  "glm_catalog =
     [record_new
        [''glm-5.1'', ''glm-5-1'']
        (with_cache_read (details_new 1400000 4400000) 260000),
      record_new
        [''glm-5'']
        (with_cache_read (details_new 1000000 3200000) 200000),
      record_new
        [''glm-5-turbo'']
        (with_cache_read (details_new 1200000 4000000) 240000),
      record_new
        [''glm-4.7'', ''glm-4-7'', ''glm-4.6'', ''glm-4-6'', ''glm-4.5'',
          ''glm-4-5'']
        (with_cache_read (details_new 600000 2200000) 110000),
      record_new
        [''glm-4.7-flashx'', ''glm-4-7-flashx'']
        (with_cache_read (details_new 70000 400000) 10000),
      record_new
        [''glm-4.5-x'', ''glm-4-5-x'']
        (with_cache_read (details_new 2200000 8900000) 450000),
      record_new
        [''glm-4.5-air'', ''glm-4-5-air'']
        (with_cache_read (details_new 200000 1100000) 30000),
      record_new
        [''glm-4.5-airx'', ''glm-4-5-airx'']
        (with_cache_read (details_new 1100000 4500000) 220000),
      record_new [''glm-4-32b-0414-128k'', ''glm-4-32b-128k''] (details_new 100000 100000),
      record_new
        [''glm-4.7-flash'', ''glm-4-7-flash'', ''glm-4.5-flash'', ''glm-4-5-flash'']
        (with_cache_read (details_new 0 0) 0)]"

definition minimax_catalog :: "pricing_record list" where
  "minimax_catalog =
     [record_tiered [''minimax-m3'', ''minimax-m3-standard''] (minimax_m3_standard_tiers),
      record_tiered [''minimax-m3-priority''] (minimax_m3_priority_tiers),
      record_new
        [''minimax-m2.7'', ''minimax-m2-7'']
        (with_cache (details_new 300000 1200000) 375000 60000),
      record_new
        [''minimax-m2.7-highspeed'', ''minimax-m2-7-highspeed'']
        (with_cache (details_new 600000 2400000) 375000 60000),
      record_new
        [''minimax-m2.5'', ''minimax-m2-5'', ''minimax-m2.1'', ''minimax-m2-1'',
          ''minimax-m2'']
        (with_cache (details_new 300000 1200000) 375000 30000),
      record_new
        [''minimax-m2.5-highspeed'', ''minimax-m2-5-highspeed'',
          ''minimax-m2.1-highspeed'', ''minimax-m2-1-highspeed'']
        (with_cache (details_new 600000 2400000) 375000 30000)]"

definition qwen_catalog :: "pricing_record list" where
  "qwen_catalog =
     [record_new
        [''qwen3.7-max'', ''qwen3-7-max'', ''qwen3.7-max-2026-06-08'',
          ''qwen3-7-max-2026-06-08'', ''qwen3.7-max-2026-05-20'',
          ''qwen3-7-max-2026-05-20'']
        (qwen_pricing 12000 36000),
      record_tiered [''qwen3-max'', ''qwen3-max-2026-01-23''] (qwen3_max_tiers),
      record_tiered [''qwen3-max-preview''] (qwen3_max_preview_tiers),
      record_new [''qwen-max''] (qwen_pricing 2400 9600),
      record_tiered
        [''qwen3.7-plus'', ''qwen3-7-plus'', ''qwen3.7-plus-2026-05-26'',
          ''qwen3-7-plus-2026-05-26'']
        (qwen3_7_plus_tiers),
      record_tiered [''qwen3.6-plus'', ''qwen3-6-plus''] (qwen3_6_plus_tiers),
      record_tiered [''qwen3.5-plus'', ''qwen3-5-plus''] (qwen3_5_plus_tiers),
      record_tiered
        [''qwen-plus'', ''qwen-plus-latest'', ''qwen-plus-2025-12-01'',
          ''qwen2.5-plus'', ''qwen2-5-plus'']
        (qwen_plus_tiers),
      record_tiered [''qwen3.6-flash'', ''qwen3-6-flash''] (qwen3_6_flash_tiers),
      record_tiered [''qwen3.5-flash'', ''qwen3-5-flash''] (qwen3_5_flash_tiers),
      record_tiered [''qwen-flash'', ''qwen-flash-2025-07-28''] (qwen_flash_tiers),
      record_new [''qwen-turbo''] (qwen_pricing 300 600)]"

definition kimi_catalog :: "pricing_record list" where
  "kimi_catalog =
     [record_new
        [''kimi-k2.7-code'', ''kimi-k2-7-code'']
        (with_cache_read (details_new 950000 4000000) 190000),
      record_new
        [''kimi-k2.7-code-highspeed'', ''kimi-k2-7-code-highspeed'']
        (with_cache_read (details_new 1900000 8000000) 380000),
      record_new
        [''kimi-k2.6'', ''kimi-k2-6'']
        (with_cache_read (details_new 950000 4000000) 160000),
      record_new
        [''kimi-k2.5'', ''kimi-k2-5'']
        (with_cache_read (details_new 600000 3000000) 100000),
      record_new [''moonshot-v1-8k'', ''moonshot-v1-8k-vision-preview''] (details_new 200000 2000000),
      record_new [''moonshot-v1-32k'', ''moonshot-v1-32k-vision-preview''] (details_new 1000000 3000000),
      record_new [''moonshot-v1-128k'', ''moonshot-v1-128k-vision-preview''] (details_new 2000000 5000000)]"

definition mimo_catalog :: "pricing_record list" where
  "mimo_catalog =
     [record_new
        [''mimo-v2.5-pro'', ''mimo-v2-5-pro'', ''mimo-v2-pro'']
        (with_cache (details_new 435000 870000) 0 3600),
      record_new
        [''mimo-v2.5'', ''mimo-v2-5'', ''mimo-v2-omni'']
        (with_cache (details_new 140000 280000) 0 2800),
      record_new
        [''mimo-v2-flash'']
        (with_cache (details_new 100000 300000) 0 10000)]"

definition deepseek_catalog :: "pricing_record list" where
  "deepseek_catalog =
     [record_new
        [''deepseek-v4-flash'', ''deepseek-chat'', ''deepseek-reasoner'']
        (with_cache_read (details_new 140000 280000) 2800),
      record_new
        [''deepseek-v4-pro'']
        (with_cache_read (details_new 435000 870000) 3625)]"

definition model_pricing_catalog :: "pricing_record list" where
  "model_pricing_catalog =
     grok_catalog @ openai_catalog @ anthropic_catalog @ gemini_catalog @ glm_catalog @ minimax_catalog @ qwen_catalog @ kimi_catalog @ mimo_catalog @ deepseek_catalog"

section \<open>Lookups\<close>

definition normalize_model_id :: "string \<Rightarrow> string" where
  "normalize_model_id model_id =
     (let lower = map ascii_lower (trim model_id);
          after_colon = (case rsplit_once (CHR '':'') lower of None \<Rightarrow> lower | Some (_, m) \<Rightarrow> m)
      in (case rsplit_once slash after_colon of None \<Rightarrow> after_colon | Some (_, m) \<Rightarrow> m))"

definition lookup_model_pricing_profile :: "string \<Rightarrow> model_pricing_profile option" where
  "lookup_model_pricing_profile model_id =
     (let normalized = normalize_model_id model_id
      in map_option pr_profile (find (\<lambda>r. normalized \<in> set (pr_aliases r)) model_pricing_catalog))"

definition known_model_pricing_profile :: "string \<Rightarrow> model_pricing_profile option" where
  "known_model_pricing_profile model_id = lookup_model_pricing_profile model_id"

definition known_model_pricing_details :: "string \<Rightarrow> model_pricing_details option" where
  "known_model_pricing_details model_id =
     map_option profile_default_details (known_model_pricing_profile model_id)"

definition known_model_pricing :: "string \<Rightarrow> model_pricing option" where
  "known_model_pricing model_id =
     map_option profile_standard_pricing (known_model_pricing_profile model_id)"

definition estimate_pricing_for_model :: "string \<Rightarrow> usage \<Rightarrow> pricing_estimate option" where
  "estimate_pricing_for_model model_id u =
     map_option (\<lambda>p. profile_estimate p u) (known_model_pricing_profile model_id)"

section \<open>The catalog is unambiguous\<close>

text \<open>
  Every alias names one row and is its own normal form, so each row is found under each of its
  aliases. The check goes provider by provider: within a provider the aliases are compared with one
  another, across providers their first three characters already differ.
\<close>

definition catalog_aliases :: "pricing_record list \<Rightarrow> string list" where
  "catalog_aliases rows = concat (map pr_aliases rows)"

definition plain_char :: "char \<Rightarrow> bool" where
  "plain_char c \<longleftrightarrow>
     (let n = of_char c :: nat in 45 \<le> n \<and> n \<le> 46 \<or> 48 \<le> n \<and> n \<le> 57 \<or> 97 \<le> n \<and> n \<le> 122)"

definition keyed :: "pricing_record list \<Rightarrow> string set \<Rightarrow> bool" where
  "keyed rows keys \<longleftrightarrow>
     distinct (catalog_aliases rows) \<and> (\<forall>a \<in> set (catalog_aliases rows). take 3 a \<in> keys)
     \<and> list_all (\<lambda>a. a \<noteq> [] \<and> list_all plain_char a) (catalog_aliases rows)"

lemma pr_aliases_record [simp]:
  "pr_aliases (record_new a p) = a" "pr_aliases (record_tiered a ts) = a"
  by (simp_all add: record_new_def record_tiered_def)

lemma keyed_append:
  assumes "keyed xs S" and "keyed ys T" and "S \<inter> T = {}"
  shows "keyed (xs @ ys) (S \<union> T)"
proof -
  have "catalog_aliases (xs @ ys) = catalog_aliases xs @ catalog_aliases ys"
    by (simp add: catalog_aliases_def)
  with assms show ?thesis unfolding keyed_def by auto
qed

lemma grok_keyed: "keyed grok_catalog {''gro''}"
  by (simp add: keyed_def catalog_aliases_def grok_catalog_def plain_char_def)

lemma openai_keyed: "keyed openai_catalog {''cha'', ''gpt'', ''o1'', ''o1-'', ''o3'', ''o3-'', ''o4-''}"
  by (simp add: keyed_def catalog_aliases_def openai_catalog_def plain_char_def)

lemma anthropic_keyed: "keyed anthropic_catalog {''cla''}"
  by (simp add: keyed_def catalog_aliases_def anthropic_catalog_def plain_char_def)

lemma gemini_keyed: "keyed gemini_catalog {''gem''}"
  by (simp add: keyed_def catalog_aliases_def gemini_catalog_def plain_char_def)

lemma glm_keyed: "keyed glm_catalog {''glm''}"
  by (simp add: keyed_def catalog_aliases_def glm_catalog_def plain_char_def)

lemma minimax_keyed: "keyed minimax_catalog {''min''}"
  by (simp add: keyed_def catalog_aliases_def minimax_catalog_def plain_char_def)

lemma qwen_keyed: "keyed qwen_catalog {''qwe''}"
  by (simp add: keyed_def catalog_aliases_def qwen_catalog_def plain_char_def)

lemma kimi_keyed: "keyed kimi_catalog {''kim'', ''moo''}"
  by (simp add: keyed_def catalog_aliases_def kimi_catalog_def plain_char_def)

lemma mimo_keyed: "keyed mimo_catalog {''mim''}"
  by (simp add: keyed_def catalog_aliases_def mimo_catalog_def plain_char_def)

lemma deepseek_keyed: "keyed deepseek_catalog {''dee''}"
  by (simp add: keyed_def catalog_aliases_def deepseek_catalog_def plain_char_def)

lemma catalog_keyed: "\<exists>S. keyed model_pricing_catalog S"
  unfolding model_pricing_catalog_def
  by (rule exI, rule keyed_append [OF grok_keyed],
      rule keyed_append [OF openai_keyed],
      rule keyed_append [OF anthropic_keyed],
      rule keyed_append [OF gemini_keyed],
      rule keyed_append [OF glm_keyed],
      rule keyed_append [OF minimax_keyed],
      rule keyed_append [OF qwen_keyed],
      rule keyed_append [OF kimi_keyed],
      rule keyed_append [OF mimo_keyed],
      rule deepseek_keyed) simp_all

lemma plain_char_safe:
  assumes "plain_char c"
  shows "ascii_lower c = c" and "c \<noteq> CHR '':''" and "c \<noteq> slash"
  using assms by (auto simp: plain_char_def ascii_lower_def Let_def)

definition visible_char :: "char \<Rightarrow> bool" where
  "visible_char c \<longleftrightarrow> 33 \<le> (of_char c :: nat) \<and> (of_char c :: nat) \<le> 126"

lemma whitespace_not_visible: "w \<in> set whitespace_encodings \<Longrightarrow> \<forall>c \<in> set w. \<not> visible_char c"
  by (auto simp: whitespace_encodings_def visible_char_def)

lemma lower_plain_visible: "plain_char (ascii_lower c) \<Longrightarrow> visible_char c"
  by (auto simp: plain_char_def visible_char_def ascii_lower_def Let_def split: if_splits)

lemma trim_visible: "list_all visible_char a \<Longrightarrow> trim a = a"
  using trim_skip whitespace_not_visible by blast

text \<open>A provider prefix and a vendor path in front of a model name are dropped.\<close>

lemma rsplit_once_last: "c \<notin> set b \<Longrightarrow> rsplit_once c (a @ c # b) = Some (a, b)"
proof -
  assume c: "c \<notin> set b"
  have "takeWhile (\<lambda>x. x \<noteq> c) (rev (a @ c # b)) = rev b"
    using c by (simp add: takeWhile_append)
  then show ?thesis by (simp add: rsplit_once_def Let_def)
qed

lemma rsplit_once_None: "c \<notin> set a \<Longrightarrow> rsplit_once c a = None"
  by (simp add: rsplit_once_def)

text \<open>
  The spellings of a model name: with or without a provider prefix and a vendor path, in any case.
\<close>

definition spelling_of :: "string \<Rightarrow> string \<Rightarrow> bool" where
  "spelling_of a m \<longleftrightarrow>
     (\<exists>p b. map ascii_lower b = a \<and> list_all visible_char p
        \<and> (m = b \<or> m = p @ '':'' @ b \<or> m = p @ ''/'' @ b))"

lemma normalize_spelling:
  assumes plain: "list_all plain_char a" and m: "spelling_of a m"
  shows "normalize_model_id m = a"
proof -
  obtain p b where a: "map ascii_lower b = a" and p: "list_all visible_char p"
    and m: "m = b \<or> m = p @ '':'' @ b \<or> m = p @ ''/'' @ b"
    using m by (auto simp: spelling_of_def)
  have b: "list_all visible_char b"
    using plain lower_plain_visible by (auto simp: a [symmetric] list_all_iff)
  have sep: "CHR '':'' \<notin> set a" "slash \<notin> set a"
    using plain plain_char_safe by (auto simp: list_all_iff)
  note none = sep [THEN rsplit_once_None]
  have "list_all visible_char m" using m p b by (auto simp: visible_char_def)
  then have trim: "trim m = m" by (rule trim_visible)
  let ?lp = "map ascii_lower p"
  have lower: "ascii_lower (CHR '':'') = CHR '':''" "ascii_lower slash = slash"
    by (simp_all add: ascii_lower_def)
  from m consider (bare) "m = b" | (colon) "m = p @ '':'' @ b" | (path) "m = p @ ''/'' @ b" by blast
  then show ?thesis
  proof cases
    case bare
    then show ?thesis unfolding normalize_model_id_def trim by (simp add: a none)
  next
    case colon
    have "rsplit_once (CHR '':'') (map ascii_lower m) = Some (?lp, a)"
      using rsplit_once_last [OF sep(1), of ?lp] by (simp add: colon a lower)
    then show ?thesis unfolding normalize_model_id_def trim by (simp add: none)
  next
    case path
    have low: "map ascii_lower m = ?lp @ slash # a" by (simp add: path a lower)
    show ?thesis
    proof (cases "CHR '':'' \<in> set ?lp")
      case True
      then obtain x y where lp: "?lp = x @ CHR '':'' # y" and y: "CHR '':'' \<notin> set y"
        by (metis split_list_last)
      have "rsplit_once (CHR '':'') (map ascii_lower m) = Some (x, y @ slash # a)"
        unfolding low lp using rsplit_once_last [of "CHR '':''" "y @ slash # a" x] y sep(1) by simp
      then show ?thesis
        unfolding normalize_model_id_def trim using rsplit_once_last [OF sep(2), of y] by simp
    next
      case False
      then have "rsplit_once (CHR '':'') (map ascii_lower m) = None"
        unfolding low by (intro rsplit_once_None) (simp add: sep(1))
      then show ?thesis
        unfolding normalize_model_id_def trim using low rsplit_once_last [OF sep(2), of ?lp] by simp
    qed
  qed
qed

lemma find_unique:
  assumes "distinct (concat (map f rs))" and "r \<in> set rs" and "x \<in> set (f r)"
  shows "find (\<lambda>r. x \<in> set (f r)) rs = Some r"
  using assms by (induction rs) auto

lemma lookup_by_alias:
  assumes r: "r \<in> set model_pricing_catalog" and a: "a \<in> set (pr_aliases r)"
    and m: "spelling_of a m"
  shows "lookup_model_pricing_profile m = Some (pr_profile r)"
proof -
  have "distinct (concat (map pr_aliases model_pricing_catalog))"
    using catalog_keyed by (auto simp: keyed_def catalog_aliases_def)
  moreover have "list_all plain_char a"
    using catalog_keyed r a by (auto simp: keyed_def catalog_aliases_def list_all_iff)
  ultimately show ?thesis
    using find_unique [of pr_aliases model_pricing_catalog r a] r a normalize_spelling [OF _ m]
    by (simp add: lookup_model_pricing_profile_def)
qed

section \<open>The tier tables cover every input length\<close>

lemmas tier_table_defs = openai_gpt56_sol_tiers_def openai_gpt56_terra_tiers_def
  openai_gpt56_luna_tiers_def gemini_3_1_pro_preview_tiers_def gemini_2_5_pro_tiers_def
  minimax_m3_standard_tiers_def minimax_m3_priority_tiers_def qwen3_max_tiers_def
  qwen3_max_preview_tiers_def qwen3_7_plus_tiers_def qwen3_6_plus_tiers_def qwen3_5_plus_tiers_def
  qwen_plus_tiers_def qwen3_6_flash_tiers_def qwen3_5_flash_tiers_def qwen_flash_tiers_def

lemma pr_profile_record [simp]:
  "profile_tiers (pr_profile (record_new a p)) = None" "profile_tiers (pr_profile (record_tiered a ts)) = Some ts"
  by (simp_all add: record_new_def record_tiered_def)

lemma tier_limit [simp]:
  "mpt_max_input_tokens (tier_new m p) = m" "mpt_max_input_tokens (qwen_tier m i out) = m"
  by (simp_all add: tier_new_def qwen_tier_def)

lemma tier_tables_ascending:
  "list_all tiers_ascending [openai_gpt56_sol_tiers, openai_gpt56_terra_tiers, openai_gpt56_luna_tiers,
     gemini_3_1_pro_preview_tiers, gemini_2_5_pro_tiers, minimax_m3_standard_tiers,
     minimax_m3_priority_tiers, qwen3_max_tiers, qwen3_max_preview_tiers, qwen3_7_plus_tiers,
     qwen3_6_plus_tiers, qwen3_5_plus_tiers, qwen_plus_tiers, qwen3_6_flash_tiers,
     qwen3_5_flash_tiers, qwen_flash_tiers]"
  by (simp add: tiers_ascending_def tier_table_defs)

lemmas catalog_defs = model_pricing_catalog_def grok_catalog_def openai_catalog_def
  anthropic_catalog_def gemini_catalog_def glm_catalog_def minimax_catalog_def qwen_catalog_def
  kimi_catalog_def mimo_catalog_def deepseek_catalog_def

lemma catalog_tiers_ascending:
  "list_all (\<lambda>r. case profile_tiers (pr_profile r) of None \<Rightarrow> True | Some ts \<Rightarrow> tiers_ascending ts)
     model_pricing_catalog"
  using tier_tables_ascending by (simp add: catalog_defs)

end
