(* ===== verification/Task_Board.thy ===== *)
theory Task_Board
  imports Logical_Path
begin

text \<open>
  The task board of an agent (\<open>starweaver-context/src/task.rs\<close>): task records, the manager that
  creates, updates and lists them, and the dependency links it keeps in both directions. The clock is
  an argument; the JSON export and import are not modelled.
\<close>

section \<open>Records\<close>

datatype task_status = TaskPending | TaskInProgress | TaskCompleted

definition task_status_parse :: "string \<Rightarrow> task_status option" where
  "task_status_parse value =
     (let v = trim value
      in if v = ''pending'' then Some TaskPending
         else if v = ''in_progress'' then Some TaskInProgress
         else if v = ''completed'' then Some TaskCompleted
         else None)"

fun task_status_as_str :: "task_status \<Rightarrow> string" where
  "task_status_as_str TaskPending = ''pending''"
| "task_status_as_str TaskInProgress = ''in_progress''"
| "task_status_as_str TaskCompleted = ''completed''"

definition task_status_is_completed :: "task_status \<Rightarrow> bool" where
  "task_status_is_completed s \<longleftrightarrow> s = TaskCompleted"

record task =
  tk_id :: string
  tk_subject :: string
  tk_description :: string
  tk_status :: task_status
  tk_active_form :: "string option"
  tk_owner :: "string option"
  tk_blocked_by :: "string list"
  tk_blocks :: "string list"
  tk_metadata :: metadata
  tk_created_at :: datetime
  tk_updated_at :: datetime

definition task_new :: "datetime \<Rightarrow> string \<Rightarrow> string \<Rightarrow> string \<Rightarrow> task" where
  "task_new now i subject description =
     \<lparr>tk_id = i, tk_subject = subject, tk_description = description, tk_status = TaskPending,
      tk_active_form = None, tk_owner = None, tk_blocked_by = [], tk_blocks = [], tk_metadata = [],
      tk_created_at = now, tk_updated_at = now\<rparr>"

definition task_is_blocked :: "task \<Rightarrow> bool" where
  "task_is_blocked t \<longleftrightarrow> tk_blocked_by t \<noteq> []"

definition task_set_status :: "datetime \<Rightarrow> task_status \<Rightarrow> task \<Rightarrow> task" where
  "task_set_status now s t = t\<lparr>tk_status := s, tk_updated_at := now\<rparr>"

section \<open>Identifiers\<close>

definition normalize_task_id :: "string \<Rightarrow> string" where
  "normalize_task_id i = trim_start_char (CHR ''#'') (trim i)"

text \<open>\<open>str::parse::<u64>\<close>: an optional plus sign, then at least one digit, in range.\<close>

definition parse_u64 :: "string \<Rightarrow> u64 option" where
  "parse_u64 s =
     (let digits = (case s of c # r \<Rightarrow> if c = CHR ''+'' then r else s | [] \<Rightarrow> [])
      in if digits \<noteq> [] \<and> list_all is_digit digits \<and> digits_value 0 digits < 2 ^ 64
         then Some (of_nat (digits_value 0 digits)) else None)"

text \<open>For evaluation, the range test is made on integers, where the bound has a short numeral.\<close>

lemma parse_u64_code [code]:
  "parse_u64 s =
     (let digits = (case s of c # r \<Rightarrow> if c = CHR ''+'' then r else s | [] \<Rightarrow> [])
      in if digits \<noteq> [] \<and> list_all is_digit digits
            \<and> int (digits_value 0 digits) < 18446744073709551616
         then Some (of_nat (digits_value 0 digits)) else None)"
proof -
  have "n < 2 ^ 64 \<longleftrightarrow> int n < 18446744073709551616" for n
    unfolding of_nat_less_numeral_iff by simp
  then show ?thesis by (simp add: parse_u64_def)
qed

definition task_sort_key :: "string \<Rightarrow> nat \<times> u64 \<times> string" where
  "task_sort_key i =
     (case parse_u64 (normalize_task_id i) of
        None \<Rightarrow> (1, 0, i)
      | Some v \<Rightarrow> (0, v, []))"

fun extend_unique :: "string list \<Rightarrow> string list \<Rightarrow> string list" where
  "extend_unique target [] = target"
| "extend_unique target (v # vs) =
     (let n = normalize_task_id v
      in extend_unique (if n \<noteq> [] \<and> n \<notin> set target then target @ [n] else target) vs)"

section \<open>The manager\<close>

type_synonym task_manager = "(string, task) btmap"

definition numeric_ids :: "task_manager \<Rightarrow> u64 list" where
  "numeric_ids m = List.map_filter (\<lambda>i. parse_u64 (normalize_task_id i)) (map fst m)"

definition next_id :: "task_manager \<Rightarrow> string" where
  "next_id m =
     u64_to_string (u64_saturating_add (foldr max (numeric_ids m) 0) 1)"

definition task_create ::
    "datetime \<Rightarrow> string \<Rightarrow> string \<Rightarrow> string option \<Rightarrow> metadata \<Rightarrow> task_manager \<Rightarrow> task \<times> task_manager" where
  "task_create now subject description active_form meta m =
     (let i = next_id m;
          t = (task_new now i subject description)\<lparr>tk_active_form := active_form, tk_metadata := meta\<rparr>
      in (t, bt_insert i t m))"

definition task_get :: "task_manager \<Rightarrow> string \<Rightarrow> task option" where
  "task_get m i = map_of m i"

definition list_all_tasks :: "task_manager \<Rightarrow> task list" where
  "list_all_tasks m = sort_key (\<lambda>t. task_sort_key (tk_id t)) (bt_values m)"

definition replace_all :: "task list \<Rightarrow> task_manager" where
  "replace_all ts = fold (\<lambda>t m. bt_insert (normalize_task_id (tk_id t)) t m) ts []"

definition modify_task :: "string \<Rightarrow> (task \<Rightarrow> task) \<Rightarrow> task_manager \<Rightarrow> task_manager" where
  "modify_task i f m = (case map_of m i of None \<Rightarrow> m | Some t \<Rightarrow> bt_insert i (f t) m)"

definition add_blocking_relationship :: "datetime \<Rightarrow> string \<Rightarrow> string \<Rightarrow> task_manager \<Rightarrow> task_manager" where
  "add_blocking_relationship now task_id blocked m =
     (let b = normalize_task_id blocked;
          m1 = modify_task task_id (\<lambda>t. t\<lparr>tk_blocks := extend_unique (tk_blocks t) [b]\<rparr>) m
      in modify_task b
           (\<lambda>t. t\<lparr>tk_blocked_by := extend_unique (tk_blocked_by t) [task_id], tk_updated_at := now\<rparr>) m1)"

definition add_blocked_by_relationship :: "datetime \<Rightarrow> string \<Rightarrow> string \<Rightarrow> task_manager \<Rightarrow> task_manager" where
  "add_blocked_by_relationship now task_id blocker m =
     (let b = normalize_task_id blocker;
          m1 = modify_task task_id (\<lambda>t. t\<lparr>tk_blocked_by := extend_unique (tk_blocked_by t) [b]\<rparr>) m
      in modify_task b
           (\<lambda>t. t\<lparr>tk_blocks := extend_unique (tk_blocks t) [task_id], tk_updated_at := now\<rparr>) m1)"

definition resolve_completion :: "datetime \<Rightarrow> string \<Rightarrow> task_manager \<Rightarrow> task_manager" where
  "resolve_completion now task_id m =
     (case map_of m task_id of
        None \<Rightarrow> m
      | Some t \<Rightarrow>
          fold (\<lambda>b. modify_task b
                 (\<lambda>x. x\<lparr>tk_blocked_by := filter (\<lambda>i. i \<noteq> task_id) (tk_blocked_by x), tk_updated_at := now\<rparr>))
            (tk_blocks t) m)"

record task_update =
  tu_status :: "task_status option"
  tu_subject :: "string option"
  tu_description :: "string option"
  tu_active_form :: "string option option"
  tu_owner :: "string option option"
  tu_add_blocks :: "string list option"
  tu_add_blocked_by :: "string list option"
  tu_metadata :: "metadata option"

definition nonblank :: "string option \<Rightarrow> string option" where
  "nonblank v = (case v of Some s \<Rightarrow> if trim s = [] then None else Some s | None \<Rightarrow> None)"

definition given :: "'a list option \<Rightarrow> 'a list" where
  "given v = (case v of None \<Rightarrow> [] | Some xs \<Rightarrow> xs)"

definition apply_update :: "datetime \<Rightarrow> task_update \<Rightarrow> task \<Rightarrow> task" where
  "apply_update now u t =
     \<lparr>tk_id = tk_id t,
      tk_subject = (case nonblank (tu_subject u) of Some s \<Rightarrow> s | None \<Rightarrow> tk_subject t),
      tk_description = (case nonblank (tu_description u) of Some s \<Rightarrow> s | None \<Rightarrow> tk_description t),
      tk_status = (case tu_status u of Some s \<Rightarrow> s | None \<Rightarrow> tk_status t),
      tk_active_form = (case tu_active_form u of Some a \<Rightarrow> a | None \<Rightarrow> tk_active_form t),
      tk_owner = (case tu_owner u of Some w \<Rightarrow> w | None \<Rightarrow> tk_owner t),
      tk_blocked_by = extend_unique (tk_blocked_by t) (given (tu_add_blocked_by u)),
      tk_blocks = extend_unique (tk_blocks t) (given (tu_add_blocks u)),
      tk_metadata = (case tu_metadata u of
                       None \<Rightarrow> tk_metadata t
                     | Some ms \<Rightarrow> fold (\<lambda>(k, v). bt_insert k v) ms (tk_metadata t)),
      tk_created_at = tk_created_at t, tk_updated_at = now\<rparr>"

definition task_update_op ::
    "datetime \<Rightarrow> string \<Rightarrow> task_update \<Rightarrow> task_manager \<Rightarrow> task option \<times> task_manager" where
  "task_update_op now raw_id u m =
     (let i = normalize_task_id raw_id;
          was_completed = (tu_status u = Some TaskCompleted
            \<and> (case map_of m i of Some t \<Rightarrow> \<not> task_status_is_completed (tk_status t) | None \<Rightarrow> False))
      in (case map_of m i of
            None \<Rightarrow> (None, m)
          | Some t \<Rightarrow>
              let m1 = bt_insert i (apply_update now u t) m;
                  m2 = fold (add_blocking_relationship now i) (given (tu_add_blocks u)) m1;
                  m3 = fold (add_blocked_by_relationship now i) (given (tu_add_blocked_by u)) m2;
                  m4 = (if was_completed then resolve_completion now i m3 else m3)
              in (map_of m4 i, m4)))"

definition tasks_is_empty :: "task_manager \<Rightarrow> bool" where
  "tasks_is_empty m \<longleftrightarrow> m = []"

section \<open>New identifiers are fresh\<close>

lemma digit_not_marker: "is_digit c \<Longrightarrow> c \<noteq> CHR ''#'' \<and> c \<noteq> CHR ''+''"
  by (auto simp: is_digit_def)

lemma digit_not_space: "w \<in> set whitespace_encodings \<Longrightarrow> \<forall>c \<in> set w. \<not> is_digit c"
  by (auto simp: whitespace_encodings_def is_digit_def)

lemma digits_stable:
  assumes "list_all is_digit s"
  shows "normalize_task_id s = s"
proof -
  have "trim s = s" using trim_skip digit_not_space assms by blast
  moreover have "dropWhile (\<lambda>x. x = CHR ''#'') s = s"
    using assms digit_not_marker by (cases s) auto
  ultimately show ?thesis by (simp add: normalize_task_id_def trim_start_char_def)
qed

lemma u64_to_string_digits: "list_all is_digit (u64_to_string n)" "u64_to_string n \<noteq> []"
  using nat_to_string_digits nat_to_string_nonempty by (simp_all add: u64_to_string_def list_all_iff)

lemma parse_u64_to_string: "parse_u64 (u64_to_string n) = Some n"
proof -
  obtain c r where s: "u64_to_string n = c # r" using u64_to_string_digits(2) by (cases "u64_to_string n") auto
  have "c \<noteq> CHR ''+''" using u64_to_string_digits(1) [of n] digit_not_marker by (simp add: s)
  moreover have "digits_value 0 (u64_to_string n) = unat n"
    by (simp add: u64_to_string_def digits_value_nat_to_string)
  ultimately show ?thesis
    using u64_to_string_digits [of n] u64_unat_bound [of n]
    by (simp add: parse_u64_def s Let_def del: digits_value.simps)
qed

lemma foldr_max_ge: "x \<in> set xs \<Longrightarrow> (x::u64) \<le> foldr max xs 0"
  by (induction xs) (auto simp: max_def)

lemma next_id_fresh:
  assumes "foldr max (numeric_ids m) 0 \<noteq> - 1"
  shows "next_id m \<notin> bt_keys m"
proof
  let ?n = "u64_saturating_add (foldr max (numeric_ids m) 0) 1"
  assume "next_id m \<in> bt_keys m"
  moreover have "parse_u64 (normalize_task_id (next_id m)) = Some ?n"
    by (simp add: next_id_def digits_stable u64_to_string_digits parse_u64_to_string)
  ultimately have "?n \<in> set (numeric_ids m)"
    by (force simp: numeric_ids_def bt_keys_def map_filter_def)
  then have "?n \<le> foldr max (numeric_ids m) 0" by (rule foldr_max_ge)
  with u64_saturating_add_one_strict [OF assms] show False by simp
qed

section \<open>Links are kept in both directions\<close>

definition blockers :: "task_manager \<Rightarrow> string \<Rightarrow> string set" where
  "blockers m i = (case map_of m i of None \<Rightarrow> {} | Some t \<Rightarrow> set (tk_blocked_by t))"

definition blocked :: "task_manager \<Rightarrow> string \<Rightarrow> string set" where
  "blocked m i = (case map_of m i of None \<Rightarrow> {} | Some t \<Rightarrow> set (tk_blocks t))"

definition finished :: "task_manager \<Rightarrow> string \<Rightarrow> bool" where
  "finished m i \<longleftrightarrow> (\<exists>t. map_of m i = Some t \<and> tk_status t = TaskCompleted)"

definition plain_id :: "string \<Rightarrow> bool" where
  "plain_id i \<longleftrightarrow> normalize_task_id i = i \<and> i \<noteq> []"

lemma set_extend_unique:
  "set (extend_unique target vs) =
     set target \<union> {normalize_task_id v | v. v \<in> set vs \<and> normalize_task_id v \<noteq> []}"
  by (induction target vs rule: extend_unique.induct) (auto simp: Let_def)

lemma set_extend_stable: "plain_id i \<Longrightarrow> set (extend_unique target [i]) = insert i (set target)"
  unfolding set_extend_unique plain_id_def by auto

lemma modify_task_keys [simp]: "bt_keys (modify_task i f m) = bt_keys m"
proof (cases "map_of m i")
  case (Some t)
  then have "i \<in> bt_keys m" using map_of_None_keys [of m i] by auto
  then show ?thesis by (simp add: modify_task_def Some insert_absorb)
qed (simp add: modify_task_def)

lemma modify_task_of: "map_of (modify_task i f m) j = (if j = i then map_option f (map_of m i) else map_of m j)"
  by (simp add: modify_task_def split: option.splits)

lemmas link_defs = blockers_def blocked_def finished_def modify_task_of

lemma add_blocking_links:
  fixes now :: datetime
  assumes "plain_id i" and "plain_id (normalize_task_id x)" and "i \<in> bt_keys m"
    and "normalize_task_id x \<in> bt_keys m"
  defines "m' \<equiv> add_blocking_relationship now i x m"
  shows "blockers m' j = blockers m j \<union> (if j = normalize_task_id x then {i} else {})"
    and "blocked m' j = blocked m j \<union> (if j = i then {normalize_task_id x} else {})"
    and "finished m' j = finished m j" and "bt_keys m' = bt_keys m"
proof -
  obtain t b where "map_of m i = Some t" "map_of m (normalize_task_id x) = Some b"
    using assms(3,4) map_of_None_keys [of m] by (metis option.exhaust)
  then show "blockers m' j = blockers m j \<union> (if j = normalize_task_id x then {i} else {})"
    and "blocked m' j = blocked m j \<union> (if j = i then {normalize_task_id x} else {})"
    and "finished m' j = finished m j"
    using assms(1,2)
    by (auto simp: m'_def add_blocking_relationship_def Let_def link_defs set_extend_stable
      simp del: extend_unique.simps)
qed (simp add: m'_def add_blocking_relationship_def Let_def)

lemma add_blocked_by_links:
  fixes now :: datetime
  assumes "plain_id i" and "plain_id (normalize_task_id x)" and "i \<in> bt_keys m"
    and "normalize_task_id x \<in> bt_keys m"
  defines "m' \<equiv> add_blocked_by_relationship now i x m"
  shows "blockers m' j = blockers m j \<union> (if j = i then {normalize_task_id x} else {})"
    and "blocked m' j = blocked m j \<union> (if j = normalize_task_id x then {i} else {})"
    and "finished m' j = finished m j" and "bt_keys m' = bt_keys m"
proof -
  obtain t b where "map_of m i = Some t" "map_of m (normalize_task_id x) = Some b"
    using assms(3,4) map_of_None_keys [of m] by (metis option.exhaust)
  then show "blockers m' j = blockers m j \<union> (if j = i then {normalize_task_id x} else {})"
    and "blocked m' j = blocked m j \<union> (if j = normalize_task_id x then {i} else {})"
    and "finished m' j = finished m j"
    using assms(1,2)
    by (auto simp: m'_def add_blocked_by_relationship_def Let_def link_defs set_extend_stable
      simp del: extend_unique.simps)
qed (simp add: m'_def add_blocked_by_relationship_def Let_def)

text \<open>
  The links of a board: every key is in normal form, and whoever waits for a task is listed by it.
  The second clause says that nothing waits for a finished task.
\<close>

definition linked :: "string set \<Rightarrow> string \<Rightarrow> task_manager \<Rightarrow> bool" where
  "linked pending i m \<longleftrightarrow>
     (\<forall>k \<in> bt_keys m. plain_id k)
     \<and> (\<forall>k. \<forall>j \<in> blockers m k. j \<in> bt_keys m \<and> (k \<in> blocked m j \<or> k = i \<and> j \<in> pending))"

definition board_ok :: "task_manager \<Rightarrow> bool" where
  "board_ok m \<longleftrightarrow> bt_wf m \<and> linked {} [] m \<and> (\<forall>k. \<forall>j \<in> blockers m k. \<not> finished m j)"

lemma blockers_key: "j \<in> blockers m k \<Longrightarrow> k \<in> bt_keys m"
  using map_of_None_keys [of m k] by (auto simp: blockers_def split: option.splits)

lemma linked_none: "linked {} i m \<longleftrightarrow> linked {} [] m"
  by (simp add: linked_def)

lemma fold_blocking:
  fixes now :: datetime
  assumes "\<forall>x \<in> set xs. normalize_task_id x \<in> bt_keys m" and "i \<in> bt_keys m" and "linked P i m"
    and "\<forall>x \<in> set xs. normalize_task_id x \<in> blocked m i"
  defines "m' \<equiv> fold (add_blocking_relationship now i) xs m"
  shows "linked P i m' \<and> bt_keys m' = bt_keys m \<and> finished m' = finished m
    \<and> (\<forall>k. blockers m' k = blockers m k \<union> (if k \<in> normalize_task_id ` set xs then {i} else {}))
    \<and> (\<forall>k. blocked m k \<subseteq> blocked m' k)"
  using assms(1-4) unfolding m'_def
proof (induction xs arbitrary: m)
  case (Cons x xs)
  let ?m = "add_blocking_relationship now i x m"
  have plain: "plain_id i" "plain_id (normalize_task_id x)"
    using Cons.prems by (auto simp: linked_def)
  note link = add_blocking_links [where m = m and x = x and now = now, OF plain Cons.prems(2)]
  have key: "normalize_task_id x \<in> bt_keys m" using Cons.prems(1) by simp
  have "linked P i ?m"
    using Cons.prems(2,3,4) by (auto simp: linked_def link [OF key])
  then show ?case
    using Cons.IH [of ?m] Cons.prems by (auto simp: link [OF key] fun_eq_iff)
qed simp

lemma fold_blocked_by:
  fixes now :: datetime
  assumes "\<forall>x \<in> set xs. normalize_task_id x \<in> bt_keys m" and "i \<in> bt_keys m"
    and "linked (normalize_task_id ` set xs) i m"
    and "\<forall>x \<in> set xs. normalize_task_id x \<in> blockers m i"
  defines "m' \<equiv> fold (add_blocked_by_relationship now i) xs m"
  shows "linked {} i m' \<and> bt_keys m' = bt_keys m \<and> finished m' = finished m \<and> blockers m' = blockers m"
  using assms(1-4) unfolding m'_def
proof (induction xs arbitrary: m)
  case (Cons x xs)
  let ?m = "add_blocked_by_relationship now i x m"
  have plain: "plain_id i" "plain_id (normalize_task_id x)"
    using Cons.prems by (auto simp: linked_def)
  note link = add_blocked_by_links [where m = m and x = x and now = now, OF plain Cons.prems(2)]
  have key: "normalize_task_id x \<in> bt_keys m" using Cons.prems(1) by simp
  have same: "blockers ?m = blockers m"
    using Cons.prems(4) by (auto simp: link [OF key] fun_eq_iff)
  have "linked (normalize_task_id ` set xs) i ?m"
    using Cons.prems(3) by (auto simp: linked_def link(2-4) [OF key] same)
  then show ?case
    using Cons.IH [of ?m] Cons.prems same by (auto simp: link(2-4) [OF key] fun_eq_iff)
qed simp

lemma resolve_links:
  fixes now :: datetime and i :: string and m :: task_manager
  defines "m' \<equiv> resolve_completion now i m"
  shows "blockers m' k = blockers m k - (if k \<in> blocked m i then {i} else {})"
    and "blocked m' = blocked m" and "finished m' = finished m" and "bt_keys m' = bt_keys m"
proof -
  let ?f = "\<lambda>b. modify_task b
    (\<lambda>x. x\<lparr>tk_blocked_by := filter (\<lambda>j. j \<noteq> i) (tk_blocked_by x), tk_updated_at := now\<rparr>)"
  have step: "blockers (?f b m) k = blockers m k - (if k = b then {i} else {})"
      "blocked (?f b m) = blocked m" "finished (?f b m) = finished m" for b k m
    by (auto simp: link_defs fun_eq_iff split: option.splits)
  have fold: "blockers (fold ?f bs m) k = blockers m k - (if k \<in> set bs then {i} else {})
      \<and> blocked (fold ?f bs m) = blocked m \<and> finished (fold ?f bs m) = finished m
      \<and> bt_keys (fold ?f bs m) = bt_keys m" for bs k m
    by (induction bs arbitrary: m) (auto simp: step)
  show "blockers m' k = blockers m k - (if k \<in> blocked m i then {i} else {})"
    "blocked m' = blocked m" "finished m' = finished m" "bt_keys m' = bt_keys m"
    using fold by (auto simp: m'_def resolve_completion_def blocked_def [of m i] split: option.splits)
qed

lemma bt_wf_modify: "bt_wf m \<Longrightarrow> bt_wf (modify_task i f m)"
  by (simp add: modify_task_def split: option.splits)

lemma bt_wf_fold: "(\<And>x m. bt_wf m \<Longrightarrow> bt_wf (f x m)) \<Longrightarrow> bt_wf m \<Longrightarrow> bt_wf (fold f xs m)"
  by (induction xs arbitrary: m) auto

lemma bt_wf_task_update: "bt_wf m \<Longrightarrow> bt_wf (snd (task_update_op now r u m))"
  by (auto simp: task_update_op_def Let_def resolve_completion_def add_blocking_relationship_def
      add_blocked_by_relationship_def bt_wf_modify intro!: bt_wf_fold split: option.splits)

text \<open>
  A request that only names tasks of the board, waits for none that is finished and adds no waiter
  to a finished task.
\<close>

definition admissible :: "task_manager \<Rightarrow> string \<Rightarrow> task_update \<Rightarrow> bool" where
  "admissible m raw_id u \<longleftrightarrow>
     (\<forall>x \<in> set (given (tu_add_blocks u)). normalize_task_id x \<in> bt_keys m)
     \<and> (\<forall>x \<in> set (given (tu_add_blocked_by u)).
          normalize_task_id x \<in> bt_keys m \<and> \<not> finished m (normalize_task_id x))
     \<and> (given (tu_add_blocks u) \<noteq> [] \<longrightarrow> \<not> finished m (normalize_task_id raw_id))"

lemma apply_update_links:
  fixes now :: datetime
  assumes "map_of m i = Some t" and plain: "\<forall>k \<in> bt_keys m. plain_id k"
    and refs: "\<forall>x \<in> set (given (tu_add_blocks u)) \<union> set (given (tu_add_blocked_by u)).
      normalize_task_id x \<in> bt_keys m"
  defines "m1 \<equiv> bt_insert i (apply_update now u t) m"
  shows "blockers m1 k = blockers m k \<union> (if k = i then normalize_task_id ` set (given (tu_add_blocked_by u)) else {})"
    and "blocked m1 k = blocked m k \<union> (if k = i then normalize_task_id ` set (given (tu_add_blocks u)) else {})"
    and "k \<noteq> i \<Longrightarrow> finished m1 k = finished m k"
    and "finished m1 i = (case tu_status u of None \<Rightarrow> finished m i | Some s \<Rightarrow> s = TaskCompleted)"
    and "bt_keys m1 = bt_keys m"
proof -
  have "\<forall>x \<in> set (given (tu_add_blocks u)) \<union> set (given (tu_add_blocked_by u)). normalize_task_id x \<noteq> []"
    using refs plain by (auto simp: plain_id_def)
  then show "blockers m1 k = blockers m k \<union> (if k = i then normalize_task_id ` set (given (tu_add_blocked_by u)) else {})"
    "blocked m1 k = blocked m k \<union> (if k = i then normalize_task_id ` set (given (tu_add_blocks u)) else {})"
    using assms(1) by (auto simp: m1_def blockers_def blocked_def apply_update_def set_extend_unique)
  show "k \<noteq> i \<Longrightarrow> finished m1 k = finished m k"
    "finished m1 i = (case tu_status u of None \<Rightarrow> finished m i | Some s \<Rightarrow> s = TaskCompleted)"
    using assms(1) by (simp_all add: m1_def finished_def apply_update_def split: option.splits)
  have "i \<in> bt_keys m" using assms(1) map_of_None_keys [of m i] by auto
  then show "bt_keys m1 = bt_keys m" by (simp add: m1_def insert_absorb)
qed

lemma task_update_links:
  fixes now :: datetime
  assumes ok: "board_ok m" and adm: "admissible m raw_id u"
    and t: "map_of m (normalize_task_id raw_id) = Some t"
  defines "i \<equiv> normalize_task_id raw_id" and "m' \<equiv> snd (task_update_op now raw_id u m)"
  shows "board_ok m'" and "bt_keys m' = bt_keys m"
    and "tu_status u = Some TaskCompleted \<Longrightarrow> i \<notin> blockers m' k"
proof -
  let ?A = "given (tu_add_blocks u)" and ?B = "given (tu_add_blocked_by u)"
  define m1 where "m1 = bt_insert i (apply_update now u t) m"
  define m2 where "m2 = fold (add_blocking_relationship now i) ?A m1"
  define m3 where "m3 = fold (add_blocked_by_relationship now i) ?B m2"
  define c where "c \<longleftrightarrow> tu_status u = Some TaskCompleted \<and> \<not> finished m i"
  have m': "m' = (if c then resolve_completion now i m3 else m3)"
    using t by (simp add: m'_def task_update_op_def Let_def i_def [symmetric] m1_def m2_def m3_def c_def
        finished_def task_status_is_completed_def)
  have lk: "linked {} [] m" and open_m: "\<forall>k. \<forall>j \<in> blockers m k. \<not> finished m j"
    using ok by (simp_all add: board_ok_def)
  have plain: "\<forall>k \<in> bt_keys m. plain_id k" using lk by (simp add: linked_def)
  have refs: "\<forall>x \<in> set ?A \<union> set ?B. normalize_task_id x \<in> bt_keys m" using adm by (auto simp: admissible_def)
  have i: "i \<in> bt_keys m" using t map_of_None_keys [of m i] by (auto simp: i_def)
  have ti: "map_of m i = Some t" using t by (simp add: i_def)
  note s1 = apply_update_links [where now = now, OF ti plain refs, folded m1_def]
  have l1: "linked (normalize_task_id ` set ?B) i m1"
    using lk refs plain i by (auto simp: linked_def s1)
  have s2: "linked (normalize_task_id ` set ?B) i m2 \<and> bt_keys m2 = bt_keys m1 \<and> finished m2 = finished m1
      \<and> (\<forall>k. blockers m2 k = blockers m1 k \<union> (if k \<in> normalize_task_id ` set ?A then {i} else {}))
      \<and> (\<forall>k. blocked m1 k \<subseteq> blocked m2 k)"
    unfolding m2_def using refs i l1 by (intro fold_blocking) (auto simp: s1)
  have s3: "linked {} i m3 \<and> bt_keys m3 = bt_keys m2 \<and> finished m3 = finished m2 \<and> blockers m3 = blockers m2"
    unfolding m3_def using refs i s2 by (intro fold_blocked_by) (auto simp: s1)
  have l3: "\<forall>k. \<forall>j \<in> blockers m3 k. j \<in> bt_keys m3 \<and> k \<in> blocked m3 j"
    and p3: "\<forall>k \<in> bt_keys m3. plain_id k" using conjunct1 [OF s3] unfolding linked_def by blast+
  have gone: "i \<notin> blockers m' k" if c for k
    using that l3 by (auto simp: m' resolve_links)
  have keys: "bt_keys m' = bt_keys m" by (simp add: m' resolve_links s3 s2 s1)
  have sub: "blockers m' k \<subseteq> blockers m3 k" for k by (auto simp: m' resolve_links)
  have same: "blocked m' = blocked m3" "finished m' = finished m1"
    using s3 s2 by (simp_all add: m' resolve_links)
  have k3: "bt_keys m3 = bt_keys m'" using s3 s2 s1(5) keys by simp
  have lk': "linked {} [] m'"
    unfolding linked_def same using l3 p3 sub unfolding k3 by blast
  have b3: "blockers m3 k = blockers m k \<union> (if k = i then normalize_task_id ` set ?B else {})
      \<union> (if k \<in> normalize_task_id ` set ?A then {i} else {})" for k
    using s3 s2 by (simp add: s1)
  have fin: "\<not> finished m' j" if j: "j \<in> blockers m' k" for j k
  proof (cases "j = i")
    case True
    with j gone have "\<not> c" by blast
    moreover have "\<not> finished m i"
      using j sub [of k] b3 [of k] open_m adm True by (auto simp: admissible_def i_def split: if_splits)
    ultimately show ?thesis using True by (auto simp: same s1(4) c_def split: option.splits)
  next
    case False
    then have "j \<in> blockers m k \<or> j \<in> normalize_task_id ` set ?B"
      using j sub [of k] b3 [of k] by (auto split: if_splits)
    then have "\<not> finished m j" using open_m adm by (auto simp: admissible_def)
    with False show ?thesis by (simp add: same s1(3))
  qed
  have "bt_wf m'" using ok bt_wf_task_update by (simp add: board_ok_def m'_def)
  with lk' fin show "board_ok m'" by (auto simp: board_ok_def)
  show "bt_keys m' = bt_keys m" by (rule keys)
  show "i \<notin> blockers m' k" if "tu_status u = Some TaskCompleted"
  proof
    assume j: "i \<in> blockers m' k"
    then have "\<not> finished m' i" by (rule fin)
    with that show False by (simp add: same s1(4))
  qed
qed

section \<open>Boards\<close>

inductive board :: "task_manager \<Rightarrow> bool" where
  empty: "board []"
| created: "board m \<Longrightarrow> foldr max (numeric_ids m) 0 \<noteq> - 1
    \<Longrightarrow> board (snd (task_create now subject description active meta m))"
| updated: "board m \<Longrightarrow> admissible m raw_id u \<Longrightarrow> board (snd (task_update_op now raw_id u m))"

lemma task_create_links:
  assumes ok: "board_ok m" and fresh: "next_id m \<notin> bt_keys m"
  shows "board_ok (snd (task_create now subject description active meta m))"
proof -
  let ?m = "snd (task_create now subject description active meta m)" and ?i = "next_id m"
  have none: "map_of m ?i = None" using fresh by (simp add: map_of_None_keys)
  have k: "bt_keys ?m = insert ?i (bt_keys m)" by (simp add: task_create_def Let_def)
  have b: "blockers ?m = blockers m" "blocked ?m = blocked m" "finished ?m = finished m"
    using none by (auto simp: task_create_def Let_def task_new_def blockers_def blocked_def finished_def fun_eq_iff)
  have "plain_id ?i" by (simp add: plain_id_def next_id_def digits_stable u64_to_string_digits)
  moreover have "bt_wf ?m" using ok by (simp add: board_ok_def task_create_def Let_def)
  ultimately show ?thesis using ok unfolding board_ok_def linked_def k b by auto
qed

lemma board_invariant: "board m \<Longrightarrow> board_ok m"
proof (induction rule: board.induct)
  case empty
  show ?case by (simp add: board_ok_def linked_def blockers_def)
next
  case (created m)
  then show ?case using task_create_links next_id_fresh by blast
next
  case (updated m raw_id u now)
  show ?case
  proof (cases "map_of m (normalize_task_id raw_id)")
    case None
    then show ?thesis using updated.IH by (simp add: task_update_op_def Let_def)
  next
    case (Some t)
    then show ?thesis using task_update_links(1) updated by blast
  qed
qed

text \<open>On a board a task is blocked exactly when a task it waits for is unfinished.\<close>

lemma blocked_iff_unfinished:
  assumes "board m" and "map_of m i = Some t"
  shows "task_is_blocked t \<longleftrightarrow>
    (\<exists>j s. j \<in> set (tk_blocked_by t) \<and> map_of m j = Some s \<and> tk_status s \<noteq> TaskCompleted)"
proof -
  have ok: "board_ok m" using assms(1) by (rule board_invariant)
  have "\<exists>s. map_of m j = Some s \<and> tk_status s \<noteq> TaskCompleted" if "j \<in> set (tk_blocked_by t)" for j
  proof -
    have j: "j \<in> blockers m i" using that assms(2) by (simp add: blockers_def)
    then have "j \<in> bt_keys m" "\<not> finished m j" using ok by (auto simp: board_ok_def linked_def)
    then show ?thesis using map_of_None_keys [of m j] by (auto simp: finished_def)
  qed
  then show ?thesis by (cases "tk_blocked_by t") (auto simp: task_is_blocked_def)
qed

lemma completion_unblocks:
  assumes "board m" and "admissible m raw_id u" and "tu_status u = Some TaskCompleted"
    and "map_of (snd (task_update_op now raw_id u m)) j = Some b"
    and "normalize_task_id raw_id \<in> bt_keys m"
  shows "normalize_task_id raw_id \<notin> set (tk_blocked_by b)"
proof -
  obtain t where t: "map_of m (normalize_task_id raw_id) = Some t"
    using assms(5) map_of_None_keys [of m] by (metis option.exhaust)
  from task_update_links(3) [OF board_invariant [OF assms(1)] assms(2) t assms(3), of now j]
  show ?thesis using assms(4) by (simp add: blockers_def)
qed

text \<open>The listing holds every task once, in the numeric order of the identifiers.\<close>

lemma list_all_tasks_sorted:
  "sorted (map (\<lambda>t. task_sort_key (tk_id t)) (list_all_tasks m))
   \<and> set (list_all_tasks m) = set (bt_values m) \<and> length (list_all_tasks m) = length m"
  by (simp add: list_all_tasks_def bt_values_def)

end
