(* ===== verification/Message_Bus.thy ===== *)
theory Message_Bus
  imports Prelude
begin

text \<open>
  The subscriber bus between agents (\<open>starweaver-context/src/message_bus.rs\<close>): a bounded list of
  messages with one cursor and one set of consumed ids per subscriber. The bus refines a family of
  mailboxes, one list of unread messages per subscriber: sending appends, consuming takes out what
  matches, in order and once, and the retention bound drops the oldest messages.

  Message ids (UUIDs) and timestamps are arguments of the constructors. List positions
  are natural numbers: a cursor never exceeds the length of a list in memory.
\<close>

section \<open>Messages\<close>

record bus_message =
  bm_id :: string
  bm_content :: json
  bm_source :: string
  bm_target :: "string option"
  bm_template :: "string option"
  bm_timestamp :: datetime
  bm_metadata :: metadata

definition bus_message_new :: "string \<Rightarrow> datetime \<Rightarrow> string \<Rightarrow> json \<Rightarrow> bus_message" where
  "bus_message_new uuid now topic payload =
     \<lparr>bm_id = uuid, bm_content = payload, bm_source = ''system'', bm_target = None,
      bm_template = None, bm_timestamp = now,
      bm_metadata = bt_insert ''starweaver.topic'' (JString topic) []\<rparr>"

definition bus_message_text :: "string \<Rightarrow> datetime \<Rightarrow> string \<Rightarrow> string \<Rightarrow> bus_message" where
  "bus_message_text uuid now content source =
     \<lparr>bm_id = uuid, bm_content = JString content, bm_source = source, bm_target = None,
      bm_template = None, bm_timestamp = now, bm_metadata = []\<rparr>"

definition with_id :: "string \<Rightarrow> bus_message \<Rightarrow> bus_message" where
  "with_id i m = m\<lparr>bm_id := i\<rparr>"

definition with_target :: "string \<Rightarrow> bus_message \<Rightarrow> bus_message" where
  "with_target t m = m\<lparr>bm_target := Some t\<rparr>"

definition with_source :: "string \<Rightarrow> bus_message \<Rightarrow> bus_message" where
  "with_source src m = m\<lparr>bm_source := src\<rparr>"

definition with_template :: "string \<Rightarrow> bus_message \<Rightarrow> bus_message" where
  "with_template t m = m\<lparr>bm_template := Some t\<rparr>"

text \<open>The text of a message; the JSON writer of \<open>serde_json\<close> is a parameter.\<close>

definition json_as_str :: "json \<Rightarrow> string option" where
  "json_as_str j = (case j of JString s \<Rightarrow> Some s | _ \<Rightarrow> None)"

definition json_get :: "json \<Rightarrow> string \<Rightarrow> json option" where
  "json_get j k = (case j of JObject ms \<Rightarrow> map_of ms k | _ \<Rightarrow> None)"

definition member_str :: "json \<Rightarrow> string \<Rightarrow> string option" where
  "member_str j k = (case json_get j k of None \<Rightarrow> None | Some v \<Rightarrow> json_as_str v)"

definition content_text :: "(json \<Rightarrow> string) \<Rightarrow> bus_message \<Rightarrow> string" where
  "content_text json_text m =
     (case json_as_str (bm_content m) of
        Some t \<Rightarrow> t
      | None \<Rightarrow>
          (case member_str (bm_content m) ''text'' of
             Some t \<Rightarrow> t
           | None \<Rightarrow>
               (case member_str (bm_content m) ''message'' of
                  Some t \<Rightarrow> t
                | None \<Rightarrow> json_text (bm_content m))))"

definition render_text :: "(json \<Rightarrow> string) \<Rightarrow> bus_message \<Rightarrow> string" where
  "render_text json_text m =
     (let content = content_text json_text m in
      case bm_template m of
        Some template \<Rightarrow> str_replace ''{{ content }}'' content template
      | None \<Rightarrow> content)"

section \<open>The bus\<close>

record message_bus =
  mb_messages :: "bus_message list"
  mb_message_ids :: "string btset"
  mb_cursors :: "(string, nat) btmap"
  mb_consumed_ids :: "(string, string btset) btmap"
  mb_maxlen :: nat

definition default_message_bus_maxlen :: nat where
  "default_message_bus_maxlen = 500"

definition bus_with_maxlen :: "nat \<Rightarrow> message_bus" where
  "bus_with_maxlen n =
     \<lparr>mb_messages = [], mb_message_ids = [], mb_cursors = [], mb_consumed_ids = [], mb_maxlen = n\<rparr>"

definition bus_new :: message_bus where
  "bus_new = bus_with_maxlen default_message_bus_maxlen"

definition subscribe :: "string \<Rightarrow> message_bus \<Rightarrow> message_bus" where
  "subscribe agent b =
     (if bt_contains (mb_cursors b) agent then b
      else b\<lparr>mb_cursors := bt_insert agent (length (mb_messages b)) (mb_cursors b),
             mb_consumed_ids := bt_insert agent [] (mb_consumed_ids b)\<rparr>)"

definition unsubscribe :: "string \<Rightarrow> message_bus \<Rightarrow> message_bus" where
  "unsubscribe agent b =
     b\<lparr>mb_cursors := bt_remove agent (mb_cursors b),
       mb_consumed_ids := bt_remove agent (mb_consumed_ids b)\<rparr>"

definition is_subscribed :: "message_bus \<Rightarrow> string \<Rightarrow> bool" where
  "is_subscribed b agent = bt_contains (mb_cursors b) agent"

definition bus_clear :: "message_bus \<Rightarrow> message_bus" where
  "bus_clear b =
     b\<lparr>mb_messages := [], mb_message_ids := [], mb_cursors := [], mb_consumed_ids := []\<rparr>"

definition remove_ids :: "string list \<Rightarrow> string btset \<Rightarrow> string btset" where
  "remove_ids ids m = foldl (\<lambda>m i. bt_remove i m) m ids"

definition bus_trim :: "message_bus \<Rightarrow> message_bus" where
  "bus_trim b =
     (if mb_maxlen b = 0 then bus_clear b
      else if length (mb_messages b) \<le> mb_maxlen b then b
      else
        let trim_count = length (mb_messages b) - mb_maxlen b;
            trimmed_ids = map bm_id (take trim_count (mb_messages b))
        in b\<lparr>mb_messages := drop trim_count (mb_messages b),
             mb_message_ids := remove_ids trimmed_ids (mb_message_ids b),
             mb_cursors := map (\<lambda>(a, c). (a, c - trim_count)) (mb_cursors b),
             mb_consumed_ids := map (\<lambda>(a, m). (a, remove_ids trimmed_ids m)) (mb_consumed_ids b)\<rparr>)"

definition bus_send :: "bus_message \<Rightarrow> message_bus \<Rightarrow> bus_message \<times> message_bus" where
  "bus_send m b =
     (if bt_contains (mb_message_ids b) (bm_id m)
      then (case find (\<lambda>x. bm_id x = bm_id m) (mb_messages b) of Some x \<Rightarrow> x | None \<Rightarrow> m, b)
      else
        (m, bus_trim (b\<lparr>mb_message_ids := bt_insert (bm_id m) () (mb_message_ids b),
                        mb_messages := mb_messages b @ [m]\<rparr>)))"

definition is_deliverable :: "bus_message \<Rightarrow> string \<Rightarrow> bool" where
  "is_deliverable m agent \<longleftrightarrow> bm_target m = None \<or> bm_target m = Some agent"

definition agent_cursor :: "message_bus \<Rightarrow> string \<Rightarrow> nat" where
  "agent_cursor b agent = (case map_of (mb_cursors b) agent of None \<Rightarrow> 0 | Some c \<Rightarrow> c)"

definition agent_consumed :: "message_bus \<Rightarrow> string \<Rightarrow> string btset" where
  "agent_consumed b agent = (case map_of (mb_consumed_ids b) agent of None \<Rightarrow> [] | Some m \<Rightarrow> m)"

text \<open>The loop of \<open>consume_matching\<close>: the consumed ids grow while the messages are collected.\<close>

fun consume_loop ::
    "string \<Rightarrow> (bus_message \<Rightarrow> bool) \<Rightarrow> string btset \<Rightarrow> bus_message list \<Rightarrow> bus_message list
     \<Rightarrow> bus_message list \<times> string btset" where
  "consume_loop agent p consumed result [] = (result, consumed)"
| "consume_loop agent p consumed result (m # ms) =
     (if is_deliverable m agent \<and> \<not> bt_contains consumed (bm_id m) \<and> p m
      then consume_loop agent p (bt_insert (bm_id m) () consumed) (result @ [m]) ms
      else consume_loop agent p consumed result ms)"

fun first_unread :: "string \<Rightarrow> string btset \<Rightarrow> nat \<Rightarrow> bus_message list \<Rightarrow> nat option" where
  "first_unread agent consumed i [] = None"
| "first_unread agent consumed i (m # ms) =
     (if is_deliverable m agent \<and> \<not> bt_contains consumed (bm_id m) then Some i
      else first_unread agent consumed (Suc i) ms)"

definition consume_matching ::
    "string \<Rightarrow> (bus_message \<Rightarrow> bool) \<Rightarrow> message_bus \<Rightarrow> bus_message list \<times> message_bus" where
  "consume_matching agent p b =
     (let b1 = (if bt_contains (mb_cursors b) agent then b else subscribe agent b);
          cursor = agent_cursor b1 agent;
          (result, consumed) = consume_loop agent p (agent_consumed b1 agent) []
             (drop cursor (mb_messages b1));
          next_cursor = (case first_unread agent consumed cursor (drop cursor (mb_messages b1)) of
             None \<Rightarrow> length (mb_messages b1) | Some i \<Rightarrow> i)
      in (result,
          b1\<lparr>mb_consumed_ids := bt_insert agent consumed (mb_consumed_ids b1),
             mb_cursors := bt_insert agent next_cursor (mb_cursors b1)\<rparr>))"

definition bus_consume :: "string \<Rightarrow> message_bus \<Rightarrow> bus_message list \<times> message_bus" where
  "bus_consume agent = consume_matching agent (\<lambda>_. True)"

definition bus_peek :: "message_bus \<Rightarrow> string \<Rightarrow> bus_message list" where
  "bus_peek b agent =
     (case map_of (mb_cursors b) agent of
        None \<Rightarrow> []
      | Some cursor \<Rightarrow>
          filter (\<lambda>m. is_deliverable m agent
               \<and> (case map_of (mb_consumed_ids b) agent of
                    None \<Rightarrow> True | Some ids \<Rightarrow> \<not> bt_contains ids (bm_id m)))
            (drop cursor (mb_messages b)))"

fun mark_loop ::
    "string \<Rightarrow> string btset \<Rightarrow> string btset \<Rightarrow> nat \<Rightarrow> bus_message list \<Rightarrow> nat \<times> string btset" where
  "mark_loop agent ids consumed marked [] = (marked, consumed)"
| "mark_loop agent ids consumed marked (m # ms) =
     (if bt_contains ids (bm_id m) \<and> is_deliverable m agent \<and> \<not> bt_contains consumed (bm_id m)
      then mark_loop agent ids (bt_insert (bm_id m) () consumed) (marked + 1) ms
      else mark_loop agent ids consumed marked ms)"

definition mark_consumed :: "string \<Rightarrow> string btset \<Rightarrow> message_bus \<Rightarrow> nat \<times> message_bus" where
  "mark_consumed agent ids b =
     (if \<not> bt_contains (mb_cursors b) agent \<or> ids = [] then (0, b)
      else
        let (marked, consumed) = mark_loop agent ids (agent_consumed b agent) 0
               (drop (agent_cursor b agent) (mb_messages b))
        in (marked, b\<lparr>mb_consumed_ids := bt_insert agent consumed (mb_consumed_ids b)\<rparr>))"

definition has_pending :: "message_bus \<Rightarrow> string \<Rightarrow> bool" where
  "has_pending b agent \<longleftrightarrow> bus_peek b agent \<noteq> []"

definition has_topic :: "message_bus \<Rightarrow> string \<Rightarrow> bool" where
  "has_topic b topic \<longleftrightarrow>
     (\<exists>m \<in> set (mb_messages b).
        (case map_of (bm_metadata m) ''starweaver.topic'' of
           None \<Rightarrow> False | Some v \<Rightarrow> json_as_str v = Some topic))"

definition bus_len :: "message_bus \<Rightarrow> nat" where
  "bus_len b = length (mb_messages b)"

definition subscriber_count :: "message_bus \<Rightarrow> nat" where
  "subscriber_count b = length (mb_cursors b)"

section \<open>The invariant\<close>

definition bus_shape :: "message_bus \<Rightarrow> bool" where
  "bus_shape b \<longleftrightarrow>
     bt_wf (mb_cursors b) \<and> bt_wf (mb_consumed_ids b) \<and> bt_wf (mb_message_ids b)
     \<and> distinct (map bm_id (mb_messages b))
     \<and> bt_keys (mb_message_ids b) = bm_id ` set (mb_messages b)
     \<and> bt_keys (mb_cursors b) = bt_keys (mb_consumed_ids b)
     \<and> (\<forall>a c. map_of (mb_cursors b) a = Some c \<longrightarrow> c \<le> length (mb_messages b))
     \<and> (\<forall>a m. map_of (mb_consumed_ids b) a = Some m \<longrightarrow>
          bt_wf m \<and> bt_keys m \<subseteq> bm_id ` set (mb_messages b))"

definition bus_ok :: "message_bus \<Rightarrow> bool" where
  "bus_ok b \<longleftrightarrow> bus_shape b \<and> length (mb_messages b) \<le> mb_maxlen b"

lemma bus_ok_with_maxlen: "bus_ok (bus_with_maxlen n)"
  by (simp add: bus_ok_def bus_shape_def bus_with_maxlen_def)

lemma bus_ok_clear: "bus_ok (bus_clear b)"
  by (simp add: bus_ok_def bus_shape_def bus_clear_def)

lemma bus_shape_cursor:
  "bus_shape b \<Longrightarrow> map_of (mb_cursors b) a = Some c \<Longrightarrow> c \<le> length (mb_messages b)"
  unfolding bus_shape_def by blast

lemma bus_shape_known:
  "bus_shape b \<Longrightarrow> bt_contains (mb_message_ids b) i \<longleftrightarrow> i \<in> bm_id ` set (mb_messages b)"
  unfolding bus_shape_def by (simp add: bt_contains_keys)

lemma bus_shape_distinct: "bus_shape b \<Longrightarrow> distinct (map bm_id (mb_messages b))"
  unfolding bus_shape_def by blast

lemma bus_shape_consumed:
  assumes "bus_shape b"
  shows "bt_wf (agent_consumed b a) \<and> bt_keys (agent_consumed b a) \<subseteq> bm_id ` set (mb_messages b)"
  using assms unfolding bus_shape_def agent_consumed_def
  by (cases "map_of (mb_consumed_ids b) a") simp_all

lemma bus_shape_consumed_dom:
  assumes "bus_shape b"
  shows "map_of (mb_consumed_ids b) a = None \<longleftrightarrow> map_of (mb_cursors b) a = None"
  using assms unfolding bus_shape_def by (simp add: map_of_None_keys)

lemma remove_ids_props [simp]:
  "bt_wf m \<Longrightarrow> bt_wf (remove_ids is m)"
  "bt_keys (remove_ids is m) = bt_keys m - set is"
  by (induction "is" arbitrary: m) (auto simp: remove_ids_def)

lemma distinct_drop_ids:
  assumes "distinct (map bm_id ms)"
  shows "bm_id ` set ms - bm_id ` set (take n ms) = bm_id ` set (drop n ms)"
proof -
  have "distinct (map bm_id (take n ms) @ map bm_id (drop n ms))"
    using assms by (metis append_take_drop_id map_append)
  then have "bm_id ` set (take n ms) \<inter> bm_id ` set (drop n ms) = {}"
    by (simp only: distinct_append set_map)
  moreover have "set ms = set (take n ms) \<union> set (drop n ms)"
    by (metis append_take_drop_id set_append)
  ultimately show ?thesis by (simp only: image_Un) blast
qed

lemma bus_trim_cut:
  assumes "mb_maxlen b \<noteq> 0" and "mb_maxlen b < length (mb_messages b)"
    and "n = length (mb_messages b) - mb_maxlen b"
  shows "bus_trim b =
     b\<lparr>mb_messages := drop n (mb_messages b),
       mb_message_ids := remove_ids (map bm_id (take n (mb_messages b))) (mb_message_ids b),
       mb_cursors := map (\<lambda>(a, c). (a, c - n)) (mb_cursors b),
       mb_consumed_ids := map (\<lambda>(a, m). (a, remove_ids (map bm_id (take n (mb_messages b))) m))
         (mb_consumed_ids b)\<rparr>"
  using assms by (simp add: bus_trim_def Let_def)

lemma bus_ok_trim:
  assumes shape: "bus_shape b"
  shows "bus_ok (bus_trim b)"
proof (cases "mb_maxlen b = 0 \<or> length (mb_messages b) \<le> mb_maxlen b")
  case True
  then show ?thesis using assms by (auto simp: bus_trim_def bus_ok_clear) (simp add: bus_ok_def)
next
  case False
  define n where "n = length (mb_messages b) - mb_maxlen b"
  let ?kept = "bm_id ` set (drop n (mb_messages b))"
  let ?ids = "map bm_id (take n (mb_messages b))"
  have keys: "bm_id ` set (mb_messages b) - set ?ids = ?kept"
    using shape by (simp add: bus_shape_distinct distinct_drop_ids)
  have "distinct (map bm_id (drop n (mb_messages b)))"
    using bus_shape_distinct [OF shape] by (metis distinct_drop drop_map)
  moreover have "length (drop n (mb_messages b)) \<le> mb_maxlen b"
    using False by (simp add: n_def)
  moreover have "bt_wf (remove_ids ?ids m) \<and> bt_keys (remove_ids ?ids m) \<subseteq> ?kept"
    if "map_of (mb_consumed_ids b) a = Some m" for a m
  proof -
    have "bt_wf m" "bt_keys m \<subseteq> bm_id ` set (mb_messages b)"
      using shape that unfolding bus_shape_def by blast+
    then show ?thesis unfolding keys [symmetric] by (simp only: remove_ids_props) blast
  qed
  moreover have "c - n \<le> length (drop n (mb_messages b))"
    if "map_of (mb_cursors b) a = Some c" for a c
    using bus_shape_cursor [OF shape that] by simp
  moreover have "bt_keys (remove_ids ?ids (mb_message_ids b)) = ?kept"
    using shape keys by (simp only: remove_ids_props) (simp add: bus_shape_def)
  moreover have "bt_wf (remove_ids ?ids (mb_message_ids b))" "bt_wf (mb_cursors b)"
      "bt_wf (mb_consumed_ids b)" "bt_keys (mb_cursors b) = bt_keys (mb_consumed_ids b)"
    using shape unfolding bus_shape_def by simp_all
  moreover have "bus_trim b =
     b\<lparr>mb_messages := drop n (mb_messages b),
       mb_message_ids := remove_ids ?ids (mb_message_ids b),
       mb_cursors := map (\<lambda>(a, c). (a, c - n)) (mb_cursors b),
       mb_consumed_ids := map (\<lambda>(a, m). (a, remove_ids ?ids m)) (mb_consumed_ids b)\<rparr>"
    by (rule bus_trim_cut) (use False in \<open>auto simp: n_def\<close>)
  ultimately show ?thesis
    by (simp add: bus_ok_def bus_shape_def bt_wf_map_values map_of_map_values
        del: set_map remove_ids_props length_drop) blast
qed

lemma bus_shape_push:
  assumes shape: "bus_shape b" and new: "\<not> bt_contains (mb_message_ids b) (bm_id m)"
  shows "bus_shape (b\<lparr>mb_message_ids := bt_insert (bm_id m) () (mb_message_ids b),
                      mb_messages := mb_messages b @ [m]\<rparr>)"
proof -
  have "bm_id m \<notin> bm_id ` set (mb_messages b)"
    using shape new by (simp add: bus_shape_known)
  then show ?thesis
    using shape unfolding bus_shape_def by (simp add: le_SucI subset_insertI2)
qed

lemma bus_ok_send: "bus_ok b \<Longrightarrow> bus_ok (snd (bus_send m b))"
  by (simp add: bus_send_def bus_ok_trim bus_shape_push bus_ok_def [of b])

lemma bus_ok_subscribe: "bus_ok b \<Longrightarrow> bus_ok (subscribe a b)"
  unfolding bus_ok_def bus_shape_def subscribe_def by (auto simp: bt_contains_keys)

lemma bus_ok_unsubscribe: "bus_ok b \<Longrightarrow> bus_ok (unsubscribe a b)"
  unfolding bus_ok_def bus_shape_def unsubscribe_def by (auto split: if_splits)

section \<open>Unread messages\<close>

definition unread :: "message_bus \<Rightarrow> string \<Rightarrow> bus_message \<Rightarrow> bool" where
  "unread b agent m \<longleftrightarrow> is_deliverable m agent \<and> \<not> bt_contains (agent_consumed b agent) (bm_id m)"

lemma bus_peek_unread:
  "bus_peek b agent =
     (if bt_contains (mb_cursors b) agent
      then filter (unread b agent) (drop (agent_cursor b agent) (mb_messages b)) else [])"
  by (auto simp: bus_peek_def unread_def agent_cursor_def agent_consumed_def bt_contains_def
      intro!: filter_cong split: option.splits)

lemma consume_loop_spec:
  assumes "distinct (map bm_id ms)" and "bt_wf C"
    and took: "took = filter (\<lambda>m. is_deliverable m a \<and> \<not> bt_contains C (bm_id m) \<and> p m) ms"
  shows "fst (consume_loop a p C R ms) = R @ took
    \<and> bt_wf (snd (consume_loop a p C R ms))
    \<and> bt_keys (snd (consume_loop a p C R ms)) = bt_keys C \<union> bm_id ` set took"
  using assms(1,2) unfolding took
proof (induction ms arbitrary: C R)
  case (Cons m ms)
  have "filter (\<lambda>x. is_deliverable x a \<and> \<not> bt_contains (bt_insert (bm_id m) () C) (bm_id x) \<and> p x) ms
      = filter (\<lambda>x. is_deliverable x a \<and> \<not> bt_contains C (bm_id x) \<and> p x) ms"
    using Cons.prems(1) by (intro filter_cong) (auto simp: image_iff)
  with Cons.IH [of "bt_insert (bm_id m) () C" "R @ [m]"] Cons.IH [of C R] Cons.prems
  show ?case by (simp del: set_filter)
qed simp

lemma mark_loop_consume:
  "mark_loop a ids C (length R) ms =
     map_prod length id (consume_loop a (\<lambda>m. bt_contains ids (bm_id m)) C R ms)"
proof (induction ms arbitrary: C R)
  case (Cons m ms)
  show ?case
    using Cons.IH [of "bt_insert (bm_id m) () C" "R @ [m]"] Cons.IH [of C R] by auto
qed simp

lemma first_unread_spec:
  assumes "n = (case first_unread a C i ms of None \<Rightarrow> i + length ms | Some j \<Rightarrow> j)"
    and "u = (\<lambda>m. is_deliverable m a \<and> \<not> bt_contains C (bm_id m))"
  shows "i \<le> n \<and> n \<le> i + length ms \<and> filter u (drop (n - i) ms) = filter u ms"
  using assms
proof (induction ms arbitrary: i n)
  case (Cons m ms)
  show ?case
  proof (cases "u m")
    case True
    then show ?thesis using Cons.prems by simp
  next
    case False
    have "n = (case first_unread a C (Suc i) ms of None \<Rightarrow> Suc i + length ms | Some j \<Rightarrow> j)"
      using Cons.prems False by (cases "first_unread a C (Suc i) ms") auto
    from Cons.IH [OF this Cons.prems(2)] have "Suc i \<le> n" "n \<le> Suc i + length ms"
      and "filter u (drop (n - Suc i) ms) = filter u ms" by auto
    moreover from this have "drop (n - i) (m # ms) = drop (n - Suc i) ms"
      by (simp add: Suc_diff_le [symmetric] Suc_le_eq drop_Cons')
    ultimately show ?thesis using False by simp
  qed
qed simp

lemma filter_in_drop:
  assumes "distinct xs"
  shows "filter (\<lambda>x. x \<in> set (drop t xs)) (drop c xs) = drop (max c t) xs"
proof -
  have split: "drop c xs = take (t - c) (drop c xs) @ drop (max c t) xs"
    by (metis append_take_drop_id drop_drop le_add_diff_inverse2 max.commute max_def
        nat_le_linear diff_is_0_eq add.commute drop_0)
  have "set (take (t - c) (drop c xs)) \<subseteq> set (take t xs)"
    by (cases "c \<le> t") (auto simp: take_drop dest: in_set_dropD)
  moreover have "set (take t xs) \<inter> set (drop t xs) = {}"
    using assms by (simp add: set_take_disj_set_drop_if_distinct)
  ultimately have "filter (\<lambda>x. x \<in> set (drop t xs)) (take (t - c) (drop c xs)) = []"
    by (auto simp: filter_empty_conv)
  moreover have "set (drop (max c t) xs) \<subseteq> set (drop t xs)"
    by (rule set_drop_subset_set_drop) simp
  ultimately show ?thesis
    by (subst split) (auto simp: filter_id_conv)
qed

section \<open>The specification: a family of mailboxes\<close>

text \<open>
  The log is the retained messages; a subscriber's mailbox is what it has not yet read. A message
  that the retention bound drops from the log is dropped from every mailbox.
\<close>

record mailbox_state =
  ms_log :: "bus_message list"
  ms_box :: "string \<Rightarrow> bus_message list option"

datatype bus_op =
    OpSubscribe string
  | OpUnsubscribe string
  | OpSend bus_message
  | OpConsume string "bus_message \<Rightarrow> bool"
  | OpMarkConsumed string "string btset"
  | OpClear

datatype bus_out = NoOut | Sent bus_message | Received "bus_message list" | Marked nat

fun bus_exec :: "bus_op \<Rightarrow> message_bus \<Rightarrow> bus_out \<times> message_bus" where
  "bus_exec (OpSubscribe a) b = (NoOut, subscribe a b)"
| "bus_exec (OpUnsubscribe a) b = (NoOut, unsubscribe a b)"
| "bus_exec (OpSend m) b = map_prod Sent id (bus_send m b)"
| "bus_exec (OpConsume a p) b = map_prod Received id (consume_matching a p b)"
| "bus_exec (OpMarkConsumed a ids) b = map_prod Marked id (mark_consumed a ids b)"
| "bus_exec OpClear b = (NoOut, bus_clear b)"

fun exec_run ::
    "(bus_op \<Rightarrow> 's \<Rightarrow> bus_out \<times> 's) \<Rightarrow> bus_op list \<Rightarrow> 's \<Rightarrow> bus_out list \<times> 's" where
  "exec_run exec [] s = ([], s)"
| "exec_run exec (op # ops) s =
     (let (out, s1) = exec op s; (outs, s2) = exec_run exec ops s1 in (out # outs, s2))"

definition box_open :: "string \<Rightarrow> mailbox_state \<Rightarrow> mailbox_state" where
  "box_open a s = (if ms_box s a = None then s\<lparr>ms_box := (ms_box s)(a \<mapsto> [])\<rparr> else s)"

definition box_post :: "nat \<Rightarrow> bus_message \<Rightarrow> mailbox_state \<Rightarrow> mailbox_state" where
  "box_post n m s =
     (let log = drop (Suc (length (ms_log s)) - n) (ms_log s @ [m]) in
      if n = 0 then \<lparr>ms_log = [], ms_box = Map.empty\<rparr>
      else \<lparr>ms_log = log,
            ms_box = (\<lambda>a. map_option (\<lambda>q. filter (\<lambda>x. x \<in> set log)
                (q @ (if is_deliverable m a then [m] else []))) (ms_box s a))\<rparr>)"

definition box_take :: "string \<Rightarrow> (bus_message \<Rightarrow> bool) \<Rightarrow> mailbox_state \<Rightarrow> bus_message list \<times> mailbox_state" where
  "box_take a p s =
     (let q = (case ms_box s a of None \<Rightarrow> [] | Some q \<Rightarrow> q) in
      (filter p q, s\<lparr>ms_box := (ms_box s)(a \<mapsto> filter (\<lambda>m. \<not> p m) q)\<rparr>))"

fun box_exec :: "nat \<Rightarrow> bus_op \<Rightarrow> mailbox_state \<Rightarrow> bus_out \<times> mailbox_state" where
  "box_exec n (OpSubscribe a) s = (NoOut, box_open a s)"
| "box_exec n (OpUnsubscribe a) s = (NoOut, s\<lparr>ms_box := (ms_box s)(a := None)\<rparr>)"
| "box_exec n (OpSend m) s =
     (case find (\<lambda>x. bm_id x = bm_id m) (ms_log s) of
        Some x \<Rightarrow> (Sent x, s)
      | None \<Rightarrow> (Sent m, box_post n m s))"
| "box_exec n (OpConsume a p) s = map_prod Received id (box_take a p s)"
| "box_exec n (OpMarkConsumed a ids) s =
     (if ms_box s a = None then (Marked 0, s)
      else map_prod (\<lambda>ms. Marked (length ms)) id (box_take a (\<lambda>m. bt_contains ids (bm_id m)) s))"
| "box_exec n OpClear s = (NoOut, \<lparr>ms_log = [], ms_box = Map.empty\<rparr>)"

definition bus_abs :: "message_bus \<Rightarrow> mailbox_state" where
  "bus_abs b =
     \<lparr>ms_log = mb_messages b,
      ms_box = (\<lambda>a. if bt_contains (mb_cursors b) a then Some (bus_peek b a) else None)\<rparr>"

section \<open>The bus implements the mailboxes\<close>

lemma agent_lookup_insert:
  "agent_cursor (b\<lparr>mb_consumed_ids := C, mb_cursors := bt_insert a c K\<rparr>) a' =
     (if a' = a then c else case map_of K a' of None \<Rightarrow> 0 | Some c \<Rightarrow> c)"
  "agent_consumed (b\<lparr>mb_consumed_ids := bt_insert a m D, mb_cursors := K\<rparr>) a' =
     (if a' = a then m else case map_of D a' of None \<Rightarrow> [] | Some m \<Rightarrow> m)"
  by (simp_all add: agent_cursor_def agent_consumed_def)

lemma subscribe_known: "bt_contains (mb_cursors b) a \<Longrightarrow> subscribe a b = b"
  by (simp add: subscribe_def)

lemma bus_peek_cong:
  assumes "mb_messages b' = mb_messages b"
    and "map_of (mb_cursors b') x = map_of (mb_cursors b) x"
    and "map_of (mb_consumed_ids b') x = map_of (mb_consumed_ids b) x"
  shows "bus_peek b' x = bus_peek b x"
  unfolding bus_peek_def assms ..

lemma bus_abs_subscribe: "bus_abs (subscribe a b) = box_open a (bus_abs b)"
proof (cases "bt_contains (mb_cursors b) a")
  case False
  have "bus_peek (subscribe a b) a = []"
    using False by (simp add: subscribe_def bus_peek_def)
  moreover have "bus_peek (subscribe a b) x = bus_peek b x" if "x \<noteq> a" for x
    using False that by (intro bus_peek_cong) (simp_all add: subscribe_def)
  ultimately show ?thesis
    using False by (auto simp: bus_abs_def box_open_def fun_eq_iff) (simp_all add: subscribe_def)
qed (simp add: bus_abs_def box_open_def subscribe_def)

lemma bus_abs_unsubscribe:
  "bus_abs (unsubscribe a b) = (bus_abs b)\<lparr>ms_box := (ms_box (bus_abs b))(a := None)\<rparr>"
proof -
  have "bus_peek (unsubscribe a b) x = bus_peek b x" if "x \<noteq> a" for x
    using that by (intro bus_peek_cong) (simp_all add: unsubscribe_def)
  then show ?thesis
    by (auto simp: bus_abs_def fun_eq_iff) (simp_all add: unsubscribe_def)
qed

lemma bus_abs_clear: "bus_abs (bus_clear b) = \<lparr>ms_log = [], ms_box = Map.empty\<rparr>"
  by (simp add: bus_abs_def bus_clear_def)

text \<open>
  One lemma for both ways of consuming: the consumed ids grow by the ids of the messages taken, and
  the cursor may move forward over messages that are read or not addressed to the subscriber.
\<close>

lemma bus_abs_take:
  assumes ok: "bus_ok b" and sub: "bt_contains (mb_cursors b) a"
    and c: "c = agent_cursor b a"
    and loop: "consume_loop a p (agent_consumed b a) [] (drop c (mb_messages b)) = (R, C)"
    and c': "c \<le> c'" "c' \<le> length (mb_messages b)"
    and skip: "filter (\<lambda>m. is_deliverable m a \<and> \<not> bt_contains C (bm_id m)) (drop c' (mb_messages b))
             = filter (\<lambda>m. is_deliverable m a \<and> \<not> bt_contains C (bm_id m)) (drop c (mb_messages b))"
    and b': "b' = b\<lparr>mb_consumed_ids := bt_insert a C (mb_consumed_ids b),
                     mb_cursors := bt_insert a c' (mb_cursors b)\<rparr>"
  shows "bus_ok b' \<and> (R, bus_abs b') = box_take a p (bus_abs b)"
proof -
  have shape: "bus_shape b" using ok by (simp add: bus_ok_def)
  let ?rest = "drop c (mb_messages b)"
  let ?C = "agent_consumed b a"
  have dist: "distinct (map bm_id ?rest)"
    using bus_shape_distinct [OF shape] by (metis distinct_drop drop_map)
  have took: "R = filter (\<lambda>m. is_deliverable m a \<and> \<not> bt_contains ?C (bm_id m) \<and> p m) ?rest"
    and wf: "bt_wf C" and keys: "bt_keys C = bt_keys ?C \<union> bm_id ` set R"
    using consume_loop_spec [OF dist, of ?C _ a p "[]"] bus_shape_consumed [OF shape, of a]
    by (simp_all add: loop)
  have peek: "bus_peek b a = filter (unread b a) ?rest"
    using sub by (simp add: bus_peek_unread c)
  then have R: "R = filter p (bus_peek b a)"
    by (simp add: took unread_def conj_assoc)
  have inj: "inj_on bm_id (set ?rest)"
    using dist by (simp add: distinct_map)
  have left: "is_deliverable m a \<and> \<not> bt_contains C (bm_id m) \<longleftrightarrow> unread b a m \<and> \<not> p m"
    if "m \<in> set ?rest" for m
  proof -
    have "bm_id m \<in> bm_id ` set R \<longleftrightarrow> m \<in> set R"
      using inj that by (auto simp: took inj_on_def)
    then show ?thesis
      using that by (auto simp: bt_contains_keys keys unread_def took)
  qed
  have "bus_peek b' a = filter (\<lambda>m. is_deliverable m a \<and> \<not> bt_contains C (bm_id m)) ?rest"
    unfolding skip [symmetric] by (simp add: b' bus_peek_def)
  also have "\<dots> = filter (\<lambda>m. unread b a m \<and> \<not> p m) ?rest"
    by (rule filter_cong [OF refl left])
  finally have own: "bus_peek b' a = filter (\<lambda>m. \<not> p m) (bus_peek b a)"
    by (simp add: peek conj_commute)
  have other: "bus_peek b' x = bus_peek b x" if "x \<noteq> a" for x
    using that by (intro bus_peek_cong) (simp_all add: b')
  have "bt_keys C \<subseteq> bm_id ` set (mb_messages b)"
    using bus_shape_consumed [OF shape, of a] by (auto simp: keys took dest: in_set_dropD)
  then have "bus_ok b'"
    using ok wf c' sub unfolding b' bus_ok_def bus_shape_def
    by (auto simp: bt_contains_keys)
  have msgs: "mb_messages b' = mb_messages b"
    and subs: "bt_contains (mb_cursors b') x \<longleftrightarrow> x = a \<or> bt_contains (mb_cursors b) x" for x
    by (simp_all add: b')
  then have "(R, bus_abs b') = box_take a p (bus_abs b)"
    using own other R sub
    by (simp add: box_take_def bus_abs_def Let_def msgs subs fun_eq_iff)
  with \<open>bus_ok b'\<close> show ?thesis ..
qed

lemma bus_take_consume:
  assumes ok: "bus_ok b"
  shows "bus_ok (snd (consume_matching a p b))
    \<and> map_prod id bus_abs (consume_matching a p b) = box_take a p (bus_abs (subscribe a b))"
proof -
  define b1 where "b1 = subscribe a b"
  have b1: "(if bt_contains (mb_cursors b) a then b else subscribe a b) = b1"
    by (simp add: b1_def subscribe_known)
  have ok1: "bus_ok b1" and sub: "bt_contains (mb_cursors b1) a"
    using ok by (simp_all add: b1_def bus_ok_subscribe) (simp add: subscribe_def)
  define c where "c = agent_cursor b1 a"
  obtain R C where loop: "consume_loop a p (agent_consumed b1 a) [] (drop c (mb_messages b1)) = (R, C)"
    by (cases "consume_loop a p (agent_consumed b1 a) [] (drop c (mb_messages b1))")
  define n where "n = (case first_unread a C c (drop c (mb_messages b1)) of
      None \<Rightarrow> length (mb_messages b1) | Some i \<Rightarrow> i)"
  have le: "c \<le> length (mb_messages b1)"
    using ok1 bus_shape_cursor [of b1 a] by (auto simp: c_def agent_cursor_def bus_ok_def split: option.splits)
  then have n: "n = (case first_unread a C c (drop c (mb_messages b1)) of
      None \<Rightarrow> c + length (drop c (mb_messages b1)) | Some i \<Rightarrow> i)"
    by (cases "first_unread a C c (drop c (mb_messages b1))") (simp_all add: n_def)
  from first_unread_spec [OF n refl] le
  have "c \<le> n" "n \<le> length (mb_messages b1)"
    and "filter (\<lambda>m. is_deliverable m a \<and> \<not> bt_contains C (bm_id m)) (drop n (mb_messages b1))
       = filter (\<lambda>m. is_deliverable m a \<and> \<not> bt_contains C (bm_id m)) (drop c (mb_messages b1))"
    by auto
  from bus_abs_take [OF ok1 sub c_def loop this refl]
  show ?thesis
    by (simp add: consume_matching_def b1 Let_def loop c_def [symmetric] n_def [symmetric])
      (simp add: b1_def)
qed

lemma bus_take_mark:
  assumes ok: "bus_ok b" and sub: "bt_contains (mb_cursors b) a" and "ids \<noteq> []"
  shows "bus_ok (snd (mark_consumed a ids b))
    \<and> map_prod id bus_abs (mark_consumed a ids b) =
        map_prod length id (box_take a (\<lambda>m. bt_contains ids (bm_id m)) (bus_abs b))"
proof -
  define c where "c = agent_cursor b a"
  let ?p = "\<lambda>m. bt_contains ids (bm_id m)"
  obtain R C where loop: "consume_loop a ?p (agent_consumed b a) [] (drop c (mb_messages b)) = (R, C)"
    by (cases "consume_loop a ?p (agent_consumed b a) [] (drop c (mb_messages b))")
  have mark: "mark_loop a ids (agent_consumed b a) 0 (drop c (mb_messages b)) = (length R, C)"
    using mark_loop_consume [of a ids "agent_consumed b a" "[]"] by (simp add: loop)
  have c: "map_of (mb_cursors b) a = Some c"
    using sub by (auto simp: c_def agent_cursor_def bt_contains_iff)
  then have "bt_insert a c (mb_cursors b) = mb_cursors b" and "c \<le> length (mb_messages b)"
    using ok by (simp_all add: bus_ok_def bus_shape_def bt_insert_same)
  with bus_abs_take [OF ok sub c_def loop le_refl _ refl refl]
  have "bus_ok (b\<lparr>mb_consumed_ids := bt_insert a C (mb_consumed_ids b)\<rparr>)"
    and "box_take a ?p (bus_abs b) =
      (R, bus_abs (b\<lparr>mb_consumed_ids := bt_insert a C (mb_consumed_ids b)\<rparr>))"
    by simp_all
  then show ?thesis
    using assms(2,3) by (simp add: mark_consumed_def mark c_def [symmetric])
qed

lemma bus_abs_trim:
  assumes ok: "bus_shape b" and n: "mb_maxlen b \<noteq> 0"
    and log: "log = drop (length (mb_messages b) - mb_maxlen b) (mb_messages b)"
  shows "bus_abs (bus_trim b) =
     \<lparr>ms_log = log, ms_box = (\<lambda>a. map_option (filter (\<lambda>x. x \<in> set log)) (ms_box (bus_abs b) a))\<rparr>"
proof (cases "length (mb_messages b) \<le> mb_maxlen b")
  case True
  then have "log = mb_messages b" "bus_trim b = b" using n log by (simp_all add: bus_trim_def)
  moreover have "filter (\<lambda>x. x \<in> set (mb_messages b)) (bus_peek b a) = bus_peek b a" for a
    by (auto simp: filter_id_conv bus_peek_unread dest: in_set_dropD)
  ultimately show ?thesis by (simp add: bus_abs_def if_distrib fun_eq_iff)
next
  case False
  define t where "t = length (mb_messages b) - mb_maxlen b"
  let ?ids = "map bm_id (take t (mb_messages b))"
  have b': "bus_trim b =
     b\<lparr>mb_messages := drop t (mb_messages b),
       mb_message_ids := remove_ids ?ids (mb_message_ids b),
       mb_cursors := map (\<lambda>(a, c). (a, c - t)) (mb_cursors b),
       mb_consumed_ids := map (\<lambda>(a, m). (a, remove_ids ?ids m)) (mb_consumed_ids b)\<rparr>"
    by (rule bus_trim_cut) (use False n in \<open>auto simp: t_def\<close>)
  have dist: "distinct (map bm_id (mb_messages b))" by (rule bus_shape_distinct [OF ok])
  have kept: "bm_id m \<notin> set ?ids" if "m \<in> set (drop t (mb_messages b))" for m
    using distinct_drop_ids [OF dist, of t] that by auto
  have sub: "bt_contains (mb_cursors (bus_trim b)) a \<longleftrightarrow> bt_contains (mb_cursors b) a" for a
    by (simp add: b' bt_contains_keys)
  have peek: "bus_peek (bus_trim b) a = filter (\<lambda>x. x \<in> set log) (bus_peek b a)" for a
  proof (cases "map_of (mb_cursors b) a")
    case (Some c)
    have un: "unread (bus_trim b) a m \<longleftrightarrow> unread b a m" if "m \<in> set (drop t (mb_messages b))" for m
      using kept [OF that]
      by (cases "map_of (mb_consumed_ids b) a")
        (simp_all add: unread_def agent_consumed_def b' map_of_map_values bt_contains_keys)
    have "bus_peek (bus_trim b) a = filter (unread (bus_trim b) a) (drop (c - t) (drop t (mb_messages b)))"
      using Some sub [of a] by (simp add: bus_peek_unread bt_contains_iff agent_cursor_def)
        (simp add: b' map_of_map_values)
    also have "\<dots> = filter (unread b a) (drop (c - t) (drop t (mb_messages b)))"
      by (intro filter_cong refl un) (metis in_set_dropD)
    also have "drop (c - t) (drop t (mb_messages b)) = drop (max c t) (mb_messages b)"
      by (simp add: max_def)
    also have "\<dots> = filter (\<lambda>x. x \<in> set log) (drop c (mb_messages b))"
      using filter_in_drop [of "mb_messages b" t c] dist by (simp add: log t_def distinct_map)
    finally show ?thesis
      using Some by (simp add: bus_peek_unread bt_contains_iff agent_cursor_def conj_commute)
  qed (simp add: bus_peek_def b' map_of_map_values)
  have "mb_messages (bus_trim b) = log" by (simp add: b' log t_def)
  with sub peek show ?thesis by (auto simp: bus_abs_def fun_eq_iff)
qed

lemma bus_abs_send:
  assumes ok: "bus_ok b"
  shows "map_prod Sent bus_abs (bus_send m b) = box_exec (mb_maxlen b) (OpSend m) (bus_abs b)"
proof (cases "bt_contains (mb_message_ids b) (bm_id m)")
  case True
  then have "bm_id m \<in> bm_id ` set (mb_messages b)"
    using ok by (simp add: bus_shape_known bus_ok_def)
  then obtain x where "find (\<lambda>x. bm_id x = bm_id m) (mb_messages b) = Some x"
    by (cases "find (\<lambda>x. bm_id x = bm_id m) (mb_messages b)") (auto simp: find_None_iff)
  with True show ?thesis by (simp add: bus_send_def bus_abs_def)
next
  case False
  have shape: "bus_shape b" using ok by (simp add: bus_ok_def)
  have new: "bm_id m \<notin> bm_id ` set (mb_messages b)"
    using False shape by (simp add: bus_shape_known)
  then have none: "find (\<lambda>x. bm_id x = bm_id m) (mb_messages b) = None"
    unfolding find_None_iff by (metis imageI)
  define b1 where "b1 = b\<lparr>mb_message_ids := bt_insert (bm_id m) () (mb_message_ids b),
                          mb_messages := mb_messages b @ [m]\<rparr>"
  have send: "bus_send m b = (m, bus_trim b1)"
    using False by (simp add: bus_send_def b1_def)
  have box: "bus_peek b1 a = bus_peek b a @ (if is_deliverable m a then [m] else [])"
    if "bt_contains (mb_cursors b) a" for a
  proof -
    have "agent_cursor b a \<le> length (mb_messages b)"
      using that bus_shape_cursor [OF shape] by (auto simp: agent_cursor_def bt_contains_iff)
    moreover have "bm_id m \<notin> bt_keys (agent_consumed b a)"
      using bus_shape_consumed [OF shape, of a] new by blast
    moreover have "agent_cursor b1 a = agent_cursor b a" "unread b1 a = unread b a"
      by (simp_all add: b1_def agent_cursor_def agent_consumed_def unread_def fun_eq_iff)
    ultimately show ?thesis
      using that by (simp add: bus_peek_unread) (simp add: b1_def unread_def bt_contains_keys)
  qed
  have abs1: "bus_abs b1 =
     \<lparr>ms_log = mb_messages b @ [m],
      ms_box = (\<lambda>a. map_option (\<lambda>q. q @ (if is_deliverable m a then [m] else [])) (ms_box (bus_abs b) a))\<rparr>"
    using box by (simp add: bus_abs_def fun_eq_iff) (simp add: b1_def)
  show ?thesis
  proof (cases "mb_maxlen b = 0")
    case True
    then show ?thesis
      using none by (simp add: send bus_trim_def b1_def bus_abs_clear)
        (simp add: bus_abs_def box_post_def Let_def)
  next
    case nz: False
    have "bus_shape b1" unfolding b1_def by (rule bus_shape_push [OF shape False])
    from bus_abs_trim [OF this _ refl] nz
    have "bus_abs (bus_trim b1) = box_post (mb_maxlen b) m (bus_abs b)"
      unfolding abs1 by (simp add: b1_def box_post_def Let_def option.map_comp comp_def)
        (simp add: bus_abs_def)
    then show ?thesis using none by (simp add: send) (simp add: bus_abs_def)
  qed
qed

lemma bus_maxlen_exec: "mb_maxlen (snd (bus_exec op b)) = mb_maxlen b"
  by (cases op)
    (auto simp: subscribe_def unsubscribe_def bus_clear_def bus_send_def bus_trim_def Let_def
      consume_matching_def mark_consumed_def split: prod.splits)

theorem bus_exec_refines:
  assumes ok: "bus_ok b"
  shows "bus_ok (snd (bus_exec op b))
    \<and> map_prod id bus_abs (bus_exec op b) = box_exec (mb_maxlen b) op (bus_abs b)"
proof (cases op)
  case (OpSend m)
  with ok show ?thesis
    using bus_abs_send [OF ok, of m] by (simp add: bus_ok_send map_prod_def case_prod_beta)
next
  case (OpConsume a p)
  have "box_take a p (bus_abs (subscribe a b)) = box_take a p (bus_abs b)"
    by (auto simp: bus_abs_subscribe box_open_def box_take_def split: option.splits)
  with OpConsume show ?thesis
    using bus_take_consume [OF ok, of a p] 
    by (cases "consume_matching a p b"; cases "box_take a p (bus_abs b)") auto
next
  case (OpMarkConsumed a ids)
  show ?thesis
  proof (cases "bt_contains (mb_cursors b) a")
    case sub: True
    show ?thesis
    proof (cases "ids = []")
      case True
      with OpMarkConsumed sub ok show ?thesis
        by (auto simp: mark_consumed_def box_take_def bus_abs_def Let_def fun_eq_iff)
    next
      case False
      then show ?thesis
        using OpMarkConsumed bus_take_mark [OF ok sub, of ids] sub
        by (auto simp: map_prod_def case_prod_beta bus_abs_def [of b])
    qed
  qed (use OpMarkConsumed ok in \<open>simp add: mark_consumed_def bus_abs_def\<close>)
qed (use ok in \<open>simp_all add: bus_ok_subscribe bus_ok_unsubscribe bus_ok_clear bus_abs_subscribe
    bus_abs_unsubscribe bus_abs_clear\<close>)

section \<open>What clients of a mailbox implementation may rely on\<close>

fun received :: "string \<Rightarrow> bus_op list \<Rightarrow> bus_out list \<Rightarrow> bus_message list" where
  "received a (OpConsume a' p # ops) (Received ms # outs) =
     (if a' = a then ms @ received a ops outs else received a ops outs)"
| "received a (op # ops) (out # outs) = received a ops outs"
| "received a _ _ = []"

fun sent :: "bus_op list \<Rightarrow> bus_message list" where
  "sent [] = []"
| "sent (OpSend m # ops) = m # sent ops"
| "sent (op # ops) = sent ops"

definition box_of :: "mailbox_state \<Rightarrow> string \<Rightarrow> bus_message list" where
  "box_of s a = (case ms_box s a of None \<Rightarrow> [] | Some q \<Rightarrow> q)"

lemma box_of_simps [simp]:
  "box_of (box_open a' s) a = box_of s a"
  "box_of (s\<lparr>ms_box := (ms_box s)(a' := None)\<rparr>) a = (if a = a' then [] else box_of s a)"
  "box_of (snd (box_take a' p s)) a = (if a = a' then filter (\<lambda>m. \<not> p m) (box_of s a) else box_of s a)"
  "fst (box_take a p s) = filter p (box_of s a)"
  "box_of \<lparr>ms_log = l, ms_box = Map.empty\<rparr> a = []"
  by (auto simp: box_of_def box_open_def box_take_def Let_def split: option.splits)

lemma box_exec_shrinks:
  assumes "\<forall>m. op \<noteq> OpSend m"
  shows "\<exists>p. box_of (snd (box_exec n op s)) a = filter p (box_of s a)"
proof (cases op)
  case (OpUnsubscribe x)
  then show ?thesis by (intro exI [of _ "\<lambda>_. a \<noteq> x"]) simp
next
  case (OpConsume x p)
  then show ?thesis by (intro exI [of _ "\<lambda>m. a = x \<longrightarrow> \<not> p m"]) simp
next
  case (OpMarkConsumed x ids)
  then show ?thesis
  proof (cases "ms_box s x")
    case None
    with OpMarkConsumed show ?thesis by (intro exI [of _ "\<lambda>_. True"]) simp
  next
    case (Some q)
    with OpMarkConsumed show ?thesis
      by (intro exI [of _ "\<lambda>m. a = x \<longrightarrow> \<not> bt_contains ids (bm_id m)"]) simp
  qed
next
  case OpClear
  then show ?thesis by (intro exI [of _ "\<lambda>_. False"]) simp
qed (use assms in \<open>intro exI [of _ "\<lambda>_. True"], simp\<close>)+

lemma box_post_box:
  "\<exists>p q. box_of (box_post n m s) a = filter p (box_of s a) @ filter q [m]"
proof (cases "n = 0 \<or> ms_box s a = None")
  case True
  then have "box_of (box_post n m s) a = []" by (auto simp: box_post_def Let_def box_of_def)
  then show ?thesis by (intro exI [of _ "\<lambda>_. False"]) simp
next
  case False
  define log where "log = drop (Suc (length (ms_log s)) - n) (ms_log s @ [m])"
  from False have "box_of (box_post n m s) a =
      filter (\<lambda>x. x \<in> set log) (box_of s a) @ filter (\<lambda>x. is_deliverable m a \<and> x \<in> set log) [m]"
    by (auto simp: box_post_def Let_def box_of_def log_def)
  then show ?thesis by blast
qed

lemma sent_Cons: "sent (op # ops) = sent [op] @ sent ops"
  by (cases op) auto

lemma received_Cons: "received a (op # ops) (out # outs) = received a [op] [out] @ received a ops outs"
  by (cases op; cases out) auto

lemma box_exec_send_box:
  "\<exists>p q. box_of (snd (box_exec n (OpSend m) s)) a = filter p (box_of s a) @ filter q [m]"
proof (cases "find (\<lambda>x. bm_id x = bm_id m) (ms_log s)")
  case None
  then show ?thesis using box_post_box [of n m s a] by simp
next
  case (Some x)
  then show ?thesis by (intro exI [of _ "\<lambda>_. True"] exI [of _ "\<lambda>_. False"]) simp
qed

lemma box_exec_ids:
  assumes dist: "distinct (map bm_id (box_of s a))"
    and new: "bm_id ` set (box_of s a) \<inter> bm_id ` set (sent [op]) = {}"
    and exec: "box_exec n op s = (out, s1)"
  shows "distinct (map bm_id (box_of s1 a))
    \<and> bm_id ` set (box_of s1 a) \<subseteq> bm_id ` set (box_of s a) \<union> bm_id ` set (sent [op])"
proof (cases "\<exists>m. op = OpSend m")
  case True
  then obtain m where op: "op = OpSend m" by blast
  obtain p q where "box_of s1 a = filter p (box_of s a) @ filter q [m]"
    using box_exec_send_box [of n m s a] exec op by auto
  then show ?thesis using dist new op by (cases "q m") (auto simp: distinct_map_filter)
next
  case False
  then obtain p where "box_of s1 a = filter p (box_of s a)"
    using box_exec_shrinks [of op n s a] exec by auto
  then show ?thesis using dist by (auto simp: distinct_map_filter)
qed

lemma box_exec_taken:
  assumes dist: "distinct (map bm_id (box_of s a))" and exec: "box_exec n op s = (out, s1)"
  shows "distinct (map bm_id (received a [op] [out]))
    \<and> bm_id ` set (received a [op] [out]) \<subseteq> bm_id ` set (box_of s a)
    \<and> bm_id ` set (received a [op] [out]) \<inter> bm_id ` set (box_of s1 a) = {}"
proof (cases "\<exists>q. op = OpConsume a q")
  case True
  then obtain q where op: "op = OpConsume a q" by blast
  have "out = Received (filter q (box_of s a))" "box_of s1 a = filter (\<lambda>m. \<not> q m) (box_of s a)"
    using exec box_of_simps(3) [of a q s a] by (auto simp: op prod_eq_iff)
  then show ?thesis
    using dist by (auto simp: op distinct_map_filter distinct_map inj_on_def)
next
  case False
  then have "received a [op] [out] = []" by (cases op; cases out) auto
  then show ?thesis by simp
qed

lemma disjoint_step:
  assumes "T \<subseteq> B" and "T \<inter> B1 = {}" and "B1 \<subseteq> B \<union> M" and "B \<inter> (M \<union> S) = {}"
    and "M \<inter> S = {}" and "R \<subseteq> B1 \<union> S"
  shows "T \<inter> R = {}" and "T \<union> R \<subseteq> B \<union> (M \<union> S)" and "B1 \<inter> S = {}"
  using assms by blast+

lemma spec_delivers_once:
  assumes "distinct (map bm_id (box_of s a))" and "distinct (map bm_id (sent ops))"
    and "bm_id ` set (box_of s a) \<inter> bm_id ` set (sent ops) = {}"
    and "fst (exec_run (box_exec n) ops s) = outs"
  shows "distinct (map bm_id (received a ops outs))
    \<and> bm_id ` set (received a ops outs) \<subseteq> bm_id ` set (box_of s a) \<union> bm_id ` set (sent ops)"
  using assms
proof (induction ops arbitrary: s outs)
  case (Cons op ops)
  obtain out s1 where exec: "box_exec n op s = (out, s1)" by (cases "box_exec n op s")
  define rest where "rest = fst (exec_run (box_exec n) ops s1)"
  have outs: "outs = out # rest"
    using Cons.prems(4) by (simp add: exec rest_def split: prod.splits)
  have fresh: "bm_id ` set (box_of s a) \<inter> (bm_id ` set (sent [op]) \<union> bm_id ` set (sent ops)) = {}"
    using Cons.prems(3) by (simp only: sent_Cons [of op ops] set_append image_Un)
  have sent: "distinct (map bm_id (sent ops))" "bm_id ` set (sent [op]) \<inter> bm_id ` set (sent ops) = {}"
    using Cons.prems(2) by (simp_all only: sent_Cons [of op ops] map_append distinct_append set_map)
  have "bm_id ` set (box_of s a) \<inter> bm_id ` set (sent [op]) = {}"
    using fresh by (simp only: Int_Un_distrib) simp
  from box_exec_ids [OF Cons.prems(1) this exec]
  have box1: "distinct (map bm_id (box_of s1 a))"
    "bm_id ` set (box_of s1 a) \<subseteq> bm_id ` set (box_of s a) \<union> bm_id ` set (sent [op])" by blast+
  from box_exec_taken [OF Cons.prems(1) exec]
  have taken: "distinct (map bm_id (received a [op] [out]))"
    "bm_id ` set (received a [op] [out]) \<subseteq> bm_id ` set (box_of s a)"
    "bm_id ` set (received a [op] [out]) \<inter> bm_id ` set (box_of s1 a) = {}" by blast+
  note sets = disjoint_step [OF taken(2,3) box1(2) fresh sent(2)]
  have later: "distinct (map bm_id (received a ops rest))"
    "bm_id ` set (received a ops rest) \<subseteq> bm_id ` set (box_of s1 a) \<union> bm_id ` set (sent ops)"
    using Cons.IH [OF box1(1) sent(1) sets(3) [OF subset_refl [THEN le_supI2]], of rest]
    by (simp_all add: rest_def)
  show ?case
    using taken(1) later(1) sets(1,2) [OF later(2)] unfolding outs
    by (simp only: received_Cons [of a op ops] sent_Cons [of op ops] map_append distinct_append
        set_append set_map image_Un)
qed (simp add: distinct_map)

locale mailbox_implementation =
  fixes ok :: "'s \<Rightarrow> bool" and abs :: "'s \<Rightarrow> mailbox_state" and bound :: "'s \<Rightarrow> nat"
    and exec :: "bus_op \<Rightarrow> 's \<Rightarrow> bus_out \<times> 's"
  assumes exec_ok: "ok s \<Longrightarrow> ok (snd (exec op s))"
    and exec_abs: "ok s \<Longrightarrow> map_prod id abs (exec op s) = box_exec (bound s) op (abs s)"
    and exec_bound: "bound (snd (exec op s)) = bound s"
begin

lemma run_refines:
  "ok s \<Longrightarrow> ok (snd (exec_run exec ops s))
    \<and> map_prod id abs (exec_run exec ops s) = exec_run (box_exec (bound s)) ops (abs s)"
proof (induction ops arbitrary: s)
  case (Cons op ops)
  obtain out s1 where e: "exec op s = (out, s1)" by (cases "exec op s")
  have "ok s1" "bound s1 = bound s" "box_exec (bound s) op (abs s) = (out, abs s1)"
    using exec_ok [OF Cons.prems, of op] exec_bound [of op s] exec_abs [OF Cons.prems, of op]
    by (simp_all add: e)
  moreover obtain outs s2 where r: "exec_run exec ops s1 = (outs, s2)"
    by (cases "exec_run exec ops s1")
  moreover from Cons.IH [OF \<open>ok s1\<close>] have "ok s2"
    and "exec_run (box_exec (bound s1)) ops (abs s1) = (outs, abs s2)"
    by (simp_all add: r)
  ultimately show ?case by (simp add: e)
qed simp

lemma delivers_once:
  assumes "ok s" and "box_of (abs s) a = []" and "distinct (map bm_id (sent ops))"
  shows "distinct (map bm_id (received a ops (fst (exec_run exec ops s))))
    \<and> bm_id ` set (received a ops (fst (exec_run exec ops s))) \<subseteq> bm_id ` set (sent ops)"
proof -
  have "fst (exec_run (box_exec (bound s)) ops (abs s)) = fst (exec_run exec ops s)"
    using run_refines [OF assms(1), of ops] by (metis fst_map_prod id_apply)
  from spec_delivers_once [of "abs s" a, OF _ assms(3) _ this] assms(2) show ?thesis by simp
qed

end

interpretation bus: mailbox_implementation bus_ok bus_abs mb_maxlen bus_exec
  by unfold_locales (use bus_exec_refines bus_maxlen_exec in blast)+

text \<open>
  What a subscriber receives after a burst of messages: the deliverable ones among those the
  retention bound keeps, in sending order.
\<close>

definition send_all :: "bus_message list \<Rightarrow> message_bus \<Rightarrow> message_bus" where
  "send_all ms b = foldl (\<lambda>b m. snd (bus_send m b)) b ms"

lemma box_post_burst:
  assumes "0 < n" and "distinct (ms @ [m])"
    and "ms_log s = drop (length ms - n) ms"
    and "ms_box s a = Some (filter (\<lambda>m. is_deliverable m a) (drop (length ms - n) ms))"
  shows "ms_log (box_post n m s) = drop (length (ms @ [m]) - n) (ms @ [m])
    \<and> ms_box (box_post n m s) a =
        Some (filter (\<lambda>m. is_deliverable m a) (drop (length (ms @ [m]) - n) (ms @ [m])))"
proof -
  let ?log = "drop (length ms - n) ms"
  have cut: "drop (Suc (length ?log) - n) (?log @ [m]) = drop (length (ms @ [m]) - n) (ms @ [m])"
    using assms(1) by (cases "length ms < n") (simp_all add: not_less Suc_diff_le drop_Suc)
  have "distinct (?log @ [m])"
    using assms(2) by (auto dest: in_set_dropD)
  from filter_in_drop [OF this, of "Suc (length ?log) - n" 0]
  have kept: "filter (\<lambda>x. x \<in> set (drop (Suc (length ?log) - n) (?log @ [m]))) (?log @ [m])
      = drop (length (ms @ [m]) - n) (ms @ [m])"
    by (simp only: cut drop_0 max_0L)
  have "filter (\<lambda>m. is_deliverable m a) ?log @ (if is_deliverable m a then [m] else [])
      = filter (\<lambda>m. is_deliverable m a) (?log @ [m])"
    by simp
  moreover have "filter P (filter Q (?log @ [m])) = filter Q (filter P (?log @ [m]))" for P Q
    by (simp only: filter_filter conj_commute)
  ultimately show ?thesis
    using assms(1) kept
    by (simp add: box_post_def Let_def assms(3,4) cut del: drop_append filter_append length_append
        length_drop append_assoc filter_filter)
qed

lemma send_all_burst:
  assumes "0 < n" and "distinct (map bm_id ms)"
  shows "bus_ok (send_all ms (subscribe a (bus_with_maxlen n)))
    \<and> mb_maxlen (send_all ms (subscribe a (bus_with_maxlen n))) = n
    \<and> ms_log (bus_abs (send_all ms (subscribe a (bus_with_maxlen n)))) = drop (length ms - n) ms
    \<and> ms_box (bus_abs (send_all ms (subscribe a (bus_with_maxlen n)))) a =
        Some (filter (\<lambda>m. is_deliverable m a) (drop (length ms - n) ms))"
  using assms(2)
proof (induction ms rule: rev_induct)
  case Nil
  have "bus_abs (subscribe a (bus_with_maxlen n)) = \<lparr>ms_log = [], ms_box = [a \<mapsto> []]\<rparr>"
    by (simp add: bus_abs_subscribe box_open_def) (simp add: bus_abs_def bus_with_maxlen_def)
  moreover have "mb_maxlen (subscribe a (bus_with_maxlen n)) = n"
    by (simp add: subscribe_def bus_with_maxlen_def)
  ultimately show ?case
    by (simp add: send_all_def bus_ok_subscribe bus_ok_with_maxlen)
next
  case (snoc m ms)
  define b where "b = send_all ms (subscribe a (bus_with_maxlen n))"
  have IH: "bus_ok b" "mb_maxlen b = n" "ms_log (bus_abs b) = drop (length ms - n) ms"
      "ms_box (bus_abs b) a = Some (filter (\<lambda>m. is_deliverable m a) (drop (length ms - n) ms))"
    using snoc by (simp_all add: b_def)
  have "\<forall>x \<in> set (drop (length ms - n) ms). bm_id x \<noteq> bm_id m"
    using snoc.prems by (metis (no_types, lifting) disjoint_insert(2) distinct_append image_eqI
        in_set_dropD list.set(2) list.set_map list.simps(9) map_append)
  then have "find (\<lambda>x. bm_id x = bm_id m) (drop (length ms - n) ms) = None"
    by (simp add: find_None_iff)
  then have post: "bus_abs (snd (bus_send m b)) = box_post n m (bus_abs b)"
    using bus_abs_send [OF IH(1), of m] IH(2,3) by (simp add: prod_eq_iff)
  have "distinct (ms @ [m])"
    using snoc.prems distinct_map by blast
  from box_post_burst [OF assms(1) this IH(3,4)] post
  show ?case
    using bus_ok_send [OF IH(1), of m] bus_maxlen_exec [of "OpSend m" b] IH(2)
    by (simp add: send_all_def b_def)
qed

lemma consume_after_burst:
  assumes "0 < n" and "distinct (map bm_id ms)"
  shows "fst (bus_consume a (send_all ms (subscribe a (bus_with_maxlen n)))) =
    filter (\<lambda>m. is_deliverable m a) (drop (length ms - n) ms)"
proof -
  let ?b = "send_all ms (subscribe a (bus_with_maxlen n))"
  note burst = send_all_burst [OF assms, of a]
  have "map_prod id bus_abs (bus_exec (OpConsume a (\<lambda>_. True)) ?b)
      = box_exec n (OpConsume a (\<lambda>_. True)) (bus_abs ?b)"
    using bus_exec_refines [of ?b "OpConsume a (\<lambda>_. True)"] burst by simp
  then have "Received (fst (bus_consume a ?b)) = Received (box_of (bus_abs ?b) a)"
    by (simp add: bus_consume_def prod_eq_iff)
  then show ?thesis using burst by (simp add: box_of_def)
qed

end
