(* ===== verification/Compaction.thy ===== *)
theory Compaction
  imports Replay_Log Message_Bus
begin

text \<open>
  The realtime compaction buffer (\<open>starweaver-stream/src/compaction.rs\<close>): live display messages
  are pushed one by one; text deltas of one part and argument deltas of one tool call are merged
  into the item the first of them created, found by an index from part key or call id to the
  position in the item list. The reference definition groups the whole history at once: the
  buffer always equals it, so no push indexes outside the item list, no delta is lost or counted
  twice, and every other message is kept as it is.

  The JSON writer that turns a part index into a key (\<open>serde_json\<close>) is a parameter.
\<close>

section \<open>The buffer\<close>

record compaction_buffer =
  cb_scope :: string
  cb_revision :: u64
  cb_max_sequence_seen :: "u64 option"
  cb_items :: "display_message list"
  cb_text_by_part :: "(string, nat) btmap"
  cb_tool_by_call :: "(string, nat) btmap"

definition buffer_new :: "string \<Rightarrow> compaction_buffer" where
  "buffer_new scope =
     \<lparr>cb_scope = scope, cb_revision = 0, cb_max_sequence_seen = None, cb_items = [],
      cb_text_by_part = [], cb_tool_by_call = []\<rparr>"

definition text_part_key :: "(json \<Rightarrow> string) \<Rightarrow> display_message \<Rightarrow> string" where
  "text_part_key json_text m =
     (case member_str (dm_payload m) ''message_id'' of
        Some i \<Rightarrow> i
      | None \<Rightarrow>
          (case json_get (dm_payload m) ''part_index'' of
             Some v \<Rightarrow> json_text v
           | None \<Rightarrow> ''default''))"

definition tool_call_key :: "display_message \<Rightarrow> string" where
  "tool_call_key m =
     (case member_str (dm_payload m) ''tool_call_id'' of Some i \<Rightarrow> i | None \<Rightarrow> ''tool_call'')"

definition str_or_empty :: "json \<Rightarrow> string \<Rightarrow> string" where
  "str_or_empty j k = (case member_str j k of Some t \<Rightarrow> t | None \<Rightarrow> '''')"

definition or_member :: "json option \<Rightarrow> json option \<Rightarrow> json option" where
  "or_member a b = (case a of Some v \<Rightarrow> Some v | None \<Rightarrow> b)"

definition set_member :: "string \<Rightarrow> json option \<Rightarrow> (string \<times> json) list \<Rightarrow> (string \<times> json) list" where
  "set_member k v ms = (case v of None \<Rightarrow> ms | Some j \<Rightarrow> bt_insert k j ms)"

definition text_payload :: "string \<Rightarrow> string \<Rightarrow> json option \<Rightarrow> json option \<Rightarrow> json" where
  "text_payload key text part_kind part_index =
     JObject (set_member ''part_index'' part_index (set_member ''part_kind'' part_kind
       (bt_insert ''text'' (JString text) (bt_insert ''message_id'' (JString key) []))))"

definition merge_metadata :: "metadata \<Rightarrow> metadata \<Rightarrow> metadata" where
  "merge_metadata old new =
     (if old = [] then new
      else foldl (\<lambda>m kv. if bt_contains m (fst kv) then m else bt_insert (fst kv) (snd kv) m) old new)"

text \<open>The two branches of \<open>push_text_delta\<close> on one item.\<close>

definition start_text :: "string \<Rightarrow> display_message \<Rightarrow> display_message" where
  "start_text key m =
     (let delta = str_or_empty (dm_payload m) ''delta'' in
      m\<lparr>dm_payload := text_payload key delta (json_get (dm_payload m) ''part_kind'')
                       (json_get (dm_payload m) ''part_index''),
        dm_preview := Some delta\<rparr>)"

definition merge_text :: "string \<Rightarrow> display_message \<Rightarrow> display_message \<Rightarrow> display_message" where
  "merge_text key existing m =
     (let delta = str_or_empty (dm_payload m) ''delta'';
          current = str_or_empty (dm_payload existing) ''text'';
          part_kind = or_member (json_get (dm_payload existing) ''part_kind'')
                        (json_get (dm_payload m) ''part_kind'');
          part_index = or_member (json_get (dm_payload existing) ''part_index'')
                         (json_get (dm_payload m) ''part_index'');
          payload = text_payload key (current @ delta) part_kind part_index
      in existing\<lparr>dm_payload := payload,
                  dm_metadata := merge_metadata (dm_metadata existing) (dm_metadata m),
                  dm_preview := member_str payload ''text'',
                  dm_sequence := dm_sequence m,
                  dm_timestamp := dm_timestamp m\<rparr>)"

text \<open>The two branches of \<open>push_tool_delta\<close> on one item.\<close>

definition tool_payload :: "string \<Rightarrow> string \<Rightarrow> json option \<Rightarrow> json" where
  "tool_payload call_id arguments tool_name =
     JObject (set_member ''name'' tool_name (set_member ''tool_name'' tool_name
       (bt_insert ''arguments_delta'' (JString arguments)
         (bt_insert ''tool_call_id'' (JString call_id) []))))"

definition payload_tool_name :: "json \<Rightarrow> json option" where
  "payload_tool_name j = or_member (json_get j ''tool_name'') (json_get j ''name'')"

definition start_tool :: "string \<Rightarrow> display_message \<Rightarrow> display_message" where
  "start_tool call_id m =
     m\<lparr>dm_payload := tool_payload call_id (str_or_empty (dm_payload m) ''delta'')
                      (payload_tool_name (dm_payload m))\<rparr>"

definition merge_tool :: "string \<Rightarrow> display_message \<Rightarrow> display_message \<Rightarrow> display_message" where
  "merge_tool call_id existing m =
     existing\<lparr>dm_payload := tool_payload call_id
                 (str_or_empty (dm_payload existing) ''arguments_delta''
                    @ str_or_empty (dm_payload m) ''delta'')
                 (payload_tool_name (dm_payload existing)),
              dm_sequence := dm_sequence m,
              dm_timestamp := dm_timestamp m\<rparr>"

section \<open>Operations\<close>

text \<open>Indexing \<open>items\<close> outside its length panics.\<close>

definition push_text_delta ::
    "(json \<Rightarrow> string) \<Rightarrow> display_message \<Rightarrow> compaction_buffer \<Rightarrow> (compaction_buffer, replay_error) result" where
  "push_text_delta json_text m b =
     (let key = text_part_key json_text m in
      case map_of (cb_text_by_part b) key of
        Some i \<Rightarrow>
          if i < length (cb_items b)
          then Ok (b\<lparr>cb_items := (cb_items b)[i := merge_text key (cb_items b ! i) m]\<rparr>)
          else Panic
      | None \<Rightarrow>
          Ok (b\<lparr>cb_text_by_part := bt_insert key (length (cb_items b)) (cb_text_by_part b),
                cb_items := cb_items b @ [start_text key m]\<rparr>))"

definition push_tool_delta ::
    "display_message \<Rightarrow> compaction_buffer \<Rightarrow> (compaction_buffer, replay_error) result" where
  "push_tool_delta m b =
     (let call_id = tool_call_key m in
      case map_of (cb_tool_by_call b) call_id of
        Some i \<Rightarrow>
          if i < length (cb_items b)
          then Ok (b\<lparr>cb_items := (cb_items b)[i := merge_tool call_id (cb_items b ! i) m]\<rparr>)
          else Panic
      | None \<Rightarrow>
          Ok (b\<lparr>cb_tool_by_call := bt_insert call_id (length (cb_items b)) (cb_tool_by_call b),
                cb_items := cb_items b @ [start_tool call_id m]\<rparr>))"

definition buffer_note :: "display_message \<Rightarrow> compaction_buffer \<Rightarrow> compaction_buffer" where
  "buffer_note m b =
     b\<lparr>cb_revision := u64_saturating_add (cb_revision b) 1,
       cb_max_sequence_seen :=
         Some (case cb_max_sequence_seen b of
                 None \<Rightarrow> dm_sequence m
               | Some n \<Rightarrow> max n (dm_sequence m))\<rparr>"

definition buffer_push ::
    "(json \<Rightarrow> string) \<Rightarrow> display_message \<Rightarrow> compaction_buffer \<Rightarrow> (compaction_buffer, replay_error) result" where
  "buffer_push json_text m b0 =
     (let b = buffer_note m b0 in
      case dm_kind m of
        DmAssistantTextDelta \<Rightarrow> push_text_delta json_text m b
      | DmToolCallDelta \<Rightarrow> push_tool_delta m b
      | _ \<Rightarrow> Ok (b\<lparr>cb_items := cb_items b @ [m]\<rparr>))"

fun push_all ::
    "(json \<Rightarrow> string) \<Rightarrow> display_message list \<Rightarrow> compaction_buffer \<Rightarrow> (compaction_buffer, replay_error) result" where
  "push_all json_text [] b = Ok b"
| "push_all json_text (m # ms) b =
     (case buffer_push json_text m b of
        Ok b' \<Rightarrow> push_all json_text ms b'
      | Err e \<Rightarrow> Err e
      | Panic \<Rightarrow> Panic)"

definition buffer_snapshot :: "compaction_buffer \<Rightarrow> replay_snapshot" where
  "buffer_snapshot b =
     \<lparr>rs_scope = Some (cb_scope b), rs_revision = unat (cb_revision b),
      rs_cursor = map_option (cursor_display (cb_scope b)) (cb_max_sequence_seen b),
      rs_display_messages = cb_items b, rs_metadata = []\<rparr>"

definition tail_after ::
    "replay_cursor option \<Rightarrow> compaction_buffer \<Rightarrow> (display_message list, replay_error) result" where
  "tail_after cursor b =
     (case (case cursor of
              None \<Rightarrow> Ok () | Some c \<Rightarrow> replay_cursor_validate c Display (cb_scope b)) of
        Err e \<Rightarrow> Err e
      | Panic \<Rightarrow> Panic
      | Ok _ \<Rightarrow>
          let after = (case cursor of
                         None \<Rightarrow> 0 | Some c \<Rightarrow> u64_saturating_add (cur_sequence c) 1)
          in Ok (filter (\<lambda>m. after \<le> dm_sequence m) (cb_items b)))"

section \<open>The reference: grouping the history\<close>

datatype slot = PlainSlot display_message | TextSlot string | ToolSlot string

definition slot_of :: "(json \<Rightarrow> string) \<Rightarrow> display_message \<Rightarrow> slot" where
  "slot_of json_text m =
     (case dm_kind m of
        DmAssistantTextDelta \<Rightarrow> TextSlot (text_part_key json_text m)
      | DmToolCallDelta \<Rightarrow> ToolSlot (tool_call_key m)
      | _ \<Rightarrow> PlainSlot m)"

fun is_plain :: "slot \<Rightarrow> bool" where
  "is_plain (PlainSlot _) = True"
| "is_plain _ = False"

definition add_slot :: "slot list \<Rightarrow> slot \<Rightarrow> slot list" where
  "add_slot ss sl = (if \<not> is_plain sl \<and> sl \<in> set ss then ss else ss @ [sl])"

definition slots :: "(json \<Rightarrow> string) \<Rightarrow> display_message list \<Rightarrow> slot list" where
  "slots json_text ms = foldl add_slot [] (map (slot_of json_text) ms)"

definition slot_group :: "(json \<Rightarrow> string) \<Rightarrow> display_message list \<Rightarrow> slot \<Rightarrow> display_message list" where
  "slot_group json_text ms sl = filter (\<lambda>m. slot_of json_text m = sl) ms"

fun slot_start :: "slot \<Rightarrow> display_message \<Rightarrow> display_message" where
  "slot_start (PlainSlot p) m = p"
| "slot_start (TextSlot k) m = start_text k m"
| "slot_start (ToolSlot k) m = start_tool k m"

fun slot_merge :: "slot \<Rightarrow> display_message \<Rightarrow> display_message \<Rightarrow> display_message" where
  "slot_merge (PlainSlot p) existing m = p"
| "slot_merge (TextSlot k) existing m = merge_text k existing m"
| "slot_merge (ToolSlot k) existing m = merge_tool k existing m"

definition compacted :: "(json \<Rightarrow> string) \<Rightarrow> display_message list \<Rightarrow> slot \<Rightarrow> display_message" where
  "compacted json_text ms sl =
     (let g = slot_group json_text ms sl in foldl (slot_merge sl) (slot_start sl (hd g)) (tl g))"

section \<open>The buffer equals the reference\<close>

fun slot_index :: "compaction_buffer \<Rightarrow> slot \<Rightarrow> nat option" where
  "slot_index b (PlainSlot _) = None"
| "slot_index b (TextSlot k) = map_of (cb_text_by_part b) k"
| "slot_index b (ToolSlot k) = map_of (cb_tool_by_call b) k"

fun slot_register :: "slot \<Rightarrow> nat \<Rightarrow> compaction_buffer \<Rightarrow> compaction_buffer" where
  "slot_register (PlainSlot _) i b = b"
| "slot_register (TextSlot k) i b = b\<lparr>cb_text_by_part := bt_insert k i (cb_text_by_part b)\<rparr>"
| "slot_register (ToolSlot k) i b = b\<lparr>cb_tool_by_call := bt_insert k i (cb_tool_by_call b)\<rparr>"

lemma slot_of_plain: "is_plain (slot_of jt m) \<Longrightarrow> slot_of jt m = PlainSlot m"
  by (auto simp: slot_of_def split: display_message_kind.splits)

lemma buffer_push_slot:
  "buffer_push jt m b0 =
     (let b = buffer_note m b0; sl = slot_of jt m in
      case slot_index b sl of
        Some i \<Rightarrow>
          if i < length (cb_items b)
          then Ok (b\<lparr>cb_items := (cb_items b)[i := slot_merge sl (cb_items b ! i) m]\<rparr>)
          else Panic
      | None \<Rightarrow>
          Ok ((slot_register sl (length (cb_items b)) b)\<lparr>cb_items := cb_items b @ [slot_start sl m]\<rparr>))"
  by (auto simp: buffer_push_def slot_of_def push_text_delta_def push_tool_delta_def Let_def
      split: display_message_kind.split option.split)

lemma slot_index_note [simp]: "slot_index (buffer_note m b) sl = slot_index b sl"
  by (cases sl) (simp_all add: buffer_note_def)

lemma slot_index_items [simp]: "slot_index (b\<lparr>cb_items := xs\<rparr>) sl = slot_index b sl"
  by (cases sl) simp_all

lemma slot_index_register [simp]:
  "slot_index (slot_register sl i b) sl' =
     (if sl' = sl \<and> \<not> is_plain sl then Some i else slot_index b sl')"
  by (cases sl; cases sl') auto

lemma buffer_note_simps [simp]:
  "cb_items (buffer_note m b) = cb_items b"
  "cb_scope (buffer_note m b) = cb_scope b"
  "cb_revision (buffer_note m b) = u64_saturating_add (cb_revision b) 1"
  by (simp_all add: buffer_note_def)

lemma slots_snoc [simp]: "slots jt (ms @ [m]) = add_slot (slots jt ms) (slot_of jt m)"
  by (simp add: slots_def)

lemma slots_Nil [simp]: "slots jt [] = []"
  by (simp add: slots_def)

lemma set_slots: "set (slots jt ms) = slot_of jt ` set ms"
  by (induction ms rule: rev_induct) (auto simp: add_slot_def)

lemma slot_group_empty: "slot_group jt ms sl = [] \<longleftrightarrow> sl \<notin> set (slots jt ms)"
  by (auto simp: slot_group_def filter_empty_conv set_slots)

lemma foldl_plain [simp]: "foldl (slot_merge (PlainSlot p)) p xs = p"
  by (induction xs) simp_all

lemma compacted_plain: "compacted jt ms (PlainSlot p) = p"
  by (simp add: compacted_def Let_def)

lemma compacted_other:
  "slot_of jt m \<noteq> sl \<or> is_plain sl \<Longrightarrow> compacted jt (ms @ [m]) sl = compacted jt ms sl"
  by (cases sl) (auto simp: compacted_plain compacted_def slot_group_def)

lemma slot_group_snoc:
  "slot_group jt (ms @ [m]) (slot_of jt m) = slot_group jt ms (slot_of jt m) @ [m]"
  by (simp add: slot_group_def)

lemma compacted_merge:
  "slot_of jt m \<in> set (slots jt ms) \<Longrightarrow>
   compacted jt (ms @ [m]) (slot_of jt m) = slot_merge (slot_of jt m) (compacted jt ms (slot_of jt m)) m"
  using slot_group_empty [of jt ms "slot_of jt m"]
  by (simp add: compacted_def slot_group_snoc Let_def)

lemma compacted_start:
  "slot_of jt m \<notin> set (slots jt ms) \<Longrightarrow>
   compacted jt (ms @ [m]) (slot_of jt m) = slot_start (slot_of jt m) m"
  using slot_group_empty [of jt ms "slot_of jt m"]
  by (simp add: compacted_def slot_group_snoc Let_def)

text \<open>The buffer after a history: its items are the compacted slots, its indexes their positions.\<close>

definition buffer_matches ::
    "(json \<Rightarrow> string) \<Rightarrow> display_message list \<Rightarrow> compaction_buffer \<Rightarrow> bool" where
  "buffer_matches jt ms b \<longleftrightarrow>
     cb_items b = map (compacted jt ms) (slots jt ms)
     \<and> (\<forall>sl i. slot_index b sl = Some i
          \<longleftrightarrow> \<not> is_plain sl \<and> i < length (slots jt ms) \<and> slots jt ms ! i = sl)"

lemma buffer_matches_new: "buffer_matches jt [] (buffer_new scope)"
proof -
  have "slot_index (buffer_new scope) sl = None" for sl
    by (cases sl) (simp_all add: buffer_new_def)
  then show ?thesis
    by (simp add: buffer_matches_def buffer_new_def)
qed

lemma push_existing:
  assumes b: "buffer_matches jt ms b" and i: "slot_index b (slot_of jt m) = Some i"
  shows "i < length (cb_items b)"
    and "buffer_matches jt (ms @ [m])
           ((buffer_note m b)\<lparr>cb_items := (cb_items b)[i := slot_merge (slot_of jt m) (cb_items b ! i) m]\<rparr>)"
proof -
  let ?sl = "slot_of jt m" and ?ss = "slots jt ms"
  have items: "cb_items b = map (compacted jt ms) ?ss"
    and idx: "\<And>sl i. slot_index b sl = Some i \<longleftrightarrow> \<not> is_plain sl \<and> i < length ?ss \<and> ?ss ! i = sl"
    using b by (auto simp: buffer_matches_def)
  have here: "\<not> is_plain ?sl" "i < length ?ss" "?ss ! i = ?sl"
    using i idx by auto
  then show "i < length (cb_items b)"
    by (simp add: items)
  have in_slots: "?sl \<in> set ?ss"
    using here by (metis nth_mem)
  have same: "add_slot ?ss ?sl = ?ss"
    using here in_slots by (simp add: add_slot_def)
  have "compacted jt (ms @ [m]) (?ss ! j)
      = (if j = i then slot_merge ?sl (compacted jt ms ?sl) m else compacted jt ms (?ss ! j))"
    if "j < length ?ss" for j
  proof (cases "?ss ! j = ?sl")
    case True
    then have "j = i"
      using idx [of ?sl j] here(1) that i by simp
    then show ?thesis
      using True compacted_merge [OF in_slots] by simp
  next
    case False
    then show ?thesis
      using here(3) by (auto simp: compacted_other)
  qed
  then have "map (compacted jt (ms @ [m])) ?ss
      = (map (compacted jt ms) ?ss)[i := slot_merge ?sl (compacted jt ms ?sl) m]"
    by (auto intro!: nth_equalityI simp: nth_list_update)
  then show "buffer_matches jt (ms @ [m])
      ((buffer_note m b)\<lparr>cb_items := (cb_items b)[i := slot_merge ?sl (cb_items b ! i) m]\<rparr>)"
    using here idx by (simp add: buffer_matches_def same items)
qed

lemma push_new:
  assumes b: "buffer_matches jt ms b" and none: "slot_index b (slot_of jt m) = None"
  shows "buffer_matches jt (ms @ [m])
           ((slot_register (slot_of jt m) (length (cb_items b)) (buffer_note m b))
              \<lparr>cb_items := cb_items b @ [slot_start (slot_of jt m) m]\<rparr>)"
proof -
  let ?sl = "slot_of jt m" and ?ss = "slots jt ms"
  have items: "cb_items b = map (compacted jt ms) ?ss"
    and idx: "\<And>sl i. slot_index b sl = Some i \<longleftrightarrow> \<not> is_plain sl \<and> i < length ?ss \<and> ?ss ! i = sl"
    using b by (auto simp: buffer_matches_def)
  have absent: "is_plain ?sl \<or> ?sl \<notin> set ?ss"
    using none idx [of ?sl] by (auto simp: in_set_conv_nth)
  then have grows: "add_slot ?ss ?sl = ?ss @ [?sl]"
    by (auto simp: add_slot_def)
  have old: "compacted jt (ms @ [m]) sl = compacted jt ms sl" if "sl \<in> set ?ss" for sl
    using that absent by (auto intro: compacted_other)
  have new: "compacted jt (ms @ [m]) ?sl = slot_start ?sl m"
  proof (cases "is_plain ?sl")
    case True
    then show ?thesis
      using slot_of_plain [OF True] by (simp add: compacted_plain)
  next
    case False
    then show ?thesis
      using absent compacted_start by blast
  qed
  have "slot_index (slot_register ?sl (length ?ss) (buffer_note m b)) sl = Some i
      \<longleftrightarrow> \<not> is_plain sl \<and> i < length (?ss @ [?sl]) \<and> (?ss @ [?sl]) ! i = sl" for sl i
    using idx [of sl i] none by (auto simp: nth_append less_Suc_eq)
  then show ?thesis
    using old new by (simp add: buffer_matches_def grows items del: slot_index_register)
qed

lemma buffer_push_matches:
  assumes "buffer_matches jt ms b"
  shows "\<exists>b'. buffer_push jt m b = Ok b' \<and> buffer_matches jt (ms @ [m]) b'
    \<and> cb_scope b' = cb_scope b \<and> cb_revision b' = u64_saturating_add (cb_revision b) 1
    \<and> cb_max_sequence_seen b' = cb_max_sequence_seen (buffer_note m b)"
proof (cases "slot_index b (slot_of jt m)")
  case None
  have "cb_scope (slot_register sl i (buffer_note m b)) = cb_scope b"
    "cb_revision (slot_register sl i (buffer_note m b)) = u64_saturating_add (cb_revision b) 1"
    "cb_max_sequence_seen (slot_register sl i (buffer_note m b)) = cb_max_sequence_seen (buffer_note m b)"
    for sl i
    by (cases sl; simp)+
  then show ?thesis
    using push_new [OF assms None] None by (simp add: buffer_push_slot Let_def)
next
  case (Some i)
  then show ?thesis
    using push_existing [OF assms Some] by (simp add: buffer_push_slot Let_def)
qed

lemma push_all_append:
  "push_all jt (ms @ ns) b =
     (case push_all jt ms b of Ok b' \<Rightarrow> push_all jt ns b' | Err e \<Rightarrow> Err e | Panic \<Rightarrow> Panic)"
  by (induction ms arbitrary: b) (simp_all split: result.split)

definition max_sequence :: "display_message list \<Rightarrow> u64 option" where
  "max_sequence ms = (if ms = [] then None else Some (Max (dm_sequence ` set ms)))"

lemma buffer_equals_reference:
  "\<exists>b. push_all jt ms (buffer_new scope) = Ok b \<and> buffer_matches jt ms b
     \<and> cb_scope b = scope \<and> unat (cb_revision b) = min (length ms) (2 ^ 64 - 1)
     \<and> cb_max_sequence_seen b = max_sequence ms"
proof (induction ms rule: rev_induct)
  case Nil
  then show ?case
    using buffer_matches_new [of jt scope] by (simp add: buffer_new_def max_sequence_def)
next
  case (snoc m ms)
  then obtain b where b: "push_all jt ms (buffer_new scope) = Ok b" "buffer_matches jt ms b"
      "cb_scope b = scope" "unat (cb_revision b) = min (length ms) (2 ^ 64 - 1)"
      "cb_max_sequence_seen b = max_sequence ms"
    by blast
  obtain b' where b': "buffer_push jt m b = Ok b'" "buffer_matches jt (ms @ [m]) b'"
      "cb_scope b' = cb_scope b" "cb_revision b' = u64_saturating_add (cb_revision b) 1"
      "cb_max_sequence_seen b' = cb_max_sequence_seen (buffer_note m b)"
    using buffer_push_matches [OF b(2)] by blast
  have "cb_max_sequence_seen b' = max_sequence (ms @ [m])"
    using b'(5) b(5) by (auto simp: buffer_note_def max_sequence_def max.commute)
  then show ?case
    using b b' by (simp add: push_all_append unat_u64_saturating_add)
qed

section \<open>What a compacted item holds\<close>

lemma member_str_text_payload:
  "member_str (text_payload key t pk pi) ''text'' = Some t"
  "member_str (text_payload key t pk pi) ''message_id'' = Some key"
  by (simp_all add: member_str_def json_get_def json_as_str_def text_payload_def set_member_def
      split: option.split)

lemma member_str_tool_payload:
  "member_str (tool_payload call_id t n) ''arguments_delta'' = Some t"
  "member_str (tool_payload call_id t n) ''tool_call_id'' = Some call_id"
  by (simp_all add: member_str_def json_get_def json_as_str_def tool_payload_def set_member_def
      split: option.split)

definition deltas :: "display_message list \<Rightarrow> string" where
  "deltas ms = concat (map (\<lambda>m. str_or_empty (dm_payload m) ''delta'') ms)"

text \<open>An item that carries the text of a list of deltas, and the position of the last of them.\<close>

definition text_item :: "string \<Rightarrow> display_message list \<Rightarrow> display_message \<Rightarrow> bool" where
  "text_item key g item \<longleftrightarrow>
     member_str (dm_payload item) ''message_id'' = Some key
     \<and> member_str (dm_payload item) ''text'' = Some (deltas g)
     \<and> dm_preview item = Some (deltas g)
     \<and> dm_kind item = dm_kind (hd g) \<and> dm_sequence item = dm_sequence (last g)"

definition tool_item :: "string \<Rightarrow> display_message list \<Rightarrow> display_message \<Rightarrow> bool" where
  "tool_item call_id g item \<longleftrightarrow>
     member_str (dm_payload item) ''tool_call_id'' = Some call_id
     \<and> member_str (dm_payload item) ''arguments_delta'' = Some (deltas g)
     \<and> dm_kind item = dm_kind (hd g) \<and> dm_sequence item = dm_sequence (last g)"

lemma text_item_fold:
  "text_item key (m # g) (foldl (merge_text key) (start_text key m) g)"
proof (induction g rule: rev_induct)
  case Nil
  then show ?case
    by (simp add: text_item_def start_text_def Let_def member_str_text_payload deltas_def)
next
  case (snoc x g)
  then show ?case
    by (simp add: text_item_def merge_text_def Let_def member_str_text_payload deltas_def
        str_or_empty_def [of _ "''text''"])
qed

lemma tool_item_fold:
  "tool_item call_id (m # g) (foldl (merge_tool call_id) (start_tool call_id m) g)"
proof (induction g rule: rev_induct)
  case Nil
  then show ?case
    by (simp add: tool_item_def start_tool_def member_str_tool_payload deltas_def)
next
  case (snoc x g)
  then show ?case
    by (simp add: tool_item_def merge_tool_def member_str_tool_payload deltas_def
        str_or_empty_def [of _ "''arguments_delta''"])
qed

lemma foldl_slot_merge:
  "foldl (slot_merge (TextSlot k)) x g = foldl (merge_text k) x g"
  "foldl (slot_merge (ToolSlot k)) x g = foldl (merge_tool k) x g"
  by (induction g arbitrary: x) simp_all

lemma compacted_items:
  "TextSlot k \<in> set (slots jt ms) \<Longrightarrow>
     text_item k (slot_group jt ms (TextSlot k)) (compacted jt ms (TextSlot k))"
  "ToolSlot k \<in> set (slots jt ms) \<Longrightarrow>
     tool_item k (slot_group jt ms (ToolSlot k)) (compacted jt ms (ToolSlot k))"
  using slot_group_empty [of jt ms "TextSlot k"] slot_group_empty [of jt ms "ToolSlot k"]
    text_item_fold [of k "hd (slot_group jt ms (TextSlot k))" "tl (slot_group jt ms (TextSlot k))"]
    tool_item_fold [of k "hd (slot_group jt ms (ToolSlot k))" "tl (slot_group jt ms (ToolSlot k))"]
  by (simp_all add: compacted_def Let_def foldl_slot_merge)

definition is_delta :: "display_message \<Rightarrow> bool" where
  "is_delta m \<longleftrightarrow> dm_kind m = DmAssistantTextDelta \<or> dm_kind m = DmToolCallDelta"

lemma is_delta_slot: "is_delta m \<longleftrightarrow> \<not> is_plain (slot_of jt m)"
  by (auto simp: is_delta_def slot_of_def split: display_message_kind.split)

lemma compacted_delta:
  assumes "sl \<in> set (slots jt ms)"
  shows "is_delta (compacted jt ms sl) \<longleftrightarrow> \<not> is_plain sl"
proof -
  have "hd (slot_group jt ms sl) \<in> set (slot_group jt ms sl)"
    using assms slot_group_empty [of jt ms sl] by simp
  then have g: "slot_of jt (hd (slot_group jt ms sl)) = sl"
    by (simp add: slot_group_def)
  have "dm_kind (compacted jt ms sl) = dm_kind (hd (slot_group jt ms sl))"
  proof (cases sl)
    case (PlainSlot p)
    then show ?thesis
      using g slot_of_plain [of jt "hd (slot_group jt ms sl)"] by (simp add: compacted_plain)
  qed (use assms compacted_items [of _ jt ms] in \<open>auto simp: text_item_def tool_item_def\<close>)
  then show ?thesis
    using g is_delta_slot [of "hd (slot_group jt ms sl)" jt] by (simp add: is_delta_def)
qed

text \<open>Every other message is kept, unchanged and in its order.\<close>

lemma others_kept:
  "filter (\<lambda>m. \<not> is_delta m) (map (compacted jt ms) (slots jt ms)) = filter (\<lambda>m. \<not> is_delta m) ms"
proof -
  have "filter (\<lambda>m. \<not> is_delta m) (map (compacted jt ms) (slots jt ms))
      = map (compacted jt ms) (filter is_plain (slots jt ms))"
    using compacted_delta [of _ jt ms] by (auto simp: filter_map intro!: arg_cong [of _ _ "map _"] filter_cong)
  also have "\<dots> = map (compacted jt ms) (map PlainSlot (filter (\<lambda>m. \<not> is_delta m) ms))"
  proof -
    have "filter is_plain (slots jt ms) = map PlainSlot (filter (\<lambda>m. \<not> is_delta m) ms)"
      by (induction ms rule: rev_induct)
        (auto simp: add_slot_def is_delta_slot [of _ jt] dest: slot_of_plain)
    then show ?thesis
      by simp
  qed
  also have "\<dots> = filter (\<lambda>m. \<not> is_delta m) ms"
    by (simp add: compacted_plain comp_def)
  finally show ?thesis .
qed

end
