(* ===== verification/Agent_Scenario.thy ===== *)
theory Agent_Scenario
  imports Environment_Scenario Pricing_Catalog Task_Board Stream_Archive Compaction
begin

text \<open>
  Concrete executions of the agent-side components: a bus with two subscribers, a replay log with a
  subscriber that misses a broadcast, a usage report, and a small task board. The properties are
  checked on them; the last section holds executions that contradict a comment of the code.
\<close>

section \<open>A bus\<close>

definition demo_message :: "string \<Rightarrow> bus_message" where
  "demo_message i = with_id i (bus_message_text ''generated'' 0 ''topic'' ''hello'')"

definition demo_bus_ops :: "bus_op list" where
  "demo_bus_ops =
     [OpSubscribe ''a'', OpSubscribe ''b'', OpSend (demo_message ''1''), OpConsume ''a'' (\<lambda>_. True),
      OpSend (demo_message ''2''), OpSend (demo_message ''3''), OpConsume ''a'' (\<lambda>_. True),
      OpConsume ''a'' (\<lambda>_. True)]"

lemma demo_bus_ids: "distinct (map bm_id (sent demo_bus_ops))"
  by code_simp

lemma demo_bus_received:
  "received ''a'' demo_bus_ops (fst (exec_run bus_exec demo_bus_ops (bus_with_maxlen 2))) =
     [demo_message ''1'', demo_message ''2'', demo_message ''3'']"
  by code_simp

section \<open>A replay log\<close>

definition demo_event :: "u64 \<Rightarrow> replay_event" where
  "demo_event n = replay_event_new 0 ''run:r'' n EvHeartbeat"

definition demo_appends :: "(string \<times> replay_event) list" where
  "demo_appends = map (Pair ''run:r'') [demo_event 1, demo_event 2, demo_event 3, demo_event 2]"

definition demo_subscription :: replay_subscription where
  "demo_subscription =
     \<lparr>sub_scope = ''run:r'', sub_cursor = Some (cursor_replay_event ''run:r'' 1), sub_backlog = [],
      sub_has_catchup = True, sub_baseline = True\<rparr>"

lemma demo_subscribe:
  "log_subscribe (log_appends (take 1 demo_appends)) ''run:r'' (Some (cursor_replay_event ''run:r'' 1))
     = Ok demo_subscription"
  by code_simp

lemma demo_subscriber: "subscriber demo_appends ''run:r'' demo_subscription"
  by (rule subscriber.opened [OF demo_subscribe])

text \<open>The broadcast of sequence 2 is lost; sequence 3 arrives and the durable log fills the gap.\<close>

definition demo_channel :: "channel_outcome list" where
  "demo_channel = [ChanLagged, ChanEvent (demo_event 3)]"

lemma demo_channel_sent:
  "\<forall>x. ChanEvent x \<in> set demo_channel \<longrightarrow> x \<in> set (el_sent (log_appends demo_appends))"
proof -
  have "el_sent (log_appends demo_appends) = [demo_event 1, demo_event 2, demo_event 3]" by code_simp
  then show ?thesis by (simp add: demo_channel_def)
qed

lemma demo_stream:
  "recv_stream (catchup_at demo_appends (\<lambda>_. 4)) 5 0 demo_channel demo_subscription
     = [demo_event 2, demo_event 3]"
  by code_simp

section \<open>A task board\<close>

definition no_update :: task_update where
  "no_update =
     \<lparr>tu_status = None, tu_subject = None, tu_description = None, tu_active_form = None,
      tu_owner = None, tu_add_blocks = None, tu_add_blocked_by = None, tu_metadata = None\<rparr>"

definition add_task :: "task_manager \<Rightarrow> task_manager" where
  "add_task m = snd (task_create 0 ''subject'' ''description'' None [] m)"

definition demo_board :: task_manager where
  "demo_board =
     snd (task_update_op 1 ''#2'' (no_update\<lparr>tu_add_blocked_by := Some [''1'']\<rparr>) (add_task (add_task [])))"

definition finish :: "string \<Rightarrow> task_manager \<Rightarrow> task_manager" where
  "finish i m = snd (task_update_op 2 i (no_update\<lparr>tu_status := Some TaskCompleted\<rparr>) m)"

lemma demo_board_admissible:
  "admissible (add_task (add_task [])) ''#2'' (no_update\<lparr>tu_add_blocked_by := Some [''1'']\<rparr>)"
proof -
  have "normalize_task_id ''1'' = ''1''" "map_of (add_task (add_task [])) ''1'' =
      Some (task_new 0 ''1'' ''subject'' ''description'')" by code_simp+
  then show ?thesis
    by (simp add: admissible_def no_update_def given_def finished_def task_new_def)
      (metis map_of_None_keys option.distinct(1))
qed

lemma demo_board_ok: "board demo_board"
proof -
  have "foldr max (numeric_ids []) 0 \<noteq> - 1" "foldr max (numeric_ids (add_task [])) 0 \<noteq> - 1"
    by code_simp+
  then have "board (add_task (add_task []))"
    unfolding add_task_def by (intro board.created board.empty)
  then show ?thesis unfolding demo_board_def by (rule board.updated [OF _ demo_board_admissible])
qed

lemma demo_board_task:
  "map_option task_is_blocked (map_of demo_board ''2'') = Some True"
  "map_option task_is_blocked (map_of (finish ''1'' demo_board) ''2'') = Some False"
  by code_simp+

section \<open>A streamed answer\<close>

definition demo_delta :: "u64 \<Rightarrow> string \<Rightarrow> display_message" where
  "demo_delta n t = (display_message_new 0 n ''s'' ''r'' DmAssistantTextDelta)
     \<lparr>dm_payload := JObject [(''delta'', JString t), (''message_id'', JString ''p'')]\<rparr>"

definition demo_answer :: "display_message list" where
  "demo_answer =
     [demo_delta 1 ''Hel'', display_message_new 0 2 ''s'' ''r'' DmToolResult, demo_delta 3 ''lo'']"

lemma demo_slots:
  "slots (\<lambda>_. []) demo_answer
     = [TextSlot ''p'', PlainSlot (display_message_new 0 2 ''s'' ''r'' DmToolResult)]"
  "slot_group (\<lambda>_. []) demo_answer (TextSlot ''p'') = [demo_delta 1 ''Hel'', demo_delta 3 ''lo'']"
  "deltas [demo_delta 1 ''Hel'', demo_delta 3 ''lo''] = ''Hello''"
  by code_simp+

definition demo_archive :: "unit archive_inner" where
  "demo_archive = snd (append_display_messages ''run:r'' [demo_delta 3 ''lo''] archive_new)"

lemma demo_archive_reachable: "archive_reachable demo_archive"
  unfolding demo_archive_def by (intro archive_reachable.display archive_reachable.start)

lemma demo_archive_stored: "display_stored demo_archive ''run:r'' = [demo_delta 3 ''lo'']"
  by code_simp

section \<open>Executions against the comments\<close>

text \<open>
  A task that waits for an identifier before the task exists is not released when that task is
  created and finished, although no task of the board is unfinished but itself.
\<close>

lemma early_dependency_is_never_released:
  "map_option task_is_blocked (map_of (finish ''2'' (add_task (snd (task_update_op 1 ''1''
     (no_update\<lparr>tu_add_blocked_by := Some [''2'']\<rparr>) (add_task []))))) ''1'') = Some True
   \<and> map_option tk_status (map_of (finish ''2'' (add_task (snd (task_update_op 1 ''1''
     (no_update\<lparr>tu_add_blocked_by := Some [''2'']\<rparr>) (add_task []))))) ''2'') = Some TaskCompleted"
  by code_simp

text \<open>Nor is a task that is made to wait for a finished one.\<close>

lemma finished_blocker_blocks:
  "map_option task_is_blocked (map_of (snd (task_update_op 3 ''2''
     (no_update\<lparr>tu_add_blocked_by := Some [''1'']\<rparr>) (finish ''1'' (add_task (add_task []))))) ''2'')
   = Some True"
  by code_simp

end
