(* ===== verification/Agent_Properties.thy ===== *)
theory Agent_Properties
  imports Agent_Scenario
begin

text \<open>
  What the components around an agent promise: the message bus, the paths and files of its virtual
  environment, the replay log and its subscribers, the usage ledger with its prices, and the task
  board. Each property is proved from the lemmas of its component and applied to a concrete execution.
\<close>

section \<open>The message bus\<close>

text \<open>
  C25. The state of a bus is well formed after any sequence of operations: it holds at most as many
  messages as its bound, with distinct identifiers that its index lists exactly; every subscriber has
  a cursor within the log and a set of consumed identifiers, all of stored messages.
\<close>

theorem bus_state_is_well_formed:
  "bus_shape (snd (exec_run bus_exec ops (bus_with_maxlen n)))
   \<and> length (mb_messages (snd (exec_run bus_exec ops (bus_with_maxlen n)))) \<le> n"
proof -
  have "bus_ok (snd (exec_run bus_exec ops (bus_with_maxlen n)))"
    using bus.run_refines [OF bus_ok_with_maxlen] by blast
  moreover have "mb_maxlen (snd (exec_run bus_exec ops b)) = mb_maxlen b" for b
  proof (induction ops arbitrary: b)
    case (Cons op ops)
    show ?case
      using Cons.IH [of "snd (bus_exec op b)"] bus_maxlen_exec [of op b] by (simp add: Let_def split_beta)
  qed simp
  ultimately show ?thesis by (simp add: bus_ok_def bus_with_maxlen_def)
qed

text \<open>
  C26. The bus implements one mailbox per subscriber. Whatever the sequence of subscriptions, sends,
  receptions, acknowledgements and resets, it answers exactly as the specification in which a message
  is put into the mailbox of every subscriber it is deliverable to, taken out by the reception that
  returns it, and dropped from all mailboxes when the retention bound drops it from the log.
\<close>

theorem bus_refines_mailboxes:
  "map_prod id bus_abs (exec_run bus_exec ops (bus_with_maxlen n)) =
     exec_run (box_exec n) ops \<lparr>ms_log = [], ms_box = Map.empty\<rparr>"
proof -
  have "bus_abs (bus_with_maxlen n) = \<lparr>ms_log = [], ms_box = Map.empty\<rparr>" "mb_maxlen (bus_with_maxlen n) = n"
    by (simp_all add: bus_abs_def bus_with_maxlen_def)
  with bus.run_refines [OF bus_ok_with_maxlen [of n], of ops] show ?thesis by simp
qed

text \<open>
  C27. A subscriber receives a message at most once and only messages that were sent, in any
  interleaving with other subscribers, when the senders use distinct identifiers.
\<close>

theorem bus_delivers_once:
  assumes "distinct (map bm_id (sent ops))"
  shows "distinct (map bm_id (received a ops (fst (exec_run bus_exec ops (bus_with_maxlen n)))))
    \<and> bm_id ` set (received a ops (fst (exec_run bus_exec ops (bus_with_maxlen n))))
        \<subseteq> bm_id ` set (sent ops)"
  using bus.delivers_once [OF bus_ok_with_maxlen _ assms] by (simp add: box_of_def bus_abs_def bus_with_maxlen_def)

theorem bus_delivers_once_witness:
  "distinct (map bm_id [demo_message ''1'', demo_message ''2'', demo_message ''3''])"
  using bus_delivers_once [OF demo_bus_ids, of "''a''" 2] unfolding demo_bus_received by blast

section \<open>Paths and files of the virtual environment\<close>

text \<open>
  C28. A requested path, once backslashes are read as separators, is refused as invalid exactly when it
  is absolute or has a parent segment. Every other path is accepted as a relative path without
  backslashes that names the same place as the request: from any directory both walk down through
  exactly the names of the request, in order, and so stay below that directory.
\<close>

theorem requested_paths_stay_below:
  "if prefix ''/'' (forward_slashes p) \<or> ''..'' \<in> set (split_char slash (forward_slashes p))
   then normalize_requested_path p = Err (EnvInvalidRequest p)
   else \<exists>q. normalize_requested_path p = Ok q \<and> \<not> prefix ''/'' q \<and> backslash \<notin> set q
     \<and> resolve dir (split_char slash q) = Some (dir @ path_names (forward_slashes p))
     \<and> resolve dir (split_char slash (forward_slashes p)) = resolve dir (split_char slash q)"
  by (rule requested_path_spec)

theorem requested_paths_stay_below_witness:
  "normalize_requested_path ''/etc'' = Err (EnvInvalidRequest ''/etc'')
   \<and> resolve [''work''] (split_char slash ''src/main'')
       = Some ([''work''] @ path_names (forward_slashes (''./src'' @ [backslash] @ ''main'')))"
proof -
  let ?p = "''./src'' @ [backslash] @ ''main''"
  have bad: "prefix ''/'' (forward_slashes ''/etc'') \<or> ''..'' \<in> set (split_char slash (forward_slashes ''/etc''))"
    and good: "\<not> (prefix ''/'' (forward_slashes ?p) \<or> ''..'' \<in> set (split_char slash (forward_slashes ?p)))"
    and ok: "normalize_requested_path ?p = Ok ''src/main''" by code_simp+
  have "normalize_requested_path ''/etc'' = Err (EnvInvalidRequest ''/etc'')"
    using requested_paths_stay_below [of "''/etc''" "[]"] unfolding if_P [OF bad] .
  moreover have "resolve [''work''] (split_char slash ''src/main'') = Some ([''work''] @ path_names (forward_slashes ?p))"
    using requested_paths_stay_below [of ?p "[''work'']"] unfolding if_not_P [OF good] ok
    by (elim exE conjE) (simp only: result.inject)
  ultimately show ?thesis ..
qed

text \<open>
  C29. The policy confines writes. Under a policy whose allowed prefixes are plain directory names, no
  sequence of writes, deletions, copies, moves, scratch files and process operations, whatever paths
  the requests name and whether they succeed or fail, changes or removes a file or removes a directory
  outside the writable part of the tree.
\<close>

theorem policy_confines_writes:
  assumes "policy_ok (ep_files (ve_policy v))" and "\<not> writable v p" and "ve_wf v"
  shows "file_at (ve_run ops v) p = file_at v p \<and> (dir_at v p \<longrightarrow> dir_at (ve_run ops v) p)"
  using run_confined [OF assms, of ops] by (simp add: kept_def)

theorem policy_confines_writes_witness:
  "file_at (ve_run [WriteText ''secret'' ''x'', MovePath ''secret'' ''work/s'' True,
      DeletePath ''.'' True, CopyPath ''work/a'' ''secret'' True] demo_env) ''secret'' = (Some ''hidden'', None)"
proof -
  have "file_at demo_env ''secret'' = (Some ''hidden'', None)" by code_simp
  then show ?thesis using policy_confines_writes [OF demo_env_facts(3,4,1)] by metis
qed

text \<open>
  C30. Moving a file or a directory to a free destination outside of it takes every file below the
  source to the same position below the destination, text as text and bytes as bytes, leaves nothing
  at the source and changes no other file. Source and destination are named without a trailing
  separator, and the source must be readable.
\<close>

theorem move_relocates_tree:
  assumes "ve_wf v" and "one_kind v"
    and "transfer_guard v src dst True False = Ok (s, d)" and "check_file v s False = Ok ()"
    and "plain_path s" and "plain_path d" and "path_exists_unchecked v s" and "\<not> below s d"
  shows "\<exists>v'. ve_move_path v src dst False = (Ok (), v')
    \<and> (\<forall>r. r = [] \<or> prefix ''/'' r \<longrightarrow> file_at v' (d @ r) = copied_at v s r)
    \<and> (\<forall>k. (if is_file v s then k = s else below s k) \<longrightarrow> file_at v' k = (None, None))
    \<and> (\<forall>k. \<not> (if is_file v s then k = s else below s k) \<and> \<not> below d k \<longrightarrow> file_at v' k = file_at v k)"
  by (rule move_relocates [OF assms]) blast

theorem move_relocates_tree_witness:
  "\<exists>v'. ve_move_path demo_env ''work/a'' ''work/c'' False = (Ok (), v')
     \<and> file_at v' ''work/c/x'' = (Some ''text'', None) \<and> file_at v' ''work/c/y'' = (None, Some ''bytes'')
     \<and> file_at v' ''work/a/x'' = (None, None) \<and> file_at v' ''work/b'' = (Some ''other'', None)"
proof -
  obtain v' where v': "ve_move_path demo_env ''work/a'' ''work/c'' False = (Ok (), v')"
    and new: "\<forall>r. r = [] \<or> prefix ''/'' r \<longrightarrow> file_at v' (''work/c'' @ r) = copied_at demo_env ''work/a'' r"
    and gone: "\<forall>k. (if is_file demo_env ''work/a'' then k = ''work/a'' else below ''work/a'' k)
        \<longrightarrow> file_at v' k = (None, None)"
    and rest: "\<forall>k. \<not> (if is_file demo_env ''work/a'' then k = ''work/a'' else below ''work/a'' k)
        \<and> \<not> below ''work/c'' k \<longrightarrow> file_at v' k = file_at demo_env k"
    using move_relocates_tree [OF demo_env_facts(1,2) demo_transfer(2-7)] by blast
  have at: "copied_at demo_env ''work/a'' ''/x'' = (Some ''text'', None)"
    "copied_at demo_env ''work/a'' ''/y'' = (None, Some ''bytes'')"
    "\<not> is_file demo_env ''work/a''" "below ''work/a'' ''work/a/x''" "\<not> below ''work/a'' ''work/b''"
    "\<not> below ''work/c'' ''work/b''" "file_at demo_env ''work/b'' = (Some ''other'', None)"
    by code_simp+
  have "file_at v' ''work/c/x'' = (Some ''text'', None)" "file_at v' ''work/c/y'' = (None, Some ''bytes'')"
    using new [rule_format, of "''/x''"] new [rule_format, of "''/y''"] at(1,2) by simp_all
  with v' gone rest at(3-7) show ?thesis by auto
qed

text \<open>
  C31. The bounded listing, which keeps a window of candidates while it scans, returns exactly the
  first entries of the sorted list of all matching entries, with the number of matches and whether any
  were left out.
\<close>

theorem listing_is_bounded_and_exact:
  assumes "normalize_requested_path path = Ok q" and "check_file v q False = Ok ()"
    and "0 < fl_max_entries opts"
  shows "ve_list_with_options v path opts =
    (let matches = listed (list_prefix q) (fl_ignore_patterns opts) (candidate_keys v)
     in Ok \<lparr>fr_entries = take (fl_max_entries opts) (sort matches),
            fr_truncated = (fl_max_entries opts < length matches),
            fr_total_entries = length matches\<rparr>)"
  using list_with_options_bounded [OF assms refl] by (simp add: Let_def)

theorem listing_is_bounded_and_exact_witness:
  "ve_list_with_options demo_env ''work'' \<lparr>fl_ignore_patterns = [], fl_max_entries = 2\<rparr> =
    (let matches = listed (list_prefix ''work'') [] (candidate_keys demo_env)
     in Ok \<lparr>fr_entries = take 2 (sort matches), fr_truncated = (2 < length matches),
            fr_total_entries = length matches\<rparr>)"
proof -
  have "normalize_requested_path ''work'' = Ok ''work''" "check_file demo_env ''work'' False = Ok ()"
    by code_simp+
  from listing_is_bounded_and_exact [OF this, of "\<lparr>fl_ignore_patterns = [], fl_max_entries = 2\<rparr>"]
  show ?thesis by simp
qed

section \<open>The replay log\<close>

text \<open>
  C32. Appending to the log is idempotent by scope and sequence. An event is accepted exactly when its
  slot is free or holds the same event; the log then differs at most in that slot, and accepting it
  again changes nothing and broadcasts nothing. Any other event for the slot is refused with an error
  and the log does not change. The branch for an inconsistent index is unreachable.
\<close>

theorem replay_append_is_idempotent:
  "case log_append (log_appends ps) sc e of
     (Ok _, l) \<Rightarrow> log_at (log_appends ps) sc (re_sequence e) \<in> {None, Some (e\<lparr>re_scope := sc\<rparr>)}
       \<and> log_at l = (log_at (log_appends ps))(sc := (log_at (log_appends ps) sc)(re_sequence e \<mapsto> e\<lparr>re_scope := sc\<rparr>))
       \<and> log_append l sc e = (Ok (), l)
   | (Err err, l) \<Rightarrow> l = log_appends ps
       \<and> err = ReplayFailed (''replay event conflict for scope '' @ sc @ '' at sequence ''
           @ u64_to_string (re_sequence e))
       \<and> log_at l sc (re_sequence e) \<notin> {None, Some (e\<lparr>re_scope := sc\<rparr>)}
   | (Panic, l) \<Rightarrow> False"
proof -
  note inv = log_appends_inv [of ps]
  obtain r l where rl: "log_append (log_appends ps) sc e = (r, l)" by (cases "log_append (log_appends ps) sc e")
  show ?thesis
  proof (cases r)
    case (Ok u)
    then have ok: "log_append (log_appends ps) sc e = (Ok (), l)" using rl by simp
    have at: "log_at l sc (re_sequence e) = Some (e\<lparr>re_scope := sc\<rparr>)"
      using log_at_append(1) [OF inv ok] by simp
    have "event_log_inv l" using event_log_inv_append [OF inv, of sc e] ok by simp
    then have "log_append l sc e = (Ok (), l)"
      by (cases rule: log_append_cases [OF _ refl, of l sc e]) (use at in auto)
    then show ?thesis using ok log_at_append(1,3) [OF inv, of sc e] by simp
  next
    case (Err err)
    then show ?thesis
      using rl log_at_append(2,3) [OF inv, of sc e]
      by (cases rule: log_append_cases [OF inv refl, of sc e]) auto
  next
    case Panic
    then show ?thesis using rl by (cases rule: log_append_cases [OF inv refl, of sc e]) auto
  qed
qed

text \<open>
  C33. A subscriber that resumes after a cursor reads the log in order and without gaps: its
  \<open>i\<close>-th event is the logged event of the \<open>i\<close>-th sequence after the cursor. This holds whatever the
  live channel yields (events of the log in any order, repeated, missing, or a lag notice), however
  far the log had grown at each reading of the durable source, and for any number of receptions.
\<close>

theorem subscription_reads_in_order:
  assumes "log_subscribe (log_appends (take t ps)) sc (Some c) = Ok sub"
    and "\<forall>x. ChanEvent x \<in> set ins \<longrightarrow> x \<in> set (el_sent (log_appends ps))"
    and "i < length (recv_stream (catchup_at ps at) k n ins sub)"
  shows "unat (cur_sequence c) + i < 2 ^ 64 - 1
    \<and> log_at (log_appends ps) sc (cur_sequence c + 1 + of_nat i) =
        Some (recv_stream (catchup_at ps at) k n ins sub ! i)"
  using assms by (rule subscriber_reads_log)

theorem subscription_reads_in_order_witness:
  "log_at (log_appends demo_appends) ''run:r'' 3 = Some (demo_event 3)"
proof -
  have "1 < length (recv_stream (catchup_at demo_appends (\<lambda>_. 4)) 5 0 demo_channel demo_subscription)"
    by (simp add: demo_stream)
  from subscription_reads_in_order [OF demo_subscribe demo_channel_sent this] show ?thesis
    by (simp add: demo_stream)
qed

text \<open>
  C34. A subscriber does not get stuck behind a gap: when the channel hands it an event of its scope,
  whichever one that is, and the sequence after its cursor is in the log by then, the reception
  returns exactly the event of that sequence.
\<close>

theorem subscription_progresses:
  assumes "subscriber ps sc sub" and "sub_cursor sub = Some c" and "re_scope x = sc"
    and "\<forall>y. ChanEvent y \<in> set (ChanEvent x # ins) \<longrightarrow> y \<in> set (el_sent (log_appends ps))"
    and "cur_family c = ReplayEvent" and "cur_scope c = sc" and "cur_sequence c \<noteq> - 1"
    and "log_at (log_appends (take (at (Suc n)) ps)) sc (cur_sequence c + 1) = Some e"
  shows "\<exists>s n' ins'. recv (catchup_at ps at) n (ChanEvent x # ins) sub = Some (Ok e, s, n', ins')"
  by (rule subscriber_progresses [OF assms(1,2,4)]) (use assms(3,5-8) in auto)

theorem subscription_progresses_witness:
  "\<exists>s n' ins'. recv (catchup_at demo_appends (\<lambda>_. 4)) 0 [ChanEvent (demo_event 3)] demo_subscription
     = Some (Ok (demo_event 2), s, n', ins')"
proof (rule subscription_progresses [OF demo_subscriber])
  show "sub_cursor demo_subscription = Some (cursor_replay_event ''run:r'' 1)" by code_simp
  show "log_at (log_appends (take 4 demo_appends)) ''run:r''
      (cur_sequence (cursor_replay_event ''run:r'' 1) + 1) = Some (demo_event 2)" by code_simp
  show "re_scope (demo_event 3) = ''run:r''" by code_simp
  have "demo_event 3 \<in> set (el_sent (log_appends demo_appends))" by code_simp
  then show "\<forall>y. ChanEvent y \<in> set [ChanEvent (demo_event 3)]
      \<longrightarrow> y \<in> set (el_sent (log_appends demo_appends))" by simp
qed (auto simp: cursor_replay_event_def cursor_for_family_def)

section \<open>Archive and compaction\<close>

text \<open>
  C35. The archive keeps one message per sequence. In every reachable archive an append is accepted
  exactly when no two of the stored and new messages share a sequence without being equal; a replay
  then returns the union in strictly ascending order, and what was stored when it is refused; an
  accepted append may be repeated without effect on any scope; and reading on from a cursor continues
  exactly where a reader of the whole log with that cursor had stopped.
\<close>

theorem archive_keeps_one_per_sequence:
  assumes "archive_reachable a" and "append_display_messages scope ms a = (r, a')"
  shows "(is_ok r \<longleftrightarrow> inj_on dm_sequence (set (display_stored a scope) \<union> set ms))
    \<and> (\<exists>log. replay_display_after scope None a' = Ok log
        \<and> sorted_wrt (<) (map dm_sequence log)
        \<and> set log = set (display_stored a scope) \<union> (if is_ok r then set ms else {})
        \<and> (\<forall>c rest. cur_sequence c \<noteq> - 1 \<and> replay_display_after scope (Some c) a' = Ok rest
            \<longrightarrow> log = filter (\<lambda>m. dm_sequence m \<le> cur_sequence c) log @ rest))
    \<and> (is_ok r \<longrightarrow> is_ok (fst (append_display_messages scope ms a'))
        \<and> replay_display_after sc None (snd (append_display_messages scope ms a'))
            = replay_display_after sc None a')"
proof -
  have inv: "archive_inv a" and r: "is_ok r \<longleftrightarrow> fst (display_add scope ms a)" "a' = snd (display_add scope ms a)"
    using archive_reachable_inv [OF assms(1)] append_display_add [of scope ms a] assms(2) by simp_all
  have inv': "archive_inv a'"
    using display_log.add_wf [OF inv] r(2) by simp
  have "set (display_stored a' scope) = set (display_stored a scope) \<union> (if is_ok r then set ms else {})"
    using display_log.set_after [OF inv] r by simp
  moreover have "sorted_wrt (<) (map dm_sequence (display_stored a' scope))"
    using display_log.stored_ascending [OF inv'] by (simp add: ascending_def strict_sorted_iff)
  ultimately show ?thesis
    using display_log.add_accepts [OF inv] display_log.retry [OF inv] replay_display_resumes [OF inv'] r
    by (simp add: replay_from_start append_display_add compatible_def)
qed

theorem archive_keeps_one_per_sequence_witness:
  "is_ok (fst (append_display_messages ''run:r'' [demo_delta 1 ''Hel''] demo_archive))
   \<and> (\<exists>log. replay_display_after ''run:r'' None
        (snd (append_display_messages ''run:r'' [demo_delta 1 ''Hel''] demo_archive)) = Ok log
      \<and> set log = {demo_delta 3 ''lo'', demo_delta 1 ''Hel''})"
proof -
  let ?p = "append_display_messages ''run:r'' [demo_delta 1 ''Hel''] demo_archive"
  have split: "?p = (fst ?p, snd ?p)"
    by simp
  note applied = archive_keeps_one_per_sequence [OF demo_archive_reachable split]
  have "inj_on dm_sequence (set (display_stored demo_archive ''run:r'') \<union> set [demo_delta 1 ''Hel''])"
    by (simp add: demo_archive_stored inj_on_def demo_delta_def display_message_new_def)
  then have ok: "is_ok (fst ?p)"
    using applied by blast
  obtain log where "replay_display_after ''run:r'' None (snd ?p) = Ok log"
      "set log = set (display_stored demo_archive ''run:r'') \<union> (if is_ok (fst ?p) then set [demo_delta 1 ''Hel''] else {})"
    using applied by blast
  then show ?thesis
    using ok demo_archive_stored by auto
qed

text \<open>
  C36. Compaction of a live display stream equals grouping the whole history: pushing never indexes
  outside the buffer, the snapshot holds one item per text part and per tool call in order of first
  appearance, every other message is kept unchanged and in order, the text of a part is the
  concatenation of all its deltas, the arguments of a tool call likewise, and the cursor is the
  greatest sequence seen.
\<close>

theorem compaction_groups_history:
  "\<exists>b. push_all jt ms (buffer_new scope) = Ok b
    \<and> buffer_snapshot b =
        \<lparr>rs_scope = Some scope, rs_revision = min (length ms) (2 ^ 64 - 1),
         rs_cursor = map_option (cursor_display scope) (max_sequence ms),
         rs_display_messages = map (compacted jt ms) (slots jt ms), rs_metadata = []\<rparr>
    \<and> filter (\<lambda>m. \<not> is_delta m) (cb_items b) = filter (\<lambda>m. \<not> is_delta m) ms
    \<and> (TextSlot k \<in> set (slots jt ms) \<longrightarrow>
        text_item k (slot_group jt ms (TextSlot k)) (compacted jt ms (TextSlot k)))
    \<and> (ToolSlot k \<in> set (slots jt ms) \<longrightarrow>
        tool_item k (slot_group jt ms (ToolSlot k)) (compacted jt ms (ToolSlot k)))"
proof -
  obtain b where b: "push_all jt ms (buffer_new scope) = Ok b" "buffer_matches jt ms b" "cb_scope b = scope"
      "unat (cb_revision b) = min (length ms) (2 ^ 64 - 1)" "cb_max_sequence_seen b = max_sequence ms"
    using buffer_equals_reference by blast
  have items: "cb_items b = map (compacted jt ms) (slots jt ms)"
    using b(2) by (simp add: buffer_matches_def)
  have "buffer_snapshot b =
        \<lparr>rs_scope = Some scope, rs_revision = min (length ms) (2 ^ 64 - 1),
         rs_cursor = map_option (cursor_display scope) (max_sequence ms),
         rs_display_messages = map (compacted jt ms) (slots jt ms), rs_metadata = []\<rparr>"
    unfolding buffer_snapshot_def items b(3,4,5) ..
  moreover have "filter (\<lambda>m. \<not> is_delta m) (cb_items b) = filter (\<lambda>m. \<not> is_delta m) ms"
    unfolding items by (rule others_kept)
  ultimately show ?thesis
    using b(1) compacted_items [of k jt ms] by blast
qed

theorem compaction_groups_history_witness:
  "\<exists>b item. push_all (\<lambda>_. []) demo_answer (buffer_new ''run:r'') = Ok b
    \<and> rs_display_messages (buffer_snapshot b) = [item, display_message_new 0 2 ''s'' ''r'' DmToolResult]
    \<and> member_str (dm_payload item) ''text'' = Some ''Hello'' \<and> dm_sequence item = 3"
proof -
  obtain b where "push_all (\<lambda>_. []) demo_answer (buffer_new ''run:r'') = Ok b"
      "rs_display_messages (buffer_snapshot b) = map (compacted (\<lambda>_. []) demo_answer) (slots (\<lambda>_. []) demo_answer)"
      "text_item ''p'' (slot_group (\<lambda>_. []) demo_answer (TextSlot ''p''))
        (compacted (\<lambda>_. []) demo_answer (TextSlot ''p''))"
    using compaction_groups_history [of "\<lambda>_. []" demo_answer "''run:r''" "''p''"] demo_slots(1) by auto
  moreover have "dm_sequence (demo_delta n t) = n" for n t
    by (simp add: demo_delta_def display_message_new_def)
  ultimately show ?thesis
    by (simp add: demo_slots text_item_def compacted_plain)
qed

section \<open>Usage and prices\<close>

text \<open>
  C37. The estimated cost of a usage report is the exact cost. The four input classes it is charged by
  share out the input tokens exactly, also for inconsistent counters; the charge is the weighted sum,
  rounded up to a micro dollar for input and for output, in unbounded arithmetic, and only the result
  is cut at the largest 64-bit number: the 128-bit intermediate never saturates.
\<close>

theorem estimate_is_exact_cost:
  "unat (effective_standard_input_tokens u)
     + unat (u64_saturating_sub (effective_cache_write_tokens u) (effective_cache_write_1h_tokens u))
     + unat (effective_cache_write_1h_tokens u) + unat (effective_cache_read_tokens u)
   = unat (us_input_tokens u)
   \<and> unat (details_estimate_micros d u) =
       min (ceil_micros (weighted_input d u)
              + ceil_micros (unat (us_output_tokens u) * unat (mpd_output_micros d)))
           (2 ^ 64 - 1)"
  using effective_split details_estimate_exact by (simp add: u64_clip_def)

text \<open>
  C38. A usage snapshot adds up. Its total is the sum of all ledger entries; a model is listed exactly
  when some entry names it, with the sum of the usage of the entries that name it; an agent is listed
  exactly when it has an entry, with the sum of the usage and of the estimates of its own entries. The
  price estimate, as a whole, of each model and of each agent, is present exactly when one of the
  entries in question has one, and is the sum of theirs. The totals per model and per agent each sum up
  to the total again. Sums saturate.
\<close>

theorem usage_snapshot_adds_up:
  "uss_total_usage (build_usage_snapshot l) = usage_total (map use_usage (bt_values (led_entries l)))
   \<and> uss_estimate_pricing (build_usage_snapshot l) = entries_estimate (bt_values (led_entries l))
   \<and> (\<forall>m. map_of (uss_model_usages (build_usage_snapshot l)) m
          = entries_usage (filter (\<lambda>e. use_model_id e = m) (bt_values (led_entries l)))
        \<and> map_of (uss_model_estimate_pricing (build_usage_snapshot l)) m
          = entries_estimate (filter (\<lambda>e. use_model_id e = m) (bt_values (led_entries l))))
   \<and> (\<forall>a. map_option uat_usage (map_of (uss_agent_usages (build_usage_snapshot l)) a)
          = entries_usage (filter (\<lambda>e. use_agent_id e = a) (bt_values (led_entries l)))
        \<and> Option.bind (map_of (uss_agent_usages (build_usage_snapshot l)) a) uat_estimate_pricing
          = entries_estimate (filter (\<lambda>e. use_agent_id e = a) (bt_values (led_entries l))))
   \<and> usage_total (bt_values (uss_model_usages (build_usage_snapshot l)))
       = uss_total_usage (build_usage_snapshot l)
   \<and> usage_total (map uat_usage (bt_values (uss_agent_usages (build_usage_snapshot l))))
       = uss_total_usage (build_usage_snapshot l)
   \<and> price_total (bt_values (uss_model_estimate_pricing (build_usage_snapshot l)))
       = (case uss_estimate_pricing (build_usage_snapshot l) of None \<Rightarrow> from_micros_usd 0 | Some p \<Rightarrow> p)"
proof -
  note grouped = build_usage_snapshot_grouped [of l, unfolded snapshot_grouped_def]
  have "usage_total (bt_values (uss_model_usages (build_usage_snapshot l)))
       = uss_total_usage (build_usage_snapshot l)"
    "usage_total (map uat_usage (bt_values (uss_agent_usages (build_usage_snapshot l))))
       = uss_total_usage (build_usage_snapshot l)"
    "price_total (bt_values (uss_model_estimate_pricing (build_usage_snapshot l)))
       = (case uss_estimate_pricing (build_usage_snapshot l) of None \<Rightarrow> from_micros_usd 0 | Some p \<Rightarrow> p)"
    using build_usage_snapshot_ok [of l] unfolding snapshot_adds_up_def by blast+
  with grouped snapshot_totals [of l] snapshot_estimate [of l] show ?thesis by blast
qed

text \<open>
  C39. Every row of the built-in price catalog is found under each of its aliases, in any case, with or
  without a provider prefix or a vendor path: no alias is shadowed by another row. For a tiered row the
  estimate uses the first tier that covers the input of the request.
\<close>

theorem catalog_finds_every_alias:
  assumes "r \<in> set model_pricing_catalog" and "a \<in> set (pr_aliases r)" and "spelling_of a m"
  shows "known_model_pricing_profile m = Some (pr_profile r)
    \<and> estimate_pricing_for_model m u = Some (profile_estimate (pr_profile r) u)
    \<and> (\<forall>ts. pr_profile r = Tiered ts \<longrightarrow>
         (\<exists>i < length ts. tier_matches (ts ! i) (us_input_tokens u)
            \<and> (\<forall>j < i. \<not> tier_matches (ts ! j) (us_input_tokens u))
            \<and> profile_estimate (pr_profile r) u = details_estimate (mpt_pricing (ts ! i)) u))"
proof -
  have found: "known_model_pricing_profile m = Some (pr_profile r)"
    using lookup_by_alias [OF assms] by (simp add: known_model_pricing_profile_def)
  have "\<exists>i < length ts. tier_matches (ts ! i) (us_input_tokens u)
      \<and> (\<forall>j < i. \<not> tier_matches (ts ! j) (us_input_tokens u))
      \<and> profile_estimate (pr_profile r) u = details_estimate (mpt_pricing (ts ! i)) u"
    if ts: "pr_profile r = Tiered ts" for ts
  proof -
    have "tiers_ascending ts"
      using catalog_tiers_ascending assms(1) ts by (auto simp: list_all_iff)
    from select_tier_range [OF this, of details_default "us_input_tokens u"]
    obtain i where i: "i < length ts" "tier_matches (ts ! i) (us_input_tokens u)"
      "select_tier details_default (us_input_tokens u) ts = mpt_pricing (ts ! i)"
      "\<forall>j < i. \<exists>m. mpt_max_input_tokens (ts ! j) = Some m \<and> m < us_input_tokens u" by blast
    then have "\<forall>j < i. \<not> tier_matches (ts ! j) (us_input_tokens u)"
      by (auto simp: tier_matches_def)
    with i ts show ?thesis
      by (auto simp: profile_estimate_def profile_estimate_micros_def details_for_usage_def details_estimate_def)
  qed
  with found show ?thesis by (simp add: estimate_pricing_for_model_def)
qed

theorem catalog_finds_every_alias_witness:
  "known_model_pricing_profile ''xai:GROK-4.5'' =
     Some (Single (with_cache_read (details_new 2000000 6000000) 500000))"
proof -
  define r where "r = hd grok_catalog"
  have r: "r \<in> set model_pricing_catalog" "''grok-4.5'' \<in> set (pr_aliases r)"
    "pr_profile r = Single (with_cache_read (details_new 2000000 6000000) 500000)"
    by (simp_all add: r_def grok_catalog_def model_pricing_catalog_def record_new_def)
  have "map ascii_lower ''GROK-4.5'' = ''grok-4.5''" by code_simp
  moreover have "list_all visible_char ''xai''" by (simp add: visible_char_def)
  ultimately have "spelling_of ''grok-4.5'' ''xai:GROK-4.5''"
    unfolding spelling_of_def by (intro exI [of _ "''xai''"] exI [of _ "''GROK-4.5''"]) simp
  from catalog_finds_every_alias [OF r(1,2) this] r(3) show ?thesis by simp
qed

section \<open>The task board\<close>

text \<open>
  C40. On a board built by creating tasks and by updates that name existing tasks, wait for none that
  is finished and add no waiter to a finished one, a task is blocked exactly when a task it waits for
  is unfinished: completing a task releases every task that waits for it.
\<close>

theorem blocked_means_waiting:
  assumes "board m" and "map_of m i = Some t"
  shows "task_is_blocked t \<longleftrightarrow>
    (\<exists>j s. j \<in> set (tk_blocked_by t) \<and> map_of m j = Some s \<and> tk_status s \<noteq> TaskCompleted)"
  using assms by (rule blocked_iff_unfinished)

theorem blocked_means_waiting_witness:
  "\<exists>t j s. map_of demo_board ''2'' = Some t \<and> j \<in> set (tk_blocked_by t) \<and> map_of demo_board j = Some s
     \<and> tk_status s \<noteq> TaskCompleted"
proof -
  obtain t where "map_of demo_board ''2'' = Some t" "task_is_blocked t"
    using demo_board_task(1) by auto
  with blocked_means_waiting [OF demo_board_ok] show ?thesis by blast
qed

end
