(* ===== verification/Spec2Isabelle.thy ===== *)
theory Spec2Isabelle
  imports Background_Scenario Evidence_Scenario Store_Traces Agent_Properties
begin

text \<open>
  Verification of the core of Starweaver, an agent SDK in Rust: the durable session store that hosts
  use to coordinate runs, and the pure components around one agent. Paths below are relative to
  \<open>src/crates\<close>.

  \<^bold>\<open>The program.\<close> A host serves sessions; a session owns runs; a run executes an agent. Several host
  processes may serve the same session, so the store (\<open>starweaver-session\<close>) arbitrates: a run starts
  only under an admission lease with a fencing generation, every later write of its owner is checked
  against that lease, an expired lease is recovered by another host, a run that waits for a human is
  continued by a replacement run under a resume claim, user controls reach a run as durable intents,
  background subagents report terminal evidence and artifacts that are delivered into a session, and
  every transition publishes host events through an outbox. A running agent leaves checkpoints,
  stream records and approval prompts beside its records. Around one agent stand a message bus and a
  task board (\<open>starweaver-context\<close>), a file and process environment (\<open>starweaver-environment\<close>),
  replay logs, archives and compaction of its display stream (\<open>starweaver-stream\<close>), and the
  accounting of its tokens and costs (\<open>starweaver-usage\<close>).

  \<^bold>\<open>How it is modelled.\<close> The store guards one structure, \<open>StoreInner\<close>, by one mutex, which an operation
  holds from its first read to its last write: an operation is a function from the state to a result
  and the next state, and an execution is a sequence of operations in any order. Errors are values
  (\<open>Ok\<close>, \<open>Err\<close>, \<open>Panic\<close>); an operation returns the state next to the result also on failure, because
  some mutate in place before they fail and others work on a clone. Machine integers are words
  (\<open>u64\<close>) with the checked and saturating additions of the source; \<open>usize\<close> is 64 bits wide; an
  ordered map is a sorted association list; a string is its list of bytes; a clock reading is an
  argument. SHA-256, the timestamp text, the JSON writer, the glob matcher and the broadcast channel
  are parameters. The agent-side objects are modelled the same way, one record per struct.

  \<^bold>\<open>Theories of the store.\<close>
  \<^item> \<open>Prelude\<close>: results, words, ordered maps (locale \<open>ordered_map\<close>), strings, decimal text, JSON.
  \<^item> \<open>Lifecycle\<close>, \<open>Session_Records\<close>, \<open>Management\<close>, \<open>Run_Control\<close>, \<open>Host_Events\<close>, \<open>Background\<close>,
    \<open>Approvals\<close>: the records of \<open>starweaver-core/src/lifecycle.rs\<close> and of \<open>records.rs\<close>,
    \<open>management.rs\<close>, \<open>run_control.rs\<close> and \<open>claim.rs\<close>, \<open>host_events.rs\<close>, \<open>background.rs\<close> and
    \<open>approval.rs\<close> in \<open>starweaver-session/src\<close>, with their validation, wire names, status orders
    (locale \<open>forward_status\<close>) and the framing of publication keys.
  \<^item> \<open>Store_State\<close>: \<open>StoreInner\<close> and the shared helpers of \<open>store/memory.rs\<close>: status application,
    lease check, control reconciliation, settlement of a lost continuation.
  \<^item> \<open>Store_Outbox\<close>, \<open>Outbox_Refinement\<close>: \<open>store/memory/host_events.rs\<close> and its specification, an
    append-only channel (locale \<open>append_only_channel\<close>).
  \<^item> \<open>Store_Runs\<close>: \<open>store/memory/runs.rs\<close>, \<open>sessions.rs\<close> and the page queries of \<open>store/contract.rs\<close>;
    the record invariant; locale \<open>keyset_pages\<close> for both page loops.
  \<^item> \<open>Store_Admission\<close>, \<open>Store_Claims\<close>, \<open>Store_Control\<close>, \<open>Store_Sessions\<close>: the admission, resume,
    control and session operations of \<open>store/memory.rs\<close>; the locales \<open>lease_cleanup\<close> (what every
    recovery path keeps), \<open>fenced_operation\<close> (every operation under a lease), \<open>claim_operation\<close> and
    \<open>idempotent_command\<close>.
  \<^item> \<open>Store_Background\<close>, \<open>Background_Lifecycle\<close>: the background operations and their contract
    (\<open>background_operation\<close>, \<open>attempt_loop\<close>).
  \<^item> \<open>Store_Core\<close>, \<open>Store_Machine\<close>: the invariant of the whole store and the step relation with one
    rule per operation (locale \<open>guarded_machine\<close>).
  \<^item> \<open>Store_Traces\<close>: what every rule does to a started effect, to a control intent and to the receipt of
    a session command, lifted to executions; the operations that nobody but the current owner may
    perform (locale \<open>owner_operation\<close>); the recovery of a lost continuation.
  \<^item> \<open>Run_Evidence\<close>: the evidence tables of the store, \<open>store/memory/checkpoints.rs\<close>, \<open>streams.rs\<close>,
    \<open>approvals.rs\<close>, \<open>traces.rs\<close>, with the checkpoint commits and the fenced replay events of
    \<open>memory.rs\<close>; the machine of record and evidence operations together.
  \<^item> \<open>Scenario\<close>, \<open>Background_Scenario\<close>, \<open>Evidence_Scenario\<close>: concrete executions.

  \<^bold>\<open>Theories of the agent side.\<close>
  \<^item> \<open>Message_Bus\<close>: \<open>starweaver-context/src/message_bus.rs\<close> and its specification by mailboxes (locale
    \<open>mailbox_implementation\<close>).
  \<^item> \<open>Task_Board\<close>: \<open>starweaver-context/src/task.rs\<close>; boards as an inductive predicate.
  \<^item> \<open>Logical_Path\<close>, \<open>Virtual_Environment\<close>, \<open>Virtual_Files\<close>, \<open>Environment_Scenario\<close>: \<open>path.rs\<close>,
    \<open>policy.rs\<close> and \<open>virtual_provider\<close> of \<open>starweaver-environment/src\<close>: path rules, the file
    operations under a policy, listings, globs, processes; what each does to the file table (locale
    \<open>confined_steps\<close>).
  \<^item> \<open>Replay_Log\<close>: \<open>starweaver-stream/src/replay.rs\<close>: the event log and the subscription loop that
    merges a durable backlog with a lossy live channel.
  \<^item> \<open>Stream_Archive\<close>: \<open>starweaver-stream/src/archive.rs\<close>; locale \<open>sequenced_log\<close>, interpreted for raw
    records and for display messages; its batch loops are those of the run streams as well.
  \<^item> \<open>Compaction\<close>: \<open>starweaver-stream/src/compaction.rs\<close> and the grouping it computes incrementally.
  \<^item> \<open>Usage\<close>, \<open>Pricing_Catalog\<close>: \<open>starweaver-usage/src\<close> and the usage ledger of
    \<open>starweaver-context/src/agent_context.rs\<close>; locale \<open>accumulation\<close> for its two kinds of totals.
  \<^item> \<open>Agent_Scenario\<close>, \<open>Agent_Properties\<close>: concrete executions, and the properties of these parts.

  \<^bold>\<open>What is shown of the store\<close> (this theory). Invariant and history of all reachable states; leases:
  exclusion while live, admission after expiry, fencing of superseded owners in every later state,
  idempotent retries, finalization and recovery; continuations: one start of an effect under a claim,
  over every execution, and the recovery of both runs when the owner of a started effect is lost; control
  intents along their order, which only the owner or a reconciliation advances; the outbox as a
  refinement of a channel; complete and terminating page loops; revision-checked updates; session
  commands that are answered from their receipt in every later state;
  background attempts: durable evidence, single commit, quotas, recovery, atomic delivery; run
  evidence that only grows. Some theorems below state further facts of the same operations.

  \<^bold>\<open>What is shown of the agent side\<close> (\<open>Agent_Properties\<close>). The bus is well formed, within its bound,
  and answers as mailboxes; paths are refused or name the requested place below their root, writes stay
  inside the policy, a move relocates
  exactly a tree, a listing is the bounded prefix of all matches; replays are idempotent and
  subscribers read without gaps and make progress; the archive is a set by sequence; compaction loses
  and repeats nothing; costs are exact with one final rounding, the totals of every model and agent are the sums of their
  own entries, every alias is found;
  a blocked task waits for an unfinished one.

  \<^bold>\<open>Loops and bounds.\<close> Every function is total, without fuel. Loops over lists are structural; the
  others have a measure: string scanning by length, the receive loop by the inputs of the channel not
  yet read, a page loop by the records not yet returned. The receive loop has the value \<open>None\<close> while
  it waits for more input than the channel gave; that it returns once an event wakes it is a theorem of
  its own. A clock is an unbounded integer: the overflow of a chrono addition is not modelled.
  Costs are computed in \<open>u128\<close>, which the theorem on estimates shows to be wide enough.

  \<^bold>\<open>Executions that contradict a comment\<close>, or lose data, are lemmas of the scenario theories (the retry
  of a finalization under a new owner is in this theory): an artifact of another attempt removed by an expiry, files lost by a move with a trailing slash or
  into its own subtree, a destination lost by a copy of a missing source, a task that stays blocked,
  a stream cursor that moves backwards.

  \<^bold>\<open>Not modelled.\<close> The async runtime and agent loop (\<open>starweaver-runtime\<close>, \<open>starweaver-agent\<close>): futures
  over model and tool calls. The RPC host (\<open>starweaver-rpc\<close>, generated \<open>starweaver-rpc-core\<close>), the
  command line, the desktop application, computer use, the environment daemon and OAuth: transport,
  terminal, process and platform I/O. The SQL store (\<open>starweaver-storage\<close>): the same contract written
  as SQL statements that SQLite executes. Model providers and tools: HTTP, provider serialization,
  child processes. Of the modelled crates: \<open>serde\<close> decoding of older versions; whole-run evidence
  commits, which digest the JSON of runtime types; interaction, input, search and selection records,
  which the in-memory store does not use; JSON import and export of tasks; the rendering of the
  environment context; display projectors and sanitizers; a mutex poisoned by a panic.
\<close>

section \<open>The state machine\<close>

text \<open>
  C1. Every state that the store can reach from the empty store, through any sequence of its
  operations with any arguments, clock readings and outcomes, satisfies the store invariant: the
  session and run tables are keyed by their records' identities, the sequence index lists exactly
  the stored runs, every lease belongs to a stored run and carries the issued generation of its
  session, the outbox, its order index and the event log agree, control intents agree with their
  authority keys, and resume claims are keyed by the run they claim.
\<close>

theorem reachable_store_inv:
  assumes "(store_step env benv)\<^sup>*\<^sup>* store_new s"
  shows "store_inv s"
  using assms by (rule store.reachable_inv)

theorem reachable_store_inv_witness: "store_inv s_recovered"
  using reachable_store_inv [OF reach_recovered] .

text \<open>
  C2. History is append-only: over any execution from a reachable state the durable event log only
  grows at its end, an admission receipt never changes, and the fencing generation of a session
  never decreases.
\<close>

theorem history_is_append_only:
  assumes "(store_step env benv)\<^sup>*\<^sup>* store_new s" and "(store_step env benv)\<^sup>*\<^sup>* s s'"
  shows "history_extends s s'"
  using assms(2) store.reachable_inv [OF assms(1)] by (rule steps_history)

theorem history_is_append_only_witness: "history_extends s_started s_recovered"
  using history_is_append_only [OF reach_started steps_started_recovered] .

section \<open>Run admission\<close>

text \<open>
  C3. A fresh acquisition grants exactly one lease: the session had no unexpired lease, the granted
  lease is stored for the session with the requested identity and expiry and a higher generation
  than any issued before (unless the counter is at its last value), the run is new, queued and at
  revision 1, it owns the active slot of the session, and the receipt is recorded under the
  idempotency key.
\<close>

theorem acquire_grants_lease:
  assumes "store_inv s" and "acquire_run_admission now req s = (Ok rc, s')"
    and "\<not> rar_idempotent_replay rc"
  shows "admission_granted req s rc s'
    \<and> (\<forall>l. map_of (si_run_admissions s) (acquire_target req) = Some l \<longrightarrow> lease_expired_at l now)
    \<and> map_of (si_run_admission_idempotency s') (acq_namespace_id req, acq_idempotency_key req)
        = Some (acq_command_fingerprint req, rc)"
  using acquire_fresh [OF store_invD(2)] assms by blast

theorem acquire_grants_lease_witness: "admission_granted resume_request s_claimed receipt_b s_resumed"
proof -
  have "acquire_run_admission 30 resume_request s_claimed = (Ok receipt_b, s_resumed)"
    by (simp add: s_resumed_def s_resumed_Ok)
  moreover have "\<not> rar_idempotent_replay receipt_b" by (simp add: receipt_b_def)
  ultimately show ?thesis using acquire_grants_lease [OF sample_inv(5)] by blast
qed

text \<open>
  C4. Mutual exclusion: while a session has an unexpired lease, a new admission command for it is
  refused with a run conflict that names the active run, and the store does not change.
\<close>

theorem live_lease_excludes:
  assumes "map_of (si_run_admissions s) (acquire_target req) = Some l" and "\<not> lease_expired_at l now"
    and "map_of (si_run_admission_idempotency s) (acq_namespace_id req, acq_idempotency_key req) = None"
    and "(acq_replaces_waiting_run_id req \<noteq> None) = (acq_hitl_resume_claim_id req \<noteq> None)"
  shows "acquire_run_admission now req s
    = (Err (RunConflict (msg_active_run (rr_session_id (acq_run req)) (rt_run_id (lease_target l)))), s)"
  using assms by (rule acquire_refused_while_live)

theorem live_lease_excludes_witness:
  "acquire_run_admission 99 (sample_request ''hostB'' ''r2'' 200) s_admitted
    = (Err (RunConflict ''session s already has active run r1''), s_admitted)"
proof -
  have "acquire_run_admission 99 (sample_request ''hostB'' ''r2'' 200) s_admitted
    = (Err (RunConflict (msg_active_run (rr_session_id (acq_run (sample_request ''hostB'' ''r2'' 200)))
         (rt_run_id (lease_target lease_a)))), s_admitted)"
    by (rule live_lease_excludes) code_simp+
  also have "msg_active_run (rr_session_id (acq_run (sample_request ''hostB'' ''r2'' 200)))
         (rt_run_id (lease_target lease_a)) = ''session s already has active run r1''"
    by code_simp
  finally show ?thesis .
qed

text \<open>
  C5. An expired or absent lease does not block: a plain admission command of an active session
  with a new run succeeds when the session has no lease and no active run, or when its lease has
  expired and holds the active slot of a run that restores from no other run. Only an exhausted
  revision or sequence counter is excluded.
\<close>

theorem expired_lease_admits:
  assumes "map_of (si_sessions s) (rr_session_id (acq_run req)) = Some session"
    and "sr_namespace_id session = acq_namespace_id req" and "sr_status session = SessActive"
    and "sr_deletion_fence session = Stable"
    and "map_of (si_run_admission_idempotency s) (acq_namespace_id req, acq_idempotency_key req) = None"
    and "acq_replaces_waiting_run_id req = None" and "acq_hitl_resume_claim_id req = None"
    and "map_of (si_runs s) (run_key (rr_session_id (acq_run req)) (rr_run_id (acq_run req))) = None"
    and "rr_sequence_no (acq_run req) = 0"
    and "\<And>q. map_of (si_run_sequences s) (rr_session_id (acq_run req)) = Some q \<Longrightarrow>
        \<forall>(n, _) \<in> set q. n \<noteq> - 1"
    and "displaceable now req session s"
  shows "\<exists>rc s'. acquire_run_admission now req s = (Ok rc, s') \<and> \<not> rar_idempotent_replay rc"
  using assms by (rule acquire_succeeds)

theorem expired_lease_admits_witness:
  "\<exists>rc s'. acquire_run_admission 100 (sample_request ''hostB'' ''r2'' 200) s_admitted = (Ok rc, s')
     \<and> \<not> rar_idempotent_replay rc"
proof (rule expired_lease_admits)
  have q: "map_of (si_run_sequences s_admitted) ''s'' = Some [(1, ''r1'')]" by code_simp
  have "rr_session_id (acq_run (sample_request ''hostB'' ''r2'' 200)) = ''s''" by code_simp
  then show "\<forall>(n, _) \<in> set q. n \<noteq> - 1"
    if "map_of (si_run_sequences s_admitted)
      (rr_session_id (acq_run (sample_request ''hostB'' ''r2'' 200))) = Some q" for q
    using that q by auto
  show "map_of (si_sessions s_admitted) (rr_session_id (acq_run (sample_request ''hostB'' ''r2'' 200)))
    = Some (session_with 2 ''r1'' 10)" by code_simp
  have "map_of (si_run_admissions s_admitted) (acquire_target (sample_request ''hostB'' ''r2'' 200)) = Some lease_a"
    "map_of (si_runs s_admitted) (lease_run_key lease_a) = Some admitted_a"
    "rr_restore_from_run_id admitted_a = None" "rr_revision admitted_a = 1"
    "lease_expired_at lease_a 100"
    "sr_active_run_id (session_with 2 ''r1'' 10) = Some (rt_run_id (lease_target lease_a))" by code_simp+
  then show "displaceable 100 (sample_request ''hostB'' ''r2'' 200) (session_with 2 ''r1'' 10) s_admitted"
    by (simp add: displaceable_def)
qed code_simp+

text \<open>
  C6. Fencing: once a session was acquired again, a lease issued for it before is powerless in every
  later state, whether the session then has an owner or not. Under it a heartbeat, a fenced status
  update, a start or an abort of a continuation effect and an advance of a control intent are
  refused and write nothing; a release writes nothing, and is refused while the session has an
  owner; a finalization writes nothing, and answers at most with the stored run of that lease, when
  that run already shows exactly the requested result. The generation counter must not have been
  at its last value.
\<close>

theorem superseded_owner_is_fenced:
  assumes "store_inv s" and "acquire_run_admission now req s = (Ok rc, s1)"
    and "\<not> rar_idempotent_replay rc" and "(store_step env benv)\<^sup>*\<^sup>* s1 s2"
    and "lease_session_key old = acquire_target req"
    and "map_of (si_admission_generations s) (acquire_target req) = Some g" and "g \<noteq> - 1"
    and "lease_fencing_generation old \<le> g"
  shows "refused (heartbeat_run_admission t t' old expires) s2
    \<and> refused (update_run_status_fenced t t' old status preview) s2
    \<and> refused (start_hitl_resume_effect t old source claim) s2
    \<and> refused (abort_admitted_hitl_resume t t' old source claim text) s2
    \<and> refused (advance_run_control_intent t old operation expected next t') s2
    \<and> snd (release_run_admission t old s2) = s2
    \<and> (map_of (si_run_admissions s2) (acquire_target req) \<noteq> None \<longrightarrow> refused (release_run_admission t old) s2)
    \<and> snd (finalize_run_admission env t t' t'' old terminal s2) = s2
    \<and> (\<forall>run. fst (finalize_run_admission env t t' t'' old terminal s2) = Ok run \<longrightarrow>
         map_of (si_runs s2) (lease_run_key old) = Some run \<and> terminal_projection_matches terminal run)"
proof -
  have old: "superseded old s2" using assms by (rule outlived_superseded)
  then have "refused (heartbeat_run_admission t t' old expires) s2"
    "refused (update_run_status_fenced t t' old status preview) s2"
    "refused (start_hitl_resume_effect t old source claim) s2"
    "refused (abort_admitted_hitl_resume t t' old source claim text) s2"
    "refused (advance_run_control_intent t old operation expected next t') s2"
    by (rule heartbeat_owned.superseded_refused status_owned.superseded_refused
        start_owned.superseded_refused abort_owned.superseded_refused advance_owned.superseded_refused)+
  with release_superseded [OF old, of t] finalize_superseded [OF old, of env t t' t'' terminal] assms(5)
  show ?thesis by simp
qed

theorem superseded_owner_is_fenced_witness:
  "refused (advance_run_control_intent 45 lease_a ''op'' CtlPending CtlDelivered 45) s_started
    \<and> refused (heartbeat_run_admission 45 45 lease_a 500) s_started
    \<and> snd (finalize_run_admission sample_env 45 45 45 lease_a (terminal_completed None) s_recovered) = s_recovered"
proof -
  have acq: "acquire_run_admission 30 resume_request s_claimed = (Ok receipt_b, s_resumed)"
    by (simp add: s_resumed_def s_resumed_Ok)
  have lease: "\<not> rar_idempotent_replay receipt_b" "lease_session_key lease_a = acquire_target resume_request"
    "map_of (si_admission_generations s_claimed) (acquire_target resume_request) = Some 1"
    "(1::u64) \<noteq> - 1" "lease_fencing_generation lease_a \<le> 1"
    by code_simp+
  note fenced = superseded_owner_is_fenced [OF sample_inv(5) acq lease(1) _ lease(2-5)]
  note later = rtranclp_trans [OF steps_resumed_started steps_started_recovered]
  show ?thesis
    using fenced [OF steps_resumed_started, of 45 45 500 _ _ _ _ _ "''op''" CtlPending CtlDelivered]
      fenced [OF later, of 45 45 _ _ _ _ _ _ _ _ _ 45 "terminal_completed None"] by blast
qed

text \<open>
  The exact finalize retry of an owner that lost its session is refused as stale once the session
  has a new owner, although the same retry is acknowledged while the session has none.
\<close>

theorem finalize_retry_under_new_owner:
  "\<exists>run rc s_new. finalize_run_admission sample_env 50 50 50 lease_a (terminal_completed None) s_controlled
        = (Ok run, s_finalized)
    \<and> finalize_run_admission sample_env 51 51 51 lease_a (terminal_completed None) s_finalized = (Ok run, s_finalized)
    \<and> acquire_run_admission 60 (sample_request ''hostB'' ''r2'' 200) s_finalized = (Ok rc, s_new)
    \<and> (\<exists>e. finalize_run_admission sample_env 61 61 61 lease_a (terminal_completed None) s_new
         = (Err (StaleFence e), s_new))"
proof -
  let ?done = "terminal_completed None"
  have "case fst (finalize_run_admission sample_env 50 50 50 lease_a ?done s_controlled)
      of Ok run \<Rightarrow> terminal_projection_matches ?done run | _ \<Rightarrow> False" by code_simp
  then obtain run where run: "finalize_run_admission sample_env 50 50 50 lease_a ?done s_controlled
      = (Ok run, s_finalized)" "terminal_projection_matches ?done run"
    unfolding s_finalized_def by (rule ok_resultE)
  have "bt_contains (si_run_admissions s_controlled) (lease_session_key lease_a)" by code_simp
  moreover have "bt_wf (si_run_control_intents s_controlled)" by code_simp
  ultimately have retry: "finalize_run_admission sample_env 51 51 51 lease_a ?done s_finalized = (Ok run, s_finalized)"
    using finalize_retry [OF finalize_spec run(2)] run(1) by blast
  define s_new where "s_new = snd (acquire_run_admission 60 (sample_request ''hostB'' ''r2'' 200) s_finalized)"
  have "case fst (acquire_run_admission 60 (sample_request ''hostB'' ''r2'' 200) s_finalized)
      of Ok _ \<Rightarrow> True | _ \<Rightarrow> False" by code_simp
  then obtain rc where rc: "acquire_run_admission 60 (sample_request ''hostB'' ''r2'' 200) s_finalized = (Ok rc, s_new)"
    unfolding s_new_def by (rule ok_resultE)
  have "case fst (finalize_run_admission sample_env 61 61 61 lease_a ?done s_new) of Err (StaleFence _) \<Rightarrow> True | _ \<Rightarrow> False"
    unfolding s_new_def by code_simp
  moreover have "snd (finalize_run_admission sample_env 61 61 61 lease_a ?done s_new) = s_new"
    unfolding s_new_def by code_simp
  ultimately have "\<exists>e. finalize_run_admission sample_env 61 61 61 lease_a ?done s_new = (Err (StaleFence e), s_new)"
    by (cases "finalize_run_admission sample_env 61 61 61 lease_a ?done s_new")
       (auto split: result.splits store_error.splits)
  with run(1) retry rc show ?thesis by blast
qed

text \<open>
  C7. Admission is exactly-once: a command that was granted is answered with its receipt in every
  later state, whatever happened in between, and the repetition changes nothing.
\<close>

theorem admission_retry_replays:
  assumes "store_inv s" and "acquire_run_admission now req s = (Ok rc, s1)"
    and "(store_step env benv)\<^sup>*\<^sup>* s1 s2"
  shows "acquire_run_admission later req s2 = (Ok (rc\<lparr>rar_idempotent_replay := True\<rparr>), s2)"
  using assms by (rule receipt_outlives)

theorem admission_retry_replays_witness:
  "acquire_run_admission 300 resume_request s_recovered
    = (Ok (receipt_b\<lparr>rar_idempotent_replay := True\<rparr>), s_recovered)"
proof -
  have acq: "acquire_run_admission 30 resume_request s_claimed = (Ok receipt_b, s_resumed)"
    by (simp add: s_resumed_def s_resumed_Ok)
  show ?thesis
    by (rule admission_retry_replays [OF sample_inv(5) acq])
       (rule rtranclp_trans [OF steps_resumed_started steps_started_recovered])
qed

text \<open>
  Acquisition is transactional and total: it either succeeds, or it fails with a store error
  and leaves the store as it was; the branch marked unreachable in the code is unreachable.
\<close>

theorem acquire_all_or_nothing:
  "(\<exists>rc s'. acquire_run_admission now req s = (Ok rc, s'))
    \<or> (\<exists>e. acquire_run_admission now req s = (Err e, s))"
proof (cases "acquire_run_admission now req s")
  case (Pair r s')
  have "r \<noteq> Panic" using acquire_no_panic [of now req s] Pair by simp
  moreover have "s' = s" if "\<not> is_ok r"
    using Pair that unfolding acquire_run_admission_def by (rule staged_not_Ok)
  ultimately show ?thesis using Pair by (cases r) auto
qed

text \<open>
  C8. Finalizing under the lease of a session removes exactly that lease, leaves the run terminal,
  with the requested projection unless terminal evidence was already committed (which is then
  kept untouched), and leaves no control intent of the admission pending or delivered.
\<close>

theorem finalize_settles_admission:
  assumes "store_inv s" and "bt_contains (si_run_admissions s) (lease_session_key lease)"
    and "finalize_run_admission env t0 t1 t2 lease terminal s = (Ok run, s')"
  shows "finalized lease terminal s run s'"
proof (rule finalize_spec [OF _ assms(2,3)])
  show "bt_wf (si_run_control_intents s)"
    using store_invD(4) [OF assms(1)] by (simp add: control_inv_def intents_ok_def)
qed

theorem finalize_settles_admission_witness:
  "\<exists>run. finalize_run_admission sample_env 50 50 50 lease_a (terminal_completed None) s_controlled
      = (Ok run, s_finalized)
    \<and> finalized lease_a (terminal_completed None) s_controlled run s_finalized"
proof -
  have "case fst (finalize_run_admission sample_env 50 50 50 lease_a (terminal_completed None) s_controlled)
      of Ok _ \<Rightarrow> True | _ \<Rightarrow> False"
    by code_simp
  then obtain run where run: "finalize_run_admission sample_env 50 50 50 lease_a (terminal_completed None)
      s_controlled = (Ok run, s_finalized)"
    unfolding s_finalized_def by (rule ok_resultE)
  moreover have "bt_contains (si_run_admissions s_controlled) (lease_session_key lease_a)" by code_simp
  ultimately show ?thesis using finalize_settles_admission [OF sample_inv(9)] by blast
qed

text \<open>
  Finalizing is idempotent: after it succeeded with the requested projection, repeating it
  returns the same run and changes nothing, although the lease is gone.
\<close>

theorem finalize_is_idempotent:
  assumes "store_inv s" and "bt_contains (si_run_admissions s) (lease_session_key lease)"
    and "finalize_run_admission env t0 t1 t2 lease terminal s = (Ok run, s')"
    and "terminal_projection_matches terminal run"
  shows "finalize_run_admission env u0 u1 u2 lease terminal s' = (Ok run, s')"
proof (rule finalize_retry [OF finalize_spec])
  show "bt_wf (si_run_control_intents s)"
    using store_invD(4) [OF assms(1)] by (simp add: control_inv_def intents_ok_def)
qed (use assms in auto)

theorem finalize_is_idempotent_witness:
  "\<exists>run. finalize_run_admission sample_env 99 99 99 lease_a (terminal_completed None) s_finalized
      = (Ok run, s_finalized)"
proof -
  let ?f = "finalize_run_admission sample_env 50 50 50 lease_a (terminal_completed None) s_controlled"
  have "case fst ?f of Ok run \<Rightarrow> terminal_projection_matches (terminal_completed None) run | _ \<Rightarrow> False"
    by code_simp
  then obtain run where "?f = (Ok run, s_finalized)" "terminal_projection_matches (terminal_completed None) run"
    unfolding s_finalized_def by (rule ok_resultE)
  moreover have "bt_contains (si_run_admissions s_controlled) (lease_session_key lease_a)" by code_simp
  ultimately show ?thesis using finalize_is_idempotent [OF sample_inv(9)] by blast
qed

text \<open>
  C9. Recovery: reconciling the expired leases of a namespace reports exactly the runs whose lease
  has expired, removes exactly these leases, and leaves each of their runs settled (not active).
\<close>

theorem recovery_clears_expired:
  assumes "store_inv s" and "reconcile_expired_run_admissions env ns now s = (Ok targets, s')"
  shows "targets = map (\<lambda>(_, lease). lease_target lease) (expired_admissions ns now s)
    \<and> si_run_admissions s'
        = filter (\<lambda>e. e \<notin> set (expired_admissions ns now s)) (si_run_admissions s)
    \<and> (\<forall>(target, lease) \<in> set (expired_admissions ns now s). run_settled (lease_run_key lease) s')"
proof -
  have "bt_wf (si_run_admissions s)"
    using store_invD(2) [OF assms(1)] by (simp add: admission_inv_def admissions_ok_def)
  then show ?thesis using reconcile_expired_spec [OF assms(2)] by blast
qed

theorem recovery_clears_expired_witness: "run_settled (''s'', ''r2'') s_recovered"
proof -
  have "case fst (reconcile_expired_run_admissions sample_env ''local'' 70 s_started)
      of Ok _ \<Rightarrow> True | _ \<Rightarrow> False" by code_simp
  then obtain targets where "reconcile_expired_run_admissions sample_env ''local'' 70 s_started
      = (Ok targets, s_recovered)"
    unfolding s_recovered_def by (rule ok_resultE)
  from recovery_clears_expired [OF sample_inv(7) this]
  have "\<forall>(target, lease) \<in> set (expired_admissions ''local'' 70 s_started).
      run_settled (lease_run_key lease) s_recovered" by blast
  moreover have "expired_admissions ''local'' 70 s_started = [(sample_target, lease_b)]"
    "lease_run_key lease_b = (''s'', ''r2'')" by code_simp+
  ultimately show ?thesis by simp
qed

section \<open>Continuations of waiting runs\<close>

text \<open>
  C10. Recovery of a lost continuation: when an expired lease belongs to an active run that restores
  from another run that still waits, and the effect of that source had been started, a successful
  recovery of the lease cancels both runs and marks both as indeterminate, advances the source's
  revision, consumes the claim, removes the lease and clears the active slot of the session. It fails
  closed: when the source has no claim, one of another run or one that is only in preflight, the
  recovery fails, and a failed recovery of the namespace leaves the store as it was.
\<close>

theorem lost_continuation_is_settled:
  assumes "map_of (si_runs s) (lease_run_key lease) = Some replacement"
    and "run_status_is_active (rr_status replacement)" and "rr_restore_from_run_id replacement = Some src"
    and "run_key (rr_session_id replacement) src \<noteq> lease_run_key lease"
    and "map_of (si_runs s) (run_key (rr_session_id replacement) src) = Some source"
    and "rr_status source = StWaiting"
  shows "(\<forall>claim s'. map_of (si_hitl_resume_claims s) (run_key (rr_session_id replacement) src) = Some claim
        \<and> claim_state claim = Started
        \<and> reconcile_expired_one env now (target, lease) s = (Ok (), s') \<longrightarrow>
        continuation_recovered target lease (run_key (rr_session_id replacement) src) source s')
    \<and> ((\<forall>claim. map_of (si_hitl_resume_claims s) (run_key (rr_session_id replacement) src) = Some claim \<longrightarrow>
          claim_session_id claim \<noteq> rr_session_id replacement \<or> claim_run_id claim \<noteq> src
          \<or> claim_state claim = Preflight) \<longrightarrow>
        \<not> is_ok (fst (reconcile_expired_one env now (target, lease) s)))
    \<and> (\<not> is_ok (fst (reconcile_expired_run_admissions env ns now s)) \<longrightarrow>
        snd (reconcile_expired_run_admissions env ns now s) = s)"
proof (intro conjI allI impI)
  let ?key = "run_key (rr_session_id replacement) src"
  show "continuation_recovered target lease ?key source s'"
    if "map_of (si_hitl_resume_claims s) ?key = Some claim \<and> claim_state claim = Started
      \<and> reconcile_expired_one env now (target, lease) s = (Ok (), s')" for claim s'
    using that by (elim conjE) (rule recovered_continuation [OF _ assms(1-3) refl assms(4-6)])
  show "\<not> is_ok (fst (reconcile_expired_one env now (target, lease) s))"
    if "\<forall>claim. map_of (si_hitl_resume_claims s) ?key = Some claim \<longrightarrow>
          claim_session_id claim \<noteq> rr_session_id replacement \<or> claim_run_id claim \<noteq> src
          \<or> claim_state claim = Preflight"
    using that by (intro unmatched_claim_fails [OF assms(1-3,5,6), THEN conjunct2]) simp
  show "snd (reconcile_expired_run_admissions env ns now s) = s"
    if "\<not> is_ok (fst (reconcile_expired_run_admissions env ns now s))"
    using that unfolding reconcile_expired_run_admissions_def
    by (intro staged_not_Ok [OF prod.collapse [symmetric]])
qed

theorem lost_continuation_is_settled_witness:
  "\<exists>s'. reconcile_expired_one sample_env 70 (sample_target, lease_b) s_started = (Ok (), s')
    \<and> continuation_recovered sample_target lease_b (''s'', ''r1'') parked_a s'"
proof -
  have "case fst (reconcile_expired_one sample_env 70 (sample_target, lease_b) s_started)
      of Ok v \<Rightarrow> True | _ \<Rightarrow> False" by code_simp
  then obtain s' where ok: "reconcile_expired_one sample_env 70 (sample_target, lease_b) s_started = (Ok (), s')"
    by (rule ok_resultE) auto
  have "map_of (si_runs s_started) (lease_run_key lease_b) = Some admitted_b"
    "run_status_is_active (rr_status admitted_b)" "rr_restore_from_run_id admitted_b = Some ''r1''"
    "run_key (rr_session_id admitted_b) ''r1'' \<noteq> lease_run_key lease_b"
    "map_of (si_runs s_started) (run_key (rr_session_id admitted_b) ''r1'') = Some parked_a"
    "rr_status parked_a = StWaiting" by code_simp+
  note settled = lost_continuation_is_settled [OF this, of sample_env 70 sample_target]
  have key: "run_key (rr_session_id admitted_b) ''r1'' = (''s'', ''r1'')"
    and claim: "map_of (si_hitl_resume_claims s_started) (''s'', ''r1'') = Some (sample_claim\<lparr>claim_state := Started\<rparr>)"
      "claim_state (sample_claim\<lparr>claim_state := Started\<rparr>) = Started" by code_simp+
  from settled [unfolded key] claim ok show ?thesis by blast
qed

text \<open>
  A started effect is never forgotten by a claim operation: claiming, starting, aborting,
  marking and releasing leave a started claim exactly as it is, for every run and with any
  arguments.
\<close>

theorem started_claim_is_final:
  assumes "map_of (si_hitl_resume_claims s) k = Some c" and "claim_state c = Started"
  shows "map_of (si_hitl_resume_claims (snd (claim_hitl_resume claim s))) k = Some c
    \<and> map_of (si_hitl_resume_claims (snd (start_hitl_resume_effect t lease src cid s))) k = Some c
    \<and> map_of (si_hitl_resume_claims (snd (abort_admitted_hitl_resume t t' lease src cid text s))) k = Some c
    \<and> map_of (si_hitl_resume_claims (snd (mark_hitl_resume_started sid rid cid s))) k = Some c
    \<and> map_of (si_hitl_resume_claims (snd (release_hitl_resume_claim sid rid cid s))) k = Some c"
  using claiming.started_is_kept [OF assms] starting.started_is_kept [OF assms]
    aborting.started_is_kept [OF assms] marking.started_is_kept [OF assms]
    releasing.started_is_kept [OF assms] by simp

theorem started_claim_is_final_witness:
  "map_of (si_hitl_resume_claims (snd (release_hitl_resume_claim ''s'' ''r1'' ''claim'' s_started)))
     (''s'', ''r1'') = Some (sample_claim\<lparr>claim_state := Started\<rparr>)"
proof -
  have "map_of (si_hitl_resume_claims s_started) (''s'', ''r1'') = Some (sample_claim\<lparr>claim_state := Started\<rparr>)"
    "claim_state (sample_claim\<lparr>claim_state := Started\<rparr>) = Started" by code_simp+
  from started_claim_is_final [OF this] show ?thesis by blast
qed



text \<open>
  Aborting a continuation reports the truth about its effect: it reports a started effect only
  without changing anything, and an abort before the effect fails the run with the given
  diagnostic and consumes the claim, so that the effect can no longer start.
\<close>

theorem abort_is_before_effect:
  assumes "abort_admitted_hitl_resume t t' lease src cid text s = (Ok outcome, s')"
  shows "(outcome = EffectStarted \<longrightarrow> s' = s)
    \<and> (outcome = AbortedBeforeEffect \<longrightarrow>
        map_of (si_hitl_resume_claims s') (run_key (rt_session_id (lease_target lease)) src) = None
        \<and> (\<exists>r. map_of (si_runs s') (lease_run_key lease) = Some r \<and> rr_status r = StFailed
             \<and> rr_terminal_error r = Some (run_terminal_error_new code_preparation_failed text)))"
  using abort_spec [OF assms] by (simp add: run_key_def)

theorem abort_is_before_effect_witness:
  "\<exists>s'. abort_admitted_hitl_resume 40 40 lease_b ''r1'' ''claim'' ''no model'' s_resumed
      = (Ok AbortedBeforeEffect, s')
    \<and> map_of (si_hitl_resume_claims s') (run_key ''s'' ''r1'') = None"
proof -
  have "case fst (abort_admitted_hitl_resume 40 40 lease_b ''r1'' ''claim'' ''no model'' s_resumed)
      of Ok v \<Rightarrow> v = AbortedBeforeEffect | _ \<Rightarrow> False" by code_simp
  then obtain s' where "abort_admitted_hitl_resume 40 40 lease_b ''r1'' ''claim'' ''no model'' s_resumed
      = (Ok AbortedBeforeEffect, s')" by (rule ok_resultE) auto
  moreover have "rt_session_id (lease_target lease_b) = ''s''" by code_simp
  ultimately show ?thesis using abort_is_before_effect by fastforce
qed

section \<open>Run control\<close>

text \<open>
  Control admission is exactly-once: an admitted intent is stored under its target and
  operation and answers its own request, and repeating the request returns the stored intent
  and changes nothing.
\<close>

theorem control_admission_is_idempotent:
  assumes "store_inv s" and "admit_run_control now req s = (Ok i, s')"
  shows "map_of (si_run_control_intents s') (lease_target (arc_lease req), arc_operation_id req) = Some i
    \<and> matches_admission i req
    \<and> admit_run_control later req s' = (Ok i, s')"
  using admit_Ok_stored [OF store_invD(4) [OF assms(1)] assms(2)] admit_retry by blast

theorem control_admission_is_idempotent_witness:
  "admit_run_control 80 sample_control s_controlled = (Ok (into_intent sample_control), s_controlled)"
proof -
  have "admit_run_control 12 sample_control s_admitted = (Ok (into_intent sample_control), s_controlled)"
    by (simp add: s_controlled_def s_controlled_Ok)
  from control_admission_is_idempotent [OF sample_inv(2) this] show ?thesis by blast
qed

text \<open>
  C12. Control intents only move forward. Over any execution an intent stays stored under its target
  and operation, keeps its identity, and its status is the same or a later one. In a single step,
  of whatever operation, it either stays as it is, or is reconciled, or is advanced by the
  holder of the live lease of its own admission. An advance that succeeds was allowed from
  the stored status, leaves the intent at the requested status with its receipt updated, and changes
  no other intent.
\<close>

theorem control_advance_is_forward:
  assumes "store_inv s" and "map_of (si_run_control_intents s) k = Some i"
  shows "((store_step env benv)\<^sup>*\<^sup>* s s2 \<longrightarrow>
        (\<exists>i2. map_of (si_run_control_intents s2) k = Some i2 \<and> intent_kept i i2))
    \<and> (store_step env benv s s1 \<longrightarrow>
        (\<exists>i1. map_of (si_run_control_intents s1) k = Some i1 \<and> intent_step s i i1))
    \<and> (advance_run_control_intent now lease operation expected next t s = (Ok i', s')
         \<and> k = (lease_target lease, operation) \<longrightarrow>
        can_advance_to (in_status i) next \<and> in_status i' = next
        \<and> (in_status i = next \<or> control_rank (in_status i) < control_rank next)
        \<and> in_admission_id i = lease_admission_id lease
        \<and> in_fencing_generation i = lease_fencing_generation lease
        \<and> ensure_active_admission_locked s lease now = Ok ()
        \<and> map_of (si_run_control_intents s') = (map_of (si_run_control_intents s))(k \<mapsto> i')
        \<and> map_of (si_control_receipts s') (cr_receipt_id (in_receipt i')) = Some (in_receipt i'))"
proof (intro conjI impI)
  show "\<exists>i2. map_of (si_run_control_intents s2) k = Some i2 \<and> intent_kept i i2"
    if "(store_step env benv)\<^sup>*\<^sup>* s s2" using that assms by (rule steps_intent)
  show "\<exists>i1. map_of (si_run_control_intents s1) k = Some i1 \<and> intent_step s i i1"
    if "store_step env benv s s1" using step_intent [OF assms(1) that assms(2)] by (simp add: intent_steps_def)
  assume adv: "advance_run_control_intent now lease operation expected next t s = (Ok i', s')
      \<and> k = (lease_target lease, operation)"
  note spec = advance_spec [OF adv [THEN conjunct1]]
  show "can_advance_to (in_status i) next" "in_status i' = next"
    "in_admission_id i = lease_admission_id lease"
    "in_fencing_generation i = lease_fencing_generation lease"
    "ensure_active_admission_locked s lease now = Ok ()"
    "map_of (si_run_control_intents s') = (map_of (si_run_control_intents s))(k \<mapsto> i')"
    "map_of (si_control_receipts s') (cr_receipt_id (in_receipt i')) = Some (in_receipt i')"
    using spec adv assms(2) by (elim exE conjE, simp del: can_advance_to.simps)+
  then show "in_status i = next \<or> control_rank (in_status i) < control_rank next"
    using control.step_rank by blast
qed

theorem control_advance_is_forward_witness:
  "\<exists>i' s'. advance_run_control_intent 15 lease_a ''op'' CtlPending CtlDelivered 15 s_controlled = (Ok i', s')
    \<and> in_status i' = CtlDelivered \<and> control_rank (in_status (into_intent sample_control)) < 1"
proof -
  have "case fst (advance_run_control_intent 15 lease_a ''op'' CtlPending CtlDelivered 15 s_controlled)
      of Ok v \<Rightarrow> True | _ \<Rightarrow> False" by code_simp
  then obtain i' where i: "advance_run_control_intent 15 lease_a ''op'' CtlPending CtlDelivered 15 s_controlled
      = (Ok i', snd (advance_run_control_intent 15 lease_a ''op'' CtlPending CtlDelivered 15 s_controlled))"
    by (rule ok_resultE)
  have stored: "map_of (si_run_control_intents s_controlled) (lease_target lease_a, ''op'')
      = Some (into_intent sample_control)" by code_simp
  have "in_status (into_intent sample_control) = CtlPending" by code_simp
  with control_advance_is_forward [OF sample_inv(9) stored] i show ?thesis by fastforce
qed

section \<open>Host events\<close>

text \<open>
  C13. The outbox refines an append-only channel: a successful enqueue appends to the pending part
  exactly the publications whose keys the channel does not know yet, in order and once each, and
  leaves the published part alone.
\<close>

theorem enqueue_refines_channel:
  assumes "store_inv s" and "enqueue_host_event_publications_locked env pubs s = (Ok (), s')"
  shows "channel_of s' = channel_enqueue pubs (channel_of s)"
  using store_invD(3) [OF assms(1)] assms(2) by (rule enqueue_refines)

theorem enqueue_refines_channel_witness:
  "\<exists>s'. enqueue_host_event_publications_locked sample_env
        [sample_publication ''a'', sample_publication ''b'', sample_publication ''a''] s_created = (Ok (), s')
    \<and> channel_of s' = ([], [sample_publication ''a'', sample_publication ''b''])"
proof -
  let ?pubs = "[sample_publication ''a'', sample_publication ''b'', sample_publication ''a'']"
  have "case fst (enqueue_host_event_publications_locked sample_env ?pubs s_created)
      of Ok _ \<Rightarrow> True | _ \<Rightarrow> False" by code_simp
  then obtain s' where "enqueue_host_event_publications_locked sample_env ?pubs s_created = (Ok (), s')"
    by (rule ok_resultE) auto
  moreover have "channel_enqueue ?pubs (channel_of s_created)
      = ([], [sample_publication ''a'', sample_publication ''b''])" by code_simp
  ultimately show ?thesis using enqueue_refines_channel [OF sample_inv(1)] by metis
qed

text \<open>
  C14. Materialization refines the channel's publish step and always succeeds while positions are
  left: it moves the oldest pending publications, at most the limit, to the end of the log in
  order, at consecutive positions that continue the log, and returns exactly these records.
\<close>

theorem materialize_refines_channel:
  assumes "store_inv s" and "1 \<le> limit" and "limit \<le> max_host_event_page_size"
    and "unat (si_last_host_event_position s) + unat limit \<le> unat max_host_event_position"
  shows "\<exists>recs s'. materialize_host_event_publication_batch limit s = (Ok recs, s')
    \<and> channel_of s' = channel_publish (unat limit) (channel_of s)
    \<and> map pending_projection recs = take (unat limit) (snd (channel_of s))
    \<and> si_host_event_records s' = si_host_event_records s @ map (\<lambda>r. (her_position r, r)) recs
    \<and> map (\<lambda>r. unat (her_position r)) recs
        = [Suc (unat (si_last_host_event_position s))
           ..< Suc (unat (si_last_host_event_position s) + length recs)]"
proof -
  note inv = store_invD(3) [OF assms(1)]
  obtain ps recs s' where m: "materialize_host_event_publication_batch limit s = (Ok recs, s')"
      "map pending_projection recs = ps"
      "map (\<lambda>r. unat (her_position r)) recs
        = [Suc (unat (si_last_host_event_position s)) ..< Suc (unat (si_last_host_event_position s) + length ps)]"
      "si_host_event_records s' = si_host_event_records s @ map (\<lambda>r. (her_position r, r)) recs"
    using materialize_batch_spec [OF inv assms(2-4)] by (elim exE conjE) (rule that; assumption)
  then have r: "channel_of s' = channel_publish (unat limit) (channel_of s)"
    using materialize_refines [OF inv assms(2-4)] by auto
  have "map pending_projection (bt_values (si_host_event_records s')) = fst (channel_of s) @ ps"
    using m(2,4) by (simp add: channel_of_def bt_values_def comp_def)
  moreover have "fst (channel_of s') = map pending_projection (bt_values (si_host_event_records s'))"
    by (simp add: channel_of_def)
  ultimately have "ps = take (unat limit) (snd (channel_of s))"
    using r by (simp add: channel_publish_def)
  moreover have "length ps = length recs" using m(2) by auto
  ultimately show ?thesis using m r by auto
qed

theorem materialize_refines_channel_witness:
  "\<exists>recs s'. materialize_host_event_publication_batch 10 s_recovered = (Ok recs, s')
    \<and> channel_of s' = channel_publish 10 (channel_of s_recovered)"
proof -
  have p: "si_last_host_event_position s_recovered = 0" by code_simp
  have "unat (si_last_host_event_position s_recovered) + unat (10::u64) \<le> unat max_host_event_position"
    unfolding p by (simp add: max_host_event_position_def)
  moreover have "(1::u64) \<le> 10" "(10::u64) \<le> max_host_event_page_size" by code_simp+
  ultimately show ?thesis using materialize_refines_channel [OF sample_inv(8), of 10] by auto
qed

text \<open>
  Publishing is idempotent: enqueueing a batch that was enqueued changes nothing.
\<close>

theorem enqueue_is_idempotent:
  assumes "enqueue_host_event_publications_locked env pubs s = (Ok (), s')"
  shows "enqueue_host_event_publications_locked env pubs s' = (Ok (), s')"
  using assms by (rule enqueue_twice)

theorem enqueue_is_idempotent_witness:
  "\<exists>s'. s' \<noteq> s_created \<and> enqueue_host_event_publications_locked sample_env [sample_publication ''a''] s' = (Ok (), s')"
proof -
  let ?pubs = "[sample_publication ''a'']"
  have "case fst (enqueue_host_event_publications_locked sample_env ?pubs s_created)
      of Ok _ \<Rightarrow> True | _ \<Rightarrow> False" by code_simp
  then have e: "enqueue_host_event_publications_locked sample_env ?pubs s_created
      = (Ok (), snd (enqueue_host_event_publications_locked sample_env ?pubs s_created))"
    by (rule ok_resultE) auto
  have "si_last_host_event_outbox_sequence (snd (enqueue_host_event_publications_locked sample_env ?pubs s_created)) = 1"
    "si_last_host_event_outbox_sequence s_created = 0" by code_simp+
  then have "snd (enqueue_host_event_publications_locked sample_env ?pubs s_created) \<noteq> s_created" by auto
  with enqueue_is_idempotent [OF e] show ?thesis by blast
qed

section \<open>Listing\<close>

text \<open>
  In every state with the invariant, listing the runs of a session never meets an inconsistent
  index: it returns exactly the stored runs of the session, each once, in increasing sequence
  order; the recent listing is its suffix.
\<close>

theorem run_listing_is_exact:
  assumes "store_inv s"
  shows "\<exists>runs. list_run_records sid s = Ok runs
    \<and> set runs = {r. \<exists>rid. map_of (si_runs s) (run_key sid rid) = Some r}
    \<and> sorted_wrt (<) (map rr_sequence_no runs)
    \<and> list_recent_run_records sid limit s = Ok (drop (length runs - unat limit) runs)"
  using list_run_records_ok [OF store_invD(1) [OF assms]] session_runs_set [OF store_invD(1) [OF assms]]
    session_runs_sorted [OF store_invD(1) [OF assms]] list_recent_run_records_ok [OF store_invD(1) [OF assms]]
  by (auto simp: run_key_def)

theorem run_listing_is_exact_witness:
  "\<exists>runs. list_run_records ''s'' s_resumed = Ok runs \<and> sorted_wrt (<) (map rr_sequence_no runs)"
  using run_listing_is_exact [OF sample_inv(6), of "''s''"] by blast

text \<open>
  C15. Paging terminates and is complete: following the next key from the first page until a page
  says there is no more, at any page size from 1 to 200, returns every run of the session in
  decreasing sequence order, and every session in decreasing order of update time and identity,
  each exactly once. One more page than there are rows is enough fuel.
\<close>

theorem pages_drain_everything:
  assumes "store_inv s" and "page_limit_ok n"
  shows "drain_pages (run_keyset_page sid s n) (Suc (length (session_runs sid s))) None
      = Some (rev (session_runs sid s))
    \<and> drain_pages (session_keyset_page s n) (Suc (length (sessions_desc s))) None = Some (sessions_desc s)"
  using run_pages.drain_all [OF store_invD(1) [OF assms(1)] assms(2), of sid]
    session_pages.drain_all [OF store_invD(1) [OF assms(1)] assms(2)] by simp

theorem pages_drain_everything_witness:
  "drain_pages (run_keyset_page ''s'' s_resumed 1) 3 None = Some [admitted_b, parked_a]"
proof -
  have "page_limit_ok 1" by (simp add: page_limit_ok_def)
  moreover have "session_runs ''s'' s_resumed = [parked_a, admitted_b]" by code_simp
  ultimately show ?thesis using pages_drain_everything [OF sample_inv(6), of 1 "''s''"]
    by (simp add: numeral_eq_Suc)
qed

section \<open>Managed sessions\<close>

text \<open>
  C16. Optimistic concurrency: an update that is applied was prepared against the current revision
  of a live session, writes exactly the patched record with the next revision, and touches no
  other session; an update prepared against any other revision is refused without a write.
\<close>

theorem update_is_revision_checked:
  assumes "map_of (si_sessions s) (upd_session_id cmd) = Some old"
    and "session_receipt (upd_session_id cmd) (upd_idempotency_key cmd) s = None"
  shows "(sr_revision old \<noteq> upd_expected_revision cmd \<longrightarrow> refused (update_managed_session now cmd fp) s)
    \<and> (\<forall>r s'. update_managed_session now cmd fp s = (Ok r, s') \<longrightarrow>
        sr_revision old = upd_expected_revision cmd
        \<and> sr_deletion_fence old = Stable \<and> sr_status old \<noteq> SessDeleted
        \<and> r = (apply_session_patch (upd_patch cmd) old)
                \<lparr>sr_revision := u64_saturating_add (sr_revision old) 1, sr_updated_at := now\<rparr>
        \<and> map_of (si_sessions s') = (map_of (si_sessions s))(upd_session_id cmd \<mapsto> r))"
  using stale_revision_refused [OF assms(1) _ assms(2), of now fp] update_fresh_spec [OF _ assms(2), of now fp] assms(1)
  by (auto simp: refused_def)

theorem update_is_revision_checked_witness:
  "refused (update_managed_session 5 (sample_update\<lparr>upd_expected_revision := 7\<rparr>) ''fp'') s_created"
proof -
  let ?cmd = "sample_update\<lparr>upd_expected_revision := 7\<rparr>"
  have "map_of (si_sessions s_created) (upd_session_id ?cmd) = Some (sample_session\<lparr>sr_updated_at := 3\<rparr>)"
    "session_receipt (upd_session_id ?cmd) (upd_idempotency_key ?cmd) s_created = None"
    "sr_revision (sample_session\<lparr>sr_updated_at := 3\<rparr>) \<noteq> upd_expected_revision ?cmd" by code_simp+
  then show ?thesis using update_is_revision_checked by blast
qed

text \<open>
  Titles are bounded: the stored title of an update is a prefix of the requested one with at
  most 256 characters, and the whole title when it is not longer.
\<close>

theorem update_bounds_title:
  assumes "update_managed_session now cmd fp s = (Ok r, s')"
    and "session_receipt (upd_session_id cmd) (upd_idempotency_key cmd) s = None"
    and "patch_title (upd_patch cmd) = Some t" and "sr_title r = Some title"
  shows "\<exists>full. t = Some full \<and> prefix title full \<and> chars_count title = min 256 (chars_count full)"
  using assms by (rule update_title_bounded)

theorem update_bounds_title_witness: "\<exists>title. prefix title ''title'' \<and> chars_count title = 5"
proof -
  have "case fst (update_managed_session 5 sample_update ''fp'' s_created)
      of Ok r \<Rightarrow> sr_title r = Some ''title'' | _ \<Rightarrow> False" by code_simp
  then obtain r where r: "update_managed_session 5 sample_update ''fp'' s_created
      = (Ok r, snd (update_managed_session 5 sample_update ''fp'' s_created))" "sr_title r = Some ''title''"
    by (rule ok_resultE)
  have f: "session_receipt (upd_session_id sample_update) (upd_idempotency_key sample_update) s_created = None"
    "patch_title (upd_patch sample_update) = Some (Some ''title'')" by code_simp+
  from update_bounds_title [OF r(1) f r(2)] have "chars_count ''title'' = min 256 (chars_count ''title'')" by auto
  moreover have "chars_count ''title'' = 5" by code_simp
  ultimately show ?thesis by blast
qed

text \<open>
  A session whose deletion has begun admits no work: the only admission that still succeeds
  is the replay of a receipt recorded before, which changes nothing.
\<close>

theorem deletion_blocks_admission:
  assumes "session_fence (rr_session_id (acq_run req)) fence s" and "fence \<noteq> Stable"
    and "acquire_run_admission now req s = (Ok rc, s')"
  shows "rar_idempotent_replay rc \<and> s' = s"
  using assms by (rule deleting_blocks_admission)

theorem deletion_blocks_admission_witness:
  "\<not> (\<exists>rc s'. acquire_run_admission 9 (sample_request ''hostA'' ''r1'' 100) s_deleting = (Ok rc, s')
      \<and> \<not> rar_idempotent_replay rc)"
proof -
  have "map_option sr_deletion_fence (map_of (si_sessions s_deleting)
      (rr_session_id (acq_run (sample_request ''hostA'' ''r1'' 100))))
    = Some (Deleting ''fence'' 1 ''owner'' 4)" by code_simp
  then have "session_fence (rr_session_id (acq_run (sample_request ''hostA'' ''r1'' 100)))
      (Deleting ''fence'' 1 ''owner'' 4) s_deleting" by (auto simp: session_fence_def)
  from deletion_blocks_admission [OF this] show ?thesis by blast
qed

text \<open>
  A tombstone is only written over a quiet session and is final: the deleted record carries
  the fence that requested it, no run of the session is active, no run is touched, and repeating
  the command on the still quiet session returns the same record and changes nothing.
\<close>

theorem tombstone_is_final:
  assumes "store_inv s" and "tombstone_session now t1 t2 sid fid s = (Ok r, s')"
  shows "sr_session_id r = sid \<and> (\<exists>d. sr_deletion_fence r = Deleted fid d)
    \<and> map_of (si_sessions s') = (map_of (si_sessions s))(sid \<mapsto> r)
    \<and> si_runs s' = si_runs s
    \<and> (\<forall>k run. map_of (si_runs s) k = Some run \<and> rr_session_id run = sid
          \<longrightarrow> \<not> run_status_is_active (rr_status run))
    \<and> (session_in_use later sid s' = Ok () \<longrightarrow> tombstone_session later u1 u2 sid fid s' = (Ok r, s'))"
  using tombstone_spec [OF store_invD(1) [OF assms(1)] assms(2)]
    tombstone_retry [OF store_invD(1) [OF assms(1)] assms(2)] by blast

theorem tombstone_is_final_witness:
  "\<exists>r s'. tombstone_session 9 9 9 ''s'' ''fence'' s_deleting = (Ok r, s') \<and> sr_session_id r = ''s''"
proof -
  have "case fst (tombstone_session 9 9 9 ''s'' ''fence'' s_deleting) of Ok _ \<Rightarrow> True | _ \<Rightarrow> False"
    by code_simp
  then obtain r where r: "tombstone_session 9 9 9 ''s'' ''fence'' s_deleting
      = (Ok r, snd (tombstone_session 9 9 9 ''s'' ''fence'' s_deleting))" by (rule ok_resultE)
  with tombstone_is_final [OF sample_inv(11) r] show ?thesis by blast
qed

text \<open>
  C17. Session commands are exactly-once by idempotency key. After a creation, an update or a
  deletion fence succeeded under a key, every creation, update and deletion fence under that key
  in the same namespace is answered from its receipt: with the very result of the command when it
  carries the same fingerprint, and with an idempotency conflict that names the key when it carries
  another one; the store does not change. This holds at once and in every later state,
  except that a later answer is the deleted session once a deletion under that key is committed.
\<close>

theorem session_commands_are_idempotent:
  assumes "store_inv s" and "session_command ns key fp r s s'" and "(store_step env benv)\<^sup>*\<^sup>* s' s2"
  shows "receipt_answers ns key fp r s'
    \<and> (\<exists>r'. receipt_answers ns key fp r' s2 \<and> (r' = r \<or> session_deleted r'))"
  using assms by (rule session_command_answered)

theorem session_commands_are_idempotent_witness:
  "\<exists>r. create_session_idempotent 9 sample_session ''create'' ''fp'' s_created = (Ok r, s_created)
    \<and> create_session_idempotent 9 sample_session ''create'' ''other'' s_created
        = (Err (IdempotencyConflict ''create''), s_created)"
proof -
  have "case fst (create_session_idempotent 3 sample_session ''create'' ''fp'' store_new)
      of Ok _ \<Rightarrow> True | _ \<Rightarrow> False" by code_simp
  then obtain r where "create_session_idempotent 3 sample_session ''create'' ''fp'' store_new = (Ok r, s_created)"
    unfolding s_created_def by (rule ok_resultE)
  then have "session_command (sr_namespace_id sample_session) ''create'' ''fp'' r store_new s_created"
    by (rule session_command.created)
  from session_commands_are_idempotent [OF store.init_inv this rtranclp.rtrancl_refl]
  show ?thesis unfolding receipt_answers_def by (intro exI [of _ r]) auto
qed

section \<open>Records\<close>

text \<open>
  C18. The wire names of durable run statuses round trip, and only these names decode; the
  indeterminate effect marker that recovery writes into run metadata is read back as written.
\<close>

theorem status_and_marker_roundtrip:
  "run_status_deserialize (run_status_as_str status) = Some status
    \<and> (run_status_deserialize w = Some status \<longleftrightarrow> w = run_status_as_str status)
    \<and> continuation_effect_from_metadata (continuation_effect_insert_into marker metadata) = Ok (Some marker)"
  using run_status_roundtrip run_status_deserialize_sound continuation_effect_roundtrip by blast

text \<open>
  The write validation of run records accepts exactly the records with a well-formed terminal
  state: a failed run has a diagnostic, only failed and cancelled runs have one, and its code and
  message are not empty. What the legacy status update writes is always accepted.
\<close>

theorem validation_is_exact:
  "(run_validate_new_write run = Ok () \<longleftrightarrow> well_formed_terminal run)
    \<and> run_validate_new_write (run_apply_legacy_status_update run status preview) = Ok ()"
  using validate_new_write_iff legacy_status_update_valid by blast

text \<open>
  Publication identity is as strong as the digest: publications that agree on transition
  identity, ordinal, scope and class have the same key, and two that differ can only share a key
  by a collision of SHA-256 itself; the framing of the components adds none.
\<close>

theorem publication_identity_reduces_to_digest:
  assumes "event_publication_key_derive env i n scope cls = Ok k"
    and "event_publication_key_derive env i' n' scope' cls' = Ok k'"
  shows "((i, n, scope, cls) = (i', n', scope', cls') \<longrightarrow> k = k')
    \<and> (k = k' \<and> (i, n, scope, cls) \<noteq> (i', n', scope', cls')
        \<longrightarrow> (\<exists>x y. x \<noteq> y \<and> env_sha256_hex env x = env_sha256_hex env y))"
proof -
  let ?x = "frame_components (publication_key_components i n scope cls)"
    and ?y = "frame_components (publication_key_components i' n' scope' cls')"
  have "?x \<noteq> ?y" if "(i, n, scope, cls) \<noteq> (i', n', scope', cls')"
    using that frame_components_inject publication_components_inject by blast
  moreover have "env_sha256_hex env ?x = env_sha256_hex env ?y" if "k = k'"
    using assms that by (auto simp: event_publication_key_derive_def framed_digest_def split: if_splits)
  moreover have "k = k'" if "(i, n, scope, cls) = (i', n', scope', cls')"
    using assms that by simp
  ultimately show ?thesis by blast
qed

theorem publication_identity_reduces_to_digest_witness:
  "\<exists>k. event_publication_key_derive sample_env ''a'' 0 (ScopeRun ''s'' ''r'') RunChanged = Ok k
    \<and> event_publication_key_derive sample_env ''a'' 1 (ScopeRun ''s'' ''r'') RunChanged \<noteq> Ok k"
proof -
  obtain k where k: "event_publication_key_derive sample_env ''a'' 0 (ScopeRun ''s'' ''r'') RunChanged = Ok k"
    by (simp add: event_publication_key_derive_def)
  have "\<not> (\<exists>x y. x \<noteq> y \<and> env_sha256_hex sample_env x = env_sha256_hex sample_env y)"
    by (simp add: sample_env_def)
  then have "event_publication_key_derive sample_env ''a'' 1 (ScopeRun ''s'' ''r'') RunChanged \<noteq> Ok k"
    using publication_identity_reduces_to_digest [OF k, of "''a''" 1 "ScopeRun ''s'' ''r''" RunChanged k] by auto
  with k show ?thesis by blast
qed

section \<open>Background attempts\<close>

text \<open>
  C19. Background attempts are durable. A stored attempt is present in every later state with the
  same identity; once its terminal evidence is committed the evidence stays (only the payload may be
  dropped, as a whole, by retention expiry), and once its result is delivered the delivering claim
  and the continuation stay. In one step its execution status moves at most along one permitted
  transition.
\<close>

theorem attempts_are_durable:
  assumes "store_inv s" and "map_of (si_background_subagents s) k = Some r"
    and "(store_step env benv)\<^sup>*\<^sup>* s s'"
  shows "(\<exists>r'. map_of (si_background_subagents s') k = Some r' \<and> same_background_identity r r'
        \<and> (background_execution_is_terminal (bg_execution_status r) \<longrightarrow> same_evidence r r')
        \<and> (bg_delivery_status r = Delivered \<longrightarrow> same_delivery r r'))
     \<and> (\<forall>s1. store_step env benv s s1 \<longrightarrow>
          (\<exists>r1. map_of (si_background_subagents s1) k = Some r1
             \<and> valid_background_transition (bg_execution_status r) (bg_execution_status r1)))"
proof
  show "\<exists>r'. map_of (si_background_subagents s') k = Some r' \<and> same_background_identity r r'
        \<and> (background_execution_is_terminal (bg_execution_status r) \<longrightarrow> same_evidence r r')
        \<and> (bg_delivery_status r = Delivered \<longrightarrow> same_delivery r r')"
    using steps_attempts [OF assms(3,1)] assms(2) unfolding attempts_kept_def attempt_kept_def by blast
  show "\<forall>s1. store_step env benv s s1 \<longrightarrow>
          (\<exists>r1. map_of (si_background_subagents s1) k = Some r1
             \<and> valid_background_transition (bg_execution_status r) (bg_execution_status r1))"
    using step_attempts [OF assms(1)] assms(2) unfolding attempts_evolve_def attempt_evolves_def by blast
qed

theorem attempts_are_durable_witness:
  "\<exists>r'. map_of (si_background_subagents s_delivered) ''a1'' = Some r'
     \<and> same_background_identity sample_terminal r' \<and> same_evidence sample_terminal r'"
proof -
  have "map_of (si_background_subagents s_committed) ''a1'' = Some sample_terminal" by code_simp
  from attempts_are_durable [OF background_inv_samples(3) this steps_committed_delivered]
  show ?thesis by (auto simp: sample_terminal_def)
qed

text \<open>
  C20. A terminal commit takes effect once. After a successful commit, the same commit repeated in
  any later state in which the parent session is writable returns the stored attempt, with the same
  evidence, and changes nothing; a commit with another fingerprint is refused.
\<close>

theorem terminal_commit_is_once:
  assumes "store_inv s" and "commit_background_terminal benv now r artifact limits s = (Ok x, s1)"
    and "(store_step env benv)\<^sup>*\<^sup>* s1 s2"
  shows "\<exists>r2. map_of (si_background_subagents s2) (bg_attempt_id r) = Some r2 \<and> same_evidence x r2
     \<and> (ensure_background_parent_writable s2 r2 = Ok () \<longrightarrow>
          commit_background_terminal benv now2 r artifact limits s2 = (Ok r2, s2))
     \<and> (\<forall>r' artifact' limits'. bg_attempt_id r' = bg_attempt_id r \<longrightarrow>
          background_terminal_fingerprint benv r' artifact'
            \<noteq> background_terminal_fingerprint benv r artifact \<longrightarrow>
          refused (commit_background_terminal benv now2 r' artifact' limits') s2)"
proof -
  have inv1: "store_inv s1"
    using store.step_inv [OF assms(1) store_step.bg_commit, of benv now r artifact limits] assms(2) by simp
  have inv2: "background_inv s2" using store_invD(6) [OF store.steps_inv [OF assms(3) inv1]] .
  note fin = commit_committed [OF store_invD(6) [OF assms(1)] assms(2)]
  note kept = steps_attempts [OF assms(3) inv1, unfolded attempts_kept_def]
  obtain r2 where r2: "map_of (si_background_subagents s2) (bg_attempt_id r) = Some r2" "attempt_kept x r2"
    using kept fin(1) by blast
  have fp: "map_of (si_background_terminal_fingerprints s2) (bg_attempt_id r)
      = Some (background_terminal_fingerprint benv r artifact)"
    using kept fin(2) by blast
  have "same_evidence x r2" using r2(2) fin(3) by (simp add: attempt_kept_def)
  moreover have "ensure_background_parent_writable s2 r2 = Ok () \<longrightarrow>
      commit_background_terminal benv now2 r artifact limits s2 = (Ok r2, s2)"
    using commit_retry [OF inv2 commit_shape [OF assms(2)] r2(1) fp] by blast
  moreover have "refused (commit_background_terminal benv now2 r' artifact' limits') s2"
    if "bg_attempt_id r' = bg_attempt_id r"
      "background_terminal_fingerprint benv r' artifact' \<noteq> background_terminal_fingerprint benv r artifact"
    for r' artifact' limits'
    using commit_other_refused [OF inv2, of r'] r2(1) fp that by simp
  ultimately show ?thesis using r2(1) by blast
qed

theorem terminal_commit_is_once_witness:
  "commit_background_terminal sample_benv 20 sample_terminal (Some sample_artifact) (Some sample_limits)
     s_delivered = (Ok (deliver ''claim'' None 16 sample_terminal), s_delivered)"
proof -
  have w: "ensure_background_parent_writable s_delivered (deliver ''claim'' None 16 sample_terminal) = Ok ()"
    by code_simp
  have at: "map_of (si_background_subagents s_delivered) ''a1''
      = Some (deliver ''claim'' None 16 sample_terminal)" by code_simp
  have "bg_attempt_id sample_terminal = ''a1''" by code_simp
  with terminal_commit_is_once [OF background_inv_samples(2) s_committed_Ok
      [folded s_committed_eq], OF steps_committed_delivered, of 20] w at
  show ?thesis by auto
qed

text \<open>
  The owner lease fences an executing attempt. Once the lease has expired, or for a caller that
  is not the owner of record, heartbeat, progress and terminal commit are refused and write nothing.
\<close>

theorem lost_owner_is_fenced:
  assumes "map_of (si_background_subagents s) k = Some c"
    and "\<not> background_execution_is_terminal (bg_execution_status c)"
    and "bg_attempt_id r = k"
    and "background_owner_expired_at (bg_owner_lease c) now
       \<or> (\<not> same_background_owner c r
          \<and> (h, g) \<noteq> (bol_host_instance_id (bg_owner_lease c), bol_fencing_generation (bg_owner_lease c)))"
  shows "refused (heartbeat_background_subagent now k h g e) s
     \<and> refused (update_background_subagent_execution now r) s
     \<and> refused (commit_background_terminal benv now r artifact limits) s"
  using assms(4)
proof
  assume "background_owner_expired_at (bg_owner_lease c) now"
  then show ?thesis using lost_owner_refused [OF assms(1,2)] assms(3) by blast
qed (use other_owner_refused [OF assms(1,2)] assms(3) in blast)

theorem lost_owner_is_fenced_witness:
  "refused (heartbeat_background_subagent 95 ''a1'' ''hostA'' 1 300) s_running
     \<and> refused (update_background_subagent_execution 95 (executing BgWaiting 95)) s_running
     \<and> refused (commit_background_terminal sample_benv 95 (executing BgWaiting 95) None None) s_running"
proof (rule lost_owner_is_fenced)
  show "map_of (si_background_subagents s_running) ''a1'' = Some (executing BgRunning 13)" by code_simp
  show "\<not> background_execution_is_terminal (bg_execution_status (executing BgRunning 13))" by code_simp
  show "bg_attempt_id (executing BgWaiting 95) = ''a1''" by code_simp
  have "background_owner_expired_at (bg_owner_lease (executing BgRunning 13)) 95" by code_simp
  then show "background_owner_expired_at (bg_owner_lease (executing BgRunning 13)) 95
     \<or> (\<not> same_background_owner (executing BgRunning 13) (executing BgWaiting 95)
          \<and> (''hostA'', 1) \<noteq> (bol_host_instance_id (bg_owner_lease (executing BgRunning 13)),
               bol_fencing_generation (bg_owner_lease (executing BgRunning 13))))" ..
qed

text \<open>
  C21. Artifacts respect the host quota. When a commit stores an artifact, the artifact is within the
  single limit, the unexpired artifacts of the namespace together are within the retained limit, and
  the artifact can be loaded until it expires. The sum is over natural numbers; the only limit that
  the saturating addition of the code cannot enforce is the largest 64-bit number, which is no limit.
\<close>

theorem artifacts_within_quota:
  assumes "store_inv s"
    and "commit_background_terminal benv now r (Some a) (Some l) s = (Ok x, s')"
    and "map_of (si_background_subagents s) (bg_attempt_id r) = Some c"
    and "\<not> background_execution_is_terminal (bg_execution_status c)"
    and "al_max_retained_bytes l \<noteq> - 1"
  shows "ba_size_bytes a \<le> al_max_single_bytes l
     \<and> retained_in (bg_namespace_id r) now s' \<le> unat (al_max_retained_bytes l)
     \<and> (\<forall>t. now \<le> t \<longrightarrow> load_background_subagent_artifact benv t (ba_artifact_ref a) s' =
          (if t < ba_expires_at a then Ok a else Err (NotFound (ba_artifact_ref a))))"
proof -
  have "artifact_is_valid benv a"
    using commit_artifact_valid [OF store_invD(6) [OF assms(1)] assms(2-4)] .
  with commit_within_quota [OF store_invD(6) [OF assms(1)] assms(2-5)] show ?thesis
    by (simp add: load_background_subagent_artifact_def)
qed

theorem artifacts_within_quota_witness:
  "retained_in ''local'' 14 s_committed \<le> 20"
proof -
  have at: "map_of (si_background_subagents s_running) (bg_attempt_id sample_terminal)
      = Some (executing BgRunning 13)" by code_simp
  have run: "\<not> background_execution_is_terminal (bg_execution_status (executing BgRunning 13))" by code_simp
  have lim: "al_max_retained_bytes sample_limits \<noteq> - 1" by code_simp
  have "bg_namespace_id sample_terminal = ''local''" "unat (al_max_retained_bytes sample_limits) = 20"
    by code_simp+
  with artifacts_within_quota [OF background_inv_samples(2) s_committed_Ok [folded s_committed_eq] at run lim]
  show ?thesis by simp
qed

text \<open>
  C22. Reconciliation settles what a lost host left behind. It never fails; afterwards no attempt of
  the namespace executes under an expired owner lease, and an expired delivery claim remains only
  while its consumer run is active under a live admission lease.
\<close>

theorem background_recovery_settles:
  assumes "store_inv s"
  shows "\<exists>changed s'. reconcile_background_subagents benv ns now s = (Ok changed, s')
     \<and> (\<forall>k r. map_of (si_background_subagents s') k = Some r \<longrightarrow> bg_namespace_id r = ns \<longrightarrow>
          (background_execution_is_terminal (bg_execution_status r)
           \<or> \<not> background_owner_expired_at (bg_owner_lease r) now)
          \<and> (\<forall>c. bg_delivery_status r = Claimed \<longrightarrow> bg_delivery_claim r = Some c \<longrightarrow>
               bdc_deadline c \<le> now \<longrightarrow>
               (\<exists>run_id status. claim_consumer s' r c = Some (run_id, status)
                  \<and> run_status_is_active status \<and> consumer_is_live s' r run_id now)))"
proof -
  obtain changed where ok: "reconcile_background_subagents benv ns now s
      = (Ok changed, snd (reconcile_background_subagents benv ns now s))"
    using reconcile_never_fails [of benv ns now s] by (metis prod.collapse)
  note S = reconcile_settles [OF store_invD(6) [OF assms] ok, unfolded settled_at_def]
  show ?thesis
    by (intro exI conjI, rule ok) (use S in \<open>auto simp: claim_is_expired_def\<close>)
qed

theorem background_recovery_settles_witness:
  "(\<exists>r. map_of (si_background_subagents
        (snd (reconcile_background_subagents sample_benv ''local'' 95 s_running))) ''a1'' = Some r
      \<and> bg_execution_status r = BgFailed)
   \<and> (\<exists>changed s'. reconcile_background_subagents sample_benv ''local'' 95 s_running = (Ok changed, s'))"
proof
  show "\<exists>r. map_of (si_background_subagents
        (snd (reconcile_background_subagents sample_benv ''local'' 95 s_running))) ''a1'' = Some r
      \<and> bg_execution_status r = BgFailed"
    by (rule exI [of _ "host_lost 95 (executing BgRunning 13)"]) code_simp
  show "\<exists>changed s'. reconcile_background_subagents sample_benv ''local'' 95 s_running = (Ok changed, s')"
    using background_recovery_settles [OF background_inv_samples(2), of sample_benv "''local''" 95] by blast
qed

text \<open>
  A result is delivered by one claim. While a claim is held, another claim, and an
  acknowledgement or release under another id, are refused and write nothing. Once a result is
  delivered, claims and releases are refused; the acknowledgement of the delivering claim is repeated
  without effect and any other is refused.
\<close>

theorem delivery_is_exclusive:
  assumes "map_of (si_background_subagents s) k = Some r"
  shows "(\<forall>c. bg_delivery_status r = Claimed \<and> bg_delivery_claim r = Some c \<and> now < bdc_deadline c \<longrightarrow>
        (\<forall>c'. c' \<noteq> c \<longrightarrow> refused (claim_background_subagent_delivery now k c') s)
        \<and> (\<forall>i rel. i \<noteq> bdc_claim_id c \<longrightarrow> refused (acknowledge_background_subagent_delivery now k i) s
             \<and> refused (release_background_subagent_delivery now k i rel) s))
     \<and> (bg_delivery_status r = Delivered \<longrightarrow>
        (\<forall>c. refused (claim_background_subagent_delivery now k c) s)
        \<and> (\<forall>i rel. refused (release_background_subagent_delivery now k i rel) s)
        \<and> (\<forall>i. if bg_delivered_claim_id r = Some i
               then acknowledge_background_subagent_delivery now k i s = (Ok r, s)
               else refused (acknowledge_background_subagent_delivery now k i) s))"
  using delivery_exclusive [OF assms] delivered_refuses [OF assms] by auto

theorem delivery_is_exclusive_witness:
  "refused (acknowledge_background_subagent_delivery 20 ''a1'' ''other'') s_delivered
     \<and> acknowledge_background_subagent_delivery 20 ''a1'' ''claim'' s_delivered
       = (Ok (deliver ''claim'' None 16 sample_terminal), s_delivered)"
proof -
  have at: "map_of (si_background_subagents s_delivered) ''a1''
      = Some (deliver ''claim'' None 16 sample_terminal)" by code_simp
  have st: "bg_delivery_status (deliver ''claim'' None 16 sample_terminal) = Delivered"
    "bg_delivered_claim_id (deliver ''claim'' None 16 sample_terminal) = Some ''claim''" by code_simp+
  from delivery_is_exclusive [OF at, of 20] st show ?thesis by (auto split: if_splits)
qed

text \<open>
  C24. A continuation is admitted and its result delivered together. Acquisition fails and changes
  nothing, or replays the receipt of a result delivered by the same claim and changes nothing, or
  in one transaction admits the run under a live lease and marks exactly this attempt delivered by the
  requested claim, with the admitted run as its continuation; the input of the admitted run is derived
  from the stored result.
\<close>

theorem continuation_is_atomic:
  assumes "store_inv s"
    and "acquire_background_subagent_continuation benv now t_adm t_write request s = (x, s')"
  shows "(\<not> is_ok x \<and> s' = s)
     \<or> (\<exists>c. x = Ok c \<and> s' = s \<and> rar_idempotent_replay (ctr_admission c)
          \<and> bg_delivery_status (ctr_background c) = Delivered
          \<and> bg_delivered_claim_id (ctr_background c) = Some (acr_claim_id request))
     \<or> (\<exists>c s1 r. x = Ok c
          \<and> acquire_run_admission t_adm (acr_admission request) s = (Ok (ctr_admission c), s1)
          \<and> map_of (si_background_subagents s) (acr_attempt_id request) = Some r
          \<and> bg_delivery_status r = Undelivered
          \<and> s' = put_background (acr_attempt_id request) (ctr_background c) s1
          \<and> si_background_subagents s1 = si_background_subagents s
          \<and> bg_delivery_status (ctr_background c) = Delivered
          \<and> bg_delivered_claim_id (ctr_background c) = Some (acr_claim_id request)
          \<and> bg_continuation_run_id (ctr_background c) = Some (rr_run_id (rar_run (ctr_admission c)))
          \<and> (\<exists>content. continuation_artifact_content benv s r now = Ok content
               \<and> rr_input (rar_run (ctr_admission c)) = continuation_input r content))"
  using assms(2)
proof (cases rule: acquire_continuation_cases)
  case (replayed r c)
  show ?thesis
    using replay_continuation_delivered [OF store_invD(6) [OF assms(1)] replayed(1,3)] replayed(4,5) by blast
next
  case (admitted r adm s1)
  show ?thesis
    using continuation_admitted [OF store_invD(6) [OF assms(1)] admitted] by blast
qed blast

theorem continuation_is_atomic_witness:
  "\<exists>c. acquire_background_subagent_continuation sample_benv 60 60 60 continuation_request s_idle
       = (Ok c, s_continued)
     \<and> bg_delivery_status (ctr_background c) = Delivered
     \<and> bg_delivered_claim_id (ctr_background c) = Some ''auto''"
proof -
  obtain c where ok: "acquire_background_subagent_continuation sample_benv 60 60 60 continuation_request s_idle
      = (Ok c, s_continued)"
    using s_continued_Ok by (rule ok_resultE) (auto simp: s_continued_def)
  have "acr_claim_id continuation_request = ''auto''" by code_simp
  with continuation_is_atomic [OF background_inv_samples(5) ok] ok show ?thesis by auto
qed

section \<open>Run evidence\<close>

text \<open>
  C23. Run evidence is durable. Over any execution of record and evidence operations the checkpoints of
  a run only grow at the end, its stream records are never lost and stay in strictly ascending order of
  sequence. A fenced commit of a checkpoint that is stored is acknowledged again, whatever has become of
  the lease, without any write; a fenced commit of a checkpoint that is not stored is refused without
  the live lease, and nothing is written. (The unfenced commits of the store take no lease.)
\<close>

theorem run_evidence_is_durable:
  assumes "(evidence_step env benv)\<^sup>*\<^sup>* evidence_new es" and "(evidence_step env benv)\<^sup>*\<^sup>* es es'"
    and "rt_session_id (lease_target lease) = sid" and "rt_run_id (lease_target lease) = cp_run_id cp"
  shows "prefix (load_checkpoint_records sid (cp_run_id cp) es) (load_checkpoint_records sid (cp_run_id cp) es')
    \<and> set (replay_stream_record_batch sid (cp_run_id cp) es) \<subseteq> set (replay_stream_record_batch sid (cp_run_id cp) es')
    \<and> sorted_wrt (<) (map asr_sequence (replay_stream_record_batch sid (cp_run_id cp) es'))
    \<and> (cp \<in> set (load_checkpoint_records sid (cp_run_id cp) es) \<longrightarrow>
        commit_checkpoint_fenced eenv now lease cp es' = (Ok (), es'))
    \<and> (cp \<notin> set (load_checkpoint_records sid (cp_run_id cp) es')
         \<and> \<not> is_ok (ensure_active_admission_locked (es_store es') lease now) \<longrightarrow>
        \<not> is_ok (fst (commit_checkpoint_fenced eenv now lease cp es'))
        \<and> snd (commit_checkpoint_fenced eenv now lease cp es') = es')"
proof -
  have inv: "evidence_inv es"
    using assms(1) by (rule evidence.reachable_inv)
  then have inv': "evidence_inv es'"
    by (rule evidence.steps_inv [OF assms(2)])
  have ext: "evidence_extends es es'"
    using assms(2) inv by (rule evidence_steps_extend)
  let ?cps = "load_checkpoint_records sid (cp_run_id cp)"
  have grow: "prefix (?cps es) (?cps es')"
    using ext by (simp add: evidence_extends_def load_checkpoint_records_def run_key_def)
  moreover have "set (replay_stream_record_batch sid (cp_run_id cp) es)
      \<subseteq> set (replay_stream_record_batch sid (cp_run_id cp) es')"
    using ext by (simp add: evidence_extends_def replay_stream_record_batch_def run_key_def)
  moreover have "sorted_wrt (<) (map asr_sequence (replay_stream_record_batch sid (cp_run_id cp) es'))"
    using inv' by (simp add: evidence_inv_def logs_ascending_def ascending_def strict_sorted_iff
        replay_stream_record_batch_def run_key_def)
  moreover have "commit_checkpoint_fenced eenv now lease cp es' = (Ok (), es')" if "cp \<in> set (?cps es)"
    using commit_fenced_retry [OF inv' assms(4)] set_mono_prefix [OF grow] that assms(3) by blast
  moreover have "\<not> is_ok (fst (commit_checkpoint_fenced eenv now lease cp es'))
      \<and> snd (commit_checkpoint_fenced eenv now lease cp es') = es'"
    if "cp \<notin> set (?cps es')" "\<not> is_ok (ensure_active_admission_locked (es_store es') lease now)"
    using commit_fenced_needs_lease [OF that(2), of cp eenv] that(1) assms(3) by auto
  ultimately show ?thesis
    by (intro conjI impI) simp_all
qed

theorem run_evidence_is_durable_witness:
  "load_checkpoint_records ''s'' ''r1'' e_committed = [sample_checkpoint ''k1'']
   \<and> commit_checkpoint_fenced sample_eenv 500 lease_a (sample_checkpoint ''k1'') e_streamed = (Ok (), e_streamed)
   \<and> \<not> is_ok (fst (commit_checkpoint_fenced sample_eenv 500 lease_a (sample_checkpoint ''k2'') e_streamed))"
proof -
  have lease: "rt_session_id (lease_target lease_a) = ''s''"
    "rt_run_id (lease_target lease_a) = cp_run_id (sample_checkpoint i)" for i
    by (simp_all add: lease_a_def sample_lease_def managed_run_target_new_def sample_checkpoint_def)
  have run: "cp_run_id (sample_checkpoint i) = ''r1''" for i
    by (simp add: sample_checkpoint_def)
  have kept: "load_checkpoint_records ''s'' ''r1'' e_streamed = [sample_checkpoint ''k1'']"
    by code_simp
  have "sample_checkpoint ''k2'' \<noteq> sample_checkpoint ''k1''"
    by (simp add: sample_checkpoint_def)
  then show ?thesis
    using run_evidence_is_durable [OF reach_checkpointed steps_committed_streamed lease(1) lease(2) [of "''k1''"],
        of sample_eenv 500]
      run_evidence_is_durable [OF reach_checkpointed steps_committed_streamed lease(1) lease(2) [of "''k2''"],
        of sample_eenv 500]
      committed_checkpoints kept streamed_no_lease
    by (simp add: run)
qed

end
